(* ===== verification/Prelude.thy ===== *)
theory Prelude
  imports Main "HOL-Library.Word" "HOL-Library.Monad_Syntax" "HOL-Library.Signed_Division"
begin

text \<open>
  Shared vocabulary of the development: the C integer types, the failure monad used for
  undefined behaviour, the first-fit search loop that the kernel repeats over its static
  tables, and little-endian views of byte memory.

  Undefined behaviour of the C code (an index outside its array, a read of an
  uninitialised variable, a store past the end of a buffer) is the value \<^term>\<open>None\<close> of
  an option type; a C function that is always defined is modelled by a total function.
\<close>

unbundle bit_operations_syntax

type_synonym u8 = "8 word"
type_synonym u32 = "32 word"
type_synonym u64 = "64 word"

named_theorems frame_simps \<open>fields an operation leaves alone\<close>

section \<open>Defined and undefined results\<close>

definition ensure :: "bool \<Rightarrow> unit option" where
  "ensure b = (if b then Some () else None)"

lemma ensure_simps [simp]:
  "ensure True = Some ()" "ensure False = None"
  "ensure b = Some u \<longleftrightarrow> b" "ensure b = None \<longleftrightarrow> \<not> b"
  by (auto simp: ensure_def)

lemma if_Some_None: "((if c then Some a else None) = Some b) \<longleftrightarrow> c \<and> b = a"
  by auto

lemma bind_ensure [simp]:
  "Option.bind (ensure b) f = (if b then f () else None)"
  by (simp add: ensure_def)

section \<open>First-fit search\<close>

text \<open>
  \<open>find_from P i n\<close> is the loop \<open>for (; i < n; i++) if (P(i)) return i;\<close> and \<^term>\<open>None\<close>
  when the loop falls through.
\<close>

function find_from :: "(nat \<Rightarrow> bool) \<Rightarrow> nat \<Rightarrow> nat \<Rightarrow> nat option" where
  "find_from P i n = (if i < n then if P i then Some i else find_from P (Suc i) n else None)"
  by pat_completeness auto
termination
  by (relation "measure (\<lambda>(P, i, n). n - i)") auto

declare find_from.simps [simp del]

lemma find_from_SomeD:
  "find_from P i n = Some k \<Longrightarrow> i \<le> k \<and> k < n \<and> P k \<and> (\<forall>j. i \<le> j \<and> j < k \<longrightarrow> \<not> P j)"
proof (induction P i n rule: find_from.induct)
  case (1 P i n)
  from "1.prems" have lt: "i < n" by (subst (asm) find_from.simps) (auto split: if_splits)
  show ?case
  proof (cases "P i")
    case True
    with lt "1.prems" show ?thesis by (subst (asm) find_from.simps) auto
  next
    case False
    with lt "1.prems" have "find_from P (Suc i) n = Some k"
      by (subst (asm) find_from.simps) simp
    from "1.IH" [OF lt False this] False show ?thesis
      by (metis Suc_leD Suc_leI le_neq_implies_less)
  qed
qed

lemma find_from_NoneD: "find_from P i n = None \<Longrightarrow> i \<le> j \<Longrightarrow> j < n \<Longrightarrow> \<not> P j"
proof (induction P i n rule: find_from.induct)
  case (1 P i n)
  then have lt: "i < n" by simp
  with "1.prems"(1) have ni: "\<not> P i" and rest: "find_from P (Suc i) n = None"
    by (subst (asm) find_from.simps, auto split: if_splits)+
  show ?case
  proof (cases "j = i")
    case True
    with ni show ?thesis by simp
  next
    case False
    with "1.prems"(2) have "Suc i \<le> j" by simp
    from "1.IH" [OF lt ni rest this "1.prems"(3)] show ?thesis .
  qed
qed

lemma find_from_exists:
  assumes "i \<le> k" "k < n" "P k"
  obtains j where "find_from P i n = Some j" "j \<le> k"
proof (cases "find_from P i n")
  case None
  with find_from_NoneD [OF None assms(1,2)] assms(3) show ?thesis by simp
next
  case (Some j)
  with find_from_SomeD [OF Some] assms have "j \<le> k" by (meson not_le_imp_less)
  with Some that show ?thesis by blast
qed

lemma find_from_None_iff: "find_from P i n = None \<longleftrightarrow> (\<forall>j. i \<le> j \<and> j < n \<longrightarrow> \<not> P j)"
proof
  assume none: "\<forall>j. i \<le> j \<and> j < n \<longrightarrow> \<not> P j"
  show "find_from P i n = None"
  proof (cases "find_from P i n")
    case (Some k)
    from find_from_SomeD [OF this] none show ?thesis by blast
  qed
qed (blast dest: find_from_NoneD)

lemma find_from_Some_iff:
  "find_from P i n = Some k \<longleftrightarrow>
     i \<le> k \<and> k < n \<and> P k \<and> (\<forall>j. i \<le> j \<and> j < k \<longrightarrow> \<not> P j)"
proof
  assume "i \<le> k \<and> k < n \<and> P k \<and> (\<forall>j. i \<le> j \<and> j < k \<longrightarrow> \<not> P j)"
  then have k: "i \<le> k" "k < n" "P k" and least: "\<And>j. i \<le> j \<Longrightarrow> j < k \<Longrightarrow> \<not> P j" by blast+
  obtain j where j: "find_from P i n = Some j" "j \<le> k" using find_from_exists [of i k n P] k by blast
  from find_from_SomeD [OF j(1)] least [of j] j(2) have "j = k" by (cases "j < k") auto
  with j(1) show "find_from P i n = Some k" by simp
qed (rule find_from_SomeD)

lemma find_from_cong:
  "(\<And>j. i \<le> j \<Longrightarrow> j < n \<Longrightarrow> P j = R j) \<Longrightarrow> find_from P i n = find_from R i n"
proof (cases "find_from R i n")
  case None
  assume "\<And>j. i \<le> j \<Longrightarrow> j < n \<Longrightarrow> P j = R j"
  with None show ?thesis by (simp add: find_from_None_iff [THEN iffD2] find_from_None_iff)
next
  case (Some k)
  assume eq: "\<And>j. i \<le> j \<Longrightarrow> j < n \<Longrightarrow> P j = R j"
  from find_from_SomeD [OF Some] eq have "find_from P i n = Some k"
    by (auto simp: find_from_Some_iff)
  with Some show ?thesis by simp
qed

text \<open>The same loop when the test itself may be undefined.\<close>

function find_fail :: "(nat \<Rightarrow> bool option) \<Rightarrow> nat \<Rightarrow> nat \<Rightarrow> nat option option" where
  "find_fail P i n =
     (if i < n
      then (case P i of None \<Rightarrow> None | Some True \<Rightarrow> Some (Some i) | Some False \<Rightarrow> find_fail P (Suc i) n)
      else Some None)"
  by pat_completeness auto
termination
  by (relation "measure (\<lambda>(P, i, n). n - i)") auto

declare find_fail.simps [simp del]

lemma find_fail_total:
  "(\<And>j. i \<le> j \<Longrightarrow> j < n \<Longrightarrow> P j = Some (R j)) \<Longrightarrow> find_fail P i n = Some (find_from R i n)"
proof (induction P i n rule: find_fail.induct)
  case (1 P i n)
  show ?case
  proof (cases "i < n")
    case True
    then have Pi: "P i = Some (R i)" using "1.prems" by simp
    show ?thesis
    proof (cases "R i")
      case True
      then show ?thesis using \<open>i < n\<close> Pi by (subst find_fail.simps, subst find_from.simps) simp
    next
      case False
      then have "find_fail P (Suc i) n = Some (find_from R (Suc i) n)"
        using "1.IH" \<open>i < n\<close> Pi "1.prems" by simp
      then show ?thesis using \<open>i < n\<close> Pi False by (subst find_fail.simps, subst find_from.simps) simp
    qed
  qed (subst find_fail.simps, subst find_from.simps, simp)
qed

section \<open>Loops over a list of indices\<close>

text \<open>\<open>for_each f is s\<close> runs \<open>f i\<close> on the state for each index in turn; \<^term>\<open>None\<close> stops it.\<close>

fun for_each :: "('i \<Rightarrow> 's \<Rightarrow> 's option) \<Rightarrow> 'i list \<Rightarrow> 's \<Rightarrow> 's option" where
  "for_each f [] s = Some s"
| "for_each f (i # is) s = do { s' \<leftarrow> f i s; for_each f is s' }"

lemma for_each_append:
  "for_each f (xs @ ys) s = do { s' \<leftarrow> for_each f xs s; for_each f ys s' }"
  by (induction xs arbitrary: s) (auto split: bind_splits)

text \<open>An invariant indexed by the iterations done.\<close>

lemma for_each_upt:
  assumes "P 0 s" and "\<And>i s. i < n \<Longrightarrow> P i s \<Longrightarrow> \<exists>s'. f i s = Some s' \<and> P (Suc i) s'"
  shows "\<exists>s'. for_each f [0..<n] s = Some s' \<and> P n s'"
  using assms(2)
proof (induction n)
  case 0
  show ?case using assms(1) by simp
next
  case (Suc n)
  then obtain s' where "for_each f [0..<n] s = Some s'" "P n s'" by fastforce
  with Suc.prems [of n s'] show ?case by (auto simp: for_each_append)
qed

lemma for_each_upt_Some:
  assumes "for_each f [0..<n] s = Some s'" and "P 0 s"
    and "\<And>i s s'. i < n \<Longrightarrow> P i s \<Longrightarrow> f i s = Some s' \<Longrightarrow> P (Suc i) s'"
  shows "P n s'"
  using assms(1,3)
proof (induction n arbitrary: s')
  case 0
  then show ?case using assms(2) by simp
next
  case (Suc n)
  then obtain t where t: "for_each f [0..<n] s = Some t" "f n t = Some s'"
    by (auto simp: for_each_append split: bind_splits)
  have "P n t" using Suc.IH [OF t(1)] Suc.prems(2) by simp
  then show ?case using Suc.prems(2) t(2) by simp
qed

section \<open>Block updates of a byte map\<close>

text \<open>\<open>blit f d n g\<close> is the map \<open>f\<close> with the \<open>n\<close> entries from \<open>d\<close> on replaced by \<open>g 0, g 1, \<dots>\<close>.\<close>

definition blit :: "(nat \<Rightarrow> 'a) \<Rightarrow> nat \<Rightarrow> nat \<Rightarrow> (nat \<Rightarrow> 'a) \<Rightarrow> nat \<Rightarrow> 'a" where
  "blit f d n g = (\<lambda>i. if d \<le> i \<and> i < d + n then g (i - d) else f i)"

lemma blit_0 [simp]: "blit f d 0 g = f"
  by (rule ext) (auto simp: blit_def)

lemma blit_Suc: "blit f d (Suc n) g = blit (f(d := g 0)) (Suc d) n (\<lambda>k. g (Suc k))"
  by (rule ext) (auto simp: blit_def Suc_diff_Suc)

lemma blit_inside: "k < n \<Longrightarrow> blit f d n g (d + k) = g k"
  by (simp add: blit_def)

lemma blit_outside: "i < d \<or> d + n \<le> i \<Longrightarrow> blit f d n g i = f i"
  by (auto simp: blit_def)

text \<open>The list of the first entries of an updated map.\<close>

lemma upt_split: "[0..<a + b] = [0..<a] @ map (\<lambda>k. a + k) [0..<b]"
proof -
  have "[a..<a + b] = map (\<lambda>k. a + k) [0..<b]" by (simp add: list_eq_iff_nth_eq)
  then show ?thesis using upt_add_eq_append [of 0 a b] by simp
qed

lemma map_blit_append: "map (blit f a b g) [0..<a + b] = map f [0..<a] @ map g [0..<b]"
  unfolding upt_split by (auto simp: blit_def comp_def)

lemma blit_cong: "(\<And>k. k < n \<Longrightarrow> g k = g' k) \<Longrightarrow> blit f d n g = blit f d n g'"
  by (rule ext) (auto simp: blit_def)

section \<open>Little-endian words in byte memory\<close>

definition byte_of :: "'a::len word \<Rightarrow> nat \<Rightarrow> u8" where
  "byte_of w k = ucast (drop_bit (8 * k) w)"

definition le32 :: "(nat \<Rightarrow> u8) \<Rightarrow> u32" where
  "le32 f = ucast (f 0) OR push_bit 8 (ucast (f 1)) OR push_bit 16 (ucast (f 2))
     OR push_bit 24 (ucast (f 3))"

lemma bit_byte_of: "bit (byte_of w k) n \<longleftrightarrow> n < 8 \<and> bit w (8 * k + n)" for w :: "'a::len word"
  by (auto simp: byte_of_def bit_simps)

lemma bit_le32:
  "bit (le32 f) n \<longleftrightarrow> n < 32 \<and> bit (f (n div 8)) (n mod 8)"
proof (cases "n < 32")
  case True
  then have "n div 8 = 0 \<and> n < 8 \<or> n div 8 = 1 \<and> 8 \<le> n \<and> n < 16 \<or> n div 8 = 2 \<and> 16 \<le> n \<and> n < 24
     \<or> n div 8 = 3 \<and> 24 \<le> n" by auto
  moreover have "n mod 8 = n - 8 * (n div 8)" by (simp add: modulo_nat_def mult.commute)
  ultimately show ?thesis using True
    by (auto simp: le32_def bit_simps dest: bit_imp_le_length)
qed (auto simp: le32_def bit_simps dest: bit_imp_le_length)

lemma le32_byte_of [simp]: "le32 (byte_of w) = w"
proof (rule bit_word_eqI)
  fix n :: nat
  assume "n < LENGTH(32)"
  then have "n < 32" by simp
  moreover have "8 * (n div 8) + n mod 8 = n" by simp
  ultimately show "bit (le32 (byte_of w)) n = bit w n" by (simp add: bit_le32 bit_byte_of)
qed

definition le64 :: "(nat \<Rightarrow> u8) \<Rightarrow> u64" where
  "le64 f = ucast (le32 f) OR push_bit 32 (ucast (le32 (\<lambda>k. f (4 + k))))"

lemma le64_byte_of [simp]: "le64 (byte_of w) = w"
proof (rule bit_word_eqI)
  fix n :: nat
  assume "n < LENGTH(64)"
  moreover have "8 * (4 + (n - 32) div 8) + (n - 32) mod 8 = n" if "32 \<le> n"
    using that by (simp add: algebra_simps)
  moreover have "8 * (n div 8) + n mod 8 = n" by simp
  ultimately show "bit (le64 (byte_of w)) n = bit w n"
    by (cases "n < 32") (auto simp: le64_def bit_simps bit_le32 bit_byte_of)
qed

lemma le32_cong: "(\<And>k. k < 4 \<Longrightarrow> f k = g k) \<Longrightarrow> le32 f = le32 g"
  by (simp add: le32_def)

section \<open>Signed arithmetic\<close>

text \<open>C's signed division and remainder, on operands that are not negative, and signed words.\<close>

lemma sdiv_pos: "0 \<le> a \<Longrightarrow> 0 < b \<Longrightarrow> a sdiv b = a div b" for a b :: int
  by (cases "a = 0") (simp_all add: signed_divide_int_def sgn_if)

lemma smod_pos: "0 \<le> a \<Longrightarrow> 0 < b \<Longrightarrow> a smod b = a mod b" for a b :: int
  by (cases "a = 0") (simp_all add: signed_modulo_int_def sgn_if)

lemma sint_nonneg: "0 \<le> sint w \<Longrightarrow> sint w = uint w" for w :: "'a::len word"
  using sint_lt [of w] by (subst uint_sint) (simp add: take_bit_int_eq_self power_strict_increasing [of _ "LENGTH('a)" "2 :: int"] less_trans [of "sint w" "2 ^ (LENGTH('a) - 1)"])

lemma sint_bounds64: "- 9223372036854775808 \<le> sint w \<and> sint w < 9223372036854775808" for w :: u64
  using sint_ge [of w] sint_lt [of w] by simp

lemma sint_uminus64: "sint w \<noteq> - 9223372036854775808 \<Longrightarrow> sint (- w) = - sint w" for w :: u64
  using sint_bounds64 [of w] by (simp add: sint_word_minus signed_take_bit_int_eq_self)

lemma unat_of_nat32: "k < 4294967296 \<Longrightarrow> unat (of_nat k :: u32) = k"
  by (simp add: unat_of_nat)

lemma sint_small: "- 2147483648 \<le> k \<Longrightarrow> k < 2147483648 \<Longrightarrow> sint (word_of_int k :: u32) = k"
  by (simp add: signed_of_int signed_take_bit_int_eq_self)

text \<open>The sum of two \<open>int\<close>s in a 32-bit register: it wraps.\<close>

definition int_add :: "int \<Rightarrow> int \<Rightarrow> int" where
  "int_add a b = sint (word_of_int (a + b) :: u32)"

lemma int_add_small: "- 2147483648 \<le> a + b \<Longrightarrow> a + b < 2147483648 \<Longrightarrow> int_add a b = a + b"
  unfolding int_add_def by (rule sint_small)

lemma int_add_wraps:
  assumes "2147483648 \<le> a + b" "a + b < 4294967296"
  shows "int_add a b = a + b - 4294967296"
proof -
  have z: "(word_of_int 4294967296 :: u32) = 0" by code_simp
  have "(word_of_int (a + b) :: u32) = word_of_int (a + b - 4294967296)"
    unfolding of_int_diff [of "a + b"] z by simp
  then show ?thesis using sint_small [of "a + b - 4294967296"] assms by (simp add: int_add_def del: of_int_add of_int_diff)
qed

end
