(* ===== verification/DList.thy ===== *)
theory DList
  imports Prelude
begin

text \<open>
  The intrusive doubly linked lists of \<open>include/os/list.h\<close>. A heap of list nodes is a pair
  of maps, one for the \<open>next\<close> and one for the \<open>prev\<close> pointers; the list macros are sequences
  of pointer stores. \<open>queue h q xs\<close> says that the ring with head node \<open>q\<close> holds exactly the
  nodes \<open>xs\<close> in order, and the lemmas show that each macro is the list operation it is
  named after and leaves every disjoint ring alone.
\<close>

section \<open>Nodes and macros\<close>

record 'n links =
  lnext :: "'n \<Rightarrow> 'n"
  lprev :: "'n \<Rightarrow> 'n"

definition set_next :: "'n \<Rightarrow> 'n \<Rightarrow> 'n links \<Rightarrow> 'n links" where
  "set_next n v h = h\<lparr>lnext := (lnext h)(n := v)\<rparr>"

definition set_prev :: "'n \<Rightarrow> 'n \<Rightarrow> 'n links \<Rightarrow> 'n links" where
  "set_prev n v h = h\<lparr>lprev := (lprev h)(n := v)\<rparr>"

lemma set_link_simps [simp]:
  "lnext (set_next n v h) = (lnext h)(n := v)" "lprev (set_next n v h) = lprev h"
  "lnext (set_prev n v h) = lnext h" "lprev (set_prev n v h) = (lprev h)(n := v)"
  by (simp_all add: set_next_def set_prev_def)

definition LIST_IS_EMPTY :: "'n \<Rightarrow> 'n links \<Rightarrow> bool" where
  "LIST_IS_EMPTY head h \<longleftrightarrow> lnext h head = head"

definition LIST_ADD_HEAD :: "'n \<Rightarrow> 'n \<Rightarrow> 'n links \<Rightarrow> 'n links" where
  "LIST_ADD_HEAD head node h0 =
     (let h1 = set_next node (lnext h0 head) h0;
          h2 = set_prev node head h1;
          h3 = set_prev (lnext h2 head) node h2
      in set_next head node h3)"

definition LIST_ADD_TAIL :: "'n \<Rightarrow> 'n \<Rightarrow> 'n links \<Rightarrow> 'n links" where
  "LIST_ADD_TAIL head node h0 =
     (let h1 = set_next node head h0;
          h2 = set_prev node (lprev h1 head) h1;
          h3 = set_next (lprev h2 head) node h2
      in set_prev head node h3)"

definition LIST_REMOVE :: "'n \<Rightarrow> 'n links \<Rightarrow> 'n links" where
  "LIST_REMOVE node h0 =
     (let h1 = set_next (lprev h0 node) (lnext h0 node) h0
      in set_prev (lnext h1 node) (lprev h1 node) h1)"

definition NODE_REFRESH :: "'n \<Rightarrow> 'n links \<Rightarrow> 'n links" where
  "NODE_REFRESH node h0 = set_prev node node (set_next node node h0)"

section \<open>Rings as lists\<close>

fun linked :: "'n links \<Rightarrow> 'n list \<Rightarrow> bool" where
  "linked h (x # y # zs) \<longleftrightarrow> lnext h x = y \<and> lprev h y = x \<and> linked h (y # zs)"
| "linked h _ \<longleftrightarrow> True"

definition queue :: "'n links \<Rightarrow> 'n \<Rightarrow> 'n list \<Rightarrow> bool" where
  "queue h q xs \<longleftrightarrow> distinct (q # xs) \<and> linked h (q # xs @ [q])"

definition self_linked :: "'n links \<Rightarrow> 'n \<Rightarrow> bool" where
  "self_linked h n \<longleftrightarrow> lnext h n = n \<and> lprev h n = n"

lemma linked_append:
  "linked h (xs @ y # ys) \<longleftrightarrow> linked h (xs @ [y]) \<and> linked h (y # ys)"
proof (induction xs)
  case Nil
  show ?case by simp
next
  case (Cons x xs)
  then show ?case by (cases xs) auto
qed

lemma linked_cong:
  "linked h zs \<Longrightarrow> (\<And>x. x \<in> set (butlast zs) \<Longrightarrow> lnext g x = lnext h x) \<Longrightarrow>
   (\<And>x. x \<in> set (tl zs) \<Longrightarrow> lprev g x = lprev h x) \<Longrightarrow> linked g zs"
  by (induction h zs rule: linked.induct) (auto split: if_splits)

lemma queue_Nil [simp]: "queue h q [] \<longleftrightarrow> self_linked h q"
  by (auto simp: queue_def self_linked_def)

lemma queueD:
  assumes "queue h q xs"
  shows "distinct (q # xs)" "linked h (q # xs @ [q])"
  using assms unfolding queue_def by blast+

lemma queueI: "distinct (q # xs) \<Longrightarrow> linked h (q # xs @ [q]) \<Longrightarrow> queue h q xs"
  unfolding queue_def by blast

lemma queue_distinct: "queue h q xs \<Longrightarrow> distinct xs \<and> q \<notin> set xs"
  using queueD(1) by fastforce

lemma linked_appendD:
  assumes "linked h (xs @ y # ys)"
  shows "linked h (xs @ [y])" "linked h (y # ys)"
  using assms linked_append [of h xs y ys] by blast+

lemma linked_appendI: "linked h (xs @ [y]) \<Longrightarrow> linked h (y # ys) \<Longrightarrow> linked h (xs @ y # ys)"
  using linked_append [of h xs y ys] by blast

lemma linked_tl: "linked h (x # zs) \<Longrightarrow> linked h zs"
  by (cases zs) simp_all

lemma last_split: "\<exists>zs. q # xs = zs @ [last (q # xs)]"
  by (metis append_butlast_last_id list.discI)

lemma hd_split: "\<exists>zs. xs @ [q] = hd (xs @ [q]) # zs"
  by (cases xs) auto

lemma queue_lnext: "queue h q xs \<Longrightarrow> lnext h q = hd (xs @ [q])"
  by (drule queueD(2)) (cases xs, simp_all)

lemma queue_lprev:
  assumes "queue h q xs"
  shows "lprev h q = last (q # xs)"
proof -
  obtain zs l where zs: "q # xs = zs @ [l]" and l: "l = last (q # xs)" using last_split by metis
  have "linked h ((q # xs) @ [q])" using queueD(2) [OF assms] by simp
  then have "linked h (zs @ l # [q])" unfolding zs by simp
  from linked_appendD(2) [OF this] show ?thesis unfolding l [symmetric] by simp
qed

lemma LIST_IS_EMPTY_queue:
  assumes "queue h q xs"
  shows "LIST_IS_EMPTY q h \<longleftrightarrow> xs = []"
  using queue_lnext [OF assms] queueD(1) [OF assms] by (cases xs) (auto simp: LIST_IS_EMPTY_def)

lemma queue_frame:
  assumes q: "queue h q xs"
    and n: "\<And>x. x \<in> set (q # xs) \<Longrightarrow> lnext g x = lnext h x"
    and p: "\<And>x. x \<in> set (q # xs) \<Longrightarrow> lprev g x = lprev h x"
  shows "queue g q xs"
proof (rule queueI [OF queueD(1) [OF q]], rule linked_cong [OF queueD(2) [OF q]])
  fix x assume "x \<in> set (butlast (q # xs @ [q]))"
  then show "lnext g x = lnext h x" by (intro n) (auto dest: in_set_butlastD)
next
  fix x assume "x \<in> set (tl (q # xs @ [q]))"
  then show "lprev g x = lprev h x" by (intro p) auto
qed

section \<open>The macros on rings\<close>

lemma queue_inner:
  assumes "queue h q (xs @ n # ys)"
  shows "lprev h n = last (q # xs)" "lnext h n = hd (ys @ [q])"
proof -
  have l: "linked h ((q # xs) @ n # (ys @ [q]))" using queueD(2) [OF assms] by simp
  obtain zs a where zs: "q # xs = zs @ [a]" and a: "a = last (q # xs)" using last_split by metis
  from linked_appendD(1) [OF l] have "linked h (zs @ a # [n])" unfolding zs by simp
  from linked_appendD(2) [OF this] show "lprev h n = last (q # xs)" unfolding a [symmetric] by simp
  obtain ws b where ws: "ys @ [q] = b # ws" and b: "b = hd (ys @ [q])" using hd_split by metis
  from linked_appendD(2) [OF l] have "linked h (n # b # ws)" unfolding ws .
  then show "lnext h n = hd (ys @ [q])" unfolding b [symmetric] by simp
qed

lemma queue_ADD_TAIL:
  assumes q: "queue h q xs" and n: "n \<notin> set (q # xs)"
  shows "queue (LIST_ADD_TAIL q n h) q (xs @ [n])"
proof -
  let ?g = "LIST_ADD_TAIL q n h"
  obtain zs l where zs: "q # xs = zs @ [l]" and l: "lprev h q = l"
    using last_split queue_lprev [OF q] by metis
  have nx: "lnext ?g = (lnext h)(n := q, l := n)" and pv: "lprev ?g = (lprev h)(n := l, q := n)"
    using n l by (auto simp: LIST_ADD_TAIL_def Let_def)
  have dq: "q \<notin> set xs" using queueD(1) [OF q] by simp
  have d: "distinct (zs @ [l])" "n \<notin> set (zs @ [l])"
    using queueD(1) [OF q] n unfolding zs by auto
  have tl: "set (tl (zs @ [l])) = set xs" unfolding zs [symmetric] by simp
  have "linked h ((q # xs) @ [q])" using queueD(2) [OF q] by simp
  then have "linked h (zs @ l # [q])" unfolding zs by simp
  from linked_appendD(1) [OF this] have "linked ?g (zs @ [l])"
  proof (rule linked_cong)
    fix x assume "x \<in> set (butlast (zs @ [l]))"
    then show "lnext ?g x = lnext h x" using d by (auto simp: nx)
  next
    fix x assume "x \<in> set (tl (zs @ [l]))"
    then show "lprev ?g x = lprev h x" using dq n by (auto simp: pv tl)
  qed
  moreover have "linked ?g [l, n, q]" using n d by (auto simp: nx pv)
  ultimately have "linked ?g (zs @ l # [n, q])" by (rule linked_appendI)
  then have "linked ?g ((q # xs) @ [n, q])" unfolding zs by simp
  then show ?thesis using queueD(1) [OF q] n by (intro queueI) auto
qed

lemma queue_ADD_HEAD:
  assumes q: "queue h q xs" and n: "n \<notin> set (q # xs)"
  shows "queue (LIST_ADD_HEAD q n h) q (n # xs)"
proof -
  let ?g = "LIST_ADD_HEAD q n h"
  obtain b ws where ws: "xs @ [q] = b # ws" and b: "lnext h q = b"
    using hd_split queue_lnext [OF q] by metis
  have d: "distinct (b # ws)" "n \<notin> set (b # ws)" "set (butlast (b # ws)) = set xs" "q \<notin> set xs"
    using queueD(1) [OF q] n unfolding ws [symmetric] by auto
  have nx: "lnext ?g = (lnext h)(n := b, q := n)" and pv: "lprev ?g = (lprev h)(n := q, b := n)"
    using n b by (auto simp: LIST_ADD_HEAD_def Let_def)
  have "linked h (q # (xs @ [q]))" by (rule queueD(2) [OF q])
  from linked_tl [OF this] have "linked h (b # ws)" unfolding ws .
  then have "linked ?g (b # ws)"
  proof (rule linked_cong)
    fix x assume "x \<in> set (butlast (b # ws))"
    then show "lnext ?g x = lnext h x" using d n unfolding d(3) by (auto simp: nx)
  next
    fix x assume "x \<in> set (tl (b # ws))"
    then show "lprev ?g x = lprev h x" using d by (auto simp: pv)
  qed
  moreover have "lnext ?g q = n" "lnext ?g n = b" "lprev ?g n = q" "lprev ?g b = n"
    using n d by (auto simp: nx pv)
  ultimately have "linked ?g (q # n # b # ws)" by simp
  then have "linked ?g (q # (n # xs) @ [q])" unfolding ws [symmetric] by simp
  then show ?thesis using queueD(1) [OF q] n by (intro queueI) auto
qed

lemma queue_REMOVE:
  assumes q: "queue h q (xs @ n # ys)"
  shows "queue (LIST_REMOVE n h) q (xs @ ys)"
proof -
  let ?g = "LIST_REMOVE n h"
  obtain zs a where zs: "q # xs = zs @ [a]" and a: "lprev h n = a"
    using last_split queue_inner(1) [OF q] by metis
  obtain b ws where ws: "ys @ [q] = b # ws" and b: "lnext h n = b"
    using hd_split queue_inner(2) [OF q] by metis
  have dq: "distinct (q # xs @ n # ys)" by (rule queueD(1) [OF q])
  have dz: "distinct (zs @ [a])" "n \<notin> set (zs @ [a])" "set (tl (zs @ [a])) = set xs"
    using dq unfolding zs [symmetric] by auto
  have dw: "distinct (b # ws)" "n \<notin> set (b # ws)" "set (butlast (b # ws)) = set ys"
    using dq unfolding ws [symmetric] by auto
  have "a \<in> set (q # xs)" unfolding zs by simp
  then have ays: "a \<notin> set ys" using dq by auto
  have "b \<in> set (ys @ [q])" unfolding ws by simp
  then have bxs: "b \<notin> set xs" using dq by auto
  have "a \<noteq> n" using dz(2) by auto
  then have nx: "lnext ?g = (lnext h)(a := b)" and pv: "lprev ?g = (lprev h)(b := a)"
    using a b by (auto simp: LIST_REMOVE_def Let_def)
  have l: "linked h ((q # xs) @ n # (ys @ [q]))" using queueD(2) [OF q] by simp
  from linked_appendD(1) [OF l] have "linked h (zs @ a # [n])" unfolding zs by simp
  from linked_appendD(1) [OF this] have "linked ?g (zs @ [a])"
    by (rule linked_cong) (use dz bxs in \<open>auto simp: nx pv\<close>)
  moreover from linked_tl [OF linked_appendD(2) [OF l]] have "linked h (b # ws)" unfolding ws .
  then have "linked ?g (b # ws)"
  proof (rule linked_cong)
    fix x assume "x \<in> set (butlast (b # ws))"
    then show "lnext ?g x = lnext h x" using ays unfolding dw(3) by (auto simp: nx)
  next
    fix x assume "x \<in> set (tl (b # ws))"
    then show "lprev ?g x = lprev h x" using dw(1) by (auto simp: pv)
  qed
  then have "linked ?g (a # b # ws)" by (simp add: nx pv)
  ultimately have "linked ?g (zs @ a # b # ws)" by (rule linked_appendI)
  then have "linked ?g ((zs @ [a]) @ (b # ws))" by simp
  then have "linked ?g ((q # xs) @ ys @ [q])" unfolding zs ws .
  then show ?thesis using dq by (intro queueI) auto
qed

lemma REMOVE_self_linked: "self_linked h n \<Longrightarrow> LIST_REMOVE n h = h"
  by (simp add: self_linked_def LIST_REMOVE_def set_next_def set_prev_def Let_def fun_upd_idem)

section \<open>Disjoint rings are left alone\<close>

lemma queue_in_ring:
  assumes "queue h q xs"
  shows "lnext h q \<in> set (q # xs)" "lprev h q \<in> set (q # xs)"
  using queue_lnext [OF assms] queue_lprev [OF assms] by (cases xs; auto)+

lemma ADD_TAIL_other:
  assumes "queue h q xs" "x \<notin> set (q # xs)" "x \<noteq> n"
  shows "lnext (LIST_ADD_TAIL q n h) x = lnext h x" "lprev (LIST_ADD_TAIL q n h) x = lprev h x"
  using assms queue_in_ring [OF assms(1)] by (auto simp: LIST_ADD_TAIL_def Let_def)

lemma ADD_HEAD_other:
  assumes "queue h q xs" "n \<noteq> q" "x \<notin> set (q # xs)" "x \<noteq> n"
  shows "lnext (LIST_ADD_HEAD q n h) x = lnext h x" "lprev (LIST_ADD_HEAD q n h) x = lprev h x"
  using assms queue_in_ring [OF assms(1)] by (auto simp: LIST_ADD_HEAD_def Let_def)

lemma REMOVE_other:
  assumes "queue h q xs" "n \<in> set xs" "x \<notin> set (q # xs)"
  shows "lnext (LIST_REMOVE n h) x = lnext h x" "lprev (LIST_REMOVE n h) x = lprev h x"
proof -
  obtain ys zs where xs: "xs = ys @ n # zs" using assms(2) by (meson split_list)
  have "lprev h n \<in> set (q # xs)" "lnext h n \<in> set (q # xs)"
    using queue_inner [OF assms(1) [unfolded xs]] xs by (cases zs; auto)+
  moreover have "lprev h n \<noteq> n"
    using queue_inner [OF assms(1) [unfolded xs]] assms(1) xs by (auto simp: queue_def)
  ultimately show "lnext (LIST_REMOVE n h) x = lnext h x" "lprev (LIST_REMOVE n h) x = lprev h x"
    using assms(3) by (auto simp: LIST_REMOVE_def Let_def)
qed

lemma REFRESH_other:
  "x \<noteq> n \<Longrightarrow> lnext (NODE_REFRESH n h) x = lnext h x"
  "x \<noteq> n \<Longrightarrow> lprev (NODE_REFRESH n h) x = lprev h x"
  by (simp_all add: NODE_REFRESH_def)

lemma REFRESH_self_linked [simp]: "self_linked (NODE_REFRESH n h) n"
  by (simp add: self_linked_def NODE_REFRESH_def)

end
