(* ===== verification/Queues.thy ===== *)
theory Queues
  imports DList
begin

text \<open>
  The kernel's scheduling queues. Every list node of the kernel is either the head of one of
  its static queues (\<open>ready_queue\<close>, \<open>sleep_queue\<close>, the wait queues of the locks, barriers,
  condition variables, mailboxes and the network driver, the \<open>wait_list\<close> of a task) or the
  \<open>list\<close> member of a task control block; \<open>NODE_TO_PCB\<close> recovers the block from the latter.

  \<open>queues h Q\<close> is the abstraction: in the node heap \<open>h\<close> each head \<open>q\<close> is a ring holding the
  tasks \<open>Q q\<close>, and no task is in two rings. The locale \<open>queue_store\<close> is what the scheduler
  and the locks rely on; its interpretation \<open>kq\<close> at the end proves it for the list macros.
\<close>

section \<open>Nodes\<close>

text \<open>\<open>&pcb[i]\<close> and \<open>&pid0_pcb[i]\<close>.\<close>

datatype pcb_ref = Pcb nat | Pid0 nat

datatype head = ReadyQ | SleepQ | MutexQ nat | BarrierQ nat | CondQ nat | MboxQ nat
  | NetSendQ | NetRecvQ | WaitQ pcb_ref

datatype node = Head head | PList pcb_ref

text \<open>\<open>NODE_TO_PCB\<close> on a head node would be a pointer to something that is no task.\<close>

fun NODE_TO_PCB :: "node \<Rightarrow> pcb_ref option" where
  "NODE_TO_PCB (PList p) = Some p"
| "NODE_TO_PCB (Head q) = None"

definition first_task :: "head \<Rightarrow> node links \<Rightarrow> pcb_ref option" where
  "first_task q h = NODE_TO_PCB (lnext h (Head q))"

definition queues :: "node links \<Rightarrow> (head \<Rightarrow> pcb_ref list) \<Rightarrow> bool" where
  "queues h Q \<longleftrightarrow> (\<forall>q. queue h (Head q) (map PList (Q q)))
     \<and> (\<forall>q r. q \<noteq> r \<longrightarrow> set (Q q) \<inter> set (Q r) = {})"

definition in_no_queue :: "(head \<Rightarrow> pcb_ref list) \<Rightarrow> pcb_ref \<Rightarrow> bool" where
  "in_no_queue Q p \<longleftrightarrow> (\<forall>q. p \<notin> set (Q q))"

definition detached :: "node links \<Rightarrow> pcb_ref \<Rightarrow> bool" where
  "detached h p \<longleftrightarrow> self_linked h (PList p)"

section \<open>The interface\<close>

locale queue_store =
  fixes add_tail add_head :: "'q \<Rightarrow> 'p \<Rightarrow> 'h \<Rightarrow> 'h"
    and remove :: "'p \<Rightarrow> 'h \<Rightarrow> 'h"
    and refresh :: "'p \<Rightarrow> 'h \<Rightarrow> 'h"
    and empty :: "'q \<Rightarrow> 'h \<Rightarrow> bool"
    and first :: "'q \<Rightarrow> 'h \<Rightarrow> 'p option"
    and repr :: "'h \<Rightarrow> ('q \<Rightarrow> 'p list) \<Rightarrow> bool"
    and free :: "'h \<Rightarrow> 'p \<Rightarrow> bool"
  assumes repr_distinct: "repr h Q \<Longrightarrow> distinct (Q q)"
    and repr_disjoint: "repr h Q \<Longrightarrow> p \<in> set (Q q) \<Longrightarrow> p \<in> set (Q r) \<Longrightarrow> q = r"
    and empty_iff: "repr h Q \<Longrightarrow> empty q h \<longleftrightarrow> Q q = []"
    and first_hd: "repr h Q \<Longrightarrow> Q q = p # ps \<Longrightarrow> first q h = Some p"
    and repr_add_tail: "repr h Q \<Longrightarrow> \<forall>r. p \<notin> set (Q r) \<Longrightarrow>
          repr (add_tail q p h) (Q(q := Q q @ [p]))"
    and repr_add_head: "repr h Q \<Longrightarrow> \<forall>r. p \<notin> set (Q r) \<Longrightarrow>
          repr (add_head q p h) (Q(q := p # Q q))"
    and repr_remove: "repr h Q \<Longrightarrow> p \<in> set (Q q) \<Longrightarrow>
          repr (remove p h) (Q(q := remove1 p (Q q)))"
    and repr_refresh: "repr h Q \<Longrightarrow> \<forall>r. p \<notin> set (Q r) \<Longrightarrow> repr (refresh p h) Q"
    and remove_free: "free h p \<Longrightarrow> remove p h = h"
    and free_refresh: "free (refresh p h) p"
    and free_refresh_other: "free h x \<Longrightarrow> free (refresh p h) x"
    and free_add_tail: "repr h Q \<Longrightarrow> \<forall>r. x \<notin> set (Q r) \<Longrightarrow> free h x \<Longrightarrow> x \<noteq> p \<Longrightarrow>
          free (add_tail q p h) x"
    and free_add_head: "repr h Q \<Longrightarrow> \<forall>r. x \<notin> set (Q r) \<Longrightarrow> free h x \<Longrightarrow> x \<noteq> p \<Longrightarrow>
          free (add_head q p h) x"
    and free_remove: "repr h Q \<Longrightarrow> p \<in> set (Q q) \<Longrightarrow> \<forall>r. x \<notin> set (Q r) \<Longrightarrow> free h x \<Longrightarrow>
          free (remove p h) x"
begin

text \<open>After a removal the task is in no queue.\<close>

lemma remove_in_no_queue:
  assumes "repr h Q" "p \<in> set (Q q)"
  shows "p \<notin> set ((Q(q := remove1 p (Q q))) r)"
  using repr_disjoint [OF assms] repr_distinct [OF assms(1), of q] by auto

text \<open>Moving a task from one queue to the tail or the head of another one.\<close>

lemma move_tail:
  assumes "repr h Q" "p \<in> set (Q q)"
  shows "repr (add_tail r p (remove p h))
    ((Q(q := remove1 p (Q q)))(r := (Q(q := remove1 p (Q q))) r @ [p]))"
  using repr_add_tail [OF repr_remove [OF assms]] remove_in_no_queue [OF assms] by blast

lemma move_head:
  assumes "repr h Q" "p \<in> set (Q q)"
  shows "repr (add_head r p (remove p h))
    ((Q(q := remove1 p (Q q)))(r := p # (Q(q := remove1 p (Q q))) r))"
  using repr_add_head [OF repr_remove [OF assms]] remove_in_no_queue [OF assms] by blast

text \<open>A task in no queue whose node is free can be queued through the same path.\<close>

lemma enqueue_free:
  assumes "repr h Q" "\<forall>r. p \<notin> set (Q r)" "free h p"
  shows "repr (add_tail q p (remove p h)) (Q(q := Q q @ [p]))"
  using repr_add_tail [OF assms(1,2)] by (simp add: remove_free [OF assms(3)])

text \<open>Taking the first task out and refreshing its node.\<close>

lemma pop_first:
  assumes "repr h Q" "Q q = p # ps"
  shows "repr (refresh p (remove p h)) (Q(q := ps))" "free (refresh p (remove p h)) p"
proof -
  have p: "p \<in> set (Q q)" using assms(2) by simp
  have "repr (refresh p (remove p h)) (Q(q := remove1 p (Q q)))"
    using repr_refresh [OF repr_remove [OF assms(1) p]] remove_in_no_queue [OF assms(1) p] by blast
  then show "repr (refresh p (remove p h)) (Q(q := ps))" using assms(2) by simp
qed (rule free_refresh)

lemma pop_first_free:
  assumes "repr h Q" "Q q = p # ps" "\<forall>r. x \<notin> set (Q r)" "free h x"
  shows "free (refresh p (remove p h)) x"
proof -
  have "p \<in> set (Q q)" using assms(2) by simp
  from free_refresh_other [OF free_remove [OF assms(1) this assms(3,4)]] show ?thesis .
qed

lemma move_free:
  assumes "repr h Q" "p \<in> set (Q q)" "\<forall>r. x \<notin> set (Q r)" "free h x"
  shows "free (add_tail r p (remove p h)) x" "free (add_head r p (remove p h)) x"
proof -
  have x: "\<forall>r. x \<notin> set ((Q(q := remove1 p (Q q))) r)" "x \<noteq> p"
    using assms(2,3) by (auto dest: notin_set_remove1)
  note f = free_remove [OF assms] and r = repr_remove [OF assms(1,2)]
  show "free (add_tail r p (remove p h)) x" by (rule free_add_tail [OF r x(1) f x(2)])
  show "free (add_head r p (remove p h)) x" by (rule free_add_head [OF r x(1) f x(2)])
qed

end

section \<open>The list macros provide it\<close>

lemma queuesD:
  assumes "queues h Q"
  shows "queue h (Head q) (map PList (Q q))"
    and "p \<in> set (Q q) \<Longrightarrow> p \<in> set (Q r) \<Longrightarrow> q = r"
  using assms unfolding queues_def by blast+

lemma queues_other:
  assumes "queues h Q" "q \<noteq> r" "x \<in> set (Head r # map PList (Q r))"
  shows "x \<notin> set (Head q # map PList (Q q))"
  using assms unfolding queues_def by auto

lemma queues_update:
  assumes Q: "queues h Q"
    and new: "queue g (Head q) (map PList xs)"
    and frame: "\<And>x. x \<notin> set (Head q # map PList (Q q)) \<Longrightarrow> x \<notin> PList ` set xs \<Longrightarrow>
       lnext g x = lnext h x \<and> lprev g x = lprev h x"
    and fresh: "\<And>p r. p \<in> set xs \<Longrightarrow> r \<noteq> q \<Longrightarrow> p \<notin> set (Q r)"
  shows "queues g (Q(q := xs))"
  unfolding queues_def
proof (intro conjI allI impI)
  fix r
  show "queue g (Head r) (map PList ((Q(q := xs)) r))"
  proof (cases "r = q")
    case True
    with new show ?thesis by simp
  next
    case False
    have "queue g (Head r) (map PList (Q r))"
    proof (rule queue_frame [OF queuesD(1) [OF Q, of r]])
      fix x assume x: "x \<in> set (Head r # map PList (Q r))"
      have "x \<notin> PList ` set xs" using x fresh [OF _ False] by auto
      then show "lnext g x = lnext h x" "lprev g x = lprev h x"
        using frame queues_other [OF Q False [symmetric] x] by blast+
    qed
    with False show ?thesis by simp
  qed
next
  fix r s :: head assume "r \<noteq> s"
  then show "set ((Q(q := xs)) r) \<inter> set ((Q(q := xs)) s) = {}"
    using fresh queuesD(2) [OF Q] by (auto split: if_splits)
qed

lemma queues_ADD_TAIL:
  assumes Q: "queues h Q" and p: "\<forall>r. p \<notin> set (Q r)"
  shows "queues (LIST_ADD_TAIL (Head q) (PList p) h) (Q(q := Q q @ [p]))"
proof (rule queues_update [OF Q])
  show "queue (LIST_ADD_TAIL (Head q) (PList p) h) (Head q) (map PList (Q q @ [p]))"
    using queue_ADD_TAIL [OF queuesD(1) [OF Q], of "PList p" q] p by auto
next
  fix x assume "x \<notin> set (Head q # map PList (Q q))" "x \<notin> PList ` set (Q q @ [p])"
  then show "lnext (LIST_ADD_TAIL (Head q) (PList p) h) x = lnext h x \<and>
      lprev (LIST_ADD_TAIL (Head q) (PList p) h) x = lprev h x"
    using ADD_TAIL_other [OF queuesD(1) [OF Q, of q], of x "PList p"] by auto
qed (use p queuesD(2) [OF Q] in auto)

lemma queues_ADD_HEAD:
  assumes Q: "queues h Q" and p: "\<forall>r. p \<notin> set (Q r)"
  shows "queues (LIST_ADD_HEAD (Head q) (PList p) h) (Q(q := p # Q q))"
proof (rule queues_update [OF Q])
  show "queue (LIST_ADD_HEAD (Head q) (PList p) h) (Head q) (map PList (p # Q q))"
    using queue_ADD_HEAD [OF queuesD(1) [OF Q], of "PList p" q] p by auto
next
  fix x assume "x \<notin> set (Head q # map PList (Q q))" "x \<notin> PList ` set (p # Q q)"
  then show "lnext (LIST_ADD_HEAD (Head q) (PList p) h) x = lnext h x \<and>
      lprev (LIST_ADD_HEAD (Head q) (PList p) h) x = lprev h x"
    using ADD_HEAD_other [OF queuesD(1) [OF Q, of q], of "PList p" x] by auto
qed (use p queuesD(2) [OF Q] in auto)

lemma map_remove1_inj: "inj f \<Longrightarrow> map f (remove1 x xs) = remove1 (f x) (map f xs)"
  by (induction xs) (auto simp: inj_eq)

lemma queues_REMOVE:
  assumes Q: "queues h Q" and p: "p \<in> set (Q q)"
  shows "queues (LIST_REMOVE (PList p) h) (Q(q := remove1 p (Q q)))"
proof (rule queues_update [OF Q])
  obtain xs ys where Qq: "Q q = xs @ p # ys" and px: "p \<notin> set xs"
    using p split_list_first by metis
  have "queue h (Head q) (map PList xs @ PList p # map PList ys)"
    using queuesD(1) [OF Q, of q] Qq by simp
  then have "queue (LIST_REMOVE (PList p) h) (Head q) (map PList xs @ map PList ys)"
    by (rule queue_REMOVE)
  then show "queue (LIST_REMOVE (PList p) h) (Head q) (map PList (remove1 p (Q q)))"
    using Qq px by (simp add: remove1_append)
next
  fix x assume "x \<notin> set (Head q # map PList (Q q))"
  then show "lnext (LIST_REMOVE (PList p) h) x = lnext h x \<and>
      lprev (LIST_REMOVE (PList p) h) x = lprev h x"
    using REMOVE_other [OF queuesD(1) [OF Q, of q], of "PList p" x] p by auto
qed (use queuesD(2) [OF Q] in \<open>auto dest: notin_set_remove1 set_remove1_subset [THEN subsetD]\<close>)

lemma queues_frame:
  assumes Q: "queues h Q"
    and "\<And>x. (\<exists>q. x \<in> set (Head q # map PList (Q q))) \<Longrightarrow>
       lnext g x = lnext h x \<and> lprev g x = lprev h x"
  shows "queues g Q"
  using assms queue_frame [OF queuesD(1) [OF Q], of _ g] unfolding queues_def by blast

lemma queues_REFRESH:
  "queues h Q \<Longrightarrow> \<forall>r. p \<notin> set (Q r) \<Longrightarrow> queues (NODE_REFRESH (PList p) h) Q"
  by (erule queues_frame) (auto simp: NODE_REFRESH_def)

lemma detached_frame:
  "detached h x \<Longrightarrow> lnext g (PList x) = lnext h (PList x) \<Longrightarrow>
   lprev g (PList x) = lprev h (PList x) \<Longrightarrow> detached g x"
  by (simp add: detached_def self_linked_def)

interpretation kq: queue_store
  "\<lambda>q p. LIST_ADD_TAIL (Head q) (PList p)" "\<lambda>q p. LIST_ADD_HEAD (Head q) (PList p)"
  "\<lambda>p. LIST_REMOVE (PList p)" "\<lambda>p. NODE_REFRESH (PList p)" "\<lambda>q. LIST_IS_EMPTY (Head q)"
  first_task queues detached
proof unfold_locales
  fix h :: "node links" and Q :: "head \<Rightarrow> pcb_ref list" and p x q r ps
  assume Q: "queues h Q"
  show "distinct (Q q)"
    using queue_distinct [OF queuesD(1) [OF Q, of q]] by (simp add: distinct_map)
  show "LIST_IS_EMPTY (Head q) h = (Q q = [])"
    using LIST_IS_EMPTY_queue [OF queuesD(1) [OF Q, of q]] by simp
  show "p \<in> set (Q q) \<Longrightarrow> p \<in> set (Q r) \<Longrightarrow> q = r" by (rule queuesD(2) [OF Q])
  show "Q q = p # ps \<Longrightarrow> first_task q h = Some p"
    using queue_lnext [OF queuesD(1) [OF Q, of q]] by (simp add: first_task_def)
  show "\<forall>r. p \<notin> set (Q r) \<Longrightarrow> queues (LIST_ADD_TAIL (Head q) (PList p) h) (Q(q := Q q @ [p]))"
    by (rule queues_ADD_TAIL [OF Q])
  show "\<forall>r. p \<notin> set (Q r) \<Longrightarrow> queues (LIST_ADD_HEAD (Head q) (PList p) h) (Q(q := p # Q q))"
    by (rule queues_ADD_HEAD [OF Q])
  show "p \<in> set (Q q) \<Longrightarrow> queues (LIST_REMOVE (PList p) h) (Q(q := remove1 p (Q q)))"
    by (rule queues_REMOVE [OF Q])
  show "\<forall>r. p \<notin> set (Q r) \<Longrightarrow> queues (NODE_REFRESH (PList p) h) Q"
    by (rule queues_REFRESH [OF Q])
  { assume x: "\<forall>r. x \<notin> set (Q r)" "detached h x"
    have nx: "PList x \<notin> set (Head q # map PList (Q q))" for q using x(1) by auto
    note o = ADD_TAIL_other [OF queuesD(1) [OF Q, of q] nx]
      ADD_HEAD_other [OF queuesD(1) [OF Q, of q] _ nx]
      REMOVE_other [OF queuesD(1) [OF Q, of q] _ nx]
    show "x \<noteq> p \<Longrightarrow> detached (LIST_ADD_TAIL (Head q) (PList p) h) x"
      and "x \<noteq> p \<Longrightarrow> detached (LIST_ADD_HEAD (Head q) (PList p) h) x"
      and "p \<in> set (Q q) \<Longrightarrow> detached (LIST_REMOVE (PList p) h) x"
      by (rule detached_frame [OF x(2)]; simp add: o)+ }
next
  fix h :: "node links" and p x
  show "detached h p \<Longrightarrow> LIST_REMOVE (PList p) h = h"
    by (simp add: detached_def REMOVE_self_linked)
  show "detached (NODE_REFRESH (PList p) h) p" by (simp add: detached_def)
  show "detached h x \<Longrightarrow> detached (NODE_REFRESH (PList p) h) x"
    by (cases "x = p") (auto simp: detached_def self_linked_def NODE_REFRESH_def)
qed

end
