(* ===== verification/CString.thy ===== *)
theory CString
  imports Prelude
begin

text \<open>
  The byte and string routines of \<open>libs/string.c\<close> (the user library \<open>tiny_libc/string.c\<close> has
  the same text, and \<open>strrev\<close> besides). Memory is a \<open>region\<close>: a C object of a known size
  in bytes. A load or store outside the object is undefined and gives \<^term>\<open>None\<close>, so the
  loops that search for a terminating NUL end, at the latest, at the end of the object.
  A pointer into an object is the byte offset from its start; \<open>char\<close> is unsigned on RISC-V.

  \<open>cstr r p xs\<close> says that a NUL-terminated string with the bytes \<open>xs\<close> starts at offset \<open>p\<close>;
  the lemmas state each routine's effect on that abstraction.
\<close>

section \<open>Objects in memory\<close>

record region =
  rsize :: nat
  rbyte :: "nat \<Rightarrow> u8"

definition load :: "region \<Rightarrow> nat \<Rightarrow> u8 option" where
  "load r i = (if i < rsize r then Some (rbyte r i) else None)"

definition store :: "region \<Rightarrow> nat \<Rightarrow> u8 \<Rightarrow> region option" where
  "store r i b = (if i < rsize r then Some (r\<lparr>rbyte := (rbyte r)(i := b)\<rparr>) else None)"

lemma store_Some_iff:
  "store r i b = Some r' \<longleftrightarrow> i < rsize r \<and> r' = r\<lparr>rbyte := (rbyte r)(i := b)\<rparr>"
  by (auto simp: store_def)

lemma load_Some_iff: "load r i = Some b \<longleftrightarrow> i < rsize r \<and> b = rbyte r i"
  by (auto simp: load_def)

section \<open>Routines\<close>

text \<open>\<open>memcpy\<close> between two objects, and within one (where the order of the copies matters).\<close>

fun memcpy :: "region \<Rightarrow> nat \<Rightarrow> region \<Rightarrow> nat \<Rightarrow> nat \<Rightarrow> region option" where
  "memcpy dest d src s 0 = Some dest"
| "memcpy dest d src s (Suc len) = do {
     b \<leftarrow> load src s;
     dest' \<leftarrow> store dest d b;
     memcpy dest' (d + 1) src (s + 1) len }"

fun memcpy_within :: "region \<Rightarrow> nat \<Rightarrow> nat \<Rightarrow> nat \<Rightarrow> region option" where
  "memcpy_within m d s 0 = Some m"
| "memcpy_within m d s (Suc len) = do {
     b \<leftarrow> load m s;
     m' \<leftarrow> store m d b;
     memcpy_within m' (d + 1) (s + 1) len }"

fun memset :: "region \<Rightarrow> nat \<Rightarrow> u8 \<Rightarrow> nat \<Rightarrow> region option" where
  "memset dest d v 0 = Some dest"
| "memset dest d v (Suc len) = do {
     dest' \<leftarrow> store dest d v;
     memset dest' (d + 1) v len }"

definition bzero :: "region \<Rightarrow> nat \<Rightarrow> nat \<Rightarrow> region option" where
  "bzero dest d len = memset dest d 0 len"

function strlen :: "region \<Rightarrow> nat \<Rightarrow> nat option" where
  "strlen src p =
     (if p < rsize src
      then if rbyte src p \<noteq> 0 then map_option Suc (strlen src (p + 1)) else Some 0
      else None)"
  by pat_completeness auto
termination by (relation "measure (\<lambda>(src, p). rsize src - p)") auto

function strcmp :: "region \<Rightarrow> nat \<Rightarrow> region \<Rightarrow> nat \<Rightarrow> int option" where
  "strcmp str1 p str2 q =
     (if p < rsize str1 \<and> q < rsize str2
      then if rbyte str1 p \<noteq> 0 \<and> rbyte str2 q \<noteq> 0
           then if rbyte str1 p \<noteq> rbyte str2 q
                then Some (uint (rbyte str1 p) - uint (rbyte str2 q))
                else strcmp str1 (p + 1) str2 (q + 1)
           else Some (uint (rbyte str1 p) - uint (rbyte str2 q))
      else None)"
  by pat_completeness auto
termination by (relation "measure (\<lambda>(s, p, t, q). rsize s - p)") auto

fun strncmp :: "region \<Rightarrow> nat \<Rightarrow> region \<Rightarrow> nat \<Rightarrow> nat \<Rightarrow> int option" where
  "strncmp str1 p str2 q 0 = Some 0"
| "strncmp str1 p str2 q (Suc n) = do {
     a \<leftarrow> load str1 p;
     if a = 0
     then do { b \<leftarrow> load str2 q; Some (uint a - uint b) }
     else do {
       b \<leftarrow> load str2 q;
       if a \<noteq> b then Some (uint a - uint b) else strncmp str1 (p + 1) str2 (q + 1) n } }"

function strcpy :: "region \<Rightarrow> nat \<Rightarrow> region \<Rightarrow> nat \<Rightarrow> region option" where
  "strcpy dest d src s =
     (if s < rsize src \<and> d < rsize dest
      then if rbyte src s \<noteq> 0
           then strcpy (dest\<lparr>rbyte := (rbyte dest)(d := rbyte src s)\<rparr>) (d + 1) src (s + 1)
           else Some (dest\<lparr>rbyte := (rbyte dest)(d := 0)\<rparr>)
      else None)"
  by pat_completeness auto
termination by (relation "measure (\<lambda>(dest, d, src, s). rsize src - s)") auto

declare strlen.simps [simp del] strcmp.simps [simp del] strcpy.simps [simp del]

text \<open>\<open>strncpy\<close> pads with NUL bytes when the source is shorter than \<open>n\<close>; it does not
  terminate the copy otherwise.\<close>

fun strncpy_pad :: "region \<Rightarrow> nat \<Rightarrow> nat \<Rightarrow> region option" where
  "strncpy_pad dest d 0 = Some dest"
| "strncpy_pad dest d (Suc n) = do { dest' \<leftarrow> store dest d 0; strncpy_pad dest' (d + 1) n }"

fun strncpy :: "region \<Rightarrow> nat \<Rightarrow> region \<Rightarrow> nat \<Rightarrow> nat \<Rightarrow> region option" where
  "strncpy dest d src s 0 = (case load src s of None \<Rightarrow> None | Some b \<Rightarrow> Some dest)"
| "strncpy dest d src s (Suc n) = do {
     b \<leftarrow> load src s;
     if b \<noteq> 0
     then do { dest' \<leftarrow> store dest d b; strncpy dest' (d + 1) src (s + 1) n }
     else strncpy_pad dest d (Suc n) }"

definition strcat :: "region \<Rightarrow> nat \<Rightarrow> region \<Rightarrow> nat \<Rightarrow> region option" where
  "strcat dest d src s = do { n \<leftarrow> strlen dest d; strcpy dest (d + n) src s }"

text \<open>A signed length as the \<open>uint32_t\<close> that \<open>memcpy\<close> and \<open>memset\<close> take, and a signed distance
  from the start of an object.\<close>

definition memcpy_len :: "int \<Rightarrow> nat" where
  "memcpy_len n = unat (word_of_int n :: u32)"

definition byte_offset :: "int \<Rightarrow> nat option" where
  "byte_offset n = (if 0 \<le> n then Some (nat n) else None)"

section \<open>Closed forms of the block routines\<close>

lemma memcpy_eq:
  "s + n \<le> rsize src \<Longrightarrow> d + n \<le> rsize dest \<Longrightarrow>
   memcpy dest d src s n =
     Some (dest\<lparr>rbyte := blit (rbyte dest) d n (\<lambda>k. rbyte src (s + k))\<rparr>)"
  by (induction n arbitrary: dest d s) (simp_all add: load_def store_def blit_Suc)

text \<open>Copying towards lower addresses within one object is a correct move.\<close>

lemma memcpy_overrun: "d \<le> rsize dest \<Longrightarrow> rsize dest < d + n \<Longrightarrow> memcpy dest d src s n = None"
  by (induction n arbitrary: d dest s) (auto simp: store_def split: bind_splits)

lemma memcpy_within_eq:
  "d \<le> s \<Longrightarrow> s + n \<le> rsize m \<Longrightarrow>
   memcpy_within m d s n = Some (m\<lparr>rbyte := blit (rbyte m) d n (\<lambda>k. rbyte m (s + k))\<rparr>)"
proof (induction n arbitrary: m d s)
  case (Suc n)
  let ?m = "m\<lparr>rbyte := (rbyte m)(d := rbyte m s)\<rparr>"
  have "memcpy_within m d s (Suc n) = memcpy_within ?m (d + 1) (s + 1) n"
    using Suc.prems by (simp add: load_def store_def)
  also have "\<dots> = Some (?m\<lparr>rbyte := blit (rbyte ?m) (d + 1) n (\<lambda>k. rbyte ?m (s + 1 + k))\<rparr>)"
    using Suc.prems by (intro Suc.IH) auto
  also have "blit (rbyte ?m) (d + 1) n (\<lambda>k. rbyte ?m (s + 1 + k)) =
        blit (rbyte ?m) (d + 1) n (\<lambda>k. rbyte m (s + Suc k))"
    using Suc.prems by (intro blit_cong) simp
  finally show ?case by (simp add: blit_Suc)
qed simp

lemma memset_eq:
  "d + n \<le> rsize dest \<Longrightarrow>
   memset dest d v n = Some (dest\<lparr>rbyte := blit (rbyte dest) d n (\<lambda>k. v)\<rparr>)"
  by (induction n arbitrary: dest d) (simp_all add: store_def blit_Suc)

section \<open>Strings\<close>

definition cstr :: "region \<Rightarrow> nat \<Rightarrow> u8 list \<Rightarrow> bool" where
  "cstr r p xs \<longleftrightarrow> p + length xs < rsize r \<and> (\<forall>i < length xs. rbyte r (p + i) = xs ! i)
     \<and> 0 \<notin> set xs \<and> rbyte r (p + length xs) = 0"

lemma cstr_Nil [simp]: "cstr r p [] \<longleftrightarrow> p < rsize r \<and> rbyte r p = 0"
  by (auto simp: cstr_def)

lemma cstr_Cons [simp]:
  "cstr r p (x # xs) \<longleftrightarrow> x \<noteq> 0 \<and> p < rsize r \<and> rbyte r p = x \<and> cstr r (p + 1) xs"
  by (auto simp: cstr_def nth_Cons less_Suc_eq_0_disj split: nat.splits)

lemma cstr_unique: "cstr r p xs \<Longrightarrow> cstr r p ys \<Longrightarrow> xs = ys"
proof (induction xs arbitrary: p ys)
  case Nil
  then show ?case by (cases ys) auto
next
  case (Cons x xs)
  then show ?case by (cases ys) auto
qed

lemma cstr_cong:
  "cstr r p xs \<Longrightarrow> rsize r' = rsize r \<Longrightarrow>
   (\<And>i. p \<le> i \<Longrightarrow> i \<le> p + length xs \<Longrightarrow> rbyte r' i = rbyte r i) \<Longrightarrow> cstr r' p xs"
  by (auto simp: cstr_def)

lemma cstr_append:
  "cstr r p (xs @ ys) \<Longrightarrow> cstr r (p + length xs) ys"
proof (induction xs arbitrary: p)
  case (Cons x xs)
  then have "cstr r (p + 1 + length xs) ys" by (intro Cons.IH) simp
  then show ?case by (simp add: add.assoc)
qed simp

lemma strlen_cstr: "cstr r p xs \<Longrightarrow> strlen r p = Some (length xs)"
  by (induction xs arbitrary: p) (subst strlen.simps, simp)+

lemma strlen_cstrD: "strlen r p = Some n \<Longrightarrow> \<exists>xs. cstr r p xs \<and> length xs = n"
proof (induction r p arbitrary: n rule: strlen.induct)
  case (1 r p)
  from "1.prems" have lt: "p < rsize r" by (subst (asm) strlen.simps) (auto split: if_splits)
  show ?case
  proof (cases "rbyte r p = 0")
    case True
    with lt "1.prems" have "cstr r p [] \<and> length ([] :: u8 list) = n"
      by (subst (asm) strlen.simps) simp
    then show ?thesis by blast
  next
    case False
    with lt "1.prems" obtain m where m: "strlen r (p + 1) = Some m" "n = Suc m"
      by (subst (asm) strlen.simps) auto
    from "1.IH" [OF lt _ m(1)] False obtain xs where "cstr r (p + 1) xs" "length xs = m" by auto
    with False lt m(2) have "cstr r p (rbyte r p # xs) \<and> length (rbyte r p # xs) = n" by simp
    then show ?thesis by blast
  qed
qed

lemma strcmp_cstr:
  "cstr r p xs \<Longrightarrow> cstr t q ys \<Longrightarrow> \<exists>v. strcmp r p t q = Some v \<and> (v = 0 \<longleftrightarrow> xs = ys)"
proof (induction xs arbitrary: p q ys)
  case Nil
  then show ?case by (subst strcmp.simps, cases ys) (auto simp: unsigned_eq_0_iff)
next
  case (Cons x xs)
  show ?case
  proof (cases ys)
    case Nil
    with Cons.prems show ?thesis by (subst strcmp.simps) (auto simp: unsigned_eq_0_iff)
  next
    case (Cons y zs)
    with Cons.prems Cons.IH [of "p + 1" "q + 1" zs] show ?thesis
      by (subst strcmp.simps) (auto simp flip: word_uint_eq_iff)
  qed
qed

lemma strcmp_eq_iff:
  "cstr r p xs \<Longrightarrow> cstr t q ys \<Longrightarrow> strcmp r p t q = Some 0 \<longleftrightarrow> xs = ys"
  using strcmp_cstr [of r p xs t q ys] by fastforce

lemma strcpy_cstr:
  "cstr src s xs \<Longrightarrow> d + length xs < rsize dest \<Longrightarrow>
   strcpy dest d src s =
     Some (dest\<lparr>rbyte := blit (rbyte dest) d (Suc (length xs)) (\<lambda>k. (xs @ [0]) ! k)\<rparr>)"
proof (induction xs arbitrary: dest d s)
  case Nil
  then show ?case by (subst strcpy.simps) (simp add: blit_Suc)
next
  case (Cons x xs)
  let ?dest = "dest\<lparr>rbyte := (rbyte dest)(d := x)\<rparr>"
  have "strcpy dest d src s = strcpy ?dest (d + 1) src (s + 1)"
    using Cons.prems by (subst strcpy.simps) auto
  also have "\<dots> = Some (?dest\<lparr>rbyte := blit (rbyte ?dest) (d + 1) (Suc (length xs))
      (\<lambda>k. (xs @ [0]) ! k)\<rparr>)"
    using Cons.prems by (intro Cons.IH) auto
  finally show ?case by (simp add: blit_Suc [of _ d])
qed

text \<open>A copy that does not fit is a store past the end of the destination.\<close>

lemma strcpy_overflow: "cstr src s xs \<Longrightarrow> rsize dest \<le> d + length xs \<Longrightarrow> strcpy dest d src s = None"
proof (induction xs arbitrary: dest d s)
  case Nil
  then show ?case by (subst strcpy.simps) simp
next
  case (Cons x xs)
  then have "d < rsize dest \<Longrightarrow> strcpy (dest\<lparr>rbyte := (rbyte dest)(d := x)\<rparr>) (d + 1) src (s + 1) = None"
    by (intro Cons.IH) auto
  with Cons.prems show ?case by (subst strcpy.simps) auto
qed

lemma strcpy_result:
  assumes "cstr src s xs" "d + length xs < rsize dest"
  obtains dest' where "strcpy dest d src s = Some dest'" "cstr dest' d xs"
    "rsize dest' = rsize dest"
    "\<And>i. i < d \<or> d + length xs < i \<Longrightarrow> rbyte dest' i = rbyte dest i"
proof
  show "strcpy dest d src s =
     Some (dest\<lparr>rbyte := blit (rbyte dest) d (Suc (length xs)) (\<lambda>k. (xs @ [0]) ! k)\<rparr>)"
    by (rule strcpy_cstr [OF assms])
  show "cstr (dest\<lparr>rbyte := blit (rbyte dest) d (Suc (length xs)) (\<lambda>k. (xs @ [0]) ! k)\<rparr>) d xs"
    using assms by (auto simp: cstr_def blit_inside nth_append)
qed (auto simp: blit_outside)

lemma strcat_cstr:
  assumes "cstr dest d xs" "cstr src s ys" "d + length xs + length ys < rsize dest"
  shows "\<exists>dest'. strcat dest d src s = Some dest' \<and> cstr dest' d (xs @ ys)"
proof -
  have "strcat dest d src s = strcpy dest (d + length xs) src s"
    by (simp add: strcat_def strlen_cstr [OF assms(1)])
  moreover obtain dest' where d: "strcpy dest (d + length xs) src s = Some dest'"
    "cstr dest' (d + length xs) ys" "rsize dest' = rsize dest"
    "\<And>i. i < d + length xs \<or> d + length xs + length ys < i \<Longrightarrow> rbyte dest' i = rbyte dest i"
    using strcpy_result [OF assms(2,3)] by metis
  moreover have "cstr dest' d (xs @ ys)" unfolding cstr_def
  proof (intro conjI allI impI)
    show "d + length (xs @ ys) < rsize dest'" using assms(3) d(3) by simp
    show "0 \<notin> set (xs @ ys)" using assms(1,2) by (simp add: cstr_def)
    show "rbyte dest' (d + length (xs @ ys)) = 0" using d(2) by (simp add: cstr_def add.assoc)
    fix i assume i: "i < length (xs @ ys)"
    show "rbyte dest' (d + i) = (xs @ ys) ! i"
    proof (cases "i < length xs")
      case True
      with d(4) [of "d + i"] assms(1) show ?thesis by (simp add: cstr_def nth_append)
    next
      case False
      then have di: "d + i = d + length xs + (i - length xs)" and "i - length xs < length ys"
        using i by auto
      with d(2) have "rbyte dest' (d + i) = ys ! (i - length xs)"
        unfolding di cstr_def by blast
      with False show ?thesis by (simp add: nth_append)
    qed
  qed
  ultimately show ?thesis by simp
qed

lemma memcpy_len_nat: "0 \<le> k \<Longrightarrow> k < 4294967296 \<Longrightarrow> memcpy_len k = nat k"
  using uint_word_of_int [of k, where 'a = 32] by (simp only: memcpy_len_def unat_eq_nat_uint) simp

section \<open>The bytes of a string\<close>

definition string_at :: "region \<Rightarrow> nat \<Rightarrow> u8 list option" where
  "string_at r p = do { n \<leftarrow> strlen r p; Some (map (\<lambda>k. rbyte r (p + k)) [0..<n]) }"

lemma string_at_cstr: "cstr r p xs \<Longrightarrow> string_at r p = Some xs"
  using strlen_cstr [of r p xs] by (auto simp: string_at_def cstr_def intro!: nth_equalityI)

lemma string_at_cstrD: "string_at r p = Some xs \<Longrightarrow> cstr r p xs"
proof -
  assume s: "string_at r p = Some xs"
  then obtain n where "strlen r p = Some n" by (auto simp: string_at_def bind_eq_Some_conv)
  then obtain ys where "cstr r p ys" using strlen_cstrD by blast
  with string_at_cstr [OF this] s show "cstr r p xs" by simp
qed

section \<open>String literals\<close>

text \<open>A string literal of the code.\<close>

definition literal :: "u8 list \<Rightarrow> region \<times> nat" where
  "literal xs = (\<lparr>rsize = length xs + 1, rbyte = (\<lambda>i. (xs @ [0]) ! i)\<rparr>, 0)"

lemma literal_cstr: "0 \<notin> set xs \<Longrightarrow> cstr (fst (literal xs)) (snd (literal xs)) xs"
  by (auto simp: literal_def cstr_def nth_append)

text \<open>A C string as an object of its own size.\<close>

abbreviation str :: "u8 list \<Rightarrow> region" where "str xs \<equiv> fst (literal xs)"

lemma str_cstr: "0 \<notin> set xs \<Longrightarrow> cstr (str xs) 0 xs"
  using literal_cstr [of xs] by (simp add: literal_def)

text \<open>The bytes of a literal, from its characters.\<close>

definition ascii :: "string \<Rightarrow> u8 list" where
  "ascii s = map of_char s"

section \<open>Objects that are written from the front\<close>

text \<open>\<open>with_prefix r xs\<close> is the object \<open>r\<close> after the bytes \<open>xs\<close> have been stored at its start.\<close>

definition with_prefix :: "region \<Rightarrow> u8 list \<Rightarrow> region" where
  "with_prefix r xs = r\<lparr>rbyte := blit (rbyte r) 0 (length xs) (\<lambda>k. xs ! k)\<rparr>"

lemma with_prefix_simps [simp]:
  "rsize (with_prefix r xs) = rsize r" "with_prefix r [] = r"
  "rbyte (with_prefix r xs) i = (if i < length xs then xs ! i else rbyte r i)"
  by (auto simp: with_prefix_def blit_def)

lemma with_prefix_eqI:
  "rsize r' = rsize r \<Longrightarrow> (\<And>i. i < length xs \<Longrightarrow> rbyte r' i = xs ! i) \<Longrightarrow>
   (\<And>i. length xs \<le> i \<Longrightarrow> rbyte r' i = rbyte r i) \<Longrightarrow> r' = with_prefix r xs"
  by (rule region.equality) (auto simp: with_prefix_def blit_def fun_eq_iff not_less)

lemma with_prefix_store:
  "length xs < rsize r \<Longrightarrow> store (with_prefix r xs) (length xs) c = Some (with_prefix r (xs @ [c]))"
  by (simp add: store_def) (rule with_prefix_eqI, auto simp: nth_append)

lemma with_prefix_load: "i < length xs \<Longrightarrow> length xs \<le> rsize r \<Longrightarrow> load (with_prefix r xs) i = Some (xs ! i)"
  by (simp add: load_def)

lemma with_prefix_update:
  "i < length xs \<Longrightarrow> length xs \<le> rsize r \<Longrightarrow> store (with_prefix r xs) i c = Some (with_prefix r (xs[i := c]))"
  by (simp add: store_def) (rule with_prefix_eqI, auto simp: nth_list_update)

lemma with_prefix_cstr: "0 \<notin> set xs \<Longrightarrow> length xs < rsize r \<Longrightarrow> cstr (with_prefix r (xs @ [0])) 0 xs"
  by (auto simp: cstr_def nth_append in_set_conv_nth)

section \<open>Reversing\<close>

definition swap_bytes :: "nat \<Rightarrow> nat \<Rightarrow> region \<Rightarrow> region option" where
  "swap_bytes i j r = do { x \<leftarrow> load r i; y \<leftarrow> load r j; r1 \<leftarrow> store r i y; store r1 j x }"

definition reverse_bytes :: "nat \<Rightarrow> region \<Rightarrow> region option" where
  "reverse_bytes len r = for_each (\<lambda>i. swap_bytes i (len - i - 1)) [0..<len div 2] r"

lemma swap_bytes_prefix:
  "i < length xs \<Longrightarrow> j < length xs \<Longrightarrow> length xs \<le> rsize r \<Longrightarrow>
   swap_bytes i j (with_prefix r xs) = Some (with_prefix r (xs[i := xs ! j, j := xs ! i]))"
  by (simp add: swap_bytes_def with_prefix_load with_prefix_update)

lemma reverse_bytes_prefix:
  assumes "length xs + length ys \<le> rsize r"
  shows "reverse_bytes (length xs) (with_prefix r (xs @ ys)) = Some (with_prefix r (rev xs @ ys))"
proof -
  let ?n = "length xs"
  let ?P = "\<lambda>i r'. \<exists>zs. r' = with_prefix r (zs @ ys) \<and> length zs = ?n \<and>
      (\<forall>k < ?n. zs ! k = (if k < i \<or> ?n - i \<le> k then xs ! (?n - 1 - k) else xs ! k))"
  have "\<exists>r'. for_each (\<lambda>i. swap_bytes i (?n - i - 1)) [0..<?n div 2] (with_prefix r (xs @ ys)) = Some r' \<and> ?P (?n div 2) r'"
  proof (rule for_each_upt)
    fix i r'
    assume i: "i < ?n div 2" and "?P i r'"
    then obtain zs where zs: "r' = with_prefix r (zs @ ys)" "length zs = ?n"
      "\<forall>k < ?n. zs ! k = (if k < i \<or> ?n - i \<le> k then xs ! (?n - 1 - k) else xs ! k)" by blast
    let ?j = "?n - i - 1"
    have b: "i < ?n" "?j < ?n" "i < ?j" using i by auto
    define zs' where "zs' = zs[i := zs ! ?j, ?j := zs ! i]"
    have "swap_bytes i ?j r' = Some (with_prefix r ((zs @ ys)[i := (zs @ ys) ! ?j, ?j := (zs @ ys) ! i]))"
      unfolding zs(1) by (rule swap_bytes_prefix) (use b zs(2) assms in auto)
    also have "(zs @ ys)[i := (zs @ ys) ! ?j, ?j := (zs @ ys) ! i] = zs' @ ys"
      using b zs(2) unfolding zs'_def by (simp add: nth_append list_update_append)
    finally have "swap_bytes i ?j r' = Some (with_prefix r (zs' @ ys))" .
    moreover have "\<forall>k < ?n. zs' ! k = (if k < Suc i \<or> ?n - Suc i \<le> k then xs ! (?n - 1 - k) else xs ! k)"
    proof (intro allI impI)
      fix k assume that: "k < ?n"
      show "zs' ! k = (if k < Suc i \<or> ?n - Suc i \<le> k then xs ! (?n - 1 - k) else xs ! k)"
      proof (cases "k = i \<or> k = ?j")
      case True
      have "?n - 1 - i = ?j" "?n - 1 - ?j = i" "\<not> ?j < i" "\<not> ?n - i \<le> ?j" "\<not> ?n - i \<le> i" using b by auto
      then show ?thesis using True zs(2,3) b that by (auto simp: zs'_def nth_list_update)
    next
      case False
      then have "(k < Suc i \<or> ?n - Suc i \<le> k) = (k < i \<or> ?n - i \<le> k)" using b by auto
      then show ?thesis using False zs(2,3) b that by (simp add: zs'_def nth_list_update)
      qed
    qed
    moreover have "length zs' = ?n" using zs(2) by (simp add: zs'_def)
    ultimately show "\<exists>r''. swap_bytes i (?n - i - 1) r' = Some r'' \<and> ?P (Suc i) r''"
      by blast
  qed (use assms in auto)
  then obtain zs where zs: "reverse_bytes ?n (with_prefix r (xs @ ys)) = Some (with_prefix r (zs @ ys))" "length zs = ?n"
    "\<forall>k < ?n. zs ! k = (if k < ?n div 2 \<or> ?n - ?n div 2 \<le> k then xs ! (?n - 1 - k) else xs ! k)"
    by (auto simp: reverse_bytes_def)
  have "zs ! k = rev xs ! k" if "k < ?n" for k
  proof (cases "k < ?n div 2 \<or> ?n - ?n div 2 \<le> k")
    case True
    then show ?thesis using zs(3) that by (simp add: rev_nth)
  next
    case False
    then have "?n - Suc k = k" by linarith
    then show ?thesis using False zs(3) that by (simp add: rev_nth)
  qed
  then have "zs = rev xs" using zs(2) by (simp add: list_eq_iff_nth_eq)
  then show ?thesis using zs(1) by simp
qed

end
