(* ===== verification/Pgtable.thy ===== *)
theory Pgtable
  imports Prelude
begin

text \<open>
  The Sv39 arithmetic of \<open>arch/riscv/include/pgtable.h\<close> on 64-bit words: the kernel's
  direct map between physical and kernel virtual addresses, the fields of a page table
  entry, and the split of a virtual address into three 9-bit page numbers and a 12-bit
  offset. A function that updates \<open>*entry\<close> returns the new entry. The lemmas give, for each
  word function, its bits, and the round trips follow from them.
\<close>

section \<open>Constants\<close>

definition NORMAL_PAGE_SHIFT :: nat where "NORMAL_PAGE_SHIFT = 12"
definition NORMAL_PAGE_SIZE :: u64 where "NORMAL_PAGE_SIZE = push_bit NORMAL_PAGE_SHIFT 1"
definition PPN_BITS :: nat where "PPN_BITS = 9"
definition PAGE_PFN_SHIFT :: nat where "PAGE_PFN_SHIFT = 10"
definition VA_MASK :: u64 where "VA_MASK = push_bit 39 1 - 1"
definition PTE_MASK :: u64 where "PTE_MASK = push_bit 54 1 - 1"
definition PPN_MASK :: u64 where "PPN_MASK = push_bit 10 (push_bit 44 1 - 1)"
definition SATP_MODE_SV39 :: u64 where "SATP_MODE_SV39 = 8"
definition PGDIR_PA :: u64 where "PGDIR_PA = 0x51000000"

definition PAGE_PRESENT :: u64 where "PAGE_PRESENT = push_bit 0 1"
definition PAGE_READ :: u64 where "PAGE_READ = push_bit 1 1"
definition PAGE_WRITE :: u64 where "PAGE_WRITE = push_bit 2 1"
definition PAGE_EXEC :: u64 where "PAGE_EXEC = push_bit 3 1"
definition PAGE_USER :: u64 where "PAGE_USER = push_bit 4 1"
definition PAGE_ACCESSED :: u64 where "PAGE_ACCESSED = push_bit 6 1"
definition PAGE_DIRTY :: u64 where "PAGE_DIRTY = push_bit 7 1"

lemma mask_constants:
  "VA_MASK = mask 39" "PTE_MASK = mask 54" "PPN_MASK = push_bit 10 (mask 44)"
  "NORMAL_PAGE_SIZE - 1 = mask 12"
  by (simp_all add: VA_MASK_def PTE_MASK_def PPN_MASK_def NORMAL_PAGE_SIZE_def
      NORMAL_PAGE_SHIFT_def mask_eq_exp_minus_1 push_bit_eq_mult)

lemmas page_bits = PAGE_PRESENT_def PAGE_READ_def PAGE_WRITE_def PAGE_EXEC_def PAGE_USER_def
  PAGE_ACCESSED_def PAGE_DIRTY_def

section \<open>Address and entry functions\<close>

definition kva2pa :: "u64 \<Rightarrow> u64" where
  "kva2pa kva = kva AND 0xffffffff"

definition pa2kva :: "u64 \<Rightarrow> u64" where
  "pa2kva pa = pa OR 0xffffffc000000000"

definition get_pfn :: "u64 \<Rightarrow> u64" where
  "get_pfn entry = drop_bit PAGE_PFN_SHIFT (entry AND PTE_MASK)"

definition set_pfn :: "u64 \<Rightarrow> u64 \<Rightarrow> u64" where
  "set_pfn entry pfn =
     (let old_entry = entry AND NOT PPN_MASK;
          pfn' = push_bit PAGE_PFN_SHIFT pfn AND PTE_MASK
      in old_entry OR pfn')"

definition clean_pte :: "u64 \<Rightarrow> u64" where
  "clean_pte entry = 0"

definition get_pa :: "u64 \<Rightarrow> u64" where
  "get_pa entry = push_bit NORMAL_PAGE_SHIFT (get_pfn entry)"

definition get_attribute :: "u64 \<Rightarrow> u64 \<Rightarrow> u64" where
  "get_attribute entry msk = entry AND msk"

definition set_attribute :: "u64 \<Rightarrow> u64 \<Rightarrow> u64" where
  "set_attribute entry bits = entry OR bits"

definition unset_attribute :: "u64 \<Rightarrow> u64 \<Rightarrow> u64" where
  "unset_attribute entry bits = entry AND NOT bits"

definition get_page_base :: "u64 \<Rightarrow> u64" where
  "get_page_base vaddr = vaddr AND NOT (NORMAL_PAGE_SIZE - 1)"

definition get_page_offset :: "u64 \<Rightarrow> u64" where
  "get_page_offset vaddr = vaddr AND (NORMAL_PAGE_SIZE - 1)"

definition get_vpn2 :: "u64 \<Rightarrow> u64" where
  "get_vpn2 vaddr = drop_bit (NORMAL_PAGE_SHIFT + PPN_BITS + PPN_BITS) (vaddr AND VA_MASK)"

definition get_vpn1 :: "u64 \<Rightarrow> u64" where
  "get_vpn1 vaddr = drop_bit (NORMAL_PAGE_SHIFT + PPN_BITS) (vaddr AND VA_MASK)
     AND (push_bit PPN_BITS 1 - 1)"

definition get_vpn0 :: "u64 \<Rightarrow> u64" where
  "get_vpn0 vaddr = drop_bit NORMAL_PAGE_SHIFT (vaddr AND VA_MASK) AND (push_bit PPN_BITS 1 - 1)"

text \<open>The word \<open>set_satp\<close> writes to the satp register.\<close>

definition set_satp :: "u64 \<Rightarrow> u32 \<Rightarrow> u64 \<Rightarrow> u64" where
  "set_satp mode asid ppn = push_bit 60 mode OR push_bit 44 (ucast asid) OR ppn"

text \<open>The rounding macros of \<open>include/os/mm.h\<close>, meant for powers of two.\<close>

definition ROUND :: "u64 \<Rightarrow> u64 \<Rightarrow> u64" where
  "ROUND a n = (a + n - 1) AND NOT (n - 1)"

definition ROUNDDOWN :: "u64 \<Rightarrow> u64 \<Rightarrow> u64" where
  "ROUNDDOWN a n = a AND NOT (n - 1)"

section \<open>Bits\<close>

lemma low32_mask: "(0xffffffff :: u64) = mask 32"
  by (simp add: mask_eq_exp_minus_1)

lemma high_mask: "(0xffffffc000000000 :: u64) = push_bit 38 (mask 26)"
  by (simp add: mask_eq_exp_minus_1 push_bit_eq_mult)

lemma vpn_mask: "push_bit PPN_BITS 1 - 1 = (mask 9 :: u64)"
  by (simp add: PPN_BITS_def mask_eq_exp_minus_1 push_bit_eq_mult)

lemma bit_kva2pa: "bit (kva2pa x) n \<longleftrightarrow> n < 32 \<and> bit x n"
  by (auto simp: kva2pa_def low32_mask bit_simps)

lemma bit_pa2kva: "bit (pa2kva x) n \<longleftrightarrow> bit x n \<or> 38 \<le> n \<and> n < 64"
  by (auto simp: pa2kva_def high_mask bit_simps)

lemma bit_get_pfn: "bit (get_pfn e) n \<longleftrightarrow> n < 44 \<and> bit e (n + 10)"
  by (auto simp: get_pfn_def PAGE_PFN_SHIFT_def mask_constants bit_simps add.commute)

lemma bit_set_pfn:
  "bit (set_pfn e p) n \<longleftrightarrow> (if 10 \<le> n \<and> n < 54 then bit p (n - 10) else n < 64 \<and> bit e n)"
  by (auto simp: set_pfn_def PAGE_PFN_SHIFT_def mask_constants bit_simps Let_def
      dest: bit_imp_le_length)

lemma bit_get_pa: "bit (get_pa e) n \<longleftrightarrow> 12 \<le> n \<and> n < 56 \<and> bit e (n - 2)"
  by (auto simp: get_pa_def NORMAL_PAGE_SHIFT_def bit_get_pfn bit_simps)

lemma bit_get_page_base: "bit (get_page_base v) n \<longleftrightarrow> 12 \<le> n \<and> bit v n"
  by (auto simp: get_page_base_def mask_constants bit_simps dest: bit_imp_le_length)

lemma bit_get_page_offset: "bit (get_page_offset v) n \<longleftrightarrow> n < 12 \<and> bit v n"
  by (auto simp: get_page_offset_def mask_constants bit_simps)

lemma bit_get_vpn2: "bit (get_vpn2 v) n \<longleftrightarrow> n < 9 \<and> bit v (n + 30)"
  by (auto simp: get_vpn2_def mask_constants NORMAL_PAGE_SHIFT_def PPN_BITS_def bit_simps
      add.commute)

lemma bit_get_vpn1: "bit (get_vpn1 v) n \<longleftrightarrow> n < 9 \<and> bit v (n + 21)"
  unfolding get_vpn1_def vpn_mask mask_constants NORMAL_PAGE_SHIFT_def
  by (auto simp: PPN_BITS_def bit_simps add.commute)

lemma bit_get_vpn0: "bit (get_vpn0 v) n \<longleftrightarrow> n < 9 \<and> bit v (n + 12)"
  unfolding get_vpn0_def vpn_mask mask_constants NORMAL_PAGE_SHIFT_def
  by (auto simp: bit_simps add.commute)

lemma bit_attribute [bit_simps]:
  "bit (set_attribute e b) n \<longleftrightarrow> bit e n \<or> bit b n"
  "bit (unset_attribute e b) n \<longleftrightarrow> bit e n \<and> \<not> bit b n"
  by (auto simp: set_attribute_def unset_attribute_def bit_simps dest: bit_imp_le_length)

lemmas bit_pgtable = bit_kva2pa bit_pa2kva bit_get_pfn bit_set_pfn bit_get_pa bit_get_page_base
  bit_get_page_offset bit_get_vpn2 bit_get_vpn1 bit_get_vpn0

section \<open>Round trips\<close>

text \<open>The direct map window: the kernel addresses whose upper 32 bits are \<open>0xffffffc0\<close>.\<close>

definition in_direct_map :: "u64 \<Rightarrow> bool" where
  "in_direct_map kva \<longleftrightarrow> drop_bit 32 kva = 0xffffffc0"

lemma direct_map_bits:
  assumes "in_direct_map kva" "32 \<le> n" "n < 64"
  shows "bit kva n \<longleftrightarrow> 38 \<le> n"
proof -
  have "bit kva n = bit (drop_bit 32 kva) (n - 32)" using assms by (simp add: bit_simps)
  also have "\<dots> = bit (push_bit 6 (mask 26) :: u64) (n - 32)"
    using assms(1) by (simp add: in_direct_map_def mask_eq_exp_minus_1 push_bit_eq_mult)
  also have "\<dots> \<longleftrightarrow> 38 \<le> n" using assms by (auto simp: bit_simps)
  finally show ?thesis .
qed

lemma pa2kva_kva2pa: "in_direct_map kva \<Longrightarrow> pa2kva (kva2pa kva) = kva"
proof (rule bit_word_eqI)
  fix n :: nat assume d: "in_direct_map kva" and n: "n < LENGTH(64)"
  show "bit (pa2kva (kva2pa kva)) n = bit kva n"
  proof (cases "n < 32")
    case False
    with n direct_map_bits [OF d, of n] show ?thesis by (auto simp: bit_pgtable)
  qed (auto simp: bit_pgtable)
qed

lemma kva2pa_pa2kva: "drop_bit 32 pa = 0 \<Longrightarrow> kva2pa (pa2kva pa) = pa"
proof (rule bit_word_eqI)
  fix n :: nat assume h: "drop_bit 32 pa = 0" and n: "n < LENGTH(64)"
  have "bit pa n \<Longrightarrow> n < 32"
  proof (rule ccontr)
    assume "bit pa n" "\<not> n < 32"
    then have "bit (drop_bit 32 pa) (n - 32)" by (simp add: bit_simps)
    with h show False by simp
  qed
  then show "bit (kva2pa (pa2kva pa)) n = bit pa n" using n by (auto simp: bit_pgtable)
qed

lemma get_pfn_set_pfn: "get_pfn (set_pfn e p) = take_bit 44 p"
  by (rule bit_word_eqI) (auto simp: bit_pgtable bit_simps)

lemma set_pfn_set_pfn: "set_pfn (set_pfn e p) q = set_pfn e q"
  by (rule bit_word_eqI) (auto simp: bit_pgtable)

lemma get_pa_set_pfn: "get_pa (set_pfn e (drop_bit NORMAL_PAGE_SHIFT pa)) =
    get_page_base (take_bit 56 pa)"
  by (rule bit_word_eqI) (auto simp: bit_pgtable bit_simps NORMAL_PAGE_SHIFT_def)

lemma get_pa_set_attribute:
  "drop_bit 10 b = 0 \<Longrightarrow> get_pa (set_attribute e b) = get_pa e"
proof (rule bit_word_eqI)
  fix n :: nat assume h: "drop_bit 10 b = 0" and n: "n < LENGTH(64)"
  have "\<not> bit b (n - 2)" if "12 \<le> n"
  proof
    assume "bit b (n - 2)"
    then have "bit (drop_bit 10 b) (n - 12)" using that by (simp add: bit_simps)
    with h show False by simp
  qed
  then show "bit (get_pa (set_attribute e b)) n = bit (get_pa e) n"
    by (auto simp: bit_pgtable bit_simps)
qed

lemma page_base_offset: "get_page_base v OR get_page_offset v = v"
  by (rule bit_word_eqI) (auto simp: bit_pgtable bit_simps)

lemma page_base_idem [simp]: "get_page_base (get_page_base v) = get_page_base v"
  by (rule bit_word_eqI) (auto simp: bit_pgtable)

lemma va_decompose:
  "push_bit 30 (get_vpn2 v) OR push_bit 21 (get_vpn1 v) OR push_bit 12 (get_vpn0 v)
     OR get_page_offset v = v AND VA_MASK"
proof (rule bit_word_eqI)
  fix n :: nat
  consider "n < 12" | "12 \<le> n" "n < 21" | "21 \<le> n" "n < 30" | "30 \<le> n" by linarith
  then show "bit (push_bit 30 (get_vpn2 v) OR push_bit 21 (get_vpn1 v) OR push_bit 12 (get_vpn0 v)
     OR get_page_offset v) n = bit (v AND VA_MASK) n"
    by cases (auto simp: bit_pgtable bit_simps mask_constants dest: bit_imp_le_length)
qed

lemma vpn_bound:
  "unat (get_vpn2 v) < 512" "unat (get_vpn1 v) < 512" "unat (get_vpn0 v) < 512"
proof -
  have "get_vpn2 v = take_bit 9 (get_vpn2 v)" "get_vpn1 v = take_bit 9 (get_vpn1 v)"
    "get_vpn0 v = take_bit 9 (get_vpn0 v)"
    by (rule bit_word_eqI; auto simp: bit_pgtable bit_simps)+
  moreover have "unat (take_bit 9 w) < 512" for w :: u64
    using take_bit_nat_less_exp [of 9 "unat w"] by (simp add: unsigned_take_bit_eq)
  ultimately show "unat (get_vpn2 v) < 512" "unat (get_vpn1 v) < 512" "unat (get_vpn0 v) < 512"
    by metis+
qed

lemma vpn_inj:
  assumes "get_vpn2 v = get_vpn2 w" "get_vpn1 v = get_vpn1 w" "get_vpn0 v = get_vpn0 w"
  shows "get_page_base (v AND VA_MASK) = get_page_base (w AND VA_MASK)"
proof -
  have "get_page_base (v AND VA_MASK) =
      push_bit 30 (get_vpn2 v) OR push_bit 21 (get_vpn1 v) OR push_bit 12 (get_vpn0 v)" for v
  proof -
    have "push_bit 30 (get_vpn2 v) OR push_bit 21 (get_vpn1 v) OR push_bit 12 (get_vpn0 v) =
        get_page_base (push_bit 30 (get_vpn2 v) OR push_bit 21 (get_vpn1 v)
          OR push_bit 12 (get_vpn0 v) OR get_page_offset v)"
      by (rule bit_word_eqI) (auto simp: bit_get_page_base bit_get_page_offset bit_simps)
    then show ?thesis by (simp only: va_decompose)
  qed
  with assms show ?thesis by simp
qed

end
