(* ===== verification/Kstate.thy ===== *)
theory Kstate
  imports Queues CString Pgtable
begin

text \<open>
  The kernel's global data: the task control blocks of \<open>include/os/sched.h\<close>, the tables of
  \<open>kernel/locking/lock.c\<close>, the memory manager's maps and the per-hart registers that the code
  reads and writes. All of it is one record \<open>kernel\<close>; the operations of the other theories
  take it and return it updated.

  Hardware and firmware that the repository does not contain stay parameters: the firmware's
  SD card calls are the record \<open>bios\<close> over a device state \<^typ>\<open>'d\<close>, and the value returned
  by the \<open>n\<close>-th execution of \<open>rdtime\<close> is an argument of the operations that read the clock.
\<close>

section \<open>Tasks\<close>

datatype task_status_t = TASK_BLOCKED | TASK_RUNNING | TASK_READY | TASK_EXITED

record regs_context_t =
  regs :: "nat \<Rightarrow> u64"
  sstatus :: u64
  sepc :: u64
  sbadaddr :: u64
  scause :: u64

text \<open>The members \<open>list\<close> and \<open>wait_list\<close> are the nodes \<open>PList\<close> and \<open>Head (WaitQ _)\<close> of the
  node heap.\<close>

record pcb_t =
  kernel_sp :: u64
  user_sp :: u64
  kernel_stack_base :: u64
  user_stack_base :: u64
  pgdir :: u64
  pid :: int
  parent_pid :: int
  status :: task_status_t
  cursor_x :: int
  cursor_y :: int
  wakeup_time :: u64
  mutex_idx :: int
  mbox_buf :: u64
  mbox_size :: int
  mbox_rw :: int
  satp :: u64
  asid :: u32
  net_curr_num :: int
  net_length :: int
  net_buffer :: u64
  net_packet_size :: u64

definition NUM_MAX_TASK :: nat where "NUM_MAX_TASK = 16"
definition TASK_MAXNUM :: nat where "TASK_MAXNUM = 16"
definition ASID_KERNEL :: u32 where "ASID_KERNEL = 0x10"
definition ASID_USER :: u32 where "ASID_USER = 0x20"
definition KERNEL_PAGE :: u8 where "KERNEL_PAGE = 0x40"

text \<open>The control blocks that exist.\<close>

fun valid_pcb :: "pcb_ref \<Rightarrow> bool" where
  "valid_pcb (Pcb i) \<longleftrightarrow> i < NUM_MAX_TASK"
| "valid_pcb (Pid0 i) \<longleftrightarrow> i < 2"

section \<open>Locks and mailboxes\<close>

datatype lock_status_t = UNLOCKED | LOCKED

record mutex_lock_t =
  m_status :: lock_status_t
  m_key :: int
  m_owner :: int

record barrier_t =
  b_key :: int
  b_goal :: int
  b_count :: int

record condition_t =
  c_key :: int

record mailbox_t =
  mb_buffer :: region
  mb_name :: region
  mb_length :: int
  mb_ref_count :: int

definition LOCK_NUM :: nat where "LOCK_NUM = 16"
definition BARRIER_NUM :: nat where "BARRIER_NUM = 16"
definition CONDITION_NUM :: nat where "CONDITION_NUM = 16"
definition MBOX_NUM :: nat where "MBOX_NUM = 16"
definition MAX_MBOX_LENGTH :: nat where "MAX_MBOX_LENGTH = 128"

section \<open>Memory management\<close>

record swap_info_t =
  sw_va :: u64
  sw_asid :: u8
  sw_sec_num :: int

text \<open>\<open>mem\<close> is the memory behind the direct map, one 64-bit word per 8-byte aligned kernel
  address.\<close>

record 'd mm_state =
  free_mem_map :: "nat \<Rightarrow> u8"
  free_pgt_map :: "nat \<Rightarrow> u8"
  clock_ptr :: nat
  sec_ptr :: int
  swap_info :: "nat \<Rightarrow> swap_info_t"
  va_info :: "nat \<Rightarrow> u64"
  mem :: "u64 \<Rightarrow> u64"
  sd :: 'd
  padding_start_sec :: int

text \<open>The firmware calls behind \<open>sd_read\<close> and \<open>sd_write\<close>: number of sectors, first sector, and
  for a read the bytes delivered to the given address, for a write the bytes found there.\<close>

record 'd bios =
  bios_sdread :: "u32 \<Rightarrow> u32 \<Rightarrow> 'd \<Rightarrow> int \<times> (nat \<Rightarrow> u8)"
  bios_sdwrite :: "u32 \<Rightarrow> u32 \<Rightarrow> (nat \<Rightarrow> u8) \<Rightarrow> 'd \<Rightarrow> int \<times> 'd"

section \<open>The kernel state\<close>

text \<open>
  \<open>hart\<close> is the hart executing in the kernel (the kernel runs under one big lock), \<open>tp\<close> the
  \<open>tp\<close> register of each hart, which holds \<open>current_running\<close>. \<open>frames\<close> are the saved trap
  frames, by address; \<open>umem\<close> is user memory as seen under a given value of the satp register.
\<close>

record 'd kernel =
  hart :: nat
  tp :: "nat \<Rightarrow> pcb_ref"
  csr_satp :: "nat \<Rightarrow> u64"
  links :: "node links"
  pcbs :: "pcb_ref \<Rightarrow> pcb_t"
  frames :: "u64 \<Rightarrow> regs_context_t"
  umem :: "u64 \<Rightarrow> u64 \<Rightarrow> u8"
  ticks_read :: nat
  time_elapsed :: u64
  time_base :: u64
  mlocks :: "nat \<Rightarrow> mutex_lock_t"
  barriers :: "nat \<Rightarrow> barrier_t"
  conditions :: "nat \<Rightarrow> condition_t"
  mboxes :: "nat \<Rightarrow> mailbox_t"
  mm :: "'d mm_state"

definition current_running :: "'d kernel \<Rightarrow> pcb_ref" where
  "current_running s = tp s (hart s)"

definition set_current :: "pcb_ref \<Rightarrow> 'd kernel \<Rightarrow> 'd kernel" where
  "set_current p s = s\<lparr>tp := (tp s)(hart s := p)\<rparr>"

definition upd_pcb :: "pcb_ref \<Rightarrow> (pcb_t \<Rightarrow> pcb_t) \<Rightarrow> 'd kernel \<Rightarrow> 'd kernel" where
  "upd_pcb p f s = s\<lparr>pcbs := (pcbs s)(p := f (pcbs s p))\<rparr>"

definition set_status :: "pcb_ref \<Rightarrow> task_status_t \<Rightarrow> 'd kernel \<Rightarrow> 'd kernel" where
  "set_status p st = upd_pcb p (\<lambda>t. t\<lparr>status := st\<rparr>)"

text \<open>A list macro applied to the kernel's node heap.\<close>

definition upd_links :: "(node links \<Rightarrow> node links) \<Rightarrow> 'd kernel \<Rightarrow> 'd kernel" where
  "upd_links f s = s\<lparr>links := f (links s)\<rparr>"

abbreviation pstatus :: "'d kernel \<Rightarrow> pcb_ref \<Rightarrow> task_status_t" where
  "pstatus s p \<equiv> status (pcbs s p)"

text \<open>An \<open>int\<close> index that the code uses without a check: undefined outside \<open>[0, n)\<close>.\<close>

definition index :: "int \<Rightarrow> nat \<Rightarrow> nat option" where
  "index i n = (if 0 \<le> i \<and> i < int n then Some (nat i) else None)"

lemma index_Some [simp]: "index i n = Some k \<longleftrightarrow> i = int k \<and> k < n"
  by (auto simp: index_def)

lemma index_int [simp]: "k < n \<Longrightarrow> index (int k) n = Some k"
  by simp

lemma index_None: "index i n = None \<longleftrightarrow> i < 0 \<or> int n \<le> i"
  by (auto simp: index_def)

lemma state_simps [simp, frame_simps]:
  "links (set_status p st s) = links s" "links (upd_pcb p f s) = links s"
  "links (upd_links g s) = g (links s)" "links (set_current p s) = links s"
  "hart (set_status p st s) = hart s" "hart (upd_pcb p f s) = hart s"
  "hart (upd_links g s) = hart s" "hart (set_current p s) = hart s"
  "tp (set_status p st s) = tp s" "tp (upd_pcb p f s) = tp s" "tp (upd_links g s) = tp s"
  "tp (set_current p s) = (tp s)(hart s := p)"
  "pcbs (upd_links g s) = pcbs s" "pcbs (set_current p s) = pcbs s"
  "pcbs (upd_pcb p f s) = (pcbs s)(p := f (pcbs s p))"
  "pcbs (set_status p st s) = (pcbs s)(p := (pcbs s p)\<lparr>status := st\<rparr>)"
  by (simp_all add: set_status_def upd_pcb_def upd_links_def set_current_def)

lemma state_simps_locks [simp, frame_simps]:
  "mlocks (set_status p st s) = mlocks s" "mlocks (upd_pcb p f s) = mlocks s"
  "mlocks (upd_links g s) = mlocks s" "mlocks (set_current p s) = mlocks s"
  "mboxes (set_status p st s) = mboxes s" "mboxes (upd_pcb p f s) = mboxes s"
  "mboxes (upd_links g s) = mboxes s" "mboxes (set_current p s) = mboxes s"
  "barriers (set_status p st s) = barriers s" "barriers (upd_pcb p f s) = barriers s"
  "barriers (upd_links g s) = barriers s" "barriers (set_current p s) = barriers s"
  "conditions (set_status p st s) = conditions s" "conditions (upd_pcb p f s) = conditions s"
  "conditions (upd_links g s) = conditions s" "conditions (set_current p s) = conditions s"
  "mm (set_status p st s) = mm s" "mm (upd_pcb p f s) = mm s" "mm (upd_links g s) = mm s"
  "mm (set_current p s) = mm s" "umem (set_status p st s) = umem s"
  "umem (upd_pcb p f s) = umem s" "umem (upd_links g s) = umem s"
  "umem (set_current p s) = umem s" "csr_satp (set_status p st s) = csr_satp s"
  "csr_satp (upd_pcb p f s) = csr_satp s" "csr_satp (upd_links g s) = csr_satp s"
  "csr_satp (set_current p s) = csr_satp s"
  by (simp_all add: set_status_def upd_pcb_def upd_links_def set_current_def)

lemma state_simps_rest [simp, frame_simps]:
  "frames (set_status p st s) = frames s" "frames (upd_pcb p f s) = frames s"
  "frames (upd_links g s) = frames s" "frames (set_current p s) = frames s"
  "time_base (set_status p st s) = time_base s" "time_base (upd_pcb p f s) = time_base s"
  "time_base (upd_links g s) = time_base s" "time_base (set_current p s) = time_base s"
  "ticks_read (set_status p st s) = ticks_read s" "ticks_read (upd_pcb p f s) = ticks_read s"
  "ticks_read (upd_links g s) = ticks_read s" "ticks_read (set_current p s) = ticks_read s"
  by (simp_all add: set_status_def upd_pcb_def upd_links_def set_current_def)

lemma current_running_simps [simp]:
  "current_running (set_status p st s) = current_running s"
  "current_running (upd_pcb p f s) = current_running s"
  "current_running (upd_links g s) = current_running s"
  "current_running (set_current p s) = p"
  by (simp_all add: current_running_def)

end
