(* ===== verification/Mm.thy ===== *)
theory Mm
  imports Kstate
begin

text \<open>
  The memory manager of \<open>kernel/mm/mm.c\<close>: page frames and page tables handed out from two
  static pools, the Sv39 tables themselves, and the clock algorithm with its swap area.
  Frame \<open>i\<close> of the first pool is the page at \<open>INIT_KERNEL_STACK + i * PAGE_SIZE\<close>; its tag in
  \<open>free_mem_map\<close> is 0 when free and otherwise the owner's asid with the flag bits
  \<open>KERNEL_PAGE\<close> and \<open>MAP_PAGE_ACCESSED\<close>.

  A load or store through a kernel address is undefined outside the window that
  \<open>setup_vm\<close> (\<open>arch/riscv/kernel/boot.c\<close>) maps. The swap and frame tables live at fixed
  addresses of their own; they are separate fields here, so a page-table page with an index
  of 4096 or more, which lies on top of the swap table, is outside the model (see
  \<open>pgt_pool_overlaps_swap_table\<close>).
\<close>

section \<open>Layout\<close>

definition PAGE_SIZE :: u64 where "PAGE_SIZE = 4096"
definition SECTOR_SIZE :: u32 where "SECTOR_SIZE = 512"
definition INIT_KERNEL_STACK :: u64 where "INIT_KERNEL_STACK = 0xffffffc052000000"
definition INIT_KERNEL_PAGETABLE :: u64 where "INIT_KERNEL_PAGETABLE = 0xffffffc054000000"
definition SWAP_INFO_PLACE :: u64 where "SWAP_INFO_PLACE = 0xffffffc055000000"
definition VA_INFO_PLACE :: u64 where "VA_INFO_PLACE = 0xffffffc055500000"
definition TEMP_TASK_IMG :: u64 where "TEMP_TASK_IMG = 0xffffffc056000000"
definition FREE_MEM_SIZE :: u64 where "FREE_MEM_SIZE = INIT_KERNEL_PAGETABLE - INIT_KERNEL_STACK"
definition FREE_PGT_SIZE :: u64 where "FREE_PGT_SIZE = TEMP_TASK_IMG - INIT_KERNEL_PAGETABLE"
definition MEM_PAGE_NUM :: nat where "MEM_PAGE_NUM = unat (FREE_MEM_SIZE div PAGE_SIZE)"
definition PGT_PAGE_NUM :: nat where "PGT_PAGE_NUM = unat (FREE_PGT_SIZE div PAGE_SIZE)"
definition SWAP_INFO_NUM :: nat where "SWAP_INFO_NUM = 4096"
definition MAP_PAGE_ACCESSED :: u8 where "MAP_PAGE_ACCESSED = 0x80"

lemma page_counts [simp]: "MEM_PAGE_NUM = 8192" "PGT_PAGE_NUM = 8192"
  by (simp_all add: MEM_PAGE_NUM_def PGT_PAGE_NUM_def FREE_MEM_SIZE_def FREE_PGT_SIZE_def
      INIT_KERNEL_PAGETABLE_def INIT_KERNEL_STACK_def TEMP_TASK_IMG_def PAGE_SIZE_def)

definition frame_addr :: "nat \<Rightarrow> u64" where
  "frame_addr i = INIT_KERNEL_STACK + of_nat i * PAGE_SIZE"

definition pgt_addr :: "nat \<Rightarrow> u64" where
  "pgt_addr i = INIT_KERNEL_PAGETABLE + of_nat i * PAGE_SIZE"

text \<open>\<open>(kva - INIT_KERNEL_STACK) / PAGE_SIZE\<close>, used unchecked as an index of the frame maps.\<close>

definition frame_num :: "u64 \<Rightarrow> nat option" where
  "frame_num kva =
     (let num = unat ((kva - INIT_KERNEL_STACK) div PAGE_SIZE)
      in if num < MEM_PAGE_NUM then Some num else None)"

section \<open>Words in mapped memory\<close>

definition mapped_kva :: "u64 \<Rightarrow> bool" where
  "mapped_kva a \<longleftrightarrow> 0xffffffc050000000 \<le> a \<and> a < 0xffffffc060000000"

definition load64 :: "(u64 \<Rightarrow> u64) \<Rightarrow> u64 \<Rightarrow> u64 option" where
  "load64 m a = (if mapped_kva a then Some (m a) else None)"

definition store64 :: "(u64 \<Rightarrow> u64) \<Rightarrow> u64 \<Rightarrow> u64 \<Rightarrow> (u64 \<Rightarrow> u64) option" where
  "store64 m a v = (if mapped_kva a then Some (m(a := v)) else None)"

fun clean_words :: "nat \<Rightarrow> u64 \<Rightarrow> (u64 \<Rightarrow> u64) \<Rightarrow> (u64 \<Rightarrow> u64)" where
  "clean_words 0 page m = m"
| "clean_words (Suc n) page m = clean_words n (page + 8) (m(page := 0))"

definition clean_page :: "u64 \<Rightarrow> 'd mm_state \<Rightarrow> 'd mm_state" where
  "clean_page page m = m\<lparr>mem := clean_words (unat (PAGE_SIZE div 8)) page (mem m)\<rparr>"

text \<open>The bytes a firmware call finds at, or delivers to, a physical address.\<close>

definition dma_out :: "u64 \<Rightarrow> (u64 \<Rightarrow> u64) \<Rightarrow> nat \<Rightarrow> u8" where
  "dma_out pa m i = byte_of (m (pa2kva pa + of_nat (8 * (i div 8)))) (i mod 8)"

definition dma_in :: "u64 \<Rightarrow> nat \<Rightarrow> (nat \<Rightarrow> u8) \<Rightarrow> (u64 \<Rightarrow> u64) \<Rightarrow> (u64 \<Rightarrow> u64)" where
  "dma_in pa len bs m =
     (\<lambda>a. let off = unat (a - pa2kva pa)
          in if off < len then le64 (\<lambda>b. bs (off + b)) else m a)"

section \<open>Operations\<close>

definition is_same_proc :: "u8 \<Rightarrow> u8 \<Rightarrow> bool" where
  "is_same_proc flag aid \<longleftrightarrow> flag AND aid = aid"

definition init_mm :: "'d mm_state \<Rightarrow> 'd mm_state" where
  "init_mm m = m\<lparr>
     free_mem_map := (\<lambda>i. if i < MEM_PAGE_NUM then 0 else free_mem_map m i),
     va_info := (\<lambda>i. if i < MEM_PAGE_NUM then 0 else va_info m i),
     free_pgt_map := (\<lambda>i. if i < PGT_PAGE_NUM then 0 else free_pgt_map m i),
     swap_info := (\<lambda>i. if i < SWAP_INFO_NUM then \<lparr>sw_va = 0, sw_asid = 0, sw_sec_num = 0\<rparr>
                       else swap_info m i)\<rparr>"

text \<open>The walk of \<open>get_pte\<close>: \<^term>\<open>Some 0\<close> is the null pointer, \<^term>\<open>None\<close> an access outside
  the mapped window.\<close>

definition get_pte :: "u64 \<Rightarrow> u64 \<Rightarrow> (u64 \<Rightarrow> u64) \<Rightarrow> u64 option" where
  "get_pte va pd m = do {
     let pgd0 = pa2kva pd;
     e0 \<leftarrow> load64 m (pgd0 + 8 * get_vpn2 va);
     if get_attribute e0 PAGE_PRESENT = 0 then Some 0 else do {
       let pgd1 = pa2kva (get_pa e0);
       e1 \<leftarrow> load64 m (pgd1 + 8 * get_vpn1 va);
       if get_attribute e1 PAGE_PRESENT = 0 then Some 0 else do {
         let pgd2 = pa2kva (get_pa e1);
         e2 \<leftarrow> load64 m (pgd2 + 8 * get_vpn0 va);
         if e2 = 0 then Some 0 else Some (pgd2 + 8 * get_vpn0 va) } } }"

definition get_kva :: "u64 \<Rightarrow> u64 \<Rightarrow> (u64 \<Rightarrow> u64) \<Rightarrow> u64 option" where
  "get_kva va pd m = do {
     pte \<leftarrow> get_pte va pd m;
     e \<leftarrow> load64 m pte;
     Some (pa2kva (get_pa e) + get_page_offset va) }"

text \<open>The table of control blocks is searched for the owner of a frame; the page directory is
  0 when no live task has that asid.\<close>

definition owner_pgdir :: "(pcb_ref \<Rightarrow> pcb_t) \<Rightarrow> u64 \<Rightarrow> u64" where
  "owner_pgdir ps a =
     (case find_from (\<lambda>j. ucast (asid (ps (Pcb j))) = a \<and> status (ps (Pcb j)) \<noteq> TASK_EXITED)
        0 TASK_MAXNUM of
        Some j \<Rightarrow> satp (ps (Pcb j)) | None \<Rightarrow> 0)"

definition swap_out :: "'d bios \<Rightarrow> (pcb_ref \<Rightarrow> pcb_t) \<Rightarrow> u64 \<Rightarrow> 'd mm_state \<Rightarrow> 'd mm_state option" where
  "swap_out B ps kva m = do {
     num \<leftarrow> frame_num kva;
     let va = get_page_base (va_info m num);
     let owner = free_mem_map m num;
     i \<leftarrow> find_from (\<lambda>i. sw_asid (swap_info m i) = 0) 0 SWAP_INFO_NUM;
     let pd = owner_pgdir ps (ucast owner);
     pte \<leftarrow> get_pte va pd (mem m);
     mem' \<leftarrow> (if pte \<noteq> 0
              then do { e \<leftarrow> load64 (mem m) pte; store64 (mem m) pte (unset_attribute e PAGE_PRESENT) }
              else Some (mem m));
     let info = \<lparr>sw_va = va, sw_asid = owner, sw_sec_num = sec_ptr m\<rparr>;
     Some (m\<lparr>swap_info := (swap_info m)(i := info),
             mem := mem',
             free_mem_map := (free_mem_map m)(num := 0),
             va_info := (va_info m)(num := 0),
             sec_ptr := sec_ptr m + 1,
             sd := snd (bios_sdwrite B 8 (word_of_int (padding_start_sec m + sw_sec_num info * 8))
                     (dma_out (kva2pa kva) mem') (sd m))\<rparr>) }"

definition swap_in :: "'d bios \<Rightarrow> u64 \<Rightarrow> nat \<Rightarrow> 'd mm_state \<Rightarrow> 'd mm_state option" where
  "swap_in B kva j m = do {
     let info = swap_info m j;
     let bytes = snd (bios_sdread B 8 (word_of_int (padding_start_sec m + sw_sec_num info * 8)) (sd m));
     num \<leftarrow> frame_num kva;
     Some (m\<lparr>mem := dma_in (kva2pa kva) 4096 bytes (mem m),
             free_mem_map := (free_mem_map m)(num := sw_asid info),
             va_info := (va_info m)(num := sw_va info),
             swap_info := (swap_info m)(j := \<lparr>sw_va = 0, sw_asid = 0, sw_sec_num = 0\<rparr>)\<rparr>) }"

text \<open>The clock algorithm: not returning is \<^term>\<open>None\<close>.\<close>

partial_function (option) choose_swap :: "'d mm_state \<Rightarrow> (u64 \<times> 'd mm_state) option" where
  "choose_swap m =
     (if free_mem_map m (clock_ptr m) AND KERNEL_PAGE = 0
      then if free_mem_map m (clock_ptr m) AND MAP_PAGE_ACCESSED = 0
           then Some (of_nat (clock_ptr m) * PAGE_SIZE + INIT_KERNEL_STACK,
                      m\<lparr>clock_ptr := (clock_ptr m + 1) mod MEM_PAGE_NUM\<rparr>)
           else choose_swap (m\<lparr>
                  free_mem_map := (free_mem_map m)(clock_ptr m :=
                    free_mem_map m (clock_ptr m) AND NOT MAP_PAGE_ACCESSED),
                  clock_ptr := (clock_ptr m + 1) mod MEM_PAGE_NUM\<rparr>)
      else choose_swap (m\<lparr>clock_ptr := (clock_ptr m + 1) mod MEM_PAGE_NUM\<rparr>))"

definition allocPage :: "'d bios \<Rightarrow> (pcb_ref \<Rightarrow> pcb_t) \<Rightarrow> u8 \<Rightarrow> 'd mm_state \<Rightarrow> (u64 \<times> 'd mm_state) option" where
  "allocPage B ps aid m =
     (case find_from (\<lambda>i. free_mem_map m i = 0) 0 MEM_PAGE_NUM of
        Some i \<Rightarrow>
          Some (frame_addr i,
            clean_page (frame_addr i) (m\<lparr>free_mem_map := (free_mem_map m)(i := aid)\<rparr>))
      | None \<Rightarrow> do {
          (kva, m1) \<leftarrow> choose_swap m;
          num \<leftarrow> frame_num kva;
          m2 \<leftarrow> swap_out B ps kva m1;
          Some (kva, clean_page kva (m2\<lparr>free_mem_map := (free_mem_map m2)(num := aid)\<rparr>)) })"

definition allocPagetable :: "u8 \<Rightarrow> 'd mm_state \<Rightarrow> u64 \<times> 'd mm_state" where
  "allocPagetable aid m =
     (case find_from (\<lambda>i. free_pgt_map m i = 0) 0 PGT_PAGE_NUM of
        Some i \<Rightarrow> (pgt_addr i,
          clean_page (pgt_addr i) (m\<lparr>free_pgt_map := (free_pgt_map m)(i := aid)\<rparr>))
      | None \<Rightarrow> (0, m))"

text \<open>\<open>page_in_swap\<close> returns a pointer into the table, or null.\<close>

definition page_in_swap :: "u64 \<Rightarrow> u64 \<Rightarrow> 'd mm_state \<Rightarrow> nat option" where
  "page_in_swap va aid m =
     find_from (\<lambda>j. sw_va (swap_info m j) = get_page_base va
        \<and> is_same_proc (sw_asid (swap_info m j)) (ucast aid)) 0 SWAP_INFO_NUM"

definition freeProcessMem :: "u8 \<Rightarrow> 'd mm_state \<Rightarrow> 'd mm_state" where
  "freeProcessMem aid m = m\<lparr>
     free_mem_map := (\<lambda>i. if i < MEM_PAGE_NUM \<and> free_mem_map m i AND aid = aid then 0
                          else free_mem_map m i),
     free_pgt_map := (\<lambda>i. if i < PGT_PAGE_NUM \<and> free_pgt_map m i AND aid = aid then 0
                          else free_pgt_map m i),
     swap_info := (\<lambda>i. if i < SWAP_INFO_NUM \<and> sw_asid (swap_info m i) AND aid = aid
                       then \<lparr>sw_va = 0, sw_asid = 0, sw_sec_num = 0\<rparr> else swap_info m i)\<rparr>"

fun copy_entries :: "nat \<Rightarrow> u64 \<Rightarrow> u64 \<Rightarrow> (u64 \<Rightarrow> u64) \<Rightarrow> (u64 \<Rightarrow> u64)" where
  "copy_entries 0 dest src m = m"
| "copy_entries (Suc n) dest src m = copy_entries n (dest + 8) (src + 8) (m(dest := m src))"

definition share_pgtable :: "u64 \<Rightarrow> u64 \<Rightarrow> 'd mm_state \<Rightarrow> 'd mm_state" where
  "share_pgtable dest_pgdir src_pgdir m =
     m\<lparr>mem := copy_entries (unat (PAGE_SIZE div 8)) dest_pgdir src_pgdir (mem m)\<rparr>"

text \<open>The step that \<open>alloc_page_helper\<close> takes at each of the two upper levels: the entry at
  \<open>ea\<close> gets a fresh table if it is 0; the result is the next table's kernel address.\<close>

definition ensure_table :: "u8 \<Rightarrow> u64 \<Rightarrow> 'd mm_state \<Rightarrow> (u64 \<times> 'd mm_state) option" where
  "ensure_table aid ea m = do {
     e \<leftarrow> load64 (mem m) ea;
     m1 \<leftarrow> (if e = 0
           then (let (pgt, m') = allocPagetable aid m in do {
             e' \<leftarrow> load64 (mem m') ea;
             mem1 \<leftarrow> store64 (mem m') ea
               (set_attribute (set_pfn e' (drop_bit NORMAL_PAGE_SHIFT (kva2pa pgt))) PAGE_PRESENT);
             Some (m'\<lparr>mem := mem1\<rparr>) })
           else Some m);
     e1 \<leftarrow> load64 (mem m1) ea;
     Some (pa2kva (get_pa e1), m1) }"

definition leaf_attributes :: u64 where
  "leaf_attributes = PAGE_PRESENT OR PAGE_READ OR PAGE_WRITE OR PAGE_EXEC OR PAGE_USER
     OR PAGE_ACCESSED OR PAGE_DIRTY"

definition alloc_page_helper ::
  "'d bios \<Rightarrow> (pcb_ref \<Rightarrow> pcb_t) \<Rightarrow> u64 \<Rightarrow> u64 \<Rightarrow> u8 \<Rightarrow> 'd mm_state \<Rightarrow> (u64 \<times> 'd mm_state) option" where
  "alloc_page_helper B ps va0 pd aid m0 = do {
     let va = va0 AND VA_MASK;
     (kva, m1) \<leftarrow> allocPage B ps aid m0;
     (pgd1, m2) \<leftarrow> ensure_table aid (pd + 8 * get_vpn2 va) m1;
     (pgd2, m3) \<leftarrow> ensure_table aid (pgd1 + 8 * get_vpn1 va) m2;
     e \<leftarrow> load64 (mem m3) (pgd2 + 8 * get_vpn0 va);
     mem4 \<leftarrow> store64 (mem m3) (pgd2 + 8 * get_vpn0 va)
        (set_attribute (set_pfn e (drop_bit NORMAL_PAGE_SHIFT (kva2pa kva))) leaf_attributes);
     num \<leftarrow> frame_num kva;
     Some (kva, m3\<lparr>mem := mem4, va_info := (va_info m3)(num := get_page_base va)\<rparr>) }"

definition set_map_page_accessed :: "int \<Rightarrow> 'd mm_state \<Rightarrow> 'd mm_state option" where
  "set_map_page_accessed idx m = do {
     i \<leftarrow> index idx MEM_PAGE_NUM;
     Some (m\<lparr>free_mem_map := (free_mem_map m)(i := free_mem_map m i OR MAP_PAGE_ACCESSED)\<rparr>) }"

section \<open>Addresses of the pools\<close>

lemma unat_add_small: "unat a + n < 2 ^ 64 \<Longrightarrow> unat (a + of_nat n) = unat a + n" for a :: u64
  by (simp add: unat_word_ariths unat_of_nat)

lemma unat_frame_addr: "i < 8192 \<Longrightarrow> unat (frame_addr i) = 0xffffffc052000000 + 4096 * i"
  using unat_add_small [of INIT_KERNEL_STACK "4096 * i"]
  by (simp add: frame_addr_def INIT_KERNEL_STACK_def PAGE_SIZE_def mult.commute)

lemma unat_pgt_addr: "i < 8192 \<Longrightarrow> unat (pgt_addr i) = 0xffffffc054000000 + 4096 * i"
  using unat_add_small [of INIT_KERNEL_PAGETABLE "4096 * i"]
  by (simp add: pgt_addr_def INIT_KERNEL_PAGETABLE_def PAGE_SIZE_def mult.commute)

lemma frame_num_frame_addr [simp]: "i < 8192 \<Longrightarrow> frame_num (frame_addr i) = Some i"
  by (simp add: frame_num_def frame_addr_def PAGE_SIZE_def unat_div unat_word_ariths unat_of_nat
      Let_def)

lemma frame_addr_inj: "i < 8192 \<Longrightarrow> j < 8192 \<Longrightarrow> frame_addr i = frame_addr j \<longleftrightarrow> i = j"
  by (metis frame_num_frame_addr option.inject)

lemma page_split:
  assumes "4096 * j + 8 * u = 4096 * k + 8 * w" "u < 512" "w < 512"
  shows "j = k \<and> u = (w :: nat)"
proof -
  have "512 * j + u = 512 * k + w" using assms(1) by simp
  then have "(512 * j + u) div 512 = (512 * k + w) div 512" by simp
  then have "j = k" using assms(2,3) by simp
  with assms(1) show ?thesis by simp
qed

text \<open>Word \<open>v\<close> of table page \<open>j\<close>.\<close>

definition entry_addr :: "nat \<Rightarrow> u64 \<Rightarrow> u64" where
  "entry_addr j v = pgt_addr j + 8 * v"

lemma unat_entry_addr:
  assumes "j < 8192" "unat v < 512"
  shows "unat (entry_addr j v) = 0xffffffc054000000 + 4096 * j + 8 * unat v"
  using unat_add_small [of "pgt_addr j" "8 * unat v"] unat_pgt_addr [OF assms(1)] assms
  by (simp add: entry_addr_def)

lemma entry_addr_inj:
  assumes "j < 8192" "k < 8192" "unat v < 512" "unat w < 512"
  shows "entry_addr j v = entry_addr k w \<longleftrightarrow> j = k \<and> v = w"
proof
  assume "entry_addr j v = entry_addr k w"
  then have "4096 * j + 8 * unat v = 4096 * k + 8 * unat w"
    using unat_entry_addr [OF assms(1,3)] unat_entry_addr [OF assms(2,4)] by simp
  then have "j = k \<and> unat v = unat w" using assms(3,4) by (rule page_split)
  then show "j = k \<and> v = w" by (simp add: word_unat_eq_iff)
qed simp

lemma mapped_entry_addr [simp]: "j < 8192 \<Longrightarrow> unat v < 512 \<Longrightarrow> mapped_kva (entry_addr j v)"
  by (simp add: mapped_kva_def word_le_nat_alt word_less_nat_alt unat_entry_addr)

lemma clean_words_eq:
  "8 * n \<le> 2 ^ 63 \<Longrightarrow> clean_words n page m a =
     (if unat (a - page) < 8 * n \<and> 8 dvd unat (a - page) then 0 else m a)"
proof (induction n arbitrary: page m)
  case (Suc n)
  let ?d = "a - page"
  have e: "a - (page + 8) = ?d - 8" by simp
  have s: "unat (?d - 8) = (if unat ?d < 8 then unat ?d + 2 ^ 64 - 8 else unat ?d - 8)"
    by (simp add: unat_sub_if_size word_size)
  have n: "8 * n \<le> 2 ^ 63" using Suc.prems by simp
  have IH: "clean_words (Suc n) page m a =
      (if unat (?d - 8) < 8 * n \<and> 8 dvd unat (?d - 8) then 0 else (m(page := 0)) a)"
    by (simp only: clean_words.simps Suc.IH [OF n] e)
  show ?case
  proof (cases "unat ?d < 8")
    case True
    then have "\<not> unat (?d - 8) < 8 * n" using s Suc.prems by simp
    moreover have "8 dvd unat ?d \<longleftrightarrow> a = page" using True
      by (metis dvd_0_right eq_iff_diff_eq_0 nat_dvd_not_less neq0_conv unat_eq_zero)
    ultimately show ?thesis using IH True by auto
  next
    case False
    then have "a \<noteq> page" by auto
    moreover have "8 dvd unat ?d - 8 \<longleftrightarrow> 8 dvd unat ?d" using False by (simp add: dvd_minus_self)
    ultimately show ?thesis using IH False s by auto
  qed
qed simp

lemma clean_page_fields [simp]:
  "free_mem_map (clean_page p m) = free_mem_map m" "free_pgt_map (clean_page p m) = free_pgt_map m"
  "swap_info (clean_page p m) = swap_info m" "va_info (clean_page p m) = va_info m"
  "clock_ptr (clean_page p m) = clock_ptr m" "sec_ptr (clean_page p m) = sec_ptr m"
  "sd (clean_page p m) = sd m" "padding_start_sec (clean_page p m) = padding_start_sec m"
  by (simp_all add: clean_page_def)

lemma mem_clean_page:
  "mem (clean_page p m) a = (if unat (a - p) < 4096 \<and> 8 dvd unat (a - p) then 0 else mem m a)"
  by (simp add: clean_page_def clean_words_eq PAGE_SIZE_def unat_div)

lemma mem_clean_frame:
  assumes "i < 8192" "j < 8192" "unat v < 512"
  shows "mem (clean_page (frame_addr i) m) (entry_addr j v) = mem m (entry_addr j v)"
proof -
  have "unat (entry_addr j v - frame_addr i) = unat (entry_addr j v) - unat (frame_addr i)"
    using unat_entry_addr [OF assms(2,3)] unat_frame_addr [OF assms(1)] assms
    by (simp add: unat_sub_if_size)
  then have "\<not> unat (entry_addr j v - frame_addr i) < 4096"
    using unat_entry_addr [OF assms(2,3)] unat_frame_addr [OF assms(1)] assms(1) by linarith
  then show ?thesis by (simp add: mem_clean_page)
qed

lemma mem_clean_pgt:
  assumes "i < 8192" "j < 8192" "unat v < 512"
  shows "mem (clean_page (pgt_addr i) m) (entry_addr j v) =
    (if i = j then 0 else mem m (entry_addr j v))"
proof -
  have d: "unat (entry_addr j v - pgt_addr i) = (if i \<le> j then 4096 * (j - i) + 8 * unat v
     else 2 ^ 64 + 8 * unat v - 4096 * (i - j))"
    using unat_entry_addr [OF assms(2,3)] unat_pgt_addr [OF assms(1)] assms
    by (auto simp: unat_sub_if_size word_size diff_mult_distrib2)
  show ?thesis
  proof (cases "i = j")
    case True
    then have "unat (entry_addr j v - pgt_addr i) = 8 * unat v" using d by simp
    then show ?thesis using True assms(3) by (simp add: mem_clean_page)
  next
    case False
    then have "\<not> unat (entry_addr j v - pgt_addr i) < 4096" using d assms by (cases "i \<le> j") auto
    then show ?thesis using False by (simp add: mem_clean_page)
  qed
qed

end
