(* ===== verification/Sched.thy ===== *)
theory Sched
  imports Mm
begin

text \<open>
  The scheduler: \<open>kernel/sched/time.c\<close> and the queue operations of \<open>kernel/sched/sched.c\<close>.
  The clock is a stream \<open>rt\<close>; the \<open>n\<close>-th execution of \<open>rdtime\<close> returns \<open>rt n\<close>.

  \<open>kinv s Q\<close> ties the node heap to the statuses: \<open>Q\<close> gives the tasks of each queue in order,
  those in the ready queue are READY, those in any other queue BLOCKED, and a live task in no
  queue is RUNNING with its node linked to itself. The lemmas show that every operation keeps
  it and acts on \<open>Q\<close> as a simple list operation.
\<close>

section \<open>Time\<close>

definition get_ticks :: "(nat \<Rightarrow> u64) \<Rightarrow> 'd kernel \<Rightarrow> u64 \<times> 'd kernel" where
  "get_ticks rt s = (rt (ticks_read s),
     s\<lparr>time_elapsed := rt (ticks_read s), ticks_read := Suc (ticks_read s)\<rparr>)"

definition get_timer :: "(nat \<Rightarrow> u64) \<Rightarrow> 'd kernel \<Rightarrow> (u64 \<times> 'd kernel) option" where
  "get_timer rt s = (let (t, s') = get_ticks rt s in
     if time_base s' = 0 then None else Some (t div time_base s', s'))"

definition get_time_base :: "'d kernel \<Rightarrow> u64" where
  "get_time_base s = time_base s"

partial_function (option) latency_loop ::
  "(nat \<Rightarrow> u64) \<Rightarrow> u64 \<Rightarrow> u64 \<Rightarrow> 'd kernel \<Rightarrow> 'd kernel option" where
  "latency_loop rt begin_time t s = do {
     r \<leftarrow> get_timer rt s;
     if fst r - begin_time < t then latency_loop rt begin_time t (snd r) else Some (snd r) }"

definition latency :: "(nat \<Rightarrow> u64) \<Rightarrow> u64 \<Rightarrow> 'd kernel \<Rightarrow> 'd kernel option" where
  "latency rt t s = do { (begin_time, s1) \<leftarrow> get_timer rt s; latency_loop rt begin_time t s1 }"

definition wake_sleeper :: "pcb_ref \<Rightarrow> 'd kernel \<Rightarrow> 'd kernel" where
  "wake_sleeper p s =
     (let s1 = upd_pcb p (\<lambda>t. t\<lparr>wakeup_time := 0\<rparr>) s;
          s2 = set_status p TASK_READY s1;
          s3 = upd_links (LIST_REMOVE (PList p)) s2
      in upd_links (LIST_ADD_TAIL (Head ReadyQ) (PList p)) s3)"

partial_function (option) check_sleeping_loop ::
  "(nat \<Rightarrow> u64) \<Rightarrow> node \<Rightarrow> 'd kernel \<Rightarrow> 'd kernel option" where
  "check_sleeping_loop rt p s =
     (if p = Head SleepQ then Some s
      else do {
        x \<leftarrow> NODE_TO_PCB p;
        let p' = lnext (links s) p;
        let r = get_ticks rt s;
        if wakeup_time (pcbs (snd r) x) \<le> fst r then check_sleeping_loop rt p' (wake_sleeper x (snd r))
        else check_sleeping_loop rt p' (snd r) })"

definition check_sleeping :: "(nat \<Rightarrow> u64) \<Rightarrow> 'd kernel \<Rightarrow> 'd kernel option" where
  "check_sleeping rt s = check_sleeping_loop rt (lnext (links s) (Head SleepQ)) s"

section \<open>Scheduling\<close>

definition get_child_thread_num :: "int \<Rightarrow> 'd kernel \<Rightarrow> nat" where
  "get_child_thread_num p s = length (filter (\<lambda>i. parent_pid (pcbs s (Pcb i)) = p) [0..<NUM_MAX_TASK])"

definition pick_next :: "'d kernel \<Rightarrow> (pcb_ref \<times> 'd kernel) option" where
  "pick_next s =
     (if \<not> LIST_IS_EMPTY (Head ReadyQ) (links s)
      then do {
        let node = lnext (links s) (Head ReadyQ);
        next_pcb \<leftarrow> NODE_TO_PCB node;
        let s1 = set_status next_pcb TASK_RUNNING s;
        let s2 = upd_links (NODE_REFRESH node) (upd_links (LIST_REMOVE node) s1);
        let cur = current_running s2;
        Some (next_pcb,
          if pstatus s2 cur = TASK_RUNNING
          then set_status cur TASK_READY (upd_links (LIST_ADD_TAIL (Head ReadyQ) (PList cur)) s2)
          else s2) }
      else Some (current_running s, s))"

definition switch_space :: "pcb_ref \<Rightarrow> 'd kernel \<Rightarrow> 'd kernel" where
  "switch_space next_pcb s =
     (let cur = current_running s in
      if asid (pcbs s next_pcb) \<noteq> asid (pcbs s cur)
      then let s1 = s\<lparr>csr_satp := (csr_satp s)(hart s := set_satp SATP_MODE_SV39
                 (asid (pcbs s next_pcb)) (drop_bit NORMAL_PAGE_SHIFT (satp (pcbs s next_pcb))))\<rparr>
           in if pstatus s1 cur = TASK_EXITED
              then s1\<lparr>mm := freeProcessMem (ucast (asid (pcbs s1 cur))) (mm s1)\<rparr> else s1
      else s)"

definition do_scheduler :: "(nat \<Rightarrow> u64) \<Rightarrow> 'd kernel \<Rightarrow> 'd kernel option" where
  "do_scheduler rt s = do {
     s1 \<leftarrow> check_sleeping rt s;
     (next_pcb, s2) \<leftarrow> pick_next s1;
     Some (set_current next_pcb (switch_space next_pcb s2)) }"

definition do_block :: "pcb_ref \<Rightarrow> head \<Rightarrow> 'd kernel \<Rightarrow> 'd kernel" where
  "do_block p q s = upd_links (LIST_ADD_TAIL (Head q) (PList p)) (upd_links (LIST_REMOVE (PList p)) s)"

definition do_unblock :: "node \<Rightarrow> 'd kernel \<Rightarrow> 'd kernel" where
  "do_unblock n s = upd_links (LIST_ADD_HEAD (Head ReadyQ) n) (upd_links (LIST_REMOVE n) s)"

definition do_sleep :: "(nat \<Rightarrow> u64) \<Rightarrow> u32 \<Rightarrow> 'd kernel \<Rightarrow> 'd kernel option" where
  "do_sleep rt sleep_time s =
     (let cur = current_running s;
          s1 = set_status cur TASK_BLOCKED s;
          s2 = upd_links (LIST_ADD_TAIL (Head SleepQ) (PList cur)) (upd_links (LIST_REMOVE (PList cur)) s1);
          (t, s3) = get_ticks rt s2;
          s4 = upd_pcb cur (\<lambda>x. x\<lparr>wakeup_time := t + ucast sleep_time * time_base s3\<rparr>) s3
      in do_scheduler rt s4)"

definition do_getpid :: "'d kernel \<Rightarrow> int" where
  "do_getpid s = pid (pcbs s (current_running s))"

section \<open>The invariant\<close>

text \<open>\<open>kinv_on E\<close> leaves out of account the tasks \<open>E\<close> while they are between two queues.\<close>

definition kinv_on :: "pcb_ref set \<Rightarrow> 'd kernel \<Rightarrow> (head \<Rightarrow> pcb_ref list) \<Rightarrow> bool" where
  "kinv_on E s Q \<longleftrightarrow> queues (links s) Q
     \<and> (\<forall>p \<in> set (Q ReadyQ). pstatus s p = TASK_READY)
     \<and> (\<forall>q p. q \<noteq> ReadyQ \<longrightarrow> p \<in> set (Q q) \<longrightarrow> pstatus s p = TASK_BLOCKED)
     \<and> (\<forall>p. in_no_queue Q p \<longrightarrow> p \<notin> E \<longrightarrow> pstatus s p \<noteq> TASK_EXITED \<longrightarrow>
           pstatus s p = TASK_RUNNING \<and> detached (links s) p)"

abbreviation kinv :: "'d kernel \<Rightarrow> (head \<Rightarrow> pcb_ref list) \<Rightarrow> bool" where
  "kinv \<equiv> kinv_on {}"

lemma kinv_onD:
  assumes "kinv_on E s Q"
  shows "queues (links s) Q"
    and "p \<in> set (Q ReadyQ) \<Longrightarrow> pstatus s p = TASK_READY"
    and "q \<noteq> ReadyQ \<Longrightarrow> p \<in> set (Q q) \<Longrightarrow> pstatus s p = TASK_BLOCKED"
    and "in_no_queue Q p \<Longrightarrow> p \<notin> E \<Longrightarrow> pstatus s p \<noteq> TASK_EXITED \<Longrightarrow> pstatus s p = TASK_RUNNING"
    and "in_no_queue Q p \<Longrightarrow> p \<notin> E \<Longrightarrow> pstatus s p \<noteq> TASK_EXITED \<Longrightarrow> detached (links s) p"
  using assms unfolding kinv_on_def by blast+

lemma kinvD:
  assumes "kinv s Q"
  shows "queues (links s) Q"
    and "p \<in> set (Q ReadyQ) \<Longrightarrow> pstatus s p = TASK_READY"
    and "q \<noteq> ReadyQ \<Longrightarrow> p \<in> set (Q q) \<Longrightarrow> pstatus s p = TASK_BLOCKED"
    and "in_no_queue Q p \<Longrightarrow> pstatus s p \<noteq> TASK_EXITED \<Longrightarrow> pstatus s p = TASK_RUNNING"
    and "in_no_queue Q p \<Longrightarrow> pstatus s p \<noteq> TASK_EXITED \<Longrightarrow> detached (links s) p"
  using kinv_onD [OF assms] by blast+

lemma kinv_running_free:
  assumes "kinv s Q" "pstatus s p = TASK_RUNNING \<or> pstatus s p = TASK_EXITED"
  shows "in_no_queue Q p"
  unfolding in_no_queue_def
proof (intro allI notI)
  fix q assume "p \<in> set (Q q)"
  then show False using kinvD(2,3) [OF assms(1)] assms(2) by (cases "q = ReadyQ") auto
qed

lemma kinv_running_detached:
  assumes "kinv s Q" "pstatus s p = TASK_RUNNING"
  shows "in_no_queue Q p \<and> detached (links s) p"
  using kinv_running_free [of s Q p] kinvD(5) [OF assms(1), of p] assms by auto

text \<open>The fields the scheduler may change.\<close>

definition same_task :: "pcb_t \<Rightarrow> pcb_t \<Rightarrow> bool" where
  "same_task t t' \<longleftrightarrow> t' = t\<lparr>status := status t', wakeup_time := wakeup_time t'\<rparr>"

lemma same_task_refl [simp]: "same_task t t" by (simp add: same_task_def)

lemma same_task_trans: "same_task t u \<Longrightarrow> same_task u v \<Longrightarrow> same_task t v"
  by (cases t; cases u; cases v) (simp add: same_task_def)

lemma same_task_upd [simp]:
  "same_task t (u\<lparr>status := st\<rparr>) \<longleftrightarrow> same_task t u"
  "same_task t (u\<lparr>wakeup_time := w\<rparr>) \<longleftrightarrow> same_task t u"
  by (cases t; cases u; simp add: same_task_def; blast)+

lemma same_taskD:
  assumes "same_task t t'"
  shows "pid t' = pid t" "parent_pid t' = parent_pid t" "asid t' = asid t" "satp t' = satp t"
    "mutex_idx t' = mutex_idx t" "mbox_buf t' = mbox_buf t" "mbox_size t' = mbox_size t"
    "mbox_rw t' = mbox_rw t" "kernel_sp t' = kernel_sp t"
  using assms by (cases t; cases t'; simp add: same_task_def)+

definition sched_frame :: "'d kernel \<Rightarrow> 'd kernel \<Rightarrow> bool" where
  "sched_frame s s' \<longleftrightarrow> hart s' = hart s \<and> frames s' = frames s \<and> umem s' = umem s
     \<and> time_base s' = time_base s \<and> mlocks s' = mlocks s \<and> barriers s' = barriers s
     \<and> conditions s' = conditions s \<and> mboxes s' = mboxes s
     \<and> (\<forall>h. h \<noteq> hart s \<longrightarrow> tp s' h = tp s h)
     \<and> (\<forall>p. same_task (pcbs s p) (pcbs s' p))"

lemma sched_frame_refl [simp]: "sched_frame s s"
  by (simp add: sched_frame_def)

lemma sched_frame_trans: "sched_frame s t \<Longrightarrow> sched_frame t u \<Longrightarrow> sched_frame s u"
  unfolding sched_frame_def using same_task_trans by (metis (no_types, lifting))


section \<open>Waking the sleepers\<close>

text \<open>Which of the sleepers \<open>xs\<close> wake up, the first one being tested at the \<open>n\<close>-th tick.\<close>

fun woken :: "(nat \<Rightarrow> u64) \<Rightarrow> (pcb_ref \<Rightarrow> u64) \<Rightarrow> nat \<Rightarrow> pcb_ref list \<Rightarrow> pcb_ref list" where
  "woken rt w n [] = []"
| "woken rt w n (x # xs) = (if w x \<le> rt n then x # woken rt w (Suc n) xs else woken rt w (Suc n) xs)"

fun asleep :: "(nat \<Rightarrow> u64) \<Rightarrow> (pcb_ref \<Rightarrow> u64) \<Rightarrow> nat \<Rightarrow> pcb_ref list \<Rightarrow> pcb_ref list" where
  "asleep rt w n [] = []"
| "asleep rt w n (x # xs) = (if w x \<le> rt n then asleep rt w (Suc n) xs else x # asleep rt w (Suc n) xs)"

lemma set_woken_asleep: "set (woken rt w n xs) \<union> set (asleep rt w n xs) = set xs"
  by (induction xs arbitrary: n) auto

lemma woken_cong: "(\<And>x. x \<in> set xs \<Longrightarrow> w x = w' x) \<Longrightarrow> woken rt w n xs = woken rt w' n xs"
  by (induction xs arbitrary: n) auto

lemma asleep_cong: "(\<And>x. x \<in> set xs \<Longrightarrow> w x = w' x) \<Longrightarrow> asleep rt w n xs = asleep rt w' n xs"
  by (induction xs arbitrary: n) auto

lemma asleep_not_due: "(\<And>k. rt k < w p) \<Longrightarrow> p \<in> set xs \<Longrightarrow> p \<in> set (asleep rt w n xs)"
proof (induction xs arbitrary: n)
  case (Cons x xs)
  then have "\<not> w p \<le> rt n" by (simp add: not_le)
  with Cons show ?case by auto
qed simp

lemma woken_due: "(\<And>k. w p \<le> rt k) \<Longrightarrow> p \<in> set xs \<Longrightarrow> p \<in> set (woken rt w n xs)"
  by (induction xs arbitrary: n) auto

definition sleepers_of :: "(nat \<Rightarrow> u64) \<Rightarrow> 'd kernel \<Rightarrow> pcb_ref list \<Rightarrow> pcb_ref list \<times> pcb_ref list" where
  "sleepers_of rt s xs = (let w = (\<lambda>p. wakeup_time (pcbs s p)) in
     (woken rt w (ticks_read s) xs, asleep rt w (ticks_read s) xs))"

lemma get_ticks_simps [simp]:
  "fst (get_ticks rt s) = rt (ticks_read s)" "links (snd (get_ticks rt s)) = links s"
  "pcbs (snd (get_ticks rt s)) = pcbs s" "ticks_read (snd (get_ticks rt s)) = Suc (ticks_read s)"
  "tp (snd (get_ticks rt s)) = tp s" "hart (snd (get_ticks rt s)) = hart s"
  "mm (snd (get_ticks rt s)) = mm s" "current_running (snd (get_ticks rt s)) = current_running s"
  "csr_satp (snd (get_ticks rt s)) = csr_satp s" "time_base (snd (get_ticks rt s)) = time_base s"
  by (simp_all add: get_ticks_def current_running_def)

lemma get_ticks_frame [simp]: "sched_frame s (snd (get_ticks rt s))"
  by (simp add: sched_frame_def get_ticks_def)

lemma pcbs_wake_sleeper [simp]:
  "pcbs (wake_sleeper p s) = (pcbs s)(p := (pcbs s p)\<lparr>wakeup_time := 0, status := TASK_READY\<rparr>)"
  by (simp add: wake_sleeper_def Let_def)

lemma wake_sleeper_simps [simp]:
  "links (wake_sleeper p s) = LIST_ADD_TAIL (Head ReadyQ) (PList p) (LIST_REMOVE (PList p) (links s))"
  "ticks_read (wake_sleeper p s) = ticks_read s" "tp (wake_sleeper p s) = tp s"
  "hart (wake_sleeper p s) = hart s" "mm (wake_sleeper p s) = mm s"
  "csr_satp (wake_sleeper p s) = csr_satp s" "time_base (wake_sleeper p s) = time_base s"
  by (simp_all add: wake_sleeper_def Let_def)

lemma wake_sleeper_frame [simp]: "sched_frame s (wake_sleeper p s)"
  unfolding sched_frame_def by (simp add: wake_sleeper_def Let_def)

text \<open>The node of the first task of a list that ends at the queue head.\<close>

definition front_node :: "head \<Rightarrow> pcb_ref list \<Rightarrow> node" where
  "front_node q xs = (case xs of [] \<Rightarrow> Head q | x # _ \<Rightarrow> PList x)"

lemma queues_front: "queues h Q \<Longrightarrow> lnext h (Head q) = front_node q (Q q)"
  using queue_lnext [OF queuesD(1) [of h Q q]] by (cases "Q q") (auto simp: front_node_def)

lemma queues_next:
  "queues h Q \<Longrightarrow> Q q = ys @ x # xs \<Longrightarrow> lnext h (PList x) = front_node q xs"
  using queue_inner(2) [of h "Head q" "map PList ys" "PList x" "map PList xs"] queuesD(1) [of h Q q]
  by (cases xs) (auto simp: front_node_def)

definition sleep_step :: "(head \<Rightarrow> pcb_ref list) \<Rightarrow> pcb_ref list \<Rightarrow> pcb_ref list \<Rightarrow> head \<Rightarrow> pcb_ref list" where
  "sleep_step Q ws as = Q(SleepQ := as, ReadyQ := Q ReadyQ @ ws)"

lemma check_sleeping_loop_result:
  assumes "queues (links s) Q" "Q SleepQ = ys @ xs"
  shows "\<exists>s'. check_sleeping_loop rt (front_node SleepQ xs) s = Some s'
    \<and> queues (links s') (sleep_step Q (fst (sleepers_of rt s xs)) (ys @ snd (sleepers_of rt s xs)))
    \<and> (\<forall>p. pcbs s' p = (if p \<in> set (fst (sleepers_of rt s xs))
          then (pcbs s p)\<lparr>wakeup_time := 0, status := TASK_READY\<rparr> else pcbs s p))
    \<and> (\<forall>p. in_no_queue Q p \<longrightarrow> detached (links s) p \<longrightarrow> detached (links s') p)
    \<and> ticks_read s' = ticks_read s + length xs \<and> mm s' = mm s \<and> tp s' = tp s
    \<and> csr_satp s' = csr_satp s \<and> sched_frame s s'"
  using assms
proof (induction xs arbitrary: s Q ys)
  case Nil
  then have "sleep_step Q [] ys = Q" by (auto simp: sleep_step_def fun_eq_iff)
  with Nil show ?case
    by (subst check_sleeping_loop.simps) (simp add: front_node_def sleepers_of_def Let_def)
next
  case (Cons x xs)
  let ?s1 = "snd (get_ticks rt s)" and ?w = "\<lambda>p. wakeup_time (pcbs s p)" and ?n = "ticks_read s"
  have nx: "lnext (links s) (PList x) = front_node SleepQ xs" by (rule queues_next [OF Cons.prems])
  have unfold: "check_sleeping_loop rt (front_node SleepQ (x # xs)) s =
      (if ?w x \<le> rt ?n then check_sleeping_loop rt (front_node SleepQ xs) (wake_sleeper x ?s1)
       else check_sleeping_loop rt (front_node SleepQ xs) ?s1)"
    by (subst check_sleeping_loop.simps) (simp add: front_node_def [of _ "x # xs"] nx Let_def)
  have dist: "x \<notin> set xs" "x \<notin> set ys"
    using kq.repr_distinct [OF Cons.prems(1), of SleepQ] Cons.prems(2) by auto
  show ?case
  proof (cases "?w x \<le> rt ?n")
    case True
    let ?t = "wake_sleeper x ?s1"
    let ?Q = "Q(SleepQ := ys @ xs, ReadyQ := Q ReadyQ @ [x])"
    have px: "x \<in> set (Q SleepQ)" using Cons.prems(2) by simp
    have "remove1 x (Q SleepQ) = ys @ xs" using Cons.prems(2) dist by (simp add: remove1_append)
    with kq.move_tail [OF Cons.prems(1) px, of ReadyQ] have q': "queues (links ?t) ?Q" by simp
    have sl: "sleepers_of rt ?t xs = (woken rt ?w (Suc ?n) xs, asleep rt ?w (Suc ?n) xs)"
    proof -
      have w: "wakeup_time (pcbs ?t p) = ?w p" if "p \<in> set xs" for p using that dist by auto
      have "ticks_read ?t = Suc ?n" by simp
      then show ?thesis using woken_cong [OF w, of xs "\<lambda>p. p"] asleep_cong [OF w, of xs "\<lambda>p. p"]
        unfolding sleepers_of_def Let_def by metis
    qed
    have qs: "?Q SleepQ = ys @ xs" by simp
    from Cons.IH [OF q' qs, unfolded sl fst_conv snd_conv] obtain s' where
      s': "check_sleeping_loop rt (front_node SleepQ xs) ?t = Some s'"
      "queues (links s') (sleep_step ?Q (woken rt ?w (Suc ?n) xs) (ys @ asleep rt ?w (Suc ?n) xs))"
      "\<And>p. pcbs s' p = (if p \<in> set (woken rt ?w (Suc ?n) xs)
          then (pcbs ?t p)\<lparr>wakeup_time := 0, status := TASK_READY\<rparr> else pcbs ?t p)"
      "\<And>p. in_no_queue ?Q p \<Longrightarrow> detached (links ?t) p \<Longrightarrow> detached (links s') p"
      "ticks_read s' = ticks_read ?t + length xs" "mm s' = mm ?t" "tp s' = tp ?t"
      "csr_satp s' = csr_satp ?t" "sched_frame ?t s'"
      by blast
    have sw: "sleepers_of rt s (x # xs) = (x # woken rt ?w (Suc ?n) xs, asleep rt ?w (Suc ?n) xs)"
      using True by (simp add: sleepers_of_def Let_def)
    have "sleep_step ?Q (woken rt ?w (Suc ?n) xs) (ys @ asleep rt ?w (Suc ?n) xs) =
        sleep_step Q (x # woken rt ?w (Suc ?n) xs) (ys @ asleep rt ?w (Suc ?n) xs)"
      by (auto simp: sleep_step_def)
    moreover have "detached (links s') p" if "in_no_queue Q p" "detached (links s) p" for p
    proof (rule s'(4))
      have px': "p \<noteq> x" using that(1) px by (auto simp: in_no_queue_def)
      have pq: "p \<notin> set (Q q)" for q using that(1) by (simp add: in_no_queue_def)
      have "p \<notin> set (ys @ xs)" using pq [of SleepQ] Cons.prems(2) by simp
      then show "in_no_queue ?Q p" using px' pq by (simp add: in_no_queue_def)
      have "\<forall>r. p \<notin> set (Q r)" using that(1) by (simp add: in_no_queue_def)
      from kq.move_free(1) [OF Cons.prems(1) px this that(2)] show "detached (links ?t) p" by simp
    qed
    moreover have "pcbs s' p = (if p \<in> set (x # woken rt ?w (Suc ?n) xs)
        then (pcbs s p)\<lparr>wakeup_time := 0, status := TASK_READY\<rparr> else pcbs s p)" for p
      using s'(3) [of p] by auto
    moreover have "sched_frame s s'"
      by (rule sched_frame_trans [OF get_ticks_frame sched_frame_trans [OF wake_sleeper_frame s'(9)]])
    ultimately show ?thesis using True s' unfolding unfold sw by auto
  next
    case False
    have sl: "sleepers_of rt ?s1 xs = (woken rt ?w (Suc ?n) xs, asleep rt ?w (Suc ?n) xs)"
      by (simp add: sleepers_of_def Let_def)
    have sw: "sleepers_of rt s (x # xs) = (woken rt ?w (Suc ?n) xs, x # asleep rt ?w (Suc ?n) xs)"
      using False by (simp add: sleepers_of_def Let_def)
    have q': "queues (links ?s1) Q" "Q SleepQ = (ys @ [x]) @ xs" using Cons.prems by simp_all
    from Cons.IH [OF q'] obtain s' where
      s': "check_sleeping_loop rt (front_node SleepQ xs) ?s1 = Some s'"
      "queues (links s') (sleep_step Q (woken rt ?w (Suc ?n) xs) (ys @ x # asleep rt ?w (Suc ?n) xs))"
      "\<And>p. pcbs s' p = (if p \<in> set (woken rt ?w (Suc ?n) xs)
          then (pcbs s p)\<lparr>wakeup_time := 0, status := TASK_READY\<rparr> else pcbs s p)"
      "\<And>p. in_no_queue Q p \<Longrightarrow> detached (links s) p \<Longrightarrow> detached (links s') p"
      "ticks_read s' = Suc ?n + length xs" "mm s' = mm s" "tp s' = tp s"
      "csr_satp s' = csr_satp s" "sched_frame ?s1 s'"
      by (auto simp: sl)
    have "sched_frame s s'" by (rule sched_frame_trans [OF get_ticks_frame s'(9)])
    then show ?thesis using False s' unfolding unfold sw by auto
  qed
qed


lemma check_sleeping_result:
  assumes "queues (links s) Q"
  shows "\<exists>s'. check_sleeping rt s = Some s'
    \<and> queues (links s') (sleep_step Q (fst (sleepers_of rt s (Q SleepQ))) (snd (sleepers_of rt s (Q SleepQ))))
    \<and> (\<forall>p. pcbs s' p = (if p \<in> set (fst (sleepers_of rt s (Q SleepQ)))
          then (pcbs s p)\<lparr>wakeup_time := 0, status := TASK_READY\<rparr> else pcbs s p))
    \<and> (\<forall>p. in_no_queue Q p \<longrightarrow> detached (links s) p \<longrightarrow> detached (links s') p)
    \<and> ticks_read s' = ticks_read s + length (Q SleepQ) \<and> mm s' = mm s \<and> tp s' = tp s
    \<and> csr_satp s' = csr_satp s \<and> sched_frame s s'"
  using check_sleeping_loop_result [OF assms, of "[]" "Q SleepQ" rt]
  by (simp add: check_sleeping_def queues_front [OF assms])

lemma sleepers_sub:
  "set (fst (sleepers_of rt s xs)) \<subseteq> set xs" "set (snd (sleepers_of rt s xs)) \<subseteq> set xs"
  using set_woken_asleep by (fastforce simp: sleepers_of_def Let_def)+

lemma sleepers_union:
  "set (fst (sleepers_of rt s xs)) \<union> set (snd (sleepers_of rt s xs)) = set xs"
  by (simp add: sleepers_of_def Let_def set_woken_asleep)

lemma sleepers_disjoint:
  "distinct xs \<Longrightarrow> set (fst (sleepers_of rt s xs)) \<inter> set (snd (sleepers_of rt s xs)) = {}"
proof -
  have "distinct xs \<Longrightarrow> set (woken rt w n xs) \<inter> set (asleep rt w n xs) = {}" for w n
  proof (induction xs arbitrary: n)
    case (Cons x xs)
    then show ?case using set_woken_asleep [of rt w "Suc n" xs] by auto
  qed simp
  then show "distinct xs \<Longrightarrow> ?thesis" by (simp add: sleepers_of_def Let_def)
qed

lemma sleep_step_simps [simp]:
  "sleep_step Q ws as ReadyQ = Q ReadyQ @ ws" "sleep_step Q ws as SleepQ = as"
  "q \<noteq> ReadyQ \<Longrightarrow> q \<noteq> SleepQ \<Longrightarrow> sleep_step Q ws as q = Q q"
  by (simp_all add: sleep_step_def)

lemma in_no_queue_sleep_step:
  "in_no_queue (sleep_step Q (fst (sleepers_of rt s (Q SleepQ))) (snd (sleepers_of rt s (Q SleepQ)))) p
     \<longleftrightarrow> in_no_queue Q p"
  using sleepers_union [of rt s "Q SleepQ"]
  unfolding in_no_queue_def sleep_step_def by (auto split: if_splits)

lemma check_sleeping_kinv:
  fixes rt :: "nat \<Rightarrow> u64" and s :: "'d kernel"
  assumes k: "kinv s Q"
  defines "Q1 \<equiv> sleep_step Q (fst (sleepers_of rt s (Q SleepQ))) (snd (sleepers_of rt s (Q SleepQ)))"
  shows "\<exists>s'. check_sleeping rt s = Some s' \<and> kinv s' Q1 \<and> sched_frame s s' \<and> mm s' = mm s
    \<and> tp s' = tp s \<and> csr_satp s' = csr_satp s
    \<and> (\<forall>p. p \<notin> set (Q SleepQ) \<longrightarrow> pcbs s' p = pcbs s p)
    \<and> (\<forall>p. in_no_queue Q p \<longrightarrow> detached (links s) p \<longrightarrow> detached (links s') p)
    \<and> (\<forall>p. pcbs s' p = (if p \<in> set (fst (sleepers_of rt s (Q SleepQ)))
          then (pcbs s p)\<lparr>wakeup_time := 0, status := TASK_READY\<rparr> else pcbs s p))"
proof -
  note K = kinvD [OF k]
  let ?W = "fst (sleepers_of rt s (Q SleepQ))" and ?A = "snd (sleepers_of rt s (Q SleepQ))"
  note sub = sleepers_sub [of rt s "Q SleepQ"]
  have dis: "set ?W \<inter> set ?A = {}"
    by (rule sleepers_disjoint) (rule kq.repr_distinct [OF K(1)])
  obtain s' where s': "check_sleeping rt s = Some s'" "queues (links s') Q1"
    "\<And>p. pcbs s' p = (if p \<in> set ?W then (pcbs s p)\<lparr>wakeup_time := 0, status := TASK_READY\<rparr> else pcbs s p)"
    "\<And>p. in_no_queue Q p \<Longrightarrow> detached (links s) p \<Longrightarrow> detached (links s') p"
    "mm s' = mm s" "tp s' = tp s" "csr_satp s' = csr_satp s" "sched_frame s s'"
    using check_sleeping_result [OF K(1), of rt] unfolding Q1_def by auto
  have notW: "p \<notin> set ?W" if "p \<in> set (Q q)" "q \<noteq> SleepQ" for p q
    using that sub(1) queuesD(2) [OF K(1)] by blast
  have "kinv s' Q1"
    unfolding kinv_on_def
  proof (intro conjI ballI allI impI)
    show "queues (links s') Q1" by (rule s'(2))
    fix p assume "p \<in> set (Q1 ReadyQ)"
    then show "pstatus s' p = TASK_READY" using K(2) by (auto simp: Q1_def s'(3))
  next
    fix q p assume q: "q \<noteq> ReadyQ" "p \<in> set (Q1 q)"
    show "pstatus s' p = TASK_BLOCKED"
    proof (cases "q = SleepQ")
      case True
      then have "p \<in> set ?A" using q(2) by (simp add: Q1_def)
      then have "p \<notin> set ?W" "p \<in> set (Q SleepQ)" using dis sub by auto
      then show ?thesis using K(3) [of SleepQ p] by (simp add: s'(3))
    next
      case False
      then have "p \<in> set (Q q)" using q by (simp add: Q1_def)
      then show ?thesis using K(3) [OF q(1)] notW False by (simp add: s'(3))
    qed
  next
    fix p assume p: "in_no_queue Q1 p" "pstatus s' p \<noteq> TASK_EXITED"
    then have n: "in_no_queue Q p" using in_no_queue_sleep_step unfolding Q1_def by blast
    then have "p \<notin> set ?W" using sub(1) by (auto simp: in_no_queue_def)
    then show "pstatus s' p = TASK_RUNNING" "detached (links s') p"
      using p n K(4,5) s'(4) by (auto simp: s'(3))
  qed
  moreover have "pcbs s' p = pcbs s p" if "p \<notin> set (Q SleepQ)" for p
    using s'(3) [of p] that sub(1) by auto
  ultimately show ?thesis using s' by auto
qed

section \<open>Picking the next task\<close>

definition requeue :: "'d kernel \<Rightarrow> pcb_ref list" where
  "requeue s = (if pstatus s (current_running s) = TASK_RUNNING then [current_running s] else [])"

lemma pick_next_kinv:
  assumes k: "kinv s Q" and Qr: "Q ReadyQ = n # ps" and n: "n \<noteq> current_running s"
  shows "\<exists>s'. pick_next s = Some (n, s') \<and> kinv s' (Q(ReadyQ := ps @ requeue s))
    \<and> pstatus s' n = TASK_RUNNING \<and> sched_frame s s' \<and> mm s' = mm s \<and> tp s' = tp s
    \<and> csr_satp s' = csr_satp s
    \<and> pstatus s' (current_running s) =
        (if pstatus s (current_running s) = TASK_RUNNING then TASK_READY else pstatus s (current_running s))
    \<and> (\<forall>p. in_no_queue Q p \<longrightarrow> detached (links s) p \<longrightarrow> p \<noteq> current_running s \<longrightarrow> detached (links s') p)
    \<and> (\<forall>p. p \<noteq> n \<longrightarrow> p \<noteq> current_running s \<longrightarrow> pcbs s' p = pcbs s p)"
proof -
  note K = kinvD [OF k]
  let ?c = "current_running s" and ?Q1 = "Q(ReadyQ := ps)"
  define h1 where "h1 = NODE_REFRESH (PList n) (LIST_REMOVE (PList n) (links s))"
  have pn: "n \<in> set (Q ReadyQ)" using Qr by simp
  note pop = kq.pop_first [OF K(1) Qr, folded h1_def]
  have ne: "\<not> LIST_IS_EMPTY (Head ReadyQ) (links s)" using kq.empty_iff [OF K(1)] Qr by simp
  have nd: "lnext (links s) (Head ReadyQ) = PList n"
    using queues_front [OF K(1), of ReadyQ] Qr by (simp add: front_node_def)
  define s1 where "s1 = upd_links (NODE_REFRESH (PList n)) (upd_links (LIST_REMOVE (PList n))
    (set_status n TASK_RUNNING s))"
  have s1: "links s1 = h1" "pcbs s1 = (pcbs s)(n := (pcbs s n)\<lparr>status := TASK_RUNNING\<rparr>)"
    "current_running s1 = ?c" by (simp_all add: s1_def h1_def)
  define s2 where "s2 = (if pstatus s ?c = TASK_RUNNING
    then set_status ?c TASK_READY (upd_links (LIST_ADD_TAIL (Head ReadyQ) (PList ?c)) s1) else s1)"
  have run: "pick_next s = Some (n, s2)"
    using ne nd n by (simp add: pick_next_def Let_def s1_def [symmetric] s1 s2_def)
  have nps: "n \<notin> set ps" using kq.repr_distinct [OF K(1), of ReadyQ] Qr by simp
  have free1: "\<And>x. in_no_queue Q x \<Longrightarrow> detached (links s) x \<Longrightarrow> detached h1 x"
    using kq.pop_first_free [OF K(1) Qr] by (simp add: in_no_queue_def h1_def)
  have nofree: "in_no_queue ?Q1 n"
    unfolding in_no_queue_def using nps queuesD(2) [OF K(1) pn] by (metis fun_upd_apply)
  have noq1: "in_no_queue ?Q1 p \<longleftrightarrow> p = n \<or> in_no_queue Q p" for p
  proof (cases "p = n")
    case False
    then have "p \<notin> set (?Q1 q) \<longleftrightarrow> p \<notin> set (Q q)" for q using Qr by simp
    then show ?thesis using False unfolding in_no_queue_def by simp
  qed (use nofree in simp)
  have cfree: "in_no_queue Q ?c \<and> detached (links s) ?c" if "pstatus s ?c = TASK_RUNNING"
    by (rule kinv_running_detached [OF k that])
  have q2: "queues (links s2) (Q(ReadyQ := ps @ requeue s))"
  proof (cases "pstatus s ?c = TASK_RUNNING")
    case True
    have "\<forall>r. ?c \<notin> set (?Q1 r)" using cfree [OF True] noq1 [of ?c] by (simp add: in_no_queue_def)
    from kq.repr_add_tail [OF pop(1) this, of ReadyQ] show ?thesis
      using True by (simp add: s2_def s1 requeue_def fun_upd_def cong: if_cong)
  next
    case False
    then show ?thesis using pop(1) by (simp add: s2_def s1 requeue_def)
  qed
  have det2: "detached (links s2) p" if "p = n \<or> in_no_queue Q p \<and> detached (links s) p" "p \<noteq> ?c" for p
  proof -
    have d: "detached h1 p" "\<forall>r. p \<notin> set (?Q1 r)"
      using that free1 pop(2) noq1 [of p] by (auto simp: in_no_queue_def)
    show ?thesis
    proof (cases "pstatus s ?c = TASK_RUNNING")
      case True
      from kq.free_add_tail [OF pop(1) d(2) d(1) that(2)] show ?thesis by (simp add: s2_def s1 True)
    next
      case False
      then show ?thesis using d by (simp add: s2_def s1)
    qed
  qed
  have st2: "pcbs s2 p = (if p = n then (pcbs s p)\<lparr>status := TASK_RUNNING\<rparr>
      else if p = ?c \<and> pstatus s ?c = TASK_RUNNING then (pcbs s p)\<lparr>status := TASK_READY\<rparr> else pcbs s p)" for p
    using n by (simp add: s2_def s1)
  have "kinv s2 (Q(ReadyQ := ps @ requeue s))"
    unfolding kinv_on_def
  proof (intro conjI ballI allI impI)
    show "queues (links s2) (Q(ReadyQ := ps @ requeue s))" by (rule q2)
    fix p assume "p \<in> set ((Q(ReadyQ := ps @ requeue s)) ReadyQ)"
    then consider "p \<in> set ps" | "p = ?c" "pstatus s ?c = TASK_RUNNING"
      by (auto simp: requeue_def split: if_splits)
    then show "pstatus s2 p = TASK_READY"
      by cases (use nps n Qr K(2) [of p] in \<open>auto simp: st2\<close>)
  next
    fix q p assume q: "q \<noteq> ReadyQ" "p \<in> set ((Q(ReadyQ := ps @ requeue s)) q)"
    then have "p \<in> set (Q q)" by simp
    moreover from this have "p \<noteq> n" using queuesD(2) [OF K(1) pn] q(1) by blast
    ultimately show "pstatus s2 p = TASK_BLOCKED" using K(3) [OF q(1)] by (auto simp: st2)
  next
    fix p assume p: "in_no_queue (Q(ReadyQ := ps @ requeue s)) p" "pstatus s2 p \<noteq> TASK_EXITED"
    then have "in_no_queue ?Q1 p" by (auto simp: in_no_queue_def split: if_splits)
    then have o: "p = n \<or> in_no_queue Q p" using noq1 by blast
    have notc: "p \<noteq> ?c \<or> pstatus s ?c \<noteq> TASK_RUNNING" using p(1)
      by (auto simp: in_no_queue_def requeue_def dest: spec [of _ ReadyQ])
    show "pstatus s2 p = TASK_RUNNING" using o notc p(2) K(4) by (auto simp: st2 split: if_splits)
    then have pc: "p \<noteq> ?c" using notc n by (auto simp: st2 split: if_splits)
    have "p = n \<or> in_no_queue Q p \<and> detached (links s) p"
      using o p(2) K(5) pc by (auto simp: st2 split: if_splits)
    then show "detached (links s2) p" using det2 pc by blast
  qed
  moreover have "sched_frame s s2" by (simp add: sched_frame_def s2_def s1_def)
  moreover have "mm s2 = mm s" "tp s2 = tp s" "csr_satp s2 = csr_satp s" by (simp_all add: s2_def s1_def)
  ultimately show ?thesis using run st2 n det2 by auto
qed

lemma switch_space_simps [simp]:
  "links (switch_space p s) = links s" "pcbs (switch_space p s) = pcbs s" "tp (switch_space p s) = tp s"
  "hart (switch_space p s) = hart s" "ticks_read (switch_space p s) = ticks_read s"
  by (simp_all add: switch_space_def Let_def)

lemma switch_space_frame [simp]: "sched_frame s (switch_space p s)"
  by (simp add: sched_frame_def switch_space_def Let_def)

lemma switch_space_same [simp]: "switch_space (current_running s) s = s"
  by (simp add: switch_space_def Let_def)

section \<open>The scheduler on the queues\<close>

definition sched_slept :: "(nat \<Rightarrow> u64) \<Rightarrow> 'd kernel \<Rightarrow> (head \<Rightarrow> pcb_ref list) \<Rightarrow> head \<Rightarrow> pcb_ref list" where
  "sched_slept rt s Q =
     sleep_step Q (fst (sleepers_of rt s (Q SleepQ))) (snd (sleepers_of rt s (Q SleepQ)))"

definition sched_next :: "(nat \<Rightarrow> u64) \<Rightarrow> 'd kernel \<Rightarrow> (head \<Rightarrow> pcb_ref list) \<Rightarrow> pcb_ref" where
  "sched_next rt s Q = (case sched_slept rt s Q ReadyQ of [] \<Rightarrow> current_running s | n # _ \<Rightarrow> n)"

definition sched_queues :: "(nat \<Rightarrow> u64) \<Rightarrow> 'd kernel \<Rightarrow> (head \<Rightarrow> pcb_ref list) \<Rightarrow> head \<Rightarrow> pcb_ref list" where
  "sched_queues rt s Q = (case sched_slept rt s Q ReadyQ of [] \<Rightarrow> sched_slept rt s Q
     | n # ps \<Rightarrow> (sched_slept rt s Q)(ReadyQ := ps @ requeue s))"

text \<open>When the scheduler may be called: the running task gives way, or there is a ready one.\<close>

definition can_schedule :: "'d kernel \<Rightarrow> (head \<Rightarrow> pcb_ref list) \<Rightarrow> bool" where
  "can_schedule s Q \<longleftrightarrow> pstatus s (current_running s) = TASK_RUNNING
     \<or> Q ReadyQ \<noteq> [] \<and> current_running s \<notin> set (Q ReadyQ)"

lemma do_scheduler_result:
  assumes k: "kinv s Q" and can: "can_schedule s Q"
  shows "\<exists>s'. do_scheduler rt s = Some s' \<and> kinv s' (sched_queues rt s Q)
    \<and> current_running s' = sched_next rt s Q \<and> pstatus s' (sched_next rt s Q) = TASK_RUNNING
    \<and> sched_frame s s'
    \<and> (\<forall>p. p \<noteq> sched_next rt s Q \<longrightarrow> p \<noteq> current_running s \<longrightarrow> p \<notin> set (Q SleepQ) \<longrightarrow> pcbs s' p = pcbs s p)
    \<and> (pstatus s (current_running s) \<noteq> TASK_RUNNING \<longrightarrow> current_running s \<notin> set (Q SleepQ) \<longrightarrow>
        pstatus s' (current_running s) = pstatus s (current_running s))"
proof -
  note K = kinvD [OF k]
  let ?c = "current_running s" and ?Q1 = "sched_slept rt s Q"
  obtain s1 where s1: "check_sleeping rt s = Some s1" "kinv s1 ?Q1" "sched_frame s s1" "mm s1 = mm s"
      "tp s1 = tp s" "csr_satp s1 = csr_satp s"
      "\<And>p. p \<notin> set (Q SleepQ) \<Longrightarrow> pcbs s1 p = pcbs s p"
    using check_sleeping_kinv [OF k, of rt] unfolding sched_slept_def by blast
  have hart1: "hart s1 = hart s" using s1(3) by (simp add: sched_frame_def)
  have c1: "current_running s1 = ?c" using s1(5) hart1 by (simp add: current_running_def)
  have run1: "pstatus s1 ?c = TASK_RUNNING \<longleftrightarrow> pstatus s ?c = TASK_RUNNING"
  proof (cases "?c \<in> set (Q SleepQ)")
    case True
    then have "pstatus s ?c = TASK_BLOCKED" by (intro K(3) [of SleepQ]) simp_all
    moreover have "\<not> in_no_queue ?Q1 ?c"
      using True in_no_queue_sleep_step unfolding sched_slept_def in_no_queue_def by blast
    ultimately show ?thesis using kinv_running_free [OF s1(2)] by auto
  next
    case False
    then show ?thesis using s1(7) by simp
  qed
  have rq: "requeue s1 = requeue s" using c1 run1 by (simp add: requeue_def)
  show ?thesis
  proof (cases "?Q1 ReadyQ")
    case Nil
    then have "Q ReadyQ = []" by (simp add: sched_slept_def)
    then have r: "pstatus s ?c = TASK_RUNNING" using can by (simp add: can_schedule_def)
    have "pick_next s1 = Some (?c, s1)"
      using kq.empty_iff [OF kinvD(1) [OF s1(2)], of ReadyQ] Nil c1 by (simp add: pick_next_def)
    then have "do_scheduler rt s = Some (set_current ?c s1)"
      using s1(1) c1 switch_space_same [of s1] by (simp add: do_scheduler_def)
    moreover have "set_current ?c s1 = s1" using c1
      by (simp add: set_current_def current_running_def fun_upd_idem)
    ultimately show ?thesis
      using Nil s1 r run1 c1 by (auto simp: sched_queues_def sched_next_def)
  next
    case (Cons n ps)
    have nc: "n \<noteq> ?c"
    proof
      assume "n = ?c"
      then have c: "?c \<in> set (?Q1 ReadyQ)" using Cons by simp
      then have "pstatus s1 ?c = TASK_READY" using kinvD(2) [OF s1(2)] by blast
      then have "Q ReadyQ \<noteq> []" "?c \<notin> set (Q ReadyQ)" using can run1 by (auto simp: can_schedule_def)
      then have "n \<in> set (Q ReadyQ)" using Cons by (cases "Q ReadyQ") (auto simp: sched_slept_def)
      with \<open>n = ?c\<close> \<open>?c \<notin> set (Q ReadyQ)\<close> show False by simp
    qed
    then have nc1: "n \<noteq> current_running s1" using c1 by simp
    obtain s2 where s2: "pick_next s1 = Some (n, s2)" "kinv s2 (?Q1(ReadyQ := ps @ requeue s))"
        "pstatus s2 n = TASK_RUNNING" "sched_frame s1 s2" "tp s2 = tp s1"
        "\<And>p. p \<noteq> n \<Longrightarrow> p \<noteq> ?c \<Longrightarrow> pcbs s2 p = pcbs s1 p"
        "pstatus s2 ?c = (if pstatus s1 ?c = TASK_RUNNING then TASK_READY else pstatus s1 ?c)"
      using pick_next_kinv [OF s1(2) Cons nc1] unfolding rq c1 by blast
    let ?s' = "set_current n (switch_space n s2)"
    have "do_scheduler rt s = Some ?s'" using s1(1) s2(1) by (simp add: do_scheduler_def)
    moreover have "kinv ?s' (?Q1(ReadyQ := ps @ requeue s))"
      using s2(2) unfolding kinv_on_def by simp
    moreover have f2: "sched_frame s (switch_space n s2)"
      by (rule sched_frame_trans [OF s1(3) sched_frame_trans [OF s2(4) switch_space_frame]])
    then have "sched_frame s ?s'" by (auto simp: sched_frame_def set_current_def)
    moreover have "pstatus s2 ?c = pstatus s ?c" if "pstatus s ?c \<noteq> TASK_RUNNING" "?c \<notin> set (Q SleepQ)"
      using that s2(7) s1(7) by simp
    ultimately show ?thesis using Cons s2(2,3,6) s1(7) by (auto simp: sched_queues_def sched_next_def)
  qed
qed

text \<open>The control blocks, the address space and the frames after the scheduler, exactly.\<close>

definition sched_task :: "(nat \<Rightarrow> u64) \<Rightarrow> 'd kernel \<Rightarrow> (head \<Rightarrow> pcb_ref list) \<Rightarrow> pcb_ref \<Rightarrow> pcb_t" where
  "sched_task rt s Q p =
     (let t = (if p \<in> set (fst (sleepers_of rt s (Q SleepQ))) then (pcbs s p)\<lparr>wakeup_time := 0, status := TASK_READY\<rparr>
               else pcbs s p)
      in if sched_slept rt s Q ReadyQ = [] then t
         else if p = sched_next rt s Q then t\<lparr>status := TASK_RUNNING\<rparr>
         else if p = current_running s \<and> status t = TASK_RUNNING then t\<lparr>status := TASK_READY\<rparr> else t)"

definition sched_satp :: "pcb_ref \<Rightarrow> 'd kernel \<Rightarrow> nat \<Rightarrow> u64" where
  "sched_satp n s = (if asid (pcbs s n) \<noteq> asid (pcbs s (current_running s))
     then (csr_satp s)(hart s := set_satp SATP_MODE_SV39 (asid (pcbs s n)) (drop_bit NORMAL_PAGE_SHIFT (satp (pcbs s n))))
     else csr_satp s)"

definition sched_mm :: "pcb_ref \<Rightarrow> 'd kernel \<Rightarrow> 'd mm_state" where
  "sched_mm n s = (if asid (pcbs s n) \<noteq> asid (pcbs s (current_running s)) \<and> pstatus s (current_running s) = TASK_EXITED
     then freeProcessMem (ucast (asid (pcbs s (current_running s)))) (mm s) else mm s)"

lemma pick_next_pcbs:
  assumes "pick_next s = Some (n, s')" "n \<noteq> current_running s"
  shows "pcbs s' p = (if p = n then (pcbs s p)\<lparr>status := TASK_RUNNING\<rparr>
    else if p = current_running s \<and> pstatus s p = TASK_RUNNING then (pcbs s p)\<lparr>status := TASK_READY\<rparr> else pcbs s p)"
  using assms by (auto simp: pick_next_def Let_def split: bind_splits if_splits)

lemma switch_space_parts:
  "csr_satp (switch_space n s) = sched_satp n s" "mm (switch_space n s) = sched_mm n s" "pcbs (switch_space n s) = pcbs s"
  by (simp_all add: switch_space_def sched_satp_def sched_mm_def Let_def)

lemma do_scheduler_exact:
  assumes k: "kinv s Q" and can: "can_schedule s Q" and r: "do_scheduler rt s = Some s'"
  shows "pcbs s' = sched_task rt s Q \<and> csr_satp s' = sched_satp (sched_next rt s Q) s \<and> mm s' = sched_mm (sched_next rt s Q) s"
proof -
  let ?c = "current_running s" and ?Q1 = "sched_slept rt s Q" and ?W = "fst (sleepers_of rt s (Q SleepQ))"
  obtain s1 where s1: "check_sleeping rt s = Some s1" "kinv s1 ?Q1" "sched_frame s s1" "mm s1 = mm s"
      "tp s1 = tp s" "csr_satp s1 = csr_satp s"
      "\<And>p. pcbs s1 p = (if p \<in> set ?W then (pcbs s p)\<lparr>wakeup_time := 0, status := TASK_READY\<rparr> else pcbs s p)"
    using check_sleeping_kinv [OF k, of rt] unfolding sched_slept_def by blast
  obtain n s2 where s2: "pick_next s1 = Some (n, s2)" "s' = set_current n (switch_space n s2)"
    using r s1(1) by (auto simp: do_scheduler_def split: bind_splits)
  have hart1: "hart s1 = hart s" using s1(3) by (simp add: sched_frame_def)
  have c1: "current_running s1 = ?c" using s1(5) hart1 by (simp add: current_running_def)
  have cur: "current_running s' = sched_next rt s Q" using do_scheduler_result [OF k can, of rt] r by auto
  then have n: "n = sched_next rt s Q" by (simp add: s2(2))
  have W: "pstatus s p = TASK_BLOCKED" if "p \<in> set ?W" for p
    using that sleepers_sub(1) [of rt s "Q SleepQ"] kinvD(3) [OF k, of SleepQ p] by auto
  show ?thesis
  proof (cases "?Q1 ReadyQ")
    case Nil
    then have "pick_next s1 = Some (?c, s1)"
      using kq.empty_iff [OF kinvD(1) [OF s1(2)], of ReadyQ] c1 by (simp add: pick_next_def)
    then have e: "n = ?c" "s2 = s1" using s2(1) by simp_all
    have "switch_space n s2 = s1" using switch_space_same [of s1] c1 by (simp add: e)
    then show ?thesis using s1 n e Nil by (auto simp: s2(2) sched_task_def sched_satp_def sched_mm_def fun_eq_iff Let_def)
  next
    case (Cons m ps)
    have m: "m = n" using Cons by (simp add: n sched_next_def)
    have nc: "n \<noteq> ?c"
    proof
      assume "n = ?c"
      then have c: "?c \<in> set (?Q1 ReadyQ)" using Cons m by simp
      then have "pstatus s1 ?c = TASK_READY" using kinvD(2) [OF s1(2)] by blast
      then have nr: "pstatus s ?c \<noteq> TASK_RUNNING" using s1(7) W by (auto split: if_splits)
      then have "Q ReadyQ \<noteq> []" "?c \<notin> set (Q ReadyQ)" using can by (auto simp: can_schedule_def)
      then have "m \<in> set (Q ReadyQ)" using Cons by (cases "Q ReadyQ") (auto simp: sched_slept_def)
      with \<open>n = ?c\<close> \<open>?c \<notin> set (Q ReadyQ)\<close> m show False by simp
    qed
    then have nc1: "m \<noteq> current_running s1" using c1 m by simp
    obtain s2' where p: "pick_next s1 = Some (m, s2')" "sched_frame s1 s2'" "mm s2' = mm s1" "tp s2' = tp s1" "csr_satp s2' = csr_satp s1"
      using pick_next_kinv [OF s1(2) Cons nc1] by blast
    then have s2': "s2' = s2" using s2(1) by simp
    have P: "pcbs s2 = sched_task rt s Q"
      using pick_next_pcbs [OF s2(1)] nc Cons s1(7) W
      by (auto simp: fun_eq_iff sched_task_def Let_def n [symmetric] c1)
    have h2: "hart s2 = hart s" using p(2) hart1 by (simp add: s2' sched_frame_def)
    have c2: "current_running s2 = ?c" using p(4) s1(5) h2 by (simp add: s2' current_running_def)
    have same: "asid (pcbs s2 x) = asid (pcbs s x)" "satp (pcbs s2 x) = satp (pcbs s x)" for x
      by (simp_all add: P sched_task_def Let_def)
    have ex: "pstatus s2 ?c = TASK_EXITED \<longleftrightarrow> pstatus s ?c = TASK_EXITED"
      using nc Cons W [of ?c] by (auto simp: P sched_task_def Let_def n [symmetric])
    show ?thesis using P same ex c2 h2 p s1(4,6)
      by (simp add: s2(2) switch_space_parts s2' sched_satp_def sched_mm_def n [symmetric])
  qed
qed

section \<open>Blocking and unblocking\<close>

lemma status_links_commute: "set_status p st (upd_links f s) = upd_links f (set_status p st s)"
  by (simp add: set_status_def upd_pcb_def upd_links_def)

lemma pcb_links_commute: "upd_pcb p g (upd_links f s) = upd_links f (upd_pcb p g s)"
  by (simp add: upd_pcb_def upd_links_def)

lemma upd_links_frame [simp]: "sched_frame s (upd_links f s)"
  by (simp add: sched_frame_def upd_links_def)

lemma set_status_frame [simp]: "sched_frame s (set_status p st s)"
  by (simp add: sched_frame_def set_status_def upd_pcb_def)

lemma do_block_simps [simp]:
  "links (do_block p q s) = LIST_ADD_TAIL (Head q) (PList p) (LIST_REMOVE (PList p) (links s))"
  "pcbs (do_block p q s) = pcbs s" "current_running (do_block p q s) = current_running s"
  "hart (do_block p q s) = hart s" "tp (do_block p q s) = tp s"
  "mlocks (do_block p q s) = mlocks s" "mboxes (do_block p q s) = mboxes s"
  "barriers (do_block p q s) = barriers s" "ticks_read (do_block p q s) = ticks_read s"
  by (simp_all add: do_block_def)

lemma do_unblock_simps [simp]:
  "links (do_unblock n s) = LIST_ADD_HEAD (Head ReadyQ) n (LIST_REMOVE n (links s))"
  "pcbs (do_unblock n s) = pcbs s" "current_running (do_unblock n s) = current_running s"
  "hart (do_unblock n s) = hart s" "tp (do_unblock n s) = tp s"
  "mlocks (do_unblock n s) = mlocks s" "mboxes (do_unblock n s) = mboxes s"
  "barriers (do_unblock n s) = barriers s" "ticks_read (do_unblock n s) = ticks_read s"
  "umem (do_unblock n s) = umem s" "conditions (do_unblock n s) = conditions s"
  by (simp_all add: do_unblock_def)

lemma kinv_change:
  assumes k: "kinv_on E s Q" and links: "links t = links s"
    and st: "\<And>p. pstatus t p = pstatus s p"
  shows "kinv_on E t Q"
  using k unfolding kinv_on_def links st .

lemma kinv_block:
  assumes k: "kinv s Q" and p: "pstatus s p = TASK_RUNNING" and q: "q \<noteq> ReadyQ"
  shows "kinv (do_block p q (set_status p TASK_BLOCKED s)) (Q(q := Q q @ [p]))"
  unfolding kinv_on_def
proof (intro conjI ballI allI impI)
  note K = kinvD [OF k]
  let ?t = "do_block p q (set_status p TASK_BLOCKED s)"
  have f: "in_no_queue Q p" "detached (links s) p" using kinv_running_detached [OF k p] by auto
  have f': "\<forall>r. p \<notin> set (Q r)" using f(1) by (simp add: in_no_queue_def)
  show "queues (links ?t) (Q(q := Q q @ [p]))" using kq.enqueue_free [OF K(1) f' f(2)] by simp
  fix x assume "x \<in> set ((Q(q := Q q @ [p])) ReadyQ)"
  then have "x \<in> set (Q ReadyQ)" using q by simp
  then show "pstatus ?t x = TASK_READY" using K(2) f' by auto
next
  note K = kinvD [OF k]
  let ?t = "do_block p q (set_status p TASK_BLOCKED s)"
  fix r x assume "r \<noteq> ReadyQ" "x \<in> set ((Q(q := Q q @ [p])) r)"
  then show "pstatus ?t x = TASK_BLOCKED" using K(3) by (auto split: if_splits)
next
  note K = kinvD [OF k]
  let ?t = "do_block p q (set_status p TASK_BLOCKED s)"
  have f: "in_no_queue Q p" "detached (links s) p" using kinv_running_detached [OF k p] by auto
  have f': "\<forall>r. p \<notin> set (Q r)" using f(1) by (simp add: in_no_queue_def)
  fix x assume x: "in_no_queue (Q(q := Q q @ [p])) x" "pstatus ?t x \<noteq> TASK_EXITED"
  have xq: "x \<notin> set ((Q(q := Q q @ [p])) r)" for r using x(1) by (simp add: in_no_queue_def)
  have xp: "x \<noteq> p" using xq [of q] by auto
  have xn: "in_no_queue Q x" unfolding in_no_queue_def
  proof
    fix r show "x \<notin> set (Q r)" using xq [of r] by (cases "r = q") auto
  qed
  then show "pstatus ?t x = TASK_RUNNING" using x(2) xp K(4) by auto
  have "detached (links s) x" using x(2) xp xn K(5) by auto
  moreover have "\<forall>r. x \<notin> set (Q r)" using xn by (simp add: in_no_queue_def)
  ultimately have "detached (LIST_ADD_TAIL (Head q) (PList p) (links s)) x"
    using kq.free_add_tail [OF K(1)] xp by blast
  then show "detached (links ?t) x" by (simp add: kq.remove_free [OF f(2)])
qed

lemma kinv_unblock:
  assumes k: "kinv_on E s Q" and p: "p \<in> set (Q q)" and q: "q \<noteq> ReadyQ"
  shows "kinv_on E (set_status p TASK_READY (do_unblock (PList p) s))
    (Q(q := remove1 p (Q q), ReadyQ := p # Q ReadyQ))"
  unfolding kinv_on_def
proof (intro conjI ballI allI impI)
  note K = kinv_onD [OF k]
  let ?t = "set_status p TASK_READY (do_unblock (PList p) s)"
  let ?Q = "Q(q := remove1 p (Q q), ReadyQ := p # Q ReadyQ)"
  show "queues (links ?t) ?Q" using kq.move_head [OF K(1) p, of ReadyQ] q by simp
  fix x assume "x \<in> set (?Q ReadyQ)"
  then show "pstatus ?t x = TASK_READY" using K(2) by auto
next
  note K = kinv_onD [OF k]
  let ?t = "set_status p TASK_READY (do_unblock (PList p) s)"
  let ?Q = "Q(q := remove1 p (Q q), ReadyQ := p # Q ReadyQ)"
  fix r x assume r: "r \<noteq> ReadyQ" "x \<in> set (?Q r)"
  then have x: "x \<in> set (Q r)" by (auto split: if_splits dest: set_remove1_subset [THEN subsetD])
  have "x \<noteq> p"
  proof
    assume "x = p"
    then have "r = q" using queuesD(2) [OF K(1) p] x by auto
    then show False using r \<open>x = p\<close> kq.repr_distinct [OF K(1), of q] q by simp
  qed
  then show "pstatus ?t x = TASK_BLOCKED" using K(3) [OF r(1) x] by simp
next
  note K = kinv_onD [OF k]
  let ?t = "set_status p TASK_READY (do_unblock (PList p) s)"
  let ?Q = "Q(q := remove1 p (Q q), ReadyQ := p # Q ReadyQ)"
  fix x assume x: "in_no_queue ?Q x" "x \<notin> E" "pstatus ?t x \<noteq> TASK_EXITED"
  have xq: "x \<notin> set (?Q r)" for r using x(1) by (simp add: in_no_queue_def)
  have xp: "x \<noteq> p" using xq [of ReadyQ] by auto
  have xn: "in_no_queue Q x" unfolding in_no_queue_def
  proof
    fix r show "x \<notin> set (Q r)" using xq [of r] xp by (cases "r = q"; cases "r = ReadyQ") auto
  qed
  then show "pstatus ?t x = TASK_RUNNING" using x(2,3) xp K(4) by auto
  have d: "detached (links s) x" using x(2,3) xp xn K(5) by auto
  have "\<forall>r. x \<notin> set (Q r)" using xn by (simp add: in_no_queue_def)
  from kq.move_free(2) [OF K(1) p this d] show "detached (links ?t) x" by simp
qed

text \<open>The running task blocks itself on a queue; somebody else runs next.\<close>

definition block_current :: "head \<Rightarrow> 'd kernel \<Rightarrow> 'd kernel" where
  "block_current q s = do_block (current_running s) q (set_status (current_running s) TASK_BLOCKED s)"

lemma block_current_can_schedule:
  assumes k: "kinv s Q" and run: "pstatus s (current_running s) = TASK_RUNNING"
    and q: "q \<noteq> ReadyQ" and ready: "Q ReadyQ \<noteq> []"
  shows "kinv (block_current q s) (Q(q := Q q @ [current_running s]))"
    "can_schedule (block_current q s) (Q(q := Q q @ [current_running s]))"
proof -
  show "kinv (block_current q s) (Q(q := Q q @ [current_running s]))"
    unfolding block_current_def by (rule kinv_block [OF k run q])
  have "current_running s \<notin> set (Q ReadyQ)"
    using kinv_running_free [OF k] run by (auto simp: in_no_queue_def)
  then show "can_schedule (block_current q s) (Q(q := Q q @ [current_running s]))"
    using q ready by (simp add: can_schedule_def block_current_def)
qed

text \<open>The first ready task is the next one unless sleepers wake into an empty queue.\<close>

lemma sched_next_hd: "Q ReadyQ = n # ps \<Longrightarrow> sched_next rt s Q = n"
  by (simp add: sched_next_def sched_slept_def)

lemma sched_queues_other:
  "q \<noteq> ReadyQ \<Longrightarrow> q \<noteq> SleepQ \<Longrightarrow> sched_queues rt s Q q = Q q"
  by (simp add: sched_queues_def sched_slept_def split: list.split)

lemma do_sleep_result:
  fixes s :: "'d kernel"
  assumes k: "kinv s Q" and run: "pstatus s (current_running s) = TASK_RUNNING"
    and ready: "Q ReadyQ = n # ps"
  shows "\<exists>s' (t :: 'd kernel). do_sleep rt secs s = Some s' \<and> kinv s' (sched_queues rt t (Q(SleepQ := Q SleepQ @ [current_running s])))
    \<and> current_running s' = n \<and> pstatus s' n = TASK_RUNNING
    \<and> ticks_read t = Suc (ticks_read s)
    \<and> (\<forall>p. wakeup_time (pcbs t p) = (if p = current_running s
          then rt (ticks_read s) + ucast secs * time_base s else wakeup_time (pcbs s p)))
    \<and> pcbs s' = sched_task rt t (Q(SleepQ := Q SleepQ @ [current_running s]))"
proof -
  let ?c = "current_running s" and ?Q = "Q(SleepQ := Q SleepQ @ [current_running s])"
  let ?w = "rt (ticks_read s) + ucast secs * time_base s"
  define t where "t = upd_pcb ?c (\<lambda>x. x\<lparr>wakeup_time := ?w\<rparr>) (snd (get_ticks rt (block_current SleepQ s)))"
  note B = block_current_can_schedule [OF k run, of SleepQ]
  have st: "pstatus t p = pstatus (block_current SleepQ s) p" for p by (simp add: t_def)
  have kt: "kinv t ?Q" by (rule kinv_change [OF B(1)]) (use ready in \<open>simp_all add: t_def\<close>)
  have ct: "current_running t = ?c" by (simp add: t_def block_current_def)
  have can: "can_schedule t ?Q"
    using B(2) ready ct st by (simp add: can_schedule_def block_current_def)
  have run_t: "do_sleep rt secs s = do_scheduler rt t"
    by (simp add: do_sleep_def t_def block_current_def do_block_def Let_def get_ticks_def status_links_commute)
  have "?Q ReadyQ = n # ps" using ready by simp
  then have hd: "sched_next rt t ?Q = n" by (rule sched_next_hd)
  have "ticks_read t = Suc (ticks_read s)" by (simp add: t_def block_current_def)
  moreover have "\<forall>p. wakeup_time (pcbs t p) = (if p = ?c then ?w else wakeup_time (pcbs s p))"
    by (simp add: t_def block_current_def)
  moreover obtain s' where "do_scheduler rt t = Some s'" "kinv s' (sched_queues rt t ?Q)"
    "current_running s' = n" "pstatus s' n = TASK_RUNNING"
    using do_scheduler_result [OF kt can, of rt] unfolding hd by blast
  moreover from this(1) have "pcbs s' = sched_task rt t ?Q" using do_scheduler_exact [OF kt can] by blast
  ultimately show ?thesis unfolding run_t by (intro exI [of _ s'] exI [of _ t] conjI)
qed

end
