(* ===== verification/Lock.thy ===== *)
theory Lock
  imports Sched
begin

text \<open>
  Mutex locks, barriers and condition variables of \<open>kernel/locking/lock.c\<close>. Each of the three
  tables hands out slots by an integer key (locale \<open>keyed_table\<close>), and each slot has a wait
  queue. The lemmas describe every operation on the queues \<open>Q\<close> of the invariant \<open>kinv\<close>:
  a busy lock queues its caller at the tail, a release hands the lock to the head, a barrier
  lets everybody go with the last arrival, a signal moves one waiter to the ready queue or
  to the queue of its mutex. The spin lock functions of the file have empty bodies.
\<close>

section \<open>Mutex locks\<close>

definition upd_mlock :: "nat \<Rightarrow> (mutex_lock_t \<Rightarrow> mutex_lock_t) \<Rightarrow> 'd kernel \<Rightarrow> 'd kernel" where
  "upd_mlock i f s = s\<lparr>mlocks := (mlocks s)(i := f (mlocks s i))\<rparr>"

definition init_head :: "head \<Rightarrow> 'd kernel \<Rightarrow> 'd kernel" where
  "init_head q = upd_links (\<lambda>h. set_prev (Head q) (Head q) (set_next (Head q) (Head q) h))"

definition init_locks :: "'d kernel \<Rightarrow> 'd kernel option" where
  "init_locks s = for_each (\<lambda>i s. Some
     (upd_mlock i (\<lambda>m. m\<lparr>m_key := -1, m_status := UNLOCKED\<rparr>) (init_head (MutexQ i) s))) [0..<LOCK_NUM] s"

definition do_mutex_lock_init :: "int \<Rightarrow> 'd kernel \<Rightarrow> int \<times> 'd kernel" where
  "do_mutex_lock_init key s =
     (case find_from (\<lambda>i. m_key (mlocks s i) = key) 0 LOCK_NUM of
        Some i \<Rightarrow> (int i, s)
      | None \<Rightarrow> (case find_from (\<lambda>i. m_key (mlocks s i) = -1) 0 LOCK_NUM of
          Some i \<Rightarrow> (int i, upd_mlock i (\<lambda>m. m\<lparr>m_key := key\<rparr>) s)
        | None \<Rightarrow> (-1, s)))"

definition do_mutex_lock_acquire :: "(nat \<Rightarrow> u64) \<Rightarrow> int \<Rightarrow> 'd kernel \<Rightarrow> 'd kernel option" where
  "do_mutex_lock_acquire rt mlock_idx s = do {
     i \<leftarrow> index mlock_idx LOCK_NUM;
     let cur = current_running s;
     if m_status (mlocks s i) = UNLOCKED
     then Some (upd_mlock i (\<lambda>m. m\<lparr>m_status := LOCKED, m_owner := pid (pcbs s cur)\<rparr>) s)
     else do_scheduler rt (do_block cur (MutexQ i) (set_status cur TASK_BLOCKED s)) }"

definition do_mutex_lock_acquire_non_sched :: "pcb_ref \<Rightarrow> int \<Rightarrow> 'd kernel \<Rightarrow> 'd kernel option" where
  "do_mutex_lock_acquire_non_sched p mlock_idx s = do {
     i \<leftarrow> index mlock_idx LOCK_NUM;
     if m_status (mlocks s i) = UNLOCKED
     then Some (upd_mlock i (\<lambda>m. m\<lparr>m_status := LOCKED, m_owner := pid (pcbs s p)\<rparr>) s)
     else Some (do_block p (MutexQ i) (set_status p TASK_BLOCKED s)) }"

text \<open>The body that \<open>do_mutex_lock_release\<close> and \<open>do_release_locks\<close> share: the first waiter
  becomes the owner, or the lock is free.\<close>

definition pass_lock :: "nat \<Rightarrow> 'd kernel \<Rightarrow> 'd kernel option" where
  "pass_lock i s =
     (if \<not> LIST_IS_EMPTY (Head (MutexQ i)) (links s)
      then do {
        let node = lnext (links s) (Head (MutexQ i));
        let s1 = do_unblock node s;
        p \<leftarrow> NODE_TO_PCB node;
        let s2 = upd_mlock i (\<lambda>m. m\<lparr>m_owner := pid (pcbs s1 p)\<rparr>) s1;
        Some (set_status p TASK_READY s2) }
      else Some (upd_mlock i (\<lambda>m. m\<lparr>m_status := UNLOCKED\<rparr>) s))"

definition do_mutex_lock_release :: "int \<Rightarrow> 'd kernel \<Rightarrow> 'd kernel option" where
  "do_mutex_lock_release mlock_idx s = do {
     i \<leftarrow> index mlock_idx LOCK_NUM;
     if pid (pcbs s (current_running s)) = m_owner (mlocks s i) then pass_lock i s else Some s }"

definition do_release_locks :: "int \<Rightarrow> 'd kernel \<Rightarrow> 'd kernel option" where
  "do_release_locks p s =
     for_each (\<lambda>i s. if m_status (mlocks s i) = LOCKED \<and> m_owner (mlocks s i) = p
       then pass_lock i s else Some s) [0..<LOCK_NUM] s"

section \<open>Barriers\<close>

definition upd_barrier :: "nat \<Rightarrow> (barrier_t \<Rightarrow> barrier_t) \<Rightarrow> 'd kernel \<Rightarrow> 'd kernel" where
  "upd_barrier i f s = s\<lparr>barriers := (barriers s)(i := f (barriers s i))\<rparr>"

definition init_barriers :: "'d kernel \<Rightarrow> 'd kernel option" where
  "init_barriers s = for_each (\<lambda>i s. Some
     (upd_barrier i (\<lambda>b. b\<lparr>b_key := -1, b_count := 0, b_goal := -1\<rparr>) (init_head (BarrierQ i) s)))
     [0..<BARRIER_NUM] s"

definition do_barrier_init :: "int \<Rightarrow> int \<Rightarrow> 'd kernel \<Rightarrow> int \<times> 'd kernel" where
  "do_barrier_init key goal s =
     (case find_from (\<lambda>i. b_key (barriers s i) = key) 0 BARRIER_NUM of
        Some i \<Rightarrow> (int i, s)
      | None \<Rightarrow> (case find_from (\<lambda>i. b_key (barriers s i) = -1) 0 BARRIER_NUM of
          Some i \<Rightarrow> (int i, upd_barrier i (\<lambda>b. b\<lparr>b_key := key, b_goal := goal\<rparr>) s)
        | None \<Rightarrow> (-1, s)))"

partial_function (option) release_barrier_queue :: "nat \<Rightarrow> 'd kernel \<Rightarrow> 'd kernel option" where
  "release_barrier_queue i s =
     (if LIST_IS_EMPTY (Head (BarrierQ i)) (links s) then Some s
      else do {
        let node = lnext (links s) (Head (BarrierQ i));
        p \<leftarrow> NODE_TO_PCB node;
        release_barrier_queue i (set_status p TASK_READY (do_unblock node s)) })"

definition do_barrier_wait :: "(nat \<Rightarrow> u64) \<Rightarrow> int \<Rightarrow> 'd kernel \<Rightarrow> 'd kernel option" where
  "do_barrier_wait rt barr_idx s = do {
     i \<leftarrow> index barr_idx BARRIER_NUM;
     let s1 = upd_barrier i (\<lambda>b. b\<lparr>b_count := b_count b + 1\<rparr>) s;
     if b_count (barriers s1 i) \<ge> b_goal (barriers s1 i)
     then release_barrier_queue i (upd_barrier i (\<lambda>b. b\<lparr>b_count := 0\<rparr>) s1)
     else (let cur = current_running s1 in
       do_scheduler rt (do_block cur (BarrierQ i) (set_status cur TASK_BLOCKED s1))) }"

definition do_barrier_destroy :: "int \<Rightarrow> 'd kernel \<Rightarrow> 'd kernel option" where
  "do_barrier_destroy bar_idx s = do {
     i \<leftarrow> index bar_idx BARRIER_NUM;
     Some (init_head (BarrierQ i)
       (upd_barrier i (\<lambda>b. b\<lparr>b_key := -1, b_count := 0, b_goal := -1\<rparr>) s)) }"

section \<open>Condition variables\<close>

definition upd_condition :: "nat \<Rightarrow> (condition_t \<Rightarrow> condition_t) \<Rightarrow> 'd kernel \<Rightarrow> 'd kernel" where
  "upd_condition i f s = s\<lparr>conditions := (conditions s)(i := f (conditions s i))\<rparr>"

definition init_conditions :: "'d kernel \<Rightarrow> 'd kernel option" where
  "init_conditions s = for_each (\<lambda>i s. Some
     (init_head (CondQ i) (upd_condition i (\<lambda>c. c\<lparr>c_key := -1\<rparr>) s))) [0..<CONDITION_NUM] s"

definition do_condition_init :: "int \<Rightarrow> 'd kernel \<Rightarrow> int \<times> 'd kernel" where
  "do_condition_init key s =
     (case find_from (\<lambda>i. c_key (conditions s i) = key) 0 CONDITION_NUM of
        Some i \<Rightarrow> (int i, s)
      | None \<Rightarrow> (case find_from (\<lambda>i. c_key (conditions s i) = -1) 0 CONDITION_NUM of
          Some i \<Rightarrow> (int i, upd_condition i (\<lambda>c. c\<lparr>c_key := key\<rparr>) s)
        | None \<Rightarrow> (-1, s)))"

definition do_condition_wait :: "(nat \<Rightarrow> u64) \<Rightarrow> int \<Rightarrow> int \<Rightarrow> 'd kernel \<Rightarrow> 'd kernel option" where
  "do_condition_wait rt cond_idx mutex s = do {
     s1 \<leftarrow> do_mutex_lock_release mutex s;
     i \<leftarrow> index cond_idx CONDITION_NUM;
     let cur = current_running s1;
     let s2 = upd_pcb cur (\<lambda>t. t\<lparr>mutex_idx := mutex\<rparr>) (set_status cur TASK_BLOCKED s1);
     do_scheduler rt (do_block cur (CondQ i) s2) }"

definition do_condition_signal :: "int \<Rightarrow> 'd kernel \<Rightarrow> 'd kernel option" where
  "do_condition_signal cond_idx s = do {
     i \<leftarrow> index cond_idx CONDITION_NUM;
     let node = lnext (links s) (Head (CondQ i));
     if node \<noteq> Head (CondQ i)
     then do {
       let s1 = do_unblock node s;
       p \<leftarrow> NODE_TO_PCB node;
       let s2 = set_status p TASK_READY s1;
       do_mutex_lock_acquire_non_sched p (mutex_idx (pcbs s2 p)) s2 }
     else Some s }"

partial_function (option) condition_broadcast_loop :: "nat \<Rightarrow> node \<Rightarrow> 'd kernel \<Rightarrow> 'd kernel option" where
  "condition_broadcast_loop i node s =
     (if node \<noteq> Head (CondQ i)
      then do {
        p \<leftarrow> NODE_TO_PCB node;
        s' \<leftarrow> (let s2 = set_status p TASK_READY (do_unblock node s)
             in do_mutex_lock_acquire_non_sched p (mutex_idx (pcbs s2 p)) s2);
        condition_broadcast_loop i (lnext (links s') (Head (CondQ i))) s' }
      else Some s)"

definition do_condition_broadcast :: "int \<Rightarrow> 'd kernel \<Rightarrow> 'd kernel option" where
  "do_condition_broadcast cond_idx s = do {
     i \<leftarrow> index cond_idx CONDITION_NUM;
     condition_broadcast_loop i (lnext (links s) (Head (CondQ i))) s }"

definition do_condition_destroy :: "int \<Rightarrow> 'd kernel \<Rightarrow> 'd kernel option" where
  "do_condition_destroy cond_idx s = do {
     i \<leftarrow> index cond_idx CONDITION_NUM;
     Some (init_head (CondQ i) (upd_condition i (\<lambda>c. c\<lparr>c_key := -1\<rparr>) s)) }"

section \<open>Tables of slots with integer keys\<close>

text \<open>The contract of \<open>do_mutex_lock_init\<close>, \<open>do_barrier_init\<close> and \<open>do_condition_init\<close>: the slot
  that has the key, else the first free slot, which takes the key, else -1.\<close>

locale keyed_table =
  fixes key_at :: "'t \<Rightarrow> nat \<Rightarrow> int"
    and opener :: "int \<Rightarrow> 't \<Rightarrow> int \<times> 't"
    and size :: nat
  assumes open_found: "find_from (\<lambda>i. key_at t i = k) 0 size = Some i \<Longrightarrow> opener k t = (int i, t)"
    and open_new: "find_from (\<lambda>i. key_at t i = k) 0 size = None \<Longrightarrow>
        find_from (\<lambda>i. key_at t i = -1) 0 size = Some i \<Longrightarrow>
        fst (opener k t) = int i \<and> key_at (snd (opener k t)) = (key_at t)(i := k)"
    and open_full: "find_from (\<lambda>i. key_at t i = k) 0 size = None \<Longrightarrow>
        find_from (\<lambda>i. key_at t i = -1) 0 size = None \<Longrightarrow> opener k t = (-1, t)"
begin

text \<open>No key other than -1 is in two slots.\<close>

definition keys_distinct :: "'t \<Rightarrow> bool" where
  "keys_distinct t \<longleftrightarrow> (\<forall>i < size. \<forall>j < size. key_at t i \<noteq> -1 \<longrightarrow> key_at t i = key_at t j \<longrightarrow> i = j)"

lemma open_cases:
  obtains (found) i where "i < size" "key_at t i = k" "opener k t = (int i, t)"
  | (new) i where "i < size" "key_at t i = -1" "\<And>j. j < size \<Longrightarrow> key_at t j \<noteq> k"
      "fst (opener k t) = int i" "key_at (snd (opener k t)) = (key_at t)(i := k)"
  | (full) "\<And>j. j < size \<Longrightarrow> key_at t j \<noteq> k \<and> key_at t j \<noteq> -1" "opener k t = (-1, t)"
proof (cases "find_from (\<lambda>i. key_at t i = k) 0 size")
  case (Some i)
  with find_from_SomeD [OF Some] open_found show thesis by (intro found) auto
next
  case none: None
  note nk = find_from_NoneD [OF none]
  show thesis
  proof (cases "find_from (\<lambda>i. key_at t i = -1) 0 size")
    case (Some i)
    with find_from_SomeD [OF Some] open_new [OF none Some] nk show thesis by (intro new) auto
  next
    case None
    with find_from_NoneD [OF None] open_full [OF none None] nk show thesis by (intro full) auto
  qed
qed

lemma open_keys_distinct: "keys_distinct t \<Longrightarrow> keys_distinct (snd (opener k t))"
proof (cases rule: open_cases [of t k])
  case (new i)
  assume "keys_distinct t"
  with new show ?thesis unfolding keys_distinct_def new(5) by (metis fun_upd_apply)
qed simp_all

lemma open_idem:
  assumes "keys_distinct t" "k \<noteq> -1" "fst (opener k t) \<noteq> -1"
  shows "opener k (snd (opener k t)) = (fst (opener k t), snd (opener k t))"
proof (cases rule: open_cases [of t k])
  case (found i)
  then show ?thesis by simp
next
  case (new i)
  have "find_from (\<lambda>j. key_at (snd (opener k t)) j = k) 0 size = Some i"
    using new by (auto simp: find_from_Some_iff)
  from open_found [OF this] new show ?thesis by simp
next
  case full
  with assms(3) show ?thesis by simp
qed

lemma open_bound: "fst (opener k t) \<noteq> -1 \<Longrightarrow> \<exists>i < size. fst (opener k t) = int i
    \<and> key_at (snd (opener k t)) i = k"
  by (cases rule: open_cases [of t k]) auto

lemma open_different:
  assumes d: "keys_distinct t" and k: "k \<noteq> -1" "k' \<noteq> -1" "k \<noteq> k'"
    and r: "fst (opener k t) \<noteq> -1" "fst (opener k' (snd (opener k t))) \<noteq> -1"
  shows "fst (opener k t) \<noteq> fst (opener k' (snd (opener k t)))"
proof -
  obtain i where i: "i < size" "fst (opener k t) = int i" "key_at (snd (opener k t)) i = k"
    using open_bound [OF r(1)] by blast
  show ?thesis using i k r(2) by (cases rule: open_cases [of "snd (opener k t)" k']) auto
qed

end

interpretation mutex_table: keyed_table "\<lambda>s i. m_key (mlocks s i)" do_mutex_lock_init LOCK_NUM
  by unfold_locales (auto simp: do_mutex_lock_init_def upd_mlock_def)

interpretation barrier_table: keyed_table "\<lambda>s i. b_key (barriers s i)"
  "\<lambda>k. do_barrier_init k goal" BARRIER_NUM for goal
  by unfold_locales (auto simp: do_barrier_init_def upd_barrier_def)

interpretation condition_table: keyed_table "\<lambda>s i. c_key (conditions s i)" do_condition_init CONDITION_NUM
  by unfold_locales (auto simp: do_condition_init_def upd_condition_def)

section \<open>Mutex operations on the queues\<close>

lemma upd_mlock_simps [simp]:
  "links (upd_mlock i f s) = links s" "pcbs (upd_mlock i f s) = pcbs s"
  "mlocks (upd_mlock i f s) = (mlocks s)(i := f (mlocks s i))"
  "current_running (upd_mlock i f s) = current_running s" "hart (upd_mlock i f s) = hart s"
  "tp (upd_mlock i f s) = tp s"
  by (simp_all add: upd_mlock_def current_running_def)

lemma upd_barrier_simps [simp]:
  "links (upd_barrier i g s) = links s" "pcbs (upd_barrier i g s) = pcbs s"
  "barriers (upd_barrier i g s) = (barriers s)(i := g (barriers s i))"
  "current_running (upd_barrier i g s) = current_running s" "mlocks (upd_barrier i g s) = mlocks s"
  by (simp_all add: upd_barrier_def current_running_def)

lemma upd_mlock_kinv: "kinv_on E s Q \<Longrightarrow> kinv_on E (upd_mlock i f s) Q"
  by (erule kinv_change) simp_all

lemma upd_barrier_kinv: "kinv s Q \<Longrightarrow> kinv (upd_barrier i g s) Q"
  by (erule kinv_change) simp_all

definition locked_by :: "'d kernel \<Rightarrow> nat \<Rightarrow> int \<Rightarrow> bool" where
  "locked_by s i p \<longleftrightarrow> m_status (mlocks s i) = LOCKED \<and> m_owner (mlocks s i) = p"

text \<open>Nobody waits for a lock that is free.\<close>

definition linv :: "'d kernel \<Rightarrow> (head \<Rightarrow> pcb_ref list) \<Rightarrow> bool" where
  "linv s Q \<longleftrightarrow> (\<forall>i < LOCK_NUM. m_status (mlocks s i) = UNLOCKED \<longrightarrow> Q (MutexQ i) = [])"

lemma acquire_free_result:
  assumes "i < LOCK_NUM" "m_status (mlocks s i) = UNLOCKED" "kinv s Q" "linv s Q"
  shows "\<exists>s'. do_mutex_lock_acquire rt (int i) s = Some s' \<and> kinv s' Q \<and> linv s' Q
    \<and> locked_by s' i (pid (pcbs s (current_running s)))
    \<and> current_running s' = current_running s \<and> (\<forall>j. j \<noteq> i \<longrightarrow> mlocks s' j = mlocks s j)"
  using assms
  by (auto simp: do_mutex_lock_acquire_def Let_def upd_mlock_kinv linv_def locked_by_def)

lemma acquire_busy_result:
  assumes i: "i < LOCK_NUM" "m_status (mlocks s i) = LOCKED" and k: "kinv s Q" and l: "linv s Q"
    and run: "pstatus s (current_running s) = TASK_RUNNING" and ready: "Q ReadyQ = n # ps"
  shows "\<exists>s' Q'. do_mutex_lock_acquire rt (int i) s = Some s' \<and> kinv s' Q' \<and> linv s' Q'
    \<and> mlocks s' = mlocks s \<and> current_running s' = n \<and> pstatus s' n = TASK_RUNNING
    \<and> Q' (MutexQ i) = Q (MutexQ i) @ [current_running s]
    \<and> (\<forall>j. j \<noteq> i \<longrightarrow> Q' (MutexQ j) = Q (MutexQ j))"
proof -
  let ?Q = "Q(MutexQ i := Q (MutexQ i) @ [current_running s])" and ?t = "block_current (MutexQ i) s"
  have "Q ReadyQ \<noteq> []" using ready by simp
  note B = block_current_can_schedule [OF k run _ this, of "MutexQ i", simplified]
  have "?Q ReadyQ = n # ps" using ready by simp
  then have hd: "sched_next rt ?t ?Q = n" by (rule sched_next_hd)
  obtain s' where s': "do_scheduler rt ?t = Some s'" "kinv s' (sched_queues rt ?t ?Q)"
      "current_running s' = n" "pstatus s' n = TASK_RUNNING" "sched_frame ?t s'"
    using do_scheduler_result [OF B, of rt] unfolding hd by blast
  have m: "mlocks s' = mlocks s" using s'(5) by (simp add: sched_frame_def block_current_def)
  have "do_mutex_lock_acquire rt (int i) s = Some s'"
    using i s'(1) by (simp add: do_mutex_lock_acquire_def Let_def block_current_def)
  moreover have "linv s' (sched_queues rt ?t ?Q)"
    using l i(2) unfolding linv_def m by (auto simp: sched_queues_other)
  ultimately show ?thesis using s' m by (intro exI [of _ s'] exI [of _ "sched_queues rt ?t ?Q"])
    (simp add: sched_queues_other)
qed

lemma pass_lock_result:
  assumes k: "kinv_on E s Q" and l: "linv s Q"
  shows "\<exists>s'. pass_lock i s = Some s' \<and> linv s' (Q(MutexQ i := tl (Q (MutexQ i)),
        ReadyQ := take 1 (Q (MutexQ i)) @ Q ReadyQ))
    \<and> kinv_on E s' (Q(MutexQ i := tl (Q (MutexQ i)), ReadyQ := take 1 (Q (MutexQ i)) @ Q ReadyQ))
    \<and> (case Q (MutexQ i) of [] \<Rightarrow> m_status (mlocks s' i) = UNLOCKED
        | p # _ \<Rightarrow> mlocks s' i = (mlocks s i)\<lparr>m_owner := pid (pcbs s p)\<rparr>)
    \<and> (\<forall>j. j \<noteq> i \<longrightarrow> mlocks s' j = mlocks s j)
    \<and> (\<forall>x. same_task (pcbs s x) (pcbs s' x)) \<and> current_running s' = current_running s
    \<and> (\<forall>x. x \<notin> set (Q (MutexQ i)) \<longrightarrow> pcbs s' x = pcbs s x)"
proof (cases "Q (MutexQ i)")
  note K = kinv_onD [OF k]
  {
    case Nil
    then have e: "LIST_IS_EMPTY (Head (MutexQ i)) (links s)" using kq.empty_iff [OF K(1)] by simp
    have "Q(MutexQ i := [], ReadyQ := Q ReadyQ) = Q" using Nil by (auto simp: fun_eq_iff)
    then show ?thesis using e Nil k l
      by (simp add: pass_lock_def upd_mlock_kinv) (simp add: linv_def)
  next
    case (Cons p ps)
    have ne: "\<not> LIST_IS_EMPTY (Head (MutexQ i)) (links s)" using kq.empty_iff [OF K(1)] Cons by simp
    have nd: "lnext (links s) (Head (MutexQ i)) = PList p"
      using queues_front [OF K(1), of "MutexQ i"] Cons by (simp add: front_node_def)
    have p: "p \<in> set (Q (MutexQ i))" using Cons by simp
    let ?t = "set_status p TASK_READY (do_unblock (PList p) s)"
    let ?s' = "set_status p TASK_READY (upd_mlock i (\<lambda>m. m\<lparr>m_owner := pid (pcbs s p)\<rparr>) (do_unblock (PList p) s))"
    have "pass_lock i s = Some ?s'" using ne nd by (simp add: pass_lock_def Let_def)
    moreover have "kinv_on E ?t (Q(MutexQ i := ps, ReadyQ := p # Q ReadyQ))"
      using kinv_unblock [OF k p] Cons by simp
    then have "kinv_on E ?s' (Q(MutexQ i := ps, ReadyQ := p # Q ReadyQ))"
      by (rule kinv_change) simp_all
    ultimately show ?thesis using Cons l by (auto simp: linv_def)
  }
qed

lemma release_result:
  assumes i: "i < LOCK_NUM" and k: "kinv s Q" and l: "linv s Q"
    and own: "pid (pcbs s (current_running s)) = m_owner (mlocks s i)"
    and waiters: "Q (MutexQ i) = p # ps"
  shows "\<exists>s'. do_mutex_lock_release (int i) s = Some s'
    \<and> kinv s' (Q(MutexQ i := ps, ReadyQ := p # Q ReadyQ)) \<and> linv s' (Q(MutexQ i := ps, ReadyQ := p # Q ReadyQ))
    \<and> locked_by s' i (pid (pcbs s p)) \<and> pstatus s' p = TASK_READY
    \<and> current_running s' = current_running s"
proof -
  have locked: "m_status (mlocks s i) = LOCKED"
    using l i waiters by (cases "m_status (mlocks s i)") (auto simp: linv_def)
  obtain s' where s': "pass_lock i s = Some s'" "kinv s' (Q(MutexQ i := ps, ReadyQ := p # Q ReadyQ))"
      "linv s' (Q(MutexQ i := ps, ReadyQ := p # Q ReadyQ))"
      "mlocks s' i = (mlocks s i)\<lparr>m_owner := pid (pcbs s p)\<rparr>" "current_running s' = current_running s"
    using pass_lock_result [OF k l, of i] waiters by auto
  have "pstatus s' p = TASK_READY" using kinvD(2) [OF s'(2), of p] by simp
  then show ?thesis using s' i own locked by (auto simp: do_mutex_lock_release_def locked_by_def)
qed

lemma release_foreign:
  assumes "i < LOCK_NUM" "pid (pcbs s (current_running s)) \<noteq> m_owner (mlocks s i)"
  shows "do_mutex_lock_release (int i) s = Some s"
  using assms by (simp add: do_mutex_lock_release_def)

section \<open>Releasing everything a task holds\<close>

definition held_by :: "'d kernel \<Rightarrow> int \<Rightarrow> nat \<Rightarrow> bool" where
  "held_by s p i \<longleftrightarrow> m_status (mlocks s i) = LOCKED \<and> m_owner (mlocks s i) = p"

text \<open>The queues after the locks below \<open>n\<close> that \<open>p\<close> held in \<open>s\<close> are passed on.\<close>

definition passed_on :: "'d kernel \<Rightarrow> (head \<Rightarrow> pcb_ref list) \<Rightarrow> int \<Rightarrow> nat \<Rightarrow> (head \<Rightarrow> pcb_ref list) \<Rightarrow> bool" where
  "passed_on s Q p n Q' \<longleftrightarrow>
     (\<forall>i. Q' (MutexQ i) = (if i < n \<and> held_by s p i then tl (Q (MutexQ i)) else Q (MutexQ i)))
     \<and> (\<forall>q. q \<noteq> ReadyQ \<longrightarrow> (\<forall>i. q \<noteq> MutexQ i) \<longrightarrow> Q' q = Q q)
     \<and> (\<exists>ws. Q' ReadyQ = ws @ Q ReadyQ \<and>
          set ws = {hd (Q (MutexQ i)) |i. i < n \<and> held_by s p i \<and> Q (MutexQ i) \<noteq> []})"

text \<open>A lock \<open>m\<close> that has been passed on belongs to the first task that waited for it, or is free.\<close>

definition lock_passed :: "'d kernel \<Rightarrow> (head \<Rightarrow> pcb_ref list) \<Rightarrow> nat \<Rightarrow> mutex_lock_t \<Rightarrow> bool" where
  "lock_passed s Q i m \<longleftrightarrow> (case Q (MutexQ i) of
       [] \<Rightarrow> m_status m = UNLOCKED
     | x # _ \<Rightarrow> m_status m = LOCKED \<and> m_owner m = pid (pcbs s x))"

lemma release_locks_result:
  fixes s :: "'d kernel"
  assumes k: "kinv_on E s Q" and l: "linv s Q"
    and others: "\<And>i x. x \<in> set (Q (MutexQ i)) \<Longrightarrow> pid (pcbs s x) \<noteq> p"
  shows "\<exists>s' Q'. do_release_locks p s = Some s' \<and> kinv_on E s' Q' \<and> linv s' Q' \<and> passed_on s Q p LOCK_NUM Q'
    \<and> (\<forall>i < LOCK_NUM. \<not> held_by s' p i)
    \<and> (\<forall>i < LOCK_NUM. if held_by s p i then lock_passed s Q i (mlocks s' i) else mlocks s' i = mlocks s i)
    \<and> (\<forall>x. same_task (pcbs s x) (pcbs s' x)) \<and> current_running s' = current_running s
    \<and> (\<forall>x. in_no_queue Q x \<longrightarrow> pcbs s' x = pcbs s x)"
proof -
  define P where "P n t \<longleftrightarrow> (\<exists>Q'. kinv_on E t Q' \<and> linv t Q' \<and> passed_on s Q p n Q'
    \<and> (\<forall>i < n. held_by s p i \<longrightarrow> lock_passed s Q i (mlocks t i)) \<and> (\<forall>i < n. \<not> held_by t p i) \<and> (\<forall>i. n \<le> i \<or> \<not> held_by s p i \<longrightarrow> mlocks t i = mlocks s i)
    \<and> (\<forall>x. same_task (pcbs s x) (pcbs t x)) \<and> current_running t = current_running s
    \<and> (\<forall>x. in_no_queue Q x \<longrightarrow> pcbs t x = pcbs s x))" for n and t :: "'d kernel"
  have "\<exists>s'. do_release_locks p s = Some s' \<and> P LOCK_NUM s'"
    unfolding do_release_locks_def
  proof (rule for_each_upt [where P = P])
    show "P 0 s" unfolding P_def using k l by (auto simp: passed_on_def intro!: exI [of _ Q])
  next
    fix i t assume "P i t"
    then obtain Q' where t: "kinv_on E t Q'" "linv t Q'" "passed_on s Q p i Q'" "\<And>j. j < i \<Longrightarrow> \<not> held_by t p j"
      "\<And>j. i \<le> j \<or> \<not> held_by s p j \<Longrightarrow> mlocks t j = mlocks s j" "\<And>x. same_task (pcbs s x) (pcbs t x)"
      "current_running t = current_running s" "\<And>x. in_no_queue Q x \<Longrightarrow> pcbs t x = pcbs s x"
      "\<And>j. j < i \<Longrightarrow> held_by s p j \<Longrightarrow> lock_passed s Q j (mlocks t j)"
      unfolding P_def by blast
    have hi: "held_by t p i \<longleftrightarrow> held_by s p i" using t(5) [of i] by (simp add: held_by_def)
    have Qi: "Q' (MutexQ i) = Q (MutexQ i)" using t(3) by (simp add: passed_on_def)
    show "\<exists>s'. (if m_status (mlocks t i) = LOCKED \<and> m_owner (mlocks t i) = p then pass_lock i t else Some t)
        = Some s' \<and> P (Suc i) s'"
    proof (cases "held_by s p i")
      case False
      then have nh: "\<not> held_by t p i" using hi by simp
      have e: "j < Suc i \<and> held_by s p j \<longleftrightarrow> j < i \<and> held_by s p j"
        "j < Suc i \<and> held_by s p j \<and> R \<longleftrightarrow> j < i \<and> held_by s p j \<and> R" for j R
        using False by (auto simp: less_Suc_eq)
      have "passed_on s Q p (Suc i) Q'" using t(3) unfolding passed_on_def e .
      then have "P (Suc i) t" unfolding P_def
        using t nh False by (intro exI [of _ Q']) (auto simp: less_Suc_eq)
      then show ?thesis using nh by (auto simp: held_by_def)
    next
      case True
      let ?Q = "Q'(MutexQ i := tl (Q' (MutexQ i)), ReadyQ := take 1 (Q' (MutexQ i)) @ Q' ReadyQ)"
      obtain u where u: "pass_lock i t = Some u" "linv u ?Q" "kinv_on E u ?Q"
        "case Q' (MutexQ i) of [] \<Rightarrow> m_status (mlocks u i) = UNLOCKED
          | x # _ \<Rightarrow> mlocks u i = (mlocks t i)\<lparr>m_owner := pid (pcbs t x)\<rparr>"
        "\<And>j. j \<noteq> i \<Longrightarrow> mlocks u j = mlocks t j" "\<And>x. same_task (pcbs t x) (pcbs u x)"
        "current_running u = current_running t" "\<And>x. x \<notin> set (Q' (MutexQ i)) \<Longrightarrow> pcbs u x = pcbs t x"
        using pass_lock_result [OF t(1,2), of i] by blast
      have "\<not> held_by u p i"
      proof (cases "Q (MutexQ i)")
        case Nil
        then show ?thesis using u(4) Qi by (simp add: held_by_def)
      next
        case (Cons x xs)
        then have "pid (pcbs s x) \<noteq> p" using others [of x i] by simp
        moreover have "pid (pcbs t x) = pid (pcbs s x)" using same_taskD(1) [OF t(6)] .
        ultimately show ?thesis using u(4) Qi Cons by (simp add: held_by_def)
      qed
      moreover have "lock_passed s Q j (mlocks u j)" if "j < Suc i" "held_by s p j" for j
      proof (cases "j = i")
        case True
        have "m_status (mlocks t i) = LOCKED" using \<open>held_by s p i\<close> hi by (simp add: held_by_def)
        then show ?thesis using u(4) same_taskD(1) [OF t(6)] unfolding True lock_passed_def Qi by (simp split: list.splits)
      next
        case False
        then show ?thesis using t(9) [of j] u(5) [of j] that by (simp add: less_Suc_eq)
      qed
      moreover have "\<not> held_by u p j" if "j < i" for j
        using t(4) [OF that] u(5) [of j] that by (simp add: held_by_def)
      moreover have "passed_on s Q p (Suc i) ?Q"
      proof -
        obtain ws where ws: "Q' ReadyQ = ws @ Q ReadyQ"
          "set ws = {hd (Q (MutexQ j)) |j. j < i \<and> held_by s p j \<and> Q (MutexQ j) \<noteq> []}"
          using t(3) unfolding passed_on_def by blast
        have "{hd (Q (MutexQ j)) |j. j < Suc i \<and> held_by s p j \<and> Q (MutexQ j) \<noteq> []} =
          set ws \<union> (if Q (MutexQ i) = [] then {} else {hd (Q (MutexQ i))})"
          using True unfolding ws(2) less_Suc_eq by (auto split: if_splits)
        then have "set (take 1 (Q (MutexQ i)) @ ws) =
          {hd (Q (MutexQ j)) |j. j < Suc i \<and> held_by s p j \<and> Q (MutexQ j) \<noteq> []}"
          by (cases "Q (MutexQ i)") auto
        then show ?thesis using t(3) ws(1) True Qi unfolding passed_on_def
          by (auto simp: less_Suc_eq intro!: exI [of _ "take 1 (Q (MutexQ i)) @ ws"])
      qed
      moreover have "mlocks u j = mlocks s j" if "Suc i \<le> j \<or> \<not> held_by s p j" for j
        using u(5) [of j] t(5) [of j] that True by (cases "j = i") auto
      moreover have "same_task (pcbs s x) (pcbs u x)" for x by (rule same_task_trans [OF t(6) u(6)])
      moreover have "pcbs u x = pcbs s x" if "in_no_queue Q x" for x
        using u(8) [of x] t(8) [OF that] that Qi by (simp add: in_no_queue_def)
      moreover have "current_running u = current_running s" using u(7) t(7) by simp
      ultimately have "P (Suc i) u" unfolding P_def
        using u(2,3) by (intro exI [of _ ?Q] conjI allI impI) (auto simp: less_Suc_eq)
      then show ?thesis using u(1) True hi by (simp add: held_by_def)
    qed
  qed
  then obtain s' Q' where r: "do_release_locks p s = Some s'" "kinv_on E s' Q'" "linv s' Q'" "passed_on s Q p LOCK_NUM Q'"
    "\<forall>i < LOCK_NUM. held_by s p i \<longrightarrow> lock_passed s Q i (mlocks s' i)" "\<forall>i < LOCK_NUM. \<not> held_by s' p i"
    "\<forall>i. LOCK_NUM \<le> i \<or> \<not> held_by s p i \<longrightarrow> mlocks s' i = mlocks s i" "\<forall>x. same_task (pcbs s x) (pcbs s' x)"
    "current_running s' = current_running s" "\<forall>x. in_no_queue Q x \<longrightarrow> pcbs s' x = pcbs s x"
    unfolding P_def by blast
  moreover have "\<forall>i < LOCK_NUM. if held_by s p i then lock_passed s Q i (mlocks s' i) else mlocks s' i = mlocks s i"
    using r(5,7) by simp
  ultimately show ?thesis by blast
qed

section \<open>Barriers\<close>

lemma release_barrier_queue_result:
  assumes "kinv s Q" "Q (BarrierQ i) = ws"
  shows "\<exists>s'. release_barrier_queue i s = Some s' \<and> kinv s' (Q(BarrierQ i := [], ReadyQ := rev ws @ Q ReadyQ))
    \<and> barriers s' = barriers s \<and> current_running s' = current_running s \<and> mlocks s' = mlocks s"
  using assms
proof (induction ws arbitrary: s Q)
  case Nil
  then have "LIST_IS_EMPTY (Head (BarrierQ i)) (links s)"
    using kq.empty_iff [OF kinvD(1) [OF Nil(1)]] by simp
  moreover have "Q(BarrierQ i := [], ReadyQ := Q ReadyQ) = Q" using Nil by (auto simp: fun_eq_iff)
  ultimately show ?case using Nil by (subst release_barrier_queue.simps) simp
next
  case (Cons p ps)
  note K = kinvD [OF Cons.prems(1)]
  let ?t = "set_status p TASK_READY (do_unblock (PList p) s)"
  let ?Q = "Q(BarrierQ i := ps, ReadyQ := p # Q ReadyQ)"
  have "\<not> LIST_IS_EMPTY (Head (BarrierQ i)) (links s)" "lnext (links s) (Head (BarrierQ i)) = PList p"
    using kq.empty_iff [OF K(1)] queues_front [OF K(1), of "BarrierQ i"] Cons.prems(2)
    by (simp_all add: front_node_def)
  then have unfold: "release_barrier_queue i s = release_barrier_queue i ?t"
    by (subst release_barrier_queue.simps) simp
  have "kinv ?t ?Q" using kinv_unblock [OF Cons.prems(1), of p "BarrierQ i"] Cons.prems(2) by simp
  moreover have "?Q (BarrierQ i) = ps" by simp
  ultimately obtain s' where s': "release_barrier_queue i ?t = Some s'"
    "kinv s' (?Q(BarrierQ i := [], ReadyQ := rev ps @ ?Q ReadyQ))" "barriers s' = barriers ?t"
    "current_running s' = current_running ?t" "mlocks s' = mlocks ?t"
    using Cons.IH by blast
  have eq: "?Q(BarrierQ i := [], ReadyQ := rev ps @ ?Q ReadyQ) = Q(BarrierQ i := [], ReadyQ := rev (p # ps) @ Q ReadyQ)"
    by (auto simp: fun_eq_iff)
  show ?case unfolding unfold by (intro exI [of _ s'] conjI s'(1) s'(2) [unfolded eq]) (simp_all add: s')
qed

text \<open>A barrier in use counts its waiters and waits for fewer than its goal.\<close>

definition barrier_ok :: "'d kernel \<Rightarrow> (head \<Rightarrow> pcb_ref list) \<Rightarrow> nat \<Rightarrow> bool" where
  "barrier_ok s Q i \<longleftrightarrow> b_count (barriers s i) = int (length (Q (BarrierQ i)))
     \<and> b_count (barriers s i) < b_goal (barriers s i)"

lemma barrier_wait_last:
  assumes i: "i < BARRIER_NUM" and k: "kinv s Q" and ok: "barrier_ok s Q i"
    and last: "b_count (barriers s i) + 1 = b_goal (barriers s i)"
  shows "\<exists>s'. do_barrier_wait rt (int i) s = Some s'
    \<and> kinv s' (Q(BarrierQ i := [], ReadyQ := rev (Q (BarrierQ i)) @ Q ReadyQ))
    \<and> barrier_ok s' (Q(BarrierQ i := [], ReadyQ := rev (Q (BarrierQ i)) @ Q ReadyQ)) i
    \<and> current_running s' = current_running s"
proof -
  let ?t = "upd_barrier i (\<lambda>b. b\<lparr>b_count := 0\<rparr>) (upd_barrier i (\<lambda>b. b\<lparr>b_count := b_count b + 1\<rparr>) s)"
  have kt: "kinv ?t Q" by (intro upd_barrier_kinv k)
  obtain s' where s': "release_barrier_queue i ?t = Some s'"
    "kinv s' (Q(BarrierQ i := [], ReadyQ := rev (Q (BarrierQ i)) @ Q ReadyQ))" "barriers s' = barriers ?t"
    "current_running s' = current_running ?t"
    using release_barrier_queue_result [OF kt refl, of i] by blast
  have "do_barrier_wait rt (int i) s = Some s'"
    using i last s'(1) by (simp add: do_barrier_wait_def Let_def)
  moreover have "b_goal (barriers s i) > 0" using ok last by (auto simp: barrier_ok_def)
  ultimately show ?thesis using s' by (simp add: barrier_ok_def)
qed

lemma barrier_wait_early:
  assumes i: "i < BARRIER_NUM" and k: "kinv s Q" and ok: "barrier_ok s Q i"
    and early: "b_count (barriers s i) + 1 < b_goal (barriers s i)"
    and run: "pstatus s (current_running s) = TASK_RUNNING" and ready: "Q ReadyQ = n # ps"
  shows "\<exists>s' Q'. do_barrier_wait rt (int i) s = Some s' \<and> kinv s' Q'
    \<and> Q' (BarrierQ i) = Q (BarrierQ i) @ [current_running s] \<and> barrier_ok s' Q' i
    \<and> current_running s' = n \<and> pstatus s' n = TASK_RUNNING"
proof -
  let ?u = "upd_barrier i (\<lambda>b. b\<lparr>b_count := b_count b + 1\<rparr>) s"
  let ?Q = "Q(BarrierQ i := Q (BarrierQ i) @ [current_running s])" and ?t = "block_current (BarrierQ i) ?u"
  have ku: "kinv ?u Q" by (intro upd_barrier_kinv k)
  have run': "pstatus ?u (current_running ?u) = TASK_RUNNING" using run by simp
  have "Q ReadyQ \<noteq> []" using ready by simp
  note B = block_current_can_schedule [OF ku run' _ this, of "BarrierQ i", simplified]
  have "?Q ReadyQ = n # ps" using ready by simp
  then have hd: "sched_next rt ?t ?Q = n" by (rule sched_next_hd)
  obtain s' where s': "do_scheduler rt ?t = Some s'" "kinv s' (sched_queues rt ?t ?Q)"
      "current_running s' = n" "pstatus s' n = TASK_RUNNING" "sched_frame ?t s'"
    using do_scheduler_result [OF B, of rt] unfolding hd by blast
  have b: "barriers s' = barriers ?u" using s'(5) by (simp add: sched_frame_def block_current_def)
  have "do_barrier_wait rt (int i) s = Some s'"
    using i early s'(1) by (simp add: do_barrier_wait_def Let_def block_current_def)
  moreover have "barrier_ok s' (sched_queues rt ?t ?Q) i"
    using ok early unfolding barrier_ok_def b by (simp add: sched_queues_other)
  ultimately show ?thesis using s' by (intro exI [of _ s'] exI [of _ "sched_queues rt ?t ?Q"])
    (simp add: sched_queues_other)
qed

section \<open>Condition variables\<close>

text \<open>A READY task at the head of the ready queue moves to the tail of a wait queue.\<close>

lemma kinv_ready_block:
  assumes k: "kinv s Q" and r: "Q ReadyQ = p # ps" and q: "q \<noteq> ReadyQ"
  shows "kinv (do_block p q (set_status p TASK_BLOCKED s)) (Q(ReadyQ := ps, q := Q q @ [p]))"
  unfolding kinv_on_def
proof (intro conjI ballI allI impI)
  note K = kinvD [OF k]
  let ?t = "do_block p q (set_status p TASK_BLOCKED s)" and ?Q = "Q(ReadyQ := ps, q := Q q @ [p])"
  have p: "p \<in> set (Q ReadyQ)" using r by simp
  have "remove1 p (Q ReadyQ) = ps" using r by simp
  then show "queues (links ?t) ?Q" using kq.move_tail [OF K(1) p, of q] q by simp
  fix x assume x: "x \<in> set (?Q ReadyQ)"
  have "x \<noteq> p" using x q r kq.repr_distinct [OF K(1), of ReadyQ] by auto
  then show "pstatus ?t x = TASK_READY" using x q r K(2) by simp
next
  note K = kinvD [OF k]
  let ?t = "do_block p q (set_status p TASK_BLOCKED s)" and ?Q = "Q(ReadyQ := ps, q := Q q @ [p])"
  fix x' x assume "x' \<noteq> ReadyQ" "x \<in> set (?Q x')"
  then show "pstatus ?t x = TASK_BLOCKED" using K(3) by (auto split: if_splits)
next
  note K = kinvD [OF k]
  let ?t = "do_block p q (set_status p TASK_BLOCKED s)" and ?Q = "Q(ReadyQ := ps, q := Q q @ [p])"
  have p: "p \<in> set (Q ReadyQ)" using r by simp
  fix x assume x: "in_no_queue ?Q x" "pstatus ?t x \<noteq> TASK_EXITED"
  have xq: "x \<notin> set (?Q r)" for r using x(1) by (simp add: in_no_queue_def)
  have xp: "x \<noteq> p" using xq [of q] by auto
  have xn: "x \<notin> set (Q r')" for r'
    using xq [of r'] xq [of ReadyQ] xp r q by (cases "r' = q"; cases "r' = ReadyQ") auto
  then have xn': "in_no_queue Q x" by (simp add: in_no_queue_def)
  then show "pstatus ?t x = TASK_RUNNING" using x(2) xp K(4) by auto
  have d: "detached (links s) x" using x(2) xp xn' K(5) by auto
  have "\<forall>r. x \<notin> set (Q r)" using xn by simp
  from kq.move_free(1) [OF K(1) p this d] show "detached (links ?t) x" by simp
qed

text \<open>One waiter after \<open>do_unblock\<close> and the attempt to take its mutex.\<close>

definition wake_waiter :: "pcb_ref \<Rightarrow> 'd kernel \<Rightarrow> 'd kernel option" where
  "wake_waiter p s = (let s2 = set_status p TASK_READY (do_unblock (PList p) s)
     in do_mutex_lock_acquire_non_sched p (mutex_idx (pcbs s2 p)) s2)"

lemma wake_waiter_result:
  assumes k: "kinv s Q" and l: "linv s Q" and c: "Q (CondQ c) = p # ps"
    and m: "mutex_idx (pcbs s p) = int i" "i < LOCK_NUM"
  shows "\<exists>s'. wake_waiter p s = Some s' \<and>
    (if m_status (mlocks s i) = UNLOCKED
     then kinv s' (Q(CondQ c := ps, ReadyQ := p # Q ReadyQ))
       \<and> linv s' (Q(CondQ c := ps, ReadyQ := p # Q ReadyQ))
       \<and> locked_by s' i (pid (pcbs s p)) \<and> (\<forall>j. j \<noteq> i \<longrightarrow> mlocks s' j = mlocks s j)
     else kinv s' (Q(CondQ c := ps, MutexQ i := Q (MutexQ i) @ [p]))
       \<and> linv s' (Q(CondQ c := ps, MutexQ i := Q (MutexQ i) @ [p])) \<and> mlocks s' = mlocks s)
    \<and> current_running s' = current_running s \<and> (\<forall>x. same_task (pcbs s x) (pcbs s' x))"
proof -
  let ?t = "set_status p TASK_READY (do_unblock (PList p) s)"
  let ?Q = "Q(CondQ c := ps, ReadyQ := p # Q ReadyQ)"
  have kt: "kinv ?t ?Q" using kinv_unblock [OF k, of p "CondQ c"] c by simp
  show ?thesis
  proof (cases "m_status (mlocks s i)")
    case UNLOCKED
    let ?u = "upd_mlock i (\<lambda>m. m\<lparr>m_status := LOCKED, m_owner := pid (pcbs s p)\<rparr>) ?t"
    have "wake_waiter p s = Some ?u"
      using m UNLOCKED by (simp add: wake_waiter_def do_mutex_lock_acquire_non_sched_def Let_def)
    moreover have "kinv ?u ?Q" by (rule upd_mlock_kinv [OF kt])
    moreover have "linv ?u ?Q" using l by (auto simp: linv_def)
    ultimately show ?thesis using UNLOCKED by (simp add: locked_by_def)
  next
    case LOCKED
    let ?u = "do_block p (MutexQ i) (set_status p TASK_BLOCKED ?t)"
    have "wake_waiter p s = Some ?u"
      using m LOCKED by (simp add: wake_waiter_def do_mutex_lock_acquire_non_sched_def Let_def)
    moreover have "kinv ?u (?Q(ReadyQ := Q ReadyQ, MutexQ i := ?Q (MutexQ i) @ [p]))"
      by (rule kinv_ready_block [OF kt]) simp_all
    moreover have "?Q(ReadyQ := Q ReadyQ, MutexQ i := ?Q (MutexQ i) @ [p]) =
        Q(CondQ c := ps, MutexQ i := Q (MutexQ i) @ [p])" by (auto simp: fun_eq_iff)
    ultimately have "kinv ?u (Q(CondQ c := ps, MutexQ i := Q (MutexQ i) @ [p]))" by metis
    moreover have "linv ?u (Q(CondQ c := ps, MutexQ i := Q (MutexQ i) @ [p]))"
      using l LOCKED by (auto simp: linv_def)
    ultimately show ?thesis using LOCKED \<open>wake_waiter p s = Some ?u\<close>
      by (intro exI [of _ ?u]) simp
  qed
qed

lemma condition_signal_unfold:
  assumes "c < CONDITION_NUM" "kinv s Q" "Q (CondQ c) = p # ps"
  shows "do_condition_signal (int c) s = wake_waiter p s"
  using assms(1) queues_front [OF kinvD(1) [OF assms(2)], of "CondQ c"] assms(3)
  by (simp add: do_condition_signal_def wake_waiter_def front_node_def Let_def)

lemma condition_signal_empty:
  assumes "c < CONDITION_NUM" "kinv s Q" "Q (CondQ c) = []"
  shows "do_condition_signal (int c) s = Some s"
  using assms(1) queues_front [OF kinvD(1) [OF assms(2)], of "CondQ c"] assms(3)
  by (simp add: do_condition_signal_def front_node_def)

text \<open>A broadcast while the mutex is held queues all waiters on it, in order.\<close>

lemma condition_broadcast_loop_result:
  assumes "kinv s Q" "linv s Q" "Q (CondQ c) = ws" "i < LOCK_NUM" "m_status (mlocks s i) = LOCKED"
    and "\<And>x. x \<in> set ws \<Longrightarrow> mutex_idx (pcbs s x) = int i"
  shows "\<exists>s'. condition_broadcast_loop c (front_node (CondQ c) ws) s = Some s'
    \<and> kinv s' (Q(CondQ c := [], MutexQ i := Q (MutexQ i) @ ws))
    \<and> linv s' (Q(CondQ c := [], MutexQ i := Q (MutexQ i) @ ws))
    \<and> mlocks s' = mlocks s \<and> current_running s' = current_running s"
  using assms
proof (induction ws arbitrary: s Q)
  case Nil
  then have "Q(CondQ c := [], MutexQ i := Q (MutexQ i)) = Q" by (auto simp: fun_eq_iff)
  then show ?case using Nil by (subst condition_broadcast_loop.simps) (simp add: front_node_def)
next
  case (Cons p ps)
  let ?Q = "Q(CondQ c := ps, MutexQ i := Q (MutexQ i) @ [p])"
  obtain t where t: "wake_waiter p s = Some t" "kinv t ?Q" "linv t ?Q" "mlocks t = mlocks s"
    "current_running t = current_running s" "\<And>x. same_task (pcbs s x) (pcbs t x)"
    using wake_waiter_result [OF Cons.prems(1-3) _ Cons.prems(4)] Cons.prems(5,6) by fastforce
  have nx: "lnext (links t) (Head (CondQ c)) = front_node (CondQ c) ps"
    using queues_front [OF kinvD(1) [OF t(2)], of "CondQ c"] by simp
  have unfold: "condition_broadcast_loop c (front_node (CondQ c) (p # ps)) s =
      condition_broadcast_loop c (front_node (CondQ c) ps) t"
    using t(1) nx by (subst condition_broadcast_loop.simps)
      (simp add: front_node_def [of _ "p # ps"] wake_waiter_def)
  have "mutex_idx (pcbs t x) = int i" if "x \<in> set ps" for x
    using same_taskD(5) [OF t(6)] Cons.prems(6) that by simp
  moreover have "?Q (CondQ c) = ps" "m_status (mlocks t i) = LOCKED" using t(4) Cons.prems(5) by simp_all
  ultimately obtain s' where s': "condition_broadcast_loop c (front_node (CondQ c) ps) t = Some s'"
    "kinv s' (?Q(CondQ c := [], MutexQ i := ?Q (MutexQ i) @ ps))"
    "linv s' (?Q(CondQ c := [], MutexQ i := ?Q (MutexQ i) @ ps))" "mlocks s' = mlocks t"
    "current_running s' = current_running t"
    using Cons.IH [OF t(2,3) _ Cons.prems(4)] by blast
  have eq: "?Q(CondQ c := [], MutexQ i := ?Q (MutexQ i) @ ps) = Q(CondQ c := [], MutexQ i := Q (MutexQ i) @ p # ps)"
    by (auto simp: fun_eq_iff)
  show ?case unfolding unfold
    by (intro exI [of _ s'] conjI s'(1) s'(2,3) [unfolded eq]) (simp_all add: s' t)
qed

lemma condition_broadcast_result:
  assumes "c < CONDITION_NUM" "kinv s Q" "linv s Q" "i < LOCK_NUM" "m_status (mlocks s i) = LOCKED"
    and "\<And>x. x \<in> set (Q (CondQ c)) \<Longrightarrow> mutex_idx (pcbs s x) = int i"
  shows "\<exists>s'. do_condition_broadcast (int c) s = Some s'
    \<and> kinv s' (Q(CondQ c := [], MutexQ i := Q (MutexQ i) @ Q (CondQ c)))
    \<and> linv s' (Q(CondQ c := [], MutexQ i := Q (MutexQ i) @ Q (CondQ c)))
    \<and> mlocks s' = mlocks s \<and> current_running s' = current_running s"
  using condition_broadcast_loop_result [OF assms(2,3) refl assms(4,5,6)] assms(1)
    queues_front [OF kinvD(1) [OF assms(2)], of "CondQ c"]
  by (simp add: do_condition_broadcast_def)

end
