(* ===== verification/Mbox.thy ===== *)
theory Mbox
  imports Lock
begin

text \<open>
  The mailboxes of \<open>kernel/locking/lock.c\<close>: named byte queues of at most 128 bytes. A send that
  does not fit and a receive of more than there is block the caller on the mailbox; the
  transfer is then made by the operation that makes it possible, through the buffer address
  saved in the waiter's control block.

  User memory is read and written through the address space installed on the hart,
  \<open>umem s (csr_satp s (hart s))\<close>, also for a buffer of another process. Page faults
  of these accesses are not modelled. \<open>msg_length\<close> is an \<open>int\<close> that \<open>memcpy\<close> takes as
  \<open>uint32_t\<close>; a negative one makes the copy run out of the mailbox, which is \<^term>\<open>None\<close>. The tests for room
  add two \<open>int\<close>s, and the sum wraps (\<open>int_add\<close>): a message of nearly \<open>2 ^ 31\<close> bytes passes the test when the mailbox
  is not empty, and the copy then runs out of it as well. Behind a copy that has not, the sums and differences of the
  lengths are within the buffer's size.
\<close>

section \<open>Copies between a mailbox and user memory\<close>

definition user_view :: "'d kernel \<Rightarrow> u64 \<Rightarrow> u8" where
  "user_view s = umem s (csr_satp s (hart s))"

definition user_region :: "'d kernel \<Rightarrow> u64 \<Rightarrow> nat \<Rightarrow> region" where
  "user_region s a n = \<lparr>rsize = n, rbyte = (\<lambda>k. user_view s (a + of_nat k))\<rparr>"

definition copy_to_user :: "u64 \<Rightarrow> region \<Rightarrow> nat \<Rightarrow> 'd kernel \<Rightarrow> 'd kernel option" where
  "copy_to_user a r n s =
     (if n \<le> rsize r
      then Some (s\<lparr>umem := (umem s)(csr_satp s (hart s) :=
        (\<lambda>x. if unat (x - a) < n then rbyte r (unat (x - a)) else user_view s x))\<rparr>)
      else None)"

definition upd_mbox :: "nat \<Rightarrow> (mailbox_t \<Rightarrow> mailbox_t) \<Rightarrow> 'd kernel \<Rightarrow> 'd kernel" where
  "upd_mbox i f s = s\<lparr>mboxes := (mboxes s)(i := f (mboxes s i))\<rparr>"

text \<open>Append \<open>n\<close> bytes from user memory.\<close>

definition mbox_put :: "nat \<Rightarrow> u64 \<Rightarrow> int \<Rightarrow> 'd kernel \<Rightarrow> 'd kernel option" where
  "mbox_put i msg n s = do {
     off \<leftarrow> byte_offset (mb_length (mboxes s i));
     buf \<leftarrow> memcpy (mb_buffer (mboxes s i)) off (user_region s msg (memcpy_len n)) 0 (memcpy_len n);
     Some (upd_mbox i (\<lambda>m. m\<lparr>mb_buffer := buf, mb_length := mb_length m + n\<rparr>) s) }"

text \<open>Deliver the first \<open>n\<close> bytes to user memory and move the rest to the front.\<close>

definition mbox_take :: "nat \<Rightarrow> u64 \<Rightarrow> int \<Rightarrow> 'd kernel \<Rightarrow> 'd kernel option" where
  "mbox_take i dest n s = do {
     s1 \<leftarrow> copy_to_user dest (mb_buffer (mboxes s i)) (memcpy_len n) s;
     let s2 = upd_mbox i (\<lambda>m. m\<lparr>mb_length := mb_length m - n\<rparr>) s1;
     off \<leftarrow> byte_offset n;
     buf \<leftarrow> memcpy_within (mb_buffer (mboxes s2 i)) 0 off (memcpy_len (mb_length (mboxes s2 i)));
     Some (upd_mbox i (\<lambda>m. m\<lparr>mb_buffer := buf\<rparr>) s2) }"

section \<open>Operations\<close>

definition init_mbox :: "'d kernel \<Rightarrow> 'd kernel option" where
  "init_mbox s = for_each (\<lambda>i s. do {
     nm \<leftarrow> store (mb_name (mboxes s i)) 0 0;
     Some (init_head (MboxQ i)
       (upd_mbox i (\<lambda>m. m\<lparr>mb_length := 0, mb_name := nm, mb_ref_count := 0\<rparr>) s)) }) [0..<MBOX_NUM] s"

definition do_mbox_open :: "region \<Rightarrow> 'd kernel \<Rightarrow> (int \<times> 'd kernel) option" where
  "do_mbox_open name s = do {
     r \<leftarrow> find_fail (\<lambda>i. map_option (\<lambda>c. c = 0) (strcmp (mb_name (mboxes s i)) 0 name 0)) 0 MBOX_NUM;
     case r of
       Some i \<Rightarrow> Some (int i, upd_mbox i (\<lambda>m. m\<lparr>mb_ref_count := mb_ref_count m + 1\<rparr>) s)
     | None \<Rightarrow> do {
         r' \<leftarrow> find_fail (\<lambda>i. map_option (\<lambda>c. c = 0) (load (mb_name (mboxes s i)) 0)) 0 MBOX_NUM;
         case r' of
           Some i \<Rightarrow> do {
             nm \<leftarrow> strcpy (mb_name (mboxes s i)) 0 name 0;
             Some (int i, upd_mbox i (\<lambda>m. m\<lparr>mb_name := nm, mb_ref_count := mb_ref_count m + 1\<rparr>) s) }
         | None \<Rightarrow> Some (-1, s) } }"

definition do_mbox_close :: "int \<Rightarrow> 'd kernel \<Rightarrow> 'd kernel option" where
  "do_mbox_close mbox_idx s = do {
     i \<leftarrow> index mbox_idx MBOX_NUM;
     let s1 = upd_mbox i (\<lambda>m. m\<lparr>mb_ref_count := mb_ref_count m - 1\<rparr>) s;
     if mb_ref_count (mboxes s1 i) = 0
     then do {
       nm \<leftarrow> store (mb_name (mboxes s1 i)) 0 0;
       Some (init_head (MboxQ i) (upd_mbox i (\<lambda>m. m\<lparr>mb_length := 0, mb_name := nm\<rparr>) s1)) }
     else Some s1 }"

definition finish_waiter :: "pcb_ref \<Rightarrow> 'd kernel \<Rightarrow> 'd kernel" where
  "finish_waiter p s =
     set_status p TASK_READY (do_unblock (PList p) (upd_pcb p (\<lambda>t. t\<lparr>mbox_rw := -1\<rparr>) s))"

definition serve_reader :: "nat \<Rightarrow> pcb_ref \<Rightarrow> 'd kernel \<Rightarrow> 'd kernel option" where
  "serve_reader i p s =
     (if mbox_rw (pcbs s p) = 0 \<and> mb_length (mboxes s i) \<ge> mbox_size (pcbs s p)
      then do { s1 \<leftarrow> mbox_take i (mbox_buf (pcbs s p)) (mbox_size (pcbs s p)) s; Some (finish_waiter p s1) }
      else Some s)"

definition serve_writer :: "nat \<Rightarrow> pcb_ref \<Rightarrow> 'd kernel \<Rightarrow> 'd kernel option" where
  "serve_writer i p s =
     (if mbox_rw (pcbs s p) = 1 \<and> int_add (mb_length (mboxes s i)) (mbox_size (pcbs s p)) \<le> int MAX_MBOX_LENGTH
      then do { s1 \<leftarrow> mbox_put i (mbox_buf (pcbs s p)) (mbox_size (pcbs s p)) s; Some (finish_waiter p s1) }
      else Some s)"

text \<open>The loop over the waiters; the next node is read before the current one is served.\<close>

partial_function (option) serve_waiters ::
  "(pcb_ref \<Rightarrow> 'd kernel \<Rightarrow> 'd kernel option) \<Rightarrow> nat \<Rightarrow> node \<Rightarrow> 'd kernel \<Rightarrow> 'd kernel option" where
  "serve_waiters serve i node s =
     (if node \<noteq> Head (MboxQ i)
      then do {
        let temp = lnext (links s) node;
        p \<leftarrow> NODE_TO_PCB node;
        s' \<leftarrow> serve p s;
        serve_waiters serve i temp s' }
      else Some s)"

definition mbox_wait :: "(nat \<Rightarrow> u64) \<Rightarrow> nat \<Rightarrow> u64 \<Rightarrow> int \<Rightarrow> int \<Rightarrow> 'd kernel \<Rightarrow> 'd kernel option" where
  "mbox_wait rt i msg n rw s =
     (let cur = current_running s;
          s1 = do_block cur (MboxQ i) (set_status cur TASK_BLOCKED s);
          s2 = upd_pcb cur (\<lambda>t. t\<lparr>mbox_buf := msg, mbox_size := n, mbox_rw := rw\<rparr>) s1;
          frame = kernel_sp (pcbs s2 cur);
          s3 = s2\<lparr>frames := (frames s2)(frame := (frames s2 frame)
                 \<lparr>regs := (regs (frames s2 frame))(10 := word_of_int n)\<rparr>)\<rparr>
      in do_scheduler rt s3)"

definition do_mbox_send :: "(nat \<Rightarrow> u64) \<Rightarrow> int \<Rightarrow> u64 \<Rightarrow> int \<Rightarrow> 'd kernel \<Rightarrow> (int \<times> 'd kernel) option" where
  "do_mbox_send rt mbox_idx msg msg_length s = do {
     i \<leftarrow> index mbox_idx MBOX_NUM;
     s' \<leftarrow> (if int_add (mb_length (mboxes s i)) msg_length \<le> int MAX_MBOX_LENGTH
       then do {
         s1 \<leftarrow> mbox_put i msg msg_length s;
         serve_waiters (serve_reader i) i (lnext (links s1) (Head (MboxQ i))) s1 }
       else mbox_wait rt i msg msg_length 1 s);
     Some (msg_length, s') }"

definition do_mbox_recv :: "(nat \<Rightarrow> u64) \<Rightarrow> int \<Rightarrow> u64 \<Rightarrow> int \<Rightarrow> 'd kernel \<Rightarrow> (int \<times> 'd kernel) option" where
  "do_mbox_recv rt mbox_idx msg msg_length s = do {
     i \<leftarrow> index mbox_idx MBOX_NUM;
     s' \<leftarrow> (if mb_length (mboxes s i) \<ge> msg_length
       then do {
         s1 \<leftarrow> mbox_take i msg msg_length s;
         serve_waiters (serve_writer i) i (lnext (links s1) (Head (MboxQ i))) s1 }
       else mbox_wait rt i msg msg_length 0 s);
     Some (msg_length, s') }"

section \<open>Contents\<close>

definition mbox_bytes :: "'d kernel \<Rightarrow> nat \<Rightarrow> u8 list" where
  "mbox_bytes s i = map (rbyte (mb_buffer (mboxes s i))) [0..<nat (mb_length (mboxes s i))]"

definition mbox_ok :: "'d kernel \<Rightarrow> nat \<Rightarrow> bool" where
  "mbox_ok s i \<longleftrightarrow> rsize (mb_buffer (mboxes s i)) = MAX_MBOX_LENGTH
     \<and> 0 \<le> mb_length (mboxes s i) \<and> mb_length (mboxes s i) \<le> int MAX_MBOX_LENGTH"

text \<open>A length for which the tests for room do not wrap, whatever the mailbox holds.\<close>

definition message_size :: "int \<Rightarrow> bool" where
  "message_size n \<longleftrightarrow> 0 \<le> n \<and> n < 2 ^ 31 - int MAX_MBOX_LENGTH"

lemma message_sizeD: "message_size n \<Longrightarrow> 0 \<le> n"
  by (simp add: message_size_def)

lemma room_test: "mbox_ok s i \<Longrightarrow> message_size n \<Longrightarrow> int_add (mb_length (mboxes s i)) n = mb_length (mboxes s i) + n"
  by (rule int_add_small) (simp_all add: mbox_ok_def message_size_def MAX_MBOX_LENGTH_def)

lemma room_fits:
  "mbox_ok s i \<Longrightarrow> 0 \<le> n \<Longrightarrow> mb_length (mboxes s i) + n \<le> int MAX_MBOX_LENGTH \<Longrightarrow> message_size n"
  by (simp add: mbox_ok_def message_size_def MAX_MBOX_LENGTH_def)

definition user_bytes :: "'d kernel \<Rightarrow> u64 \<Rightarrow> nat \<Rightarrow> u8 list" where
  "user_bytes s a n = map (\<lambda>k. user_view s (a + of_nat k)) [0..<n]"

definition deliver :: "u64 \<Rightarrow> u8 list \<Rightarrow> (u64 \<Rightarrow> u8) \<Rightarrow> u64 \<Rightarrow> u8" where
  "deliver a bs um = (\<lambda>x. if unat (x - a) < length bs then bs ! unat (x - a) else um x)"

lemma upd_mbox_simps [simp]:
  "links (upd_mbox i f s) = links s" "pcbs (upd_mbox i f s) = pcbs s"
  "mboxes (upd_mbox i f s) = (mboxes s)(i := f (mboxes s i))" "umem (upd_mbox i f s) = umem s"
  "current_running (upd_mbox i f s) = current_running s" "hart (upd_mbox i f s) = hart s"
  "csr_satp (upd_mbox i f s) = csr_satp s" "mlocks (upd_mbox i f s) = mlocks s"
  by (simp_all add: upd_mbox_def current_running_def)

lemma mbox_put_overrun:
  assumes "mbox_ok s i" "0 \<le> n" "n < 2 ^ 31" "int MAX_MBOX_LENGTH < mb_length (mboxes s i) + n"
  shows "mbox_put i msg n s = None"
proof -
  have "memcpy_len n = nat n" using assms(2,3) by (intro memcpy_len_nat) simp_all
  moreover have "memcpy (mb_buffer (mboxes s i)) (nat (mb_length (mboxes s i))) src 0 (nat n) = None" for src
    using assms by (intro memcpy_overrun) (auto simp: mbox_ok_def)
  ultimately show ?thesis using assms(1) by (simp add: mbox_put_def byte_offset_def mbox_ok_def)
qed

lemma mbox_put_result:
  assumes ok: "mbox_ok s i" and n: "0 \<le> n" "mb_length (mboxes s i) + n \<le> int MAX_MBOX_LENGTH"
  shows "\<exists>s'. mbox_put i msg n s = Some s' \<and> mbox_ok s' i
    \<and> mbox_bytes s' i = mbox_bytes s i @ user_bytes s msg (nat n)
    \<and> mb_length (mboxes s' i) = mb_length (mboxes s i) + n
    \<and> s' = s\<lparr>mboxes := (mboxes s)(i := mboxes s' i)\<rparr>"
proof -
  let ?m = "mboxes s i" and ?u = "user_region s msg (nat n)"
  have len: "memcpy_len n = nat n" using ok n by (intro memcpy_len_nat) (auto simp: mbox_ok_def MAX_MBOX_LENGTH_def)
  have cp: "memcpy (mb_buffer ?m) (nat (mb_length ?m)) ?u 0 (nat n) =
      Some ((mb_buffer ?m)\<lparr>rbyte := blit (rbyte (mb_buffer ?m)) (nat (mb_length ?m)) (nat n) (\<lambda>k. rbyte ?u (0 + k))\<rparr>)"
    (is "_ = Some ?buf")
    using ok n by (intro memcpy_eq) (auto simp: mbox_ok_def user_region_def)
  let ?s' = "upd_mbox i (\<lambda>m. m\<lparr>mb_buffer := ?buf, mb_length := mb_length m + n\<rparr>) s"
  have run: "mbox_put i msg n s = Some ?s'"
    using ok by (simp add: mbox_put_def byte_offset_def mbox_ok_def len cp [simplified])
  have add: "nat (mb_length ?m + n) = nat (mb_length ?m) + nat n" using ok n by (auto simp: mbox_ok_def)
  have "mbox_bytes ?s' i = mbox_bytes s i @ user_bytes s msg (nat n)"
    by (simp add: mbox_bytes_def user_bytes_def add user_region_def map_blit_append)
  then show ?thesis using run ok n by (intro exI [of _ ?s']) (simp add: mbox_ok_def upd_mbox_def)
qed

lemma mbox_take_result:
  assumes ok: "mbox_ok s i" and n: "0 \<le> n" "n \<le> mb_length (mboxes s i)"
  shows "\<exists>s'. mbox_take i dest n s = Some s' \<and> mbox_ok s' i
    \<and> mbox_bytes s' i = drop (nat n) (mbox_bytes s i)
    \<and> mb_length (mboxes s' i) = mb_length (mboxes s i) - n
    \<and> user_view s' = deliver dest (take (nat n) (mbox_bytes s i)) (user_view s)
    \<and> s' = s\<lparr>mboxes := (mboxes s)(i := mboxes s' i), umem := (umem s)(csr_satp s (hart s) := user_view s')\<rparr>"
proof -
  let ?m = "mboxes s i"
  let ?r = "mb_length ?m - n"
  have small: "mb_length ?m \<le> 128" using ok by (simp add: mbox_ok_def MAX_MBOX_LENGTH_def)
  have len: "memcpy_len n = nat n" "memcpy_len ?r = nat ?r"
    using n small by (auto intro!: memcpy_len_nat)
  have fits: "nat n \<le> rsize (mb_buffer ?m)" "nat n + nat ?r \<le> rsize (mb_buffer ?m)"
    using ok n by (auto simp: mbox_ok_def)
  let ?um = "\<lambda>x. if unat (x - dest) < nat n then rbyte (mb_buffer ?m) (unat (x - dest)) else user_view s x"
  let ?buf = "(mb_buffer ?m)\<lparr>rbyte := blit (rbyte (mb_buffer ?m)) 0 (nat ?r) (\<lambda>k. rbyte (mb_buffer ?m) (nat n + k))\<rparr>"
  let ?s' = "s\<lparr>mboxes := (mboxes s)(i := ?m\<lparr>mb_length := ?r, mb_buffer := ?buf\<rparr>),
    umem := (umem s)(csr_satp s (hart s) := ?um)\<rparr>"
  have run: "mbox_take i dest n s = Some ?s'"
    using n fits memcpy_within_eq [of 0 "nat n" "nat ?r" "mb_buffer ?m"]
    by (simp add: mbox_take_def copy_to_user_def byte_offset_def len upd_mbox_def)
  have "mbox_bytes ?s' i = drop (nat n) (mbox_bytes s i)"
    using n by (auto simp: mbox_bytes_def list_eq_iff_nth_eq blit_def nat_diff_distrib)
  moreover have uv: "user_view ?s' = ?um" by (simp add: user_view_def)
  moreover have "?um = deliver dest (take (nat n) (mbox_bytes s i)) (user_view s)"
    using n by (auto simp: fun_eq_iff deliver_def mbox_bytes_def)
  ultimately show ?thesis using run ok n by (intro exI [of _ ?s']) (simp add: mbox_ok_def)
qed

section \<open>Serving the waiters\<close>

text \<open>
  What a send does for the readers that wait, in queue order: a reader whose request can be
  met takes the front of the bytes into its buffer. The result lists the readers served, the
  bytes left and user memory; \<open>writers_pass\<close> is the counterpart for a receive.
\<close>

fun readers_pass :: "(pcb_ref \<Rightarrow> pcb_t) \<Rightarrow> pcb_ref list \<Rightarrow> u8 list \<Rightarrow> (u64 \<Rightarrow> u8) \<Rightarrow>
    pcb_ref list \<times> u8 list \<times> (u64 \<Rightarrow> u8)" where
  "readers_pass T [] bs um = ([], bs, um)"
| "readers_pass T (p # ps) bs um =
     (if mbox_rw (T p) = 0 \<and> nat (mbox_size (T p)) \<le> length bs
      then (let (served, r) = readers_pass T ps (drop (nat (mbox_size (T p))) bs)
                (deliver (mbox_buf (T p)) (take (nat (mbox_size (T p))) bs) um)
            in (p # served, r))
      else readers_pass T ps bs um)"

fun writers_pass :: "(pcb_ref \<Rightarrow> pcb_t) \<Rightarrow> (u64 \<Rightarrow> u8) \<Rightarrow> pcb_ref list \<Rightarrow> u8 list \<Rightarrow> pcb_ref list \<times> u8 list" where
  "writers_pass T um [] bs = ([], bs)"
| "writers_pass T um (p # ps) bs =
     (if mbox_rw (T p) = 1 \<and> length bs + nat (mbox_size (T p)) \<le> MAX_MBOX_LENGTH
      then (let (served, r) = writers_pass T um ps
                (bs @ map (\<lambda>k. um (mbox_buf (T p) + of_nat k)) [0..<nat (mbox_size (T p))])
            in (p # served, r))
      else writers_pass T um ps bs)"

lemma readers_pass_cong:
  "(\<And>p. p \<in> set ps \<Longrightarrow> T p = T' p) \<Longrightarrow> readers_pass T ps bs um = readers_pass T' ps bs um"
  by (induction ps arbitrary: bs um) auto

lemma writers_pass_cong:
  "(\<And>p. p \<in> set ps \<Longrightarrow> T p = T' p) \<Longrightarrow> writers_pass T um ps bs = writers_pass T' um ps bs"
  by (induction ps arbitrary: bs) auto

lemma readers_pass_served: "fst (readers_pass T ps bs um) = served \<Longrightarrow> set served \<subseteq> set ps"
  by (induction ps arbitrary: bs um served) (fastforce simp: Let_def split_beta split: if_splits)+

lemma writers_pass_served: "fst (writers_pass T um ps bs) = served \<Longrightarrow> set served \<subseteq> set ps"
  by (induction ps arbitrary: bs served) (fastforce simp: Let_def split_beta split: if_splits)+

lemma kinv_finish_waiter:
  assumes k: "kinv s Q" and p: "p \<in> set (Q q)" and q: "q \<noteq> ReadyQ"
  shows "kinv (finish_waiter p s) (Q(q := remove1 p (Q q), ReadyQ := p # Q ReadyQ))"
proof -
  let ?u = "upd_pcb p (\<lambda>t. t\<lparr>mbox_rw := -1\<rparr>) s"
  have "kinv ?u Q" by (rule kinv_change [OF k]) simp_all
  from kinv_unblock [OF this p q] show ?thesis by (simp add: finish_waiter_def)
qed

lemma finish_waiter_simps [simp]:
  "mboxes (finish_waiter p s) = mboxes s" "umem (finish_waiter p s) = umem s"
  "hart (finish_waiter p s) = hart s" "csr_satp (finish_waiter p s) = csr_satp s"
  "current_running (finish_waiter p s) = current_running s" "mlocks (finish_waiter p s) = mlocks s"
  by (simp_all add: finish_waiter_def do_unblock_def)

lemma finish_waiter_pcbs: "x \<noteq> p \<Longrightarrow> pcbs (finish_waiter p s) x = pcbs s x"
  by (simp add: finish_waiter_def)

lemma mbox_length_bytes: "mbox_ok s i \<Longrightarrow> mb_length (mboxes s i) = int (length (mbox_bytes s i))"
  by (simp add: mbox_bytes_def mbox_ok_def)

lemma serve_reader_yes:
  assumes ok: "mbox_ok s i" and rw: "mbox_rw (pcbs s p) = 0" and size: "0 \<le> mbox_size (pcbs s p)"
    and enough: "nat (mbox_size (pcbs s p)) \<le> length (mbox_bytes s i)"
    and k: "kinv s Q" and p: "p \<in> set (Q (MboxQ i))"
  shows "\<exists>s'. serve_reader i p s = Some s'
    \<and> kinv s' (Q(MboxQ i := remove1 p (Q (MboxQ i)), ReadyQ := p # Q ReadyQ)) \<and> mbox_ok s' i
    \<and> mbox_bytes s' i = drop (nat (mbox_size (pcbs s p))) (mbox_bytes s i)
    \<and> user_view s' = deliver (mbox_buf (pcbs s p)) (take (nat (mbox_size (pcbs s p))) (mbox_bytes s i)) (user_view s)
    \<and> (\<forall>x. x \<noteq> p \<longrightarrow> pcbs s' x = pcbs s x) \<and> current_running s' = current_running s"
proof -
  let ?n = "mbox_size (pcbs s p)" and ?b = "mbox_buf (pcbs s p)"
  have le: "?n \<le> mb_length (mboxes s i)" using mbox_length_bytes [OF ok] enough size by simp
  obtain t where t: "mbox_take i ?b ?n s = Some t" "mbox_ok t i"
    "mbox_bytes t i = drop (nat ?n) (mbox_bytes s i)"
    "user_view t = deliver ?b (take (nat ?n) (mbox_bytes s i)) (user_view s)"
    "t = s\<lparr>mboxes := (mboxes s)(i := mboxes t i), umem := (umem s)(csr_satp s (hart s) := user_view t)\<rparr>"
    using mbox_take_result [OF ok size le, of ?b] by blast
  have f: "links t = links s" "pcbs t = pcbs s" "current_running t = current_running s"
    by (subst t(5), simp add: current_running_def)+
  have kt: "kinv t Q" by (rule kinv_change [OF k]) (simp_all add: f)
  have "serve_reader i p s = Some (finish_waiter p t)" using rw le t(1) by (simp add: serve_reader_def)
  moreover have "mbox_ok (finish_waiter p t) i" using t(2) by (simp add: mbox_ok_def)
  moreover have "mbox_bytes (finish_waiter p t) i = mbox_bytes t i" by (simp add: mbox_bytes_def)
  moreover have "user_view (finish_waiter p t) = user_view t" by (simp add: user_view_def)
  ultimately show ?thesis
    using kinv_finish_waiter [OF kt p] t(3,4) f by (simp add: finish_waiter_pcbs)
qed

lemma serve_reader_no:
  assumes "mbox_ok s i" "\<not> (mbox_rw (pcbs s p) = 0 \<and> nat (mbox_size (pcbs s p)) \<le> length (mbox_bytes s i))"
    and "0 \<le> mbox_size (pcbs s p)"
  shows "serve_reader i p s = Some s"
  using assms mbox_length_bytes [OF assms(1)] by (auto simp: serve_reader_def)

lemma serve_writer_yes:
  assumes ok: "mbox_ok s i" and rw: "mbox_rw (pcbs s p) = 1" and size: "0 \<le> mbox_size (pcbs s p)"
    and fits: "length (mbox_bytes s i) + nat (mbox_size (pcbs s p)) \<le> MAX_MBOX_LENGTH"
    and k: "kinv s Q" and p: "p \<in> set (Q (MboxQ i))"
  shows "\<exists>s'. serve_writer i p s = Some s'
    \<and> kinv s' (Q(MboxQ i := remove1 p (Q (MboxQ i)), ReadyQ := p # Q ReadyQ)) \<and> mbox_ok s' i
    \<and> mbox_bytes s' i = mbox_bytes s i @ user_bytes s (mbox_buf (pcbs s p)) (nat (mbox_size (pcbs s p)))
    \<and> user_view s' = user_view s
    \<and> (\<forall>x. x \<noteq> p \<longrightarrow> pcbs s' x = pcbs s x) \<and> current_running s' = current_running s"
proof -
  let ?n = "mbox_size (pcbs s p)" and ?b = "mbox_buf (pcbs s p)"
  have le: "mb_length (mboxes s i) + ?n \<le> int MAX_MBOX_LENGTH"
    using mbox_length_bytes [OF ok] fits size by simp
  obtain t where t: "mbox_put i ?b ?n s = Some t" "mbox_ok t i"
    "mbox_bytes t i = mbox_bytes s i @ user_bytes s ?b (nat ?n)"
    "t = s\<lparr>mboxes := (mboxes s)(i := mboxes t i)\<rparr>"
    using mbox_put_result [OF ok size le, of ?b] by blast
  have f: "links t = links s" "pcbs t = pcbs s" "current_running t = current_running s"
    "user_view t = user_view s"
    by (subst t(4), simp add: current_running_def user_view_def)+
  have kt: "kinv t Q" by (rule kinv_change [OF k]) (simp_all add: f)
  have "serve_writer i p s = Some (finish_waiter p t)"
    using rw le t(1) by (simp add: serve_writer_def room_test [OF ok room_fits [OF ok size le]])
  moreover have "mbox_ok (finish_waiter p t) i" using t(2) by (simp add: mbox_ok_def)
  moreover have "mbox_bytes (finish_waiter p t) i = mbox_bytes t i" by (simp add: mbox_bytes_def)
  moreover have "user_view (finish_waiter p t) = user_view t" by (simp add: user_view_def)
  ultimately show ?thesis
    using kinv_finish_waiter [OF kt p] t(3) f by (simp add: finish_waiter_pcbs)
qed

lemma serve_writer_no:
  assumes "mbox_ok s i"
    "\<not> (mbox_rw (pcbs s p) = 1 \<and> length (mbox_bytes s i) + nat (mbox_size (pcbs s p)) \<le> MAX_MBOX_LENGTH)"
    and "message_size (mbox_size (pcbs s p))"
  shows "serve_writer i p s = Some s"
  using assms mbox_length_bytes [OF assms(1)] message_sizeD [OF assms(3)] room_test [OF assms(1,3)]
  by (auto simp: serve_writer_def)

lemma serve_waiters_Cons:
  assumes "queues (links s) Q" "Q (MboxQ i) = ys @ p # ps" "serve p s = Some t"
  shows "serve_waiters serve i (front_node (MboxQ i) (p # ps)) s =
    serve_waiters serve i (front_node (MboxQ i) ps) t"
  using queues_next [OF assms(1,2)] assms(3)
  by (subst serve_waiters.simps) (simp add: front_node_def [of _ "p # ps"])

lemma serve_readers_result:
  assumes "kinv s Q" "Q (MboxQ i) = ys @ ps" "mbox_ok s i" "\<And>x. x \<in> set ps \<Longrightarrow> 0 \<le> mbox_size (pcbs s x)"
    and "readers_pass (pcbs s) ps (mbox_bytes s i) (user_view s) = (served, bs, um)"
  shows "\<exists>s'. serve_waiters (serve_reader i) i (front_node (MboxQ i) ps) s = Some s'
    \<and> kinv s' (Q(MboxQ i := ys @ filter (\<lambda>x. x \<notin> set served) ps, ReadyQ := rev served @ Q ReadyQ))
    \<and> mbox_ok s' i \<and> mbox_bytes s' i = bs \<and> user_view s' = um \<and> current_running s' = current_running s
    \<and> (\<forall>x. x \<notin> set served \<longrightarrow> pcbs s' x = pcbs s x)"
  using assms
proof (induction ps arbitrary: s Q ys served)
  case Nil
  then have "Q(MboxQ i := ys, ReadyQ := Q ReadyQ) = Q" by (auto simp: fun_eq_iff)
  then show ?case using Nil by (subst serve_waiters.simps) (simp add: front_node_def)
next
  case (Cons p ps)
  note K = kinvD [OF Cons.prems(1)]
  have dist: "p \<notin> set ps" "p \<notin> set ys" using kq.repr_distinct [OF K(1), of "MboxQ i"] Cons.prems(2) by auto
  have p: "p \<in> set (Q (MboxQ i))" using Cons.prems(2) by simp
  have size: "0 \<le> mbox_size (pcbs s p)" using Cons.prems(4) by simp
  let ?n = "nat (mbox_size (pcbs s p))" and ?b = "mbox_buf (pcbs s p)"
  show ?case
  proof (cases "mbox_rw (pcbs s p) = 0 \<and> ?n \<le> length (mbox_bytes s i)")
    case True
    let ?Q = "Q(MboxQ i := ys @ ps, ReadyQ := p # Q ReadyQ)"
    have rm: "remove1 p (Q (MboxQ i)) = ys @ ps" using Cons.prems(2) dist by (simp add: remove1_append)
    obtain t where t: "serve_reader i p s = Some t" "kinv t ?Q" "mbox_ok t i"
      "mbox_bytes t i = drop ?n (mbox_bytes s i)"
      "user_view t = deliver ?b (take ?n (mbox_bytes s i)) (user_view s)"
      "\<And>x. x \<noteq> p \<Longrightarrow> pcbs t x = pcbs s x" "current_running t = current_running s"
      using serve_reader_yes [OF Cons.prems(3) _ size _ Cons.prems(1) p] True unfolding rm by blast
    obtain served' where sv: "readers_pass (pcbs s) ps (mbox_bytes t i) (user_view t) = (served', bs, um)"
      "served = p # served'"
      using Cons.prems(5) True t(4,5) by (auto simp: Let_def split: prod.splits)
    have "readers_pass (pcbs t) ps (mbox_bytes t i) (user_view t) = (served', bs, um)"
      using sv(1) readers_pass_cong [of ps "pcbs t" "pcbs s"] t(6) dist by metis
    moreover have "\<And>x. x \<in> set ps \<Longrightarrow> 0 \<le> mbox_size (pcbs t x)" using Cons.prems(4) t(6) dist by (metis list.set_intros(2))
    moreover have "?Q (MboxQ i) = ys @ ps" by simp
    ultimately obtain s' where s': "serve_waiters (serve_reader i) i (front_node (MboxQ i) ps) t = Some s'"
      "kinv s' (?Q(MboxQ i := ys @ filter (\<lambda>x. x \<notin> set served') ps, ReadyQ := rev served' @ ?Q ReadyQ))"
      "mbox_ok s' i" "mbox_bytes s' i = bs" "user_view s' = um" "current_running s' = current_running t"
      "\<And>x. x \<notin> set served' \<Longrightarrow> pcbs s' x = pcbs t x"
      using Cons.IH [OF t(2) _ t(3)] by blast
    have "filter (\<lambda>x. x \<notin> set served) (p # ps) = filter (\<lambda>x. x \<notin> set served') ps"
      using sv(2) dist by (auto intro: filter_cong)
    then have eq: "?Q(MboxQ i := ys @ filter (\<lambda>x. x \<notin> set served') ps, ReadyQ := rev served' @ ?Q ReadyQ) =
        Q(MboxQ i := ys @ filter (\<lambda>x. x \<notin> set served) (p # ps), ReadyQ := rev served @ Q ReadyQ)"
      using sv(2) by (auto simp: fun_eq_iff)
    show ?thesis unfolding serve_waiters_Cons [of s Q i ys p ps "serve_reader i", OF K(1) Cons.prems(2) t(1)]
      by (intro exI [of _ s'] conjI s'(1) s'(2) [unfolded eq]) (use s' t sv(2) in auto)
  next
    case False
    have no: "serve_reader i p s = Some s" by (rule serve_reader_no [OF Cons.prems(3) False size])
    have r: "readers_pass (pcbs s) ps (mbox_bytes s i) (user_view s) = (served, bs, um)"
      using Cons.prems(5) False by auto
    have psv: "p \<notin> set served" using readers_pass_served [of "pcbs s" ps "mbox_bytes s i" "user_view s" served] r dist by auto
    have "Q (MboxQ i) = (ys @ [p]) @ ps" using Cons.prems(2) by simp
    from Cons.IH [OF Cons.prems(1) this Cons.prems(3) _ r] Cons.prems(4)
    show ?thesis unfolding serve_waiters_Cons [of s Q i ys p ps "serve_reader i", OF K(1) Cons.prems(2) no]
      using psv by simp
  qed
qed

lemma serve_writers_result:
  assumes "kinv s Q" "Q (MboxQ i) = ys @ ps" "mbox_ok s i" "\<And>x. x \<in> set ps \<Longrightarrow> message_size (mbox_size (pcbs s x))"
    and "writers_pass (pcbs s) (user_view s) ps (mbox_bytes s i) = (served, bs)"
  shows "\<exists>s'. serve_waiters (serve_writer i) i (front_node (MboxQ i) ps) s = Some s'
    \<and> kinv s' (Q(MboxQ i := ys @ filter (\<lambda>x. x \<notin> set served) ps, ReadyQ := rev served @ Q ReadyQ))
    \<and> mbox_ok s' i \<and> mbox_bytes s' i = bs \<and> user_view s' = user_view s
    \<and> current_running s' = current_running s \<and> (\<forall>x. x \<notin> set served \<longrightarrow> pcbs s' x = pcbs s x)"
  using assms
proof (induction ps arbitrary: s Q ys served)
  case Nil
  then have "Q(MboxQ i := ys, ReadyQ := Q ReadyQ) = Q" by (auto simp: fun_eq_iff)
  then show ?case using Nil by (subst serve_waiters.simps) (simp add: front_node_def)
next
  case (Cons p ps)
  note K = kinvD [OF Cons.prems(1)]
  have dist: "p \<notin> set ps" "p \<notin> set ys" using kq.repr_distinct [OF K(1), of "MboxQ i"] Cons.prems(2) by auto
  have p: "p \<in> set (Q (MboxQ i))" using Cons.prems(2) by simp
  have size: "message_size (mbox_size (pcbs s p))" using Cons.prems(4) by simp
  let ?n = "nat (mbox_size (pcbs s p))" and ?b = "mbox_buf (pcbs s p)"
  show ?case
  proof (cases "mbox_rw (pcbs s p) = 1 \<and> length (mbox_bytes s i) + ?n \<le> MAX_MBOX_LENGTH")
    case True
    let ?Q = "Q(MboxQ i := ys @ ps, ReadyQ := p # Q ReadyQ)"
    have rm: "remove1 p (Q (MboxQ i)) = ys @ ps" using Cons.prems(2) dist by (simp add: remove1_append)
    obtain t where t: "serve_writer i p s = Some t" "kinv t ?Q" "mbox_ok t i"
      "mbox_bytes t i = mbox_bytes s i @ user_bytes s ?b ?n" "user_view t = user_view s"
      "\<And>x. x \<noteq> p \<Longrightarrow> pcbs t x = pcbs s x" "current_running t = current_running s"
      using serve_writer_yes [OF Cons.prems(3) _ message_sizeD [OF size] _ Cons.prems(1) p] True unfolding rm by blast
    obtain served' where sv: "writers_pass (pcbs s) (user_view t) ps (mbox_bytes t i) = (served', bs)"
      "served = p # served'"
      using Cons.prems(5) True t(4,5) by (auto simp: Let_def user_bytes_def split: prod.splits)
    have "writers_pass (pcbs t) (user_view t) ps (mbox_bytes t i) = (served', bs)"
      using sv(1) writers_pass_cong [of ps "pcbs t" "pcbs s"] t(6) dist by metis
    moreover have "\<And>x. x \<in> set ps \<Longrightarrow> message_size (mbox_size (pcbs t x))" using Cons.prems(4) t(6) dist by (metis list.set_intros(2))
    moreover have "?Q (MboxQ i) = ys @ ps" by simp
    ultimately obtain s' where s': "serve_waiters (serve_writer i) i (front_node (MboxQ i) ps) t = Some s'"
      "kinv s' (?Q(MboxQ i := ys @ filter (\<lambda>x. x \<notin> set served') ps, ReadyQ := rev served' @ ?Q ReadyQ))"
      "mbox_ok s' i" "mbox_bytes s' i = bs" "user_view s' = user_view t"
      "current_running s' = current_running t" "\<And>x. x \<notin> set served' \<Longrightarrow> pcbs s' x = pcbs t x"
      using Cons.IH [OF t(2) _ t(3)] by blast
    have "filter (\<lambda>x. x \<notin> set served) (p # ps) = filter (\<lambda>x. x \<notin> set served') ps"
      using sv(2) dist by (auto intro: filter_cong)
    then have eq: "?Q(MboxQ i := ys @ filter (\<lambda>x. x \<notin> set served') ps, ReadyQ := rev served' @ ?Q ReadyQ) =
        Q(MboxQ i := ys @ filter (\<lambda>x. x \<notin> set served) (p # ps), ReadyQ := rev served @ Q ReadyQ)"
      using sv(2) by (auto simp: fun_eq_iff)
    show ?thesis unfolding serve_waiters_Cons [of s Q i ys p ps "serve_writer i", OF K(1) Cons.prems(2) t(1)]
      by (intro exI [of _ s'] conjI s'(1) s'(2) [unfolded eq]) (use s' t sv(2) in auto)
  next
    case False
    have no: "serve_writer i p s = Some s" by (rule serve_writer_no [OF Cons.prems(3) False size])
    have r: "writers_pass (pcbs s) (user_view s) ps (mbox_bytes s i) = (served, bs)"
      using Cons.prems(5) False by auto
    have psv: "p \<notin> set served" using writers_pass_served [of "pcbs s" "user_view s" ps "mbox_bytes s i" served] r dist by auto
    have "Q (MboxQ i) = (ys @ [p]) @ ps" using Cons.prems(2) by simp
    from Cons.IH [OF Cons.prems(1) this Cons.prems(3) _ r] Cons.prems(4)
    show ?thesis unfolding serve_waiters_Cons [of s Q i ys p ps "serve_writer i", OF K(1) Cons.prems(2) no]
      using psv by simp
  qed
qed

section \<open>Send and receive\<close>

text \<open>The tasks waiting on a mailbox asked for a non-negative number of bytes.\<close>

definition waiters_ok :: "'d kernel \<Rightarrow> (head \<Rightarrow> pcb_ref list) \<Rightarrow> nat \<Rightarrow> bool" where
  "waiters_ok s Q i \<longleftrightarrow> (\<forall>x \<in> set (Q (MboxQ i)). 0 \<le> mbox_size (pcbs s x))"

definition writers_ok :: "'d kernel \<Rightarrow> (head \<Rightarrow> pcb_ref list) \<Rightarrow> nat \<Rightarrow> bool" where
  "writers_ok s Q i \<longleftrightarrow> (\<forall>x \<in> set (Q (MboxQ i)). message_size (mbox_size (pcbs s x)))"

lemma send_result:
  assumes i: "i < MBOX_NUM" and k: "kinv s Q" and ok: "mbox_ok s i" and w: "waiters_ok s Q i"
    and n: "0 \<le> n" "length (mbox_bytes s i) + nat n \<le> MAX_MBOX_LENGTH"
    and pass: "readers_pass (pcbs s) (Q (MboxQ i)) (mbox_bytes s i @ user_bytes s msg (nat n)) (user_view s)
      = (served, bs, um)"
  shows "\<exists>s'. do_mbox_send rt (int i) msg n s = Some (n, s')
    \<and> kinv s' (Q(MboxQ i := filter (\<lambda>x. x \<notin> set served) (Q (MboxQ i)), ReadyQ := rev served @ Q ReadyQ))
    \<and> mbox_ok s' i \<and> mbox_bytes s' i = bs \<and> user_view s' = um
    \<and> current_running s' = current_running s"
proof -
  have fits: "mb_length (mboxes s i) + n \<le> int MAX_MBOX_LENGTH"
    using mbox_length_bytes [OF ok] n by simp
  obtain t where t: "mbox_put i msg n s = Some t" "mbox_ok t i"
    "mbox_bytes t i = mbox_bytes s i @ user_bytes s msg (nat n)" "t = s\<lparr>mboxes := (mboxes s)(i := mboxes t i)\<rparr>"
    using mbox_put_result [OF ok n(1) fits, of msg] by blast
  have f: "links t = links s" "pcbs t = pcbs s" "current_running t = current_running s"
    "user_view t = user_view s"
    by (subst t(4), simp add: current_running_def user_view_def)+
  have kt: "kinv t Q" by (rule kinv_change [OF k]) (simp_all add: f)
  have "readers_pass (pcbs t) (Q (MboxQ i)) (mbox_bytes t i) (user_view t) = (served, bs, um)"
    using pass f t(3) by simp
  moreover have "\<And>x. x \<in> set (Q (MboxQ i)) \<Longrightarrow> 0 \<le> mbox_size (pcbs t x)" using w f by (simp add: waiters_ok_def)
  ultimately obtain s' where s': "serve_waiters (serve_reader i) i (front_node (MboxQ i) (Q (MboxQ i))) t = Some s'"
    "kinv s' (Q(MboxQ i := filter (\<lambda>x. x \<notin> set served) (Q (MboxQ i)), ReadyQ := rev served @ Q ReadyQ))"
    "mbox_ok s' i" "mbox_bytes s' i = bs" "user_view s' = um" "current_running s' = current_running t"
    using serve_readers_result [OF kt _ t(2), of "[]" "Q (MboxQ i)"] by auto
  have "do_mbox_send rt (int i) msg n s = Some (n, s')"
    using i fits t(1) s'(1) queues_front [OF kinvD(1) [OF kt], of "MboxQ i"]
    by (simp add: do_mbox_send_def room_test [OF ok room_fits [OF ok n(1) fits]])
  then show ?thesis using s' f by auto
qed

lemma recv_result:
  assumes i: "i < MBOX_NUM" and k: "kinv s Q" and ok: "mbox_ok s i" and w: "writers_ok s Q i"
    and n: "0 \<le> n" "nat n \<le> length (mbox_bytes s i)"
    and um: "um = deliver msg (take (nat n) (mbox_bytes s i)) (user_view s)"
    and pass: "writers_pass (pcbs s) um (Q (MboxQ i)) (drop (nat n) (mbox_bytes s i)) = (served, bs)"
  shows "\<exists>s'. do_mbox_recv rt (int i) msg n s = Some (n, s')
    \<and> kinv s' (Q(MboxQ i := filter (\<lambda>x. x \<notin> set served) (Q (MboxQ i)), ReadyQ := rev served @ Q ReadyQ))
    \<and> mbox_ok s' i \<and> mbox_bytes s' i = bs \<and> user_view s' = um
    \<and> current_running s' = current_running s"
proof -
  have le: "n \<le> mb_length (mboxes s i)" using mbox_length_bytes [OF ok] n by simp
  obtain t where t: "mbox_take i msg n s = Some t" "mbox_ok t i"
    "mbox_bytes t i = drop (nat n) (mbox_bytes s i)" "user_view t = um"
    "t = s\<lparr>mboxes := (mboxes s)(i := mboxes t i), umem := (umem s)(csr_satp s (hart s) := user_view t)\<rparr>"
    using mbox_take_result [OF ok n(1) le, of msg] um by blast
  have f: "links t = links s" "pcbs t = pcbs s" "current_running t = current_running s"
    by (subst t(5), simp add: current_running_def)+
  have kt: "kinv t Q" by (rule kinv_change [OF k]) (simp_all add: f)
  have "writers_pass (pcbs t) (user_view t) (Q (MboxQ i)) (mbox_bytes t i) = (served, bs)"
    using pass f t(3,4) by simp
  moreover have "\<And>x. x \<in> set (Q (MboxQ i)) \<Longrightarrow> message_size (mbox_size (pcbs t x))" using w f by (simp add: writers_ok_def)
  ultimately obtain s' where s': "serve_waiters (serve_writer i) i (front_node (MboxQ i) (Q (MboxQ i))) t = Some s'"
    "kinv s' (Q(MboxQ i := filter (\<lambda>x. x \<notin> set served) (Q (MboxQ i)), ReadyQ := rev served @ Q ReadyQ))"
    "mbox_ok s' i" "mbox_bytes s' i = bs" "user_view s' = user_view t" "current_running s' = current_running t"
    using serve_writers_result [OF kt _ t(2), of "[]" "Q (MboxQ i)"] by auto
  have "do_mbox_recv rt (int i) msg n s = Some (n, s')"
    using i le t(1) s'(1) queues_front [OF kinvD(1) [OF kt], of "MboxQ i"] by (simp add: do_mbox_recv_def)
  then show ?thesis using s' t(4) f by auto
qed

text \<open>No reader that could be served is left behind by a send.\<close>

lemma readers_pass_length:
  "readers_pass T ps bs um = (served, bs', um') \<Longrightarrow> length bs' \<le> length bs"
  by (induction ps arbitrary: bs um served) (fastforce simp: Let_def split: if_splits prod.splits)+

lemma readers_pass_no_lost:
  "readers_pass T ps bs um = (served, bs', um') \<Longrightarrow> x \<in> set ps \<Longrightarrow> x \<notin> set served \<Longrightarrow> mbox_rw (T x) = 0 \<Longrightarrow>
   length bs' < nat (mbox_size (T x))"
proof (induction ps arbitrary: bs um served)
  case (Cons p ps)
  show ?case
  proof (cases "mbox_rw (T p) = 0 \<and> nat (mbox_size (T p)) \<le> length bs")
    case True
    then show ?thesis using Cons by (fastforce simp: Let_def split: prod.splits)
  next
    case False
    then have r: "readers_pass T ps bs um = (served, bs', um')" using Cons.prems(1) by auto
    show ?thesis
    proof (cases "x = p")
      case True
      then show ?thesis using False Cons.prems(4) readers_pass_length [OF r] by auto
    next
      case False
      then show ?thesis using Cons.IH [OF r] Cons.prems by auto
    qed
  qed
qed simp

end
