(* ===== verification/Proc.thy ===== *)
theory Proc
  imports Mbox
begin

text \<open>
  Task life cycle of \<open>kernel/sched/sched.c\<close>: kill, exit, wait and thread creation. A killed
  task leaves its queue, its locks go to their first waiters, the tasks that wait for it
  become ready and its status becomes EXITED; its memory is freed by \<open>do_kill_all\<close>.
  A trap frame is a record at its address in the frame map, and a task number is checked
  nowhere in the code: outside \<open>[0, 16)\<close> the accesses to \<open>pcb\<close> are undefined.
\<close>

section \<open>Operations\<close>

partial_function (option) wake_waiters :: "pcb_ref \<Rightarrow> 'd kernel \<Rightarrow> 'd kernel option" where
  "wake_waiters p s =
     (if LIST_IS_EMPTY (Head (WaitQ p)) (links s) then Some s
      else do {
        let node = lnext (links s) (Head (WaitQ p));
        waiter \<leftarrow> NODE_TO_PCB node;
        wake_waiters p (do_unblock node (set_status waiter TASK_READY s)) })"

definition do_kill :: "int \<Rightarrow> 'd kernel \<Rightarrow> (int \<times> 'd kernel) option" where
  "do_kill p s = do {
     i \<leftarrow> index p NUM_MAX_TASK;
     let s1 = upd_links (LIST_REMOVE (PList (Pcb i))) s;
     s2 \<leftarrow> do_release_locks p s1;
     s3 \<leftarrow> wake_waiters (Pcb i) s2;
     Some (1, set_status (Pcb i) TASK_EXITED s3) }"

definition do_kill_all :: "int \<Rightarrow> 'd kernel \<Rightarrow> (int \<times> 'd kernel) option" where
  "do_kill_all p s = do {
     s1 \<leftarrow> for_each (\<lambda>i s. if parent_pid (pcbs s (Pcb i)) = p \<and> pstatus s (Pcb i) \<noteq> TASK_EXITED
        then map_option snd (do_kill (int i) s) else Some s) [0..<NUM_MAX_TASK] s;
     (r, s2) \<leftarrow> do_kill p s1;
     i \<leftarrow> index p NUM_MAX_TASK;
     Some (1, s2\<lparr>mm := freeProcessMem (ucast (asid (pcbs s2 (Pcb i)))) (mm s2)\<rparr>) }"

definition do_exit :: "(nat \<Rightarrow> u64) \<Rightarrow> 'd kernel \<Rightarrow> 'd kernel option" where
  "do_exit rt s = do {
     (r, s1) \<leftarrow> do_kill_all (pid (pcbs s (current_running s))) s;
     do_scheduler rt s1 }"

definition do_waitpid :: "(nat \<Rightarrow> u64) \<Rightarrow> int \<Rightarrow> 'd kernel \<Rightarrow> (int \<times> 'd kernel) option" where
  "do_waitpid rt p s = do {
     i \<leftarrow> index p NUM_MAX_TASK;
     if pstatus s (Pcb i) \<noteq> TASK_EXITED
     then do {
       let cur = current_running s;
       let s1 = do_block cur (WaitQ (Pcb i)) s;
       s2 \<leftarrow> do_scheduler rt (set_status cur TASK_BLOCKED s1);
       Some (0, s2) }
     else Some (0, s) }"

definition do_thread_join :: "(nat \<Rightarrow> u64) \<Rightarrow> int \<Rightarrow> 'd kernel \<Rightarrow> (int \<times> 'd kernel) option" where
  "do_thread_join rt thread s = do_waitpid rt thread s"

definition USER_STACK_ADDR :: u64 where "USER_STACK_ADDR = 0xf00010000"
definition SR_SPIE :: u64 where "SR_SPIE = 0x20"
definition SR_SPP :: u64 where "SR_SPP = 0x100"
definition REGS_CONTEXT_SIZE :: u64 where "REGS_CONTEXT_SIZE = 36 * 8"

text \<open>The register \<open>tp\<close> of a new frame holds the address of the control block.\<close>

definition do_thread_create ::
  "'d bios \<Rightarrow> (pcb_ref \<Rightarrow> u64) \<Rightarrow> u64 \<Rightarrow> u64 \<Rightarrow> u64 \<Rightarrow> 'd kernel \<Rightarrow> 'd kernel option" where
  "do_thread_create B pcb_addr thread start_routine arg s =
     (case find_from (\<lambda>j. pstatus s (Pcb j) = TASK_EXITED) 0 NUM_MAX_TASK of
        None \<Rightarrow> Some s
      | Some j \<Rightarrow> do {
          let cur = pcbs s (current_running s);
          let s1 = upd_pcb (Pcb j) (\<lambda>t. t\<lparr>asid := asid cur, satp := satp cur, parent_pid := pid cur\<rparr>) s;
          let num = of_nat (get_child_thread_num (pid (pcbs s1 (current_running s1))) s1 + 1);
          let aid = asid (pcbs s1 (Pcb j));
          (kva, m1) \<leftarrow> alloc_page_helper B (pcbs s1) (USER_STACK_ADDR - num * PAGE_SIZE)
             (pa2kva (satp (pcbs s1 (Pcb j)))) (ucast aid) (mm s1);
          (page, m2) \<leftarrow> allocPage B (pcbs s1) (ucast (aid OR ucast KERNEL_PAGE)) m1;
          let frame = page + PAGE_SIZE - REGS_CONTEXT_SIZE;
          let context = \<lparr>regs = (\<lambda>_. 0)(2 := USER_STACK_ADDR - num * PAGE_SIZE, 4 := pcb_addr (Pcb j), 10 := arg),
              sstatus = SR_SPIE AND NOT SR_SPP, sepc = start_routine, sbadaddr = 0, scause = 0\<rparr>;
          let s2 = s1\<lparr>mm := m2, frames := (frames s1)(frame := context)\<rparr>;
          let s3 = upd_links (LIST_ADD_TAIL (Head ReadyQ) (PList (Pcb j))) (set_status (Pcb j) TASK_READY s2);
          let s4 = upd_links (LIST_REMOVE (Head (WaitQ (Pcb j)))) (upd_pcb (Pcb j) (\<lambda>t. t\<lparr>pid := int j\<rparr>) s3);
          let s5 = upd_pcb (Pcb j) (\<lambda>t. t\<lparr>kernel_sp := frame\<rparr>) s4;
          copy_to_user thread \<lparr>rsize = 4, rbyte = byte_of (word_of_nat j :: u32)\<rparr> 4 s5 })"

section \<open>Waking the waiters of a task\<close>

lemma wake_waiters_result:
  assumes "kinv_on E s Q" "Q (WaitQ p) = ws"
  shows "\<exists>s'. wake_waiters p s = Some s' \<and> kinv_on E s' (Q(WaitQ p := [], ReadyQ := rev ws @ Q ReadyQ))
    \<and> mlocks s' = mlocks s \<and> current_running s' = current_running s
    \<and> (\<forall>x. same_task (pcbs s x) (pcbs s' x)) \<and> (\<forall>x. x \<notin> set ws \<longrightarrow> pcbs s' x = pcbs s x)"
  using assms
proof (induction ws arbitrary: s Q)
  case Nil
  then have "LIST_IS_EMPTY (Head (WaitQ p)) (links s)"
    using kq.empty_iff [OF kinv_onD(1) [OF Nil(1)]] by simp
  moreover have "Q(WaitQ p := [], ReadyQ := Q ReadyQ) = Q" using Nil by (auto simp: fun_eq_iff)
  ultimately show ?case using Nil by (subst wake_waiters.simps) simp
next
  case (Cons w ws)
  note K = kinv_onD [OF Cons.prems(1)]
  let ?t = "set_status w TASK_READY (do_unblock (PList w) s)"
  let ?Q = "Q(WaitQ p := ws, ReadyQ := w # Q ReadyQ)"
  have "\<not> LIST_IS_EMPTY (Head (WaitQ p)) (links s)" "lnext (links s) (Head (WaitQ p)) = PList w"
    using kq.empty_iff [OF K(1)] queues_front [OF K(1), of "WaitQ p"] Cons.prems(2)
    by (simp_all add: front_node_def)
  moreover have "do_unblock n (set_status w TASK_READY s) = set_status w TASK_READY (do_unblock n s)" for n
    by (simp add: do_unblock_def status_links_commute)
  ultimately have unfold: "wake_waiters p s = wake_waiters p ?t"
    by (subst wake_waiters.simps) simp
  have "kinv_on E ?t ?Q" using kinv_unblock [OF Cons.prems(1), of w "WaitQ p"] Cons.prems(2) by simp
  moreover have "?Q (WaitQ p) = ws" by simp
  ultimately obtain s' where s': "wake_waiters p ?t = Some s'"
    "kinv_on E s' (?Q(WaitQ p := [], ReadyQ := rev ws @ ?Q ReadyQ))" "mlocks s' = mlocks ?t"
    "current_running s' = current_running ?t" "\<And>x. same_task (pcbs ?t x) (pcbs s' x)"
    "\<And>x. x \<notin> set ws \<Longrightarrow> pcbs s' x = pcbs ?t x"
    using Cons.IH by blast
  have eq: "?Q(WaitQ p := [], ReadyQ := rev ws @ ?Q ReadyQ) = Q(WaitQ p := [], ReadyQ := rev (w # ws) @ Q ReadyQ)"
    by (auto simp: fun_eq_iff)
  have "same_task (pcbs s x) (pcbs s' x)" for x
    by (rule same_task_trans [OF _ s'(5)]) (simp add: fun_upd_apply)
  then show ?case unfolding unfold
    by (intro exI [of _ s'] conjI s'(1) s'(2) [unfolded eq]) (auto simp: s')
qed

section \<open>Killing a task\<close>

definition without :: "pcb_ref \<Rightarrow> (head \<Rightarrow> pcb_ref list) \<Rightarrow> head \<Rightarrow> pcb_ref list" where
  "without p Q = (\<lambda>q. filter (\<lambda>x. x \<noteq> p) (Q q))"

lemma without_simps [simp]: "p \<notin> set (without p Q q)" "in_no_queue (without p Q) p"
  by (simp_all add: without_def in_no_queue_def)

lemma without_notin: "p \<notin> set (Q q) \<Longrightarrow> without p Q q = Q q"
  by (auto simp: without_def intro: filter_True)

lemma in_no_queue_without: "in_no_queue (without p Q) x \<longleftrightarrow> x = p \<or> in_no_queue Q x"
  by (auto simp: without_def in_no_queue_def)

lemma leave_queue:
  assumes k: "kinv s Q" and alive: "pstatus s p \<noteq> TASK_EXITED"
  shows "kinv_on {p} (upd_links (LIST_REMOVE (PList p)) s) (without p Q)"
proof -
  note K = kinvD [OF k]
  let ?t = "upd_links (LIST_REMOVE (PList p)) s"
  have q: "queues (links ?t) (without p Q) \<and> (\<forall>x. in_no_queue Q x \<longrightarrow> detached (links s) x \<longrightarrow> detached (links ?t) x)"
  proof (cases "in_no_queue Q p")
    case True
    then have "without p Q = Q" using without_notin by (fastforce simp: in_no_queue_def fun_eq_iff)
    then show ?thesis using K(1) K(5) [OF True alive] by (simp add: kq.remove_free)
  next
    case False
    then obtain q where q: "p \<in> set (Q q)" by (auto simp: in_no_queue_def)
    have "remove1 p (Q q) = without p Q q"
      using distinct_remove1_removeAll [of "Q q" p] kq.repr_distinct [OF K(1), of q]
      by (simp add: without_def removeAll_filter_not_eq) (metis (mono_tags))
    moreover have "without p Q r = Q r" if "r \<noteq> q" for r
      using queuesD(2) [OF K(1) q, of r] that by (intro without_notin) auto
    ultimately have "Q(q := remove1 p (Q q)) = without p Q" by (auto simp: fun_eq_iff)
    then show ?thesis using kq.repr_remove [OF K(1) q] kq.free_remove [OF K(1) q]
      by (simp add: in_no_queue_def)
  qed
  have sub: "x \<in> set (without p Q r) \<Longrightarrow> x \<in> set (Q r)" for x r by (simp add: without_def)
  show ?thesis unfolding kinv_on_def
    using q sub K(2,3,4,5) by (auto simp: in_no_queue_without)
qed

lemma passed_on_members:
  assumes "passed_on s Q p n Q'" "x \<in> set (Q' q)"
  shows "\<exists>r. x \<in> set (Q r) \<and> (q \<noteq> ReadyQ \<longrightarrow> r = q)"
proof -
  note P = assms(1) [unfolded passed_on_def]
  consider "q = ReadyQ" | j where "q = MutexQ j" | "q \<noteq> ReadyQ \<and> (\<forall>j. q \<noteq> MutexQ j)" by blast
  then show ?thesis
  proof cases
    case 1
    obtain ws where ws: "Q' ReadyQ = ws @ Q ReadyQ"
      "set ws = {hd (Q (MutexQ i)) |i. i < n \<and> held_by s p i \<and> Q (MutexQ i) \<noteq> []}" using P by blast
    then show ?thesis using assms(2) 1 hd_in_set by fastforce
  next
    case (2 j)
    have "x \<in> set (tl (Q (MutexQ j))) \<Longrightarrow> x \<in> set (Q (MutexQ j))" by (cases "Q (MutexQ j)") auto
    then have "x \<in> set (Q (MutexQ j))" using P assms(2) 2 by (auto split: if_splits)
    then show ?thesis using 2 by blast
  next
    case 3
    then show ?thesis using P assms(2) by auto
  qed
qed

lemma do_kill_result:
  fixes s :: "'d kernel"
  assumes i: "i < NUM_MAX_TASK" and k: "kinv s Q" and l: "linv s Q"
    and alive: "pstatus s (Pcb i) \<noteq> TASK_EXITED"
    and pids: "\<And>j x. x \<in> set (Q (MutexQ j)) \<Longrightarrow> x \<noteq> Pcb i \<Longrightarrow> pid (pcbs s x) \<noteq> int i"
  shows "\<exists>s' Q'. do_kill (int i) s = Some (1, s') \<and> kinv s' Q' \<and> linv s' Q'
    \<and> pstatus s' (Pcb i) = TASK_EXITED \<and> in_no_queue Q' (Pcb i)
    \<and> (\<forall>j < LOCK_NUM. \<not> held_by s' (int i) j)
    \<and> Q' (WaitQ (Pcb i)) = []
    \<and> (\<forall>x \<in> set (Q (WaitQ (Pcb i))). x \<noteq> Pcb i \<longrightarrow> x \<in> set (Q' ReadyQ))
    \<and> (\<forall>j. Q' (MutexQ j) = (if j < LOCK_NUM \<and> held_by s (int i) j then tl (without (Pcb i) Q (MutexQ j))
          else without (Pcb i) Q (MutexQ j)))
    \<and> (\<forall>j < LOCK_NUM. if held_by s (int i) j then lock_passed s (without (Pcb i) Q) j (mlocks s' j) else mlocks s' j = mlocks s j)
    \<and> (\<forall>x. x \<noteq> Pcb i \<longrightarrow> same_task (pcbs s x) (pcbs s' x)) \<and> current_running s' = current_running s
    \<and> (\<forall>q x. x \<in> set (Q' q) \<longrightarrow> (\<exists>r. x \<in> set (Q r) \<and> (q \<noteq> ReadyQ \<longrightarrow> r = q)))"
proof -
  let ?p = "Pcb i" and ?Q1 = "without (Pcb i) Q" and ?s1 = "upd_links (LIST_REMOVE (PList (Pcb i))) s"
  have k1: "kinv_on {?p} ?s1 ?Q1" by (rule leave_queue [OF k alive])
  have l1: "linv ?s1 ?Q1" using l by (auto simp: linv_def without_def)
  have pids1: "\<And>j x. x \<in> set (?Q1 (MutexQ j)) \<Longrightarrow> pid (pcbs ?s1 x) \<noteq> int i"
    using pids by (auto simp: without_def)
  note rel = release_locks_result [OF k1 l1, of "int i"]
  obtain s2 Q2 where s2: "do_release_locks (int i) ?s1 = Some s2" "kinv_on {?p} s2 Q2" "linv s2 Q2"
    "passed_on ?s1 ?Q1 (int i) LOCK_NUM Q2" "\<And>j. j < LOCK_NUM \<Longrightarrow> \<not> held_by s2 (int i) j"
    "\<And>x. same_task (pcbs ?s1 x) (pcbs s2 x)" "current_running s2 = current_running ?s1"
    "\<forall>j < LOCK_NUM. if held_by ?s1 (int i) j then lock_passed ?s1 ?Q1 j (mlocks s2 j) else mlocks s2 j = mlocks ?s1 j"
    using rel pids1 by blast
  have hb: "held_by ?s1 = held_by s" by (simp add: held_by_def fun_eq_iff)
  have P: "\<And>j. Q2 (MutexQ j) = (if j < LOCK_NUM \<and> held_by s (int i) j then tl (?Q1 (MutexQ j)) else ?Q1 (MutexQ j))"
    "Q2 (WaitQ q) = ?Q1 (WaitQ q)" for q
    using s2(4) unfolding passed_on_def hb by auto
  obtain s3 where s3: "wake_waiters ?p s2 = Some s3"
    "kinv_on {?p} s3 (Q2(WaitQ ?p := [], ReadyQ := rev (Q2 (WaitQ ?p)) @ Q2 ReadyQ))"
    "mlocks s3 = mlocks s2" "current_running s3 = current_running s2"
    "\<And>x. same_task (pcbs s2 x) (pcbs s3 x)"
    using wake_waiters_result [OF s2(2) refl, of ?p] by blast
  let ?Q3 = "Q2(WaitQ ?p := [], ReadyQ := rev (Q2 (WaitQ ?p)) @ Q2 ReadyQ)"
  have nq2: "?p \<notin> set (Q2 q)" for q
  proof -
    obtain ws where ws: "Q2 ReadyQ = ws @ ?Q1 ReadyQ"
      "set ws = {hd (?Q1 (MutexQ j)) |j. j < LOCK_NUM \<and> held_by ?s1 (int i) j \<and> ?Q1 (MutexQ j) \<noteq> []}"
      using s2(4) unfolding passed_on_def by blast
    have "?p \<notin> set ws" unfolding ws(2)
    proof
      assume "?p \<in> {hd (?Q1 (MutexQ j)) |j. j < LOCK_NUM \<and> held_by ?s1 (int i) j \<and> ?Q1 (MutexQ j) \<noteq> []}"
      then obtain j where "?p = hd (?Q1 (MutexQ j))" "?Q1 (MutexQ j) \<noteq> []" by blast
      then have "?p \<in> set (?Q1 (MutexQ j))" using hd_in_set by metis
      then show False by simp
    qed
    have tl: "?p \<notin> set (tl (?Q1 r))" for r by (cases "?Q1 r"; use without_simps(1) [of ?p Q r] in auto)
    consider "q = ReadyQ" | j where "q = MutexQ j" | "q \<noteq> ReadyQ \<and> (\<forall>j. q \<noteq> MutexQ j)" by blast
    then show ?thesis
    proof cases
      case 1
      then show ?thesis using ws(1) \<open>?p \<notin> set ws\<close> by simp
    next
      case 2
      then show ?thesis using P(1) [of j] tl by simp
    next
      case 3
      then have "Q2 q = ?Q1 q" using s2(4) unfolding passed_on_def by blast
      then show ?thesis by simp
    qed
  qed
  have nq3: "in_no_queue ?Q3 ?p" using nq2 by (simp add: in_no_queue_def)
  let ?s' = "set_status ?p TASK_EXITED s3"
  have "kinv ?s' ?Q3"
    unfolding kinv_on_def
  proof (intro conjI ballI allI impI)
    note K = kinv_onD [OF s3(2)]
    show "queues (links ?s') ?Q3" using K(1) by simp
    fix x assume x: "x \<in> set (?Q3 ReadyQ)"
    then have "x \<noteq> ?p" using nq3 by (auto simp: in_no_queue_def simp del: fun_upd_apply)
    then show "pstatus ?s' x = TASK_READY" using K(2) [OF x] by simp
  next
    note K = kinv_onD [OF s3(2)]
    fix q x assume x: "q \<noteq> ReadyQ" "x \<in> set (?Q3 q)"
    then have "x \<noteq> ?p" using nq3 by (auto simp: in_no_queue_def simp del: fun_upd_apply)
    then show "pstatus ?s' x = TASK_BLOCKED" using K(3) [OF x] by simp
  next
    note K = kinv_onD [OF s3(2)]
    fix x assume x: "in_no_queue ?Q3 x" "pstatus ?s' x \<noteq> TASK_EXITED"
    then have "x \<noteq> ?p" by auto
    then show "pstatus ?s' x = TASK_RUNNING" "detached (links ?s') x"
      using K(4,5) [OF x(1)] x(2) by auto
  qed
  moreover have "do_kill (int i) s = Some (1, ?s')" using i s2(1) s3(1) by (simp add: do_kill_def)
  moreover have "linv ?s' ?Q3" using s2(3) s3(3) by (simp add: linv_def)
  moreover have "\<forall>j < LOCK_NUM. \<not> held_by ?s' (int i) j" using s2(5) s3(3) by (simp add: held_by_def)
  moreover have "\<forall>j < LOCK_NUM. if held_by s (int i) j then lock_passed s ?Q1 j (mlocks ?s' j) else mlocks ?s' j = mlocks s j"
  proof -
    have "lock_passed ?s1 ?Q1 j m = lock_passed s ?Q1 j m" for j m by (simp add: lock_passed_def split: list.split)
    then show ?thesis using s2(8) unfolding hb by (simp add: s3(3) cong: if_cong)
  qed
  moreover have "\<forall>x \<in> set (Q (WaitQ ?p)). x \<noteq> ?p \<longrightarrow> x \<in> set (?Q3 ReadyQ)"
    by (simp add: P(2)) (simp add: without_def)
  moreover have "same_task (pcbs s x) (pcbs ?s' x)" if "x \<noteq> ?p" for x
    using same_task_trans [OF s2(6) s3(5)] that by simp
  moreover have "current_running ?s' = current_running s" using s2(7) s3(4) by simp
  moreover have "\<exists>r. x \<in> set (Q r) \<and> (q \<noteq> ReadyQ \<longrightarrow> r = q)" if "x \<in> set (?Q3 q)" for q x
    using passed_on_members [OF s2(4), of x] that by (auto simp: without_def split: if_splits)
  ultimately show ?thesis using nq3 P(1)
    by (intro exI [of _ ?s'] exI [of _ ?Q3]) simp
qed

end
