(* ===== verification/Paging.thy ===== *)
theory Paging
  imports Mm
begin

text \<open>
  What the memory manager promises: the frame allocator, the clock algorithm's termination,
  the page tables as a map from virtual pages to entries, and the ownership test by bit mask.
\<close>

section \<open>Frame allocation\<close>

lemma allocPage_free:
  assumes "find_from (\<lambda>i. free_mem_map m i = 0) 0 MEM_PAGE_NUM = Some i"
  shows "allocPage B ps aid m = Some (frame_addr i,
    clean_page (frame_addr i) (m\<lparr>free_mem_map := (free_mem_map m)(i := aid)\<rparr>))"
  using assms by (simp add: allocPage_def)

lemma free_frame_bound:
  "find_from (\<lambda>i. free_mem_map m i = 0) 0 MEM_PAGE_NUM = Some i \<Longrightarrow> i < 8192 \<and> free_mem_map m i = 0"
  by (drule find_from_SomeD) simp

section \<open>The clock algorithm\<close>

definition user_frame :: "'d mm_state \<Rightarrow> nat \<Rightarrow> bool" where
  "user_frame m i \<longleftrightarrow> i < MEM_PAGE_NUM \<and> free_mem_map m i AND KERNEL_PAGE = 0"

definition accessed_frames :: "'d mm_state \<Rightarrow> nat set" where
  "accessed_frames m = {i. user_frame m i \<and> free_mem_map m i AND MAP_PAGE_ACCESSED \<noteq> 0}"

definition clock_tick :: "'d mm_state \<Rightarrow> 'd mm_state" where
  "clock_tick m = m\<lparr>clock_ptr := (clock_ptr m + 1) mod MEM_PAGE_NUM\<rparr>"

definition clear_accessed :: "'d mm_state \<Rightarrow> 'd mm_state" where
  "clear_accessed m = m\<lparr>free_mem_map := (free_mem_map m)(clock_ptr m :=
     free_mem_map m (clock_ptr m) AND NOT MAP_PAGE_ACCESSED)\<rparr>"

text \<open>How far the hand is before frame \<open>i\<close>.\<close>

definition hand_distance :: "nat \<Rightarrow> 'd mm_state \<Rightarrow> nat" where
  "hand_distance i m = (i + 8192 - clock_ptr m) mod 8192"

lemma choose_swap_cases:
  assumes "clock_ptr m < 8192"
  shows "choose_swap m =
    (if \<not> user_frame m (clock_ptr m) then choose_swap (clock_tick m)
     else if clock_ptr m \<in> accessed_frames m then choose_swap (clock_tick (clear_accessed m))
     else Some (frame_addr (clock_ptr m), clock_tick m))"
  using assms
  by (subst choose_swap.simps)
     (simp add: user_frame_def accessed_frames_def clock_tick_def clear_accessed_def
       frame_addr_def add.commute)

lemma cleared_accessed: "(x AND NOT MAP_PAGE_ACCESSED) AND MAP_PAGE_ACCESSED = 0"
  by (simp add: MAP_PAGE_ACCESSED_def bit_eq_iff bit_simps)

lemma cleared_kernel: "(x AND NOT MAP_PAGE_ACCESSED) AND KERNEL_PAGE = x AND KERNEL_PAGE"
proof -
  have "NOT MAP_PAGE_ACCESSED AND KERNEL_PAGE = KERNEL_PAGE"
    by (simp add: MAP_PAGE_ACCESSED_def KERNEL_PAGE_def)
  then show ?thesis by (metis and.assoc)
qed

lemma user_frame_clear [simp]: "user_frame (clear_accessed m) i \<longleftrightarrow> user_frame m i"
  by (simp add: user_frame_def clear_accessed_def cleared_kernel)

lemma accessed_clear: "accessed_frames (clear_accessed m) = accessed_frames m - {clock_ptr m}"
  by (auto simp: accessed_frames_def)
     (auto simp: clear_accessed_def cleared_accessed split: if_splits)

lemma tick_frames [simp]:
  "user_frame (clock_tick m) i \<longleftrightarrow> user_frame m i"
  "accessed_frames (clock_tick m) = accessed_frames m"
  by (simp_all add: user_frame_def accessed_frames_def clock_tick_def)

lemma clock_tick_ptr: "clock_ptr (clock_tick m) < 8192" by (simp add: clock_tick_def)

lemma finite_accessed: "finite (accessed_frames m)"
  by (rule finite_subset [of _ "{..< 8192}"]) (auto simp: accessed_frames_def user_frame_def)

lemma hand_distance_tick:
  assumes "clock_ptr m < 8192" "i < 8192" "clock_ptr m \<noteq> i"
  shows "hand_distance i (clock_tick m) < hand_distance i m"
proof -
  let ?c = "clock_ptr m"
  have m: "hand_distance i m = (if ?c \<le> i then i - ?c else i + 8192 - ?c)"
    using assms by (simp add: hand_distance_def mod_if)
  have "hand_distance i (clock_tick m) = (if ?c \<le> i then i - ?c - 1 else i + 8192 - ?c - 1)"
  proof (cases "?c = 8191")
    case True
    then show ?thesis using assms by (simp add: hand_distance_def clock_tick_def)
  next
    case False
    then have "(?c + 1) mod 8192 = ?c + 1" using assms(1) by simp
    then show ?thesis using assms by (auto simp: hand_distance_def clock_tick_def mod_if)
  qed
  with m assms show ?thesis by auto
qed

lemma hand_distance_bound: "hand_distance i m < 8192" by (simp add: hand_distance_def)

lemma choose_swap_terminates:
  assumes "user_frame m i" "clock_ptr m < 8192"
  shows "\<exists>k m'. choose_swap m = Some (frame_addr k, m') \<and> user_frame m k \<and> k \<notin> accessed_frames m'
    \<and> (\<forall>x. free_mem_map m' x = free_mem_map m x
          \<or> free_mem_map m' x = free_mem_map m x AND NOT MAP_PAGE_ACCESSED)
    \<and> m' = m\<lparr>free_mem_map := free_mem_map m', clock_ptr := clock_ptr m'\<rparr>"
  using assms
proof (induction "card (accessed_frames m) * 8192 + hand_distance i m" arbitrary: m rule: less_induct)
  case less
  let ?c = "clock_ptr m"
  show ?case
  proof (cases "user_frame m ?c")
    case False
    with less.prems have "?c \<noteq> i" "i < 8192" by (auto simp: user_frame_def)
    then have "hand_distance i (clock_tick m) < hand_distance i m"
      using hand_distance_tick less.prems(2) by blast
    with less.hyps [of "clock_tick m"] less.prems clock_tick_ptr [of m] False
    show ?thesis
      by (simp add: choose_swap_cases [OF less.prems(2)]) (simp add: clock_tick_def)
  next
    case user: True
    show ?thesis
    proof (cases "?c \<in> accessed_frames m")
      case False
      with user show ?thesis
        by (simp add: choose_swap_cases [OF less.prems(2)])
           (force simp: clock_tick_def accessed_frames_def user_frame_def)
    next
      case True
      let ?n = "clock_tick (clear_accessed m)"
      have "card (accessed_frames ?n) < card (accessed_frames m)"
        using True finite_accessed [of m] by (simp only: tick_frames accessed_clear card_Diff1_less)
      then have "card (accessed_frames ?n) * 8192 + hand_distance i ?n
          < card (accessed_frames m) * 8192 + hand_distance i m"
        using hand_distance_bound [of i ?n] by linarith
      from less.hyps [OF this] less.prems(1) clock_tick_ptr [of "clear_accessed m"]
      obtain k m' where k: "choose_swap ?n = Some (frame_addr k, m')" "user_frame m k"
          "k \<notin> accessed_frames m'"
        and tags: "\<And>x. free_mem_map m' x = free_mem_map ?n x
          \<or> free_mem_map m' x = free_mem_map ?n x AND NOT MAP_PAGE_ACCESSED"
        and m': "m' = ?n\<lparr>free_mem_map := free_mem_map m', clock_ptr := clock_ptr m'\<rparr>"
        by auto
      have "free_mem_map m' x = free_mem_map m x
          \<or> free_mem_map m' x = free_mem_map m x AND NOT MAP_PAGE_ACCESSED" for x
        using tags [of x]
        by (auto simp: clock_tick_def clear_accessed_def and.assoc split: if_splits)
      moreover have "m' = m\<lparr>free_mem_map := free_mem_map m', clock_ptr := clock_ptr m'\<rparr>"
        by (subst m') (simp add: clock_tick_def clear_accessed_def)
      ultimately show ?thesis using k user True
        by (auto simp: choose_swap_cases [OF less.prems(2)])
    qed
  qed
qed

text \<open>With kernel frames only the hand turns for ever.\<close>

lemma choose_swap_Some_user:
  fixes m :: "'a mm_state"
  assumes "choose_swap m = Some r"
  shows "clock_ptr m < 8192 \<longrightarrow> (\<exists>i. user_frame m i)"
proof (rule choose_swap.raw_induct [OF _ assms], intro impI)
  fix f :: "'a mm_state \<Rightarrow> (u64 \<times> 'a mm_state) option" and m :: "'a mm_state" and r
  let ?c = "clock_ptr m"
  assume IH: "\<And>m r. f m = Some r \<Longrightarrow> clock_ptr m < 8192 \<longrightarrow> (\<exists>i. user_frame m i)"
    and body: "(if free_mem_map m ?c AND KERNEL_PAGE = 0
      then if free_mem_map m ?c AND MAP_PAGE_ACCESSED = 0
           then Some (of_nat ?c * PAGE_SIZE + INIT_KERNEL_STACK,
                      m\<lparr>clock_ptr := (?c + 1) mod MEM_PAGE_NUM\<rparr>)
           else f (m\<lparr>
                  free_mem_map := (free_mem_map m)(?c :=
                    free_mem_map m ?c AND NOT MAP_PAGE_ACCESSED),
                  clock_ptr := (?c + 1) mod MEM_PAGE_NUM\<rparr>)
      else f (m\<lparr>clock_ptr := (?c + 1) mod MEM_PAGE_NUM\<rparr>)) = Some r"
    and c: "?c < 8192"
  show "\<exists>i. user_frame m i"
  proof (cases "user_frame m ?c")
    case False
    with c have "free_mem_map m ?c AND KERNEL_PAGE \<noteq> 0" by (simp add: user_frame_def)
    with body have "f (clock_tick m) = Some r" by (simp add: clock_tick_def)
    from IH [OF this] show ?thesis by (simp add: clock_tick_ptr)
  qed blast
qed

lemma choose_swap_returns_iff:
  "clock_ptr m < 8192 \<Longrightarrow> choose_swap m = None \<longleftrightarrow> (\<forall>i. \<not> user_frame m i)"
  using choose_swap_terminates choose_swap_Some_user by (metis not_None_eq)

section \<open>Page tables as a tree\<close>

text \<open>The index in the pool of the table that an entry points to.\<close>

definition table_of :: "u64 \<Rightarrow> nat" where
  "table_of e = unat ((pa2kva (get_pa e) - INIT_KERNEL_PAGETABLE) div PAGE_SIZE)"

definition is_table_entry :: "u64 \<Rightarrow> bool" where
  "is_table_entry e \<longleftrightarrow> get_attribute e PAGE_PRESENT \<noteq> 0 \<and> table_of e < 8192
     \<and> pa2kva (get_pa e) = pgt_addr (table_of e)"

fun tab :: "(u64 \<Rightarrow> u64) \<Rightarrow> nat \<Rightarrow> u64 list \<Rightarrow> nat option" where
  "tab m j [] = Some j"
| "tab m j (v # vs) = (if m (entry_addr j v) = 0 then None else tab m (table_of (m (entry_addr j v))) vs)"

text \<open>
  Paths into the user part of the address space. Its top-level index is below 256 and not 1:
  entry 1, the gigabyte of the boot mapping, points to a table outside the pool that
  \<open>setup_vm\<close> made and \<open>share_pgtable\<close> copies into every page directory.
\<close>

definition user_top :: "u64 \<Rightarrow> bool" where
  "user_top v \<longleftrightarrow> unat v < 256 \<and> v \<noteq> 1"

definition user_path :: "u64 list \<Rightarrow> bool" where
  "user_path p \<longleftrightarrow> length p \<le> 2 \<and> (\<forall>v \<in> set p. unat v < 512) \<and> (p \<noteq> [] \<longrightarrow> user_top (hd p))"

definition inner_slot :: "u64 list \<Rightarrow> u64 \<Rightarrow> bool" where
  "inner_slot p v \<longleftrightarrow> user_path (p @ [v])"

text \<open>The tables below a page directory form a tree of allocated pool pages.\<close>

definition wf_pgdir :: "'d mm_state \<Rightarrow> nat \<Rightarrow> bool" where
  "wf_pgdir m j \<longleftrightarrow>
     (\<forall>p k. user_path p \<longrightarrow> tab (mem m) j p = Some k \<longrightarrow> k < 8192 \<and> free_pgt_map m k \<noteq> 0)
     \<and> (\<forall>p k v. inner_slot p v \<longrightarrow> tab (mem m) j p = Some k \<longrightarrow>
           mem m (entry_addr k v) = 0 \<or> is_table_entry (mem m (entry_addr k v)))
     \<and> (\<forall>p q k. user_path p \<longrightarrow> user_path q \<longrightarrow> tab (mem m) j p = Some k \<longrightarrow>
           tab (mem m) j q = Some k \<longrightarrow> p = q)"

lemma wf_pgdirD:
  assumes "wf_pgdir m j"
  shows "user_path p \<Longrightarrow> tab (mem m) j p = Some k \<Longrightarrow> k < 8192"
    and "user_path p \<Longrightarrow> tab (mem m) j p = Some k \<Longrightarrow> free_pgt_map m k \<noteq> 0"
    and "inner_slot p v \<Longrightarrow> tab (mem m) j p = Some k \<Longrightarrow> mem m (entry_addr k v) \<noteq> 0 \<Longrightarrow>
      is_table_entry (mem m (entry_addr k v))"
    and "user_path p \<Longrightarrow> user_path q \<Longrightarrow> tab (mem m) j p = Some k \<Longrightarrow>
      tab (mem m) j q = Some k \<Longrightarrow> p = q"
  using assms unfolding wf_pgdir_def by blast+

lemma inner_slotD: "inner_slot p v \<Longrightarrow> user_path p \<and> user_path (p @ [v]) \<and> unat v < 512"
  by (cases p) (auto simp: inner_slot_def user_path_def)

lemma user_path_Nil [simp]: "user_path []" by (simp add: user_path_def)

lemma tab_snoc:
  "tab m j (p @ [v]) = (case tab m j p of None \<Rightarrow> None
     | Some k \<Rightarrow> if m (entry_addr k v) = 0 then None else Some (table_of (m (entry_addr k v))))"
  by (induction p arbitrary: j) auto

section \<open>Entries that point to pages of the pools\<close>

definition pool_page :: "u64 \<Rightarrow> bool" where
  "pool_page a \<longleftrightarrow> 0xffffffc050000000 \<le> unat a \<and> unat a < 0xffffffc060000000 \<and> 4096 dvd unat a"

lemma pool_pages [simp]:
  "i < 8192 \<Longrightarrow> pool_page (frame_addr i)" "i < 8192 \<Longrightarrow> pool_page (pgt_addr i)"
  by (simp_all add: pool_page_def unat_frame_addr unat_pgt_addr dvd_add)

lemma pool_page_direct: "pool_page a \<Longrightarrow> in_direct_map a"
proof -
  assume a: "pool_page a"
  have "unat (drop_bit 32 a) = unat a div 2 ^ 32"
    by (metis drop_bit_eq_div unat_drop_bit_eq)
  also have "\<dots> = 0xffffffc0" using a by (intro div_nat_eqI) (auto simp: pool_page_def)
  finally have "unat (drop_bit 32 a) = unat (0xffffffc0 :: u64)" by simp
  then show ?thesis by (simp add: in_direct_map_def word_unat_eq_iff)
qed

lemma pool_page_aligned: "pool_page a \<Longrightarrow> get_page_base a = a"
proof -
  assume a: "pool_page a"
  have "unat (take_bit 12 a) = take_bit 12 (unat a)" by (simp add: unsigned_take_bit_eq)
  then have "unat (take_bit 12 a) = unat a mod 4096" unfolding take_bit_eq_mod [of 12 "unat a"] by simp
  then have t: "take_bit 12 a = 0" using a by (simp add: pool_page_def unsigned_eq_0_iff)
  have "bit a n \<Longrightarrow> 12 \<le> n" for n
  proof (rule ccontr)
    assume "bit a n" "\<not> 12 \<le> n"
    then have "bit (take_bit 12 a) n" by (simp add: bit_simps)
    with t show False by simp
  qed
  then show ?thesis by (intro bit_word_eqI) (auto simp: bit_get_page_base)
qed

lemma pa2kva_entry:
  assumes "pool_page a" "drop_bit 10 b = 0"
  shows "pa2kva (get_pa (set_attribute (set_pfn e (drop_bit NORMAL_PAGE_SHIFT (kva2pa a))) b)) = a"
proof -
  have "get_page_base (take_bit 56 (kva2pa a)) = kva2pa (get_page_base a)"
    by (rule bit_word_eqI) (auto simp: bit_pgtable bit_simps)
  then show ?thesis
    using assms pa2kva_kva2pa [OF pool_page_direct [OF assms(1)]] pool_page_aligned [OF assms(1)]
    by (simp add: get_pa_set_attribute get_pa_set_pfn)
qed

lemma attribute_bits: "drop_bit 10 PAGE_PRESENT = 0" "drop_bit 10 leaf_attributes = 0"
  by (simp_all add: leaf_attributes_def page_bits push_bit_eq_mult)

lemma present_set: "get_attribute (set_attribute e b) PAGE_PRESENT \<noteq> 0" if "bit b 0"
proof -
  have "bit (get_attribute (set_attribute e b) PAGE_PRESENT) 0"
    using that by (simp add: get_attribute_def set_attribute_def PAGE_PRESENT_def bit_simps)
  then show ?thesis by auto
qed

lemma present_bits: "bit PAGE_PRESENT 0" "bit leaf_attributes 0"
  by (simp_all add: leaf_attributes_def page_bits bit_simps)

lemma attribute_zero [simp]: "get_attribute 0 b = 0" by (simp add: get_attribute_def)

section \<open>Adding a table\<close>

definition table_entry :: "nat \<Rightarrow> u64" where
  "table_entry k =
     set_attribute (set_pfn 0 (drop_bit NORMAL_PAGE_SHIFT (kva2pa (pgt_addr k)))) PAGE_PRESENT"

lemma pa2kva_table_entry [simp]: "k < 8192 \<Longrightarrow> pa2kva (get_pa (table_entry k)) = pgt_addr k"
  by (simp add: table_entry_def pa2kva_entry attribute_bits)

lemma table_of_table_entry [simp]: "k < 8192 \<Longrightarrow> table_of (table_entry k) = k"
  by (simp add: table_of_def pgt_addr_def PAGE_SIZE_def unat_div unat_word_ariths unat_of_nat)

lemma table_entry_ok [simp]: "k < 8192 \<Longrightarrow> is_table_entry (table_entry k)"
  by (simp add: is_table_entry_def) (simp add: table_entry_def present_set present_bits)

lemma is_table_entry_nonzero: "is_table_entry e \<Longrightarrow> e \<noteq> 0"
  by (auto simp: is_table_entry_def)

text \<open>The contents of the tables once the free page \<open>t\<close> hangs below slot \<open>v\<close> of table \<open>k\<close>.\<close>

definition add_table :: "nat \<Rightarrow> u64 \<Rightarrow> nat \<Rightarrow> u8 \<Rightarrow> 'd mm_state \<Rightarrow> 'd mm_state" where
  "add_table k v t aid m =
     (let m1 = clean_page (pgt_addr t) (m\<lparr>free_pgt_map := (free_pgt_map m)(t := aid)\<rparr>)
      in m1\<lparr>mem := (mem m1)(entry_addr k v := table_entry t)\<rparr>)"

lemma mem_add_table:
  assumes "t < 8192" "k < 8192" "k' < 8192" "unat v < 512" "unat w < 512" "k \<noteq> t"
  shows "mem (add_table k v t aid m) (entry_addr k' w) =
    (if k' = k \<and> w = v then table_entry t else if k' = t then 0 else mem m (entry_addr k' w))"
  using assms by (simp add: add_table_def Let_def mem_clean_pgt entry_addr_inj)

lemma pgt_map_add_table [simp]:
  "free_pgt_map (add_table k v t aid m) = (free_pgt_map m)(t := aid)"
  by (simp add: add_table_def Let_def)

lemma add_table_fields [simp]:
  "free_mem_map (add_table k v t aid m) = free_mem_map m"
  "va_info (add_table k v t aid m) = va_info m" "swap_info (add_table k v t aid m) = swap_info m"
  by (simp_all add: add_table_def Let_def)

lemma ensure_table_new:
  assumes "mem m (entry_addr k v) = 0" "k < 8192" "unat v < 512" "free_pgt_map m k \<noteq> 0"
    and "find_from (\<lambda>i. free_pgt_map m i = 0) 0 PGT_PAGE_NUM = Some t"
  shows "ensure_table aid (entry_addr k v) m = Some (pgt_addr t, add_table k v t aid m)"
proof -
  have t: "t < 8192" "free_pgt_map m t = 0" using find_from_SomeD [OF assms(5)] by simp_all
  then have kt: "t \<noteq> k" using assms(4) by auto
  have "mem (clean_page (pgt_addr t) (m\<lparr>free_pgt_map := (free_pgt_map m)(t := aid)\<rparr>)) (entry_addr k v) = 0"
    using kt assms(1) by (simp add: mem_clean_pgt t(1) assms(2,3))
  then show ?thesis
    using assms(1-3,5) t
    by (simp add: ensure_table_def load64_def store64_def allocPagetable_def add_table_def Let_def
        table_entry_def [symmetric])
qed

lemma ensure_table_old:
  assumes "is_table_entry (mem m (entry_addr k v))" "k < 8192" "unat v < 512"
  shows "ensure_table aid (entry_addr k v) m = Some (pgt_addr (table_of (mem m (entry_addr k v))), m)"
  using assms is_table_entry_nonzero [OF assms(1)]
  by (simp add: ensure_table_def load64_def is_table_entry_def)

lemma tab_add_table:
  assumes wf: "wf_pgdir m j" and slot: "inner_slot p v" and k: "tab (mem m) j p = Some k"
    and zero: "mem m (entry_addr k v) = 0" and t: "t < 8192" "free_pgt_map m t = 0"
  shows "user_path q \<Longrightarrow> tab (mem (add_table k v t aid m)) j q =
    (if q = p @ [v] then Some t else tab (mem m) j q)"
proof (induction q rule: rev_induct)
  case (snoc w q)
  note W = wf_pgdirD [OF wf]
  let ?m = "mem (add_table k v t aid m)"
  have uq: "user_path q" "unat w < 512" using snoc.prems by (cases q; auto simp: user_path_def)+
  have v: "user_path p" "unat v < 512" using inner_slotD [OF slot] by simp_all
  have kb: "k < 8192" "k \<noteq> t" using W(1,2) [OF v(1) k] t by auto
  note IH = snoc.IH [OF uq(1)]
  have none: "tab (mem m) j (p @ [v]) = None" using k zero by (simp add: tab_snoc)
  show ?case
  proof (cases "q = p @ [v]")
    case True
    then have "tab ?m j q = Some t" using IH by simp
    then have "tab ?m j (q @ [w]) = None"
      unfolding tab_snoc using kb t uq v by (simp add: mem_add_table)
    moreover from none True have "tab (mem m) j q = None" by simp
    then have "tab (mem m) j (q @ [w]) = None" by (simp add: tab_snoc)
    ultimately show ?thesis using True by simp
  next
    case False
    show ?thesis
    proof (cases "tab (mem m) j q")
      case None
      then have "q \<noteq> p" using k by auto
      then show ?thesis using IH False None by (simp add: tab_snoc)
    next
      case (Some k')
      have k': "k' < 8192" "k' \<noteq> t" using W(1,2) [OF uq(1) Some] t by auto
      have "k' = k \<longleftrightarrow> q = p" using W(4) [OF uq(1) v(1) Some] k Some by auto
      then show ?thesis using IH False Some kb t uq v k' is_table_entry_nonzero [OF table_entry_ok]
        by (auto simp: tab_snoc mem_add_table)
    qed
  qed
qed simp

lemma user_path_prefix: "user_path (q @ [w]) \<Longrightarrow> user_path q" by (cases q) (auto simp: user_path_def)

lemma wf_add_table:
  assumes wf: "wf_pgdir m j" and slot: "inner_slot p v" and k: "tab (mem m) j p = Some k"
    and zero: "mem m (entry_addr k v) = 0" and t: "t < 8192" "free_pgt_map m t = 0"
    and aid: "aid \<noteq> 0"
  shows "wf_pgdir (add_table k v t aid m) j"
  unfolding wf_pgdir_def
proof (intro conjI allI impI)
  note W = wf_pgdirD [OF wf] and T = tab_add_table [OF wf slot k zero t]
  let ?m = "add_table k v t aid m"
  have v: "user_path p" "user_path (p @ [v])" "unat v < 512" using inner_slotD [OF slot] by simp_all
  have kb: "k < 8192" "k \<noteq> t" using W(1,2) [OF v(1) k] t by auto
  fix q k' assume q: "user_path q" "tab (mem ?m) j q = Some k'"
  show "k' < 8192" using q T [OF q(1)] W(1) [OF q(1)] t by (auto split: if_splits)
  show "free_pgt_map ?m k' \<noteq> 0" using q T [OF q(1)] W(2) [OF q(1)] t aid by (auto split: if_splits)
  fix r assume r: "user_path r" "tab (mem ?m) j r = Some k'"
  have "tab (mem m) j q = Some k' \<Longrightarrow> k' \<noteq> t" "tab (mem m) j r = Some k' \<Longrightarrow> k' \<noteq> t"
    using W(2) [OF q(1)] W(2) [OF r(1)] t by auto
  then show "q = r" using q r T [OF q(1)] T [OF r(1)] W(4) [OF q(1) r(1)]
    by (auto split: if_splits)
next
  note W = wf_pgdirD [OF wf] and T = tab_add_table [OF wf slot k zero t]
  let ?m = "add_table k v t aid m"
  have v: "user_path p" "unat v < 512" using inner_slotD [OF slot] by simp_all
  have kb: "k < 8192" "k \<noteq> t" using W(1,2) [OF v(1) k] t by auto
  fix q k' w assume q: "inner_slot q w" "tab (mem ?m) j q = Some k'"
  have uq: "user_path q" "unat w < 512" using inner_slotD [OF q(1)] by simp_all
  show "mem ?m (entry_addr k' w) = 0 \<or> is_table_entry (mem ?m (entry_addr k' w))"
  proof (cases "q = p @ [v]")
    case True
    then have "k' = t" using q T [OF uq(1)] by simp
    then show ?thesis using kb t uq v by (simp add: mem_add_table)
  next
    case False
    then have k': "tab (mem m) j q = Some k'" using q T [OF uq(1)] by simp
    have "k' < 8192" "k' \<noteq> t" using W(1,2) [OF uq(1) k'] t by auto
    then show ?thesis using W(3) [OF q(1) k'] kb t uq v by (auto simp: mem_add_table)
  qed
qed

section \<open>The address space of a page directory\<close>

definition user_va :: "u64 \<Rightarrow> bool" where
  "user_va va \<longleftrightarrow> user_top (get_vpn2 va)"

definition table_path :: "u64 \<Rightarrow> u64 list" where
  "table_path va = [get_vpn2 va, get_vpn1 va]"

text \<open>The leaf entry for a virtual address, 0 when there is none.\<close>

definition pagemap :: "(u64 \<Rightarrow> u64) \<Rightarrow> nat \<Rightarrow> u64 \<Rightarrow> u64" where
  "pagemap m j va =
     (case tab m j (table_path va) of None \<Rightarrow> 0 | Some k \<Rightarrow> m (entry_addr k (get_vpn0 va)))"

lemma user_paths:
  assumes "user_va va"
  shows "user_path (table_path va)" "inner_slot [] (get_vpn2 va)"
    "inner_slot [get_vpn2 va] (get_vpn1 va)"
  using assms vpn_bound [of va] by (simp_all add: table_path_def inner_slot_def user_path_def user_va_def)

lemma get_pte_tab:
  assumes wf: "wf_pgdir m j" and va: "user_va va"
  shows "get_pte va (kva2pa (pgt_addr j)) (mem m) = Some (case tab (mem m) j (table_path va) of
     None \<Rightarrow> 0 | Some k \<Rightarrow> if mem m (entry_addr k (get_vpn0 va)) = 0 then 0 else entry_addr k (get_vpn0 va))"
proof -
  note W = wf_pgdirD [OF wf] and u = user_paths [OF va] and b = vpn_bound [of va]
  have j: "j < 8192" using W(1) [of "[]" j] by simp
  have pj: "pa2kva (kva2pa (pgt_addr j)) = pgt_addr j" using j by (simp add: pa2kva_kva2pa pool_page_direct)
  let ?e0 = "mem m (entry_addr j (get_vpn2 va))"
  show ?thesis
  proof (cases "?e0 = 0")
    case True
    then show ?thesis using j b pj
      by (simp add: get_pte_def load64_def table_path_def entry_addr_def [symmetric])
  next
    case False
    then have e0: "is_table_entry ?e0" using W(3) [OF u(2), of j] by simp
    define k1 where "k1 = table_of ?e0"
    have k1: "tab (mem m) j [get_vpn2 va] = Some k1" using False by (simp add: k1_def)
    have k1': "k1 < 8192" "pa2kva (get_pa ?e0) = pgt_addr k1" "get_attribute ?e0 PAGE_PRESENT \<noteq> 0"
      using e0 by (auto simp: is_table_entry_def k1_def)
    let ?e1 = "mem m (entry_addr k1 (get_vpn1 va))"
    show ?thesis
    proof (cases "?e1 = 0")
      case True
      then show ?thesis using j b pj False k1' k1_def
        by (simp add: get_pte_def load64_def table_path_def entry_addr_def [symmetric])
    next
      case e1z: False
      then have e1: "is_table_entry ?e1" using W(3) [OF u(3) k1] by simp
      define k0 where "k0 = table_of ?e1"
      have k0': "k0 < 8192" "pa2kva (get_pa ?e1) = pgt_addr k0" "get_attribute ?e1 PAGE_PRESENT \<noteq> 0"
        using e1 by (auto simp: is_table_entry_def k0_def)
      have t: "tab (mem m) j (table_path va) = Some k0"
        using False e1z k1_def k0_def by (simp add: table_path_def)
      show ?thesis
        using j b pj k1' k0' unfolding t
        by (simp add: get_pte_def load64_def entry_addr_def [symmetric])
    qed
  qed
qed

lemma get_kva_pagemap:
  assumes wf: "wf_pgdir m j" and va: "user_va va" and e: "pagemap (mem m) j va \<noteq> 0"
  shows "get_kva va (kva2pa (pgt_addr j)) (mem m) =
    Some (pa2kva (get_pa (pagemap (mem m) j va)) + get_page_offset va)"
proof -
  from e obtain k where k: "tab (mem m) j (table_path va) = Some k" "mem m (entry_addr k (get_vpn0 va)) \<noteq> 0"
    by (auto simp: pagemap_def split: option.splits)
  have "k < 8192" using wf_pgdirD(1) [OF wf user_paths(1) [OF va] k(1)] .
  then show ?thesis
    using get_pte_tab [OF wf va] k vpn_bound [of va]
    by (simp add: get_kva_def pagemap_def load64_def)
qed

lemma pagemap_add_table:
  assumes wf: "wf_pgdir m j" and slot: "inner_slot p v" and k: "tab (mem m) j p = Some k"
    and zero: "mem m (entry_addr k v) = 0" and t: "t < 8192" "free_pgt_map m t = 0"
    and va: "user_va va"
  shows "pagemap (mem (add_table k v t aid m)) j va = pagemap (mem m) j va"
proof -
  note W = wf_pgdirD [OF wf] and T = tab_add_table [OF wf slot k zero t]
  have u: "user_path (table_path va)" "unat (get_vpn0 va) < 512"
    using user_paths [OF va] vpn_bound [of va] by auto
  have v: "user_path p" "user_path (p @ [v])" "unat v < 512" using inner_slotD [OF slot] by simp_all
  have kb: "k < 8192" "k \<noteq> t" using W(1,2) [OF v(1) k] t by auto
  have len: "table_path va \<noteq> p" using v(2) by (auto simp: table_path_def user_path_def)
  have none: "tab (mem m) j (p @ [v]) = None" using k zero by (simp add: tab_snoc)
  show ?thesis
  proof (cases "table_path va = p @ [v]")
    case True
    then show ?thesis using T [OF u(1)] none kb t u v by (simp add: pagemap_def mem_add_table)
  next
    case False
    show ?thesis
    proof (cases "tab (mem m) j (table_path va)")
      case None
      then show ?thesis using T [OF u(1)] False by (simp add: pagemap_def)
    next
      case (Some k')
      have "k' < 8192" "k' \<noteq> t" "k' \<noteq> k"
        using W(1,2) [OF u(1) Some] W(4) [OF u(1) v(1) Some] k t len by auto
      then show ?thesis using T [OF u(1)] False Some kb t u v by (simp add: pagemap_def mem_add_table)
    qed
  qed
qed

definition free_tables :: "'d mm_state \<Rightarrow> nat set" where
  "free_tables m = {i. i < 8192 \<and> free_pgt_map m i = 0}"

lemma free_table_found:
  assumes "free_tables m \<noteq> {}"
  obtains t where "find_from (\<lambda>i. free_pgt_map m i = 0) 0 PGT_PAGE_NUM = Some t"
    "t < 8192" "free_pgt_map m t = 0"
proof -
  obtain i where "i < 8192" "free_pgt_map m i = 0" using assms by (auto simp: free_tables_def)
  then obtain t where t: "find_from (\<lambda>i. free_pgt_map m i = 0) 0 PGT_PAGE_NUM = Some t"
    using find_from_exists [of 0 i PGT_PAGE_NUM "\<lambda>i. free_pgt_map m i = 0"] by auto
  from find_from_SomeD [OF t] that [OF t] show thesis by simp
qed

lemma ensure_table_step:
  assumes wf: "wf_pgdir m j" and slot: "inner_slot p v" and k: "tab (mem m) j p = Some k"
    and free: "Suc n \<le> card (free_tables m)" and aid: "aid \<noteq> 0"
  obtains t m' where "ensure_table aid (entry_addr k v) m = Some (pgt_addr t, m')"
    "wf_pgdir m' j" "tab (mem m') j (p @ [v]) = Some t" "t < 8192"
    "\<And>va. user_va va \<Longrightarrow> pagemap (mem m') j va = pagemap (mem m) j va"
    "free_mem_map m' = free_mem_map m" "va_info m' = va_info m" "swap_info m' = swap_info m"
    "n \<le> card (free_tables m')"
proof (cases "mem m (entry_addr k v) = 0")
  note W = wf_pgdirD [OF wf]
  have v: "user_path p" "user_path (p @ [v])" "unat v < 512" using inner_slotD [OF slot] by simp_all
  have kb: "k < 8192" "free_pgt_map m k \<noteq> 0" using W(1,2) [OF v(1) k] by auto
  {
    case True
    have "free_tables m \<noteq> {}" using free by auto
    then obtain t where t: "find_from (\<lambda>i. free_pgt_map m i = 0) 0 PGT_PAGE_NUM = Some t"
      "t < 8192" "free_pgt_map m t = 0" by (rule free_table_found)
    have ft: "free_tables (add_table k v t aid m) = free_tables m - {t}"
      using aid by (auto simp: free_tables_def)
    have "t \<in> free_tables m" using t by (simp add: free_tables_def)
    then have "card (free_tables m - {t}) = card (free_tables m) - 1" by simp
    then have "n \<le> card (free_tables (add_table k v t aid m))" using free ft by simp
    then show thesis
      using that [OF ensure_table_new [OF True kb(1) v(3) kb(2) t(1)]
          wf_add_table [OF wf slot k True t(2,3) aid] _ t(2)
          pagemap_add_table [OF wf slot k True t(2,3)]]
        tab_add_table [OF wf slot k True t(2,3) v(2)] by simp
  next
    case False
    have e: "is_table_entry (mem m (entry_addr k v))" using W(3) [OF slot k False] .
    have "tab (mem m) j (p @ [v]) = Some (table_of (mem m (entry_addr k v)))"
      using k False by (simp add: tab_snoc)
    then show thesis
      using that [OF ensure_table_old [OF e kb(1) v(3)] wf] e free by (simp add: is_table_entry_def)
  }
qed

section \<open>Writing a leaf\<close>

definition set_leaf :: "nat \<Rightarrow> u64 \<Rightarrow> u64 \<Rightarrow> (u64 \<Rightarrow> u64) \<Rightarrow> (u64 \<Rightarrow> u64)" where
  "set_leaf k w e m = m(entry_addr k w := e)"

lemma tab_set_leaf:
  assumes wf: "wf_pgdir m j" and k: "tab (mem m) j (table_path va) = Some k" and va: "user_va va"
    and w: "unat w < 512"
  shows "user_path q \<Longrightarrow> tab (set_leaf k w e (mem m)) j q = tab (mem m) j q"
proof (induction q rule: rev_induct)
  case (snoc x q)
  note W = wf_pgdirD [OF wf] and u = user_paths [OF va]
  have uq: "user_path q" "unat x < 512" "length q < 2" using snoc.prems by (cases q; auto simp: user_path_def)+
  have kb: "k < 8192" using W(1) [OF u(1) k] .
  show ?case
  proof (cases "tab (mem m) j q")
    case None
    then show ?thesis using snoc.IH [OF uq(1)] by (simp add: tab_snoc)
  next
    case (Some k')
    have "q \<noteq> table_path va" using uq(3) by (auto simp: table_path_def)
    then have "k' \<noteq> k" "k' < 8192" using W(1) [OF uq(1) Some] W(4) [OF uq(1) u(1) Some] k by auto
    then show ?thesis using snoc.IH [OF uq(1)] Some kb w uq
      by (simp add: tab_snoc set_leaf_def entry_addr_inj)
  qed
qed simp

lemma wf_set_leaf:
  assumes wf: "wf_pgdir m j" and k: "tab (mem m) j (table_path va) = Some k" and va: "user_va va"
    and w: "unat w < 512"
  shows "wf_pgdir (m\<lparr>mem := set_leaf k w e (mem m)\<rparr>) j"
  unfolding wf_pgdir_def
proof (intro conjI allI impI)
  note W = wf_pgdirD [OF wf] and T = tab_set_leaf [OF wf k va w]
  let ?m = "m\<lparr>mem := set_leaf k w e (mem m)\<rparr>"
  fix q k' assume q: "user_path q" "tab (mem ?m) j q = Some k'"
  then show "k' < 8192" "free_pgt_map ?m k' \<noteq> 0" using W(1,2) [OF q(1)] T [OF q(1)] by simp_all
  fix r assume r: "user_path r" "tab (mem ?m) j r = Some k'"
  then show "q = r" using q T [OF q(1)] T [OF r(1)] W(4) [OF q(1) r(1)] by simp
next
  note W = wf_pgdirD [OF wf] and T = tab_set_leaf [OF wf k va w] and u = user_paths [OF va]
  let ?m = "m\<lparr>mem := set_leaf k w e (mem m)\<rparr>"
  fix q k' x assume q: "inner_slot q x" "tab (mem ?m) j q = Some k'"
  have uq: "user_path q" "unat x < 512" "q \<noteq> table_path va"
    using inner_slotD [OF q(1)] by (auto simp: table_path_def user_path_def)
  have k': "tab (mem m) j q = Some k'" using q(2) T [OF uq(1)] by simp
  have "k' \<noteq> k" "k' < 8192" "k < 8192"
    using W(1) [OF uq(1) k'] W(1) [OF u(1) k] W(4) [OF uq(1) u(1) k'] k uq(3) by auto
  then show "mem ?m (entry_addr k' x) = 0 \<or> is_table_entry (mem ?m (entry_addr k' x))"
    using W(3) [OF q(1) k'] w uq by (auto simp: set_leaf_def entry_addr_inj)
qed

definition same_page :: "u64 \<Rightarrow> u64 \<Rightarrow> bool" where
  "same_page va va' \<longleftrightarrow> table_path va = table_path va' \<and> get_vpn0 va = get_vpn0 va'"

lemma pagemap_set_leaf:
  assumes wf: "wf_pgdir m j" and k: "tab (mem m) j (table_path va) = Some k" and va: "user_va va"
    and va': "user_va va'"
  shows "pagemap (set_leaf k (get_vpn0 va) e (mem m)) j va' =
    (if same_page va va' then e else pagemap (mem m) j va')"
proof -
  note W = wf_pgdirD [OF wf] and u = user_paths(1) [OF va] and u' = user_paths(1) [OF va']
  note b = vpn_bound(3) [of va] vpn_bound(3) [of va']
  note T = tab_set_leaf [OF wf k va b(1) u']
  have kb: "k < 8192" using W(1) [OF u k] .
  show ?thesis
  proof (cases "tab (mem m) j (table_path va')")
    case None
    then show ?thesis using T k by (auto simp: pagemap_def same_page_def)
  next
    case (Some k')
    have "k' < 8192" using W(1) [OF u' Some] .
    moreover have "k' = k \<longleftrightarrow> table_path va = table_path va'" using W(4) [OF u u' k] Some k by auto
    ultimately show ?thesis using T Some kb b
      by (auto simp: pagemap_def same_page_def set_leaf_def entry_addr_inj)
  qed
qed

section \<open>\<open>alloc_page_helper\<close> extends the map\<close>

lemma same_entries:
  assumes wf: "wf_pgdir m j" and pgt: "free_pgt_map m' = free_pgt_map m"
    and mem: "\<And>k w. k < 8192 \<Longrightarrow> unat w < 512 \<Longrightarrow> mem m' (entry_addr k w) = mem m (entry_addr k w)"
  shows "user_path q \<Longrightarrow> tab (mem m') j q = tab (mem m) j q" "wf_pgdir m' j"
    "user_va va \<Longrightarrow> pagemap (mem m') j va = pagemap (mem m) j va"
proof -
  note W = wf_pgdirD [OF wf]
  show T: "user_path q \<Longrightarrow> tab (mem m') j q = tab (mem m) j q" for q
  proof (induction q rule: rev_induct)
    case (snoc x q)
    then have uq: "user_path q" "unat x < 512" by (cases q; auto simp: user_path_def)+
    show ?case
    proof (cases "tab (mem m) j q")
      case (Some k)
      with W(1) [OF uq(1) Some] show ?thesis using snoc.IH [OF uq(1)] uq by (simp add: tab_snoc mem)
    qed (use snoc.IH [OF uq(1)] in \<open>simp add: tab_snoc\<close>)
  qed simp
  show "wf_pgdir m' j"
    unfolding wf_pgdir_def
  proof (intro conjI allI impI)
    fix q k assume q: "user_path q" "tab (mem m') j q = Some k"
    then show "k < 8192" "free_pgt_map m' k \<noteq> 0" using W(1,2) [OF q(1)] T [OF q(1)] pgt by simp_all
    fix r assume r: "user_path r" "tab (mem m') j r = Some k"
    then show "q = r" using q T [OF q(1)] T [OF r(1)] W(4) [OF q(1) r(1)] by simp
  next
    fix q k x assume q: "inner_slot q x" "tab (mem m') j q = Some k"
    have uq: "user_path q" "unat x < 512" using inner_slotD [OF q(1)] by auto
    have k: "tab (mem m) j q = Some k" using q(2) T [OF uq(1)] by simp
    show "mem m' (entry_addr k x) = 0 \<or> is_table_entry (mem m' (entry_addr k x))"
      using W(3) [OF q(1) k] W(1) [OF uq(1) k] uq by (auto simp: mem)
  qed
  assume va: "user_va va"
  show "pagemap (mem m') j va = pagemap (mem m) j va"
    using T [OF user_paths(1) [OF va]] W(1) [OF user_paths(1) [OF va]] vpn_bound [of va]
    by (auto simp: pagemap_def mem split: option.splits)
qed

lemma va_mask_simps [simp]:
  "get_vpn2 (va AND VA_MASK) = get_vpn2 va" "get_vpn1 (va AND VA_MASK) = get_vpn1 va"
  "get_vpn0 (va AND VA_MASK) = get_vpn0 va"
  by (simp_all add: get_vpn2_def get_vpn1_def get_vpn0_def and.assoc)

lemma alloc_page_helper_result:
  assumes wf: "wf_pgdir m j" and va: "user_va va" and aid: "aid \<noteq> 0"
    and frame: "find_from (\<lambda>i. free_mem_map m i = 0) 0 MEM_PAGE_NUM = Some i"
    and tables: "2 \<le> card (free_tables m)"
  shows "\<exists>m' e. alloc_page_helper B ps va (pgt_addr j) aid m = Some (frame_addr i, m')
    \<and> wf_pgdir m' j
    \<and> free_mem_map m' = (free_mem_map m)(i := aid)
    \<and> va_info m' = (va_info m)(i := get_page_base (va AND VA_MASK))
    \<and> swap_info m' = swap_info m
    \<and> (\<forall>va'. user_va va' \<longrightarrow> pagemap (mem m') j va' =
          (if same_page va va' then e else pagemap (mem m) j va'))
    \<and> pa2kva (get_pa e) = frame_addr i \<and> get_attribute e leaf_attributes = leaf_attributes"
proof -
  note b = vpn_bound [of va] and u = user_paths [OF va]
  have i: "i < 8192" using free_frame_bound [OF frame] by simp
  define m1 where "m1 = clean_page (frame_addr i) (m\<lparr>free_mem_map := (free_mem_map m)(i := aid)\<rparr>)"
  have m1: "mem m1 (entry_addr k w) = mem m (entry_addr k w)" if "k < 8192" "unat w < 512" for k w
    by (simp add: m1_def mem_clean_frame i that)
  have f1: "free_pgt_map m1 = free_pgt_map m" "free_mem_map m1 = (free_mem_map m)(i := aid)"
    "va_info m1 = va_info m" "swap_info m1 = swap_info m" by (simp_all add: m1_def)
  have wf1: "wf_pgdir m1 j" by (rule same_entries(2) [OF wf f1(1) m1])
  have pm1: "user_va va' \<Longrightarrow> pagemap (mem m1) j va' = pagemap (mem m) j va'" for va'
    by (rule same_entries(3) [OF wf f1(1) m1])
  have c1: "Suc (Suc 0) \<le> card (free_tables m1)" using tables f1(1) by (simp add: free_tables_def)
  have t0: "tab (mem m1) j [] = Some j" by simp
  obtain t1 m2 where s1: "ensure_table aid (entry_addr j (get_vpn2 va)) m1 = Some (pgt_addr t1, m2)"
    "wf_pgdir m2 j" "tab (mem m2) j ([] @ [get_vpn2 va]) = Some t1" "t1 < 8192"
    and p2: "\<And>va. user_va va \<Longrightarrow> pagemap (mem m2) j va = pagemap (mem m1) j va"
    and f2: "free_mem_map m2 = free_mem_map m1" "va_info m2 = va_info m1" "swap_info m2 = swap_info m1"
    "Suc 0 \<le> card (free_tables m2)"
    by (rule ensure_table_step [OF wf1 u(2) t0 c1 aid]) (rule that)
  have tt: "tab (mem m2) j [get_vpn2 va] = Some t1" using s1(3) by simp
  obtain t0' m3 where s2: "ensure_table aid (entry_addr t1 (get_vpn1 va)) m2 = Some (pgt_addr t0', m3)"
    "wf_pgdir m3 j" "tab (mem m3) j ([get_vpn2 va] @ [get_vpn1 va]) = Some t0'" "t0' < 8192"
    and p3: "\<And>va. user_va va \<Longrightarrow> pagemap (mem m3) j va = pagemap (mem m2) j va"
    and f3: "free_mem_map m3 = free_mem_map m2" "va_info m3 = va_info m2" "swap_info m3 = swap_info m2"
    "0 \<le> card (free_tables m3)"
    by (rule ensure_table_step [OF s1(2) u(3) tt f2(4) aid]) (rule that)
  have k: "tab (mem m3) j (table_path va) = Some t0'" using s2(3) by (simp add: table_path_def)
  define e where "e = set_attribute (set_pfn (mem m3 (entry_addr t0' (get_vpn0 va)))
    (drop_bit NORMAL_PAGE_SHIFT (kva2pa (frame_addr i)))) leaf_attributes"
  let ?m3 = "m3\<lparr>mem := set_leaf t0' (get_vpn0 va) e (mem m3)\<rparr>"
  let ?m' = "?m3\<lparr>va_info := (va_info m3)(i := get_page_base (va AND VA_MASK))\<rparr>"
  have "alloc_page_helper B ps va (pgt_addr j) aid m = Some (frame_addr i, ?m')"
    using s1(1) s2(1) s2(4) b i
    by (simp add: alloc_page_helper_def allocPage_free [OF frame] m1_def [symmetric]
        entry_addr_def [symmetric] load64_def store64_def e_def set_leaf_def)
  moreover have "wf_pgdir ?m3 j" by (rule wf_set_leaf [OF s2(2) k va b(3)])
  then have "wf_pgdir ?m' j" by (rule same_entries(2)) simp_all
  moreover have "free_mem_map ?m' = (free_mem_map m)(i := aid)" using f1 f2 f3 by simp
  moreover have "va_info ?m' = (va_info m)(i := get_page_base (va AND VA_MASK))" using f1 f2 f3 by simp
  moreover have "swap_info ?m' = swap_info m" using f1 f2 f3 by simp
  moreover have "\<forall>va'. user_va va' \<longrightarrow> pagemap (mem ?m') j va' =
      (if same_page va va' then e else pagemap (mem m) j va')"
    using pagemap_set_leaf [OF s2(2) k va] p3 p2 pm1 by simp
  moreover have "pa2kva (get_pa e) = frame_addr i"
    by (simp add: e_def pa2kva_entry attribute_bits i)
  moreover have "get_attribute e leaf_attributes = leaf_attributes"
    by (simp add: e_def get_attribute_def set_attribute_def bit_eq_iff bit_simps)
  ultimately show ?thesis by blast
qed

end
