(* ===== verification/Sdcard.thy ===== *)
theory Sdcard
  imports Kstate
begin

text \<open>
  What the kernel relies on of the firmware's SD card calls: a read of at most 64 sectors that the card
  has returns 0 and delivers their bytes, a write returns 0 and replaces exactly those bytes.
  The limit is the one of \<open>arch/riscv/include/common.h\<close>, by which \<open>sd_read\<close> has to be wrapped to read more than
  64 blocks; nothing is said there of writes. \<open>long_read_ok\<close> is the stronger assumption on reads of \<open>n\<close> sectors
  in one call, which \<open>load_inodes\<close> makes for the 192 sectors of the inode table.
  \<open>content d\<close> is the byte array of the card in state \<open>d\<close>, \<open>cap\<close> its number of sectors.
  \<open>toy_bios\<close> is a card of that kind, used where a hypothesis has to be shown satisfiable.
\<close>

definition long_read_ok :: "u32 \<Rightarrow> 'd bios \<Rightarrow> ('d \<Rightarrow> nat \<Rightarrow> u8) \<Rightarrow> nat \<Rightarrow> bool" where
  "long_read_ok n B content cap \<longleftrightarrow> (\<forall>s d. unat s + unat n \<le> cap \<longrightarrow> fst (bios_sdread B n s d) = 0
     \<and> (\<forall>i < 512 * unat n. snd (bios_sdread B n s d) i = content d (512 * unat s + i)))"

definition sd_ok :: "'d bios \<Rightarrow> ('d \<Rightarrow> nat \<Rightarrow> u8) \<Rightarrow> nat \<Rightarrow> bool" where
  "sd_ok B content cap \<longleftrightarrow> (\<forall>n. unat n \<le> 64 \<longrightarrow> long_read_ok n B content cap)
     \<and> (\<forall>n s f d. unat s + unat n \<le> cap \<longrightarrow> fst (bios_sdwrite B n s f d) = 0
        \<and> content (snd (bios_sdwrite B n s f d)) = blit (content d) (512 * unat s) (512 * unat n) f)"

lemma long_readD:
  assumes "long_read_ok n B content cap" "unat s + unat n \<le> cap"
  shows "fst (bios_sdread B n s d) = 0"
    and "i < 512 * unat n \<Longrightarrow> snd (bios_sdread B n s d) i = content d (512 * unat s + i)"
  using assms unfolding long_read_ok_def by blast+

lemma sd_ok_read: "sd_ok B content cap \<Longrightarrow> unat n \<le> 64 \<Longrightarrow> long_read_ok n B content cap"
  unfolding sd_ok_def by blast

lemma sd_ok_write:
  assumes "sd_ok B content cap" "unat s + unat n \<le> cap"
  shows "content (snd (bios_sdwrite B n s f d)) = blit (content d) (512 * unat s) (512 * unat n) f"
  using assms unfolding sd_ok_def by blast

lemma sd_write_read:
  assumes "sd_ok B content cap" "unat n \<le> 64" "unat s + unat n \<le> cap" "i < 512 * unat n"
  shows "snd (bios_sdread B n s (snd (bios_sdwrite B n s f d))) i = f i"
  using long_readD(2) [OF sd_ok_read [OF assms(1,2)] assms(3,4)] sd_ok_write [OF assms(1,3)] blit_inside [OF assms(4)] by metis

definition toy_bios :: "(nat \<Rightarrow> u8) bios" where
  "toy_bios = \<lparr>bios_sdread = (\<lambda>n s d. (0, \<lambda>i. d (512 * unat s + i))),
     bios_sdwrite = (\<lambda>n s f d. (0, blit d (512 * unat s) (512 * unat n) f))\<rparr>"

lemma toy_long_read: "long_read_ok n toy_bios (\<lambda>d. d) cap"
  by (simp add: long_read_ok_def toy_bios_def)

lemma toy_sd_ok: "sd_ok toy_bios (\<lambda>d. d) cap"
  using toy_long_read by (simp add: sd_ok_def) (simp add: toy_bios_def)

end
