(* ===== verification/Swap.thy ===== *)
theory Swap
  imports Paging Sdcard
begin

text \<open>
  The swap area of \<open>kernel/mm/mm.c\<close> and the page fault handlers of \<open>kernel/irq/irq.c\<close>: a page
  that was swapped out comes back with the same words, the same owner and the same virtual
  address, at whatever frame it is loaded into.
\<close>

section \<open>Bytes and words of a page\<close>

lemma le64_cong: "(\<And>k. k < 8 \<Longrightarrow> f k = g k) \<Longrightarrow> le64 f = le64 g"
  using le32_cong [of f g] le32_cong [of "\<lambda>k. f (4 + k)" "\<lambda>k. g (4 + k)"] by (simp add: le64_def)

lemma page_word_addr:
  fixes a :: u64
  assumes "w < 512"
  shows "unat (a + 8 * of_nat w - a) = 8 * w"
proof -
  have "unat (8 * of_nat w :: u64) = 8 * w"
    using assms by (simp add: unat_word_ariths unat_of_nat)
  then show ?thesis by simp
qed

lemma dma_round_trip:
  assumes w: "w < 512" and bs: "\<And>i. i < 4096 \<Longrightarrow> bs i = dma_out pa m i"
  shows "dma_in pa' 4096 bs m' (pa2kva pa' + 8 * of_nat w) = m (pa2kva pa + 8 * of_nat w)"
proof -
  have "bs (8 * w + b) = byte_of (m (pa2kva pa + 8 * of_nat w)) b" if "b < 8" for b
  proof -
    have "(8 * w + b) div 8 = w" "(8 * w + b) mod 8 = b" using that by simp_all
    then show ?thesis using bs [of "8 * w + b"] that w by (simp add: dma_out_def)
  qed
  then have "le64 (\<lambda>b. bs (8 * w + b)) = m (pa2kva pa + 8 * of_nat w)"
    using le64_cong [of "\<lambda>b. bs (8 * w + b)" "byte_of (m (pa2kva pa + 8 * of_nat w))"] by simp
  then show ?thesis using w by (simp add: dma_in_def Let_def page_word_addr [OF w, simplified])
qed

section \<open>Out and in again\<close>

definition swap_sector :: "int \<Rightarrow> 'd mm_state \<Rightarrow> u32" where
  "swap_sector sec m = word_of_int (padding_start_sec m + sec * 8)"

lemma swap_out_result:
  assumes num: "num < 8192"
    and slot: "find_from (\<lambda>i. sw_asid (swap_info m i) = 0) 0 SWAP_INFO_NUM = Some i"
    and out: "swap_out B ps (frame_addr num) m = Some m1"
  shows "swap_info m1 i = \<lparr>sw_va = get_page_base (va_info m num), sw_asid = free_mem_map m num,
       sw_sec_num = sec_ptr m\<rparr>"
    and "free_mem_map m1 = (free_mem_map m)(num := 0)" "va_info m1 = (va_info m)(num := 0)"
    and "sec_ptr m1 = sec_ptr m + 1" "padding_start_sec m1 = padding_start_sec m"
    and "sd m1 = snd (bios_sdwrite B 8 (swap_sector (sec_ptr m) m)
           (dma_out (kva2pa (frame_addr num)) (mem m1)) (sd m))"
    and "free_pgt_map m1 = free_pgt_map m"
proof -
  have "\<exists>mem'. m1 = m\<lparr>swap_info := (swap_info m)(i := \<lparr>sw_va = get_page_base (va_info m num),
        sw_asid = free_mem_map m num, sw_sec_num = sec_ptr m\<rparr>),
      mem := mem', free_mem_map := (free_mem_map m)(num := 0), va_info := (va_info m)(num := 0),
      sec_ptr := sec_ptr m + 1,
      sd := snd (bios_sdwrite B 8 (swap_sector (sec_ptr m) m)
           (dma_out (kva2pa (frame_addr num)) mem') (sd m))\<rparr>"
    using out num slot
    by (simp add: swap_out_def swap_sector_def Let_def bind_eq_Some_conv) blast
  then show "swap_info m1 i = \<lparr>sw_va = get_page_base (va_info m num), sw_asid = free_mem_map m num,
       sw_sec_num = sec_ptr m\<rparr>"
    and "free_mem_map m1 = (free_mem_map m)(num := 0)" "va_info m1 = (va_info m)(num := 0)"
    and "sec_ptr m1 = sec_ptr m + 1" "padding_start_sec m1 = padding_start_sec m"
    and "sd m1 = snd (bios_sdwrite B 8 (swap_sector (sec_ptr m) m)
           (dma_out (kva2pa (frame_addr num)) (mem m1)) (sd m))"
    and "free_pgt_map m1 = free_pgt_map m"
    by auto
qed

lemma pa2kva_frame [simp]: "i < 8192 \<Longrightarrow> pa2kva (kva2pa (frame_addr i)) = frame_addr i"
  by (simp add: pa2kva_kva2pa pool_page_direct)

lemma dma_in_outside:
  assumes "i < 8192" "k < 8192" "unat w < 512"
  shows "dma_in (kva2pa (frame_addr i)) 4096 bs m (entry_addr k w) = m (entry_addr k w)"
proof -
  have "unat (entry_addr k w - frame_addr i) = unat (entry_addr k w) - unat (frame_addr i)"
    using unat_entry_addr [OF assms(2,3)] unat_frame_addr [OF assms(1)] assms
    by (simp add: unat_sub_if_size)
  then have "\<not> unat (entry_addr k w - frame_addr i) < 4096"
    using unat_entry_addr [OF assms(2,3)] unat_frame_addr [OF assms(1)] assms(1) by linarith
  then show ?thesis using assms(1) by (simp add: dma_in_def Let_def)
qed

lemma frame_not_entry:
  assumes "i < 8192" "w < 512" "k < 8192" "unat v < 512"
  shows "frame_addr i + 8 * of_nat w \<noteq> entry_addr k v"
proof -
  have "unat (frame_addr i + of_nat (8 * w)) = unat (frame_addr i) + 8 * w"
    using unat_frame_addr [OF assms(1)] assms(1,2) by (intro unat_add_small) simp
  then have "unat (frame_addr i + 8 * of_nat w) \<noteq> unat (entry_addr k v)"
    using unat_frame_addr [OF assms(1)] unat_entry_addr [OF assms(3,4)] assms(1,2) by simp
  then show ?thesis by metis
qed

text \<open>Word \<open>w\<close> of the page that the card delivers for sector \<open>sec\<close>.\<close>

definition card_word :: "'d bios \<Rightarrow> u32 \<Rightarrow> 'd \<Rightarrow> nat \<Rightarrow> u64" where
  "card_word B sec d w = le64 (\<lambda>b. snd (bios_sdread B 8 sec d) (8 * w + b))"

lemma dma_in_word:
  assumes "i < 8192" "w < 512"
  shows "dma_in (kva2pa (frame_addr i)) 4096 bs m (frame_addr i + 8 * of_nat w) = le64 (\<lambda>b. bs (8 * w + b))"
  using assms by (simp add: dma_in_def Let_def page_word_addr [OF assms(2), simplified])

text \<open>Swapping out touches one word of memory, the entry of the page in its owner's directory.\<close>

lemma swap_out_runs:
  assumes num: "num < 8192" and slot: "find_from (\<lambda>i. sw_asid (swap_info m i) = 0) 0 SWAP_INFO_NUM = Some i"
    and dir: "owner_pgdir ps (ucast (free_mem_map m num)) = kva2pa (pgt_addr j)"
    and wf: "wf_pgdir m j" and va: "va = get_page_base (va_info m num)" "user_va va"
  shows "\<exists>m1. swap_out B ps (frame_addr num) m = Some m1 \<and> wf_pgdir m1 j
    \<and> (\<forall>f w. f < 8192 \<longrightarrow> w < 512 \<longrightarrow> mem m1 (frame_addr f + 8 * of_nat w) = mem m (frame_addr f + 8 * of_nat w))
    \<and> (\<forall>va'. user_va va' \<longrightarrow> pagemap (mem m1) j va' =
          (if same_page va va' then unset_attribute (pagemap (mem m) j va) PAGE_PRESENT else pagemap (mem m) j va'))"
proof (cases "pagemap (mem m) j va = 0")
  case True
  have pte: "get_pte va (kva2pa (pgt_addr j)) (mem m) = Some 0"
    using True get_pte_tab [OF wf va(2)] by (auto simp: pagemap_def split: option.splits)
  let ?m1 = "m\<lparr>swap_info := (swap_info m)(i := \<lparr>sw_va = va, sw_asid = free_mem_map m num, sw_sec_num = sec_ptr m\<rparr>),
      free_mem_map := (free_mem_map m)(num := 0), va_info := (va_info m)(num := 0), sec_ptr := sec_ptr m + 1,
      sd := snd (bios_sdwrite B 8 (swap_sector (sec_ptr m) m) (dma_out (kva2pa (frame_addr num)) (mem m)) (sd m))\<rparr>"
  have "swap_out B ps (frame_addr num) m = Some ?m1"
    using num slot dir pte by (simp add: swap_out_def Let_def va(1) swap_sector_def)
  moreover have "wf_pgdir ?m1 j" by (rule same_entries(2) [OF wf]) simp_all
  moreover have "pagemap (mem m) j va' = (if same_page va va' then unset_attribute (pagemap (mem m) j va) PAGE_PRESENT
      else pagemap (mem m) j va')" for va'
  proof (cases "same_page va va'")
    case same: True
    then have "pagemap (mem m) j va' = pagemap (mem m) j va" by (simp add: same_page_def pagemap_def split: option.split)
    then show ?thesis using True same by (simp add: unset_attribute_def)
  qed simp
  ultimately show ?thesis by (intro exI [of _ ?m1]) simp
next
  case False
  obtain k where k: "tab (mem m) j (table_path va) = Some k" "mem m (entry_addr k (get_vpn0 va)) \<noteq> 0"
    "pagemap (mem m) j va = mem m (entry_addr k (get_vpn0 va))"
    using False by (auto simp: pagemap_def split: option.splits)
  note b = vpn_bound(3) [of va]
  have kb: "k < 8192" using wf_pgdirD(1) [OF wf user_paths(1) [OF va(2)] k(1)] .
  let ?e = "unset_attribute (pagemap (mem m) j va) PAGE_PRESENT"
  let ?mem = "set_leaf k (get_vpn0 va) ?e (mem m)"
  have pte: "get_pte va (kva2pa (pgt_addr j)) (mem m) = Some (entry_addr k (get_vpn0 va))"
    using get_pte_tab [OF wf va(2)] k by simp
  have "unat (entry_addr k (get_vpn0 va)) \<noteq> 0" using unat_entry_addr [OF kb b] by simp
  then have p0: "entry_addr k (get_vpn0 va) \<noteq> 0" by auto
  let ?m1 = "m\<lparr>swap_info := (swap_info m)(i := \<lparr>sw_va = va, sw_asid = free_mem_map m num, sw_sec_num = sec_ptr m\<rparr>),
      mem := ?mem, free_mem_map := (free_mem_map m)(num := 0), va_info := (va_info m)(num := 0), sec_ptr := sec_ptr m + 1,
      sd := snd (bios_sdwrite B 8 (swap_sector (sec_ptr m) m) (dma_out (kva2pa (frame_addr num)) ?mem) (sd m))\<rparr>"
  have "swap_out B ps (frame_addr num) m = Some ?m1"
    using num slot dir pte p0 kb b k(3)
    by (simp add: swap_out_def Let_def va(1) swap_sector_def load64_def store64_def set_leaf_def)
  moreover have "wf_pgdir ?m1 j" by (rule same_entries(2) [OF wf_set_leaf [OF wf k(1) va(2) b]]) simp_all
  moreover have "mem ?m1 (frame_addr f + 8 * of_nat w) = mem m (frame_addr f + 8 * of_nat w)" if "f < 8192" "w < 512" for f w
    using frame_not_entry [OF that kb b] by (simp add: set_leaf_def)
  ultimately show ?thesis using pagemap_set_leaf [OF wf k(1) va(2)]
    by (intro exI [of _ ?m1]) simp
qed

lemma swap_round_trip_words:
  assumes sd: "sd_ok B content cap"
    and cap: "unat (swap_sector (sec_ptr m) m) + 8 \<le> cap"
    and num: "num < 8192" "num' < 8192"
    and slot: "find_from (\<lambda>i. sw_asid (swap_info m i) = 0) 0 SWAP_INFO_NUM = Some i"
    and out: "swap_out B ps (frame_addr num) m = Some m1"
  shows "\<exists>m2. swap_in B (frame_addr num') i m1 = Some m2 \<and> free_pgt_map m2 = free_pgt_map m1
    \<and> (\<forall>k v. k < 8192 \<longrightarrow> unat v < 512 \<longrightarrow> mem m2 (entry_addr k v) = mem m1 (entry_addr k v))
    \<and> (\<forall>w < 512. mem m2 (frame_addr num' + 8 * of_nat w) = mem m1 (frame_addr num + 8 * of_nat w))
    \<and> free_mem_map m2 = (free_mem_map m)(num := 0, num' := free_mem_map m num)
    \<and> va_info m2 = (va_info m)(num := 0, num' := get_page_base (va_info m num))
    \<and> swap_info m2 i = \<lparr>sw_va = 0, sw_asid = 0, sw_sec_num = 0\<rparr>"
proof -
  note R = swap_out_result [OF num(1) slot out]
  let ?s = "swap_sector (sec_ptr m) m"
  let ?bytes = "snd (bios_sdread B 8 ?s (sd m1))"
  have s: "word_of_int (padding_start_sec m1 + sw_sec_num (swap_info m1 i) * 8) = ?s"
    by (simp add: R swap_sector_def)
  have "unat (8 :: u32) \<le> 64" "unat ?s + unat (8 :: u32) \<le> cap" using cap by simp_all
  from sd_write_read [OF sd this]
  have "?bytes k = dma_out (kva2pa (frame_addr num)) (mem m1) k" if "k < 4096" for k
    using that by (simp add: R(6))
  then have "dma_in (kva2pa (frame_addr num')) 4096 ?bytes (mem m1) (frame_addr num' + 8 * of_nat w)
      = mem m1 (frame_addr num + 8 * of_nat w)" if "w < 512" for w
    using dma_round_trip [OF that, of ?bytes "kva2pa (frame_addr num)" "mem m1"
        "kva2pa (frame_addr num')" "mem m1"] num by simp
  then show ?thesis unfolding swap_in_def Let_def s by (simp add: num R dma_in_outside)
qed

end
