(* ===== verification/Fault.thy ===== *)
theory Fault
  imports Swap
begin

text \<open>
  The page fault handlers of \<open>kernel/irq/irq.c\<close>. Both do the same with different attribute
  bits: an entry that exists is either in the swap area, and its page is read back into a
  fresh frame, or only lacks attributes; without an entry a new page is mapped.
\<close>

definition page_fault :: "u64 \<Rightarrow> 'd bios \<Rightarrow> u64 \<Rightarrow> 'd kernel \<Rightarrow> 'd kernel option" where
  "page_fault bits B stval s = do {
     let cur = pcbs s (current_running s);
     let aid = ucast (asid cur);
     pte \<leftarrow> get_pte stval (satp cur) (mem (mm s));
     m' \<leftarrow> (if pte \<noteq> 0
       then (case page_in_swap stval (ucast (asid cur)) (mm s) of
           Some slot \<Rightarrow> do {
             (kva, m1) \<leftarrow> allocPage B (pcbs s) aid (mm s);
             m2 \<leftarrow> swap_in B kva slot m1;
             e \<leftarrow> load64 (mem m2) pte;
             mem3 \<leftarrow> store64 (mem m2) pte
               (set_attribute (set_pfn e (drop_bit NORMAL_PAGE_SHIFT (kva2pa kva))) bits);
             num \<leftarrow> frame_num kva;
             set_map_page_accessed (int num) (m2\<lparr>mem := mem3\<rparr>) }
         | None \<Rightarrow> do {
             e \<leftarrow> load64 (mem (mm s)) pte;
             mem1 \<leftarrow> store64 (mem (mm s)) pte (set_attribute e bits);
             e' \<leftarrow> load64 mem1 pte;
             num \<leftarrow> frame_num (pa2kva (get_pa e'));
             set_map_page_accessed (int num) ((mm s)\<lparr>mem := mem1\<rparr>) })
       else do {
         (kva, m1) \<leftarrow> alloc_page_helper B (pcbs s) stval (pa2kva (satp cur)) aid (mm s);
         Some m1 });
     Some (s\<lparr>mm := m'\<rparr>) }"

definition handle_load_page_fault :: "'d bios \<Rightarrow> u64 \<Rightarrow> 'd kernel \<Rightarrow> 'd kernel option" where
  "handle_load_page_fault = page_fault (PAGE_PRESENT OR PAGE_ACCESSED)"

definition handle_store_page_fault :: "'d bios \<Rightarrow> u64 \<Rightarrow> 'd kernel \<Rightarrow> 'd kernel option" where
  "handle_store_page_fault = page_fault (PAGE_ACCESSED OR PAGE_DIRTY OR PAGE_PRESENT)"

section \<open>A swapped page\<close>

lemma swapped_in_entries:
  assumes i: "i < 8192" and "k < 8192" "unat w < 512"
    and m1: "m1 = clean_page (frame_addr i) (m\<lparr>free_mem_map := f\<rparr>)"
    and m2: "swap_in B (frame_addr i) slot m1 = Some m2"
  shows "mem m2 (entry_addr k w) = mem m (entry_addr k w)"
  using m2 i assms(2,3) unfolding m1
  by (auto simp: swap_in_def Let_def dma_in_outside mem_clean_frame)

lemma fault_bits:
  assumes "bits = PAGE_PRESENT OR PAGE_ACCESSED \<or> bits = PAGE_ACCESSED OR PAGE_DIRTY OR PAGE_PRESENT"
  shows "drop_bit 10 bits = 0" "bit bits 0"
  using assms by (auto simp: page_bits push_bit_eq_mult bit_simps)

lemma page_fault_swapped:
  fixes s :: "'d kernel" and m :: "'d mm_state"
  assumes bits: "bits = PAGE_PRESENT OR PAGE_ACCESSED \<or> bits = PAGE_ACCESSED OR PAGE_DIRTY OR PAGE_PRESENT"
    and m: "m = mm s" and cur: "cur = pcbs s (current_running s)"
    and wf: "wf_pgdir m j" and satp: "satp cur = kva2pa (pgt_addr j)"
    and va: "user_va va" and mapped: "pagemap (mem m) j va \<noteq> 0"
    and slot: "page_in_swap va (ucast (asid cur)) m = Some slot"
    and frame: "find_from (\<lambda>i. free_mem_map m i = 0) 0 MEM_PAGE_NUM = Some i"
  shows "\<exists>m'. page_fault bits B va s = Some (s\<lparr>mm := m'\<rparr>)
    \<and> wf_pgdir m' j
    \<and> get_kva va (satp cur) (mem m') = Some (frame_addr i + get_page_offset va)
    \<and> (\<forall>va'. user_va va' \<longrightarrow> \<not> same_page va va' \<longrightarrow> pagemap (mem m') j va' = pagemap (mem m) j va')
    \<and> free_mem_map m' = (free_mem_map m)(i := sw_asid (swap_info m slot) OR MAP_PAGE_ACCESSED)
    \<and> va_info m' = (va_info m)(i := sw_va (swap_info m slot))
    \<and> swap_info m' = (swap_info m)(slot := \<lparr>sw_va = 0, sw_asid = 0, sw_sec_num = 0\<rparr>)
    \<and> (\<forall>w < 512. mem m' (frame_addr i + 8 * of_nat w)
          = card_word B (swap_sector (sw_sec_num (swap_info m slot)) m) (sd m) w)"
proof -
  have i: "i < 8192" using free_frame_bound [OF frame] by simp
  note u = user_paths [OF va] and b = vpn_bound [of va] and fb = fault_bits [OF bits]
  obtain k where k: "tab (mem m) j (table_path va) = Some k" "mem m (entry_addr k (get_vpn0 va)) \<noteq> 0"
    using mapped by (auto simp: pagemap_def split: option.splits)
  have kb: "k < 8192" using wf_pgdirD(1) [OF wf u(1) k(1)] .
  define pte where "pte = entry_addr k (get_vpn0 va)"
  have "unat pte \<noteq> 0" using unat_entry_addr [OF kb b(3)] by (simp add: pte_def)
  then have p0: "pte \<noteq> 0" by auto
  have pte: "get_pte va (satp cur) (mem m) = Some pte"
    using get_pte_tab [OF wf va] k by (simp add: satp pte_def)
  define m1 where "m1 = clean_page (frame_addr i) (m\<lparr>free_mem_map := (free_mem_map m)(i := ucast (asid cur))\<rparr>)"
  have alloc: "allocPage B (pcbs s) (ucast (asid cur)) m = Some (frame_addr i, m1)"
    using allocPage_free [OF frame] by (simp add: m1_def)
  obtain m2 where m2: "swap_in B (frame_addr i) slot m1 = Some m2"
    using i by (simp add: swap_in_def Let_def)
  have f2: "free_mem_map m2 = (free_mem_map m)(i := sw_asid (swap_info m slot))"
    "va_info m2 = (va_info m)(i := sw_va (swap_info m slot))"
    "swap_info m2 = (swap_info m)(slot := \<lparr>sw_va = 0, sw_asid = 0, sw_sec_num = 0\<rparr>)"
    "free_pgt_map m2 = free_pgt_map m"
    using m2 i by (auto simp: swap_in_def Let_def m1_def)
  have words: "mem m2 (frame_addr i + 8 * of_nat w) = card_word B (swap_sector (sw_sec_num (swap_info m slot)) m) (sd m) w"
    if "w < 512" for w
    using m2 i that by (auto simp: swap_in_def Let_def m1_def swap_sector_def card_word_def dma_in_word)
  have E: "mem m2 (entry_addr x w) = mem m (entry_addr x w)" if "x < 8192" "unat w < 512" for x w
    by (rule swapped_in_entries [OF i that m1_def m2])
  have "tab (mem m2) j (table_path va) = tab (mem m) j (table_path va)"
    by (rule same_entries(1) [OF wf f2(4) _ u(1)]) (rule E)
  then have k2: "tab (mem m2) j (table_path va) = Some k" using k by simp
  have wf2: "wf_pgdir m2 j" by (rule same_entries(2) [OF wf f2(4)]) (rule E)
  have pm2: "pagemap (mem m2) j va' = pagemap (mem m) j va'" if "user_va va'" for va'
    by (rule same_entries(3) [OF wf f2(4) _ that]) (rule E)
  define e where "e = set_attribute (set_pfn (mem m2 pte) (drop_bit NORMAL_PAGE_SHIFT (kva2pa (frame_addr i)))) bits"
  let ?m3 = "m2\<lparr>mem := set_leaf k (get_vpn0 va) e (mem m2)\<rparr>"
  let ?m' = "?m3\<lparr>free_mem_map := (free_mem_map m2)(i := free_mem_map m2 i OR MAP_PAGE_ACCESSED)\<rparr>"
  have run: "page_fault bits B va s = Some (s\<lparr>mm := ?m'\<rparr>)"
    using pte p0 slot alloc m2 kb b i
    by (simp add: page_fault_def Let_def m [symmetric] cur [symmetric] load64_def store64_def
        pte_def e_def set_leaf_def set_map_page_accessed_def)
  have "wf_pgdir ?m3 j" by (rule wf_set_leaf [OF wf2 k2 va b(3)])
  then have wf': "wf_pgdir ?m' j" by (rule same_entries(2)) simp_all
  have pm: "pagemap (mem ?m') j va' = (if same_page va va' then e else pagemap (mem m) j va')"
    if "user_va va'" for va'
    using pagemap_set_leaf [OF wf2 k2 va that] pm2 [OF that] by simp
  have "get_attribute e PAGE_PRESENT \<noteq> 0" unfolding e_def by (rule present_set [OF fb(2)])
  then have "e \<noteq> 0" by auto
  moreover have "pagemap (mem ?m') j va = e" using pm [OF va] by (simp add: same_page_def)
  moreover have "pa2kva (get_pa e) = frame_addr i" by (simp add: e_def pa2kva_entry fb i)
  ultimately have "get_kva va (satp cur) (mem ?m') = Some (frame_addr i + get_page_offset va)"
    using get_kva_pagemap [OF wf' va] by (simp add: satp)
  moreover have "\<forall>w < 512. mem ?m' (frame_addr i + 8 * of_nat w)
      = card_word B (swap_sector (sw_sec_num (swap_info m slot)) m) (sd m) w"
    using words frame_not_entry [OF i _ kb b(3)] by (simp add: set_leaf_def)
  ultimately show ?thesis using run wf' pm f2 by (intro exI [of _ ?m']) simp
qed

end
