(* ===== verification/Demo.thy ===== *)
theory Demo
  imports Proc Fault
begin

text \<open>
  Concrete kernel states, on which the hypotheses of the theorems are shown to hold. \<open>demo xs c\<close>
  is a kernel whose queues were filled by appending the pairs \<open>xs\<close> of a queue and a task to
  empty ones and whose running task is \<open>c\<close>; every other task has exited.
\<close>

definition links0 :: "node links" where
  "links0 = \<lparr>lnext = (\<lambda>n. n), lprev = (\<lambda>n. n)\<rparr>"

definition place :: "(head \<times> pcb_ref) list \<Rightarrow> node links" where
  "place xs = fold (\<lambda>x. LIST_ADD_TAIL (Head (fst x)) (PList (snd x))) xs links0"

definition contents :: "(head \<times> pcb_ref) list \<Rightarrow> head \<Rightarrow> pcb_ref list" where
  "contents xs q = map snd (filter (\<lambda>x. fst x = q) xs)"

lemma contents_set: "p \<in> set (contents xs q) \<longleftrightarrow> (q, p) \<in> set xs"
  by (force simp: contents_def)

lemma contents_snoc: "contents (xs @ [(q, p)]) = (contents xs)(q := contents xs q @ [p])"
  by (auto simp: contents_def fun_eq_iff)

lemma queues_place:
  "distinct (map snd xs) \<Longrightarrow> queues (place xs) (contents xs)
     \<and> (\<forall>p. p \<notin> snd ` set xs \<longrightarrow> detached (place xs) p)"
proof (induction xs rule: rev_induct)
  case Nil
  show ?case by (simp add: place_def contents_def links0_def queues_def detached_def self_linked_def)
next
  case (snoc x xs)
  obtain q p where x: "x = (q, p)" by (cases x)
  have IH: "queues (place xs) (contents xs)" "\<And>p. p \<notin> snd ` set xs \<Longrightarrow> detached (place xs) p"
    using snoc by auto
  have free: "\<forall>r. y \<notin> set (contents xs r)" if "y \<notin> snd ` set xs" for y
    using that by (force simp: contents_set)
  have p: "p \<notin> snd ` set xs" using snoc.prems x by force
  have step: "place (xs @ [x]) = LIST_ADD_TAIL (Head q) (PList p) (place xs)" by (simp add: place_def x)
  show ?case
  proof (intro conjI allI impI)
    show "queues (place (xs @ [x])) (contents (xs @ [x]))"
      using kq.repr_add_tail [OF IH(1) free [OF p], of q] step by (simp add: x contents_snoc)
    fix y assume "y \<notin> snd ` set (xs @ [x])"
    then have y: "y \<notin> snd ` set xs" "y \<noteq> p" using x by auto
    show "detached (place (xs @ [x])) y"
      unfolding step by (rule kq.free_add_tail [OF IH(1) free [OF y(1)] IH(2) [OF y(1)] y(2)])
  qed
qed

definition demo_pcb :: "pcb_ref \<Rightarrow> task_status_t \<Rightarrow> pcb_t" where
  "demo_pcb p st = \<lparr>kernel_sp = 0, user_sp = 0, kernel_stack_base = 0, user_stack_base = 0, pgdir = 0,
     pid = (case p of Pcb i \<Rightarrow> int i | Pid0 i \<Rightarrow> -1), parent_pid = -1, status = st, cursor_x = 0,
     cursor_y = 0, wakeup_time = 0, mutex_idx = 0, mbox_buf = 0, mbox_size = 0, mbox_rw = -1,
     satp = 0, asid = (case p of Pcb i \<Rightarrow> ASID_USER OR of_nat i | Pid0 i \<Rightarrow> ASID_KERNEL OR of_nat i),
     net_curr_num = 0, net_length = 0, net_buffer = 0, net_packet_size = 0\<rparr>"

definition demo_status :: "(head \<times> pcb_ref) list \<Rightarrow> pcb_ref \<Rightarrow> pcb_ref \<Rightarrow> task_status_t" where
  "demo_status xs c p =
     (if p = c then TASK_RUNNING
      else if (ReadyQ, p) \<in> set xs then TASK_READY
      else if p \<in> snd ` set xs then TASK_BLOCKED else TASK_EXITED)"

definition demo_mm :: "(nat \<Rightarrow> u8) mm_state" where
  "demo_mm = \<lparr>free_mem_map = (\<lambda>_. 0), free_pgt_map = (\<lambda>_. 0), clock_ptr = 0, sec_ptr = 0,
     swap_info = (\<lambda>_. \<lparr>sw_va = 0, sw_asid = 0, sw_sec_num = 0\<rparr>), va_info = (\<lambda>_. 0), mem = (\<lambda>_. 0),
     sd = (\<lambda>_. 0), padding_start_sec = 0\<rparr>"

definition demo_mbox :: "mailbox_t" where
  "demo_mbox = \<lparr>mb_buffer = \<lparr>rsize = MAX_MBOX_LENGTH, rbyte = (\<lambda>_. 0)\<rparr>,
     mb_name = \<lparr>rsize = 32, rbyte = (\<lambda>_. 0)\<rparr>, mb_length = 0, mb_ref_count = 0\<rparr>"

definition demo :: "(head \<times> pcb_ref) list \<Rightarrow> pcb_ref \<Rightarrow> (nat \<Rightarrow> u8) kernel" where
  "demo xs c = \<lparr>hart = 0, tp = (\<lambda>h. if h = 0 then c else Pid0 1), csr_satp = (\<lambda>_. 0), links = place xs,
     pcbs = (\<lambda>p. demo_pcb p (demo_status xs c p)),
     frames = (\<lambda>_. \<lparr>regs = (\<lambda>_. 0), sstatus = 0, sepc = 0, sbadaddr = 0, scause = 0\<rparr>),
     umem = (\<lambda>_ _. 7), ticks_read = 0, time_elapsed = 0, time_base = 1,
     mlocks = (\<lambda>_. \<lparr>m_status = UNLOCKED, m_key = -1, m_owner = 0\<rparr>),
     barriers = (\<lambda>_. \<lparr>b_key = -1, b_goal = -1, b_count = 0\<rparr>),
     conditions = (\<lambda>_. \<lparr>c_key = -1\<rparr>), mboxes = (\<lambda>_. demo_mbox), mm = demo_mm\<rparr>"

definition demo_ok :: "(head \<times> pcb_ref) list \<Rightarrow> pcb_ref \<Rightarrow> bool" where
  "demo_ok xs c \<longleftrightarrow> distinct (map snd xs) \<and> c \<notin> set (map snd xs)"

lemma kinv_demo:
  assumes "demo_ok xs c"
  shows "kinv (demo xs c) (contents xs)"
proof -
  have xs: "distinct (map snd xs)" "c \<notin> snd ` set xs" using assms by (auto simp: demo_ok_def)
  have uniq: "q = r" if "(q, p) \<in> set xs" "(r, p) \<in> set xs" for q r p
    using that xs(1) by (metis distinct_map inj_on_eq_iff prod.inject snd_conv)
  have st: "pstatus (demo xs c) p = demo_status xs c p" for p
    by (simp add: demo_def demo_pcb_def)
  show ?thesis unfolding kinv_on_def
  proof (intro conjI ballI allI impI)
    show "queues (links (demo xs c)) (contents xs)" using queues_place [OF xs(1)] by (simp add: demo_def)
  next
    fix p assume "p \<in> set (contents xs ReadyQ)"
    then have "(ReadyQ, p) \<in> set xs" by (simp add: contents_set)
    moreover from this have "p \<noteq> c" using xs(2) by force
    ultimately show "pstatus (demo xs c) p = TASK_READY" by (simp add: st demo_status_def)
  next
    fix q p assume q: "q \<noteq> ReadyQ" "p \<in> set (contents xs q)"
    then have m: "(q, p) \<in> set xs" by (simp add: contents_set)
    have "p \<noteq> c" "p \<in> snd ` set xs" using m xs(2) by force+
    moreover have "(ReadyQ, p) \<notin> set xs" using uniq [OF m] q(1) by blast
    ultimately show "pstatus (demo xs c) p = TASK_BLOCKED" by (simp add: st demo_status_def)
  next
    fix p assume p: "in_no_queue (contents xs) p" "pstatus (demo xs c) p \<noteq> TASK_EXITED"
    have "(q, p) \<notin> set xs" for q using p(1) by (simp add: in_no_queue_def contents_set)
    then have n: "p \<notin> snd ` set xs" by force
    then have "p = c" using p(2) by (auto simp: st demo_status_def split: if_splits) force
    then show "pstatus (demo xs c) p = TASK_RUNNING" by (simp add: st demo_status_def)
    show "detached (links (demo xs c)) p" using queues_place [OF xs(1)] n by (simp add: demo_def)
  qed
qed

lemma demo_simps [simp]:
  "current_running (demo xs c) = c" "mlocks (demo xs c) i = \<lparr>m_status = UNLOCKED, m_key = -1, m_owner = 0\<rparr>"
  "pcbs (demo xs c) p = demo_pcb p (demo_status xs c p)" "mm (demo xs c) = demo_mm"
  "barriers (demo xs c) i = \<lparr>b_key = -1, b_goal = -1, b_count = 0\<rparr>" "mboxes (demo xs c) i = demo_mbox"
  by (simp_all add: demo_def current_running_def)

lemma demo_running [simp]: "demo_status xs c c = TASK_RUNNING" by (simp add: demo_status_def)

lemma demo_pcb_simps [simp]:
  "status (demo_pcb p st) = st" "pid (demo_pcb (Pcb i) st) = int i" "pid (demo_pcb (Pid0 j) st) = -1"
  "mutex_idx (demo_pcb p st) = 0" "mbox_size (demo_pcb p st) = 0" "mbox_rw (demo_pcb p st) = -1"
  "asid (demo_pcb (Pcb i) st) = ASID_USER OR of_nat i"
  by (simp_all add: demo_pcb_def)

end
