(* ===== verification/TaskProps.thy ===== *)
theory TaskProps
  imports Demo
begin

text \<open>
  Properties of the scheduler, the locks, the mailboxes and the task life cycle, each with a
  witness on a concrete kernel of theory \<open>Demo\<close>.
\<close>

section \<open>Scheduler\<close>





text \<open>\<open>check_sleeping\<close> returns, keeps the queue invariant, leaves a sleeper whose time has
  not come at any tick it reads in the sleep queue, and moves a sleeper that is due to the
  ready queue as READY.\<close>

lemma sleeper_wakes:
  assumes "kinv s Q" "p \<in> set (Q SleepQ)"
  shows "\<exists>s' Q'. check_sleeping rt s = Some s' \<and> kinv s' Q'
    \<and> ((\<forall>n. rt n < wakeup_time (pcbs s p)) \<longrightarrow> p \<in> set (Q' SleepQ) \<and> pstatus s' p = TASK_BLOCKED)
    \<and> ((\<forall>n. wakeup_time (pcbs s p) \<le> rt n) \<longrightarrow> p \<in> set (Q' ReadyQ) \<and> pstatus s' p = TASK_READY)"
proof -
  let ?w = "\<lambda>p. wakeup_time (pcbs s p)"
  obtain s' where s': "check_sleeping rt s = Some s'" "kinv s' (sched_slept rt s Q)"
    using check_sleeping_kinv [OF assms(1), of rt] unfolding sched_slept_def by blast
  have "(\<forall>n. rt n < ?w p) \<longrightarrow> p \<in> set (sched_slept rt s Q SleepQ)"
    using asleep_not_due [of rt ?w p] assms(2) by (simp add: sched_slept_def sleepers_of_def Let_def)
  moreover have "(\<forall>n. ?w p \<le> rt n) \<longrightarrow> p \<in> set (sched_slept rt s Q ReadyQ)"
    using woken_due [of ?w p rt] assms(2) by (simp add: sched_slept_def sleepers_of_def Let_def)
  ultimately show ?thesis using s' kinvD(2) [OF s'(2), of p] kinvD(3) [OF s'(2), of SleepQ p] by auto
qed

text \<open>(C8) \<open>do_sleep\<close> gives the hart to the first ready task; the caller's wake-up time is the tick it
  read plus \<open>sleep_time * time_base\<close>, and while no tick that is read reaches that time the caller
  is BLOCKED in the sleep queue. In every later state in which it still sleeps with that wake-up time,
  \<open>check_sleeping\<close> leaves it asleep when no tick it reads has reached the time, and makes it READY in the
  ready queue when the ticks have.\<close>

theorem sleep_switches_and_blocks:
  fixes s :: "'d kernel"
  assumes "kinv s Q" "pstatus s (current_running s) = TASK_RUNNING" "Q ReadyQ = n # ps"
    and "W = rt (ticks_read s) + ucast secs * time_base s" "\<forall>m. rt m < W"
  shows "\<exists>s' Q'. do_sleep rt secs s = Some s' \<and> kinv s' Q' \<and> current_running s' = n
    \<and> current_running s \<in> set (Q' SleepQ) \<and> pstatus s' (current_running s) = TASK_BLOCKED
    \<and> wakeup_time (pcbs s' (current_running s)) = W
    \<and> (\<forall>(u :: 'd kernel) R rt'. kinv u R \<and> current_running s \<in> set (R SleepQ)
        \<and> wakeup_time (pcbs u (current_running s)) = W \<longrightarrow>
        (\<exists>u' R'. check_sleeping rt' u = Some u' \<and> kinv u' R'
          \<and> ((\<forall>m. rt' m < W) \<longrightarrow> current_running s \<in> set (R' SleepQ) \<and> pstatus u' (current_running s) = TASK_BLOCKED)
          \<and> ((\<forall>m. W \<le> rt' m) \<longrightarrow> current_running s \<in> set (R' ReadyQ) \<and> pstatus u' (current_running s) = TASK_READY)))"
proof -
  let ?c = "current_running s" and ?Q = "Q(SleepQ := Q SleepQ @ [current_running s])"
  obtain s' and t :: "'d kernel" where r: "do_sleep rt secs s = Some s'" "kinv s' (sched_queues rt t ?Q)"
    "current_running s' = n" "pcbs s' = sched_task rt t ?Q"
    and w: "wakeup_time (pcbs t ?c) = W"
    using do_sleep_result [OF assms(1,2,3), of rt secs] assms(4) by auto
  have a: "?c \<in> set (asleep rt (\<lambda>p. wakeup_time (pcbs t p)) k xs)" if "?c \<in> set xs" for k xs
    by (rule asleep_not_due [OF _ that]) (simp add: w assms(5))
  have "?c \<in> set (sched_slept rt t ?Q SleepQ)"
    using a by (simp add: sched_slept_def sleepers_of_def Let_def)
  then have q: "?c \<in> set (sched_queues rt t ?Q SleepQ)" by (simp add: sched_queues_def split: list.split)
  then have b: "pstatus s' ?c = TASK_BLOCKED" using kinvD(3) [OF r(2), of SleepQ] by simp
  have "wakeup_time (pcbs s' ?c) = wakeup_time (pcbs t ?c) \<or> pstatus s' ?c \<noteq> TASK_BLOCKED"
    unfolding r(4) by (simp add: sched_task_def Let_def)
  then have "wakeup_time (pcbs s' ?c) = W" using b w by simp
  show ?thesis
  proof (rule exI [of _ s'], rule exI [of _ "sched_queues rt t ?Q"], intro conjI allI impI)
    fix u :: "'d kernel" and R rt'
    assume "kinv u R \<and> ?c \<in> set (R SleepQ) \<and> wakeup_time (pcbs u ?c) = W"
    then have u: "kinv u R" "?c \<in> set (R SleepQ)" "wakeup_time (pcbs u ?c) = W" by simp_all
    show "\<exists>u' R'. check_sleeping rt' u = Some u' \<and> kinv u' R'
      \<and> ((\<forall>m. rt' m < W) \<longrightarrow> ?c \<in> set (R' SleepQ) \<and> pstatus u' ?c = TASK_BLOCKED)
      \<and> ((\<forall>m. W \<le> rt' m) \<longrightarrow> ?c \<in> set (R' ReadyQ) \<and> pstatus u' ?c = TASK_READY)"
      using sleeper_wakes [OF u(1,2), of rt'] unfolding u(3) .
  qed (use r(1-3) q b \<open>wakeup_time (pcbs s' ?c) = W\<close> in simp_all)
qed

theorem sleep_switches_and_blocks_witness:
  "\<exists>s'. do_sleep (\<lambda>_. 0) 3 (demo [(ReadyQ, Pcb 1)] (Pcb 0)) = Some s' \<and> current_running s' = Pcb 1
     \<and> pstatus s' (Pcb 0) = TASK_BLOCKED \<and> wakeup_time (pcbs s' (Pcb 0)) = 3
     \<and> (\<exists>u. check_sleeping (\<lambda>_. 3) s' = Some u \<and> pstatus u (Pcb 0) = TASK_READY)"
proof -
  let ?s = "demo [(ReadyQ, Pcb 1)] (Pcb 0)"
  have ok: "demo_ok [(ReadyQ, Pcb 1)] (Pcb 0)" by (simp add: demo_ok_def)
  have q: "contents [(ReadyQ, Pcb 1)] ReadyQ = [Pcb 1]" by (simp add: contents_def)
  have w: "3 = (\<lambda>_. 0) (ticks_read ?s) + ucast (3 :: u32) * time_base ?s" by (simp add: demo_def)
  have run: "pstatus ?s (current_running ?s) = TASK_RUNNING" by simp
  obtain s' Q' where "do_sleep (\<lambda>_. 0) 3 ?s = Some s'" "kinv s' Q'" "current_running s' = Pcb 1"
    "Pcb 0 \<in> set (Q' SleepQ)" "pstatus s' (Pcb 0) = TASK_BLOCKED" "wakeup_time (pcbs s' (Pcb 0)) = 3"
    and "\<exists>u' R'. check_sleeping (\<lambda>_. 3) s' = Some u' \<and> pstatus u' (Pcb 0) = TASK_READY"
    using sleep_switches_and_blocks [OF kinv_demo [OF ok] run q w] unfolding demo_simps by fastforce
  then show ?thesis by blast
qed

section \<open>Locks\<close>

text \<open>\<open>do_mutex_lock_init\<close> is a key table: while no key occupies two slots, opening a key
  again returns the same slot and changes nothing, and two different keys never get the same
  slot. The key -1, which marks a free slot, is excluded.\<close>

theorem mutex_init_slots:
  assumes "\<forall>i < LOCK_NUM. \<forall>j < LOCK_NUM. m_key (mlocks s i) \<noteq> -1 \<longrightarrow>
      m_key (mlocks s i) = m_key (mlocks s j) \<longrightarrow> i = j"
    and "k \<noteq> -1" "k' \<noteq> -1" "k \<noteq> k'" "do_mutex_lock_init k s = (r, t)" "r \<noteq> -1"
    and "do_mutex_lock_init k' t = (r', t')" "r' \<noteq> -1"
  shows "do_mutex_lock_init k t = (r, t) \<and> r \<noteq> r' \<and> (\<exists>i < LOCK_NUM. r = int i \<and> m_key (mlocks t i) = k)"
proof -
  have d: "mutex_table.keys_distinct s" using assms(1) unfolding mutex_table.keys_distinct_def .
  have r: "fst (do_mutex_lock_init k s) \<noteq> -1" using assms by simp
  have r': "fst (do_mutex_lock_init k' (snd (do_mutex_lock_init k s))) \<noteq> -1" using assms by simp
  show ?thesis
    using mutex_table.open_idem [OF d assms(2) r] mutex_table.open_bound [OF r]
      mutex_table.open_different [OF d assms(2-4) r r'] assms(5,7) by simp
qed

theorem mutex_init_slots_witness:
  "\<exists>t. do_mutex_lock_init 5 (demo [] (Pcb 0)) = (0, t) \<and> do_mutex_lock_init 5 t = (0, t)"
proof -
  let ?s = "demo [] (Pcb 0)"
  define t where "t = upd_mlock 0 (\<lambda>m. m\<lparr>m_key := 5\<rparr>) ?s"
  have "do_mutex_lock_init 5 ?s = (0, t)"
    by (simp add: do_mutex_lock_init_def LOCK_NUM_def find_from.simps t_def)
  moreover have "fst (do_mutex_lock_init 6 t) = 1"
    by (simp add: do_mutex_lock_init_def LOCK_NUM_def find_from.simps t_def)
  then obtain t' where "do_mutex_lock_init 6 t = (1, t')" by (metis prod.collapse)
  ultimately show ?thesis using mutex_init_slots [of ?s 5 6 0 t 1 t'] by simp
qed

text \<open>(C9) \<open>do_mutex_lock_acquire\<close> on a free lock makes the caller its owner and returns to it;
  on a lock in use it leaves the owner alone, appends the caller to the lock's queue and runs
  the first ready task.\<close>

theorem mutex_acquire:
  assumes "i < LOCK_NUM" "kinv s Q" "linv s Q"
    and "pstatus s (current_running s) = TASK_RUNNING" "Q ReadyQ = n # ps"
  shows "\<exists>s' Q'. do_mutex_lock_acquire rt (int i) s = Some s' \<and> kinv s' Q' \<and> linv s' Q'
    \<and> (if m_status (mlocks s i) = UNLOCKED
       then locked_by s' i (pid (pcbs s (current_running s))) \<and> Q' = Q \<and> current_running s' = current_running s
       else mlocks s' = mlocks s \<and> Q' (MutexQ i) = Q (MutexQ i) @ [current_running s]
         \<and> current_running s' = n \<and> pstatus s' n = TASK_RUNNING)"
proof (cases "m_status (mlocks s i)")
  case UNLOCKED
  then show ?thesis using acquire_free_result [OF assms(1) _ assms(2,3), of rt] by auto
next
  case LOCKED
  then show ?thesis using acquire_busy_result [OF assms(1) _ assms(2-5), of rt] by auto
qed

definition demo_locked :: "(head \<times> pcb_ref) list \<Rightarrow> int \<Rightarrow> (nat \<Rightarrow> u8) kernel" where
  "demo_locked xs p = upd_mlock 3 (\<lambda>m. m\<lparr>m_status := LOCKED, m_owner := p\<rparr>) (demo xs (Pcb 0))"

lemma demo_locked_inv:
  assumes "demo_ok xs (Pcb 0)" "\<forall>x \<in> set xs. \<forall>j. fst x = MutexQ j \<longrightarrow> j = 3"
  shows "kinv (demo_locked xs p) (contents xs)" "linv (demo_locked xs p) (contents xs)"
proof -
  show "kinv (demo_locked xs p) (contents xs)"
    unfolding demo_locked_def by (intro upd_mlock_kinv kinv_demo assms(1))
  have "contents xs (MutexQ j) = []" if "j \<noteq> 3" for j
    using assms(2) that contents_set [of _ xs "MutexQ j"] by (metis last_in_set fst_conv)
  then show "linv (demo_locked xs p) (contents xs)" by (auto simp: linv_def demo_locked_def)
qed

theorem mutex_acquire_witness:
  "\<exists>s'. do_mutex_lock_acquire (\<lambda>_. 0) 3 (demo_locked [(ReadyQ, Pcb 1)] 2) = Some s'
     \<and> current_running s' = Pcb 1 \<and> m_owner (mlocks s' 3) = 2"
proof -
  have ok: "demo_ok [(ReadyQ, Pcb 1)] (Pcb 0)" by (simp add: demo_ok_def)
  have "\<forall>x \<in> set [(ReadyQ, Pcb 1)]. \<forall>j. fst x = MutexQ j \<longrightarrow> j = 3" by simp
  note inv = demo_locked_inv [OF ok this, of 2]
  have "pstatus (demo_locked [(ReadyQ, Pcb 1)] 2) (current_running (demo_locked [(ReadyQ, Pcb 1)] 2)) = TASK_RUNNING"
    by (simp add: demo_locked_def)
  from mutex_acquire [OF _ inv this, of 3 "Pcb 1" "[]" "\<lambda>_. 0"] show ?thesis
    by (auto simp: LOCK_NUM_def contents_def demo_locked_def)
qed

text \<open>(C10) \<open>do_mutex_lock_release\<close> by a task that is not the owner does nothing. By the owner it
  hands the lock to the longest waiting task, which becomes the first ready one while the
  others keep their order, or frees the lock when nobody waits.\<close>

theorem mutex_release:
  assumes "i < LOCK_NUM" "kinv s Q" "linv s Q"
  shows "\<exists>s' Q'. do_mutex_lock_release (int i) s = Some s' \<and> kinv s' Q' \<and> linv s' Q'
    \<and> (if pid (pcbs s (current_running s)) \<noteq> m_owner (mlocks s i) then s' = s \<and> Q' = Q
       else case Q (MutexQ i) of
           [] \<Rightarrow> m_status (mlocks s' i) = UNLOCKED \<and> Q' = Q
         | p # ps \<Rightarrow> locked_by s' i (pid (pcbs s p)) \<and> Q' (MutexQ i) = ps \<and> Q' ReadyQ = p # Q ReadyQ
             \<and> pstatus s' p = TASK_READY)"
proof (cases "pid (pcbs s (current_running s)) = m_owner (mlocks s i)")
  case False
  then show ?thesis using release_foreign [OF assms(1)] assms by auto
next
  case True
  show ?thesis
  proof (cases "Q (MutexQ i)")
    case Nil
    then have "Q(MutexQ i := [], ReadyQ := Q ReadyQ) = Q" by (auto simp: fun_eq_iff)
    then show ?thesis using True Nil pass_lock_result [OF assms(2,3), of i] assms(1)
      by (auto simp: do_mutex_lock_release_def)
  next
    case (Cons p ps)
    obtain s' where s': "do_mutex_lock_release (int i) s = Some s'"
      "kinv s' (Q(MutexQ i := ps, ReadyQ := p # Q ReadyQ))" "linv s' (Q(MutexQ i := ps, ReadyQ := p # Q ReadyQ))"
      "locked_by s' i (pid (pcbs s p))" "pstatus s' p = TASK_READY"
      using release_result [OF assms True Cons] by blast
    show ?thesis using True Cons
      by (intro exI [of _ s'] exI [of _ "Q(MutexQ i := ps, ReadyQ := p # Q ReadyQ)"])
        (simp add: s')
  qed
qed

theorem mutex_release_witness:
  "\<exists>s'. do_mutex_lock_release 3 (demo_locked [(MutexQ 3, Pcb 1), (MutexQ 3, Pcb 2)] 0) = Some s'
     \<and> locked_by s' 3 1 \<and> pstatus s' (Pcb 1) = TASK_READY"
proof -
  let ?xs = "[(MutexQ 3, Pcb 1), (MutexQ 3, Pcb 2)]"
  have ok: "demo_ok ?xs (Pcb 0)" by (simp add: demo_ok_def)
  have "\<forall>x \<in> set ?xs. \<forall>j. fst x = MutexQ j \<longrightarrow> j = 3" by simp
  note inv = demo_locked_inv [OF ok this, of 0]
  from mutex_release [OF _ inv, of 3] show ?thesis
    by (auto simp: LOCK_NUM_def contents_def demo_locked_def)
qed

text \<open>(C11) \<open>do_release_locks\<close>, for a process number that no task waiting for a lock has, passes on
  every lock that the process holds: its new owner is the first task that waited for it, which becomes
  ready, and a lock nobody waited for is free. Afterwards the process holds none, the locks of other owners are
  unchanged, and no other task's place in a queue changes.\<close>

theorem release_locks_passes_on:
  assumes "kinv s Q" "linv s Q" "\<forall>i. \<forall>x \<in> set (Q (MutexQ i)). pid (pcbs s x) \<noteq> p"
  shows "\<exists>s' Q'. do_release_locks p s = Some s' \<and> kinv s' Q' \<and> linv s' Q' \<and> passed_on s Q p LOCK_NUM Q'
    \<and> (\<forall>i < LOCK_NUM. \<not> held_by s' p i)
    \<and> (\<forall>i < LOCK_NUM. if held_by s p i then lock_passed s Q i (mlocks s' i) else mlocks s' i = mlocks s i)"
  using release_locks_result [OF assms(1,2), of p] assms(3) by blast

theorem release_locks_passes_on_witness:
  "\<exists>s'. do_release_locks 0 (demo_locked [(MutexQ 3, Pcb 1)] 0) = Some s' \<and> \<not> held_by s' 0 3
     \<and> locked_by s' 3 1"
proof -
  let ?xs = "[(MutexQ 3, Pcb 1)]"
  have ok: "demo_ok ?xs (Pcb 0)" by (simp add: demo_ok_def)
  have "\<forall>x \<in> set ?xs. \<forall>j. fst x = MutexQ j \<longrightarrow> j = 3" by simp
  note inv = demo_locked_inv [OF ok this, of 0]
  have "\<forall>i. \<forall>x \<in> set (contents ?xs (MutexQ i)). pid (pcbs (demo_locked ?xs 0) x) \<noteq> 0"
    by (auto simp: contents_set demo_locked_def)
  from release_locks_passes_on [OF inv this] obtain s' where r: "do_release_locks 0 (demo_locked ?xs 0) = Some s'"
    "\<forall>i < LOCK_NUM. \<not> held_by s' 0 i"
    "\<forall>i < LOCK_NUM. if held_by (demo_locked ?xs 0) 0 i then lock_passed (demo_locked ?xs 0) (contents ?xs) i (mlocks s' i)
      else mlocks s' i = mlocks (demo_locked ?xs 0) i"
    by blast
  have "3 < LOCK_NUM" by (simp add: LOCK_NUM_def)
  note s' = r(1) r(2,3) [rule_format, OF this]
  from s'(3) have "locked_by s' 3 1"
    by (simp add: lock_passed_def locked_by_def held_by_def contents_def demo_locked_def)
  with s'(1,2) show ?thesis by blast
qed

section \<open>Barriers and condition variables\<close>

text \<open>(C12) A barrier in use (its count is the number of waiters, below its goal) lets everybody
  go exactly with the arrival that reaches the goal and is then ready for the next round; an
  earlier arrival joins the waiters.\<close>

theorem barrier_wait:
  assumes "i < BARRIER_NUM" "kinv s Q" "barrier_ok s Q i"
    and "pstatus s (current_running s) = TASK_RUNNING" "Q ReadyQ = n # ps"
  shows "\<exists>s' Q'. do_barrier_wait rt (int i) s = Some s' \<and> kinv s' Q' \<and> barrier_ok s' Q' i
    \<and> (if int (length (Q (BarrierQ i))) + 1 = b_goal (barriers s i)
       then Q' (BarrierQ i) = [] \<and> set (Q (BarrierQ i)) \<subseteq> set (Q' ReadyQ) \<and> current_running s' = current_running s
       else Q' (BarrierQ i) = Q (BarrierQ i) @ [current_running s] \<and> current_running s' = n)"
proof -
  have c: "b_count (barriers s i) = int (length (Q (BarrierQ i)))" "b_count (barriers s i) < b_goal (barriers s i)"
    using assms(3) by (auto simp: barrier_ok_def)
  show ?thesis
  proof (cases "b_count (barriers s i) + 1 = b_goal (barriers s i)")
    case True
    obtain s' where "do_barrier_wait rt (int i) s = Some s'"
      "kinv s' (Q(BarrierQ i := [], ReadyQ := rev (Q (BarrierQ i)) @ Q ReadyQ))"
      "barrier_ok s' (Q(BarrierQ i := [], ReadyQ := rev (Q (BarrierQ i)) @ Q ReadyQ)) i"
      "current_running s' = current_running s"
      using barrier_wait_last [OF assms(1-3) True, of rt] by blast
    then show ?thesis using True c(1)
      by (intro exI [of _ s'] exI [of _ "Q(BarrierQ i := [], ReadyQ := rev (Q (BarrierQ i)) @ Q ReadyQ)"]) auto
  next
    case False
    then have "b_count (barriers s i) + 1 < b_goal (barriers s i)" using c(2) by simp
    from barrier_wait_early [OF assms(1-3) this assms(4,5), of rt] show ?thesis using False c(1) by auto
  qed
qed

theorem barrier_wait_witness:
  "\<exists>s' Q'. do_barrier_wait (\<lambda>_. 0) 2 (upd_barrier 2 (\<lambda>b. b\<lparr>b_goal := 2, b_count := 1\<rparr>)
       (demo [(BarrierQ 2, Pcb 1), (ReadyQ, Pcb 2)] (Pcb 0))) = Some s' \<and> Q' (BarrierQ 2) = []
     \<and> kinv s' Q' \<and> Pcb 1 \<in> set (Q' ReadyQ)"
proof -
  let ?xs = "[(BarrierQ 2, Pcb 1), (ReadyQ, Pcb 2)]"
  let ?s = "upd_barrier 2 (\<lambda>b. b\<lparr>b_goal := 2, b_count := 1\<rparr>) (demo ?xs (Pcb 0))"
  have ok: "demo_ok ?xs (Pcb 0)" by (simp add: demo_ok_def)
  have k: "kinv ?s (contents ?xs)" by (intro upd_barrier_kinv kinv_demo ok)
  have b: "barrier_ok ?s (contents ?xs) 2" by (simp add: barrier_ok_def contents_def)
  have r: "pstatus ?s (current_running ?s) = TASK_RUNNING" by simp
  have q: "contents ?xs ReadyQ = Pcb 2 # []" by (simp add: contents_def)
  have i: "2 < BARRIER_NUM" by (simp add: BARRIER_NUM_def)
  obtain s' Q' where s': "do_barrier_wait (\<lambda>_. 0) (int 2) ?s = Some s'" "kinv s' Q'"
    and "if int (length (contents ?xs (BarrierQ 2))) + 1 = b_goal (barriers ?s 2)
       then Q' (BarrierQ 2) = [] \<and> set (contents ?xs (BarrierQ 2)) \<subseteq> set (Q' ReadyQ) \<and> current_running s' = current_running ?s
       else Q' (BarrierQ 2) = contents ?xs (BarrierQ 2) @ [current_running ?s] \<and> current_running s' = Pcb 2"
    using barrier_wait [OF i k b r q, of "\<lambda>_. 0"] by blast
  then have "Q' (BarrierQ 2) = []" "Pcb 1 \<in> set (Q' ReadyQ)" by (simp_all add: contents_def)
  then show ?thesis using s' by auto
qed

text \<open>(C13) \<open>do_condition_signal\<close> wakes the longest waiting task only: it owns its mutex and is
  the first ready task if the mutex was free, and otherwise waits for the mutex behind those
  that wait already. A signal without waiters does nothing.\<close>

theorem condition_signal:
  assumes "c < CONDITION_NUM" "kinv s Q" "linv s Q" "i < LOCK_NUM"
    and "\<forall>p \<in> set (Q (CondQ c)). mutex_idx (pcbs s p) = int i"
  shows "\<exists>s' Q'. do_condition_signal (int c) s = Some s' \<and> kinv s' Q' \<and> linv s' Q'
    \<and> (case Q (CondQ c) of [] \<Rightarrow> s' = s
      | p # ps \<Rightarrow> Q' (CondQ c) = ps \<and>
          (if m_status (mlocks s i) = UNLOCKED
           then locked_by s' i (pid (pcbs s p)) \<and> Q' ReadyQ = p # Q ReadyQ
           else mlocks s' = mlocks s \<and> Q' (MutexQ i) = Q (MutexQ i) @ [p]))"
proof (cases "Q (CondQ c)")
  case Nil
  then show ?thesis using condition_signal_empty [OF assms(1,2) Nil] assms(2,3) by auto
next
  case (Cons p ps)
  have m: "mutex_idx (pcbs s p) = int i" using assms(5) Cons by simp
  obtain s' where s': "wake_waiter p s = Some s'"
    "if m_status (mlocks s i) = UNLOCKED
     then kinv s' (Q(CondQ c := ps, ReadyQ := p # Q ReadyQ))
       \<and> linv s' (Q(CondQ c := ps, ReadyQ := p # Q ReadyQ))
       \<and> locked_by s' i (pid (pcbs s p)) \<and> (\<forall>j. j \<noteq> i \<longrightarrow> mlocks s' j = mlocks s j)
     else kinv s' (Q(CondQ c := ps, MutexQ i := Q (MutexQ i) @ [p]))
       \<and> linv s' (Q(CondQ c := ps, MutexQ i := Q (MutexQ i) @ [p])) \<and> mlocks s' = mlocks s"
    using wake_waiter_result [OF assms(2,3) Cons m assms(4)] by blast
  show ?thesis
  proof (cases "m_status (mlocks s i) = UNLOCKED")
    case True
    then show ?thesis using s' Cons condition_signal_unfold [OF assms(1,2) Cons]
      by (intro exI [of _ s'] exI [of _ "Q(CondQ c := ps, ReadyQ := p # Q ReadyQ)"]) simp
  next
    case False
    then show ?thesis using s' Cons condition_signal_unfold [OF assms(1,2) Cons]
      by (intro exI [of _ s'] exI [of _ "Q(CondQ c := ps, MutexQ i := Q (MutexQ i) @ [p])"]) simp
  qed
qed

theorem condition_signal_witness:
  "\<exists>s'. do_condition_signal 1 (demo [(CondQ 1, Pcb 1), (CondQ 1, Pcb 2)] (Pcb 0)) = Some s' \<and> locked_by s' 0 1"
proof -
  let ?xs = "[(CondQ 1, Pcb 1), (CondQ 1, Pcb 2)]"
  have ok: "demo_ok ?xs (Pcb 0)" by (simp add: demo_ok_def)
  have l: "linv (demo ?xs (Pcb 0)) (contents ?xs)" by (simp add: linv_def contents_def)
  have m: "\<forall>p \<in> set (contents ?xs (CondQ 1)). mutex_idx (pcbs (demo ?xs (Pcb 0)) p) = int 0" by simp
  from condition_signal [OF _ kinv_demo [OF ok] l _ m] show ?thesis
    by (auto simp: CONDITION_NUM_def LOCK_NUM_def contents_def)
qed

text \<open>(C14) \<open>do_condition_broadcast\<close> while the mutex of the waiters is held terminates and moves
  all of them, in order, to the end of the queue of the mutex, whose owner does not change.\<close>

theorem condition_broadcast:
  assumes "c < CONDITION_NUM" "kinv s Q" "linv s Q" "i < LOCK_NUM" "m_status (mlocks s i) = LOCKED"
    and "\<forall>p \<in> set (Q (CondQ c)). mutex_idx (pcbs s p) = int i"
  shows "\<exists>s' Q'. do_condition_broadcast (int c) s = Some s' \<and> kinv s' Q' \<and> linv s' Q'
    \<and> Q' (CondQ c) = [] \<and> Q' (MutexQ i) = Q (MutexQ i) @ Q (CondQ c) \<and> mlocks s' = mlocks s"
proof -
  let ?Q = "Q(CondQ c := [], MutexQ i := Q (MutexQ i) @ Q (CondQ c))"
  have "?Q (CondQ c) = []" "?Q (MutexQ i) = Q (MutexQ i) @ Q (CondQ c)" by simp_all
  moreover have "\<And>x. x \<in> set (Q (CondQ c)) \<Longrightarrow> mutex_idx (pcbs s x) = int i" using assms(6) by simp
  ultimately show ?thesis using condition_broadcast_result [OF assms(1-5)] by blast
qed

theorem condition_broadcast_witness:
  "\<exists>s' Q'. do_condition_broadcast 1 (upd_mlock 0 (\<lambda>m. m\<lparr>m_status := LOCKED\<rparr>)
      (demo [(CondQ 1, Pcb 1), (CondQ 1, Pcb 2)] (Pcb 0))) = Some s' \<and> Q' (MutexQ 0) = [Pcb 1, Pcb 2]
     \<and> kinv s' Q'"
proof -
  let ?xs = "[(CondQ 1, Pcb 1), (CondQ 1, Pcb 2)]"
  let ?s = "upd_mlock 0 (\<lambda>m. m\<lparr>m_status := LOCKED\<rparr>) (demo ?xs (Pcb 0))"
  have ok: "demo_ok ?xs (Pcb 0)" by (simp add: demo_ok_def)
  have k: "kinv ?s (contents ?xs)" by (intro upd_mlock_kinv kinv_demo ok)
  have l: "linv ?s (contents ?xs)" by (simp add: linv_def contents_def)
  have m: "\<forall>p \<in> set (contents ?xs (CondQ 1)). mutex_idx (pcbs ?s p) = int 0" by simp
  have b: "1 < CONDITION_NUM" "0 < LOCK_NUM" by (simp_all add: CONDITION_NUM_def LOCK_NUM_def)
  have "m_status (mlocks ?s 0) = LOCKED" by simp
  from condition_broadcast [OF b(1) k l b(2) this m] show ?thesis by (auto simp: contents_def)
qed

section \<open>Mailboxes\<close>

text \<open>(C15) A send of \<open>n\<close> bytes that fit returns \<open>n\<close>, appends the caller's bytes to the mailbox
  and then serves the waiting readers in queue order: each one whose request can be met takes
  the front of the bytes and becomes ready, and none that could be served is left waiting.\<close>

theorem mbox_send:
  assumes "i < MBOX_NUM" "kinv s Q" "mbox_ok s i" "waiters_ok s Q i"
    and "0 \<le> n" "length (mbox_bytes s i) + nat n \<le> MAX_MBOX_LENGTH"
    and "readers_pass (pcbs s) (Q (MboxQ i)) (mbox_bytes s i @ user_bytes s msg (nat n)) (user_view s)
      = (served, bs, um)"
  shows "\<exists>s' Q'. do_mbox_send rt (int i) msg n s = Some (n, s') \<and> kinv s' Q' \<and> mbox_ok s' i
    \<and> mbox_bytes s' i = bs \<and> user_view s' = um
    \<and> Q' (MboxQ i) = filter (\<lambda>x. x \<notin> set served) (Q (MboxQ i)) \<and> Q' ReadyQ = rev served @ Q ReadyQ
    \<and> (\<forall>x \<in> set (Q' (MboxQ i)). mbox_rw (pcbs s x) = 0 \<longrightarrow> length bs < nat (mbox_size (pcbs s x)))"
proof -
  let ?Q = "Q(MboxQ i := filter (\<lambda>x. x \<notin> set served) (Q (MboxQ i)), ReadyQ := rev served @ Q ReadyQ)"
  obtain s' where s': "do_mbox_send rt (int i) msg n s = Some (n, s')" "kinv s' ?Q" "mbox_ok s' i"
    "mbox_bytes s' i = bs" "user_view s' = um"
    using send_result [OF assms, of rt] by blast
  have "\<forall>x \<in> set (?Q (MboxQ i)). mbox_rw (pcbs s x) = 0 \<longrightarrow> length bs < nat (mbox_size (pcbs s x))"
    using readers_pass_no_lost [OF assms(7)] by simp
  then show ?thesis using s' by (intro exI [of _ s'] exI [of _ ?Q]) simp
qed

theorem mbox_send_witness:
  "\<exists>s'. do_mbox_send (\<lambda>_. 0) 4 100 3 (demo [] (Pcb 0)) = Some (3, s') \<and> mbox_bytes s' 4 = [7, 7, 7]"
proof -
  let ?s = "demo [] (Pcb 0)"
  have ok: "demo_ok [] (Pcb 0)" by (simp add: demo_ok_def)
  have m: "mbox_ok ?s 4" by (simp add: mbox_ok_def demo_mbox_def MAX_MBOX_LENGTH_def)
  have w: "waiters_ok ?s (contents []) 4" by (simp add: waiters_ok_def contents_def)
  have u: "user_view ?s x = 7" for x by (simp add: user_view_def demo_def)
  have b: "mbox_bytes ?s 4 = []" "user_bytes ?s 100 (nat 3) = [7, 7, 7]"
    unfolding user_bytes_def u by (simp_all add: mbox_bytes_def demo_mbox_def upt_rec)
  have i: "4 < MBOX_NUM" by (simp add: MBOX_NUM_def)
  have l: "length (mbox_bytes ?s 4) + nat 3 \<le> MAX_MBOX_LENGTH" by (simp add: b MAX_MBOX_LENGTH_def)
  have "readers_pass (pcbs ?s) (contents [] (MboxQ 4)) (mbox_bytes ?s 4 @ user_bytes ?s 100 (nat 3)) (user_view ?s)
      = ([], [7, 7, 7], user_view ?s)" using b by (simp add: contents_def)
  from mbox_send [OF i kinv_demo [OF ok] m w _ l this, of "\<lambda>_. 0"] show ?thesis by auto
qed

text \<open>(C16) A receive of no more bytes than there are returns their number, delivers exactly the
  oldest bytes to the caller's buffer, removes them, and then lets the waiting writers whose
  message fits append it, in queue order. The sizes of the waiting messages are below
  \<open>2 ^ 31 - 128\<close>: the tests for room are made on \<open>int\<close> sums that wrap beyond (C7).\<close>

theorem mbox_recv:
  assumes "i < MBOX_NUM" "kinv s Q" "mbox_ok s i" "writers_ok s Q i"
    and "0 \<le> n" "nat n \<le> length (mbox_bytes s i)"
    and "um = deliver msg (take (nat n) (mbox_bytes s i)) (user_view s)"
    and "writers_pass (pcbs s) um (Q (MboxQ i)) (drop (nat n) (mbox_bytes s i)) = (served, bs)"
  shows "\<exists>s' Q'. do_mbox_recv rt (int i) msg n s = Some (n, s') \<and> kinv s' Q' \<and> mbox_ok s' i
    \<and> mbox_bytes s' i = bs \<and> user_view s' = um
    \<and> Q' (MboxQ i) = filter (\<lambda>x. x \<notin> set served) (Q (MboxQ i)) \<and> Q' ReadyQ = rev served @ Q ReadyQ"
proof -
  let ?Q = "Q(MboxQ i := filter (\<lambda>x. x \<notin> set served) (Q (MboxQ i)), ReadyQ := rev served @ Q ReadyQ)"
  obtain s' where s': "do_mbox_recv rt (int i) msg n s = Some (n, s')" "kinv s' ?Q" "mbox_ok s' i"
    "mbox_bytes s' i = bs" "user_view s' = um"
    using recv_result [OF assms, of rt] by blast
  then show ?thesis by (intro exI [of _ s'] exI [of _ ?Q]) simp
qed

definition demo_full_mbox :: "(nat \<Rightarrow> u8) kernel" where
  "demo_full_mbox = upd_mbox 4 (\<lambda>m. m\<lparr>mb_buffer := \<lparr>rsize = MAX_MBOX_LENGTH, rbyte = of_nat\<rparr>, mb_length := 4\<rparr>)
     (demo [] (Pcb 0))"

theorem mbox_recv_witness:
  "\<exists>s'. do_mbox_recv (\<lambda>_. 0) 4 100 3 demo_full_mbox = Some (3, s') \<and> mbox_bytes s' 4 = [3]
     \<and> user_view s' 102 = 2"
proof -
  let ?s = demo_full_mbox
  have ok: "demo_ok [] (Pcb 0)" by (simp add: demo_ok_def)
  have k: "kinv ?s (contents [])"
    by (rule kinv_change [OF kinv_demo [OF ok]]) (simp_all add: demo_full_mbox_def)
  have m: "mbox_ok ?s 4" by (simp add: mbox_ok_def demo_full_mbox_def MAX_MBOX_LENGTH_def)
  have w: "writers_ok ?s (contents []) 4" by (simp add: writers_ok_def contents_def)
  have b: "mbox_bytes ?s 4 = [0, 1, 2, 3]"
    by (simp add: mbox_bytes_def demo_full_mbox_def upt_rec)
  have i: "4 < MBOX_NUM" by (simp add: MBOX_NUM_def)
  have l: "nat 3 \<le> length (mbox_bytes ?s 4)" by (simp add: b)
  have "writers_pass (pcbs ?s) um (contents [] (MboxQ 4)) (drop (nat 3) (mbox_bytes ?s 4)) = ([], [3])" for um
    by (simp add: b contents_def)
  from mbox_recv [OF i k m w _ l refl this, where msg = 100 and rt = "\<lambda>_. 0"]
  obtain s' where "do_mbox_recv (\<lambda>_. 0) 4 100 3 ?s = Some (3, s')" "mbox_bytes s' 4 = [3]"
    "user_view s' = deliver 100 (take (nat 3) (mbox_bytes ?s 4)) (user_view ?s)" by auto
  moreover have "deliver 100 (take (nat 3) (mbox_bytes ?s 4)) (user_view ?s) 102 = 2"
    by (simp add: b deliver_def)
  ultimately show ?thesis by auto
qed



section \<open>Killing tasks\<close>

text \<open>(C17) \<open>do_kill\<close> of a live task, when no other task waiting for a lock has its process number,
  terminates and leaves it EXITED, in no queue, holding no lock and waited for by nobody: each of its locks
  belongs to the first other task that waited for it, or is free, the remaining waiters keep their order, the
  other locks are unchanged, and every task that waited for its exit is ready. The queue invariant
  is kept.\<close>

theorem kill_releases_everything:
  fixes s :: "'d kernel"
  assumes "i < NUM_MAX_TASK" "kinv s Q" "linv s Q" "pstatus s (Pcb i) \<noteq> TASK_EXITED"
    and "\<forall>j. \<forall>x \<in> set (Q (MutexQ j)). x \<noteq> Pcb i \<longrightarrow> pid (pcbs s x) \<noteq> int i"
  shows "\<exists>s' Q'. do_kill (int i) s = Some (1, s') \<and> kinv s' Q' \<and> linv s' Q'
    \<and> pstatus s' (Pcb i) = TASK_EXITED \<and> in_no_queue Q' (Pcb i)
    \<and> (\<forall>j < LOCK_NUM. \<not> held_by s' (int i) j) \<and> Q' (WaitQ (Pcb i)) = []
    \<and> (\<forall>x \<in> set (Q (WaitQ (Pcb i))). x \<noteq> Pcb i \<longrightarrow> x \<in> set (Q' ReadyQ))
    \<and> (\<forall>j < LOCK_NUM. if held_by s (int i) j
        then lock_passed s (without (Pcb i) Q) j (mlocks s' j) \<and> Q' (MutexQ j) = tl (without (Pcb i) Q (MutexQ j))
        else mlocks s' j = mlocks s j \<and> Q' (MutexQ j) = without (Pcb i) Q (MutexQ j))"
proof -
  obtain s' Q' where r: "do_kill (int i) s = Some (1, s')" "kinv s' Q'" "linv s' Q'" "pstatus s' (Pcb i) = TASK_EXITED"
    "in_no_queue Q' (Pcb i)" "\<forall>j < LOCK_NUM. \<not> held_by s' (int i) j" "Q' (WaitQ (Pcb i)) = []"
    "\<forall>x \<in> set (Q (WaitQ (Pcb i))). x \<noteq> Pcb i \<longrightarrow> x \<in> set (Q' ReadyQ)"
    "\<forall>j. Q' (MutexQ j) = (if j < LOCK_NUM \<and> held_by s (int i) j then tl (without (Pcb i) Q (MutexQ j))
          else without (Pcb i) Q (MutexQ j))"
    "\<forall>j < LOCK_NUM. if held_by s (int i) j then lock_passed s (without (Pcb i) Q) j (mlocks s' j) else mlocks s' j = mlocks s j"
    using do_kill_result [OF assms(1-4)] assms(5) by blast
  then show ?thesis by (intro exI [of _ s'] exI [of _ Q']) auto
qed

theorem kill_releases_everything_witness:
  "\<exists>s' Q'. do_kill 1 (demo [(ReadyQ, Pcb 1), (WaitQ (Pcb 1), Pcb 2)] (Pcb 0)) = Some (1, s')
     \<and> pstatus s' (Pcb 1) = TASK_EXITED \<and> kinv s' Q' \<and> Pcb 2 \<in> set (Q' ReadyQ)"
proof -
  let ?xs = "[(ReadyQ, Pcb 1), (WaitQ (Pcb 1), Pcb 2)]"
  let ?s = "demo ?xs (Pcb 0)"
  have ok: "demo_ok ?xs (Pcb 0)" by (simp add: demo_ok_def)
  have l: "linv ?s (contents ?xs)" by (simp add: linv_def contents_def)
  have a: "pstatus ?s (Pcb 1) \<noteq> TASK_EXITED" by (simp add: demo_status_def)
  have m: "\<forall>j. \<forall>x \<in> set (contents ?xs (MutexQ j)). x \<noteq> Pcb 1 \<longrightarrow> pid (pcbs ?s x) \<noteq> int 1"
    by (simp add: contents_def)
  have i: "1 < NUM_MAX_TASK" by (simp add: NUM_MAX_TASK_def)
  obtain s' Q' where "do_kill (int 1) ?s = Some (1, s')" "kinv s' Q'" "pstatus s' (Pcb 1) = TASK_EXITED"
    "\<forall>x \<in> set (contents ?xs (WaitQ (Pcb 1))). x \<noteq> Pcb 1 \<longrightarrow> x \<in> set (Q' ReadyQ)"
    using kill_releases_everything [OF i kinv_demo [OF ok] l a m] by blast
  then show ?thesis by (auto simp: contents_def)
qed

text \<open>The node of a killed task still points to its old neighbours, and \<open>do_kill\<close> never asks
  whether the task has exited already.\<close>

lemma do_kill_plain:
  assumes "i < NUM_MAX_TASK" "\<forall>j < LOCK_NUM. \<not> held_by s (int i) j"
    and "LIST_IS_EMPTY (Head (WaitQ (Pcb i))) (LIST_REMOVE (PList (Pcb i)) (links s))"
  shows "do_kill (int i) s = Some (1, set_status (Pcb i) TASK_EXITED (upd_links (LIST_REMOVE (PList (Pcb i))) s))"
proof -
  let ?s1 = "upd_links (LIST_REMOVE (PList (Pcb i))) s"
  have "\<exists>t. do_release_locks (int i) ?s1 = Some t \<and> t = ?s1"
    unfolding do_release_locks_def
    by (rule for_each_upt [where P = "\<lambda>n t. t = ?s1"]) (use assms(2) in \<open>auto simp: held_by_def\<close>)
  then show ?thesis using assms(1,3) wake_waiters.simps [of "Pcb i" ?s1] by (simp add: do_kill_def)
qed

text \<open>(C18) Killing a task twice loses other tasks: kill the only ready task, let another task be
  unblocked into the ready queue, and kill the first one again. The second \<open>LIST_REMOVE\<close> works
  on the stale links and empties the ready queue, although the other task is READY.\<close>

theorem second_kill_loses_ready_task:
  assumes "kinv s Q" "i < NUM_MAX_TASK" "Q ReadyQ = [Pcb i]" "Q (WaitQ (Pcb i)) = []"
    and "\<forall>j < LOCK_NUM. \<not> held_by s (int i) j" "c \<in> set (Q q)" "q \<noteq> ReadyQ" "q \<noteq> WaitQ (Pcb i)"
  shows "\<exists>s1 s3. do_kill (int i) s = Some (1, s1)
    \<and> do_kill (int i) (set_status c TASK_READY (do_unblock (PList c) s1)) = Some (1, s3)
    \<and> pstatus s3 c = TASK_READY \<and> LIST_IS_EMPTY (Head ReadyQ) (links s3)"
proof -
  note K = kinvD [OF assms(1)]
  let ?i = "PList (Pcb i)" and ?R = "Head ReadyQ" and ?W = "Head (WaitQ (Pcb i))"
  define h where "h = links s"
  define h1 where "h1 = LIST_REMOVE ?i h"
  define h2 where "h2 = LIST_REMOVE (PList c) h1"
  define h3 where "h3 = LIST_ADD_HEAD ?R (PList c) h2"
  have ci: "c \<noteq> Pcb i" using queuesD(2) [OF K(1) assms(6), of ReadyQ] assms(3,7) by auto
  have ring: "lnext h ?R = ?i" "lprev h ?R = ?i" "lnext h ?i = ?R" "lprev h ?i = ?R"
    using queueD(2) [OF queuesD(1) [OF K(1), of ReadyQ]] assms(3) by (auto simp: h_def)
  have h1: "lnext h1 ?R = ?R" "lprev h1 ?R = ?R" "lnext h1 ?i = ?R" "lprev h1 ?i = ?R"
    using ring by (simp_all add: h1_def LIST_REMOVE_def Let_def)
  have "Pcb i \<in> set (Q ReadyQ)" using assms(3) by simp
  from kq.repr_remove [OF K(1) this] have Q1: "queues h1 (Q(ReadyQ := []))" by (simp add: assms(3) h1_def h_def)
  have cq: "PList c \<in> set (map PList ((Q(ReadyQ := [])) q))" using assms(6,7) by simp
  have ni: "?i \<notin> set (Head q # map PList ((Q(ReadyQ := [])) q))"
    using queuesD(2) [OF K(1), of "Pcb i" ReadyQ q] assms(3,7) by auto
  have nR: "?R \<notin> set (Head q # map PList ((Q(ReadyQ := [])) q))" using assms(7) by auto
  note o = REMOVE_other [OF queuesD(1) [OF Q1, of q] cq]
  have h2: "lnext h2 ?R = ?R" "lprev h2 ?R = ?R" "lnext h2 ?i = ?R" "lprev h2 ?i = ?R"
    unfolding h2_def using o [OF ni] o [OF nR] h1 by simp_all
  have h3: "lnext h3 ?i = ?R" "lprev h3 ?i = ?R"
    using h2 ci by (simp_all add: h3_def LIST_ADD_HEAD_def Let_def)
  have "lnext h ?W = ?W" using queues_front [OF K(1), of "WaitQ (Pcb i)"] assms(4) by (simp add: h_def front_node_def)
  then have w1: "lnext h1 ?W = ?W" using ring by (simp add: h1_def LIST_REMOVE_def Let_def)
  have nW: "?W \<notin> set (Head q # map PList ((Q(ReadyQ := [])) q))" using assms(8) by auto
  have w3: "lnext h3 ?W = ?W"
    using o [OF nW] w1 by (simp add: h3_def h2_def [symmetric] LIST_ADD_HEAD_def Let_def)
  let ?s1 = "set_status (Pcb i) TASK_EXITED (upd_links (LIST_REMOVE ?i) s)"
  let ?s2 = "set_status c TASK_READY (do_unblock (PList c) ?s1)"
  let ?s3 = "set_status (Pcb i) TASK_EXITED (upd_links (LIST_REMOVE ?i) ?s2)"
  have "do_kill (int i) s = Some (1, ?s1)"
    by (rule do_kill_plain [OF assms(2,5)]) (use w1 in \<open>simp add: LIST_IS_EMPTY_def h1_def h_def\<close>)
  moreover have l2: "links ?s2 = h3" by (simp add: h3_def h2_def h1_def h_def)
  have "do_kill (int i) ?s2 = Some (1, ?s3)"
  proof (rule do_kill_plain [OF assms(2)])
    show "\<forall>j < LOCK_NUM. \<not> held_by ?s2 (int i) j" using assms(5) by (simp add: held_by_def)
    show "LIST_IS_EMPTY ?W (LIST_REMOVE ?i (links ?s2))"
      unfolding l2 using w3 h3 by (simp add: LIST_IS_EMPTY_def LIST_REMOVE_def Let_def)
  qed
  moreover have "LIST_IS_EMPTY ?R (links ?s3)"
    using l2 h3 by (simp add: LIST_IS_EMPTY_def LIST_REMOVE_def Let_def)
  moreover have "pstatus ?s3 c = TASK_READY" using ci by simp
  ultimately show ?thesis by blast
qed

theorem second_kill_loses_ready_task_witness:
  "\<exists>s1 s3. do_kill 1 (demo [(ReadyQ, Pcb 1), (SleepQ, Pcb 2)] (Pcb 0)) = Some (1, s1)
     \<and> do_kill 1 (set_status (Pcb 2) TASK_READY (do_unblock (PList (Pcb 2)) s1)) = Some (1, s3)
     \<and> pstatus s3 (Pcb 2) = TASK_READY \<and> LIST_IS_EMPTY (Head ReadyQ) (links s3)"
proof -
  let ?xs = "[(ReadyQ, Pcb 1), (SleepQ, Pcb 2)]"
  have ok: "demo_ok ?xs (Pcb 0)" by (simp add: demo_ok_def)
  have l: "\<forall>j < LOCK_NUM. \<not> held_by (demo ?xs (Pcb 0)) (int 1) j" by (simp add: held_by_def)
  have i: "1 < NUM_MAX_TASK" by (simp add: NUM_MAX_TASK_def)
  have c: "Pcb 2 \<in> set (contents ?xs SleepQ)" by (simp add: contents_def)
  from second_kill_loses_ready_task [OF kinv_demo [OF ok] i _ _ l c] show ?thesis
    by (simp add: contents_def)
qed

end
