(* ===== verification/MemProps.thy ===== *)
theory MemProps
  imports Demo
begin

text \<open>
  Properties of the memory manager and the page fault handlers, each with a witness on a
  concrete memory: one page directory, page 0 of the table pool, and no other page in use.
\<close>

definition demo_dir :: "(nat \<Rightarrow> u8) mm_state" where
  "demo_dir = demo_mm\<lparr>free_pgt_map := (\<lambda>i. if i = 0 then 0x20 else 0)\<rparr>"

lemma tab_zero: "tab (\<lambda>_. 0) j p = (if p = [] then Some j else None)"
  by (cases p) simp_all

lemma wf_demo_dir: "wf_pgdir demo_dir 0"
  by (simp add: wf_pgdir_def demo_dir_def demo_mm_def tab_zero)

lemma demo_dir_free:
  "find_from (\<lambda>i. free_mem_map demo_dir i = 0) 0 MEM_PAGE_NUM = Some 0" "2 \<le> card (free_tables demo_dir)"
proof -
  show "find_from (\<lambda>i. free_mem_map demo_dir i = 0) 0 MEM_PAGE_NUM = Some 0"
    by (simp add: find_from.simps demo_dir_def demo_mm_def)
  have "finite (free_tables demo_dir)" by (rule finite_subset [of _ "{..< 8192}"]) (auto simp: free_tables_def)
  moreover have "{1, 2} \<subseteq> free_tables demo_dir" by (auto simp: free_tables_def demo_dir_def)
  ultimately have "card {1 :: nat, 2} \<le> card (free_tables demo_dir)" by (rule card_mono)
  then show "2 \<le> card (free_tables demo_dir)" by simp
qed

lemma user_va_0: "user_va 0x10000"
  by (simp add: user_va_def user_top_def get_vpn2_def VA_MASK_def NORMAL_PAGE_SHIFT_def PPN_BITS_def push_bit_eq_mult)

section \<open>Mapping\<close>

text \<open>(C19) \<open>alloc_page_helper\<close> extends the address space by exactly one page. On a well-formed page
  directory, with a free frame and two free tables, it returns the first free frame; the walk
  of \<open>get_kva\<close> then sends every address of the page to that frame with its own offset, no
  other user page of the directory changes its entry, and the directory stays well formed.\<close>

theorem alloc_page_helper_maps:
  assumes "wf_pgdir m j" "user_va va" "aid \<noteq> 0"
    and "find_from (\<lambda>i. free_mem_map m i = 0) 0 MEM_PAGE_NUM = Some i" "2 \<le> card (free_tables m)"
  shows "\<exists>m'. alloc_page_helper B ps va (pgt_addr j) aid m = Some (frame_addr i, m') \<and> wf_pgdir m' j
    \<and> (\<forall>va'. user_va va' \<longrightarrow> same_page va va' \<longrightarrow>
          get_kva va' (kva2pa (pgt_addr j)) (mem m') = Some (frame_addr i + get_page_offset va'))
    \<and> (\<forall>va'. user_va va' \<longrightarrow> \<not> same_page va va' \<longrightarrow> pagemap (mem m') j va' = pagemap (mem m) j va')
    \<and> free_mem_map m' = (free_mem_map m)(i := aid)"
proof -
  obtain m' e where r: "alloc_page_helper B ps va (pgt_addr j) aid m = Some (frame_addr i, m')"
    "wf_pgdir m' j" "free_mem_map m' = (free_mem_map m)(i := aid)"
    "\<And>va'. user_va va' \<Longrightarrow> pagemap (mem m') j va' = (if same_page va va' then e else pagemap (mem m) j va')"
    "pa2kva (get_pa e) = frame_addr i" "get_attribute e leaf_attributes = leaf_attributes"
    using alloc_page_helper_result [OF assms, of B ps] by blast
  have "leaf_attributes \<noteq> 0" using present_bits(2) by auto
  then have "e \<noteq> 0" using r(6) by auto
  then have "get_kva va' (kva2pa (pgt_addr j)) (mem m') = Some (frame_addr i + get_page_offset va')"
    if "user_va va'" "same_page va va'" for va'
    using get_kva_pagemap [OF r(2) that(1)] r(4) [OF that(1)] that(2) r(5) by simp
  then show ?thesis using r by auto
qed

theorem alloc_page_helper_maps_witness:
  "\<exists>m'. alloc_page_helper toy_bios (\<lambda>p. demo_pcb p TASK_READY) 0x10000 (pgt_addr 0) 0x20 demo_dir = Some (frame_addr 0, m')
     \<and> get_kva 0x10000 (kva2pa (pgt_addr 0)) (mem m') = Some (frame_addr 0 + get_page_offset 0x10000)"
  using alloc_page_helper_maps [OF wf_demo_dir user_va_0 _ demo_dir_free, of "0x20" toy_bios
      "\<lambda>p. demo_pcb p TASK_READY"] user_va_0
  by (auto simp: same_page_def)

section \<open>Choosing a victim\<close>

text \<open>(C20) The clock algorithm returns if and only if some frame is not marked \<open>KERNEL_PAGE\<close>;
  otherwise its hand turns for ever.\<close>

theorem choose_swap_returns:
  assumes "clock_ptr m < MEM_PAGE_NUM"
  shows "(\<exists>r. choose_swap m = Some r) \<longleftrightarrow> (\<exists>i < MEM_PAGE_NUM. free_mem_map m i AND KERNEL_PAGE = 0)"
  using choose_swap_returns_iff [of m] assms by (auto simp: user_frame_def)

theorem choose_swap_returns_witness: "\<exists>r. choose_swap demo_mm = Some r"
  using choose_swap_returns [of demo_mm] by (auto simp: demo_mm_def intro!: exI [of _ 0])

text \<open>(C21) The frame it returns is not a kernel page and not marked as accessed, and on the way it
  only clears accessed marks and moves the hand.\<close>

theorem choose_swap_victim:
  assumes "choose_swap m = Some (kva, m')" "clock_ptr m < MEM_PAGE_NUM"
  shows "\<exists>k < MEM_PAGE_NUM. kva = frame_addr k \<and> free_mem_map m' k AND KERNEL_PAGE = 0
    \<and> free_mem_map m' k AND MAP_PAGE_ACCESSED = 0
    \<and> (\<forall>x. free_mem_map m' x = free_mem_map m x
          \<or> free_mem_map m' x = free_mem_map m x AND NOT MAP_PAGE_ACCESSED)
    \<and> m' = m\<lparr>free_mem_map := free_mem_map m', clock_ptr := clock_ptr m'\<rparr>"
proof -
  have c: "clock_ptr m < 8192" using assms(2) by simp
  obtain i where i: "user_frame m i" using choose_swap_Some_user [OF assms(1)] c by blast
  obtain k where k: "kva = frame_addr k" "user_frame m k" "k \<notin> accessed_frames m'"
    "\<And>x. free_mem_map m' x = free_mem_map m x \<or> free_mem_map m' x = free_mem_map m x AND NOT MAP_PAGE_ACCESSED"
    "m' = m\<lparr>free_mem_map := free_mem_map m', clock_ptr := clock_ptr m'\<rparr>"
    using choose_swap_terminates [OF i c] assms(1) by auto
  have "free_mem_map m' k AND KERNEL_PAGE = 0"
    using k(4) [of k] k(2) cleared_kernel [of "free_mem_map m k"] by (auto simp: user_frame_def)
  moreover from this have "free_mem_map m' k AND MAP_PAGE_ACCESSED = 0"
    using k(2,3) by (auto simp: accessed_frames_def user_frame_def)
  ultimately show ?thesis using k by (auto simp: user_frame_def)
qed

theorem choose_swap_victim_witness:
  "\<exists>kva m' k. choose_swap demo_mm = Some (kva, m') \<and> kva = frame_addr k \<and> free_mem_map m' k AND KERNEL_PAGE = 0"
proof -
  have c: "clock_ptr demo_mm < MEM_PAGE_NUM" by (simp add: demo_mm_def)
  have "user_frame demo_mm 0" by (simp add: user_frame_def demo_mm_def)
  then obtain kva m' where r: "choose_swap demo_mm = Some (kva, m')"
    using choose_swap_terminates [of demo_mm 0] c by auto
  from choose_swap_victim [OF r c] r show ?thesis by blast
qed

section \<open>Swapping\<close>

text \<open>(C22) A page goes to the swap area and comes back as it was. For a frame in use whose owner has a
  well-formed page directory, with a free slot of the swap table, \<open>swap_out\<close> returns, and swapping
  the slot into frame \<open>num'\<close> puts the 512 words that frame \<open>num\<close> held before the swap there, with the
  owner tag and the virtual address, and empties the slot, if the card keeps what is written. On the way
  the entry of the page in its owner's directory loses the present bit, and no other user page of that
  directory changes its entry.\<close>

theorem swap_round_trip:
  assumes "sd_ok B content cap" "unat (swap_sector (sec_ptr m) m) + 8 \<le> cap"
    and "num < MEM_PAGE_NUM" "num' < MEM_PAGE_NUM"
    and "find_from (\<lambda>i. sw_asid (swap_info m i) = 0) 0 SWAP_INFO_NUM = Some i"
    and "owner_pgdir ps (ucast (free_mem_map m num)) = kva2pa (pgt_addr j)" "wf_pgdir m j"
    and "va = get_page_base (va_info m num)" "user_va va"
  shows "\<exists>m1 m2. swap_out B ps (frame_addr num) m = Some m1 \<and> swap_in B (frame_addr num') i m1 = Some m2
    \<and> (\<forall>w < 512. mem m2 (frame_addr num' + 8 * of_nat w) = mem m (frame_addr num + 8 * of_nat w))
    \<and> (\<forall>va'. user_va va' \<longrightarrow> pagemap (mem m2) j va' =
          (if same_page va va' then unset_attribute (pagemap (mem m) j va) PAGE_PRESENT else pagemap (mem m) j va'))
    \<and> free_mem_map m2 = (free_mem_map m)(num := 0, num' := free_mem_map m num)
    \<and> va_info m2 = (va_info m)(num := 0, num' := va)
    \<and> swap_info m2 i = \<lparr>sw_va = 0, sw_asid = 0, sw_sec_num = 0\<rparr>"
proof -
  have n: "num < 8192" "num' < 8192" using assms(3,4) by simp_all
  obtain m1 where m1: "swap_out B ps (frame_addr num) m = Some m1" "wf_pgdir m1 j"
    "\<forall>f w. f < 8192 \<longrightarrow> w < 512 \<longrightarrow> mem m1 (frame_addr f + 8 * of_nat w) = mem m (frame_addr f + 8 * of_nat w)"
    "\<forall>va'. user_va va' \<longrightarrow> pagemap (mem m1) j va' =
          (if same_page va va' then unset_attribute (pagemap (mem m) j va) PAGE_PRESENT else pagemap (mem m) j va')"
    using swap_out_runs [OF n(1) assms(5-9), of B] by blast
  from swap_round_trip_words [OF assms(1,2) n assms(5) m1(1)] obtain m2 where
    m2: "swap_in B (frame_addr num') i m1 = Some m2" "free_pgt_map m2 = free_pgt_map m1"
    "\<And>k v. k < 8192 \<Longrightarrow> unat v < 512 \<Longrightarrow> mem m2 (entry_addr k v) = mem m1 (entry_addr k v)"
    "\<forall>w < 512. mem m2 (frame_addr num' + 8 * of_nat w) = mem m1 (frame_addr num + 8 * of_nat w)"
    "free_mem_map m2 = (free_mem_map m)(num := 0, num' := free_mem_map m num)"
    "va_info m2 = (va_info m)(num := 0, num' := get_page_base (va_info m num))"
    "swap_info m2 i = \<lparr>sw_va = 0, sw_asid = 0, sw_sec_num = 0\<rparr>"
    by blast
  have "pagemap (mem m2) j va' = pagemap (mem m1) j va'" if "user_va va'" for va'
    by (rule same_entries(3) [OF m1(2) m2(2) m2(3) that])
  then show ?thesis using m1 m2(1,4-7) n assms(8) by (intro exI [of _ m1] exI [of _ m2]) simp
qed

definition demo_owner :: "pcb_ref \<Rightarrow> pcb_t" where
  "demo_owner p = (demo_pcb p TASK_READY)\<lparr>satp := kva2pa (pgt_addr 0)\<rparr>"

definition demo_full :: "(nat \<Rightarrow> u8) mm_state" where
  "demo_full = demo_dir\<lparr>free_mem_map := (\<lambda>i. if i = 5 then 0x20 else 0), va_info := (\<lambda>i. if i = 5 then 0x10000 else 0),
     mem := (\<lambda>_. 0)(frame_addr 5 + 8 := 0xfeed)\<rparr>"

lemma wf_demo_full: "wf_pgdir demo_full 0"
proof (rule same_entries(2) [OF wf_demo_dir])
  show "free_pgt_map demo_full = free_pgt_map demo_dir" by (simp add: demo_full_def)
  fix k :: nat and w :: u64 assume "k < 8192" "unat w < 512"
  then show "mem demo_full (entry_addr k w) = mem demo_dir (entry_addr k w)"
    using frame_not_entry [of 5 1 k w] by (auto simp: demo_full_def demo_dir_def demo_mm_def)
qed

lemma page_base_10000 [simp]: "get_page_base 0x10000 = 0x10000"
  by (simp add: get_page_base_def NORMAL_PAGE_SIZE_def NORMAL_PAGE_SHIFT_def push_bit_eq_mult)

lemma demo_owner_pgdir: "owner_pgdir demo_owner 0x20 = kva2pa (pgt_addr 0)"
  by (simp add: owner_pgdir_def find_from.simps TASK_MAXNUM_def demo_owner_def ASID_USER_def)

theorem swap_round_trip_witness:
  "\<exists>m1 m2. swap_out toy_bios demo_owner (frame_addr 5) demo_full = Some m1
     \<and> swap_in toy_bios (frame_addr 9) 0 m1 = Some m2 \<and> free_mem_map m2 9 = 0x20 \<and> va_info m2 9 = 0x10000
     \<and> mem m2 (frame_addr 9 + 8) = 0xfeed"
proof -
  have f: "free_mem_map demo_full 5 = 0x20" "va_info demo_full 5 = 0x10000" "mem demo_full (frame_addr 5 + 8) = 0xfeed"
    by (simp_all add: demo_full_def)
  have i: "find_from (\<lambda>i. sw_asid (swap_info demo_full i) = 0) 0 SWAP_INFO_NUM = Some 0"
    by (simp add: find_from.simps SWAP_INFO_NUM_def demo_full_def demo_dir_def demo_mm_def)
  have c: "unat (swap_sector (sec_ptr demo_full) demo_full) + 8 \<le> 100"
    by (simp add: swap_sector_def demo_full_def demo_dir_def demo_mm_def)
  have d: "owner_pgdir demo_owner (ucast (free_mem_map demo_full 5)) = kva2pa (pgt_addr 0)"
    using demo_owner_pgdir by (simp add: f)
  have va: "0x10000 = get_page_base (va_info demo_full 5)" by (simp add: f)
  from swap_round_trip [OF toy_sd_ok c _ _ i d wf_demo_full va user_va_0, of 9] obtain m1 m2 where
    "swap_out toy_bios demo_owner (frame_addr 5) demo_full = Some m1" "swap_in toy_bios (frame_addr 9) 0 m1 = Some m2"
    "free_mem_map m2 9 = 0x20" "va_info m2 9 = 0x10000"
    and w: "\<forall>w < 512. mem m2 (frame_addr 9 + 8 * of_nat w) = mem demo_full (frame_addr 5 + 8 * of_nat w)"
    by (auto simp: f)
  moreover have "mem m2 (frame_addr 9 + 8) = 0xfeed" using spec [OF w, of 1] f(3) by simp
  ultimately show ?thesis by blast
qed

text \<open>(C23) A load or store fault on a page whose entry exists and that \<open>page_in_swap\<close> finds in
  slot \<open>slot\<close> terminates with the page back in the first free frame: the frame holds the 512 words that
  the card delivers for the slot's sectors, \<open>get_kva\<close> finds the frame at the faulting address,
  all other user pages keep their entries, the frame gets the slot's owner tag marked as
  accessed and the slot's virtual address, and the slot is empty.\<close>

theorem page_fault_restores:
  fixes s :: "'d kernel"
  assumes "h = handle_load_page_fault \<or> h = handle_store_page_fault"
    and "wf_pgdir (mm s) j" "satp (pcbs s (current_running s)) = kva2pa (pgt_addr j)" "user_va va"
    and "pagemap (mem (mm s)) j va \<noteq> 0"
    and "page_in_swap va (ucast (asid (pcbs s (current_running s)))) (mm s) = Some slot"
    and "find_from (\<lambda>i. free_mem_map (mm s) i = 0) 0 MEM_PAGE_NUM = Some i"
  shows "\<exists>m'. h B va s = Some (s\<lparr>mm := m'\<rparr>) \<and> wf_pgdir m' j
    \<and> get_kva va (kva2pa (pgt_addr j)) (mem m') = Some (frame_addr i + get_page_offset va)
    \<and> (\<forall>va'. user_va va' \<longrightarrow> \<not> same_page va va' \<longrightarrow> pagemap (mem m') j va' = pagemap (mem (mm s)) j va')
    \<and> free_mem_map m' = (free_mem_map (mm s))(i := sw_asid (swap_info (mm s) slot) OR MAP_PAGE_ACCESSED)
    \<and> va_info m' = (va_info (mm s))(i := sw_va (swap_info (mm s) slot))
    \<and> swap_info m' = (swap_info (mm s))(slot := \<lparr>sw_va = 0, sw_asid = 0, sw_sec_num = 0\<rparr>)
    \<and> (\<forall>w < 512. mem m' (frame_addr i + 8 * of_nat w)
          = card_word B (swap_sector (sw_sec_num (swap_info (mm s) slot)) (mm s)) (sd (mm s)) w)"
proof -
  define bits where "bits = (if h = handle_load_page_fault then PAGE_PRESENT OR PAGE_ACCESSED
    else PAGE_ACCESSED OR PAGE_DIRTY OR PAGE_PRESENT)"
  have h: "h = page_fault bits" using assms(1)
    by (auto simp: bits_def handle_load_page_fault_def handle_store_page_fault_def)
  have "bits = PAGE_PRESENT OR PAGE_ACCESSED \<or> bits = PAGE_ACCESSED OR PAGE_DIRTY OR PAGE_PRESENT"
    by (simp add: bits_def)
  from page_fault_swapped [OF this refl refl assms(2-7), of B] show ?thesis unfolding h assms(3) .
qed

theorem page_fault_restores_witness:
  "\<exists>s m'. handle_load_page_fault toy_bios 0x10000 s = Some (s\<lparr>mm := m'\<rparr>)
     \<and> get_kva 0x10000 (kva2pa (pgt_addr 0)) (mem m') = Some (frame_addr 1 + get_page_offset 0x10000)"
proof -
  have nz: "(0x20 :: u8) \<noteq> 0" by simp
  obtain m :: "(nat \<Rightarrow> u8) mm_state" and e where m: "wf_pgdir m 0" "free_mem_map m = (free_mem_map demo_dir)(0 := 0x20)"
    "\<And>va'. user_va va' \<Longrightarrow> pagemap (mem m) 0 va' = (if same_page 0x10000 va' then e else pagemap (mem demo_dir) 0 va')"
    "get_attribute e leaf_attributes = leaf_attributes"
    using alloc_page_helper_result [OF wf_demo_dir user_va_0 nz demo_dir_free, of toy_bios demo_owner] by blast
  have "leaf_attributes \<noteq> 0" using present_bits(2) by auto
  then have e: "e \<noteq> 0" using m(4) by auto
  define m0 where "m0 = m\<lparr>swap_info := (\<lambda>_. \<lparr>sw_va = 0x10000, sw_asid = 0x20, sw_sec_num = 0\<rparr>)\<rparr>"
  define s where "s = (demo [] (Pcb 0))\<lparr>mm := m0, pcbs := demo_owner\<rparr>"
  have s: "mm s = m0" "current_running s = Pcb 0" "pcbs s = demo_owner"
    by (simp_all add: s_def demo_def current_running_def)
  have wf: "wf_pgdir (mm s) 0" using m(1) by (simp add: s m0_def wf_pgdir_def)
  have sp: "satp (pcbs s (current_running s)) = kva2pa (pgt_addr 0)" by (simp add: s demo_owner_def)
  have pm: "pagemap (mem (mm s)) 0 0x10000 \<noteq> 0" using m(3) [OF user_va_0] e by (simp add: s m0_def same_page_def)
  have sw: "page_in_swap 0x10000 (ucast (asid (pcbs s (current_running s)))) (mm s) = Some 0"
    by (simp add: s demo_owner_def page_in_swap_def find_from.simps SWAP_INFO_NUM_def m0_def
        is_same_proc_def ASID_USER_def)
  have fr: "find_from (\<lambda>i. free_mem_map (mm s) i = 0) 0 MEM_PAGE_NUM = Some 1"
    by (simp add: find_from.simps s m0_def m(2) demo_dir_def demo_mm_def)
  from page_fault_restores [OF disjI1 [OF refl] wf sp user_va_0 pm sw fr, of toy_bios]
  show ?thesis by auto
qed

section \<open>Ownership by bit mask\<close>

lemma bit_0x20: "bit (0x20 :: u8) n \<longleftrightarrow> n = 5"
proof (cases "n < 8")
  case True
  then have "n = 0 \<or> n = 1 \<or> n = 2 \<or> n = 3 \<or> n = 4 \<or> n = 5 \<or> n = 6 \<or> n = 7" by linarith
  then show ?thesis by (elim disjE) simp_all
qed (auto dest: bit_imp_le_length)

text \<open>\<open>freeProcessMem\<close> identifies the pages of task \<open>j\<close> by a bit mask and not by equality, so
  it frees a frame of another task \<open>k\<close> exactly when the bits of \<open>j\<close> are among those of \<open>k\<close>: the
  exit of task 1 frees the frames of tasks 3, 5, 7 and so on, and that of task 0 everybody's.\<close>

theorem freeProcessMem_frees_supersets:
  assumes "x < MEM_PAGE_NUM" "j AND 0x20 = 0" "k AND 0x20 = 0" "free_mem_map m x = 0x20 OR k"
  shows "free_mem_map (freeProcessMem (0x20 OR j) m) x = 0 \<longleftrightarrow> k AND j = j"
proof -
  note b5 = bit_0x20
  have "bit (0x20 OR k :: u8) 5" by (simp only: bit_or_iff b5) simp
  then have nz: "(0x20 OR k :: u8) \<noteq> 0" by auto
  have "bit (j AND 0x20) 5 = bit j 5" "bit (k AND 0x20) 5 = bit k 5" by (simp_all only: bit_and_iff b5) simp_all
  then have z: "\<not> bit j 5" "\<not> bit k 5" unfolding assms(2,3) by simp_all
  have "(0x20 OR k) AND (0x20 OR j) = 0x20 OR j \<longleftrightarrow> k AND j = j"
  proof
    assume eq: "(0x20 OR k) AND (0x20 OR j) = 0x20 OR j"
    show "k AND j = j"
    proof (rule bit_word_eqI)
      fix n
      have "bit ((0x20 OR k) AND (0x20 OR j)) n = bit (0x20 OR j) n" by (simp only: eq)
      then show "bit (k AND j) n = bit j n" unfolding bit_and_iff bit_or_iff b5 using z by blast
    qed
  next
    assume eq: "k AND j = j"
    show "(0x20 OR k) AND (0x20 OR j) = 0x20 OR j"
    proof (rule bit_word_eqI)
      fix n
      have "bit (k AND j) n = bit j n" by (simp only: eq)
      then show "bit ((0x20 OR k) AND (0x20 OR j)) n = bit (0x20 OR j) n"
        unfolding bit_and_iff bit_or_iff by blast
    qed
  qed
  then show ?thesis using assms(1,4) nz by (simp add: freeProcessMem_def)
qed

theorem freeProcessMem_frees_supersets_witness:
  "free_mem_map (freeProcessMem (0x20 OR 1) (demo_mm\<lparr>free_mem_map := (\<lambda>_. 0x20 OR 3)\<rparr>)) 7 = 0"
proof -
  have "(7 :: nat) < MEM_PAGE_NUM" by simp
  from freeProcessMem_frees_supersets [OF this, of 1 3 "demo_mm\<lparr>free_mem_map := (\<lambda>_. 0x20 OR 3)\<rparr>"]
  show ?thesis by simp
qed

text \<open>\<open>page_in_swap\<close> uses the same mask: with a page of task 1 in an earlier slot than the page
  of task 0 at the same virtual address, the search for task 0 returns the page of task 1.\<close>

theorem page_in_swap_wrong_owner:
  assumes "i < j" "j < SWAP_INFO_NUM"
    and "\<forall>l < i. sw_va (swap_info m l) \<noteq> get_page_base va"
    and "sw_va (swap_info m i) = get_page_base va" "sw_asid (swap_info m i) = 0x21"
    and "sw_va (swap_info m j) = get_page_base va" "sw_asid (swap_info m j) = 0x20"
  shows "page_in_swap va 0x20 m = Some i"
  unfolding page_in_swap_def find_from_Some_iff
  using assms by (auto simp: is_same_proc_def)

theorem page_in_swap_wrong_owner_witness:
  "page_in_swap 0x10000 0x20 (demo_mm\<lparr>swap_info := (\<lambda>i. \<lparr>sw_va = 0x10000,
     sw_asid = (if i = 0 then 0x21 else 0x20), sw_sec_num = int i\<rparr>)\<rparr>) = Some 0"
proof -
  let ?m = "demo_mm\<lparr>swap_info := (\<lambda>i. \<lparr>sw_va = 0x10000, sw_asid = (if i = 0 then 0x21 else 0x20), sw_sec_num = int i\<rparr>)\<rparr>"
  have "1 < SWAP_INFO_NUM" by (simp add: SWAP_INFO_NUM_def)
  from page_in_swap_wrong_owner [OF _ this, of 0 ?m "0x10000"] show ?thesis by simp
qed

end
