(* ===== verification/FsState.thy ===== *)
theory FsState
  imports CString Kstate "HOL-Library.Signed_Division"
begin

text \<open>
  The file system of \<open>kernel/fs/fs.c\<close> and \<open>include/os/fs.h\<close>: its data and the transfers
  between memory and the card. One record holds the file's globals, the static variable
  \<open>last\<close> of \<open>split_path\<close>, the four scratch areas \<open>TEMP\<close> .. \<open>TEMP4\<close> (1 MB apart, so that is
  their size) and the card. On the card the file system starts at sector \<open>1 << 20\<close>:
  superblock, inode map, inode table, block map, data blocks of 4096 bytes.

  \<open>BLOCK_MAP_SIZE\<close> is \<open>1<<17\<close> without parentheses, so \<open>BLOCK_MAP_SIZE/SEC_SIZE\<close> is
  \<open>1<<(17/512)\<close>, one sector; the transfers of the block map move that one sector.
\<close>

section \<open>Constants\<close>

definition SUPERBLOCK_MAGIC :: u32 where "SUPERBLOCK_MAGIC = 0xDF4C4459"
definition NUM_FDESCS :: nat where "NUM_FDESCS = 16"
definition INODE_NUM :: nat where "INODE_NUM = 2048"
definition START_SEC :: u32 where "START_SEC = push_bit 20 1"
definition BLOCK_SIZE :: int where "BLOCK_SIZE = 4096"
definition SEC_SIZE :: nat where "SEC_SIZE = 512"
definition BLOCK_MAP_SIZE :: nat where "BLOCK_MAP_SIZE = push_bit 17 1"
definition BLOCK_MAP_SECTORS :: u32 where "BLOCK_MAP_SECTORS = push_bit (17 div SEC_SIZE) 1"
definition INDIRECT_SIZE :: int where "INDIRECT_SIZE = 1024"
definition OWNER_READ :: u32 where "OWNER_READ = 0x100"
definition OWNER_WRITE :: u32 where "OWNER_WRITE = 0x080"
definition OWNER_EXEC :: u32 where "OWNER_EXEC = 0x040"
definition GROUP_READ :: u32 where "GROUP_READ = 0x020"
definition GROUP_EXEC :: u32 where "GROUP_EXEC = 0x008"
definition OTHER_READ :: u32 where "OTHER_READ = 0x004"
definition OTHER_EXEC :: u32 where "OTHER_EXEC = 0x001"
definition SEEK_SET :: int where "SEEK_SET = 0"
definition SEEK_CUR :: int where "SEEK_CUR = 1"
definition SEEK_END :: int where "SEEK_END = 2"

text \<open>Sizes in bytes of \<open>inode_t\<close> and \<open>dentry_t\<close>, and what follows from them.\<close>

definition INODE_BYTES :: nat where "INODE_BYTES = 48"
definition DENTRY_BYTES :: nat where "DENTRY_BYTES = 32"
definition DENTRIES :: nat where "DENTRIES = nat BLOCK_SIZE div DENTRY_BYTES"
definition INODE_SECTORS :: u32 where "INODE_SECTORS = of_nat (INODE_NUM * INODE_BYTES div SEC_SIZE)"
definition TEMP_SIZE :: nat where "TEMP_SIZE = 0x100000"

section \<open>Data\<close>

record superblock_t =
  magic :: u32
  fs_size :: u32
  fs_start_sec :: u32
  block_size :: u32
  block_map_offset :: u32
  inode_map_offset :: u32
  inode_size :: u32
  dentry_size :: u32
  inode_offset :: u32
  data_offset :: u32

record inode_t =
  i_mode :: u32
  i_size :: u32
  i_link :: u32
  i_sec :: "nat \<Rightarrow> u32"
  i_parent :: u32

record fdesc_t =
  fd_mode :: int
  fd_offset :: int
  fd_inode_num :: int
  fd_follow_inode :: int
  fd_ref_count :: int

datatype buf = TEMP | TEMP2 | TEMP3 | TEMP4

text \<open>\<open>superblock_tail\<close> are the bytes of memory behind the superblock, which \<open>store_superblock\<close>
  writes to the card with it.\<close>

record 'd fs =
  superblock :: superblock_t
  superblock_tail :: "nat \<Rightarrow> u8"
  inode_map :: "nat \<Rightarrow> u8"
  block_map :: "nat \<Rightarrow> u8"
  inodes :: "nat \<Rightarrow> inode_t"
  bufs :: "buf \<Rightarrow> region"
  fdesc_array :: "nat \<Rightarrow> fdesc_t"
  path_buffer :: region
  name_buffer :: region
  path_last :: "nat option"
  current_inode :: int
  card :: 'd

definition upd_inode :: "nat \<Rightarrow> (inode_t \<Rightarrow> inode_t) \<Rightarrow> 'd fs \<Rightarrow> 'd fs" where
  "upd_inode n g f = f\<lparr>inodes := (inodes f)(n := g (inodes f n))\<rparr>"

definition upd_fdesc :: "nat \<Rightarrow> (fdesc_t \<Rightarrow> fdesc_t) \<Rightarrow> 'd fs \<Rightarrow> 'd fs" where
  "upd_fdesc k g f = f\<lparr>fdesc_array := (fdesc_array f)(k := g (fdesc_array f k))\<rparr>"

definition set_buf :: "buf \<Rightarrow> region \<Rightarrow> 'd fs \<Rightarrow> 'd fs" where
  "set_buf b r f = f\<lparr>bufs := (bufs f)(b := r)\<rparr>"

lemma set_buf_simps [simp]:
  "superblock (set_buf b r f) = superblock f" "inodes (set_buf b r f) = inodes f"
  "inode_map (set_buf b r f) = inode_map f" "block_map (set_buf b r f) = block_map f"
  "fdesc_array (set_buf b r f) = fdesc_array f" "card (set_buf b r f) = card f"
  "path_buffer (set_buf b r f) = path_buffer f" "name_buffer (set_buf b r f) = name_buffer f"
  "path_last (set_buf b r f) = path_last f" "current_inode (set_buf b r f) = current_inode f"
  "bufs (set_buf b r f) = (bufs f)(b := r)"
  by (simp_all add: set_buf_def)

lemma upd_inode_simps [simp]:
  "superblock (upd_inode n g f) = superblock f" "inodes (upd_inode n g f) = (inodes f)(n := g (inodes f n))"
  "inode_map (upd_inode n g f) = inode_map f" "block_map (upd_inode n g f) = block_map f"
  "fdesc_array (upd_inode n g f) = fdesc_array f" "card (upd_inode n g f) = card f"
  "path_buffer (upd_inode n g f) = path_buffer f" "name_buffer (upd_inode n g f) = name_buffer f"
  "path_last (upd_inode n g f) = path_last f" "current_inode (upd_inode n g f) = current_inode f"
  "bufs (upd_inode n g f) = bufs f"
  by (simp_all add: upd_inode_def)

text \<open>\<open>inodes[n].sec[i]\<close>.\<close>

definition inode_sec :: "int \<Rightarrow> int \<Rightarrow> 'd fs \<Rightarrow> u32 option" where
  "inode_sec n i f = do { k \<leftarrow> index n INODE_NUM; j \<leftarrow> index i 8; Some (i_sec (inodes f k) j) }"

definition set_inode_sec :: "int \<Rightarrow> int \<Rightarrow> int \<Rightarrow> 'd fs \<Rightarrow> 'd fs option" where
  "set_inode_sec n i v f = do {
     k \<leftarrow> index n INODE_NUM; j \<leftarrow> index i 8;
     Some (upd_inode k (\<lambda>d. d\<lparr>i_sec := (i_sec d)(j := word_of_int v)\<rparr>) f) }"

text \<open>A 32-bit word at a byte offset.\<close>

definition get32 :: "region \<Rightarrow> nat \<Rightarrow> u32 option" where
  "get32 r p = (if p + 4 \<le> rsize r then Some (le32 (\<lambda>b. rbyte r (p + b))) else None)"

definition set32 :: "region \<Rightarrow> nat \<Rightarrow> u32 \<Rightarrow> region option" where
  "set32 r p v = (if p + 4 \<le> rsize r then Some (r\<lparr>rbyte := blit (rbyte r) p 4 (byte_of v)\<rparr>) else None)"

text \<open>\<open>indirect_pointer[i]\<close> and its like.\<close>

definition get_ptr :: "buf \<Rightarrow> int \<Rightarrow> 'd fs \<Rightarrow> u32 option" where
  "get_ptr b i f = do { p \<leftarrow> byte_offset (4 * i); get32 (bufs f b) p }"

definition set_ptr :: "buf \<Rightarrow> int \<Rightarrow> int \<Rightarrow> 'd fs \<Rightarrow> 'd fs option" where
  "set_ptr b i v f = do {
     p \<leftarrow> byte_offset (4 * i); r \<leftarrow> set32 (bufs f b) p (word_of_int v); Some (set_buf b r f) }"

section \<open>The structures as bytes\<close>

definition superblock_word :: "superblock_t \<Rightarrow> nat \<Rightarrow> u32" where
  "superblock_word sb w =
     [magic sb, fs_size sb, fs_start_sec sb, block_size sb, block_map_offset sb,
      inode_map_offset sb, inode_size sb, dentry_size sb, inode_offset sb, data_offset sb] ! w"

definition superblock_bytes :: "'d fs \<Rightarrow> nat \<Rightarrow> u8" where
  "superblock_bytes f i =
     (if i < 40 then byte_of (superblock_word (superblock f) (i div 4)) (i mod 4)
      else superblock_tail f i)"

definition superblock_of :: "(nat \<Rightarrow> u8) \<Rightarrow> superblock_t" where
  "superblock_of bs = (let w = (\<lambda>k. le32 (\<lambda>b. bs (4 * k + b))) in
     \<lparr>magic = w 0, fs_size = w 1, fs_start_sec = w 2, block_size = w 3, block_map_offset = w 4,
      inode_map_offset = w 5, inode_size = w 6, dentry_size = w 7, inode_offset = w 8,
      data_offset = w 9\<rparr>)"

definition inode_word :: "inode_t \<Rightarrow> nat \<Rightarrow> u32" where
  "inode_word d w = (if w = 0 then i_mode d else if w = 1 then i_size d else if w = 2 then i_link d
     else if w < 11 then i_sec d (w - 3) else i_parent d)"

definition inode_bytes :: "'d fs \<Rightarrow> nat \<Rightarrow> u8" where
  "inode_bytes f i =
     byte_of (inode_word (inodes f (i div INODE_BYTES)) (i mod INODE_BYTES div 4)) (i mod 4)"

text \<open>The fields outside the eight block pointers of an inode do not exist and stay as they are.\<close>

definition inode_of :: "inode_t \<Rightarrow> (nat \<Rightarrow> u8) \<Rightarrow> inode_t" where
  "inode_of d bs = (let w = (\<lambda>k. le32 (\<lambda>b. bs (4 * k + b))) in
     \<lparr>i_mode = w 0, i_size = w 1, i_link = w 2,
      i_sec = (\<lambda>k. if k < 8 then w (3 + k) else i_sec d k), i_parent = w 11\<rparr>)"

section \<open>Transfers\<close>

definition get_start_sec :: "int \<Rightarrow> 'd fs \<Rightarrow> u32" where
  "get_start_sec offset f = fs_start_sec (superblock f) + word_of_int (offset sdiv int SEC_SIZE)"

definition fs_write :: "'d bios \<Rightarrow> (nat \<Rightarrow> u8) \<Rightarrow> u32 \<Rightarrow> int \<Rightarrow> 'd fs \<Rightarrow> 'd fs" where
  "fs_write B src n offset f =
     f\<lparr>card := snd (bios_sdwrite B n (get_start_sec offset f) src (card f))\<rparr>"

definition fs_read :: "'d bios \<Rightarrow> u32 \<Rightarrow> int \<Rightarrow> 'd fs \<Rightarrow> nat \<Rightarrow> u8" where
  "fs_read B n offset f = snd (bios_sdread B n (get_start_sec offset f) (card f))"

definition store_superblock :: "'d bios \<Rightarrow> 'd fs \<Rightarrow> 'd fs" where
  "store_superblock B f = fs_write B (superblock_bytes f) 1 0 f"

text \<open>The loads of the superblock go through \<open>TEMP\<close>.\<close>

definition read_superblock :: "u32 \<Rightarrow> 'd bios \<Rightarrow> 'd fs \<Rightarrow> int \<times> 'd fs" where
  "read_superblock sec B f =
     (let (ret, bs) = bios_sdread B 1 sec (card f);
          r = (bufs f TEMP)\<lparr>rbyte := blit (rbyte (bufs f TEMP)) 0 512 bs\<rparr>
      in (ret, set_buf TEMP r f))"

definition load_superblock :: "'d bios \<Rightarrow> 'd fs \<Rightarrow> 'd fs" where
  "load_superblock B f =
     (let f1 = snd (read_superblock START_SEC B f)
      in f1\<lparr>superblock := superblock_of (rbyte (bufs f1 TEMP))\<rparr>)"

definition store_inode_map :: "'d bios \<Rightarrow> 'd fs \<Rightarrow> 'd fs" where
  "store_inode_map B f =
     fs_write B (inode_map f) (of_nat (INODE_NUM div SEC_SIZE)) (sint (inode_map_offset (superblock f))) f"

definition load_inode_map :: "'d bios \<Rightarrow> 'd fs \<Rightarrow> 'd fs" where
  "load_inode_map B f =
     f\<lparr>inode_map := blit (inode_map f) 0 INODE_NUM
         (fs_read B (of_nat (INODE_NUM div SEC_SIZE)) (sint (inode_map_offset (superblock f))) f)\<rparr>"

definition store_block_map :: "'d bios \<Rightarrow> 'd fs \<Rightarrow> 'd fs" where
  "store_block_map B f =
     fs_write B (block_map f) BLOCK_MAP_SECTORS (sint (block_map_offset (superblock f))) f"

definition load_block_map :: "'d bios \<Rightarrow> 'd fs \<Rightarrow> 'd fs" where
  "load_block_map B f =
     f\<lparr>block_map := blit (block_map f) 0 (512 * unat BLOCK_MAP_SECTORS)
         (fs_read B BLOCK_MAP_SECTORS (sint (block_map_offset (superblock f))) f)\<rparr>"

definition store_inodes :: "'d bios \<Rightarrow> 'd fs \<Rightarrow> 'd fs" where
  "store_inodes B f = fs_write B (inode_bytes f) INODE_SECTORS (sint (inode_offset (superblock f))) f"

definition load_inodes :: "'d bios \<Rightarrow> 'd fs \<Rightarrow> 'd fs" where
  "load_inodes B f =
     (let bs = fs_read B INODE_SECTORS (sint (inode_offset (superblock f))) f
      in f\<lparr>inodes := (\<lambda>n. if n < INODE_NUM then inode_of (inodes f n) (\<lambda>b. bs (INODE_BYTES * n + b))
                          else inodes f n)\<rparr>)"

text \<open>The byte offset of a data block, in \<open>uint32_t\<close> arithmetic, then an \<open>int\<close>.\<close>

definition block_offset :: "int \<Rightarrow> 'd fs \<Rightarrow> int" where
  "block_offset block f = sint (data_offset (superblock f) + word_of_int (block * BLOCK_SIZE))"

definition store_a_data_block_from :: "'d bios \<Rightarrow> int \<Rightarrow> buf \<Rightarrow> 'd fs \<Rightarrow> 'd fs" where
  "store_a_data_block_from B block b f = fs_write B (rbyte (bufs f b)) 8 (block_offset block f) f"

definition store_a_data_block :: "'d bios \<Rightarrow> int \<Rightarrow> 'd fs \<Rightarrow> 'd fs" where
  "store_a_data_block B block f = store_a_data_block_from B block TEMP f"

definition load_a_data_block_to :: "'d bios \<Rightarrow> int \<Rightarrow> buf \<Rightarrow> 'd fs \<Rightarrow> 'd fs" where
  "load_a_data_block_to B block b f =
     set_buf b ((bufs f b)\<lparr>rbyte := blit (rbyte (bufs f b)) 0 4096 (fs_read B 8 (block_offset block f) f)\<rparr>) f"

definition load_a_data_block :: "'d bios \<Rightarrow> int \<Rightarrow> 'd fs \<Rightarrow> 'd fs" where
  "load_a_data_block B block f = load_a_data_block_to B block TEMP f"

section \<open>Allocation and tests\<close>

definition directory_sec_is_not_used :: "int \<Rightarrow> nat \<Rightarrow> 'd fs \<Rightarrow> bool option" where
  "directory_sec_is_not_used inode_num sec_num f = do {
     sec \<leftarrow> inode_sec inode_num (int sec_num) f;
     Some (sec = 0 \<and> (inode_num \<noteq> 0 \<or> (inode_num = 0 \<and> sec_num > 0))) }"

definition inode_valid :: "int \<Rightarrow> 'd fs \<Rightarrow> bool option" where
  "inode_valid inode_num f = do { n \<leftarrow> index inode_num INODE_NUM; Some (inode_map f n \<noteq> 0) }"

definition get_free_inode :: "'d fs \<Rightarrow> int \<times> 'd fs" where
  "get_free_inode f = (case find_from (\<lambda>i. inode_map f i = 0) 0 INODE_NUM of
     Some i \<Rightarrow> (int i, f\<lparr>inode_map := (inode_map f)(i := 1)\<rparr>) | None \<Rightarrow> (-1, f))"

definition get_free_block :: "'d fs \<Rightarrow> int \<times> 'd fs" where
  "get_free_block f = (case find_from (\<lambda>i. block_map f i = 0) 0 BLOCK_MAP_SIZE of
     Some i \<Rightarrow> (int i, f\<lparr>block_map := (block_map f)(i := 1)\<rparr>) | None \<Rightarrow> (-1, f))"

text \<open>\<open>block_map[b] = 0\<close>.\<close>

definition free_block :: "u32 \<Rightarrow> 'd fs \<Rightarrow> 'd fs option" where
  "free_block b f = do { n \<leftarrow> index (uint b) BLOCK_MAP_SIZE; Some (f\<lparr>block_map := (block_map f)(n := 0)\<rparr>) }"

text \<open>\<open>memset\<close> of a scratch area's first block.\<close>

definition clear_buf :: "buf \<Rightarrow> 'd fs \<Rightarrow> 'd fs option" where
  "clear_buf b f = do { r \<leftarrow> memset (bufs f b) 0 0 (nat BLOCK_SIZE); Some (set_buf b r f) }"

end
