(* ===== verification/FsPath.thy ===== *)
theory FsPath
  imports FsState
begin

text \<open>
  Paths and directories of \<open>kernel/fs/fs.c\<close>: the tokenizer \<open>split_path\<close>, the separation of the
  last component, the loops over the entries of a directory and the walk \<open>parse_path\<close>.

  A path lives in an object that the tokenizer cuts by writing NULs into it, so the object is
  passed along; a token is an offset into it. Every directory operation runs the same two
  nested loops, over the blocks of the directory and over the 128 entries that a block has
  in \<open>TEMP\<close>, with a body of its own: \<open>scan_entries\<close> and \<open>scan_blocks\<close>.
\<close>

section \<open>Tokens\<close>

definition SLASH :: u8 where "SLASH = 0x2f"

function skip_slashes :: "region \<Rightarrow> nat \<Rightarrow> nat option" where
  "skip_slashes path p =
     (if p < rsize path then if rbyte path p = SLASH then skip_slashes path (p + 1) else Some p
      else None)"
  by pat_completeness auto
termination by (relation "measure (\<lambda>(path, p). rsize path - p)") auto

function token_end :: "region \<Rightarrow> nat \<Rightarrow> nat option" where
  "token_end path p =
     (if p < rsize path
      then if rbyte path p \<noteq> 0 \<and> rbyte path p \<noteq> SLASH then token_end path (p + 1) else Some p
      else None)"
  by pat_completeness auto
termination by (relation "measure (\<lambda>(path, p). rsize path - p)") auto

declare skip_slashes.simps [simp del] token_end.simps [simp del]

text \<open>\<open>prev\<close> is the static variable \<open>last\<close>; the result is the token, the object and its new value; \<^term>\<open>None\<close> is NULL.\<close>

definition split_path ::
  "region \<Rightarrow> nat option \<Rightarrow> nat option \<Rightarrow> (nat option \<times> region \<times> nat option) option" where
  "split_path path arg prev =
     (case (case arg of None \<Rightarrow> prev | Some p \<Rightarrow> Some p) of
        None \<Rightarrow> Some (None, path, prev)
      | Some p \<Rightarrow> do {
          token_start \<leftarrow> skip_slashes path p;
          if rbyte path token_start = 0 then Some (None, path, None)
          else do {
            e \<leftarrow> token_end path token_start;
            if rbyte path e \<noteq> 0
            then do { path' \<leftarrow> store path e 0; Some (Some token_start, path', Some (e + 1)) }
            else Some (Some token_start, path, None) } })"

section \<open>The last component\<close>

datatype name_ptr = InPath nat | InNameBuffer

fun last_slash :: "region \<Rightarrow> nat \<Rightarrow> nat" where
  "last_slash path 0 = 0"
| "last_slash path (Suc k) = (if rbyte path (Suc k) \<noteq> SLASH then last_slash path k else Suc k)"

definition seperate_parent :: "region \<Rightarrow> 'd fs \<Rightarrow> (name_ptr \<times> region \<times> 'd fs) option" where
  "seperate_parent path f = do {
     len \<leftarrow> strlen path 0;
     _ \<leftarrow> ensure (0 < len);
     let name = last_slash path (len - 1);
     if rbyte path name = SLASH
     then do { path' \<leftarrow> store path name 0; Some (InPath (name + 1), path', f) }
     else do {
       nb \<leftarrow> strcpy (name_buffer f) 0 path name;
       path' \<leftarrow> store path 0 0;
       Some (InNameBuffer, path', f\<lparr>name_buffer := nb\<rparr>) } }"

text \<open>The object and offset that a name points to.\<close>

definition name_at :: "region \<Rightarrow> 'd fs \<Rightarrow> name_ptr \<Rightarrow> region \<times> nat" where
  "name_at path f p = (case p of InPath k \<Rightarrow> (path, k) | InNameBuffer \<Rightarrow> (name_buffer f, 0))"

section \<open>Directory entries\<close>

definition de_name :: "nat \<Rightarrow> nat" where
  "de_name j = DENTRY_BYTES * j"

definition de_inode_num :: "nat \<Rightarrow> 'd fs \<Rightarrow> u32 option" where
  "de_inode_num j f = get32 (bufs f TEMP) (de_name j + 28)"

definition de_empty :: "nat \<Rightarrow> 'd fs \<Rightarrow> bool option" where
  "de_empty j f = do { b \<leftarrow> load (bufs f TEMP) (de_name j); Some (b = 0) }"

definition de_is :: "nat \<Rightarrow> region \<times> nat \<Rightarrow> 'd fs \<Rightarrow> bool option" where
  "de_is j name f = do { c \<leftarrow> strcmp (bufs f TEMP) (de_name j) (fst name) (snd name); Some (c = 0) }"

definition de_valid :: "nat \<Rightarrow> 'd fs \<Rightarrow> bool option" where
  "de_valid j f = do { n \<leftarrow> de_inode_num j f; inode_valid (sint n) f }"

text \<open>\<open>strcpy(de[j].name, name); de[j].inode_num = n\<close>.\<close>

definition put_dentry :: "nat \<Rightarrow> region \<times> nat \<Rightarrow> int \<Rightarrow> 'd fs \<Rightarrow> 'd fs option" where
  "put_dentry j name n f = do {
     r \<leftarrow> strcpy (bufs f TEMP) (de_name j) (fst name) (snd name);
     r' \<leftarrow> set32 r (de_name j + 28) (word_of_int n);
     Some (set_buf TEMP r' f) }"

section \<open>Loops over a directory\<close>

text \<open>The body gets the entry number and the variables that the loops carry along, and says
  whether it breaks.\<close>

fun scan_entries :: "(nat \<Rightarrow> 'a \<Rightarrow> ('a \<times> bool) option) \<Rightarrow> nat list \<Rightarrow> 'a \<Rightarrow> 'a option" where
  "scan_entries body [] a = Some a"
| "scan_entries body (j # js) a = do {
     (a', brk) \<leftarrow> body j a;
     if brk then Some a' else scan_entries body js a' }"

fun scan_blocks :: "'d bios \<Rightarrow> int \<Rightarrow> ('d fs \<Rightarrow> nat \<Rightarrow> nat \<Rightarrow> 'a \<Rightarrow> ('a \<times> bool) option) \<Rightarrow> ('a \<Rightarrow> bool)
    \<Rightarrow> nat list \<Rightarrow> 'a \<Rightarrow> 'd fs \<Rightarrow> (nat \<times> 'a \<times> 'd fs) option" where
  "scan_blocks B dir body stop [] a f = Some (8, a, f)"
| "scan_blocks B dir body stop (i # is) a f = do {
     unused \<leftarrow> directory_sec_is_not_used dir i f;
     if unused then Some (i, a, f)
     else do {
       sec \<leftarrow> inode_sec dir (int i) f;
       let f1 = load_a_data_block B (sint sec) f;
       a' \<leftarrow> scan_entries (body f1 i) [0..<DENTRIES] a;
       if stop a' then Some (i, a', f1) else scan_blocks B dir body stop is a' f1 } }"

text \<open>The entry with the given name: \<open>parse_path\<close> tests validity first, the others the name.\<close>

definition find_valid_first :: "region \<times> nat \<Rightarrow> 'd fs \<Rightarrow> nat \<Rightarrow> nat \<Rightarrow> nat option \<Rightarrow> (nat option \<times> bool) option" where
  "find_valid_first name f i j a = do {
     v \<leftarrow> de_valid j f;
     c \<leftarrow> (if v then de_is j name f else Some False);
     Some (if c then (Some j, True) else (a, False)) }"

definition find_name_first :: "region \<times> nat \<Rightarrow> 'd fs \<Rightarrow> nat \<Rightarrow> nat \<Rightarrow> nat option \<Rightarrow> (nat option \<times> bool) option" where
  "find_name_first name f i j a = do {
     c \<leftarrow> de_is j name f;
     v \<leftarrow> (if c then de_valid j f else Some False);
     Some (if v then (Some j, True) else (a, False)) }"

definition find_dentry :: "'d bios \<Rightarrow> int \<Rightarrow> region \<times> nat \<Rightarrow> 'd fs \<Rightarrow> (nat \<times> nat option \<times> 'd fs) option" where
  "find_dentry B dir name f =
     scan_blocks B dir (find_name_first name) (\<lambda>a. a \<noteq> None) [0..<8] None f"

section \<open>The walk\<close>

partial_function (option) parse_loop ::
  "'d bios \<Rightarrow> nat option \<Rightarrow> int \<Rightarrow> region \<Rightarrow> 'd fs \<Rightarrow> (int \<times> region \<times> 'd fs) option" where
  "parse_loop B token follow path f =
     (case token of
        None \<Rightarrow> Some (follow, path, f)
      | Some t \<Rightarrow> do {
          (i, a, f1) \<leftarrow> scan_blocks B follow (find_valid_first (path, t)) (\<lambda>a. a \<noteq> None) [0..<8] None f;
          (case a of
             None \<Rightarrow> Some (-1, path, f1)
           | Some j \<Rightarrow> do {
               n \<leftarrow> de_inode_num j f1;
               (token', path', last') \<leftarrow> split_path path None (path_last f1);
               parse_loop B token' (sint n) path' (f1\<lparr>path_last := last'\<rparr>) }) })"

definition parse_path :: "'d bios \<Rightarrow> region \<Rightarrow> 'd fs \<Rightarrow> (int \<times> region \<times> 'd fs) option" where
  "parse_path B path f = do {
     b \<leftarrow> load path 0;
     let follow = (if b = SLASH then 0 else current_inode f);
     (token, path', last') \<leftarrow> split_path path (Some 0) (path_last f);
     parse_loop B token follow path' (f\<lparr>path_last := last'\<rparr>) }"

text \<open>The first lines of most operations: copy the path, take off its last component and walk
  the rest.\<close>

definition resolve_parent :: "'d bios \<Rightarrow> region \<Rightarrow> 'd fs \<Rightarrow> (name_ptr \<times> int \<times> 'd fs) option" where
  "resolve_parent B path f = do {
     pb \<leftarrow> strcpy (path_buffer f) 0 path 0;
     (name, pb1, f1) \<leftarrow> seperate_parent pb f;
     (follow, pb2, f2) \<leftarrow> parse_path B pb1 f1;
     Some (name, follow, f2\<lparr>path_buffer := pb2\<rparr>) }"

end
