(* ===== verification/FsDir.thy ===== *)
theory FsDir
  imports FsPath
begin

text \<open>
  The operations of \<open>kernel/fs/fs.c\<close> on the file system as a whole and on directories:
  \<open>do_mkfs\<close>, \<open>do_statfs\<close>, \<open>init_fs\<close>, \<open>do_cd\<close>, \<open>do_mkdir\<close>, \<open>do_rmdir\<close>, \<open>do_ls\<close>, \<open>do_ln\<close> and
  \<open>do_rm\<close>. What an operation prints is part of its result. A variable that the code reads
  without having set it (\<open>inode_to_remove\<close> of a name that does not exist) makes the operation
  undefined.
\<close>

definition DOT :: "u8 list" where "DOT = [0x2e]"

section \<open>Making and mounting\<close>

definition mkfs_superblock :: superblock_t where
  "mkfs_superblock =
     (let imap = of_nat SEC_SIZE; ino = imap + of_nat INODE_NUM; isize = of_nat INODE_BYTES;
          bmap = ino + isize * of_nat INODE_NUM; size = push_bit 29 1
      in \<lparr>magic = SUPERBLOCK_MAGIC, fs_size = size, fs_start_sec = push_bit 20 1,
          block_size = word_of_int BLOCK_SIZE, block_map_offset = bmap, inode_map_offset = imap,
          inode_size = isize, dentry_size = of_nat DENTRY_BYTES, inode_offset = ino,
          data_offset = bmap + size div word_of_int BLOCK_SIZE\<rparr>)"

definition do_mkfs :: "'d bios \<Rightarrow> 'd fs \<Rightarrow> (int \<times> 'd fs) option" where
  "do_mkfs B f0 =
     (let (ret, f1) = read_superblock (push_bit 20 1) B f0
      in if ret \<noteq> 0 then Some (-1, f1)
      else let f2 = f1\<lparr>superblock := superblock_of (rbyte (bufs f1 TEMP))\<rparr>
      in if magic (superblock f2) = SUPERBLOCK_MAGIC then Some (-2, f2)
      else do {
        let f3 = f2\<lparr>superblock := mkfs_superblock,
          block_map := (\<lambda>i. if i < BLOCK_MAP_SIZE then 0 else block_map f2 i),
          inode_map := (\<lambda>i. if i < INODE_NUM then 0 else inode_map f2 i)\<rparr>;
        let f4 = upd_inode 0 (\<lambda>d. d\<lparr>i_mode := OWNER_READ OR OWNER_WRITE OR GROUP_READ OR OTHER_READ,
          i_size := 0, i_parent := -1, i_sec := (i_sec d)(0 := 0), i_link := 1\<rparr>)
          (f3\<lparr>inode_map := (inode_map f3)(0 := 1)\<rparr>);
        let f5 = f4\<lparr>block_map := (block_map f4)(0 := 1)\<rparr>;
        f6 \<leftarrow> clear_buf TEMP f5;
        f7 \<leftarrow> put_dentry 0 (literal DOT) 0 f6;
        let f8 = f7\<lparr>current_inode := 0\<rparr>;
        Some (0, store_a_data_block B 0 (store_inodes B (store_block_map B
          (store_inode_map B (store_superblock B f8))))) })"

text \<open>The numbers that \<open>do_statfs\<close> prints, in order.\<close>

definition do_statfs :: "'d bios \<Rightarrow> 'd fs \<Rightarrow> int \<times> u32 list \<times> 'd fs" where
  "do_statfs B f =
     (let f1 = load_superblock B f; sb = superblock f1
      in if magic sb \<noteq> SUPERBLOCK_MAGIC then (-1, [], f1)
      else (0, [fs_size sb, block_size sb, inode_size sb, of_nat INODE_NUM, block_map_offset sb,
                inode_map_offset sb, data_offset sb, dentry_size sb, 0], f1))"

definition init_fs :: "'d bios \<Rightarrow> 'd fs \<Rightarrow> int \<times> 'd fs" where
  "init_fs B f =
     (let f1 = load_superblock B f;
          f2 = f1\<lparr>fdesc_array := (\<lambda>k. if k < NUM_FDESCS
             then \<lparr>fd_mode = 0, fd_offset = 0, fd_inode_num = 0, fd_follow_inode = 0, fd_ref_count = 0\<rparr>
             else fdesc_array f1 k)\<rparr>
      in if magic (superblock f2) \<noteq> SUPERBLOCK_MAGIC then (-1, f2)
      else (0, load_inodes B (load_block_map B (load_inode_map B (f2\<lparr>current_inode := 0\<rparr>)))))"

section \<open>Moving about\<close>

definition do_cd :: "'d bios \<Rightarrow> region \<Rightarrow> 'd fs \<Rightarrow> (int \<times> 'd fs) option" where
  "do_cd B path f = do {
     pb \<leftarrow> strcpy (path_buffer f) 0 path 0;
     (follow, pb', f1) \<leftarrow> parse_path B pb f;
     Some (follow, f1\<lparr>path_buffer := pb', current_inode := follow\<rparr>) }"

text \<open>A line of \<open>do_ls\<close>: with the option, size, mode, links, inode, block and entry; the name.\<close>

type_synonym ls_line = "(u32 \<times> u32 \<times> u32 \<times> u32 \<times> nat \<times> nat) option \<times> u8 list"

definition ls_entry :: "int \<Rightarrow> 'd fs \<Rightarrow> nat \<Rightarrow> nat \<Rightarrow> ls_line list \<Rightarrow> (ls_line list \<times> bool) option" where
  "ls_entry opt f i j out = do {
     e \<leftarrow> de_empty j f;
     v \<leftarrow> (if e then Some False else de_valid j f);
     if v then do {
       num \<leftarrow> de_inode_num j f;
       n \<leftarrow> index (uint num) INODE_NUM;
       name \<leftarrow> string_at (bufs f TEMP) (de_name j);
       let d = inodes f n;
       Some (out @ [(if opt \<noteq> 0 then Some (i_size d, i_mode d, i_link d, num, i, j) else None, name)], False) }
     else Some (out, False) }"

definition do_ls :: "'d bios \<Rightarrow> region \<Rightarrow> int \<Rightarrow> 'd fs \<Rightarrow> (int \<times> ls_line list \<times> 'd fs) option" where
  "do_ls B path opt f = do {
     pb \<leftarrow> strcpy (path_buffer f) 0 path 0;
     (follow, pb', f1) \<leftarrow> parse_path B pb f;
     (i, out, f2) \<leftarrow> scan_blocks B follow (ls_entry opt) (\<lambda>_. False) [0..<8] [] (f1\<lparr>path_buffer := pb'\<rparr>);
     Some (0, out, f2) }"

section \<open>Making and removing directories\<close>

datatype mkdir_scan = Free nat | Exists

definition mkdir_entry :: "region \<times> nat \<Rightarrow> 'd fs \<Rightarrow> nat \<Rightarrow> nat \<Rightarrow> mkdir_scan option \<Rightarrow> (mkdir_scan option \<times> bool) option" where
  "mkdir_entry name f i j a = do {
     e \<leftarrow> de_empty j f;
     if e then Some (Some (Free j), True)
     else do {
       c \<leftarrow> de_is j name f;
       v \<leftarrow> (if c then de_valid j f else Some False);
       Some (if v then (Some Exists, True) else (a, False)) } }"

definition DIR_MODE :: u32 where
  "DIR_MODE = OWNER_READ OR OWNER_WRITE OR OWNER_EXEC OR GROUP_READ OR GROUP_EXEC OR OTHER_READ OR OTHER_EXEC"

definition do_mkdir :: "'d bios \<Rightarrow> region \<Rightarrow> 'd fs \<Rightarrow> (int \<times> 'd fs) option" where
  "do_mkdir B path f0 = do {
     (np, follow, f1) \<leftarrow> resolve_parent B path f0;
     if follow = -1 then Some (-1, f1)
     else do {
       let name = name_at (path_buffer f1) f1 np;
       let (new_inode, f2) = get_free_inode f1;
       n \<leftarrow> index new_inode INODE_NUM;
       let f3 = upd_inode n (\<lambda>d. d\<lparr>i_mode := DIR_MODE, i_size := 0, i_parent := word_of_int follow,
         i_link := 2\<rparr>) f2;
       p \<leftarrow> index follow INODE_NUM;
       (i, a, f4) \<leftarrow> scan_blocks B follow (mkdir_entry name) (\<lambda>a. a \<noteq> None) [0..<8] None f3;
       if a = Some Exists then Some (-2, f4)
       else do {
         f5 \<leftarrow> (case a of
             Some (Free j) \<Rightarrow> do {
               f \<leftarrow> put_dentry j name new_inode f4;
               Some (upd_inode p (\<lambda>d. d\<lparr>i_link := i_link d + 1\<rparr>) f) }
           | _ \<Rightarrow> do {
               let (blk, f) = get_free_block f4;
               f \<leftarrow> set_inode_sec follow (int i) blk f;
               let f = upd_inode p (\<lambda>d. d\<lparr>i_size := i_size d + word_of_int BLOCK_SIZE,
                 i_parent := word_of_int follow, i_link := i_link d + 1\<rparr>) f;
               f \<leftarrow> clear_buf TEMP f;
               put_dentry 0 name new_inode f });
         sec \<leftarrow> inode_sec follow (int i) f5;
         let f6 = store_a_data_block B (sint sec) f5;
         let (new_block, f7) = get_free_block f6;
         f8 \<leftarrow> set_inode_sec new_inode 0 new_block f7;
         f9 \<leftarrow> clear_buf TEMP f8;
         f10 \<leftarrow> put_dentry 0 (literal DOT) new_inode f9;
         f11 \<leftarrow> put_dentry 1 (literal (DOT @ DOT)) follow f10;
         let f12 = store_a_data_block B new_block f11;
         Some (0, store_inodes B (store_inode_map B (store_block_map B f12))) } } }"

text \<open>\<open>memset(de+j,0,sizeof(dentry_t))\<close>.\<close>

definition clear_dentry :: "nat \<Rightarrow> 'd fs \<Rightarrow> 'd fs option" where
  "clear_dentry j f = do { r \<leftarrow> memset (bufs f TEMP) (de_name j) 0 DENTRY_BYTES; Some (set_buf TEMP r f) }"

text \<open>The part that \<open>do_rmdir\<close> and \<open>do_rm\<close> share: find the entry, clear it and write its block.\<close>

definition remove_dentry :: "'d bios \<Rightarrow> int \<Rightarrow> region \<times> nat \<Rightarrow> 'd fs \<Rightarrow> (u32 option \<times> 'd fs) option" where
  "remove_dentry B follow name f = do {
     (i, a, f1) \<leftarrow> find_dentry B follow name f;
     (num, f2) \<leftarrow> (case a of
         Some j \<Rightarrow> do { num \<leftarrow> de_inode_num j f1; f2 \<leftarrow> clear_dentry j f1; Some (Some num, f2) }
       | None \<Rightarrow> Some (None, f1));
     sec \<leftarrow> inode_sec follow (int i) f2;
     Some (num, store_a_data_block B (sint sec) f2) }"

definition release_sec :: "nat \<Rightarrow> nat \<Rightarrow> 'd fs \<Rightarrow> 'd fs option" where
  "release_sec n k f = (if i_sec (inodes f n) k \<noteq> 0 then free_block (i_sec (inodes f n) k) f else Some f)"

definition do_rmdir :: "'d bios \<Rightarrow> region \<Rightarrow> 'd fs \<Rightarrow> (int \<times> 'd fs) option" where
  "do_rmdir B path f0 = do {
     (np, follow, f1) \<leftarrow> resolve_parent B path f0;
     if follow = -1 then Some (-1, f1)
     else do {
       p \<leftarrow> index follow INODE_NUM;
       (num, f2) \<leftarrow> remove_dentry B follow (name_at (path_buffer f1) f1 np) f1;
       let f3 = upd_inode p (\<lambda>d. d\<lparr>i_link := i_link d - 1\<rparr>) f2;
       inode_to_remove \<leftarrow> num;
       n \<leftarrow> index (sint inode_to_remove) INODE_NUM;
       let f4 = upd_inode n (\<lambda>d. d\<lparr>i_link := i_link d - 2\<rparr>) f3;
       f5 \<leftarrow> (if i_link (inodes f4 n) \<le> 0
              then for_each (release_sec n) [0..<8] (f4\<lparr>inode_map := (inode_map f4)(n := 0)\<rparr>)
              else Some f4);
       Some (0, store_block_map B (store_inodes B (store_inode_map B f5))) } }"

section \<open>Links and removal of files\<close>

text \<open>The second search of \<open>do_ln\<close>: the first empty entry of a block, or the name.\<close>

definition ln_entry :: "region \<times> nat \<Rightarrow> 'd fs \<Rightarrow> nat \<Rightarrow> nat \<Rightarrow> nat option \<times> bool \<Rightarrow> ((nat option \<times> bool) \<times> bool) option" where
  "ln_entry name f k l a = do {
     e \<leftarrow> de_empty l f;
     if e \<and> fst a = None then Some ((Some l, snd a), False)
     else do {
       c \<leftarrow> de_is l name f;
       v \<leftarrow> (if c then de_valid l f else Some False);
       Some (if v then ((fst a, True), True) else (a, False)) } }"

definition do_ln :: "'d bios \<Rightarrow> region \<Rightarrow> region \<Rightarrow> 'd fs \<Rightarrow> (int \<times> 'd fs) option" where
  "do_ln B src_path dst_path f0 = do {
     (np, follow, f1) \<leftarrow> resolve_parent B src_path f0;
     if follow = -1 then Some (-1, f1)
     else do {
       (i, a, f2) \<leftarrow> find_dentry B follow (name_at (path_buffer f1) f1 np) f1;
       (case a of
          None \<Rightarrow> Some (-2, f2)
        | Some j \<Rightarrow> do {
            inode_to_link \<leftarrow> de_inode_num j f2;
            (np', follow', f3) \<leftarrow> resolve_parent B dst_path f2;
            if follow' = -1 then Some (-3, f3)
            else do {
              let name = name_at (path_buffer f3) f3 np';
              (k, e, f4) \<leftarrow> scan_blocks B follow' (ln_entry name) (\<lambda>a. fst a \<noteq> None \<or> snd a) [0..<8] (None, False) f3;
              if snd e then Some (-4, f4)
              else do {
                p \<leftarrow> index follow' INODE_NUM;
                f5 \<leftarrow> (case fst e of
                    None \<Rightarrow> do {
                      let (blk, f) = get_free_block f4;
                      f \<leftarrow> set_inode_sec follow' (int k) blk f;
                      let f = upd_inode p (\<lambda>d. d\<lparr>i_link := i_link d + 1\<rparr>) f;
                      f \<leftarrow> clear_buf TEMP f;
                      put_dentry 0 name (sint inode_to_link) f }
                  | Some l \<Rightarrow> do {
                      sec \<leftarrow> inode_sec follow' (int k) f4;
                      put_dentry l name (sint inode_to_link) (load_a_data_block B (sint sec) f4) });
                n \<leftarrow> index (sint inode_to_link) INODE_NUM;
                let f6 = upd_inode n (\<lambda>d. d\<lparr>i_link := i_link d + 1\<rparr>) f5;
                sec \<leftarrow> inode_sec follow' (int k) f6;
                let f7 = store_a_data_block B (sint sec) f6;
                Some (0, store_block_map B (store_inodes B (store_inode_map B f7))) } } }) } }"

text \<open>The pointers of the second-level block in \<open>TEMP2\<close>, then those of the first-level block.\<close>

definition release_second :: "int \<Rightarrow> 'd fs \<Rightarrow> 'd fs option" where
  "release_second j f = do {
     b \<leftarrow> get_ptr TEMP2 j f;
     if b \<noteq> 0 then free_block b f else Some f }"

definition release_first :: "'d bios \<Rightarrow> int \<Rightarrow> 'd fs \<Rightarrow> 'd fs option" where
  "release_first B i f = do {
     b \<leftarrow> get_ptr TEMP i f;
     if b \<noteq> 0
     then do {
       f1 \<leftarrow> for_each release_second [0..INDIRECT_SIZE - 1] (load_a_data_block_to B (sint b) TEMP2 f);
       free_block b f1 }
     else Some f }"

text \<open>The size of a removed file is taken off all directories above it; -1 is above the root.\<close>

partial_function (option) propagate_size :: "u32 \<Rightarrow> int \<Rightarrow> 'd fs \<Rightarrow> 'd fs option" where
  "propagate_size delta it f =
     (if it = -1 then Some f
      else do {
        n \<leftarrow> index it INODE_NUM;
        let f1 = upd_inode n (\<lambda>d. d\<lparr>i_size := i_size d + delta\<rparr>) f;
        propagate_size delta (sint (i_parent (inodes f1 n))) f1 })"

definition release_file :: "'d bios \<Rightarrow> nat \<Rightarrow> 'd fs \<Rightarrow> 'd fs option" where
  "release_file B n f = do {
     f1 \<leftarrow> for_each (release_sec n) [0..<7] (f\<lparr>inode_map := (inode_map f)(n := 0)\<rparr>);
     let top = i_sec (inodes f1 n) 7;
     f2 \<leftarrow> (if top \<noteq> 0
            then do {
              f2 \<leftarrow> for_each (release_first B) [0..INDIRECT_SIZE - 1] (load_a_data_block B (sint top) f1);
              free_block top f2 }
            else Some f1);
     propagate_size (- i_size (inodes f2 n)) (sint (i_parent (inodes f2 n))) f2 }"

text \<open>\<open>do_rm\<close> cuts the caller's string, which is the middle component of its result.\<close>

definition do_rm :: "'d bios \<Rightarrow> region \<Rightarrow> 'd fs \<Rightarrow> (int \<times> region \<times> 'd fs) option" where
  "do_rm B path f0 = do {
     (np, path1, f1) \<leftarrow> seperate_parent path f0;
     (follow, path2, f2) \<leftarrow> parse_path B path1 f1;
     if follow = -1 then Some (-1, path2, f2)
     else do {
       (num, f3) \<leftarrow> remove_dentry B follow (name_at path2 f2 np) f2;
       inode_to_remove \<leftarrow> num;
       n \<leftarrow> index (sint inode_to_remove) INODE_NUM;
       let f4 = upd_inode n (\<lambda>d. d\<lparr>i_link := i_link d - 1\<rparr>) f3;
       f5 \<leftarrow> (if i_link (inodes f4 n) \<le> 0 then release_file B n f4 else Some f4);
       Some (0, path2, store_block_map B (store_inodes B (store_inode_map B f5))) } }"

end
