(* ===== verification/FsFile.thy ===== *)
theory FsFile
  imports FsDir
begin

text \<open>
  The operations of \<open>kernel/fs/fs.c\<close> on files: \<open>do_open\<close>, \<open>do_read\<close>, \<open>do_write\<close>, \<open>do_close\<close> and
  \<open>do_lseek\<close>. A file has seven direct blocks; \<open>sec[7]\<close> points to a block of 1024 pointers to
  blocks of 1024 pointers to data. The caller's buffer is an object, read or written from its
  start. \<open>int\<close> values are integers; where the code mixes them with the unsigned size of a file the
  conversion is written out. The loops over the file are partial functions, as they follow
  pointers found on the card.
\<close>

section \<open>Open, close and seek\<close>

text \<open>The loop of \<open>do_open\<close>: the entry of the name, and the first empty entry of all blocks.\<close>

definition open_entry :: "region \<times> nat \<Rightarrow> 'd fs \<Rightarrow> nat \<Rightarrow> nat \<Rightarrow> nat option \<times> (nat \<times> nat) option
    \<Rightarrow> ((nat option \<times> (nat \<times> nat) option) \<times> bool) option" where
  "open_entry name f i j a = do {
     c \<leftarrow> de_is j name f;
     v \<leftarrow> (if c then de_valid j f else Some False);
     if v then Some ((Some j, snd a), True)
     else do {
       e \<leftarrow> de_empty j f;
       Some (if e \<and> snd a = None then ((fst a, Some (i, j)), False) else (a, False)) } }"

definition do_open :: "'d bios \<Rightarrow> region \<Rightarrow> int \<Rightarrow> 'd fs \<Rightarrow> (int \<times> 'd fs) option" where
  "do_open B path mode f0 = do {
     (np, follow, f1) \<leftarrow> resolve_parent B path f0;
     if follow = -1 then Some (-1, f1)
     else do {
       let name = name_at (path_buffer f1) f1 np;
       (i, a, f2) \<leftarrow> scan_blocks B follow (open_entry name) (\<lambda>a. fst a \<noteq> None) [0..<8] (None, None) f1;
       (inode_to_open, f3) \<leftarrow> (case fst a of
           Some j \<Rightarrow> do { n \<leftarrow> de_inode_num j f2; Some (sint n, f2) }
         | None \<Rightarrow> do {
             (num, f) \<leftarrow> (case snd a of
                 Some (ei, ej) \<Rightarrow> do {
                   sec \<leftarrow> inode_sec follow (int ei) f2;
                   let (num, f) = get_free_inode (load_a_data_block B (sint sec) f2);
                   f \<leftarrow> put_dentry ej name num f;
                   Some (num, store_a_data_block B (sint sec) f) }
               | None \<Rightarrow> do {
                   let (blk, f) = get_free_block f2;
                   f \<leftarrow> set_inode_sec follow (int i) blk f;
                   f \<leftarrow> clear_buf TEMP f;
                   let (num, f) = get_free_inode f;
                   f \<leftarrow> put_dentry 0 name num f;
                   sec \<leftarrow> inode_sec follow (int i) f;
                   Some (num, store_a_data_block B (sint sec) f) });
             n \<leftarrow> index num INODE_NUM;
             Some (num, upd_inode n (\<lambda>d. d\<lparr>i_link := i_link d + 1, i_parent := word_of_int follow,
               i_mode := DIR_MODE, i_size := 0\<rparr>) f) });
       let f4 = store_inodes B (store_inode_map B f3);
       (case find_from (\<lambda>k. fd_ref_count (fdesc_array f4 k) = 0) 0 NUM_FDESCS of
          Some fd \<Rightarrow> Some (int fd, upd_fdesc fd (\<lambda>_. \<lparr>fd_mode = mode, fd_offset = 0,
            fd_inode_num = inode_to_open, fd_follow_inode = follow, fd_ref_count = 1\<rparr>) f4)
        | None \<Rightarrow> Some (int NUM_FDESCS, f4)) } }"

definition do_close :: "int \<Rightarrow> 'd fs \<Rightarrow> (int \<times> 'd fs) option" where
  "do_close fd f = do {
     k \<leftarrow> index fd NUM_FDESCS;
     Some (0, upd_fdesc k (\<lambda>d. d\<lparr>fd_ref_count := fd_ref_count d - 1\<rparr>) f) }"

definition do_lseek :: "int \<Rightarrow> int \<Rightarrow> int \<Rightarrow> 'd fs \<Rightarrow> (int \<times> 'd fs) option" where
  "do_lseek fd offset whence f = do {
     k \<leftarrow> index fd NUM_FDESCS;
     if whence = SEEK_SET then Some (0, upd_fdesc k (\<lambda>d. d\<lparr>fd_offset := offset\<rparr>) f)
     else if whence = SEEK_CUR then Some (0, upd_fdesc k (\<lambda>d. d\<lparr>fd_offset := int_add (fd_offset d) offset\<rparr>) f)
     else if whence = SEEK_END
     then do {
       n \<leftarrow> index (fd_inode_num (fdesc_array f k)) INODE_NUM;
       Some (0, upd_fdesc k (\<lambda>d. d\<lparr>fd_offset := sint (i_size (inodes f n) + word_of_int offset)\<rparr>) f) }
     else Some (0, f) }"

section \<open>Reading\<close>

definition min_int :: "int \<Rightarrow> int \<Rightarrow> int" where
  "min_int a b = (if a < b then a else b)"

text \<open>The progress of a transfer: bytes left, position in the caller's buffer.\<close>

record xfer =
  left :: int
  at :: int

definition advance :: "int \<Rightarrow> xfer \<Rightarrow> xfer" where
  "advance n x = x\<lparr>left := left x - n, at := at x + n\<rparr>"

text \<open>\<open>memcpy\<close> from a scratch area to the caller's buffer, and \<open>memset\<close> of the buffer.\<close>

definition copy_out :: "buf \<Rightarrow> int \<Rightarrow> int \<Rightarrow> region \<Rightarrow> xfer \<Rightarrow> 'd fs \<Rightarrow> region option" where
  "copy_out b k n buff x f = do {
     p \<leftarrow> byte_offset k; q \<leftarrow> byte_offset (at x);
     memcpy buff q (bufs f b) p (memcpy_len n) }"

definition zero_out :: "int \<Rightarrow> region \<Rightarrow> xfer \<Rightarrow> region option" where
  "zero_out n buff x = do { q \<leftarrow> byte_offset (at x); memset buff q 0 (memcpy_len n) }"

partial_function (option) read_direct ::
  "'d bios \<Rightarrow> int \<Rightarrow> int \<Rightarrow> int \<Rightarrow> region \<Rightarrow> xfer \<Rightarrow> 'd fs \<Rightarrow> (int \<times> int \<times> region \<times> xfer \<times> 'd fs) option" where
  "read_direct B ino num off buff x f =
     (if num < 7 \<and> left x > 0
      then do {
        sec \<leftarrow> inode_sec ino num f;
        let f1 = load_a_data_block B (sint sec) f;
        let copy_size = min_int (BLOCK_SIZE - off) (left x);
        buff' \<leftarrow> (if copy_size > 0 then copy_out TEMP off copy_size buff x f1 else Some buff);
        read_direct B ino (num + 1) 0 buff' (advance copy_size x) f1 }
      else Some (num, off, buff, x, f))"

text \<open>\<open>read_step\<close> is the body of the loop over the indirect blocks: how many bytes it delivers.\<close>

definition next_slot :: "int \<Rightarrow> int \<Rightarrow> int \<times> int" where
  "next_slot i j = (if j + 1 = INDIRECT_SIZE then (i + 1, 0) else (i, j + 1))"

partial_function (option) read_indirect ::
  "'d bios \<Rightarrow> int \<Rightarrow> int \<Rightarrow> int \<Rightarrow> region \<Rightarrow> xfer \<Rightarrow> 'd fs \<Rightarrow> (region \<times> 'd fs) option" where
  "read_indirect B i j k buff x f =
     (if left x > 0
      then do {
        p1 \<leftarrow> get_ptr TEMP i f;
        if p1 = 0
        then do {
          let hole_size = BLOCK_SIZE * INDIRECT_SIZE - k - j * BLOCK_SIZE;
          let copy_size = (if left x \<ge> hole_size then hole_size else left x);
          buff' \<leftarrow> zero_out copy_size buff x;
          read_indirect B (i + 1) 0 0 buff' (advance copy_size x) f }
        else do {
          let f1 = load_a_data_block_to B (sint p1) TEMP2 f;
          p2 \<leftarrow> get_ptr TEMP2 j f1;
          let copy_size = (if left x \<ge> BLOCK_SIZE - k then BLOCK_SIZE - k else left x);
          let (i', j') = next_slot i j;
          if p2 = 0
          then do {
            buff' \<leftarrow> zero_out copy_size buff x;
            read_indirect B i' j' 0 buff' (advance copy_size x) f1 }
          else do {
            let f2 = load_a_data_block_to B (sint p2) TEMP3 f1;
            buff' \<leftarrow> copy_out TEMP3 k copy_size buff x f2;
            read_indirect B i' j' 0 buff' (advance copy_size x) f2 } } }
      else Some (buff, f))"

text \<open>The division by \<open>INDIRECT_SIZE\<close> is one of \<open>size_t\<close>; its result is an \<open>int\<close>.\<close>

definition first_level :: "int \<Rightarrow> int" where
  "first_level num = sint (ucast ((word_of_int num :: u64) div word_of_int INDIRECT_SIZE) :: u32)"

definition second_level :: "int \<Rightarrow> int" where
  "second_level num = sint (ucast ((word_of_int num :: u64) mod word_of_int INDIRECT_SIZE) :: u32)"

text \<open>How much is read: \<open>rest\<close> is what is left of the file, compared without sign.\<close>

definition read_length :: "u32 \<Rightarrow> int \<Rightarrow> int" where
  "read_length rest len = (if word_of_int len \<ge> rest then if rest > 0 then sint rest else 0 else len)"

definition do_read :: "'d bios \<Rightarrow> int \<Rightarrow> region \<Rightarrow> int \<Rightarrow> 'd fs \<Rightarrow> (int \<times> region \<times> 'd fs) option" where
  "do_read B fd buff len0 f = do {
     k \<leftarrow> index fd NUM_FDESCS;
     let ino = fd_inode_num (fdesc_array f k);
     let offset = fd_offset (fdesc_array f k);
     n \<leftarrow> index ino INODE_NUM;
     let len = read_length (i_size (inodes f n) - word_of_int offset) len0;
     (num, off, buff1, x, f1) \<leftarrow> read_direct B ino (offset sdiv BLOCK_SIZE) (offset smod BLOCK_SIZE)
        buff \<lparr>left = len, at = 0\<rparr> f;
     let num' = num - 7;
     indirect_block \<leftarrow> inode_sec ino 7 f1;
     let f2 = load_a_data_block_to B (sint indirect_block) TEMP f1;
     (buff2, f3) \<leftarrow> read_indirect B (first_level num') (second_level num') off buff1 x f2;
     Some (len, buff2, upd_fdesc k (\<lambda>d. d\<lparr>fd_offset := int_add (fd_offset d) len\<rparr>) f3) }"

section \<open>Writing\<close>

definition copy_in :: "buf \<Rightarrow> int \<Rightarrow> int \<Rightarrow> region \<Rightarrow> xfer \<Rightarrow> 'd fs \<Rightarrow> 'd fs option" where
  "copy_in b k n buff x f = do {
     p \<leftarrow> byte_offset k; q \<leftarrow> byte_offset (at x);
     r \<leftarrow> memcpy (bufs f b) p buff q (memcpy_len n);
     Some (set_buf b r f) }"

partial_function (option) write_direct ::
  "'d bios \<Rightarrow> int \<Rightarrow> int \<Rightarrow> int \<Rightarrow> region \<Rightarrow> xfer \<Rightarrow> 'd fs \<Rightarrow> (int \<times> int \<times> xfer \<times> 'd fs) option" where
  "write_direct B ino num off buff x f =
     (if num < 7 \<and> left x \<noteq> 0
      then do {
        sec \<leftarrow> inode_sec ino num f;
        f1 \<leftarrow> (if sec = 0
               then (let (blk, f') = get_free_block f in set_inode_sec ino num blk f')
               else Some (load_a_data_block_to B (sint sec) TEMP4 f));
        let copy_size = min_int (BLOCK_SIZE - off) (left x);
        f2 \<leftarrow> copy_in TEMP4 off copy_size buff x f1;
        sec' \<leftarrow> inode_sec ino num f2;
        write_direct B ino (num + 1) 0 buff (advance copy_size x) (store_a_data_block_from B (sint sec') TEMP4 f2) }
      else Some (num, off, x, f))"

partial_function (option) write_indirect ::
  "'d bios \<Rightarrow> int \<Rightarrow> int \<Rightarrow> int \<Rightarrow> region \<Rightarrow> xfer \<Rightarrow> 'd fs \<Rightarrow> (int \<times> 'd fs) option" where
  "write_indirect B i j k buff x f =
     (if left x > 0
      then do {
        p1 \<leftarrow> get_ptr TEMP i f;
        f1 \<leftarrow> (if p1 = 0
               then do {
                 let (blk, f') = get_free_block f;
                 f' \<leftarrow> set_ptr TEMP i blk f';
                 clear_buf TEMP2 f' }
               else Some (load_a_data_block_to B (sint p1) TEMP2 f));
        p2 \<leftarrow> get_ptr TEMP2 j f1;
        f2 \<leftarrow> (if p2 = 0
               then do {
                 let (blk, f') = get_free_block f1;
                 f' \<leftarrow> set_ptr TEMP2 j blk f';
                 clear_buf TEMP3 f' }
               else Some (load_a_data_block_to B (sint p2) TEMP3 f1));
        let copy_size = min_int (BLOCK_SIZE - k) (left x);
        f3 \<leftarrow> copy_in TEMP3 k copy_size buff x f2;
        q2 \<leftarrow> get_ptr TEMP2 j f3;
        let f4 = store_a_data_block_from B (sint q2) TEMP3 f3;
        q1 \<leftarrow> get_ptr TEMP i f4;
        if j + 1 = INDIRECT_SIZE
        then write_indirect B (i + 1) 0 0 buff (advance copy_size x) (store_a_data_block_from B (sint q1) TEMP2 f4)
        else write_indirect B i (j + 1) 0 buff (advance copy_size x) f4 }
      else Some (i, f))"

definition do_write :: "'d bios \<Rightarrow> int \<Rightarrow> region \<Rightarrow> int \<Rightarrow> 'd fs \<Rightarrow> (int \<times> 'd fs) option" where
  "do_write B fd buff len f = do {
     k \<leftarrow> index fd NUM_FDESCS;
     let ino = fd_inode_num (fdesc_array f k);
     let offset = fd_offset (fdesc_array f k);
     (num, off, x, f1) \<leftarrow> write_direct B ino (offset sdiv BLOCK_SIZE) (offset smod BLOCK_SIZE)
        buff \<lparr>left = len, at = 0\<rparr> f;
     let num' = num - 7;
     f2 \<leftarrow> (if left x > 0
            then do {
              top \<leftarrow> inode_sec ino 7 f1;
              f' \<leftarrow> clear_buf TEMP f1;
              f' \<leftarrow> (if top = 0
                     then (let (blk, g) = get_free_block f' in set_inode_sec ino 7 blk g)
                     else Some (load_a_data_block_to B (sint top) TEMP f'));
              (i, f') \<leftarrow> write_indirect B (first_level num') (second_level num') off buff x f';
              q1 \<leftarrow> get_ptr TEMP i f';
              let f' = store_a_data_block_from B (sint q1) TEMP2 f';
              top' \<leftarrow> inode_sec ino 7 f';
              Some (store_a_data_block_from B (sint top') TEMP f') }
            else Some f1);
     n \<leftarrow> index ino INODE_NUM;
     f3 \<leftarrow> (if word_of_int (offset + len) > i_size (inodes f2 n)
            then propagate_size (word_of_int (offset + len) - i_size (inodes f2 n)) ino f2
            else Some f2);
     Some (len, store_inodes B (store_block_map B (upd_fdesc k (\<lambda>d. d\<lparr>fd_offset := int_add (fd_offset d) len\<rparr>) f3))) }"

end
