(* ===== verification/FsStore.thy ===== *)
theory FsStore
  imports FsFile Sdcard
begin

text \<open>
  The layout that \<open>do_mkfs\<close> writes, and the effect of the transfers on the blocks of a card
  that keeps what is written: \<open>disk_block\<close> is the content of a data block. The allocators of
  inodes and blocks are instances of one interface, \<open>first_fit\<close>.
\<close>

section \<open>Arithmetic of the layout\<close>

lemma mkfs_superblock_simps [simp]:
  "magic mkfs_superblock = SUPERBLOCK_MAGIC" "fs_start_sec mkfs_superblock = 1048576"
  "inode_map_offset mkfs_superblock = 512" "inode_offset mkfs_superblock = 2560"
  "block_map_offset mkfs_superblock = 100864" "data_offset mkfs_superblock = 231936"
  "fs_size mkfs_superblock = 536870912" "block_size mkfs_superblock = 4096"
  "inode_size mkfs_superblock = 48" "dentry_size mkfs_superblock = 32"
  by (simp_all add: mkfs_superblock_def Let_def SEC_SIZE_def INODE_NUM_def INODE_BYTES_def
      BLOCK_SIZE_def DENTRY_BYTES_def push_bit_eq_mult)

definition data_sector :: "nat \<Rightarrow> nat" where
  "data_sector b = 1049029 + 8 * b"

lemma block_start:
  assumes "superblock f = mkfs_superblock" "b < BLOCK_MAP_SIZE"
  shows "unat (get_start_sec (block_offset (int b) f) f) = data_sector b"
proof -
  have b: "b < 131072" using assms(2) by (simp add: BLOCK_MAP_SIZE_def push_bit_eq_mult)
  have "block_offset (int b) f = sint (word_of_int (231936 + int b * 4096) :: u32)"
    by (simp add: block_offset_def assms(1) BLOCK_SIZE_def)
  also have "\<dots> = 231936 + int b * 4096" using b by (intro sint_small) auto
  finally have "get_start_sec (block_offset (int b) f) f = 1048576 + word_of_int ((231936 + int b * 4096) div 512)"
    by (simp add: get_start_sec_def assms(1) SEC_SIZE_def sdiv_pos)
  also have "(231936 + int b * 4096) div 512 = 453 + 8 * int b" by simp
  also have "1048576 + word_of_int (453 + 8 * int b) = (of_nat (data_sector b) :: u32)"
    by (simp add: data_sector_def)
  finally have eq: "get_start_sec (block_offset (int b) f) f = of_nat (data_sector b)" .
  have "data_sector b < 2 ^ 32" using b by (simp add: data_sector_def)
  then show ?thesis unfolding eq unat_of_nat by simp
qed


text \<open>The card has room for the file system.\<close>

definition fs_card :: "'d bios \<Rightarrow> ('d \<Rightarrow> nat \<Rightarrow> u8) \<Rightarrow> bool" where
  "fs_card B content \<longleftrightarrow> sd_ok B content (data_sector BLOCK_MAP_SIZE)"

lemma BLOCK_MAP_SIZE_eq: "BLOCK_MAP_SIZE = 131072"
  by (simp add: BLOCK_MAP_SIZE_def push_bit_eq_mult)

definition disk_block :: "('d \<Rightarrow> nat \<Rightarrow> u8) \<Rightarrow> 'd fs \<Rightarrow> nat \<Rightarrow> nat \<Rightarrow> u8" where
  "disk_block content f b = (\<lambda>i. content (card f) (512 * data_sector b + i))"

section \<open>Blocks\<close>

lemma fs_write_content:
  assumes "fs_card B content" "unat (get_start_sec off f) + unat n \<le> data_sector BLOCK_MAP_SIZE"
  shows "content (card (fs_write B src n off f)) =
    blit (content (card f)) (512 * unat (get_start_sec off f)) (512 * unat n) src"
  using sd_ok_write [OF assms(1) [unfolded fs_card_def] assms(2)] by (simp add: fs_write_def)

lemma data_sector_mono: "b < BLOCK_MAP_SIZE \<Longrightarrow> data_sector b + 8 \<le> data_sector BLOCK_MAP_SIZE"
  by (simp add: data_sector_def)

lemma disk_block_store:
  assumes "fs_card B content" "superblock f = mkfs_superblock" "b < BLOCK_MAP_SIZE" "i < 4096"
  shows "disk_block content (store_a_data_block_from B (int b) r f) c i =
    (if c = b then rbyte (bufs f r) i else disk_block content f c i)"
proof -
  note u = block_start [OF assms(2,3)]
  have eq: "content (card (store_a_data_block_from B (int b) r f)) =
      blit (content (card f)) (512 * data_sector b) 4096 (rbyte (bufs f r))"
    using fs_write_content [OF assms(1), of "block_offset (int b) f" f 8] data_sector_mono [OF assms(3)]
    by (simp add: store_a_data_block_from_def u)
  show ?thesis
  proof (cases "c = b")
    case True
    then show ?thesis using assms(4) by (simp add: disk_block_def eq blit_def)
  next
    case False
    then have "c < b \<or> b < c" by auto
    then show ?thesis using assms(4) by (auto simp: disk_block_def eq blit_def data_sector_def)
  qed
qed

lemma store_block_frame [simp]:
  "superblock (store_a_data_block_from B b r f) = superblock f"
  "bufs (store_a_data_block_from B b r f) = bufs f"
  "inodes (store_a_data_block_from B b r f) = inodes f"
  "block_map (store_a_data_block_from B b r f) = block_map f"
  "inode_map (store_a_data_block_from B b r f) = inode_map f"
  "fdesc_array (store_a_data_block_from B b r f) = fdesc_array f"
  by (simp_all add: store_a_data_block_from_def fs_write_def)

lemma load_block_byte:
  assumes "fs_card B content" "superblock f = mkfs_superblock" "b < BLOCK_MAP_SIZE"
  shows "rbyte (bufs (load_a_data_block_to B (int b) r f) r) i =
    (if i < 4096 then disk_block content f b i else rbyte (bufs f r) i)"
proof -
  note u = block_start [OF assms(2,3)]
  have "snd (bios_sdread B 8 (get_start_sec (block_offset (int b) f) f) (card f)) i = disk_block content f b i"
    if "i < 4096"
    using long_readD(2) [OF sd_ok_read [OF assms(1) [unfolded fs_card_def]], of 8 "get_start_sec (block_offset (int b) f) f"]
      data_sector_mono [OF assms(3)] that by (simp add: u disk_block_def)
  then show ?thesis by (simp add: load_a_data_block_to_def set_buf_def fs_read_def blit_def)
qed

lemma load_block_frame [simp]:
  "superblock (load_a_data_block_to B b r f) = superblock f"
  "inodes (load_a_data_block_to B b r f) = inodes f"
  "block_map (load_a_data_block_to B b r f) = block_map f"
  "inode_map (load_a_data_block_to B b r f) = inode_map f"
  "fdesc_array (load_a_data_block_to B b r f) = fdesc_array f"
  "card (load_a_data_block_to B b r f) = card f"
  "path_last (load_a_data_block_to B b r f) = path_last f"
  "path_buffer (load_a_data_block_to B b r f) = path_buffer f"
  "name_buffer (load_a_data_block_to B b r f) = name_buffer f"
  "current_inode (load_a_data_block_to B b r f) = current_inode f"
  "rsize (bufs (load_a_data_block_to B b r f) r') = rsize (bufs f r')"
  "r' \<noteq> r \<Longrightarrow> bufs (load_a_data_block_to B b r f) r' = bufs f r'"
  by (simp_all add: load_a_data_block_to_def set_buf_def)

text \<open>The tables in front of the data blocks.\<close>

lemma disk_block_tables:
  assumes "fs_card B content" "superblock f = mkfs_superblock"
  shows "disk_block content (store_inodes B f) b i = disk_block content f b i"
    "disk_block content (store_block_map B f) b i = disk_block content f b i"
    "disk_block content (store_inode_map B f) b i = disk_block content f b i"
proof -
  have u: "unat (get_start_sec 2560 f) = 1048581" "unat (get_start_sec 100864 f) = 1048773"
    "unat (get_start_sec 512 f) = 1048577"
    by (simp_all add: get_start_sec_def assms(2) SEC_SIZE_def sdiv_pos)
  have c: "unat INODE_SECTORS = 192" "unat BLOCK_MAP_SECTORS = 1" "unat (of_nat (INODE_NUM div SEC_SIZE) :: u32) = 4"
    by (simp_all add: INODE_SECTORS_def BLOCK_MAP_SECTORS_def INODE_NUM_def INODE_BYTES_def SEC_SIZE_def)
  note w = fs_write_content [OF assms(1)] u c data_sector_def BLOCK_MAP_SIZE_eq
  show "disk_block content (store_inodes B f) b i = disk_block content f b i"
    using w(1) [of 2560 f INODE_SECTORS] w(2-)
    by (simp add: store_inodes_def disk_block_def assms(2) blit_def)
  show "disk_block content (store_block_map B f) b i = disk_block content f b i"
    using w(1) [of 100864 f BLOCK_MAP_SECTORS] w(2-)
    by (simp add: store_block_map_def disk_block_def assms(2) blit_def)
  show "disk_block content (store_inode_map B f) b i = disk_block content f b i"
    using w(1) [of 512 f "of_nat (INODE_NUM div SEC_SIZE)"] w(2-)
    by (simp add: store_inode_map_def disk_block_def assms(2) blit_def)
qed

lemma store_tables_frame [simp]:
  "superblock (store_inodes B f) = superblock f" "superblock (store_block_map B f) = superblock f"
  "superblock (store_inode_map B f) = superblock f"
  "inodes (store_inodes B f) = inodes f" "inodes (store_block_map B f) = inodes f"
  "inodes (store_inode_map B f) = inodes f"
  "block_map (store_inodes B f) = block_map f" "block_map (store_block_map B f) = block_map f"
  "block_map (store_inode_map B f) = block_map f"
  "inode_map (store_inodes B f) = inode_map f" "inode_map (store_block_map B f) = inode_map f"
  "inode_map (store_inode_map B f) = inode_map f"
  "bufs (store_inodes B f) = bufs f" "bufs (store_block_map B f) = bufs f"
  "bufs (store_inode_map B f) = bufs f"
  "fdesc_array (store_inodes B f) = fdesc_array f" "fdesc_array (store_block_map B f) = fdesc_array f"
  "fdesc_array (store_inode_map B f) = fdesc_array f"
  by (simp_all add: store_inodes_def store_block_map_def store_inode_map_def fs_write_def)

section \<open>Allocation\<close>

text \<open>A number of allocations in a row.\<close>

fun allocs :: "('s \<Rightarrow> int \<times> 's) \<Rightarrow> nat \<Rightarrow> 's \<Rightarrow> int list \<times> 's" where
  "allocs alloc 0 s = ([], s)"
| "allocs alloc (Suc n) s = (let (a, s1) = alloc s; (as, s2) = allocs alloc n s1 in (a # as, s2))"

text \<open>An allocator that marks and returns the least unused number below its limit.\<close>

locale first_fit =
  fixes used :: "'s \<Rightarrow> nat \<Rightarrow> bool" and alloc :: "'s \<Rightarrow> int \<times> 's" and limit :: nat
  assumes alloc_least: "i < limit \<Longrightarrow> \<not> used s i \<Longrightarrow> \<forall>j < i. used s j \<Longrightarrow>
      \<exists>s'. alloc s = (int i, s') \<and> used s' = (used s)(i := True)"
    and alloc_full: "\<forall>i < limit. used s i \<Longrightarrow> alloc s = (-1, s)"
begin

definition free_set :: "'s \<Rightarrow> nat set" where
  "free_set s = {i. i < limit \<and> \<not> used s i}"

lemma alloc_cases:
  obtains (full) "free_set s = {}" "alloc s = (-1, s)"
  | (some) i s' where "i \<in> free_set s" "\<forall>j < i. used s j" "alloc s = (int i, s')"
      "used s' = (used s)(i := True)" "free_set s' = free_set s - {i}"
proof (cases "free_set s = {}")
  case True
  then have "\<forall>i < limit. used s i" by (auto simp: free_set_def)
  then show ?thesis using alloc_full True by (intro full) auto
next
  case False
  define i where "i = (LEAST i. i \<in> free_set s)"
  have i: "i \<in> free_set s" using False unfolding i_def by (metis LeastI ex_in_conv)
  have "used s j" if "j < i" for j
    using not_less_Least [of j "\<lambda>i. i \<in> free_set s"] that i by (auto simp: free_set_def i_def)
  then have "\<forall>j < i. used s j" by blast
  with i alloc_least [of i s] obtain s' where "alloc s = (int i, s')" "used s' = (used s)(i := True)"
    by (auto simp: free_set_def)
  moreover from this have "free_set s' = free_set s - {i}" by (auto simp: free_set_def)
  ultimately show ?thesis using i \<open>\<forall>j < i. used s j\<close> by (intro some)
qed

text \<open>Two allocations in a row never give the same number.\<close>

lemma alloc_twice:
  assumes "alloc s = (a, s1)" "alloc s1 = (b, s2)" "a \<noteq> -1"
  shows "a \<noteq> b"
proof (cases rule: alloc_cases [of s])
  case full
  then show ?thesis using assms by simp
next
  case (some i s')
  then have s': "s1 = s'" "a = int i" using assms(1) by auto
  show ?thesis
  proof (cases rule: alloc_cases [of s1])
    case full
    then show ?thesis using assms(2,3) by auto
  next
    case (some k s'')
    then show ?thesis using s' assms(2) \<open>used s' = (used s)(i := True)\<close> by (auto simp: free_set_def)
  qed
qed

text \<open>How many allocations succeed.\<close>

lemma finite_free [simp]: "finite (free_set s)"
  by (simp add: free_set_def)

lemma alloc_count:
  assumes "alloc s = (a, s1)"
  shows "Finite_Set.card (free_set s1) = Finite_Set.card (free_set s) - 1 \<and> (a = -1 \<longleftrightarrow> free_set s = {})"
proof (cases rule: alloc_cases [of s])
  case (some i s')
  then show ?thesis using assms by auto
qed (use assms in auto)

text \<open>Allocations hand out the free numbers in ascending order, then -1.\<close>

lemma sorted_free:
  assumes "i \<in> free_set s" "\<forall>j < i. used s j"
  shows "sorted_list_of_set (free_set s) = i # sorted_list_of_set (free_set s - {i})"
proof -
  have "Min (free_set s) = i"
    using assms by (intro Min_eqI) (auto simp: free_set_def not_less [symmetric])
  then show ?thesis using assms(1) sorted_list_of_set_nonempty [of "free_set s"] by auto
qed

lemma allocs_result:
  "fst (allocs alloc n s) = (let free = sorted_list_of_set (free_set s)
     in map int (take n free) @ replicate (n - length free) (-1))"
proof (induction n arbitrary: s)
  case (Suc n)
  show ?case
  proof (cases rule: alloc_cases [of s])
    case full
    then show ?thesis using Suc.IH [of s] by (simp add: Let_def split_beta)
  next
    case (some i s')
    then show ?thesis using Suc.IH [of s'] sorted_free [OF some(1,2)] by (simp add: Let_def split_beta)
  qed
qed simp

end

interpretation block_alloc: first_fit "\<lambda>f i. block_map f i \<noteq> 0" get_free_block BLOCK_MAP_SIZE
proof unfold_locales
  fix i and s :: "'d fs"
  assume "i < BLOCK_MAP_SIZE" "\<not> block_map s i \<noteq> 0" "\<forall>j < i. block_map s j \<noteq> 0"
  then have "find_from (\<lambda>i. block_map s i = 0) 0 BLOCK_MAP_SIZE = Some i" by (auto simp: find_from_Some_iff)
  then show "\<exists>s'. get_free_block s = (int i, s') \<and> (\<lambda>i. block_map s' i \<noteq> 0) = (\<lambda>i. block_map s i \<noteq> 0)(i := True)"
    by (auto simp: get_free_block_def fun_eq_iff)
next
  fix s :: "'d fs"
  assume "\<forall>i < BLOCK_MAP_SIZE. block_map s i \<noteq> 0"
  then have "find_from (\<lambda>i. block_map s i = 0) 0 BLOCK_MAP_SIZE = None" by (simp add: find_from_None_iff)
  then show "get_free_block s = (-1, s)" by (simp add: get_free_block_def)
qed

interpretation inode_alloc: first_fit "\<lambda>f i. inode_map f i \<noteq> 0" get_free_inode INODE_NUM
proof unfold_locales
  fix i and s :: "'d fs"
  assume "i < INODE_NUM" "\<not> inode_map s i \<noteq> 0" "\<forall>j < i. inode_map s j \<noteq> 0"
  then have "find_from (\<lambda>i. inode_map s i = 0) 0 INODE_NUM = Some i" by (auto simp: find_from_Some_iff)
  then show "\<exists>s'. get_free_inode s = (int i, s') \<and> (\<lambda>i. inode_map s' i \<noteq> 0) = (\<lambda>i. inode_map s i \<noteq> 0)(i := True)"
    by (auto simp: get_free_inode_def fun_eq_iff)
next
  fix s :: "'d fs"
  assume "\<forall>i < INODE_NUM. inode_map s i \<noteq> 0"
  then have "find_from (\<lambda>i. inode_map s i = 0) 0 INODE_NUM = None" by (simp add: find_from_None_iff)
  then show "get_free_inode s = (-1, s)" by (simp add: get_free_inode_def)
qed

end
