(* ===== verification/FsWalk.thy ===== *)
theory FsWalk
  imports FsStore
begin

text \<open>
  What the tokenizer and the walk mean. \<open>components\<close> are the non-empty parts of a path
  between slashes; \<open>entries\<close> are the directory entries on the card, \<open>lookup\<close> the first valid
  one of a name and \<open>walk\<close> the iterated lookup. The loops of FsPath compute exactly these on a
  well-formed directory, and leave everything but the scratch area \<open>TEMP\<close> alone.
\<close>

section \<open>Components of a path\<close>

function components :: "u8 list \<Rightarrow> u8 list list" where
  "components [] = []"
| "components (x # xs) =
     (if x = SLASH then components xs
      else takeWhile (\<lambda>b. b \<noteq> SLASH) (x # xs) # components (dropWhile (\<lambda>b. b \<noteq> SLASH) xs))"
  by pat_completeness auto
termination by (relation "measure length") (auto simp: le_imp_less_Suc length_dropWhile_le)

lemma skip_slashes_cstr:
  "cstr path p xs \<Longrightarrow> \<exists>ys. skip_slashes path p = Some (p + (length xs - length ys))
     \<and> cstr path (p + (length xs - length ys)) ys \<and> length ys \<le> length xs
     \<and> components ys = components xs \<and> (ys = [] \<or> hd ys \<noteq> SLASH)"
proof (induction xs arbitrary: p)
  case Nil
  then show ?case by (intro exI [of _ "[]"]) (subst skip_slashes.simps, auto simp: SLASH_def)
next
  case (Cons x xs)
  then have x: "p < rsize path" "rbyte path p = x" "cstr path (p + 1) xs" by auto
  show ?case
  proof (cases "x = SLASH")
    case True
    obtain ys where ys: "skip_slashes path (p + 1) = Some (p + 1 + (length xs - length ys))"
      "cstr path (p + 1 + (length xs - length ys)) ys" "length ys \<le> length xs"
      "components ys = components xs" "ys = [] \<or> hd ys \<noteq> SLASH"
      using Cons.IH [OF x(3)] by blast
    have e: "p + 1 + (length xs - length ys) = p + (length (x # xs) - length ys)" using ys(3) by simp
    have "skip_slashes path p = skip_slashes path (p + 1)" using x True by (subst skip_slashes.simps) simp
    then show ?thesis using ys True unfolding e by (intro exI [of _ ys]) simp
  next
    case False
    then show ?thesis using x Cons.prems by (intro exI [of _ "x # xs"]) (subst skip_slashes.simps, auto)
  qed
qed

lemma token_end_cstr:
  "cstr path p xs \<Longrightarrow> token_end path p = Some (p + length (takeWhile (\<lambda>b. b \<noteq> SLASH) xs))"
proof (induction xs arbitrary: p)
  case Nil
  then show ?case by (subst token_end.simps) simp
next
  case (Cons x xs)
  then show ?case by (subst token_end.simps) auto
qed

text \<open>What is left to tokenize: at \<open>last\<close>, within the first \<open>e\<close> bytes.\<close>

definition pending :: "region \<Rightarrow> nat option \<Rightarrow> nat \<Rightarrow> u8 list list \<Rightarrow> bool" where
  "pending path l e cs \<longleftrightarrow> (case l of None \<Rightarrow> cs = []
     | Some q \<Rightarrow> \<exists>ys. cstr path q ys \<and> q + length ys \<le> e \<and> components ys = cs)"

definition path_frame :: "region \<Rightarrow> nat \<Rightarrow> region \<Rightarrow> bool" where
  "path_frame path e path' \<longleftrightarrow> rsize path' = rsize path \<and> (\<forall>i \<ge> e. rbyte path' i = rbyte path i)"

lemma cstr_takeWhile:
  assumes "cstr r p xs"
  shows "\<forall>i < length (takeWhile P xs). rbyte r (p + i) = takeWhile P xs ! i" "0 \<notin> set (takeWhile P xs)"
    "p + length (takeWhile P xs) < rsize r"
proof -
  have t: "takeWhile P xs = take (length (takeWhile P xs)) xs" by (metis takeWhile_eq_take)
  have l: "length (takeWhile P xs) \<le> length xs" by (rule length_takeWhile_le)
  show "\<forall>i < length (takeWhile P xs). rbyte r (p + i) = takeWhile P xs ! i"
    using assms l by (auto simp: cstr_def takeWhile_nth)
  show "0 \<notin> set (takeWhile P xs)" using assms set_takeWhileD by (fastforce simp: cstr_def)
  show "p + length (takeWhile P xs) < rsize r" using assms l by (simp add: cstr_def)
qed

lemma split_path_some:
  assumes "cstr path p xs" "p + length xs \<le> e"
  shows "case components xs of [] \<Rightarrow> split_path path (Some p) l = Some (None, path, None)
    | c # cs \<Rightarrow> \<exists>t path' l'. split_path path (Some p) l = Some (Some t, path', l')
        \<and> cstr path' t c \<and> pending path' l' e cs \<and> path_frame path e path'"
proof -
  obtain ys where ys: "skip_slashes path p = Some (p + (length xs - length ys))"
    "cstr path (p + (length xs - length ys)) ys" "length ys \<le> length xs"
    "components ys = components xs" "ys = [] \<or> hd ys \<noteq> SLASH"
    using skip_slashes_cstr [OF assms(1)] by blast
  define q where "q = p + (length xs - length ys)"
  have qe: "q + length ys \<le> e" using assms(2) ys(3) by (simp add: q_def)
  note skip = ys(1) [folded q_def] and cq = ys(2) [folded q_def]
  show ?thesis
  proof (cases ys)
    case Nil
    then show ?thesis using skip cq ys(4) by (simp add: split_path_def flip: ys(4))
  next
    case (Cons y zs)
    then have y: "y \<noteq> SLASH" "y \<noteq> 0" "rbyte path q = y" using ys(5) cq by auto
    define c where "c = takeWhile (\<lambda>b. b \<noteq> SLASH) ys"
    define rest where "rest = dropWhile (\<lambda>b. b \<noteq> SLASH) ys"
    have comp: "components xs = c # components rest" using ys(4) Cons y(1) by (simp add: c_def rest_def)
    have app: "ys = c @ rest" by (simp add: c_def rest_def)
    have te: "token_end path q = Some (q + length c)" using token_end_cstr [OF cq] by (simp add: c_def)
    note tw = cstr_takeWhile [OF cq, of "\<lambda>b. b \<noteq> SLASH", folded c_def]
    have cr: "cstr path (q + length c) rest" using cq app cstr_append by metis
    show ?thesis
    proof (cases rest)
      case Nil
      then have "cstr path q c" using cq app by simp
      then show ?thesis using skip y te cr Nil comp
        by (simp add: split_path_def pending_def path_frame_def)
    next
      case (Cons z zs')
      then have z: "z = SLASH" using rest_def hd_dropWhile [of "\<lambda>b. b \<noteq> SLASH" ys] by auto
      let ?path = "path\<lparr>rbyte := (rbyte path)(q + length c := 0)\<rparr>"
      have zq: "rbyte path (q + length c) = SLASH" "cstr path (q + length c + 1) zs'" using cr Cons z by auto
      have st: "store path (q + length c) 0 = Some ?path" using tw(3) by (simp add: store_def)
      have tok: "cstr ?path q c" using tw by (simp add: cstr_def)
      have "cstr ?path (q + length c + 1) zs'" using zq(2) by (rule cstr_cong) simp_all
      moreover have len: "length ys = length c + 1 + length zs'" using app Cons by simp
      moreover have "components zs' = components rest" using Cons z by simp
      ultimately have "pending ?path (Some (q + length c + 1)) e (components rest)"
        using qe by (auto simp: pending_def)
      moreover have "path_frame path e ?path" using qe len by (auto simp: path_frame_def)
      moreover have "split_path path (Some p) l = Some (Some q, ?path, Some (q + length c + 1))"
        using skip y te st zq(1) by (simp add: split_path_def SLASH_def)
      ultimately show ?thesis using tok comp by auto
    qed
  qed
qed

lemma split_path_next:
  assumes "pending path l e cs"
  shows "case cs of [] \<Rightarrow> split_path path None l = Some (None, path, None)
    | c # cs \<Rightarrow> \<exists>t path' l'. split_path path None l = Some (Some t, path', l')
        \<and> cstr path' t c \<and> pending path' l' e cs \<and> path_frame path e path'"
proof (cases l)
  case None
  then show ?thesis using assms by (simp add: pending_def split_path_def)
next
  case (Some q)
  then obtain ys where "cstr path q ys" "q + length ys \<le> e" "components ys = cs"
    using assms by (auto simp: pending_def)
  moreover have "split_path path None l = split_path path (Some q) l" using Some by (simp add: split_path_def)
  ultimately show ?thesis using split_path_some [of path q ys e l] by (cases cs) simp_all
qed

section \<open>Directories on the card\<close>

definition entry_name :: "(nat \<Rightarrow> u8) \<Rightarrow> nat \<Rightarrow> u8 list" where
  "entry_name bs j = takeWhile (\<lambda>b. b \<noteq> 0) (map (\<lambda>i. bs (32 * j + i)) [0..<28])"

definition entry_inode :: "(nat \<Rightarrow> u8) \<Rightarrow> nat \<Rightarrow> nat" where
  "entry_inode bs j = unat (le32 (\<lambda>b. bs (32 * j + 28 + b)))"

text \<open>Every entry has a terminated name and an inode number in range.\<close>

definition dir_block_ok :: "(nat \<Rightarrow> u8) \<Rightarrow> bool" where
  "dir_block_ok bs \<longleftrightarrow> (\<forall>j < 128. (\<exists>i < 28. bs (32 * j + i) = 0) \<and> entry_inode bs j < INODE_NUM)"

definition block_entries :: "(nat \<Rightarrow> u8) \<Rightarrow> (u8 list \<times> nat) list" where
  "block_entries bs = map (\<lambda>j. (entry_name bs j, entry_inode bs j)) [0..<128]"

text \<open>Blocks of a directory from number \<open>i\<close> on: up to the first one that is not used.\<close>

definition dir_unused :: "'d fs \<Rightarrow> nat \<Rightarrow> nat \<Rightarrow> bool" where
  "dir_unused f d i \<longleftrightarrow> i_sec (inodes f d) i = 0 \<and> (d \<noteq> 0 \<or> 0 < i)"

definition dir_blocks :: "'d fs \<Rightarrow> nat \<Rightarrow> nat list \<Rightarrow> nat list" where
  "dir_blocks f d is = map (\<lambda>i. unat (i_sec (inodes f d) i)) (takeWhile (\<lambda>i. \<not> dir_unused f d i) is)"

definition entries_from :: "('d \<Rightarrow> nat \<Rightarrow> u8) \<Rightarrow> 'd fs \<Rightarrow> nat \<Rightarrow> nat list \<Rightarrow> (u8 list \<times> nat) list" where
  "entries_from content f d is = concat (map (\<lambda>b. block_entries (disk_block content f b)) (dir_blocks f d is))"

definition dir_ok :: "('d \<Rightarrow> nat \<Rightarrow> u8) \<Rightarrow> 'd fs \<Rightarrow> nat \<Rightarrow> bool" where
  "dir_ok content f d \<longleftrightarrow> d < INODE_NUM
     \<and> (\<forall>b \<in> set (dir_blocks f d [0..<8]). b < BLOCK_MAP_SIZE \<and> dir_block_ok (disk_block content f b))"

definition entry_matches :: "'d fs \<Rightarrow> u8 list \<Rightarrow> u8 list \<times> nat \<Rightarrow> bool" where
  "entry_matches f c e \<longleftrightarrow> fst e = c \<and> inode_map f (snd e) \<noteq> 0"

definition dir_lookup :: "('d \<Rightarrow> nat \<Rightarrow> u8) \<Rightarrow> 'd fs \<Rightarrow> nat \<Rightarrow> u8 list \<Rightarrow> nat option" where
  "dir_lookup content f d c = map_option snd (List.find (entry_matches f c) (entries_from content f d [0..<8]))"

fun walk :: "('d \<Rightarrow> nat \<Rightarrow> u8) \<Rightarrow> 'd fs \<Rightarrow> nat \<Rightarrow> u8 list list \<Rightarrow> nat option" where
  "walk content f d [] = Some d"
| "walk content f d (c # cs) =
     (case dir_lookup content f d c of None \<Rightarrow> None | Some d' \<Rightarrow> walk content f d' cs)"

text \<open>All directories that the walk visits are well formed.\<close>

fun walk_ok :: "('d \<Rightarrow> nat \<Rightarrow> u8) \<Rightarrow> 'd fs \<Rightarrow> nat \<Rightarrow> u8 list list \<Rightarrow> bool" where
  "walk_ok content f d [] \<longleftrightarrow> True"
| "walk_ok content f d (c # cs) \<longleftrightarrow> dir_ok content f d \<and>
     (case dir_lookup content f d c of None \<Rightarrow> True | Some d' \<Rightarrow> walk_ok content f d' cs)"

text \<open>What the loops over directories may change.\<close>

definition scan_frame :: "'d fs \<Rightarrow> 'd fs \<Rightarrow> bool" where
  "scan_frame f f' \<longleftrightarrow> (\<exists>r l. rsize r = rsize (bufs f TEMP)
     \<and> f' = f\<lparr>bufs := (bufs f)(TEMP := r), path_last := l\<rparr>)"

lemma scan_frame_refl [simp]: "scan_frame f f"
  unfolding scan_frame_def by (intro exI [of _ "bufs f TEMP"] exI [of _ "path_last f"]) simp

lemma scan_frame_trans: "scan_frame f g \<Longrightarrow> scan_frame g h \<Longrightarrow> scan_frame f h"
  unfolding scan_frame_def by (elim exE conjE) auto

lemma scan_frameD:
  assumes "scan_frame f f'"
  shows "superblock f' = superblock f" "inodes f' = inodes f" "inode_map f' = inode_map f"
    "block_map f' = block_map f" "card f' = card f" "fdesc_array f' = fdesc_array f"
    "rsize (bufs f' TEMP) = rsize (bufs f TEMP)" "path_buffer f' = path_buffer f"
    "name_buffer f' = name_buffer f" "current_inode f' = current_inode f"
  using assms by (auto simp: scan_frame_def)

lemma scan_frame_dirs:
  assumes "scan_frame f f'"
  shows "dir_ok content f' = dir_ok content f" "dir_lookup content f' = dir_lookup content f"
    "walk content f' = walk content f" "walk_ok content f' = walk_ok content f"
proof -
  note D = scan_frameD [OF assms]
  have b: "dir_blocks f' = dir_blocks f" by (simp add: dir_blocks_def dir_unused_def D fun_eq_iff)
  have db: "disk_block content f' = disk_block content f" by (simp add: disk_block_def D fun_eq_iff)
  show ok: "dir_ok content f' = dir_ok content f" by (simp add: dir_ok_def b db fun_eq_iff)
  have em: "entry_matches f' = entry_matches f" by (simp add: entry_matches_def D fun_eq_iff)
  show lk: "dir_lookup content f' = dir_lookup content f"
    by (simp add: dir_lookup_def entries_from_def b db em fun_eq_iff)
  have "walk content f' d cs = walk content f d cs" for d cs
    by (induction cs arbitrary: d) (auto simp: lk split: option.splits)
  then show "walk content f' = walk content f" by (simp add: fun_eq_iff)
  have "walk_ok content f' d cs = walk_ok content f d cs" for d cs
    by (induction cs arbitrary: d) (auto simp: lk ok split: option.splits)
  then show "walk_ok content f' = walk_ok content f" by (simp add: fun_eq_iff)
qed

section \<open>The loops\<close>

lemma scan_entries_find:
  assumes "\<And>j. j \<in> set js \<Longrightarrow> body j None = Some (if P j then (Some j, True) else (None, False))"
  shows "scan_entries body js None = Some (List.find P js)"
  using assms by (induction js) auto

text \<open>A block of a directory in \<open>TEMP\<close>.\<close>

definition in_temp :: "(nat \<Rightarrow> u8) \<Rightarrow> 'd fs \<Rightarrow> bool" where
  "in_temp bs f \<longleftrightarrow> 4096 \<le> rsize (bufs f TEMP) \<and> (\<forall>i < 4096. rbyte (bufs f TEMP) i = bs i)"

lemma temp_entry_name:
  assumes "in_temp bs f" "dir_block_ok bs" "j < 128"
  shows "cstr (bufs f TEMP) (de_name j) (entry_name bs j)"
proof -
  let ?m = "map (\<lambda>i. bs (32 * j + i)) [0..<28]"
  obtain i0 where "i0 < 28" "bs (32 * j + i0) = 0" using assms(2,3) by (auto simp: dir_block_ok_def)
  then have "0 \<in> set ?m" by force
  then have ne: "takeWhile (\<lambda>b. b \<noteq> 0) ?m \<noteq> ?m" by (simp only: takeWhile_eq_all_conv) blast
  have lt: "length (entry_name bs j) < length ?m"
  proof (rule ccontr)
    assume "\<not> length (entry_name bs j) < length ?m"
    then have "take (length (entry_name bs j)) ?m = ?m" by simp
    then show False using ne takeWhile_eq_take [of "\<lambda>b. b \<noteq> 0" ?m] by (simp add: entry_name_def)
  qed
  have byte: "rbyte (bufs f TEMP) (de_name j + i) = bs (32 * j + i)" if "i < 28" for i
    using assms(1,3) that by (simp add: in_temp_def de_name_def DENTRY_BYTES_def)
  have nth: "entry_name bs j ! i = bs (32 * j + i)" if "i < length (entry_name bs j)" for i
    using that lt unfolding entry_name_def by (simp add: takeWhile_nth)
  have "?m ! length (entry_name bs j) = 0"
    using nth_length_takeWhile [of "\<lambda>b. b \<noteq> 0" ?m] lt unfolding entry_name_def by simp
  then have z: "bs (32 * j + length (entry_name bs j)) = 0" using lt by simp
  show ?thesis unfolding cstr_def
  proof (intro conjI allI impI)
    show "de_name j + length (entry_name bs j) < rsize (bufs f TEMP)"
      using assms(1,3) lt by (simp add: in_temp_def de_name_def DENTRY_BYTES_def)
    show "0 \<notin> set (entry_name bs j)" by (auto simp: entry_name_def dest: set_takeWhileD)
    show "rbyte (bufs f TEMP) (de_name j + length (entry_name bs j)) = 0" using byte lt z by simp
  qed (use byte nth lt in auto)
qed

lemma temp_entry_inode:
  assumes "in_temp bs f" "j < 128"
  shows "de_inode_num j f = Some (le32 (\<lambda>b. bs (32 * j + 28 + b)))"
proof -
  have "le32 (\<lambda>b. rbyte (bufs f TEMP) (32 * j + 28 + b)) = le32 (\<lambda>b. bs (32 * j + 28 + b))"
    using assms by (intro le32_cong) (simp add: in_temp_def)
  then show ?thesis using assms
    by (simp add: de_inode_num_def get32_def de_name_def DENTRY_BYTES_def in_temp_def add.assoc)
qed

lemma sint_inode: "unat w < INODE_NUM \<Longrightarrow> sint w = int (unat w)" for w :: u32
proof -
  assume "unat w < INODE_NUM"
  moreover have eq: "uint w = int (unat w)" by simp
  ultimately have "uint w < 2048" unfolding INODE_NUM_def by linarith
  then have "sint (word_of_int (uint w) :: u32) = uint w" by (intro sint_small) (use uint_ge_0 [of w] in linarith)+
  then show ?thesis by simp
qed

lemma inode_valid_word: "unat w < INODE_NUM \<Longrightarrow> inode_valid (sint w) f = Some (inode_map f (unat w) \<noteq> 0)" for w :: u32
  by (simp only: inode_valid_def sint_inode index_int bind.simps)

lemma temp_entry_valid:
  assumes "in_temp bs f" "dir_block_ok bs" "j < 128"
  shows "de_valid j f = Some (inode_map f (entry_inode bs j) \<noteq> 0)"
proof -
  have "entry_inode bs j < INODE_NUM" using assms(2,3) by (simp add: dir_block_ok_def)
  then show ?thesis using temp_entry_inode [OF assms(1,3)] inode_valid_word
    by (simp add: de_valid_def entry_inode_def)
qed

lemma temp_entry_is:
  assumes "in_temp bs f" "dir_block_ok bs" "j < 128" "cstr (fst nm) (snd nm) c"
  shows "de_is j nm f = Some (entry_name bs j = c)"
  using strcmp_cstr [OF temp_entry_name [OF assms(1-3)] assms(4)] by (auto simp: de_is_def)

lemma find_block_entries:
  "List.find (entry_matches f c) (block_entries bs) =
    map_option (\<lambda>j. (entry_name bs j, entry_inode bs j))
      (List.find (\<lambda>j. entry_matches f c (entry_name bs j, entry_inode bs j)) [0..<128])"
proof -
  have "List.find Q (map g js) = map_option g (List.find (\<lambda>j. Q (g j)) js)" for Q g and js :: "nat list"
    by (induction js) auto
  then show ?thesis by (simp add: block_entries_def)
qed

text \<open>The loops do not touch the tokenizer.\<close>

lemma scan_blocks_last: "scan_blocks B dir body stop ks a f = Some (i, a', f') \<Longrightarrow> path_last f' = path_last f"
  by (induction ks arbitrary: a f)
    (auto simp: load_a_data_block_def Let_def split: bind_splits if_splits)

text \<open>Both orders of the two tests of an entry find the same entry.\<close>

lemma scan_temp:
  assumes "in_temp bs f" "dir_block_ok bs" "cstr (fst nm) (snd nm) c"
    and "body = find_valid_first nm f i \<or> body = find_name_first nm f i"
  shows "scan_entries body [0..<DENTRIES] None =
    Some (List.find (\<lambda>j. entry_matches f c (entry_name bs j, entry_inode bs j)) [0..<128])"
proof -
  have d: "DENTRIES = 128" by (simp add: DENTRIES_def BLOCK_SIZE_def DENTRY_BYTES_def)
  show ?thesis unfolding d
  proof (rule scan_entries_find)
    fix j assume "j \<in> set [0..<128]"
    then have j: "j < 128" by simp
    show "body j None = Some (if entry_matches f c (entry_name bs j, entry_inode bs j) then (Some j, True) else (None, False))"
      using assms(4) temp_entry_valid [OF assms(1,2) j] temp_entry_is [OF assms(1,2) j assms(3)]
      by (auto simp: find_valid_first_def find_name_first_def entry_matches_def)
  qed
qed

lemma find_append: "List.find P (xs @ ys) = (case List.find P xs of None \<Rightarrow> List.find P ys | Some x \<Rightarrow> Some x)"
  by (induction xs) auto

lemma scan_frame_load [simp]: "scan_frame f (load_a_data_block B b f)"
  unfolding scan_frame_def load_a_data_block_def load_a_data_block_to_def set_buf_def
  by (intro exI [of _ "(bufs f TEMP)\<lparr>rbyte := blit (rbyte (bufs f TEMP)) 0 4096 (fs_read B 8 (block_offset b f) f)\<rparr>"]
      exI [of _ "path_last f"]) simp

lemma scan_blocks_find:
  assumes B: "fs_card B content" and sb: "superblock f = mkfs_superblock" and d: "d < INODE_NUM"
    and blocks: "\<forall>b \<in> set (dir_blocks f d ks). b < BLOCK_MAP_SIZE \<and> dir_block_ok (disk_block content f b)"
    and small: "\<forall>i \<in> set ks. i < 8" and temp: "4096 \<le> rsize (bufs f TEMP)"
    and nm: "cstr (fst nm) (snd nm) c" and body: "body = find_valid_first nm \<or> body = find_name_first nm"
  shows "\<exists>i a f1. scan_blocks B (int d) body (\<lambda>a. a \<noteq> None) ks None f = Some (i, a, f1) \<and> scan_frame f f1
    \<and> (case List.find (entry_matches f c) (entries_from content f d ks) of
         None \<Rightarrow> a = None
       | Some e \<Rightarrow> \<exists>j n. a = Some j \<and> de_inode_num j f1 = Some n \<and> unat n = snd e \<and> snd e < INODE_NUM)"
  using assms(2,4,5,6)
proof (induction ks arbitrary: f)
  case Nil
  then show ?case by (simp add: entries_from_def dir_blocks_def)
next
  case (Cons i ks)
  have i: "i < 8" using Cons.prems by simp
  have unused: "directory_sec_is_not_used (int d) i f = Some (dir_unused f d i)"
    using d i by (auto simp: directory_sec_is_not_used_def inode_sec_def dir_unused_def)
  show ?case
  proof (cases "dir_unused f d i")
    case True
    then show ?thesis using unused by (simp add: entries_from_def dir_blocks_def)
  next
    case False
    define b where "b = unat (i_sec (inodes f d) i)"
    define bs where "bs = disk_block content f b"
    have blk: "dir_blocks f d (i # ks) = b # dir_blocks f d ks" using False by (simp add: dir_blocks_def b_def)
    then have b: "b < BLOCK_MAP_SIZE" "dir_block_ok bs" using Cons.prems(2) by (auto simp: bs_def)
    have s: "sint (i_sec (inodes f d) i) = int b"
    proof -
      have "uint (i_sec (inodes f d) i) = int b" by (simp add: b_def)
      moreover have "b < 131072" using b(1) by (simp add: BLOCK_MAP_SIZE_eq)
      ultimately have "sint (word_of_int (uint (i_sec (inodes f d) i)) :: u32) = uint (i_sec (inodes f d) i)"
        by (intro sint_small) linarith+
      then show ?thesis by (simp add: b_def)
    qed
    define f1 where "f1 = load_a_data_block B (int b) f"
    have fr: "scan_frame f f1" by (simp add: f1_def)
    note D = scan_frameD [OF fr]
    have temp: "in_temp bs f1"
      using load_block_byte [OF B Cons.prems(1) b(1), of TEMP] Cons.prems(4)
      by (simp add: in_temp_def f1_def load_a_data_block_def bs_def)
    have m: "entry_matches f1 c = entry_matches f c" by (simp add: entry_matches_def D fun_eq_iff)
    let ?r = "List.find (\<lambda>j. entry_matches f c (entry_name bs j, entry_inode bs j)) [0..<128]"
    have "body f1 i = find_valid_first nm f1 i \<or> body f1 i = find_name_first nm f1 i" using body by auto
    from scan_temp [OF temp b(2) nm this] have scan: "scan_entries (body f1 i) [0..<DENTRIES] None = Some ?r"
      by (simp only: m)
    have here: "List.find (entry_matches f c) (block_entries bs) = map_option (\<lambda>j. (entry_name bs j, entry_inode bs j)) ?r"
      by (rule find_block_entries)
    have ent: "entries_from content f d (i # ks) = block_entries bs @ entries_from content f d ks"
      by (simp add: entries_from_def blk bs_def)
    have step: "scan_blocks B (int d) body (\<lambda>a. a \<noteq> None) (i # ks) None f =
        (if ?r \<noteq> None then Some (i, ?r, f1) else scan_blocks B (int d) body (\<lambda>a. a \<noteq> None) ks None f1)"
      using unused False d i scan by (simp add: inode_sec_def s f1_def)
    show ?thesis
    proof (cases ?r)
      case (Some j)
      then have j: "j < 128" by (auto simp: find_Some_iff)
      have "de_inode_num j f1 = Some (le32 (\<lambda>b. bs (32 * j + 28 + b)))" by (rule temp_entry_inode [OF temp j])
      moreover have "entry_inode bs j < INODE_NUM" using b(2) j by (simp add: dir_block_ok_def)
      ultimately show ?thesis using step here fr Some by (simp add: ent find_append entry_inode_def)
    next
      case None
      have eq: "dir_blocks f1 = dir_blocks f" "disk_block content f1 = disk_block content f"
        by (simp_all add: dir_blocks_def dir_unused_def disk_block_def D fun_eq_iff)
      have "\<exists>i a f2. scan_blocks B (int d) body (\<lambda>a. a \<noteq> None) ks None f1 = Some (i, a, f2) \<and> scan_frame f1 f2
        \<and> (case List.find (entry_matches f1 c) (entries_from content f1 d ks) of
             None \<Rightarrow> a = None
           | Some e \<Rightarrow> \<exists>j n. a = Some j \<and> de_inode_num j f2 = Some n \<and> unat n = snd e \<and> snd e < INODE_NUM)"
        using Cons.prems blk by (intro Cons.IH) (simp_all add: eq D)
      moreover have "entries_from content f1 d ks = entries_from content f d ks" by (simp add: entries_from_def eq)
      ultimately show ?thesis using step here None scan_frame_trans [OF fr]
        by (simp add: ent find_append m) blast
    qed
  qed
qed

section \<open>The walk\<close>

lemma parse_loop_result:
  assumes B: "fs_card B content" and sb: "superblock f = mkfs_superblock"
    and temp: "4096 \<le> rsize (bufs f TEMP)" and ok: "walk_ok content f d cs" and dn: "d < INODE_NUM"
    and tok: "case cs of [] \<Rightarrow> token = None
      | c # cs' \<Rightarrow> \<exists>t. token = Some t \<and> cstr path t c \<and> pending path (path_last f) e cs'"
  shows "\<exists>path' f'. parse_loop B token (int d) path f =
      Some (case walk content f d cs of None \<Rightarrow> -1 | Some n \<Rightarrow> int n, path', f')
    \<and> scan_frame f f' \<and> path_frame path e path'"
  using sb temp ok dn tok
proof (induction cs arbitrary: d token path f)
  case Nil
  then show ?case by (subst parse_loop.simps) (simp add: path_frame_def)
next
  case (Cons c cs)
  then obtain t where t: "token = Some t" "cstr path t c" "pending path (path_last f) e cs" by auto
  have dok: "dir_ok content f d" using Cons.prems by simp
  then have blocks: "\<forall>b \<in> set (dir_blocks f d [0..<8]). b < BLOCK_MAP_SIZE \<and> dir_block_ok (disk_block content f b)"
    by (simp add: dir_ok_def)
  have nm: "cstr (fst (path, t)) (snd (path, t)) c" using t(2) by simp
  have i8: "\<forall>i \<in> set [0..<8]. i < (8 :: nat)" by simp
  obtain i a f1 where scan: "scan_blocks B (int d) (find_valid_first (path, t)) (\<lambda>a. a \<noteq> None) [0..<8] None f = Some (i, a, f1)"
    and fr: "scan_frame f f1"
    and res: "case List.find (entry_matches f c) (entries_from content f d [0..<8]) of
         None \<Rightarrow> a = None
       | Some e \<Rightarrow> \<exists>j n. a = Some j \<and> de_inode_num j f1 = Some n \<and> unat n = snd e \<and> snd e < INODE_NUM"
    using scan_blocks_find [OF B Cons.prems(1,4) blocks i8 Cons.prems(2) nm disjI1 [OF refl]] by blast
  show ?case
  proof (cases "List.find (entry_matches f c) (entries_from content f d [0..<8])")
    case None
    then show ?thesis using scan fr res t(1)
      by (subst parse_loop.simps) (simp add: dir_lookup_def path_frame_def)
  next
    case (Some en)
    then obtain j n where a: "a = Some j" "de_inode_num j f1 = Some n" "unat n = snd en" "snd en < INODE_NUM"
      using res by auto
    have lk: "dir_lookup content f d c = Some (snd en)" using Some by (simp add: dir_lookup_def)
    have s: "sint n = int (snd en)" using sint_inode [of n] a(3,4) by simp
    have last1: "path_last f1 = path_last f"
      using scan_blocks_last [OF scan] .
    have pend: "pending path (path_last f1) e cs" using t(3) last1 by simp
    have next_tok: "\<exists>token' path' l'. split_path path None (path_last f1) = Some (token', path', l')
        \<and> path_frame path e path' \<and> (case cs of [] \<Rightarrow> token' = None
          | c # cs' \<Rightarrow> \<exists>t. token' = Some t \<and> cstr path' t c \<and> pending path' l' e cs')"
      using split_path_next [OF pend] by (cases cs) (auto simp: path_frame_def)
    then obtain token' path' l' where sp: "split_path path None (path_last f1) = Some (token', path', l')"
      and pf: "path_frame path e path'" and tok': "case cs of [] \<Rightarrow> token' = None
          | c # cs' \<Rightarrow> \<exists>t. token' = Some t \<and> cstr path' t c \<and> pending path' l' e cs'" by blast
    let ?f2 = "f1\<lparr>path_last := l'\<rparr>"
    have fr2: "scan_frame f ?f2" using fr unfolding scan_frame_def by (elim exE conjE) auto
    have step: "parse_loop B token (int d) path f = parse_loop B token' (int (snd en)) path' ?f2"
      using t(1) scan a(1,2) sp s by (subst parse_loop.simps) simp
    have "\<exists>path'' f'. parse_loop B token' (int (snd en)) path' ?f2 =
        Some (case walk content ?f2 (snd en) cs of None \<Rightarrow> -1 | Some n \<Rightarrow> int n, path'', f')
        \<and> scan_frame ?f2 f' \<and> path_frame path' e path''"
    proof (rule Cons.IH)
      show "superblock ?f2 = mkfs_superblock" "4096 \<le> rsize (bufs ?f2 TEMP)"
        using scan_frameD(1,7) [OF fr2] Cons.prems(1,2) by simp_all
      show "walk_ok content ?f2 (snd en) cs" using Cons.prems(3) lk by (simp add: scan_frame_dirs(4) [OF fr2])
      show "snd en < INODE_NUM" by (rule a(4))
      show "case cs of [] \<Rightarrow> token' = None
          | c # cs' \<Rightarrow> \<exists>t. token' = Some t \<and> cstr path' t c \<and> pending path' (path_last ?f2) e cs'"
        using tok' by (cases cs) simp_all
    qed
    then show ?thesis using step lk pf scan_frame_trans [OF fr2]
      by (auto simp: scan_frame_dirs(3) [OF fr2] path_frame_def)
  qed
qed

end
