(* ===== verification/FsMount.thy ===== *)
theory FsMount
  imports FsWalk
begin

text \<open>
  What \<open>do_mkfs\<close> leaves on the card, and that \<open>init_fs\<close> reads it back: the encodings of the
  superblock and of the inode table have a left inverse, and the five areas that are written
  do not overlap.
\<close>

section \<open>Encodings\<close>

lemma le32_bytes: "(\<And>b. b < 4 \<Longrightarrow> f b = byte_of w b) \<Longrightarrow> le32 f = w"
  using le32_cong [of f "byte_of w"] by simp

lemma superblock_of_bytes: "superblock_of (superblock_bytes f) = superblock f"
proof -
  have w: "le32 (\<lambda>b. superblock_bytes f (4 * k + b)) = superblock_word (superblock f) k" if "k < 10" for k
  proof (rule le32_bytes)
    fix b :: nat
    assume "b < 4"
    then have "(4 * k + b) div 4 = k \<and> (4 * k + b) mod 4 = b \<and> 4 * k + b < 40" using that by simp
    then show "superblock_bytes f (4 * k + b) = byte_of (superblock_word (superblock f) k) b"
      by (simp add: superblock_bytes_def)
  qed
  show ?thesis using w [of 0] w [of 1] w [of 2] w [of 3] w [of 4] w [of 5] w [of 6] w [of 7] w [of 8] w [of 9]
    by (intro superblock_t.equality) (simp_all add: superblock_of_def Let_def superblock_word_def)
qed

lemma superblock_of_cong: "(\<And>i. i < 40 \<Longrightarrow> f i = g i) \<Longrightarrow> superblock_of f = superblock_of g"
proof -
  assume fg: "\<And>i. i < 40 \<Longrightarrow> f i = g i"
  have "le32 (\<lambda>b. f (4 * k + b)) = le32 (\<lambda>b. g (4 * k + b))" if "k < 10" for k
    by (rule le32_cong, rule fg) (use that in linarith)
  from this [of 0] this [of 1] this [of 2] this [of 3] this [of 4] this [of 5] this [of 6] this [of 7] this [of 8] this [of 9]
  show ?thesis by (simp add: superblock_of_def Let_def)
qed

definition same_inode :: "inode_t \<Rightarrow> inode_t \<Rightarrow> bool" where
  "same_inode d e \<longleftrightarrow> i_mode d = i_mode e \<and> i_size d = i_size e \<and> i_link d = i_link e
     \<and> i_parent d = i_parent e \<and> (\<forall>k < 8. i_sec d k = i_sec e k)"

lemma inode_of_bytes: "same_inode (inode_of d (\<lambda>b. inode_bytes f (INODE_BYTES * n + b))) (inodes f n)"
proof -
  have w: "le32 (\<lambda>b. inode_bytes f (48 * n + (4 * k + b))) = inode_word (inodes f n) k" if "k < 12" for k
  proof (rule le32_bytes)
    fix b :: nat
    assume b: "b < 4"
    then have "(48 * n + (4 * k + b)) div 48 = n" "(48 * n + (4 * k + b)) mod 48 = 4 * k + b" using that by simp_all
    moreover have "(4 * k + b) div 4 = k" using b by simp
    moreover have "(48 * n + (4 * k + b)) mod 4 = b" using b by presburger
    ultimately show "inode_bytes f (48 * n + (4 * k + b)) = byte_of (inode_word (inodes f n) k) b"
      by (simp add: inode_bytes_def INODE_BYTES_def)
  qed
  have sec: "le32 (\<lambda>b. inode_bytes f (48 * n + (4 * (3 + k) + b))) = i_sec (inodes f n) k" if "k < 8" for k
    using w [of "3 + k"] that by (simp add: inode_word_def)
  show ?thesis using w [of 0] w [of 1] w [of 2] w [of 11] sec
    by (simp add: same_inode_def inode_of_def Let_def INODE_BYTES_def inode_word_def algebra_simps)
qed

section \<open>Making\<close>

lemma start_superblock:
  assumes "superblock f = mkfs_superblock"
  shows "unat (get_start_sec 0 f) = 1048576" "unat (get_start_sec 2560 f) = 1048581"
    "unat (get_start_sec 100864 f) = 1048773" "unat (get_start_sec 512 f) = 1048577"
  by (simp_all add: get_start_sec_def assms SEC_SIZE_def sdiv_pos)

lemma table_sizes: "unat INODE_SECTORS = 192" "unat BLOCK_MAP_SECTORS = 1" "unat (of_nat (INODE_NUM div SEC_SIZE) :: u32) = 4"
  by (simp_all add: INODE_SECTORS_def BLOCK_MAP_SECTORS_def INODE_NUM_def INODE_BYTES_def SEC_SIZE_def)

text \<open>The card after the five stores of \<open>do_mkfs\<close>.\<close>

definition mkfs_stores :: "'d bios \<Rightarrow> 'd fs \<Rightarrow> 'd fs" where
  "mkfs_stores B f = store_a_data_block B 0 (store_inodes B (store_block_map B
     (store_inode_map B (store_superblock B f))))"

lemma store_superblock_frame [simp]:
  "superblock (store_superblock B f) = superblock f" "inodes (store_superblock B f) = inodes f"
  "inode_map (store_superblock B f) = inode_map f" "block_map (store_superblock B f) = block_map f"
  "bufs (store_superblock B f) = bufs f" "current_inode (store_superblock B f) = current_inode f"
  by (simp_all add: store_superblock_def fs_write_def)

lemma mkfs_stores_frame [simp]:
  "superblock (mkfs_stores B f) = superblock f" "inodes (mkfs_stores B f) = inodes f"
  "inode_map (mkfs_stores B f) = inode_map f" "block_map (mkfs_stores B f) = block_map f"
  "bufs (mkfs_stores B f) = bufs f"
  by (simp_all add: mkfs_stores_def store_a_data_block_def)

lemma mkfs_stores_content:
  assumes B: "fs_card B content" and sb: "superblock f = mkfs_superblock"
  shows "i < 512 \<Longrightarrow> content (card (mkfs_stores B f)) (512 * 1048576 + i) = superblock_bytes f i"
    and "i < 2048 \<Longrightarrow> content (card (mkfs_stores B f)) (512 * 1048577 + i) = inode_map f i"
    and "i < 98304 \<Longrightarrow> content (card (mkfs_stores B f)) (512 * 1048581 + i) = inode_bytes f i"
    and "i < 512 \<Longrightarrow> content (card (mkfs_stores B f)) (512 * 1048773 + i) = block_map f i"
    and "i < 4096 \<Longrightarrow> content (card (mkfs_stores B f)) (512 * 1049029 + i) = rbyte (bufs f TEMP) i"
proof -
  define f1 where "f1 = store_superblock B f"
  define f2 where "f2 = store_inode_map B f1"
  define f3 where "f3 = store_block_map B f2"
  define f4 where "f4 = store_inodes B f3"
  have s: "superblock f1 = mkfs_superblock" "superblock f2 = mkfs_superblock" "superblock f3 = mkfs_superblock"
    "superblock f4 = mkfs_superblock" by (simp_all add: f1_def f2_def f3_def f4_def sb)
  have db: "data_sector BLOCK_MAP_SIZE = 2097605" by (simp add: data_sector_def BLOCK_MAP_SIZE_eq)
  note w = fs_write_content [OF B, unfolded db]
  have c1: "content (card f1) = blit (content (card f)) (512 * 1048576) 512 (superblock_bytes f)"
    using w [of 0 f 1] by (simp add: f1_def store_superblock_def start_superblock [OF sb])
  have c2: "content (card f2) = blit (content (card f1)) (512 * 1048577) 2048 (inode_map f)"
    using w [of 512 f1 "of_nat (INODE_NUM div SEC_SIZE)"]
    by (simp add: f2_def store_inode_map_def start_superblock [OF s(1)] s(1) table_sizes) (simp add: f1_def)
  have c3: "content (card f3) = blit (content (card f2)) (512 * 1048773) 512 (block_map f)"
    using w [of 100864 f2 BLOCK_MAP_SECTORS]
    by (simp add: f3_def store_block_map_def start_superblock [OF s(2)] s(2) table_sizes) (simp add: f1_def f2_def)
  have "inode_bytes f3 = inode_bytes f" by (simp add: inode_bytes_def f1_def f2_def f3_def fun_eq_iff)
  then have c4: "content (card f4) = blit (content (card f3)) (512 * 1048581) 98304 (inode_bytes f)"
    using w [of 2560 f3 INODE_SECTORS]
    by (simp add: f4_def store_inodes_def start_superblock [OF s(3)] s(3) table_sizes)
  have u5: "unat (get_start_sec (block_offset 0 f4) f4) = 1049029"
    using block_start [OF s(4), of 0] by (simp add: BLOCK_MAP_SIZE_eq data_sector_def)
  have c5: "content (card (mkfs_stores B f)) = blit (content (card f4)) (512 * 1049029) 4096 (rbyte (bufs f TEMP))"
    using w [of "block_offset 0 f4" f4 8]
    by (simp add: mkfs_stores_def f1_def [symmetric] f2_def [symmetric] f3_def [symmetric] f4_def [symmetric]
        store_a_data_block_def store_a_data_block_from_def u5) (simp add: f1_def f2_def f3_def f4_def)
  note c = c1 c2 c3 c4 c5 blit_def
  show "i < 512 \<Longrightarrow> content (card (mkfs_stores B f)) (512 * 1048576 + i) = superblock_bytes f i" by (simp add: c)
  show "i < 2048 \<Longrightarrow> content (card (mkfs_stores B f)) (512 * 1048577 + i) = inode_map f i" by (simp add: c)
  show "i < 98304 \<Longrightarrow> content (card (mkfs_stores B f)) (512 * 1048581 + i) = inode_bytes f i" by (simp add: c)
  show "i < 512 \<Longrightarrow> content (card (mkfs_stores B f)) (512 * 1048773 + i) = block_map f i" by (simp add: c)
  show "i < 4096 \<Longrightarrow> content (card (mkfs_stores B f)) (512 * 1049029 + i) = rbyte (bufs f TEMP) i" by (simp add: c)
qed

section \<open>Mounting\<close>

lemma read_superblock_result:
  assumes "fs_card B content"
  shows "fst (read_superblock START_SEC B g) = 0"
    and "superblock_of (rbyte (bufs (snd (read_superblock START_SEC B g)) TEMP)) =
      superblock_of (\<lambda>i. content (card g) (512 * 1048576 + i))"
    and "card (snd (read_superblock START_SEC B g)) = card g"
proof -
  have u: "unat START_SEC = 1048576" by (simp add: START_SEC_def push_bit_eq_mult)
  note sd = long_readD [OF sd_ok_read [OF assms [unfolded fs_card_def]], of 1 START_SEC, simplified, unfolded u data_sector_def BLOCK_MAP_SIZE_eq, simplified]
  show "fst (read_superblock START_SEC B g) = 0"
    using sd(1) by (simp add: read_superblock_def Let_def split: prod.splits) (metis fst_conv)
  have "rbyte (bufs (snd (read_superblock START_SEC B g)) TEMP) i = content (card g) (512 * 1048576 + i)" if "i < 512" for i
    using sd(2) [of i] that by (simp add: read_superblock_def Let_def blit_def split: prod.splits) (metis snd_conv)
  then show "superblock_of (rbyte (bufs (snd (read_superblock START_SEC B g)) TEMP)) =
      superblock_of (\<lambda>i. content (card g) (512 * 1048576 + i))" by (intro superblock_of_cong) simp
  show "card (snd (read_superblock START_SEC B g)) = card g" by (simp add: read_superblock_def split: prod.splits)
qed

lemma fs_read_content:
  assumes "long_read_ok n B content (data_sector BLOCK_MAP_SIZE)" "unat (get_start_sec off f) + unat n \<le> data_sector BLOCK_MAP_SIZE" "i < 512 * unat n"
  shows "fs_read B n off f i = content (card f) (512 * unat (get_start_sec off f) + i)"
  using long_readD(2) [OF assms] by (simp add: fs_read_def)

text \<open>\<open>load_inodes\<close> reads the whole inode table in one call.\<close>

definition fs_reads_inodes :: "'d bios \<Rightarrow> ('d \<Rightarrow> nat \<Rightarrow> u8) \<Rightarrow> bool" where
  "fs_reads_inodes B content \<longleftrightarrow> long_read_ok INODE_SECTORS B content (data_sector BLOCK_MAP_SIZE)"

lemma init_fs_result:
  assumes B: "fs_card B content" and sb: "superblock_of (\<lambda>i. content (card g) (512 * 1048576 + i)) = mkfs_superblock"
  obtains g' where "init_fs B g = (0, g')" "superblock g' = mkfs_superblock" "card g' = card g" "current_inode g' = 0"
    "\<And>n. n < INODE_NUM \<Longrightarrow> inode_map g' n = content (card g) (512 * 1048577 + n)"
    "\<And>b. b < 512 \<Longrightarrow> block_map g' b = content (card g) (512 * 1048773 + b)"
    "\<And>n. fs_reads_inodes B content \<Longrightarrow> n < INODE_NUM \<Longrightarrow>
      \<exists>d. inodes g' n = inode_of d (\<lambda>b. content (card g) (512 * 1048581 + (INODE_BYTES * n + b)))"
proof -
  define g1 where "g1 = load_superblock B g"
  have c1: "card g1 = card g" "superblock g1 = mkfs_superblock"
    using read_superblock_result [OF B, of g] sb by (simp_all add: g1_def load_superblock_def Let_def)
  define g2 where "g2 = g1\<lparr>fdesc_array := (\<lambda>k. if k < NUM_FDESCS
             then \<lparr>fd_mode = 0, fd_offset = 0, fd_inode_num = 0, fd_follow_inode = 0, fd_ref_count = 0\<rparr>
             else fdesc_array g1 k), current_inode := 0\<rparr>"
  have c2: "card g2 = card g" "superblock g2 = mkfs_superblock" by (simp_all add: g2_def c1)
  define g3 where "g3 = load_inode_map B g2"
  define g4 where "g4 = load_block_map B g3"
  define g5 where "g5 = load_inodes B g4"
  have init: "init_fs B g = (0, g5)"
    using c1 by (simp add: init_fs_def Let_def g1_def [symmetric] g5_def g4_def g3_def g2_def)
  have c: "card g3 = card g" "superblock g3 = mkfs_superblock" "card g4 = card g" "superblock g4 = mkfs_superblock"
    "card g5 = card g" "superblock g5 = mkfs_superblock" "current_inode g5 = 0"
    by (simp_all add: g5_def g4_def g3_def load_inode_map_def load_block_map_def load_inodes_def Let_def c2) (simp add: g2_def)
  have db: "data_sector BLOCK_MAP_SIZE = 2097605" by (simp add: data_sector_def BLOCK_MAP_SIZE_eq)
  have short: "unat (of_nat (INODE_NUM div SEC_SIZE) :: u32) \<le> 64" "unat BLOCK_MAP_SECTORS \<le> 64" by (simp_all add: table_sizes)
  note rd = fs_read_content [OF sd_ok_read [OF B [unfolded fs_card_def] short(1)], unfolded db]
    fs_read_content [OF sd_ok_read [OF B [unfolded fs_card_def] short(2)], unfolded db]
  have im: "inode_map g5 n = content (card g) (512 * 1048577 + n)" if "n < INODE_NUM" for n
    using rd(1) [of 512 g2 n] that
    by (simp add: g5_def g4_def load_block_map_def load_inodes_def Let_def g3_def load_inode_map_def c2
        start_superblock [OF c2(2)] table_sizes INODE_NUM_def SEC_SIZE_def blit_def)
  have bm: "block_map g5 b = content (card g) (512 * 1048773 + b)" if "b < 512" for b
    using rd(2) [of 100864 g3 b] that
    by (simp add: g5_def g4_def load_block_map_def load_inodes_def Let_def c
        start_superblock [OF c(2)] table_sizes blit_def)
  have ino: "\<exists>d. inodes g5 n = inode_of d (\<lambda>b. content (card g) (512 * 1048581 + (INODE_BYTES * n + b)))"
    if long: "fs_reads_inodes B content" and n: "n < INODE_NUM" for n
  proof -
    have "fs_read B INODE_SECTORS 2560 g4 i = content (card g) (512 * 1048581 + i)" if "i < 98304" for i
      using fs_read_content [OF long [unfolded fs_reads_inodes_def], unfolded db, of 2560 g4 i] that by (simp add: c start_superblock [OF c(4)] table_sizes)
    then have eq: "fs_read B INODE_SECTORS 2560 g4 (INODE_BYTES * n + b) = content (card g) (512 * 1048581 + (INODE_BYTES * n + b))"
      if "b < 48" for b
      using that n by (simp add: INODE_NUM_def INODE_BYTES_def)
    have "inode_of d (\<lambda>b. fs_read B INODE_SECTORS 2560 g4 (INODE_BYTES * n + b)) =
        inode_of d (\<lambda>b. content (card g) (512 * 1048581 + (INODE_BYTES * n + b)))" for d
    proof -
      have "le32 (\<lambda>b. fs_read B INODE_SECTORS 2560 g4 (INODE_BYTES * n + (4 * k + b))) =
          le32 (\<lambda>b. content (card g) (512 * 1048581 + (INODE_BYTES * n + (4 * k + b))))" if "k < 12" for k
        by (rule le32_cong, rule eq) (use that in linarith)
      from this [of 0] this [of 1] this [of 2] this [of 11] this [of "3 + _"]
      show ?thesis by (simp add: inode_of_def Let_def fun_eq_iff)
    qed
    then show ?thesis using n by (auto simp: g5_def load_inodes_def Let_def c)
  qed
  show ?thesis by (rule that [OF init c(6) c(5) c(7) im bm ino])
qed

section \<open>The whole\<close>

lemma clear_buf_result:
  assumes "4096 \<le> rsize (bufs f b)"
  shows "clear_buf b f = Some (set_buf b ((bufs f b)\<lparr>rbyte := blit (rbyte (bufs f b)) 0 4096 (\<lambda>_. 0)\<rparr>) f)"
  using assms by (simp add: clear_buf_def BLOCK_SIZE_def memset_eq)

lemma put_dentry_result:
  assumes "cstr (fst nm) (snd nm) xs" "length xs < 28" "de_name j + 32 \<le> rsize (bufs f TEMP)"
  obtains r where "put_dentry j nm n f = Some (set_buf TEMP r f)" "rsize r = rsize (bufs f TEMP)"
    "\<And>i. i < length xs \<Longrightarrow> rbyte r (de_name j + i) = xs ! i" "rbyte r (de_name j + length xs) = 0"
    "\<And>i. i < 4 \<Longrightarrow> rbyte r (de_name j + 28 + i) = byte_of (word_of_int n :: u32) i"
    "\<And>i. i < de_name j \<or> de_name j + 32 \<le> i \<Longrightarrow> rbyte r i = rbyte (bufs f TEMP) i"
proof -
  obtain r0 where r0: "strcpy (bufs f TEMP) (de_name j) (fst nm) (snd nm) = Some r0" "cstr r0 (de_name j) xs"
    "rsize r0 = rsize (bufs f TEMP)"
    "\<And>i. i < de_name j \<or> de_name j + length xs < i \<Longrightarrow> rbyte r0 i = rbyte (bufs f TEMP) i"
    using strcpy_result [OF assms(1), of "de_name j" "bufs f TEMP"] assms(2,3) by auto
  let ?r = "r0\<lparr>rbyte := blit (rbyte r0) (de_name j + 28) 4 (byte_of (word_of_int n :: u32))\<rparr>"
  have "put_dentry j nm n f = Some (set_buf TEMP ?r f)"
    using r0 assms(3) by (simp add: put_dentry_def set32_def)
  moreover have "rbyte ?r (de_name j + i) = xs ! i" if "i < length xs" for i
    using that r0(2) assms(2) by (simp add: blit_def cstr_def)
  moreover have "rbyte ?r (de_name j + length xs) = 0" using r0(2) assms(2) by (simp add: blit_def cstr_def)
  moreover have "rbyte ?r (de_name j + 28 + i) = byte_of (word_of_int n :: u32) i" if "i < 4" for i
    using that by (simp add: blit_def)
  moreover have "rbyte ?r i = rbyte (bufs f TEMP) i" if "i < de_name j \<or> de_name j + 32 \<le> i" for i
    using that r0(4) [of i] assms(2) by (auto simp: blit_def)
  ultimately show ?thesis using r0(3) by (intro that [of ?r]) simp_all
qed

text \<open>The state that \<open>do_mkfs\<close> writes out.\<close>

definition mkfs_state :: "'d fs \<Rightarrow> bool" where
  "mkfs_state f \<longleftrightarrow> superblock f = mkfs_superblock \<and> i_sec (inodes f 0) 0 = 0 \<and> i_link (inodes f 0) = 1
     \<and> i_parent (inodes f 0) = -1 \<and> i_size (inodes f 0) = 0 \<and> current_inode f = 0
     \<and> (\<forall>n < INODE_NUM. inode_map f n = (if n = 0 then 1 else 0))
     \<and> (\<forall>b < BLOCK_MAP_SIZE. block_map f b = (if b = 0 then 1 else 0))
     \<and> entry_name (rbyte (bufs f TEMP)) 0 = DOT \<and> entry_inode (rbyte (bufs f TEMP)) 0 = 0
     \<and> (\<forall>i. 32 \<le> i \<and> i < 4096 \<longrightarrow> rbyte (bufs f TEMP) i = 0)"

lemma entry_dot:
  assumes "bs 0 = 0x2e" "bs 1 = 0" "\<And>i. i < 4 \<Longrightarrow> bs (28 + i) = byte_of (0 :: u32) i"
  shows "entry_name bs 0 = DOT" "entry_inode bs 0 = 0"
proof -
  have "[0..<28] = 0 # 1 # [2..<28::nat]" by (simp add: upt_rec)
  then show "entry_name bs 0 = DOT" using assms(1,2) by (simp add: entry_name_def DOT_def)
  have "le32 (\<lambda>b. bs (28 + b)) = 0" by (rule le32_bytes) (rule assms(3))
  then show "entry_inode bs 0 = 0" by (simp add: entry_inode_def)
qed

lemma do_mkfs_result:
  assumes B: "fs_card B content" and temp: "4096 \<le> rsize (bufs f TEMP)"
    and nomagic: "magic (superblock_of (\<lambda>i. content (card f) (512 * 1048576 + i))) \<noteq> SUPERBLOCK_MAGIC"
  obtains f8 where "do_mkfs B f = Some (0, mkfs_stores B f8)" "mkfs_state f8"
proof -
  have st: "push_bit 20 1 = START_SEC" by (simp add: START_SEC_def)
  obtain f1 where rs: "read_superblock START_SEC B f = (0, f1)"
    and f1: "superblock_of (rbyte (bufs f1 TEMP)) = superblock_of (\<lambda>i. content (card f) (512 * 1048576 + i))"
    using read_superblock_result [OF B, of f] by (metis prod.collapse)
  have t1: "4096 \<le> rsize (bufs f1 TEMP)" using rs temp by (auto simp: read_superblock_def Let_def split: prod.splits)
  define f2 where "f2 = f1\<lparr>superblock := superblock_of (rbyte (bufs f1 TEMP))\<rparr>"
  define f3 where "f3 = f2\<lparr>superblock := mkfs_superblock,
          block_map := (\<lambda>i. if i < BLOCK_MAP_SIZE then 0 else block_map f2 i),
          inode_map := (\<lambda>i. if i < INODE_NUM then 0 else inode_map f2 i)\<rparr>"
  define f4 where "f4 = upd_inode 0 (\<lambda>d. d\<lparr>i_mode := OWNER_READ OR OWNER_WRITE OR GROUP_READ OR OTHER_READ,
          i_size := 0, i_parent := -1, i_sec := (i_sec d)(0 := 0), i_link := 1\<rparr>)
          (f3\<lparr>inode_map := (inode_map f3)(0 := 1)\<rparr>)"
  define f5 where "f5 = f4\<lparr>block_map := (block_map f4)(0 := 1)\<rparr>"
  define f6 where "f6 = set_buf TEMP ((bufs f5 TEMP)\<lparr>rbyte := blit (rbyte (bufs f5 TEMP)) 0 4096 (\<lambda>_. 0)\<rparr>) f5"
  have t5: "4096 \<le> rsize (bufs f5 TEMP)" using t1 by (simp add: f5_def f4_def f3_def f2_def)
  have clear: "clear_buf TEMP f5 = Some f6" using clear_buf_result [OF t5] by (simp add: f6_def)
  have dot: "cstr (fst (literal DOT)) (snd (literal DOT)) DOT" by (rule literal_cstr) (simp add: DOT_def)
  obtain r where r: "put_dentry 0 (literal DOT) 0 f6 = Some (set_buf TEMP r f6)"
    "rbyte r (de_name 0 + 0) = DOT ! 0" "rbyte r (de_name 0 + length DOT) = 0"
    "\<And>i. i < 4 \<Longrightarrow> rbyte r (de_name 0 + 28 + i) = byte_of (word_of_int 0 :: u32) i"
    "\<And>i. i < de_name 0 \<or> de_name 0 + 32 \<le> i \<Longrightarrow> rbyte r i = rbyte (bufs f6 TEMP) i"
    by (rule put_dentry_result [OF dot, of 0 f6 0]) (use t5 in \<open>auto simp: DOT_def de_name_def f6_def\<close>)
  define f8 where "f8 = (set_buf TEMP r f6)\<lparr>current_inode := 0\<rparr>"
  have m2: "magic (superblock f2) \<noteq> SUPERBLOCK_MAGIC" using nomagic f1 by (simp add: f2_def)
  have "do_mkfs B f = Some (0, mkfs_stores B f8)"
    unfolding do_mkfs_def st rs Let_def prod.case f2_def [symmetric] f3_def [symmetric] f4_def [symmetric] f5_def [symmetric]
    using m2 clear r(1) by (simp add: f8_def mkfs_stores_def)
  moreover have "mkfs_state f8"
  proof -
    have "rbyte r 0 = 0x2e" "rbyte r 1 = 0" "\<And>i. i < 4 \<Longrightarrow> rbyte r (28 + i) = byte_of (0 :: u32) i"
      using r(2-4) by (simp_all add: de_name_def DOT_def)
    note e = entry_dot [OF this]
    have "\<forall>i. 32 \<le> i \<and> i < 4096 \<longrightarrow> rbyte r i = 0" using r(5) by (simp add: de_name_def f6_def blit_def)
    then show ?thesis unfolding mkfs_state_def
      using e by (simp add: f8_def f6_def f5_def f4_def f3_def)
  qed
  ultimately show ?thesis by (rule that)
qed

text \<open>A state that has been mounted from what another one stored.\<close>

definition mounted :: "'d fs \<Rightarrow> 'd fs \<Rightarrow> bool" where
  "mounted f g \<longleftrightarrow> superblock g = superblock f \<and> current_inode g = 0
     \<and> (\<forall>n < INODE_NUM. inode_map g n = inode_map f n) \<and> (\<forall>b < 512. block_map g b = block_map f b)"

definition same_inodes :: "(nat \<Rightarrow> inode_t) \<Rightarrow> (nat \<Rightarrow> inode_t) \<Rightarrow> bool" where
  "same_inodes is js \<longleftrightarrow> (\<forall>n < INODE_NUM. same_inode (is n) (js n))"

text \<open>The inode table on the card.\<close>

definition card_inode :: "('d \<Rightarrow> nat \<Rightarrow> u8) \<Rightarrow> 'd fs \<Rightarrow> nat \<Rightarrow> inode_t" where
  "card_inode content g n = inode_of (inodes g n) (\<lambda>b. content (card g) (512 * 1048581 + (INODE_BYTES * n + b)))"

lemma card_inodes_stored:
  assumes B: "fs_card B content" and sb: "superblock f = mkfs_superblock" and n: "n < INODE_NUM"
    and g: "card g = card (mkfs_stores B f)"
  shows "same_inode (inode_of d (\<lambda>b. content (card g) (512 * 1048581 + (INODE_BYTES * n + b)))) (inodes f n)"
proof -
  note C = mkfs_stores_content [OF B sb]
  have byte: "content (card g) (512 * 1048581 + (INODE_BYTES * n + b)) = inode_bytes f (INODE_BYTES * n + b)" if "b < 48" for b
    using C(3) [of "INODE_BYTES * n + b"] that n g by (simp add: INODE_NUM_def INODE_BYTES_def)
  have "inode_of d (\<lambda>b. content (card g) (512 * 1048581 + (INODE_BYTES * n + b))) = inode_of d (\<lambda>b. inode_bytes f (INODE_BYTES * n + b))"
  proof -
    have "le32 (\<lambda>b. content (card g) (512 * 1048581 + (INODE_BYTES * n + (4 * k + b)))) =
        le32 (\<lambda>b. inode_bytes f (INODE_BYTES * n + (4 * k + b)))" if "k < 12" for k
      by (rule le32_cong, rule byte) (use that in linarith)
    from this [of 0] this [of 1] this [of 2] this [of 11] this [of "3 + _"]
    show ?thesis by (simp add: inode_of_def Let_def fun_eq_iff)
  qed
  then show ?thesis using inode_of_bytes by simp
qed

lemma mount_stored:
  assumes B: "fs_card B content" and sb: "superblock f = mkfs_superblock" and g: "card g = card (mkfs_stores B f)"
  obtains g' where "init_fs B g = (0, g')" "mounted f g'" "card g' = card g"
    "fs_reads_inodes B content \<longrightarrow> same_inodes (inodes g') (inodes f)"
proof -
  note C = mkfs_stores_content [OF B sb]
  have "superblock_of (\<lambda>i. content (card g) (512 * 1048576 + i)) = superblock_of (superblock_bytes f)"
    by (rule superblock_of_cong) (use C(1) g in simp)
  then have sbg: "superblock_of (\<lambda>i. content (card g) (512 * 1048576 + i)) = mkfs_superblock"
    using superblock_of_bytes [of f] sb by simp
  obtain g' where g': "init_fs B g = (0, g')" "superblock g' = mkfs_superblock" "card g' = card g" "current_inode g' = 0"
    "\<And>n. n < INODE_NUM \<Longrightarrow> inode_map g' n = content (card g) (512 * 1048577 + n)"
    "\<And>b. b < 512 \<Longrightarrow> block_map g' b = content (card g) (512 * 1048773 + b)"
    "\<And>n. fs_reads_inodes B content \<Longrightarrow> n < INODE_NUM \<Longrightarrow>
      \<exists>d. inodes g' n = inode_of d (\<lambda>b. content (card g) (512 * 1048581 + (INODE_BYTES * n + b)))"
    using init_fs_result [OF B sbg] by metis
  have "same_inodes (inodes g') (inodes f)" if long: "fs_reads_inodes B content"
    unfolding same_inodes_def
  proof (intro allI impI)
    fix n assume n: "n < INODE_NUM"
    show "same_inode (inodes g' n) (inodes f n)" using g'(7) [OF long n] card_inodes_stored [OF B sb n g] by auto
  qed
  moreover have "mounted f g'" unfolding mounted_def
    using g'(2,4,5,6) C(2,4) g sb by (simp add: INODE_NUM_def)
  ultimately show ?thesis using g'(1,3) that by blast
qed

lemma root_dot:
  assumes B: "fs_card B content" and f: "mkfs_state f" and g: "mounted f g" "same_inodes (inodes g) (inodes f)" "card g = card (mkfs_stores B f)"
  shows "dir_lookup content g 0 DOT = Some 0"
proof -
  have sb: "superblock f = mkfs_superblock" using f by (simp add: mkfs_state_def)
  have root: "same_inode (inodes g 0) (inodes f 0)" "inode_map g 0 = 1"
    using g(1,2) f by (auto simp: mounted_def same_inodes_def mkfs_state_def INODE_NUM_def)
  then have s0: "i_sec (inodes g 0) 0 = 0" using f by (simp add: same_inode_def mkfs_state_def)
  have "[0..<8] = 0 # [1..<8::nat]" by (simp add: upt_rec)
  then have blk: "\<exists>bs. dir_blocks g 0 [0..<8] = 0 # bs" using s0 by (simp add: dir_blocks_def dir_unused_def)
  have byte: "disk_block content g 0 i = rbyte (bufs f TEMP) i" if "i < 4096" for i
    using mkfs_stores_content(5) [OF B sb that] g(3) by (simp add: disk_block_def data_sector_def)
  have "map (\<lambda>i. disk_block content g 0 (32 * 0 + i)) [0..<28] = map (\<lambda>i. rbyte (bufs f TEMP) (32 * 0 + i)) [0..<28]"
    using byte by simp
  then have "entry_name (disk_block content g 0) 0 = entry_name (rbyte (bufs f TEMP)) 0" by (simp only: entry_name_def)
  then have "entry_name (disk_block content g 0) 0 = DOT" using f by (simp add: mkfs_state_def)
  moreover have "entry_inode (disk_block content g 0) 0 = 0"
  proof -
    have "le32 (\<lambda>b. disk_block content g 0 (32 * 0 + 28 + b)) = le32 (\<lambda>b. rbyte (bufs f TEMP) (32 * 0 + 28 + b))"
      by (rule le32_cong) (simp add: byte)
    then show ?thesis using f by (simp add: entry_inode_def mkfs_state_def)
  qed
  moreover have "[0..<128] = 0 # [1..<128::nat]" by (simp add: upt_rec)
  ultimately have "\<exists>es. entries_from content g 0 [0..<8] = (DOT, 0) # es"
    using blk by (auto simp: entries_from_def block_entries_def)
  then show ?thesis using root(2) by (auto simp: dir_lookup_def entry_matches_def)
qed

end
