(* ===== verification/FsRw.thy ===== *)
theory FsRw
  imports FsStore
begin

text \<open>
  Reading and writing within the seven direct blocks of a file. \<open>block_byte\<close> is a byte of one
  of its blocks on the card. \<open>file_ok\<close> says that the blocks that a file has are allocated and
  different. One turn of \<open>write_direct\<close> changes one block as \<open>write_step\<close> says, one turn of
  \<open>read_direct\<close> copies one block; the results for whole transfers follow by induction on the
  number of blocks left.
\<close>

section \<open>Files\<close>

definition block_byte :: "('d \<Rightarrow> nat \<Rightarrow> u8) \<Rightarrow> 'd fs \<Rightarrow> nat \<Rightarrow> nat \<Rightarrow> nat \<Rightarrow> u8" where
  "block_byte content f n k p = disk_block content f (unat (i_sec (inodes f n) k)) p"

definition has_block :: "'d fs \<Rightarrow> nat \<Rightarrow> nat \<Rightarrow> bool" where
  "has_block f n k \<longleftrightarrow> i_sec (inodes f n) k \<noteq> 0"

definition file_ok :: "'d fs \<Rightarrow> nat \<Rightarrow> bool" where
  "file_ok f n \<longleftrightarrow> superblock f = mkfs_superblock \<and> n < INODE_NUM \<and> block_map f 0 \<noteq> 0
     \<and> (\<forall>k < 7. has_block f n k \<longrightarrow> unat (i_sec (inodes f n) k) < BLOCK_MAP_SIZE
          \<and> block_map f (unat (i_sec (inodes f n) k)) \<noteq> 0)
     \<and> (\<forall>k < 7. \<forall>j < 7. has_block f n k \<longrightarrow> j \<noteq> k \<longrightarrow> i_sec (inodes f n) j \<noteq> i_sec (inodes f n) k)
     \<and> rsize (bufs f TEMP4) \<ge> 4096 \<and> rsize (bufs f TEMP) \<ge> 4096"

lemma file_okD:
  assumes "file_ok f n"
  shows "superblock f = mkfs_superblock" "n < INODE_NUM" "block_map f 0 \<noteq> 0"
    and "k < 7 \<Longrightarrow> has_block f n k \<Longrightarrow> unat (i_sec (inodes f n) k) < BLOCK_MAP_SIZE"
    and "k < 7 \<Longrightarrow> has_block f n k \<Longrightarrow> block_map f (unat (i_sec (inodes f n) k)) \<noteq> 0"
    and "k < 7 \<Longrightarrow> j < 7 \<Longrightarrow> has_block f n k \<Longrightarrow> j \<noteq> k \<Longrightarrow> i_sec (inodes f n) j \<noteq> i_sec (inodes f n) k"
    and "rsize (bufs f TEMP4) \<ge> 4096" "rsize (bufs f TEMP) \<ge> 4096"
  using assms unfolding file_ok_def by blast+

text \<open>What a write leaves alone: everything but block pointers of the file, the block map and
  scratch areas.\<close>

definition file_frame :: "'d fs \<Rightarrow> nat \<Rightarrow> 'd fs \<Rightarrow> bool" where
  "file_frame f n f' \<longleftrightarrow> superblock f' = superblock f \<and> fdesc_array f' = fdesc_array f
     \<and> inode_map f' = inode_map f \<and> (\<forall>m. m \<noteq> n \<longrightarrow> inodes f' m = inodes f m)
     \<and> (\<exists>secs. inodes f' n = (inodes f n)\<lparr>i_sec := secs\<rparr>)"

lemma file_frame_refl [simp]: "file_frame f n f"
  unfolding file_frame_def by (metis inode_t.surjective inode_t.update_convs(4))

lemma file_frame_trans: "file_frame f n g \<Longrightarrow> file_frame g n h \<Longrightarrow> file_frame f n h"
  unfolding file_frame_def by force

text \<open>A block number as it is kept in an inode.\<close>

lemma block_word: "b < BLOCK_MAP_SIZE \<Longrightarrow> unat (word_of_int (int b) :: u32) = b"
  by (simp add: BLOCK_MAP_SIZE_eq unat_of_nat)

lemma sint_block: "unat w < BLOCK_MAP_SIZE \<Longrightarrow> sint w = int (unat w)" for w :: u32
proof -
  assume "unat w < BLOCK_MAP_SIZE"
  moreover have eq: "uint w = int (unat w)" by simp
  ultimately have "uint w < 131072" unfolding BLOCK_MAP_SIZE_eq by linarith
  then have "sint (word_of_int (uint w) :: u32) = uint w" by (intro sint_small) (use uint_ge_0 [of w] in linarith)+
  then show ?thesis by simp
qed

lemma inode_sec_in: "n < INODE_NUM \<Longrightarrow> k < 8 \<Longrightarrow> inode_sec (int n) (int k) f = Some (i_sec (inodes f n) k)"
  by (simp add: inode_sec_def)

lemma copy_in_eq:
  assumes "p + c \<le> rsize (bufs f b)" "q + c \<le> rsize buff" "c < 4294967296" "at x = int q"
  shows "copy_in b (int p) (int c) buff x f =
    Some (set_buf b ((bufs f b)\<lparr>rbyte := blit (rbyte (bufs f b)) p c (\<lambda>i. rbyte buff (q + i))\<rparr>) f)"
  using assms by (simp add: copy_in_def byte_offset_def memcpy_len_nat memcpy_eq)

lemma copy_out_eq:
  assumes "p + c \<le> rsize (bufs f b)" "q + c \<le> rsize buff" "c < 4294967296" "at x = int q"
  shows "copy_out b (int p) (int c) buff x f =
    Some (buff\<lparr>rbyte := blit (rbyte buff) q c (\<lambda>i. rbyte (bufs f b) (p + i))\<rparr>)"
  using assms by (simp add: copy_out_def byte_offset_def memcpy_len_nat memcpy_eq)

section \<open>One turn of the write loop\<close>

definition write_step :: "('d \<Rightarrow> nat \<Rightarrow> u8) \<Rightarrow> 'd fs \<Rightarrow> nat \<Rightarrow> nat \<Rightarrow> nat \<Rightarrow> nat \<Rightarrow> (nat \<Rightarrow> u8) \<Rightarrow> 'd fs \<Rightarrow> bool" where
  "write_step content f n k off c g f' \<longleftrightarrow> file_ok f' n \<and> file_frame f n f' \<and> has_block f' n k
     \<and> (\<forall>j < 7. j \<noteq> k \<longrightarrow> has_block f' n j = has_block f n j)
     \<and> Finite_Set.card (block_alloc.free_set f) \<le> Suc (Finite_Set.card (block_alloc.free_set f'))
     \<and> (\<forall>p. off \<le> p \<and> p < off + c \<longrightarrow> block_byte content f' n k p = g (p - off))
     \<and> (\<forall>j < 7. \<forall>p < 4096. has_block f n j \<longrightarrow> \<not> (j = k \<and> off \<le> p \<and> p < off + c) \<longrightarrow>
          block_byte content f' n j p = block_byte content f n j p)"

text \<open>The block to write to: the old one, loaded into \<open>TEMP4\<close>, or a new one.\<close>

lemma prepare_block:
  assumes B: "fs_card B content" and ok: "file_ok f n" and k: "k < 7"
    and free: "block_alloc.free_set f \<noteq> {}"
  obtains f1 b where "(if i_sec (inodes f n) k = 0
         then (let (blk, f') = get_free_block f in set_inode_sec (int n) (int k) blk f')
         else Some (load_a_data_block_to B (sint (i_sec (inodes f n) k)) TEMP4 f)) = Some f1"
    "file_ok f1 n" "file_frame f n f1" "i_sec (inodes f1 n) k = word_of_int (int b)" "b < BLOCK_MAP_SIZE"
    "b \<noteq> 0" "has_block f n k \<Longrightarrow> unat (i_sec (inodes f n) k) = b"
    "\<And>j. j \<noteq> k \<Longrightarrow> i_sec (inodes f1 n) j = i_sec (inodes f n) j" "card f1 = card f"
    "\<And>p. has_block f n k \<Longrightarrow> p < 4096 \<Longrightarrow> rbyte (bufs f1 TEMP4) p = disk_block content f b p"
    "\<And>j. j < 7 \<Longrightarrow> j \<noteq> k \<Longrightarrow> has_block f n j \<Longrightarrow> unat (i_sec (inodes f n) j) \<noteq> b"
    "Finite_Set.card (block_alloc.free_set f) \<le> Suc (Finite_Set.card (block_alloc.free_set f1))"
proof (cases "has_block f n k")
  case True
  define b where "b = unat (i_sec (inodes f n) k)"
  note D = file_okD [OF ok]
  have b: "b < BLOCK_MAP_SIZE" using D(4) [OF k True] by (simp add: b_def)
  have s: "sint (i_sec (inodes f n) k) = int b" using b by (simp add: b_def sint_block)
  let ?f1 = "load_a_data_block_to B (int b) TEMP4 f"
  have "file_ok ?f1 n" using ok by (simp add: file_ok_def has_block_def)
  moreover have "file_frame f n ?f1" by (simp add: file_frame_def) (metis inode_t.surjective inode_t.update_convs(4))
  moreover have "b \<noteq> 0" using True by (auto simp: b_def has_block_def unat_eq_zero)
  moreover have "unat (i_sec (inodes f n) j) \<noteq> b" if "j < 7" "j \<noteq> k" for j
    using D(6) [OF k that(1) True that(2)] by (simp add: b_def word_unat_eq_iff)
  moreover have "block_alloc.free_set ?f1 = block_alloc.free_set f" by (simp add: block_alloc.free_set_def)
  ultimately show ?thesis using True b load_block_byte [OF B D(1) b, of TEMP4]
    by (intro that [of ?f1 b]) (auto simp: has_block_def s b_def)
next
  case False
  note D = file_okD [OF ok]
  show ?thesis
  proof (cases rule: block_alloc.alloc_cases [of f])
    case full
    then show ?thesis using free by simp
  next
    case (some b f')
    then have b: "b < BLOCK_MAP_SIZE" and unused: "block_map f b = 0" by (auto simp: block_alloc.free_set_def)
    have f': "f' = f\<lparr>block_map := (block_map f)(b := 1)\<rparr>"
      using some(3) by (auto simp: get_free_block_def split: option.splits)
    define f1 where "f1 = upd_inode n (\<lambda>d. d\<lparr>i_sec := (i_sec d)(k := word_of_int (int b))\<rparr>) f'"
    have nz: "b \<noteq> 0" using unused D(3) by metis
    then have wnz: "word_of_int (int b) \<noteq> (0 :: u32)" using block_word [OF b] by auto
    have other: "unat (i_sec (inodes f n) j) \<noteq> b" if "j < 7" "has_block f n j" for j
      using D(5) [OF that] unused by metis
    have hb: "has_block f1 n j \<longleftrightarrow> j = k \<or> has_block f n j" for j
      using wnz False by (auto simp: has_block_def f1_def upd_inode_def f')
    have sec: "i_sec (inodes f1 n) j = (if j = k then word_of_int (int b) else i_sec (inodes f n) j)" for j
      by (simp add: f1_def upd_inode_def f')
    have bm: "block_map f1 = (block_map f)(b := 1)" by (simp add: f1_def upd_inode_def f')
    have neq: "i_sec (inodes f n) j \<noteq> word_of_int (int b)" if "j < 7" for j
      using other [OF that] block_word [OF b] wnz by (auto simp: has_block_def)
    have "file_ok f1 n" unfolding file_ok_def
    proof (intro conjI allI impI)
      show "superblock f1 = mkfs_superblock" "n < INODE_NUM" "rsize (bufs f1 TEMP4) \<ge> 4096" "rsize (bufs f1 TEMP) \<ge> 4096"
        using D by (simp_all add: f1_def upd_inode_def f')
      show "block_map f1 0 \<noteq> 0" using D(3) by (simp add: bm)
    next
      fix j assume j: "j < 7" "has_block f1 n j"
      show "unat (i_sec (inodes f1 n) j) < BLOCK_MAP_SIZE"
      proof (cases "j = k")
        case True
        then show ?thesis using b block_word [OF b] by (simp only: sec if_True refl)
      next
        case False
        then show ?thesis using D(4) [of j] j hb by (simp add: sec)
      qed
      show "block_map f1 (unat (i_sec (inodes f1 n) j)) \<noteq> 0"
      proof (cases "j = k")
        case True
        then show ?thesis using block_word [OF b] by (simp only: sec bm if_True refl) simp
      next
        case False
        then show ?thesis using D(5) [of j] j hb by (simp add: sec bm)
      qed
    next
      fix i j assume ij: "i < 7" "j < 7" "has_block f1 n i" "j \<noteq> i"
      show "i_sec (inodes f1 n) j \<noteq> i_sec (inodes f1 n) i"
      proof (cases "i = k")
        case True
        then show ?thesis using neq [OF ij(2)] ij(4) by (simp only: sec if_True refl) simp
      next
        case False
        then have hi: "has_block f n i" using hb [of i] ij(3) by simp
        show ?thesis
        proof (cases "j = k")
          case True
          then show ?thesis using neq [OF ij(1)] False by (simp only: sec if_True refl) simp
        next
          case jk: False
          then show ?thesis using D(6) [OF ij(1,2) hi ij(4)] False by (simp add: sec)
        qed
      qed
    qed
    moreover have "file_frame f n f1" by (auto simp: file_frame_def f1_def upd_inode_def f')
    moreover have "(let (blk, f') = get_free_block f in set_inode_sec (int n) (int k) blk f') = Some f1"
      using k D(2) by (simp add: some(3) set_inode_sec_def f1_def)
    moreover have "block_alloc.free_set f1 = block_alloc.free_set f - {b}"
      by (auto simp: block_alloc.free_set_def bm)
    then have "Finite_Set.card (block_alloc.free_set f) \<le> Suc (Finite_Set.card (block_alloc.free_set f1))"
      by (simp add: Finite_Set.card_Diff_singleton_if) arith
    ultimately show ?thesis using False b nz other
      by (intro that [of f1 b]) (auto simp: has_block_def sec f1_def upd_inode_def f')
  qed
qed

lemma write_turn:
  assumes B: "fs_card B content" and ok: "file_ok f n" and k: "k < 7" and off: "off + c \<le> 4096"
    and free: "block_alloc.free_set f \<noteq> {}" and x: "at x = int q" "left x > 0" "q + c \<le> rsize buff"
    and c: "int c = min_int (BLOCK_SIZE - int off) (left x)"
  obtains f' where "write_step content f n k off c (\<lambda>i. rbyte buff (q + i)) f'"
    "write_direct B (int n) (int k) (int off) buff x f = write_direct B (int n) (int (k + 1)) 0 buff (advance (int c) x) f'"
proof -
  obtain f1 b where f1: "(if i_sec (inodes f n) k = 0
         then (let (blk, f') = get_free_block f in set_inode_sec (int n) (int k) blk f')
         else Some (load_a_data_block_to B (sint (i_sec (inodes f n) k)) TEMP4 f)) = Some f1"
    and ok1: "file_ok f1 n" and fr: "file_frame f n f1"
    and b: "i_sec (inodes f1 n) k = word_of_int (int b)" "b < BLOCK_MAP_SIZE" "b \<noteq> 0"
    and old: "has_block f n k \<Longrightarrow> unat (i_sec (inodes f n) k) = b"
    and others: "\<And>j. j \<noteq> k \<Longrightarrow> i_sec (inodes f1 n) j = i_sec (inodes f n) j" and card: "card f1 = card f"
    and buf: "\<And>p. has_block f n k \<Longrightarrow> p < 4096 \<Longrightarrow> rbyte (bufs f1 TEMP4) p = disk_block content f b p"
    and apart: "\<And>j. j < 7 \<Longrightarrow> j \<noteq> k \<Longrightarrow> has_block f n j \<Longrightarrow> unat (i_sec (inodes f n) j) \<noteq> b"
    and num: "Finite_Set.card (block_alloc.free_set f) \<le> Suc (Finite_Set.card (block_alloc.free_set f1))"
    by (rule prepare_block [OF B ok k free]) (rule that)
  note D1 = file_okD [OF ok1]
  let ?g = "\<lambda>i. rbyte buff (q + i)"
  let ?r = "(bufs f1 TEMP4)\<lparr>rbyte := blit (rbyte (bufs f1 TEMP4)) off c ?g\<rparr>"
  let ?f2 = "set_buf TEMP4 ?r f1"
  let ?f3 = "store_a_data_block_from B (int b) TEMP4 ?f2"
  have n: "n < INODE_NUM" by (rule D1(2))
  have copy: "copy_in TEMP4 (int off) (int c) buff x f1 = Some ?f2"
    using D1(7) off x by (intro copy_in_eq) auto
  have sb: "sint (i_sec (inodes ?f2 n) k) = int b"
  proof -
    have "i_sec (inodes ?f2 n) k = word_of_int (int b)" by (simp add: set_buf_def b(1))
    then have "unat (i_sec (inodes ?f2 n) k) = b" by (simp only: block_word [OF b(2)])
    then show ?thesis using sint_block [of "i_sec (inodes ?f2 n) k"] b(2) by metis
  qed
  have "write_direct B (int n) (int k) (int off) buff x f =
      write_direct B (int n) (int (k + 1)) 0 buff (advance (int c) x) ?f3"
    using k n x(2) f1 copy sb
    by (subst write_direct.simps) (simp add: inode_sec_in c [symmetric] Let_def add.commute)
  moreover have "write_step content f n k off c ?g ?f3"
  proof -
    have inodes3: "inodes ?f3 = inodes f1" and bm3: "block_map ?f3 = block_map f1" by (simp_all add: set_buf_def)
    have db: "disk_block content ?f3 d p = (if d = b then rbyte ?r p else disk_block content f d p)" if "p < 4096" for d p
      using disk_block_store [OF B, of ?f2 b p TEMP4 d] D1(1) b(2) that card
      by (simp add: set_buf_def disk_block_def)
    have hb: "has_block ?f3 n j = has_block f n j" if "j \<noteq> k" for j
      using others [OF that] by (simp add: has_block_def inodes3)
    have "word_of_int (int b) \<noteq> (0 :: u32)" using block_word [OF b(2)] b(3) by auto
    then have hk: "has_block ?f3 n k" by (simp only: has_block_def inodes3 b(1) not_False_eq_True)
    have sk: "unat (i_sec (inodes ?f3 n) k) = b" using block_word [OF b(2)] by (simp only: inodes3 b(1))
    have bk: "block_byte content ?f3 n k p = disk_block content ?f3 b p" for p unfolding block_byte_def sk ..
    have ok3: "file_ok ?f3 n" using ok1 by (simp add: file_ok_def has_block_def set_buf_def)
    have fr3: "file_frame f n ?f3" using fr by (simp add: file_frame_def set_buf_def)
    have written: "block_byte content ?f3 n k p = ?g (p - off)" if "off \<le> p" "p < off + c" for p
      using that off db [of p b] unfolding bk by (simp add: blit_def)
    have kept: "block_byte content ?f3 n j p = block_byte content f n j p"
      if j: "j < 7" "p < 4096" "has_block f n j" "\<not> (j = k \<and> off \<le> p \<and> p < off + c)" for j p
    proof (cases "j = k")
      case True
      then have "block_byte content ?f3 n j p = rbyte ?r p" using db [OF j(2), of b] bk by simp
      also have "\<dots> = disk_block content f b p" using j True buf [of p] by (auto simp: blit_def)
      finally show ?thesis using old j(3) True by (simp add: block_byte_def)
    next
      case False
      then have "i_sec (inodes ?f3 n) j = i_sec (inodes f n) j" using others by (simp add: inodes3)
      then show ?thesis using db [OF j(2)] apart [OF j(1) False j(3)] by (simp add: block_byte_def)
    qed
    show ?thesis unfolding write_step_def
      using ok3 fr3 hk hb num written kept by (simp add: block_alloc.free_set_def bm3)
  qed
  ultimately show ?thesis using that by blast
qed

section \<open>Whole writes\<close>

text \<open>The bytes of the direct part of a file, by their position; a transfer of \<open>l\<close> bytes from
  position \<open>p\<close> on.\<close>

definition file_byte :: "('d \<Rightarrow> nat \<Rightarrow> u8) \<Rightarrow> 'd fs \<Rightarrow> nat \<Rightarrow> nat \<Rightarrow> u8" where
  "file_byte content f n p = block_byte content f n (p div 4096) (p mod 4096)"

definition written :: "('d \<Rightarrow> nat \<Rightarrow> u8) \<Rightarrow> 'd fs \<Rightarrow> nat \<Rightarrow> nat \<Rightarrow> nat \<Rightarrow> (nat \<Rightarrow> u8) \<Rightarrow> 'd fs \<Rightarrow> bool" where
  "written content f n p l g f' \<longleftrightarrow> file_ok f' n \<and> file_frame f n f'
     \<and> (\<forall>i < l. has_block f' n ((p + i) div 4096) \<and> file_byte content f' n (p + i) = g i)
     \<and> (\<forall>r < 28672. has_block f n (r div 4096) \<longrightarrow> has_block f' n (r div 4096)
          \<and> (\<not> (p \<le> r \<and> r < p + l) \<longrightarrow> file_byte content f' n r = file_byte content f n r))"

lemma block_position:
  fixes p k off c r :: nat
  assumes "p = 4096 * k + off" "off < 4096" "off + c \<le> 4096" "r < 28672"
  shows "r div 4096 < 7" "r mod 4096 < 4096"
    and "r div 4096 = k \<and> off \<le> r mod 4096 \<and> r mod 4096 < off + c \<longleftrightarrow> p \<le> r \<and> r < p + c"
proof -
  show "r div 4096 < 7" "r mod 4096 < 4096" using assms(4) by simp_all
  have r: "r = 4096 * (r div 4096) + r mod 4096" by simp
  show "r div 4096 = k \<and> off \<le> r mod 4096 \<and> r mod 4096 < off + c \<longleftrightarrow> p \<le> r \<and> r < p + c"
  proof
    assume "r div 4096 = k \<and> off \<le> r mod 4096 \<and> r mod 4096 < off + c"
    then show "p \<le> r \<and> r < p + c" using r assms(1) by linarith
  next
    assume "p \<le> r \<and> r < p + c"
    then have "4096 * k + off \<le> r" "r < 4096 * k + 4096" "r < 4096 * k + off + c" using assms by auto
    moreover from this have "r div 4096 = k" by (intro div_nat_eqI) auto
    ultimately show "r div 4096 = k \<and> off \<le> r mod 4096 \<and> r mod 4096 < off + c" using r by auto
  qed
qed

lemma write_direct_result:
  assumes "fs_card B content" "file_ok f n" "at x = int q" "left x = int l" "q + l \<le> rsize buff"
    and "off < 4096" "k \<le> 7" "4096 * k + off + l \<le> 28672" "7 - k \<le> Finite_Set.card (block_alloc.free_set f)"
  shows "\<exists>num o' x' f'. write_direct B (int n) (int k) (int off) buff x f = Some (num, o', x', f') \<and> left x' = 0
    \<and> written content f n (4096 * k + off) l (\<lambda>i. rbyte buff (q + i)) f'"
  using assms(2-)
proof (induction "7 - k" arbitrary: k off x q l f)
  case 0
  then have "l = 0" "k = 7" by auto
  then show ?case using 0 by (subst write_direct.simps) (simp add: written_def)
next
  case (Suc d)
  show ?case
  proof (cases "l = 0")
    case True
    then show ?thesis using Suc.prems by (subst write_direct.simps) (simp add: written_def)
  next
    case False
    define c where "c = min (4096 - off) l"
    have c: "off + c \<le> 4096" "c \<le> l" "0 < c" using Suc.prems False by (auto simp: c_def)
    have cm: "int c = min_int (BLOCK_SIZE - int off) (left x)"
      using Suc.prems by (auto simp: c_def min_int_def BLOCK_SIZE_def)
    have k: "k < 7" using Suc.hyps(2) by linarith
    have free: "block_alloc.free_set f \<noteq> {}" using Suc.prems(8) k by (metis card.empty diff_is_0_eq le_zero_eq not_le)
    have lx: "left x > 0" "q + c \<le> rsize buff" using Suc.prems(3,4) c False by auto
    obtain f1 where st: "write_step content f n k off c (\<lambda>i. rbyte buff (q + i)) f1"
      and eq: "write_direct B (int n) (int k) (int off) buff x f =
        write_direct B (int n) (int (k + 1)) 0 buff (advance (int c) x) f1"
      by (rule write_turn [OF assms(1) Suc.prems(1) k c(1) free Suc.prems(2) lx cm])
    have ok1: "file_ok f1 n" and fr1: "file_frame f n f1" using st by (simp_all add: write_step_def)
    have "\<exists>num o' x' f'. write_direct B (int n) (int (k + 1)) (int 0) buff (advance (int c) x) f1 = Some (num, o', x', f')
        \<and> left x' = 0 \<and> written content f1 n (4096 * (k + 1) + 0) (l - c) (\<lambda>i. rbyte buff ((q + c) + i)) f'"
    proof (rule Suc.hyps(1))
      show "d = 7 - (k + 1)" using Suc.hyps(2) by simp
      show "file_ok f1 n" by (rule ok1)
      show "at (advance (int c) x) = int (q + c)" "left (advance (int c) x) = int (l - c)"
        using Suc.prems c by (simp_all add: advance_def of_nat_diff)
      show "q + c + (l - c) \<le> rsize buff" using Suc.prems c by simp
      show "(0 :: nat) < 4096" "k + 1 \<le> 7" using k by auto
      show "4096 * (k + 1) + 0 + (l - c) \<le> 28672" using Suc.prems k by (auto simp: c_def min_def)
      show "7 - (k + 1) \<le> Finite_Set.card (block_alloc.free_set f1)"
        using st Suc.prems(8) unfolding write_step_def by linarith
    qed
    then obtain num o' x' f' where r: "write_direct B (int n) (int k) (int off) buff x f = Some (num, o', x', f')"
      "left x' = 0" and w: "written content f1 n (4096 * (k + 1)) (l - c) (\<lambda>i. rbyte buff (q + c + i)) f'"
      using eq by auto
    let ?p = "4096 * k + off"
    note pos = block_position [OF refl Suc.prems(5) c(1)]
    have end1: "l - c \<noteq> 0 \<Longrightarrow> ?p + c = 4096 * (k + 1)" using Suc.prems by (auto simp: c_def min_def)
    have in_w: "has_block f' n ((4096 * (k + 1) + i) div 4096) \<and> file_byte content f' n (4096 * (k + 1) + i) = rbyte buff (q + c + i)"
      if "i < l - c" for i using w that unfolding written_def by blast
    have out_w: "has_block f' n (r div 4096)" "\<not> (4096 * (k + 1) \<le> r \<and> r < 4096 * (k + 1) + (l - c)) \<Longrightarrow>
        file_byte content f' n r = file_byte content f1 n r"
      if "r < 28672" "has_block f1 n (r div 4096)" for r using w that unfolding written_def by blast+
    have "written content f n ?p l (\<lambda>i. rbyte buff (q + i)) f'" unfolding written_def
    proof (intro conjI allI impI)
      show "file_ok f' n" using w by (simp add: written_def)
      show "file_frame f n f'" using w file_frame_trans [OF fr1] by (auto simp: written_def)
    next
      fix i assume i: "i < l"
      have lt: "?p + i < 28672" using i Suc.prems by linarith
      note ps = pos [OF lt]
      have "has_block f' n ((?p + i) div 4096) \<and> file_byte content f' n (?p + i) = rbyte buff (q + i)"
      proof (cases "i < c")
        case True
        then have "?p \<le> ?p + i \<and> ?p + i < ?p + c" by simp
        then have in1: "(?p + i) div 4096 = k" "off \<le> (?p + i) mod 4096" "(?p + i) mod 4096 < off + c" using ps(3) by blast+
        have m: "(?p + i) mod 4096 = off + i"
          using div_mult_mod_eq [of "?p + i" 4096] unfolding in1(1) by linarith
        have "has_block f1 n k" using st unfolding write_step_def by blast
        moreover have "block_byte content f1 n k (off + i) = rbyte buff (q + (off + i - off))"
          using st True unfolding write_step_def by (meson add_less_cancel_left le_add1)
        then have "block_byte content f1 n k (off + i) = rbyte buff (q + i)" by simp
        ultimately have f1: "has_block f1 n ((?p + i) div 4096)" "file_byte content f1 n (?p + i) = rbyte buff (q + i)"
          by (simp_all only: file_byte_def in1(1) m)
        have "\<not> (4096 * (k + 1) \<le> ?p + i \<and> ?p + i < 4096 * (k + 1) + (l - c))" using True c(1) by auto
        then show ?thesis using out_w [OF lt f1(1)] f1(2) by simp
      next
        case False
        then have e: "?p + i = 4096 * (k + 1) + (i - c)" "q + i = q + c + (i - c)" "i - c < l - c"
          using end1 i by auto
        show ?thesis using in_w [OF e(3)] unfolding e(1,2) .
      qed
      then show "has_block f' n ((?p + i) div 4096)" "file_byte content f' n (?p + i) = rbyte buff (q + i)" by blast+
    next
      fix r assume r: "r < 28672" "has_block f n (r div 4096)"
      note ps = pos [OF r(1)]
      have h1: "has_block f1 n (r div 4096)" using st ps(1) r(2) by (cases "r div 4096 = k") (auto simp: write_step_def)
      show "has_block f' n (r div 4096)" by (rule out_w(1) [OF r(1) h1])
      assume out: "\<not> (?p \<le> r \<and> r < ?p + l)"
      have "\<not> (r div 4096 = k \<and> off \<le> r mod 4096 \<and> r mod 4096 < off + c)"
        unfolding ps(3) using out c(2) by linarith
      then have "block_byte content f1 n (r div 4096) (r mod 4096) = block_byte content f n (r div 4096) (r mod 4096)"
        using st ps(1,2) r(2) unfolding write_step_def by blast
      moreover have "\<not> (4096 * (k + 1) \<le> r \<and> r < 4096 * (k + 1) + (l - c))" using out end1 c by linarith
      ultimately show "file_byte content f' n r = file_byte content f n r"
        using out_w(2) [OF r(1) h1] by (simp add: file_byte_def)
    qed
    then show ?thesis using r by blast
  qed
qed

section \<open>Whole reads\<close>

text \<open>A read changes scratch areas only.\<close>

definition read_frame :: "'d fs \<Rightarrow> 'd fs \<Rightarrow> bool" where
  "read_frame f f' \<longleftrightarrow> superblock f' = superblock f \<and> inodes f' = inodes f \<and> block_map f' = block_map f
     \<and> inode_map f' = inode_map f \<and> fdesc_array f' = fdesc_array f \<and> card f' = card f
     \<and> (\<forall>b. rsize (bufs f' b) = rsize (bufs f b))"

lemma read_frame_refl [simp]: "read_frame f f"
  by (simp add: read_frame_def)

lemma read_frame_trans: "read_frame f g \<Longrightarrow> read_frame g h \<Longrightarrow> read_frame f h"
  by (simp add: read_frame_def)

lemma read_frame_load [simp]: "read_frame f (load_a_data_block_to B b r f)"
  by (simp add: read_frame_def)

lemma read_frame_file:
  assumes "read_frame f f'"
  shows "file_ok f' n = file_ok f n" "has_block f' n = has_block f n"
    "file_byte content f' n = file_byte content f n"
  using assms by (auto simp: read_frame_def file_ok_def has_block_def file_byte_def block_byte_def
      disk_block_def fun_eq_iff)

lemma div_in_block: "off < 4096 \<Longrightarrow> i < 4096 - off \<Longrightarrow> (4096 * k + off + i) div 4096 = k \<and> (4096 * k + off + i) mod 4096 = off + i"
  for k off i :: nat
proof -
  assume "off < 4096" "i < 4096 - off"
  then have lt: "off + i < 4096" by simp
  have e: "4096 * k + off + i = (off + i) + k * 4096" by simp
  show ?thesis unfolding e using lt by simp
qed

lemma read_turn:
  assumes B: "fs_card B content" and ok: "file_ok f n" and k: "k < 7" and off: "off + c \<le> 4096" "off < 4096"
    and has: "has_block f n k" and x: "at x = int q" "left x > 0" "q + c \<le> rsize buff" and c0: "0 < c"
    and c: "int c = min_int (BLOCK_SIZE - int off) (left x)"
  obtains f' where "read_frame f f'"
    "read_direct B (int n) (int k) (int off) buff x f = read_direct B (int n) (int (k + 1)) 0
       (buff\<lparr>rbyte := blit (rbyte buff) q c (\<lambda>i. file_byte content f n (4096 * k + off + i))\<rparr>) (advance (int c) x) f'"
proof -
  note D = file_okD [OF ok]
  define b where "b = unat (i_sec (inodes f n) k)"
  have b: "b < BLOCK_MAP_SIZE" using D(4) [OF k has] by (simp add: b_def)
  have s: "sint (i_sec (inodes f n) k) = int b" using b by (simp only: b_def sint_block)
  let ?f1 = "load_a_data_block_to B (int b) TEMP f"
  have "copy_out TEMP (int off) (int c) buff x ?f1 =
      Some (buff\<lparr>rbyte := blit (rbyte buff) q c (\<lambda>i. rbyte (bufs ?f1 TEMP) (off + i))\<rparr>)"
    using D(8) off x by (intro copy_out_eq) auto
  also have "blit (rbyte buff) q c (\<lambda>i. rbyte (bufs ?f1 TEMP) (off + i)) =
      blit (rbyte buff) q c (\<lambda>i. file_byte content f n (4096 * k + off + i))"
  proof (rule blit_cong)
    fix i assume i: "i < c"
    then have "(4096 * k + off + i) div 4096 = k \<and> (4096 * k + off + i) mod 4096 = off + i"
      using off by (intro div_in_block) auto
    then have "file_byte content f n (4096 * k + off + i) = disk_block content f b (off + i)"
      by (simp only: file_byte_def block_byte_def b_def)
    then show "rbyte (bufs ?f1 TEMP) (off + i) = file_byte content f n (4096 * k + off + i)"
      using load_block_byte [OF B D(1) b, of TEMP "off + i"] i off by simp
  qed
  finally have copy: "copy_out TEMP (int off) (int c) buff x ?f1 =
      Some (buff\<lparr>rbyte := blit (rbyte buff) q c (\<lambda>i. file_byte content f n (4096 * k + off + i))\<rparr>)" .
  have "read_direct B (int n) (int k) (int off) buff x f = read_direct B (int n) (int (k + 1)) 0
       (buff\<lparr>rbyte := blit (rbyte buff) q c (\<lambda>i. file_byte content f n (4096 * k + off + i))\<rparr>) (advance (int c) x) ?f1"
    using k D(2) x(2) c0 copy
    by (subst read_direct.simps) (simp add: inode_sec_in c [symmetric] s load_a_data_block_def add.commute)
  then show ?thesis by (intro that [of ?f1]) simp_all
qed

lemma read_direct_result:
  assumes "fs_card B content" "file_ok f n" "at x = int q" "left x = int l" "q + l \<le> rsize buff"
    and "off < 4096" "k \<le> 7" "4096 * k + off + l \<le> 28672"
    and "\<And>i. i < l \<Longrightarrow> has_block f n ((4096 * k + off + i) div 4096)"
  shows "\<exists>num o' x' f'. read_direct B (int n) (int k) (int off) buff x f = Some (num, o',
      buff\<lparr>rbyte := blit (rbyte buff) q l (\<lambda>i. file_byte content f n (4096 * k + off + i))\<rparr>, x', f')
      \<and> left x' = 0 \<and> read_frame f f'"
  using assms(2-)
proof (induction "7 - k" arbitrary: k off x q l f buff)
  case 0
  then have "l = 0" "k = 7" by auto
  then show ?case using 0 by (subst read_direct.simps) simp
next
  case (Suc d)
  show ?case
  proof (cases "l = 0")
    case True
    then show ?thesis using Suc.prems by (subst read_direct.simps) simp
  next
    case False
    define c where "c = min (4096 - off) l"
    have c: "off + c \<le> 4096" "c \<le> l" "0 < c" using Suc.prems False by (auto simp: c_def)
    have cm: "int c = min_int (BLOCK_SIZE - int off) (left x)"
      using Suc.prems by (auto simp: c_def min_int_def BLOCK_SIZE_def)
    have k: "k < 7" using Suc.hyps(2) by linarith
    have lx: "left x > 0" "q + c \<le> rsize buff" using Suc.prems(3,4) c False by auto
    have "(4096 * k + off + 0) div 4096 = k" using div_in_block [of off 0 k] Suc.prems(5) by simp
    then have has: "has_block f n k" using Suc.prems(8) [of 0] False by simp
    let ?p = "4096 * k + off"
    let ?buff = "buff\<lparr>rbyte := blit (rbyte buff) q c (\<lambda>i. file_byte content f n (?p + i))\<rparr>"
    obtain f1 where fr: "read_frame f f1"
      and eq: "read_direct B (int n) (int k) (int off) buff x f = read_direct B (int n) (int (k + 1)) 0 ?buff (advance (int c) x) f1"
      by (rule read_turn [OF assms(1) Suc.prems(1) k c(1) Suc.prems(5) has Suc.prems(2) lx c(3) cm])
    have e1: "c < l \<Longrightarrow> ?p + c = 4096 * (k + 1)" using Suc.prems by (auto simp: c_def min_def)
    have shift: "4096 * (k + 1) + i = ?p + (c + i)" if "i < l - c" for i using e1 that by simp
    have "\<exists>num o' x' f'. read_direct B (int n) (int (k + 1)) (int 0) ?buff (advance (int c) x) f1 = Some (num, o',
      ?buff\<lparr>rbyte := blit (rbyte ?buff) (q + c) (l - c) (\<lambda>i. file_byte content f1 n (4096 * (k + 1) + 0 + i))\<rparr>, x', f')
      \<and> left x' = 0 \<and> read_frame f1 f'"
    proof (rule Suc.hyps(1))
      show "d = 7 - (k + 1)" using Suc.hyps(2) by simp
      show "file_ok f1 n" using read_frame_file [OF fr] Suc.prems(1) by simp
      show "at (advance (int c) x) = int (q + c)" "left (advance (int c) x) = int (l - c)"
        using Suc.prems c by (simp_all add: advance_def of_nat_diff)
      show "q + c + (l - c) \<le> rsize ?buff" using Suc.prems c by simp
      show "(0 :: nat) < 4096" "k + 1 \<le> 7" using k by auto
      show "4096 * (k + 1) + 0 + (l - c) \<le> 28672" using Suc.prems k by (auto simp: c_def min_def)
    next
      fix i assume i: "i < l - c"
      have "has_block f n ((?p + (c + i)) div 4096)" by (rule Suc.prems(8)) (use i in linarith)
      then show "has_block f1 n ((4096 * (k + 1) + 0 + i) div 4096)"
        using read_frame_file(2) [OF fr] by (simp only: add_0_right shift [OF i])
    qed
    then obtain num o' x' f' where r: "read_direct B (int n) (int k) (int off) buff x f = Some (num, o',
      ?buff\<lparr>rbyte := blit (rbyte ?buff) (q + c) (l - c) (\<lambda>i. file_byte content f1 n (4096 * (k + 1) + i))\<rparr>, x', f')"
      "left x' = 0" "read_frame f1 f'" using eq by auto
    have "blit (rbyte ?buff) (q + c) (l - c) (\<lambda>i. file_byte content f1 n (4096 * (k + 1) + i)) =
        blit (rbyte ?buff) (q + c) (l - c) (\<lambda>i. file_byte content f n (?p + (c + i)))"
      by (rule blit_cong) (simp only: shift read_frame_file(3) [OF fr])
    also have "\<dots> = blit (rbyte buff) q l (\<lambda>i. file_byte content f n (?p + i))"
      using c(2) by (auto simp: blit_def fun_eq_iff)
    finally show ?thesis using r read_frame_trans [OF fr] by auto
  qed
qed

section \<open>Sizes of the directories above a file\<close>

text \<open>\<open>ancestors f it ns\<close>: the parent pointers lead from \<open>it\<close> through \<open>ns\<close> to the end mark -1.\<close>

fun ancestors :: "'d fs \<Rightarrow> int \<Rightarrow> nat list \<Rightarrow> bool" where
  "ancestors f it [] \<longleftrightarrow> it = -1"
| "ancestors f it (n # ns) \<longleftrightarrow> it = int n \<and> n < INODE_NUM \<and> ancestors f (sint (i_parent (inodes f n))) ns"

lemma ancestors_unique: "ancestors f it xs \<Longrightarrow> ancestors f it ys \<Longrightarrow> xs = ys"
proof (induction xs arbitrary: it ys)
  case Nil
  then show ?case by (cases ys) auto
next
  case (Cons x xs)
  then show ?case by (cases ys) auto
qed

lemma ancestors_suffix: "ancestors f it (xs @ n # ys) \<Longrightarrow> ancestors f (int n) (n # ys)"
  by (induction xs arbitrary: it) auto

lemma ancestors_distinct: "ancestors f it ns \<Longrightarrow> distinct ns"
proof (induction ns arbitrary: it)
  case (Cons n ns)
  have "n \<notin> set ns"
  proof
    assume "n \<in> set ns"
    then obtain as bs where ns: "ns = as @ n # bs" by (auto simp: in_set_conv_decomp)
    then have "ancestors f (int n) (n # bs)" "ancestors f (int n) (n # ns)"
      using Cons.prems ancestors_suffix [of f it "n # as" n bs] by auto
    then have "n # bs = n # ns" by (rule ancestors_unique)
    then show False using ns by simp
  qed
  then show ?case using Cons by auto
qed simp

lemma ancestors_cong:
  "ancestors f it ns \<Longrightarrow> (\<And>m. i_parent (inodes f' m) = i_parent (inodes f m)) \<Longrightarrow> ancestors f' it ns"
  by (induction ns arbitrary: it) auto

definition add_sizes :: "u32 \<Rightarrow> nat set \<Rightarrow> 'd fs \<Rightarrow> 'd fs" where
  "add_sizes d N f = f\<lparr>inodes := (\<lambda>m. if m \<in> N then (inodes f m)\<lparr>i_size := i_size (inodes f m) + d\<rparr> else inodes f m)\<rparr>"

lemma propagate_size_result:
  "ancestors f it ns \<Longrightarrow> propagate_size d it f = Some (add_sizes d (set ns) f)"
proof (induction ns arbitrary: it f)
  case Nil
  then show ?case by (subst propagate_size.simps) (simp add: add_sizes_def)
next
  case (Cons n ns)
  let ?f = "upd_inode n (\<lambda>e. e\<lparr>i_size := i_size e + d\<rparr>) f"
  have n: "it = int n" "n < INODE_NUM" and anc: "ancestors f (sint (i_parent (inodes f n))) ns" and nin: "n \<notin> set ns"
    using Cons.prems ancestors_distinct [OF Cons.prems] by auto
  have "propagate_size d it f = propagate_size d (sint (i_parent (inodes f n))) ?f"
    using n by (subst propagate_size.simps) simp
  also have "\<dots> = Some (add_sizes d (set ns) ?f)"
    by (rule Cons.IH) (rule ancestors_cong [OF anc], simp)
  also have "add_sizes d (set ns) ?f = add_sizes d (set (n # ns)) f"
    using nin by (simp add: add_sizes_def upd_inode_def fun_eq_iff)
  finally show ?case .
qed

end
