(* ===== verification/FsFileOps.thy ===== *)
theory FsFileOps
  imports FsRw
begin

text \<open>
  \<open>do_write\<close>, \<open>do_lseek\<close> and \<open>do_read\<close> on the direct part of a file (its first 28672 bytes),
  by way of the loops of FsRw.
\<close>

lemma upd_fdesc_simps [simp]:
  "superblock (upd_fdesc k g f) = superblock f" "inodes (upd_fdesc k g f) = inodes f"
  "inode_map (upd_fdesc k g f) = inode_map f" "block_map (upd_fdesc k g f) = block_map f"
  "bufs (upd_fdesc k g f) = bufs f" "card (upd_fdesc k g f) = card f"
  "fdesc_array (upd_fdesc k g f) = (fdesc_array f)(k := g (fdesc_array f k))"
  by (simp_all add: upd_fdesc_def)

lemma add_sizes_simps [simp]:
  "superblock (add_sizes d N f) = superblock f" "inode_map (add_sizes d N f) = inode_map f"
  "block_map (add_sizes d N f) = block_map f" "bufs (add_sizes d N f) = bufs f"
  "card (add_sizes d N f) = card f" "fdesc_array (add_sizes d N f) = fdesc_array f"
  "i_sec (inodes (add_sizes d N f) m) = i_sec (inodes f m)"
  "i_parent (inodes (add_sizes d N f) m) = i_parent (inodes f m)"
  "i_size (inodes (add_sizes d N f) m) = (if m \<in> N then i_size (inodes f m) + d else i_size (inodes f m))"
  by (simp_all add: add_sizes_def)

text \<open>Facts about a file that do not depend on descriptors and sizes.\<close>

definition same_blocks :: "('d \<Rightarrow> nat \<Rightarrow> u8) \<Rightarrow> 'd fs \<Rightarrow> nat \<Rightarrow> 'd fs \<Rightarrow> bool" where
  "same_blocks content f n f' \<longleftrightarrow> superblock f' = superblock f \<and> block_map f' = block_map f
     \<and> bufs f' = bufs f \<and> i_sec (inodes f' n) = i_sec (inodes f n)
     \<and> (\<forall>b p. disk_block content f' b p = disk_block content f b p)"

lemma same_blocks_file:
  assumes "same_blocks content f n f'"
  shows "file_ok f' n = file_ok f n" "has_block f' n = has_block f n"
    "file_byte content f' n = file_byte content f n"
  using assms by (auto simp: same_blocks_def file_ok_def has_block_def file_byte_def block_byte_def fun_eq_iff)

lemma position_split: "sint_o = int o' \<Longrightarrow> sint_o sdiv BLOCK_SIZE = int (o' div 4096) \<and> sint_o smod BLOCK_SIZE = int (o' mod 4096)"
  by (simp add: BLOCK_SIZE_def sdiv_pos smod_pos zdiv_int zmod_int)

text \<open>How a write grows the size of the file and of the directories above it.\<close>

definition growth :: "'d fs \<Rightarrow> nat \<Rightarrow> nat \<Rightarrow> u32" where
  "growth f n e = (if of_nat e > i_size (inodes f n) then of_nat e - i_size (inodes f n) else 0)"

lemma do_write_direct:
  assumes B: "fs_card B content" and k: "k < NUM_FDESCS" and ok: "file_ok f n"
    and fd: "fd_inode_num (fdesc_array f k) = int n" "fd_offset (fdesc_array f k) = int p"
    and l: "p + l \<le> 28672" "l \<le> rsize buff"
    and free: "7 - p div 4096 \<le> Finite_Set.card (block_alloc.free_set f)"
    and anc: "ancestors f (int n) ns"
  shows "\<exists>f'. do_write B (int k) buff (int l) f = Some (int l, f') \<and> file_ok f' n \<and> ancestors f' (int n) ns
    \<and> (\<forall>i < l. has_block f' n ((p + i) div 4096) \<and> file_byte content f' n (p + i) = rbyte buff i)
    \<and> (\<forall>r < 28672. has_block f n (r div 4096) \<longrightarrow> has_block f' n (r div 4096)
         \<and> (\<not> (p \<le> r \<and> r < p + l) \<longrightarrow> file_byte content f' n r = file_byte content f n r))
    \<and> (\<forall>m. i_size (inodes f' m) = (if m \<in> set ns then i_size (inodes f m) + growth f n (p + l) else i_size (inodes f m)))
    \<and> fdesc_array f' = (fdesc_array f)(k := (fdesc_array f k)\<lparr>fd_offset := int (p + l)\<rparr>)"
proof -
  have split: "4096 * (p div 4096) + p mod 4096 = p" by simp
  have "\<exists>num o' x' f1. write_direct B (int n) (int (p div 4096)) (int (p mod 4096)) buff \<lparr>left = int l, at = 0\<rparr> f
      = Some (num, o', x', f1) \<and> left x' = 0
      \<and> written content f n (4096 * (p div 4096) + p mod 4096) l (\<lambda>i. rbyte buff (0 + i)) f1"
    by (rule write_direct_result [OF B ok]) (use l free in auto)
  then obtain num o' x' f1 where w: "write_direct B (int n) (int (p div 4096)) (int (p mod 4096)) buff
      \<lparr>left = int l, at = 0\<rparr> f = Some (num, o', x', f1)" "left x' = 0"
    and f1: "written content f n p l (rbyte buff) f1" unfolding split by auto
  have fr: "file_frame f n f1" and ok1: "file_ok f1 n" using f1 by (simp_all add: written_def)
  have same1: "i_size (inodes f1 m) = i_size (inodes f m)" "i_parent (inodes f1 m) = i_parent (inodes f m)" for m
    using fr by (cases "m = n"; force simp: file_frame_def)+
  have fd1: "fdesc_array f1 = fdesc_array f" using fr by (simp add: file_frame_def)
  note D1 = file_okD [OF ok1]
  define e where "e = p + l"
  define f3 where "f3 = (if (of_nat e :: u32) > i_size (inodes f1 n)
      then add_sizes (of_nat e - i_size (inodes f1 n)) (set ns) f1 else f1)"
  have anc1: "ancestors f1 (int n) ns" by (rule ancestors_cong [OF anc]) (simp add: same1)
  have spread: "(if (of_nat e :: u32) > i_size (inodes f1 n)
      then propagate_size (of_nat e - i_size (inodes f1 n)) (int n) f1 else Some f1) = Some f3"
    by (simp add: f3_def propagate_size_result [OF anc1])
  define f4 where "f4 = upd_fdesc k (\<lambda>d. d\<lparr>fd_offset := int e\<rparr>) f3"
  define f' where "f' = store_inodes B (store_block_map B f4)"
  have pl: "of_nat p + of_nat l = (of_nat e :: u32)" by (simp add: e_def)
  have upd: "upd_fdesc k (\<lambda>d. d\<lparr>fd_offset := int_add (fd_offset d) (int l)\<rparr>) f3 = f4"
    using fd(2) fd1 l(1) by (simp add: f4_def upd_fdesc_def f3_def e_def int_add_small)
  have "do_write B (int k) buff (int l) f = Some (int l, f')"
    using k w spread D1(2) position_split [OF fd(2)]
    by (auto simp: do_write_def fd pl Let_def upd f'_def split: if_splits)
  moreover have sz: "i_size (inodes f' m) = (if m \<in> set ns then i_size (inodes f m) + growth f n (p + l) else i_size (inodes f m))" for m
    by (simp add: f'_def f4_def f3_def same1 growth_def e_def)
  moreover have "fdesc_array f' = (fdesc_array f)(k := (fdesc_array f k)\<lparr>fd_offset := int (p + l)\<rparr>)"
    by (simp add: f'_def f4_def f3_def fd1 e_def)
  moreover have "ancestors f' (int n) ns"
    by (rule ancestors_cong [OF anc]) (simp add: f'_def f4_def f3_def same1)
  moreover have sb: "same_blocks content f1 n f'"
  proof -
    have s4: "superblock f4 = mkfs_superblock" "superblock (store_block_map B f4) = mkfs_superblock"
      using D1(1) by (simp_all add: f4_def f3_def)
    have "disk_block content f' b q = disk_block content f1 b q" for b q
      using disk_block_tables(1) [OF B s4(2)] disk_block_tables(2) [OF B s4(1)]
      by (simp add: f'_def) (simp add: disk_block_def f4_def f3_def)
    then show ?thesis by (simp add: same_blocks_def f'_def f4_def f3_def)
  qed
  ultimately show ?thesis
    using f1 ok1 unfolding written_def same_blocks_file [OF sb, symmetric] by blast
qed

text \<open>A read delivers what there is between the offset and the end of the file.\<close>

lemma do_read_direct:
  assumes B: "fs_card B content" and k: "k < NUM_FDESCS" and ok: "file_ok f n"
    and fd: "fd_inode_num (fdesc_array f k) = int n" "fd_offset (fdesc_array f k) = int p"
    and s: "unat (i_size (inodes f n)) = s" "s \<le> 28672" "p \<le> s"
    and r: "r = min l (s - p)" "r \<le> rsize buff" "l < 2147483648"
    and has: "\<And>i. i < r \<Longrightarrow> has_block f n ((p + i) div 4096)"
  shows "\<exists>f'. do_read B (int k) buff (int l) f =
      Some (int r, buff\<lparr>rbyte := blit (rbyte buff) 0 r (\<lambda>i. file_byte content f n (p + i))\<rparr>, f')
    \<and> fdesc_array f' = (fdesc_array f)(k := (fdesc_array f k)\<lparr>fd_offset := int (p + r)\<rparr>)
    \<and> inodes f' = inodes f \<and> card f' = card f"
proof -
  have split: "4096 * (p div 4096) + p mod 4096 = p" by simp
  note D = file_okD [OF ok]
  define rest :: u32 where "rest = i_size (inodes f n) - word_of_int (int p)"
  have up: "unat (of_nat p :: u32) = p" "unat (of_nat l :: u32) = l" using s r(3) by (simp_all add: unat_of_nat)
  have rest: "unat rest = s - p" using s up by (simp add: rest_def unat_sub_if_size)
  have "rest = word_of_int (int (s - p))" using rest by (simp flip: rest)
  then have srest: "sint rest = int (s - p)" using sint_small [of "int (s - p)"] s by simp
  have len: "read_length rest (int l) = int r"
  proof (cases "s - p \<le> l")
    case True
    then have "(word_of_int (int l) :: u32) \<ge> rest" using up rest by (simp add: word_le_nat_alt)
    moreover have "rest > 0 \<longleftrightarrow> s - p \<noteq> 0" using rest by (simp add: word_gt_0 unat_eq_0 [symmetric])
    ultimately show ?thesis using True srest r(1) by (simp add: read_length_def)
  next
    case False
    then have "\<not> (word_of_int (int l) :: u32) \<ge> rest" using up rest by (simp add: word_le_nat_alt)
    then show ?thesis using False r(1) by (simp add: read_length_def)
  qed
  have pr: "p + r \<le> 28672" using s r by auto
  have "\<exists>num o' x' f1. read_direct B (int n) (int (p div 4096)) (int (p mod 4096)) buff \<lparr>left = int r, at = 0\<rparr> f
      = Some (num, o', buff\<lparr>rbyte := blit (rbyte buff) 0 r (\<lambda>i. file_byte content f n (4096 * (p div 4096) + p mod 4096 + i))\<rparr>, x', f1)
      \<and> left x' = 0 \<and> read_frame f f1"
    by (rule read_direct_result [OF B ok]) (use pr r(2) has split in auto)
  then obtain num o' x' f1 where rd: "read_direct B (int n) (int (p div 4096)) (int (p mod 4096)) buff \<lparr>left = int r, at = 0\<rparr> f
      = Some (num, o', buff\<lparr>rbyte := blit (rbyte buff) 0 r (\<lambda>i. file_byte content f n (p + i))\<rparr>, x', f1)"
    "left x' = 0" and fr: "read_frame f f1" unfolding split by blast
  define f2 where "f2 = load_a_data_block_to B (sint (i_sec (inodes f1 n) 7)) TEMP f1"
  have fr2: "read_frame f f2" unfolding f2_def by (rule read_frame_trans [OF fr]) simp
  have ind: "read_indirect B i j q b x' f2 = Some (b, f2)" for i j q b
    using rd(2) by (subst read_indirect.simps) simp
  have sec7: "inode_sec (int n) 7 f1 = Some (i_sec (inodes f1 n) 7)"
    using inode_sec_in [OF D(2), of 7 f1] by simp
  have len': "read_length (i_size (inodes f n) - word_of_nat p) (int l) = int r" using len by (simp add: rest_def)
  have "do_read B (int k) buff (int l) f =
      Some (int r, buff\<lparr>rbyte := blit (rbyte buff) 0 r (\<lambda>i. file_byte content f n (p + i))\<rparr>,
        upd_fdesc k (\<lambda>d. d\<lparr>fd_offset := int_add (fd_offset d) (int r)\<rparr>) f2)"
    unfolding do_read_def using k rd position_split [OF fd(2)] D(2) sec7 ind
    by (simp add: fd Let_def len' f2_def)
  moreover have "fdesc_array f2 = fdesc_array f" "inodes f2 = inodes f" "card f2 = card f" using fr2 by (simp_all add: read_frame_def)
  ultimately show ?thesis using fd(2) pr by (simp add: upd_fdesc_def int_add_small)
qed

lemma do_lseek_set:
  "k < NUM_FDESCS \<Longrightarrow> do_lseek (int k) p SEEK_SET f = Some (0, upd_fdesc k (\<lambda>d. d\<lparr>fd_offset := p\<rparr>) f)"
  by (simp add: do_lseek_def)

end
