(* ===== verification/FsIndirect.thy ===== *)
theory FsIndirect
  imports FsMount FsFileOps
begin

text \<open>
  Writing behind the direct blocks. Each turn of \<open>write_indirect\<close> loads the second-level
  pointer block from the card again, while the pointer that the turn before has entered is
  only in memory: the lemmas follow a write of two blocks, after which the first is lost.
\<close>

section \<open>Pointers\<close>

definition ptr_of :: "(nat \<Rightarrow> u8) \<Rightarrow> nat \<Rightarrow> u32" where
  "ptr_of bs i = le32 (\<lambda>b. bs (4 * i + b))"

definition disk_ptr :: "('d \<Rightarrow> nat \<Rightarrow> u8) \<Rightarrow> 'd fs \<Rightarrow> nat \<Rightarrow> nat \<Rightarrow> u32" where
  "disk_ptr content f b = ptr_of (disk_block content f b)"

lemma ptr_of_cong: "(\<And>b. b < 4 \<Longrightarrow> bs (4 * i + b) = cs (4 * i + b)) \<Longrightarrow> ptr_of bs i = ptr_of cs i"
  unfolding ptr_of_def by (rule le32_cong)

lemma ptr_of_zero: "(\<And>p. p < 4096 \<Longrightarrow> bs p = 0) \<Longrightarrow> i < 1024 \<Longrightarrow> ptr_of bs i = 0"
  unfolding ptr_of_def by (rule le32_bytes) (simp add: byte_of_def)

lemma get_ptr_eq: "4 * i + 4 \<le> rsize (bufs f b) \<Longrightarrow> get_ptr b (int i) f = Some (ptr_of (rbyte (bufs f b)) i)"
  by (simp add: get_ptr_def byte_offset_def get32_def ptr_of_def nat_mult_distrib)

lemma set_ptr_eq:
  assumes "4 * i + 4 \<le> rsize (bufs f b)"
  obtains r where "set_ptr b (int i) v f = Some (set_buf b r f)" "rsize r = rsize (bufs f b)"
    "\<And>j. ptr_of (rbyte r) j = (if j = i then word_of_int v else ptr_of (rbyte (bufs f b)) j)"
proof -
  let ?r = "(bufs f b)\<lparr>rbyte := blit (rbyte (bufs f b)) (4 * i) 4 (byte_of (word_of_int v :: u32))\<rparr>"
  have "set_ptr b (int i) v f = Some (set_buf b ?r f)"
    using assms by (simp add: set_ptr_def byte_offset_def set32_def nat_mult_distrib)
  moreover have "ptr_of (rbyte ?r) j = (if j = i then word_of_int v else ptr_of (rbyte (bufs f b)) j)" for j
  proof (cases "j = i")
    case True
    then show ?thesis unfolding ptr_of_def by (simp add: blit_def le32_bytes)
  next
    case False
    then have "j < i \<or> i < j" by auto
    then have "ptr_of (rbyte ?r) j = ptr_of (rbyte (bufs f b)) j" by (intro ptr_of_cong) (auto simp: blit_def)
    then show ?thesis using False by simp
  qed
  ultimately show ?thesis by (intro that [of ?r]) simp_all
qed

lemma new_block:
  assumes "block_alloc.free_set f \<noteq> {}"
  obtains b where "get_free_block f = (int b, f\<lparr>block_map := (block_map f)(b := 1)\<rparr>)"
    "b \<in> block_alloc.free_set f" "b < BLOCK_MAP_SIZE" "block_map f b = 0"
proof (cases rule: block_alloc.alloc_cases [of f])
  case full
  then show ?thesis using assms by simp
next
  case (some b f')
  then have "get_free_block f = (int b, f\<lparr>block_map := (block_map f)(b := 1)\<rparr>)"
    by (auto simp: get_free_block_def split: option.splits)
  then show ?thesis using some(1) by (intro that) (auto simp: block_alloc.free_set_def)
qed

section \<open>One turn\<close>

text \<open>The blocks that are not marked as used have no content yet.\<close>

definition blank :: "('d \<Rightarrow> nat \<Rightarrow> u8) \<Rightarrow> 'd fs \<Rightarrow> bool" where
  "blank content f \<longleftrightarrow> (\<forall>b < BLOCK_MAP_SIZE. block_map f b = 0 \<longrightarrow> (\<forall>p < 4096. disk_block content f b p = 0))"

definition ind_ok :: "'d fs \<Rightarrow> bool" where
  "ind_ok f \<longleftrightarrow> superblock f = mkfs_superblock \<and> block_map f 0 \<noteq> 0
     \<and> 4096 \<le> rsize (bufs f TEMP) \<and> 4096 \<le> rsize (bufs f TEMP2) \<and> 4096 \<le> rsize (bufs f TEMP3)"

definition ind_frame :: "'d fs \<Rightarrow> 'd fs \<Rightarrow> bool" where
  "ind_frame f f' \<longleftrightarrow> inodes f' = inodes f \<and> fdesc_array f' = fdesc_array f"

text \<open>The data part of a turn: a new data block for pointer \<open>j\<close> of the second level in \<open>TEMP2\<close>.\<close>

lemma write_data:
  assumes B: "fs_card B content" and ok: "ind_ok f" and bl: "blank content f" and j: "j < 1024"
    and hole: "ptr_of (rbyte (bufs f TEMP2)) j = 0" and free: "block_alloc.free_set f \<noteq> {}"
    and x: "at x = int q" "q + 4096 \<le> rsize buff"
  obtains f3 a f4 where
    "(let (blk, f') = get_free_block f in do { f' \<leftarrow> set_ptr TEMP2 (int j) blk f'; clear_buf TEMP3 f' }) = Some f3"
    "a \<in> block_alloc.free_set f" "a < BLOCK_MAP_SIZE" "a \<noteq> 0"
    "copy_in TEMP3 0 4096 buff x f3 = Some f4" "ind_ok f4" "ind_frame f f4" "bufs f4 TEMP = bufs f TEMP"
    "\<And>i. ptr_of (rbyte (bufs f4 TEMP2)) i = (if i = j then of_nat a else ptr_of (rbyte (bufs f TEMP2)) i)"
    "block_map f4 = (block_map f)(a := 1)" "card f4 = card f"
proof -
  obtain a where a: "get_free_block f = (int a, f\<lparr>block_map := (block_map f)(a := 1)\<rparr>)"
    "a \<in> block_alloc.free_set f" "a < BLOCK_MAP_SIZE" "block_map f a = 0" by (rule new_block [OF free])
  have a0: "a \<noteq> 0" using a(4) ok unfolding ind_ok_def by metis
  let ?f1 = "f\<lparr>block_map := (block_map f)(a := 1)\<rparr>"
  have t2: "4 * j + 4 \<le> rsize (bufs ?f1 TEMP2)" using ok j by (simp add: ind_ok_def)
  obtain r where r0: "set_ptr TEMP2 (int j) (int a) ?f1 = Some (set_buf TEMP2 r ?f1)" "rsize r = rsize (bufs ?f1 TEMP2)"
    "\<And>i. ptr_of (rbyte r) i = (if i = j then word_of_int (int a) else ptr_of (rbyte (bufs ?f1 TEMP2)) i)"
    by (rule set_ptr_eq [OF t2, of "int a"]) (rule that)
  note r = r0 [simplified]
  let ?f2 = "set_buf TEMP2 r ?f1"
  have t3: "4096 \<le> rsize (bufs ?f2 TEMP3)" using ok by (simp add: ind_ok_def)
  note cl = clear_buf_result [OF t3]
  define f3 where "f3 = set_buf TEMP3 ((bufs ?f2 TEMP3)\<lparr>rbyte := blit (rbyte (bufs ?f2 TEMP3)) 0 4096 (\<lambda>_. 0)\<rparr>) ?f2"
  have alloc: "(let (blk, f') = get_free_block f in do { f' \<leftarrow> set_ptr TEMP2 (int j) blk f'; clear_buf TEMP3 f' }) = Some f3"
    using a(1) r(1) cl by (simp add: f3_def)
  let ?b4 = "(bufs f3 TEMP3)\<lparr>rbyte := blit (rbyte (bufs f3 TEMP3)) 0 4096 (\<lambda>i. rbyte buff (q + i))\<rparr>"
  have copy: "copy_in TEMP3 0 4096 buff x f3 = Some (set_buf TEMP3 ?b4 f3)"
    using copy_in_eq [of 0 4096 f3 TEMP3 q buff x] x ok by (simp add: f3_def ind_ok_def)
  show ?thesis
    by (rule that [OF alloc a(2,3) a0 copy])
      (use ok r in \<open>simp_all add: ind_ok_def ind_frame_def f3_def\<close>)
qed

text \<open>Storing a data block does not reach other blocks.\<close>

lemma blank_alloc:
  "blank content f \<Longrightarrow> block_map f' = (block_map f)(a := 1) \<Longrightarrow>
   (\<And>b p. b < BLOCK_MAP_SIZE \<Longrightarrow> p < 4096 \<Longrightarrow> b \<noteq> a \<Longrightarrow> disk_block content f' b p = disk_block content f b p) \<Longrightarrow>
   blank content f'"
  unfolding blank_def by (metis (no_types, lifting) fun_upd_apply zero_neq_one)

lemma free_set_alloc:
  "block_map f' = (block_map f)(a := 1) \<Longrightarrow> block_alloc.free_set f' = block_alloc.free_set f - {a}"
  by (auto simp: block_alloc.free_set_def)

lemma sint_nat_block: "b < BLOCK_MAP_SIZE \<Longrightarrow> sint (of_nat b :: u32) = int b"
  using sint_small [of "int b"] by (simp add: BLOCK_MAP_SIZE_eq)

lemma of_nat_block_nz: "b < BLOCK_MAP_SIZE \<Longrightarrow> b \<noteq> 0 \<Longrightarrow> (of_nat b :: u32) \<noteq> 0"
  using block_word [of b] by auto

lemma first_turn:
  assumes B: "fs_card B content" and ok: "ind_ok f" and bl: "blank content f"
    and hole: "ptr_of (rbyte (bufs f TEMP)) 0 = 0" and free: "2 \<le> Finite_Set.card (block_alloc.free_set f)"
    and x: "at x = int q" "left x = 8192" "q + 4096 \<le> rsize buff"
  obtains f' y where "write_indirect B 0 0 0 buff x f = write_indirect B 0 1 0 buff (advance 4096 x) f'"
    "ind_ok f'" "ind_frame f f'" "y \<in> block_alloc.free_set f" "y < BLOCK_MAP_SIZE" "y \<noteq> 0"
    "\<And>i. ptr_of (rbyte (bufs f' TEMP)) i = (if i = 0 then of_nat y else ptr_of (rbyte (bufs f TEMP)) i)"
    "\<And>p. p < 4096 \<Longrightarrow> disk_block content f' y p = 0" "blank content f'"
    "Finite_Set.card (block_alloc.free_set f') = Finite_Set.card (block_alloc.free_set f) - 2"
    "\<And>b. block_map f b \<noteq> 0 \<Longrightarrow> block_map f' b \<noteq> 0" "block_map f' y \<noteq> 0"
proof -
  have ne: "block_alloc.free_set f \<noteq> {}" using free by auto
  obtain y where y: "get_free_block f = (int y, f\<lparr>block_map := (block_map f)(y := 1)\<rparr>)"
    "y \<in> block_alloc.free_set f" "y < BLOCK_MAP_SIZE" "block_map f y = 0" by (rule new_block [OF ne])
  have y0: "y \<noteq> 0" using y(4) ok unfolding ind_ok_def by metis
  let ?f1 = "f\<lparr>block_map := (block_map f)(y := 1)\<rparr>"
  have t: "4 * 0 + 4 \<le> rsize (bufs ?f1 TEMP)" using ok by (simp add: ind_ok_def)
  obtain r where r0: "set_ptr TEMP (int 0) (int y) ?f1 = Some (set_buf TEMP r ?f1)" "rsize r = rsize (bufs ?f1 TEMP)"
    "\<And>i. ptr_of (rbyte r) i = (if i = 0 then word_of_int (int y) else ptr_of (rbyte (bufs ?f1 TEMP)) i)"
    by (rule set_ptr_eq [OF t, of "int y"]) (rule that)
  note r = r0 [simplified]
  let ?f2 = "set_buf TEMP r ?f1"
  have t2: "4096 \<le> rsize (bufs ?f2 TEMP2)" using ok by (simp add: ind_ok_def)
  define f2 where "f2 = set_buf TEMP2 ((bufs ?f2 TEMP2)\<lparr>rbyte := blit (rbyte (bufs ?f2 TEMP2)) 0 4096 (\<lambda>_. 0)\<rparr>) ?f2"
  have cl: "clear_buf TEMP2 ?f2 = Some f2" using clear_buf_result [OF t2] by (simp add: f2_def)
  have ok2: "ind_ok f2" using ok r(2) by (simp add: ind_ok_def f2_def)
  have bm2: "block_map f2 = (block_map f)(y := 1)" by (simp add: f2_def)
  have db2: "disk_block content f2 = disk_block content f" by (simp add: disk_block_def f2_def fun_eq_iff)
  have bl2: "blank content f2" by (rule blank_alloc [OF bl bm2]) (simp add: db2)
  have fs2: "block_alloc.free_set f2 = block_alloc.free_set f - {y}" by (rule free_set_alloc [OF bm2])
  have c2: "Finite_Set.card (block_alloc.free_set f2) = Finite_Set.card (block_alloc.free_set f) - 1"
    using y(2) by (simp add: fs2)
  then have ne2: "block_alloc.free_set f2 \<noteq> {}" using free by (metis card.empty diff_is_0_eq not_less_eq_eq numeral_2_eq_2 One_nat_def)
  have hole2: "ptr_of (rbyte (bufs f2 TEMP2)) 0 = 0" by (rule ptr_of_zero) (simp_all add: f2_def blit_def)
  obtain f3 a f4 where wd:
    "(let (blk, f') = get_free_block f2 in do { f' \<leftarrow> set_ptr TEMP2 (int 0) blk f'; clear_buf TEMP3 f' }) = Some f3"
    "a \<in> block_alloc.free_set f2" "a < BLOCK_MAP_SIZE" "a \<noteq> 0"
    "copy_in TEMP3 0 4096 buff x f3 = Some f4" "ind_ok f4" "ind_frame f2 f4" "bufs f4 TEMP = bufs f2 TEMP"
    "\<And>i. ptr_of (rbyte (bufs f4 TEMP2)) i = (if i = 0 then of_nat a else ptr_of (rbyte (bufs f2 TEMP2)) i)"
    "block_map f4 = (block_map f2)(a := 1)" "card f4 = card f2"
    by (rule write_data [OF B ok2 bl2 _ hole2 ne2 x(1,3)]) simp_all
  have ay: "a \<noteq> y" using wd(2) by (simp add: fs2)
  define f5 where "f5 = store_a_data_block_from B (int a) TEMP3 f4"
  have sz4: "4 * 0 + 4 \<le> rsize (bufs f4 TEMP2)" "4 * 0 + 4 \<le> rsize (bufs f5 TEMP)" "4 * 0 + 4 \<le> rsize (bufs f TEMP)"
    "4 * 0 + 4 \<le> rsize (bufs f2 TEMP2)"
    using wd(6) ok ok2 by (simp_all add: ind_ok_def f5_def)
  have q2: "get_ptr TEMP2 0 f4 = Some (of_nat a)" using get_ptr_eq [OF sz4(1)] wd(9) [of 0] by simp
  have t5: "bufs f5 TEMP = r" using wd(8) by (simp add: f5_def f2_def)
  have q1: "get_ptr TEMP 0 f5 = Some (of_nat y)" using get_ptr_eq [OF sz4(2)] r(3) [of 0] by (simp add: t5)
  have p1: "get_ptr TEMP 0 f = Some 0" using get_ptr_eq [OF sz4(3)] hole by simp
  have p2: "get_ptr TEMP2 0 f2 = Some 0" using get_ptr_eq [OF sz4(4)] hole2 by simp
  have step: "write_indirect B 0 0 0 buff x f = write_indirect B 0 1 0 buff (advance 4096 x) f5"
    using x(2) p1 y(1) r(1) cl p2 wd(1,5) q2 q1
    by (subst write_indirect.simps)
      (simp add: min_int_def BLOCK_SIZE_def INDIRECT_SIZE_def sint_nat_block [OF wd(3)] f5_def)
  have sb4: "superblock f4 = mkfs_superblock" using wd(6) by (simp add: ind_ok_def)
  have db5: "disk_block content f5 b p = disk_block content f b p" if "p < 4096" "b \<noteq> a" for b p
    using disk_block_store [OF B sb4 wd(3) that(1), of TEMP3 b] that wd(11) db2
    by (simp add: f5_def disk_block_def f2_def)
  have bm5: "block_map f5 = (block_map f2)(a := 1)" by (simp add: f5_def wd(10))
  have "blank content f5" by (rule blank_alloc [OF bl2 bm5]) (simp add: db5 db2)
  moreover have "disk_block content f5 y p = 0" if "p < 4096" for p
    using db5 [OF that] ay y(3,4) bl that by (simp add: blank_def)
  moreover have "Finite_Set.card (block_alloc.free_set f5) = Finite_Set.card (block_alloc.free_set f) - 2"
    using free_set_alloc [OF bm5] wd(2) c2 by simp
  moreover have "ind_ok f5" "ind_frame f f5" using wd(6,7) by (simp_all add: ind_ok_def ind_frame_def f5_def) (simp_all add: f2_def)
  moreover have "ptr_of (rbyte (bufs f5 TEMP)) i = (if i = 0 then of_nat y else ptr_of (rbyte (bufs f TEMP)) i)" for i
    using r(3) by (simp add: t5)
  ultimately show ?thesis using step y(2,3) y0 by (intro that [of f5 y]) (auto simp: bm5 bm2)
qed

lemma second_turn:
  assumes B: "fs_card B content" and ok: "ind_ok f" and bl: "blank content f"
    and y: "ptr_of (rbyte (bufs f TEMP)) 0 = of_nat y" "y < BLOCK_MAP_SIZE" "y \<noteq> 0"
    and zero: "\<And>p. p < 4096 \<Longrightarrow> disk_block content f y p = 0"
    and free: "block_alloc.free_set f \<noteq> {}" and x: "at x = int q" "left x = 4096" "q + 4096 \<le> rsize buff"
  obtains f' where "write_indirect B 0 1 0 buff x f = Some (0, f')" "ind_ok f'" "ind_frame f f'"
    "bufs f' TEMP = bufs f TEMP" "ptr_of (rbyte (bufs f' TEMP2)) 0 = 0" "ptr_of (rbyte (bufs f' TEMP2)) 1 \<noteq> 0"
    "\<And>b. block_map f b \<noteq> 0 \<Longrightarrow> block_map f' b \<noteq> 0"
proof -
  have sb: "superblock f = mkfs_superblock" using ok by (simp add: ind_ok_def)
  define f1 where "f1 = load_a_data_block_to B (int y) TEMP2 f"
  have ok1: "ind_ok f1" using ok by (simp add: ind_ok_def f1_def)
  have bl1: "blank content f1" using bl by (simp add: blank_def f1_def disk_block_def)
  have fs1: "block_alloc.free_set f1 \<noteq> {}" using free by (simp add: block_alloc.free_set_def f1_def)
  have byte: "rbyte (bufs f1 TEMP2) p = 0" if "p < 4096" for p
    using load_block_byte [OF B sb y(2), of TEMP2 p] zero [OF that] that by (simp add: f1_def)
  have hole: "ptr_of (rbyte (bufs f1 TEMP2)) i = 0" if "i < 1024" for i by (rule ptr_of_zero [OF byte that])
  have j1: "(1 :: nat) < 1024" by simp
  obtain f3 a f4 where wd:
    "(let (blk, f') = get_free_block f1 in do { f' \<leftarrow> set_ptr TEMP2 (int 1) blk f'; clear_buf TEMP3 f' }) = Some f3"
    "a \<in> block_alloc.free_set f1" "a < BLOCK_MAP_SIZE" "a \<noteq> 0"
    "copy_in TEMP3 0 4096 buff x f3 = Some f4" "ind_ok f4" "ind_frame f1 f4" "bufs f4 TEMP = bufs f1 TEMP"
    "\<And>i. ptr_of (rbyte (bufs f4 TEMP2)) i = (if i = 1 then of_nat a else ptr_of (rbyte (bufs f1 TEMP2)) i)"
    "block_map f4 = (block_map f1)(a := 1)" "card f4 = card f1"
    by (rule write_data [OF B ok1 bl1 j1 hole [OF j1] fs1 x(1,3)]) (rule that)
  define f5 where "f5 = store_a_data_block_from B (int a) TEMP3 f4"
  have sz: "4 * 0 + 4 \<le> rsize (bufs f TEMP)" "4 * 1 + 4 \<le> rsize (bufs f1 TEMP2)" "4 * 1 + 4 \<le> rsize (bufs f4 TEMP2)"
    "4 * 0 + 4 \<le> rsize (bufs f5 TEMP)"
    using ok ok1 wd(6) by (simp_all add: ind_ok_def f5_def)
  have p1: "get_ptr TEMP 0 f = Some (of_nat y)" using get_ptr_eq [OF sz(1)] y(1) by simp
  have p2: "get_ptr TEMP2 1 f1 = Some 0" using get_ptr_eq [OF sz(2)] hole [of 1] by simp
  have q2: "get_ptr TEMP2 1 f4 = Some (of_nat a)" using get_ptr_eq [OF sz(3)] wd(9) [of 1] by simp
  have t5: "bufs f5 TEMP = bufs f TEMP" using wd(8) by (simp add: f5_def f1_def)
  have q1: "get_ptr TEMP 0 f5 = Some (of_nat y)" using get_ptr_eq [OF sz(4)] y(1) by (simp add: t5)
  have done0: "write_indirect B i j k buff (advance 4096 x) g = Some (i, g)" for i j k g
    using x(2) by (subst write_indirect.simps) (simp add: advance_def)
  have "write_indirect B 0 1 0 buff x f = Some (0, f5)"
    using x(2) p1 p2 wd(1,5) q2 q1 of_nat_block_nz [OF y(2,3)] done0
    by (subst write_indirect.simps)
      (simp add: min_int_def BLOCK_SIZE_def INDIRECT_SIZE_def sint_nat_block [OF wd(3)]
        sint_nat_block [OF y(2)] f5_def f1_def)
  moreover have "ind_ok f5" "ind_frame f f5"
    using wd(6,7) by (simp_all add: ind_ok_def ind_frame_def f5_def) (simp_all add: f1_def)
  moreover have "ptr_of (rbyte (bufs f5 TEMP2)) 0 = 0" "ptr_of (rbyte (bufs f5 TEMP2)) 1 \<noteq> 0"
    using wd(9) [of 0] wd(9) [of 1] hole [of 0] of_nat_block_nz [OF wd(3,4)] by (simp_all add: f5_def)
  moreover have "block_map f5 b \<noteq> 0" if "block_map f b \<noteq> 0" for b using that by (simp add: f5_def wd(10) f1_def)
  ultimately show ?thesis using t5 that by blast
qed

section \<open>A write of two blocks\<close>

lemma disk_ptr_store:
  assumes "fs_card B content" "superblock f = mkfs_superblock" "b < BLOCK_MAP_SIZE" "i < 1024"
  shows "disk_ptr content (store_a_data_block_from B (int b) r f) c i =
    (if c = b then ptr_of (rbyte (bufs f r)) i else disk_ptr content f c i)"
proof -
  have "4 * i + k < 4096" if "k < 4" for k using assms(4) that by simp
  then show ?thesis unfolding disk_ptr_def using disk_block_store [OF assms(1-3)]
    by (auto intro!: ptr_of_cong)
qed

lemma first_second_level [simp]: "first_level 0 = 0" "second_level 0 = 0"
  by (simp_all add: first_level_def second_level_def INDIRECT_SIZE_def)

lemma write_two_blocks:
  assumes B: "fs_card B content" and k: "k < NUM_FDESCS" and n: "n < INODE_NUM" and ok: "ind_ok f" and bl: "blank content f"
    and fd: "fd_inode_num (fdesc_array f k) = int n" "fd_offset (fdesc_array f k) = 28672"
    and top: "i_sec (inodes f n) 7 = 0" and buff: "8192 \<le> rsize buff"
    and free: "4 \<le> Finite_Set.card (block_alloc.free_set f)" and anc: "ancestors f (int n) ns"
  shows "\<exists>f' t y. do_write B (int k) buff 8192 f = Some (8192, f')
    \<and> i_sec (inodes f' n) 7 = of_nat t \<and> t < BLOCK_MAP_SIZE \<and> t \<noteq> 0
    \<and> disk_ptr content f' t 0 = of_nat y \<and> y < BLOCK_MAP_SIZE \<and> y \<noteq> 0
    \<and> disk_ptr content f' y 0 = 0 \<and> disk_ptr content f' y 1 \<noteq> 0"
proof -
  have temp: "4096 \<le> rsize (bufs f TEMP)" using ok by (simp add: ind_ok_def)
  define f0 where "f0 = set_buf TEMP ((bufs f TEMP)\<lparr>rbyte := blit (rbyte (bufs f TEMP)) 0 4096 (\<lambda>_. 0)\<rparr>) f"
  have cl: "clear_buf TEMP f = Some f0" using clear_buf_result [OF temp] by (simp add: f0_def)
  have fs0: "block_alloc.free_set f0 = block_alloc.free_set f" by (simp add: block_alloc.free_set_def f0_def)
  have ne: "block_alloc.free_set f0 \<noteq> {}" using free fs0 by auto
  obtain t where t: "get_free_block f0 = (int t, f0\<lparr>block_map := (block_map f0)(t := 1)\<rparr>)"
    "t \<in> block_alloc.free_set f0" "t < BLOCK_MAP_SIZE" "block_map f0 t = 0" by (rule new_block [OF ne])
  have "block_map f t = 0" using t(4) by (simp add: f0_def)
  then have t0: "t \<noteq> 0" using ok unfolding ind_ok_def by metis
  define f1 where "f1 = upd_inode n (\<lambda>d. d\<lparr>i_sec := (i_sec d)(7 := word_of_int (int t))\<rparr>)
    (f0\<lparr>block_map := (block_map f0)(t := 1)\<rparr>)"
  have set7: "set_inode_sec (int n) 7 (int t) (f0\<lparr>block_map := (block_map f0)(t := 1)\<rparr>) = Some f1"
    using n by (simp add: set_inode_sec_def f1_def index_def)
  have sec7: "inode_sec (int n) 7 f = Some 0" using inode_sec_in [OF n, of 7 f] top by simp
  have ok1: "ind_ok f1" using ok by (simp add: ind_ok_def f1_def f0_def)
  have bm1: "block_map f1 = (block_map f0)(t := 1)" by (simp add: f1_def)
  have db1: "disk_block content f1 = disk_block content f" by (simp add: disk_block_def f1_def f0_def fun_eq_iff)
  have bl0: "blank content f0" using bl by (simp add: blank_def f0_def disk_block_def)
  have bl1: "blank content f1" by (rule blank_alloc [OF bl0 bm1]) (simp add: db1 disk_block_def f0_def)
  have c1: "Finite_Set.card (block_alloc.free_set f1) = Finite_Set.card (block_alloc.free_set f) - 1"
    using free_set_alloc [OF bm1] t(2) fs0 by simp
  have hole1: "ptr_of (rbyte (bufs f1 TEMP)) i = 0" if "i < 1024" for i
    by (rule ptr_of_zero [OF _ that]) (simp add: f1_def f0_def blit_def)
  let ?x = "\<lparr>left = 8192, at = 0\<rparr>"
  have free1: "2 \<le> Finite_Set.card (block_alloc.free_set f1)" using c1 free by simp
  have x0: "at ?x = int 0" "left ?x = 8192" "0 + 4096 \<le> rsize buff" using buff by simp_all
  obtain f2 y where f2: "write_indirect B 0 0 0 buff ?x f1 = write_indirect B 0 1 0 buff (advance 4096 ?x) f2"
    "ind_ok f2" "ind_frame f1 f2" "y \<in> block_alloc.free_set f1" "y < BLOCK_MAP_SIZE" "y \<noteq> 0"
    "\<And>i. ptr_of (rbyte (bufs f2 TEMP)) i = (if i = 0 then of_nat y else ptr_of (rbyte (bufs f1 TEMP)) i)"
    "\<And>p. p < 4096 \<Longrightarrow> disk_block content f2 y p = 0" "blank content f2"
    "Finite_Set.card (block_alloc.free_set f2) = Finite_Set.card (block_alloc.free_set f1) - 2"
    "\<And>b. block_map f1 b \<noteq> 0 \<Longrightarrow> block_map f2 b \<noteq> 0" "block_map f2 y \<noteq> 0"
    by (rule first_turn [OF B ok1 bl1 hole1 free1 x0]) (simp, rule that)
  have ty: "t \<noteq> y" using f2(4) free_set_alloc [OF bm1] by auto
  have fs2: "block_alloc.free_set f2 \<noteq> {}" using f2(10) c1 free by auto
  have x1: "at (advance 4096 ?x) = int 4096" "left (advance 4096 ?x) = 4096" "4096 + 4096 \<le> rsize buff"
    using buff by (simp_all add: advance_def)
  have p2: "ptr_of (rbyte (bufs f2 TEMP)) 0 = of_nat y" using f2(7) [of 0] by simp
  obtain f3 where f3: "write_indirect B 0 1 0 buff (advance 4096 ?x) f2 = Some (0, f3)" "ind_ok f3" "ind_frame f2 f3"
    "bufs f3 TEMP = bufs f2 TEMP" "ptr_of (rbyte (bufs f3 TEMP2)) 0 = 0" "ptr_of (rbyte (bufs f3 TEMP2)) 1 \<noteq> 0"
    "\<And>b. block_map f2 b \<noteq> 0 \<Longrightarrow> block_map f3 b \<noteq> 0"
    by (rule second_turn [OF B f2(2,9) p2 f2(5,6,8) fs2 x1]) (assumption, rule that)
  define f4 where "f4 = store_a_data_block_from B (int y) TEMP2 f3"
  have in4: "inodes f4 = inodes f1" using f2(3) f3(3) by (simp add: f4_def ind_frame_def)
  have s7: "i_sec (inodes f4 n) 7 = of_nat t" by (simp add: in4 f1_def)
  define f5 where "f5 = store_a_data_block_from B (int t) TEMP f4"
  have sb3: "superblock f3 = mkfs_superblock" "superblock f4 = mkfs_superblock" "superblock f5 = mkfs_superblock"
    using f3(2) by (simp_all add: ind_ok_def f4_def f5_def)
  have dp5: "disk_ptr content f5 y 0 = 0" "disk_ptr content f5 y 1 \<noteq> 0" "disk_ptr content f5 t 0 = of_nat y"
  proof -
    note d5 = disk_ptr_store [OF B sb3(2) t(3), of _ TEMP, folded f5_def]
    note d4 = disk_ptr_store [OF B sb3(1) f2(5), of _ TEMP2, folded f4_def]
    show "disk_ptr content f5 y 0 = 0" "disk_ptr content f5 y 1 \<noteq> 0" using d5 [of _ y] d4 [of _ y] ty f3(5,6) by simp_all
    show "disk_ptr content f5 t 0 = of_nat y" using d5 [of 0 t] p2 f3(4) by (simp add: f4_def)
  qed
  have wd: "write_direct B (int n) 7 0 buff ?x f = Some (7, 0, ?x, f)"
    by (subst write_direct.simps) simp
  have sz: "4 * 0 + 4 \<le> rsize (bufs f3 TEMP)" using f3(2) by (simp add: ind_ok_def)
  have q1: "get_ptr TEMP 0 f3 = Some (of_nat y)" using get_ptr_eq [OF sz] p2 f3(4) by simp
  have anc5: "ancestors f5 (int n) ns"
    by (rule ancestors_cong [OF anc]) (simp add: f5_def in4 f1_def f0_def)
  obtain f6 where f6: "(if 36864 > i_size (inodes f5 n) then propagate_size (36864 - i_size (inodes f5 n)) (int n) f5
      else Some f5) = Some f6" "superblock f6 = superblock f5" "card f6 = card f5"
      "i_sec (inodes f6 n) = i_sec (inodes f5 n)"
    by (cases "36864 > i_size (inodes f5 n)") (simp_all add: propagate_size_result [OF anc5])
  define f7 where "f7 = upd_fdesc k (\<lambda>d. d\<lparr>fd_offset := int_add (fd_offset d) 8192\<rparr>) f6"
  have sec4: "inode_sec (int n) 7 f4 = Some (of_nat t)" using inode_sec_in [OF n, of 7 f4] s7 by simp
  have "do_write B (int k) buff 8192 f = Some (8192, store_inodes B (store_block_map B f7))"
    unfolding do_write_def
    using k n wd cl t(1) set7 sec7 f2(1) f3(1) q1 sec4 f6(1)
    by (simp add: fd Let_def BLOCK_SIZE_def sdiv_pos smod_pos sint_nat_block [OF f2(5)] sint_nat_block [OF t(3)]
        f4_def [symmetric] f5_def [symmetric] f7_def split: if_splits)
  moreover have "disk_ptr content (store_inodes B (store_block_map B f7)) c i = disk_ptr content f5 c i" for c i
  proof -
    have s: "superblock f7 = mkfs_superblock" "superblock (store_block_map B f7) = mkfs_superblock"
      by (simp_all add: f7_def f6(2) sb3)
    have "disk_block content (store_inodes B (store_block_map B f7)) c p = disk_block content f5 c p" for p
      using disk_block_tables(1) [OF B s(2)] disk_block_tables(2) [OF B s(1)]
      by (simp add: disk_block_def f7_def f6(3))
    then show ?thesis unfolding disk_ptr_def by (intro ptr_of_cong) simp
  qed
  moreover have "i_sec (inodes (store_inodes B (store_block_map B f7)) n) 7 = of_nat t"
    by (simp add: f7_def f6(4)) (simp add: f5_def s7)
  ultimately show ?thesis using dp5 t(3) t0 f2(5,6) by auto
qed

end
