(* ===== verification/FsNames.thy ===== *)
theory FsNames
  imports FsWalk
begin

text \<open>
  \<open>parse_path\<close> as a whole computes \<open>walk\<close> over the \<open>components\<close> of its path;
  \<open>seperate_parent\<close> splits a path at its last slash; \<open>resolve_parent\<close> and \<open>do_cd\<close> are built
  on them.
\<close>

lemma parse_path_result:
  assumes B: "fs_card B content" and sb: "superblock f = mkfs_superblock"
    and temp: "4096 \<le> rsize (bufs f TEMP)" and path: "cstr path 0 xs" "length xs \<le> e" and d: "d < INODE_NUM"
    and start: "if xs \<noteq> [] \<and> hd xs = SLASH then d = 0 else current_inode f = int d"
    and ok: "walk_ok content f d (components xs)"
  shows "\<exists>path' f'. parse_path B path f =
      Some (case walk content f d (components xs) of None \<Rightarrow> -1 | Some n \<Rightarrow> int n, path', f')
    \<and> scan_frame f f' \<and> path_frame path e path'"
proof -
  have ld: "load path 0 = Some (if xs = [] then 0 else hd xs)"
    using path(1) by (cases xs) (auto simp: load_def)
  have follow: "(if (if xs = [] then 0 else hd xs) = SLASH then 0 else current_inode f) = int d"
    using start by (auto simp: SLASH_def split: if_splits)
  have "\<exists>token path' l'. split_path path (Some 0) (path_last f) = Some (token, path', l') \<and> path_frame path e path'
      \<and> (case components xs of [] \<Rightarrow> token = None
          | c # cs' \<Rightarrow> \<exists>t. token = Some t \<and> cstr path' t c \<and> pending path' l' e cs')"
    using split_path_some [OF path(1), of e "path_last f"] path(2)
    by (cases "components xs") (auto simp: path_frame_def)
  then obtain token path' l' where sp: "split_path path (Some 0) (path_last f) = Some (token, path', l')"
    and pf: "path_frame path e path'" and tok: "case components xs of [] \<Rightarrow> token = None
          | c # cs' \<Rightarrow> \<exists>t. token = Some t \<and> cstr path' t c \<and> pending path' l' e cs'" by blast
  let ?f1 = "f\<lparr>path_last := l'\<rparr>"
  have fr: "scan_frame f ?f1" unfolding scan_frame_def by (intro exI [of _ "bufs f TEMP"]) auto
  have "\<exists>path'' f'. parse_loop B token (int d) path' ?f1 =
      Some (case walk content ?f1 d (components xs) of None \<Rightarrow> -1 | Some n \<Rightarrow> int n, path'', f')
      \<and> scan_frame ?f1 f' \<and> path_frame path' e path''"
    by (rule parse_loop_result [OF B _ _ _ d])
      (use sb temp ok tok in \<open>auto simp: scan_frame_dirs(4) [OF fr] split: list.splits\<close>)
  then obtain path'' f' where r: "parse_loop B token (int d) path' ?f1 =
      Some (case walk content f d (components xs) of None \<Rightarrow> -1 | Some n \<Rightarrow> int n, path'', f')"
      "scan_frame ?f1 f'" "path_frame path' e path''" by (auto simp: scan_frame_dirs(3) [OF fr])
  have "parse_path B path f = parse_loop B token (int d) path' ?f1"
    unfolding parse_path_def using ld follow sp by simp
  then show ?thesis using r scan_frame_trans [OF fr] pf by (auto simp: path_frame_def)
qed

section \<open>The last component\<close>

lemma last_slash_at:
  assumes "rbyte path m = SLASH" "m \<le> k" "\<And>i. m < i \<Longrightarrow> i \<le> k \<Longrightarrow> rbyte path i \<noteq> SLASH"
  shows "last_slash path k = m"
  using assms(2,3)
proof (induction k)
  case (Suc k)
  show ?case
  proof (cases "m = Suc k")
    case True
    then show ?thesis using assms(1) by simp
  next
    case False
    then have "rbyte path (Suc k) \<noteq> SLASH" using Suc.prems by auto
    then show ?thesis using Suc False by simp
  qed
qed simp

lemma last_slash_none:
  "(\<And>i. 0 < i \<Longrightarrow> i \<le> k \<Longrightarrow> rbyte path i \<noteq> SLASH) \<Longrightarrow> last_slash path k = 0"
  by (induction k) auto

text \<open>With a slash, the parent is what is before the last one; the name is a pointer behind it.\<close>

lemma seperate_parent_slash:
  assumes "cstr path 0 (ys @ SLASH # zs)" "SLASH \<notin> set zs"
  obtains path' where "seperate_parent path f = Some (InPath (length ys + 1), path', f)"
    "cstr path' 0 ys" "cstr path' (length ys + 1) zs" "rsize path' = rsize path"
proof -
  let ?xs = "ys @ SLASH # zs"
  have byte: "rbyte path i = ?xs ! i" if "i < length ?xs" for i
    using assms(1) that unfolding cstr_def by (metis add_0)
  have size: "length ?xs < rsize path" and nz: "0 \<notin> set ?xs" and end0: "rbyte path (length ?xs) = 0"
    using assms(1) by (auto simp: cstr_def)
  have len: "strlen path 0 = Some (length ?xs)" by (rule strlen_cstr [OF assms(1)])
  have at: "rbyte path (length ys) = SLASH" using byte [of "length ys"] by simp
  have "last_slash path (length ?xs - 1) = length ys"
  proof (rule last_slash_at [OF at])
    fix i assume i: "length ys < i" "i \<le> length ?xs - 1"
    then have "rbyte path i = (SLASH # zs) ! (i - length ys)" using byte [of i] by (simp add: nth_append)
    also have "\<dots> = zs ! (i - length ys - 1)" using i by (simp add: nth_Cons')
    finally have eq: "rbyte path i = zs ! (i - length ys - 1)" .
    have "i - length ys - 1 < length zs" using i by simp
    then have "zs ! (i - length ys - 1) \<in> set zs" by (rule nth_mem)
    then show "rbyte path i \<noteq> SLASH" using assms(2) eq by metis
  qed simp
  moreover define path' where "path' = path\<lparr>rbyte := (rbyte path)(length ys := 0)\<rparr>"
  moreover have "store path (length ys) 0 = Some path'" using size by (simp add: store_def path'_def)
  ultimately have "seperate_parent path f = Some (InPath (length ys + 1), path', f)"
    using at len by (simp add: seperate_parent_def Let_def)
  moreover have "cstr path' 0 ys" using byte size nz by (auto simp: cstr_def path'_def nth_append)
  moreover have "cstr path' (length ys + 1) zs"
  proof (rule cstr_cong)
    have "cstr path 0 ((ys @ [SLASH]) @ zs)" using assms(1) by simp
    then have "cstr path (0 + length (ys @ [SLASH])) zs" by (rule cstr_append)
    then show "cstr path (length ys + 1) zs" by simp
  qed (simp_all add: path'_def)
  ultimately show ?thesis by (intro that [of path']) (simp_all add: path'_def)
qed

text \<open>Without one, the name is copied to the name buffer and the parent is the empty path.\<close>

lemma seperate_parent_plain:
  assumes "cstr path 0 xs" "xs \<noteq> []" "SLASH \<notin> set xs" "length xs < rsize (name_buffer f)"
  obtains path' nb where "seperate_parent path f = Some (InNameBuffer, path', f\<lparr>name_buffer := nb\<rparr>)"
    "cstr path' 0 []" "cstr nb 0 xs"
proof -
  have byte: "rbyte path i = xs ! i" if "i < length xs" for i
    using assms(1) that unfolding cstr_def by (metis add_0)
  have nslash: "rbyte path i \<noteq> SLASH" if "i < length xs" for i using byte [OF that] assms(3) that by (metis nth_mem)
  have len: "strlen path 0 = Some (length xs)" by (rule strlen_cstr [OF assms(1)])
  have last: "last_slash path (length xs - 1) = 0"
    by (rule last_slash_none) (use nslash assms(2) in \<open>auto simp: Suc_le_eq neq_Nil_conv\<close>)
  obtain nb where nb: "strcpy (name_buffer f) 0 path 0 = Some nb" "cstr nb 0 xs"
    using strcpy_result [OF assms(1), of 0 "name_buffer f"] assms(4) by auto
  have size: "0 < rsize path" using assms(1) by (auto simp: cstr_def)
  have "seperate_parent path f = Some (InNameBuffer, path\<lparr>rbyte := (rbyte path)(0 := 0)\<rparr>, f\<lparr>name_buffer := nb\<rparr>)"
    using len last nslash [of 0] assms(2) nb(1) size by (simp add: seperate_parent_def store_def Let_def)
  then show ?thesis using nb(2) size by (intro that) auto
qed

end
