(* ===== verification/FsProps.thy ===== *)
theory FsProps
  imports FsIndirect FsNames
begin

text \<open>
  The properties of the file system, and a small file system to try them on: a root directory
  with one file \<open>a\<close>, inode 1, that is open as descriptor 0 and empty.
\<close>

section \<open>A small file system\<close>

definition demo_inode :: "nat \<Rightarrow> inode_t" where
  "demo_inode n = \<lparr>i_mode = 0, i_size = 0, i_link = 1, i_sec = (\<lambda>_. 0), i_parent = (if n = 0 then -1 else 0)\<rparr>"

definition demo_card :: "nat \<Rightarrow> u8" where
  "demo_card i = (if i = 512 * 1049029 then 0x61 else if i = 512 * 1049029 + 28 then 1 else 0)"

definition demo_fs :: "(nat \<Rightarrow> u8) fs" where
  "demo_fs = \<lparr>superblock = mkfs_superblock, superblock_tail = (\<lambda>_. 0),
     inode_map = (\<lambda>n. if n < 2 then 1 else 0), block_map = (\<lambda>b. if b = 0 then 1 else 0),
     inodes = demo_inode, bufs = (\<lambda>_. \<lparr>rsize = TEMP_SIZE, rbyte = (\<lambda>_. 0)\<rparr>),
     fdesc_array = (\<lambda>k. \<lparr>fd_mode = 3, fd_offset = 0, fd_inode_num = 1, fd_follow_inode = 0,
       fd_ref_count = (if k = 0 then 1 else 0)\<rparr>),
     path_buffer = \<lparr>rsize = 128, rbyte = (\<lambda>_. 0)\<rparr>, name_buffer = \<lparr>rsize = 32, rbyte = (\<lambda>_. 0)\<rparr>,
     path_last = None, current_inode = 0, card = demo_card\<rparr>"

lemma demo_fs_simps [simp]:
  "superblock demo_fs = mkfs_superblock" "current_inode demo_fs = 0" "card demo_fs = demo_card"
  "inode_map demo_fs = (\<lambda>n. if n < 2 then 1 else 0)" "block_map demo_fs = (\<lambda>b. if b = 0 then 1 else 0)"
  "inodes demo_fs = demo_inode" "rsize (bufs demo_fs b) = 1048576" "rsize (path_buffer demo_fs) = 128"
  "rsize (name_buffer demo_fs) = 32" "fd_inode_num (fdesc_array demo_fs k) = 1" "fd_offset (fdesc_array demo_fs k) = 0"
  by (simp_all add: demo_fs_def TEMP_SIZE_def)

lemma demo_inode_simps [simp]:
  "i_sec (demo_inode n) k = 0" "i_size (demo_inode n) = 0" "i_parent (demo_inode n) = (if n = 0 then -1 else 0)"
  by (simp_all add: demo_inode_def)

lemma toy_fs_card: "fs_card toy_bios (\<lambda>d. d)"
  unfolding fs_card_def by (rule toy_sd_ok)

lemma demo_ancestors: "ancestors demo_fs 1 [1, 0]"
  by (simp add: INODE_NUM_def)

lemma demo_free: "7 \<le> Finite_Set.card (block_alloc.free_set demo_fs)"
proof -
  have "{1..7} \<subseteq> block_alloc.free_set demo_fs" unfolding block_alloc.free_set_def by (auto simp: BLOCK_MAP_SIZE_eq)
  then have "Finite_Set.card {1..7 :: nat} \<le> Finite_Set.card (block_alloc.free_set demo_fs)" by (rule card_mono [rotated]) simp
  then show ?thesis by simp
qed

lemma demo_file: "file_ok demo_fs 1"
  by (simp add: file_ok_def has_block_def INODE_NUM_def)

lemma demo_block: "disk_block (\<lambda>d. d) demo_fs 0 = (\<lambda>i. if i = 0 then 0x61 else if i = 28 then 1 else 0)"
  by (simp add: disk_block_def data_sector_def demo_card_def fun_eq_iff)

lemma demo_blocks: "dir_blocks demo_fs 0 [0..<8] = [0]"
proof -
  have "[0..<8] = 0 # 1 # [2..<8::nat]" by (simp add: upt_rec)
  then show ?thesis by (simp add: dir_blocks_def dir_unused_def)
qed

lemma demo_dir: "dir_ok (\<lambda>d. d) demo_fs 0"
proof -
  have "entry_inode (disk_block (\<lambda>d. d) demo_fs 0) j < 2048" for j
  proof -
    have "le32 (\<lambda>b. disk_block (\<lambda>d. d) demo_fs 0 (32 * j + 28 + b)) = (if j = 0 then 1 else 0)"
      by (rule le32_bytes) (auto simp: demo_block byte_of_def elim!: less_natE simp: numeral_eq_Suc less_Suc_eq)
    then show ?thesis by (simp add: entry_inode_def)
  qed
  moreover have "\<exists>i < 28. disk_block (\<lambda>d. d) demo_fs 0 (32 * j + i) = 0" for j
    by (intro exI [of _ 1]) (simp add: demo_block, presburger)
  ultimately show ?thesis by (simp add: dir_ok_def demo_blocks dir_block_ok_def INODE_NUM_def BLOCK_MAP_SIZE_eq)
qed

lemma demo_lookup: "dir_lookup (\<lambda>d. d) demo_fs 0 [0x61] = Some 1"
proof -
  have u: "[0..<28] = 0 # 1 # [2..<28::nat]" "[0..<128] = 0 # [1..<128::nat]" by (simp_all add: upt_rec)
  have "le32 (\<lambda>b. disk_block (\<lambda>d. d) demo_fs 0 (32 * 0 + 28 + b)) = 1"
    by (rule le32_bytes) (auto simp: demo_block byte_of_def numeral_eq_Suc less_Suc_eq)
  then have "entry_inode (disk_block (\<lambda>d. d) demo_fs 0) 0 = 1" by (simp add: entry_inode_def)
  moreover have "entry_name (disk_block (\<lambda>d. d) demo_fs 0) 0 = [0x61]" by (simp add: entry_name_def demo_block u(1))
  ultimately show ?thesis
    by (simp add: dir_lookup_def entries_from_def demo_blocks block_entries_def u(2) entry_matches_def)
qed

section \<open>Making and mounting\<close>

text \<open>(C24) \<open>do_mkfs\<close> on a card without a file system succeeds and leaves the inode table on the card, and a
  kernel that mounts the card with \<open>init_fs\<close> afterwards, whatever its memory holds, has the same superblock,
  inode map and first 512 entries of the block map (only one sector of the block map is written and read).
  The firmware's reads are assumed to be right up to 64 sectors. \<open>load_inodes\<close> reads 192 sectors in one call; if
  that read is right too, the inode table is the same and the entry \<open>.\<close> of the root directory leads to
  the root.\<close>

theorem mkfs_then_mount:
  assumes "fs_card B content" "4096 \<le> rsize (bufs f TEMP)"
    and "magic (superblock_of (\<lambda>i. content (card f) (512 * 1048576 + i))) \<noteq> SUPERBLOCK_MAGIC"
  shows "\<exists>f'. do_mkfs B f = Some (0, f') \<and> mkfs_state f' \<and> same_inodes (card_inode content f') (inodes f') \<and>
    (\<forall>g. card g = card f' \<longrightarrow> (\<exists>g'. init_fs B g = (0, g') \<and> mounted f' g' \<and>
      (fs_reads_inodes B content \<longrightarrow> same_inodes (inodes g') (inodes f') \<and> dir_lookup content g' 0 DOT = Some 0)))"
proof -
  obtain f8 where f8: "do_mkfs B f = Some (0, mkfs_stores B f8)" "mkfs_state f8"
    by (rule do_mkfs_result [OF assms])
  have sb: "superblock f8 = mkfs_superblock" using f8(2) by (simp add: mkfs_state_def)
  have same: "mounted (mkfs_stores B f8) g \<longleftrightarrow> mounted f8 g" "inodes (mkfs_stores B f8) = inodes f8"
    "mkfs_state (mkfs_stores B f8) \<longleftrightarrow> mkfs_state f8" for g :: "'a fs"
    by (simp_all add: mounted_def mkfs_state_def mkfs_stores_def store_a_data_block_def store_a_data_block_from_def
        store_inodes_def store_block_map_def store_inode_map_def store_superblock_def fs_write_def)
  have tab: "same_inodes (card_inode content (mkfs_stores B f8)) (inodes f8)"
    using card_inodes_stored [OF assms(1) sb _ refl] by (simp add: same_inodes_def card_inode_def same(2))
  have "\<exists>g'. init_fs B g = (0, g') \<and> mounted f8 g' \<and>
      (fs_reads_inodes B content \<longrightarrow> same_inodes (inodes g') (inodes f8) \<and> dir_lookup content g' 0 DOT = Some 0)"
    if g: "card g = card (mkfs_stores B f8)" for g :: "'a fs"
  proof -
    obtain g' where g': "init_fs B g = (0, g')" "mounted f8 g'" "card g' = card g"
      "fs_reads_inodes B content \<longrightarrow> same_inodes (inodes g') (inodes f8)"
      by (rule mount_stored [OF assms(1) sb g])
    then show ?thesis using root_dot [OF assms(1) f8(2) g'(2)] g by auto
  qed
  then show ?thesis using f8 tab by (intro exI [of _ "mkfs_stores B f8"]) (simp add: same)
qed

theorem mkfs_then_mount_witness:
  "\<exists>f' g'. do_mkfs toy_bios (demo_fs\<lparr>card := (\<lambda>_. 0)\<rparr>) = Some (0, f') \<and> init_fs toy_bios f' = (0, g') \<and> mounted f' g'
     \<and> same_inodes (inodes g') (inodes f')"
proof -
  let ?f = "demo_fs\<lparr>card := (\<lambda>_. 0)\<rparr>"
  have t: "4096 \<le> rsize (bufs ?f TEMP)" by simp
  have m: "magic (superblock_of (\<lambda>i. card ?f (512 * 1048576 + i))) \<noteq> SUPERBLOCK_MAGIC"
    by (simp add: superblock_of_def Let_def le32_def SUPERBLOCK_MAGIC_def)
  have "fs_reads_inodes toy_bios (\<lambda>d. d)" unfolding fs_reads_inodes_def by (rule toy_long_read)
  with mkfs_then_mount [OF toy_fs_card t] m show ?thesis by blast
qed

section \<open>Paths\<close>

text \<open>(C25) \<open>parse_path\<close> implements iterated lookup: it starts at the root for a path with a leading
  slash and at the current directory otherwise, follows the components of the path through the
  directory entries on the card, and returns the inode it arrives at, or -1 when a component has
  no valid entry. The directories on the way are well formed: block numbers and inode numbers in range, names
  terminated. Only \<open>TEMP\<close> and the state of the tokenizer change.\<close>

theorem parse_path_walks:
  assumes "fs_card B content" "superblock f = mkfs_superblock" "4096 \<le> rsize (bufs f TEMP)"
    and "cstr path 0 xs" "d < INODE_NUM"
    and "if xs \<noteq> [] \<and> hd xs = SLASH then d = 0 else current_inode f = int d"
    and "walk_ok content f d (components xs)"
  shows "\<exists>path' f'. parse_path B path f =
      Some (case walk content f d (components xs) of None \<Rightarrow> -1 | Some n \<Rightarrow> int n, path', f') \<and> scan_frame f f'"
  using parse_path_result [OF assms(1-4) order_refl assms(5-7)] by blast

theorem parse_path_walks_witness:
  "\<exists>path' f'. parse_path toy_bios (str [SLASH, SLASH, 0x61]) demo_fs = Some (1, path', f')"
proof -
  let ?xs = "[SLASH, SLASH, 0x61]"
  have c: "components ?xs = [[0x61]]" by (simp add: SLASH_def)
  have s: "cstr (str ?xs) 0 ?xs" by (rule str_cstr) (simp add: SLASH_def)
  have ok: "walk_ok (\<lambda>d. d) demo_fs 0 (components ?xs)" by (simp only: c) (simp add: demo_dir demo_lookup)
  have w: "walk (\<lambda>d. d) demo_fs 0 (components ?xs) = Some 1" by (simp only: c) (simp add: demo_lookup)
  have st: "if ?xs \<noteq> [] \<and> hd ?xs = SLASH then (0 :: nat) = 0 else current_inode demo_fs = int 0" by simp
  have z: "(0 :: nat) < INODE_NUM" by (simp add: INODE_NUM_def)
  from parse_path_walks [OF toy_fs_card _ _ s z st ok] show ?thesis unfolding w by auto
qed

text \<open>The parent of an absolute path with one component is taken to be the current directory
  and not the root: splitting \<open>/name\<close> leaves the empty path, which \<open>parse_path\<close> resolves to
  \<open>current_inode\<close>. So \<open>do_mkdir\<close>, \<open>do_open\<close> and the others act on the current directory.\<close>

theorem absolute_name_is_relative:
  assumes "cstr path 0 (SLASH # zs)" "SLASH \<notin> set zs" "Suc (length zs) < rsize (path_buffer f)"
  shows "\<exists>f'. resolve_parent B path f = Some (InPath 1, current_inode f, f')
    \<and> cstr (path_buffer f') 1 zs \<and> inodes f' = inodes f \<and> card f' = card f"
proof -
  obtain pb where pb: "strcpy (path_buffer f) 0 path 0 = Some pb" "cstr pb 0 (SLASH # zs)"
    by (rule strcpy_result [OF assms(1), of 0 "path_buffer f"]) (use assms(3) in simp, rule that)
  have c: "cstr pb 0 ([] @ SLASH # zs)" using pb(2) by (simp only: append_Nil)
  obtain pb1 where p: "seperate_parent pb f = Some (InPath (length ([] :: u8 list) + 1), pb1, f)" "cstr pb1 0 []"
    "cstr pb1 (length ([] :: u8 list) + 1) zs" by (rule seperate_parent_slash [OF c assms(2), of f]) (rule that)
  have pb1: "seperate_parent pb f = Some (InPath 1, pb1, f)" "cstr pb1 0 []" "cstr pb1 1 zs" using p by simp_all
  have skip: "skip_slashes pb1 0 = Some 0" using pb1(2) by (subst skip_slashes.simps) (simp add: SLASH_def)
  have "parse_path B pb1 f = Some (current_inode f, pb1, f\<lparr>path_last := None\<rparr>)"
    using pb1(2) skip by (subst parse_path_def) (simp add: load_def split_path_def SLASH_def parse_loop.simps)
  then show ?thesis using pb(1) pb1(1,3) by (simp add: resolve_parent_def)
qed

theorem absolute_name_is_relative_witness:
  "\<exists>f'. resolve_parent toy_bios (str [SLASH, 0x61]) (demo_fs\<lparr>current_inode := 1\<rparr>) = Some (InPath 1, 1, f')"
proof -
  have s: "cstr (str [SLASH, 0x61]) 0 (SLASH # [0x61])" by (rule str_cstr) (simp add: SLASH_def)
  have n: "SLASH \<notin> set [0x61]" by (simp add: SLASH_def)
  from absolute_name_is_relative [OF s n, of "demo_fs\<lparr>current_inode := 1\<rparr>" toy_bios] show ?thesis by auto
qed

text \<open>A \<open>do_cd\<close> to a path that does not exist returns -1 and also makes -1 the current directory;
  from then on every walk along a relative path indexes the inode table at -1.\<close>

theorem failed_cd:
  assumes "fs_card B content" "superblock f = mkfs_superblock" "4096 \<le> rsize (bufs f TEMP)"
    and "cstr path 0 xs" "length xs < rsize (path_buffer f)" "d < INODE_NUM"
    and "if xs \<noteq> [] \<and> hd xs = SLASH then d = 0 else current_inode f = int d"
    and "walk_ok content f d (components xs)" "walk content f d (components xs) = None"
  shows "\<exists>f'. do_cd B path f = Some (-1, f') \<and> current_inode f' = -1
    \<and> (\<forall>path2 y ys. cstr path2 0 (y # ys) \<and> y \<noteq> SLASH \<longrightarrow> parse_path B path2 f' = None)"
proof -
  obtain pb where pb: "strcpy (path_buffer f) 0 path 0 = Some pb" "cstr pb 0 xs"
    by (rule strcpy_result [OF assms(4), of 0 "path_buffer f"]) (use assms(5) in simp, rule that)
  obtain pb' f1 where f1: "parse_path B pb f = Some (-1, pb', f1)"
    using parse_path_result [OF assms(1-3) pb(2) order_refl assms(6,7,8)] assms(9) by auto
  let ?f = "f1\<lparr>path_buffer := pb', current_inode := -1\<rparr>"
  have "parse_path B path2 ?f = None" if c: "cstr path2 0 (y # ys)" "y \<noteq> SLASH" for path2 y ys
  proof -
    have l: "load path2 0 = Some y" using c by (simp add: load_def)
    have "components (y # ys) \<noteq> []" using c(2) by simp
    then obtain a as where "components (y # ys) = a # as" by (cases "components (y # ys)") auto
    then obtain t path' l' where "split_path path2 (Some 0) (path_last ?f) = Some (Some t, path', l')"
      using split_path_some [OF c(1) order_refl, of "path_last ?f"] by auto
    moreover have "scan_blocks B (-1) body stop [0..<8] a g = None" for body stop and a :: "nat option" and g :: "'a fs"
    proof -
      have "[0..<8] = 0 # [1..<8::nat]" by (simp add: upt_rec)
      then show ?thesis by (simp add: directory_sec_is_not_used_def inode_sec_def index_def)
    qed
    ultimately show ?thesis using l c(2) by (simp add: parse_path_def parse_loop.simps)
  qed
  then have "\<forall>path2 y ys. cstr path2 0 (y # ys) \<and> y \<noteq> SLASH \<longrightarrow> parse_path B path2 ?f = None" by blast
  moreover have "do_cd B path f = Some (-1, ?f)" using pb(1) f1 by (simp add: do_cd_def)
  moreover have "current_inode ?f = -1" by simp
  ultimately show ?thesis by blast
qed

theorem failed_cd_witness:
  "\<exists>f'. do_cd toy_bios (str [0x62]) demo_fs = Some (-1, f') \<and> parse_path toy_bios (str [0x61]) f' = None"
proof -
  have s: "cstr (str [0x62]) 0 [0x62]" "cstr (str [0x61]) 0 [0x61]" by (rule str_cstr, simp)+
  have c: "components [0x62] = [[0x62]]" by (simp add: SLASH_def)
  have lk: "dir_lookup (\<lambda>d. d) demo_fs 0 [0x62] = None"
  proof -
    have "entry_name (disk_block (\<lambda>d. d) demo_fs 0) j \<noteq> [0x62]" for j
    proof
      assume "entry_name (disk_block (\<lambda>d. d) demo_fs 0) j = [0x62]"
      then have "hd (entry_name (disk_block (\<lambda>d. d) demo_fs 0) j) = 0x62" by simp
      moreover have "[0..<28] = 0 # [1..<28::nat]" by (simp add: upt_rec)
      ultimately show False using \<open>entry_name _ j = [0x62]\<close>
        by (auto simp: entry_name_def demo_block split: if_splits)
    qed
    then show ?thesis
      by (simp add: dir_lookup_def entries_from_def demo_blocks find_None_iff block_entries_def entry_matches_def)
  qed
  have z: "(0 :: nat) < INODE_NUM" by (simp add: INODE_NUM_def)
  have st: "if [0x62] \<noteq> [] \<and> hd [0x62] = SLASH then (0 :: nat) = 0 else current_inode demo_fs = int 0" by simp
  have ok: "walk_ok (\<lambda>d. d) demo_fs 0 (components [0x62])" by (simp only: c) (simp add: demo_dir lk)
  have w: "walk (\<lambda>d. d) demo_fs 0 (components [0x62]) = None" by (simp only: c) (simp add: lk)
  have len: "length [0x62 :: u8] < rsize (path_buffer demo_fs)" by simp
  have sl: "(0x61 :: u8) \<noteq> SLASH" by (simp add: SLASH_def)
  obtain f' where f': "do_cd toy_bios (str [0x62]) demo_fs = Some (-1, f')"
    "\<forall>path2 y ys. cstr path2 0 (y # ys) \<and> y \<noteq> SLASH \<longrightarrow> parse_path toy_bios path2 f' = None"
    using failed_cd [OF toy_fs_card _ _ s(1) len z st ok w] by auto
  then have "parse_path toy_bios (str [0x61]) f' = None" using s(2) sl by blast
  then show ?thesis using f'(1) by blast
qed


section \<open>Reading and writing\<close>

lemma grown_size: "i_size (inodes f n) + growth f n e = max (i_size (inodes f n)) (of_nat e)"
  by (auto simp: growth_def max_def)

lemma in_ancestors: "ancestors f (int n) ns \<Longrightarrow> n \<in> set ns"
  by (cases ns) auto

text \<open>(C26) What \<open>do_write\<close> has written to the first seven blocks of a file, \<open>do_read\<close> gives back after
  \<open>do_lseek\<close> to the place where the writing began, whatever blocks had to be allocated.\<close>

theorem write_read:
  assumes "fs_card B content" "k < NUM_FDESCS" "file_ok f n"
    and "fd_inode_num (fdesc_array f k) = int n" "fd_offset (fdesc_array f k) = int p"
    and "p + l \<le> 28672" "l \<le> rsize buff" "l \<le> rsize buff2"
    and "7 - p div 4096 \<le> Finite_Set.card (block_alloc.free_set f)"
    and "ancestors f (int n) ns" "unat (i_size (inodes f n)) \<le> 28672"
  shows "\<exists>f1 f2 f3 buff3. do_write B (int k) buff (int l) f = Some (int l, f1)
    \<and> do_lseek (int k) (int p) SEEK_SET f1 = Some (0, f2)
    \<and> do_read B (int k) buff2 (int l) f2 = Some (int l, buff3, f3)
    \<and> rsize buff3 = rsize buff2 \<and> (\<forall>i. rbyte buff3 i = (if i < l then rbyte buff i else rbyte buff2 i))"
proof -
  obtain f1 where w: "do_write B (int k) buff (int l) f = Some (int l, f1)" and ok: "file_ok f1 n"
    and bytes: "\<And>i. i < l \<Longrightarrow> has_block f1 n ((p + i) div 4096) \<and> file_byte content f1 n (p + i) = rbyte buff i"
    and size: "i_size (inodes f1 n) = max (i_size (inodes f n)) (of_nat (p + l))"
    and fd: "fdesc_array f1 = (fdesc_array f)(k := (fdesc_array f k)\<lparr>fd_offset := int (p + l)\<rparr>)"
    using do_write_direct [OF assms(1-7,9,10)] in_ancestors [OF assms(10)] by (auto simp: grown_size)
  let ?f2 = "upd_fdesc k (\<lambda>d. d\<lparr>fd_offset := int p\<rparr>) f1"
  have same: "same_blocks content f1 n ?f2" by (simp add: same_blocks_def disk_block_def)
  define s where "s = unat (i_size (inodes ?f2 n))"
  have up: "unat (of_nat (p + l) :: u32) = p + l" using assms(6) by (simp add: unat_of_nat del: of_nat_add)
  have "s = max (unat (i_size (inodes f n))) (unat (of_nat (p + l) :: u32))"
    using size by (simp add: s_def max_def word_le_nat_alt del: of_nat_add)
  then have s: "s \<le> 28672" "p + l \<le> s" using assms(6,11) unfolding up by simp_all
  obtain f3 where r: "do_read B (int k) buff2 (int l) ?f2 =
      Some (int l, buff2\<lparr>rbyte := blit (rbyte buff2) 0 l (\<lambda>i. file_byte content ?f2 n (p + i))\<rparr>, f3)"
    using do_read_direct [OF assms(1,2), of ?f2 n p s l l buff2] ok fd s bytes assms(4,6,8)
    by (auto simp: same_blocks_file [OF same] s_def)
  have "do_lseek (int k) (int p) SEEK_SET f1 = Some (0, ?f2)" by (rule do_lseek_set [OF assms(2)])
  with w r bytes show ?thesis by (auto simp: blit_def same_blocks_file [OF same] cong: if_cong)
qed

theorem write_read_witness:
  "\<exists>f1 f2 f3 buff3. do_write toy_bios 0 (str [1, 2, 3, 4, 5]) 5 demo_fs = Some (5, f1)
    \<and> do_lseek 0 0 SEEK_SET f1 = Some (0, f2) \<and> do_read toy_bios 0 (str [0, 0, 0, 0, 0]) 5 f2 = Some (5, buff3, f3)
    \<and> rbyte buff3 3 = 4"
proof -
  define a b where "a = str [1, 2, 3, 4, 5]" and "b = str [0, 0, 0, 0, 0]"
  have ab: "rsize a = 6" "rsize b = 6" "rbyte a 3 = 4" by (simp_all add: a_def b_def literal_def)
  have z: "0 < NUM_FDESCS" by (simp add: NUM_FDESCS_def)
  have "\<exists>f1 f2 f3 buff3. do_write toy_bios (int 0) a (int 5) demo_fs = Some (int 5, f1)
    \<and> do_lseek (int 0) (int 0) SEEK_SET f1 = Some (0, f2)
    \<and> do_read toy_bios (int 0) b (int 5) f2 = Some (int 5, buff3, f3)
    \<and> rsize buff3 = rsize b \<and> (\<forall>i. rbyte buff3 i = (if i < 5 then rbyte a i else rbyte b i))"
    by (rule write_read [OF toy_fs_card z demo_file, of 0 5 a b "[1, 0]"]) (use demo_ancestors demo_free ab in simp_all)
  then obtain f1 f2 f3 buff3 where "do_write toy_bios 0 a 5 demo_fs = Some (5, f1)"
    "do_lseek 0 0 SEEK_SET f1 = Some (0, f2)" "do_read toy_bios 0 b 5 f2 = Some (5, buff3, f3)"
    "\<forall>i. rbyte buff3 i = (if i < 5 then rbyte a i else rbyte b i)" by auto
  moreover from this have "rbyte buff3 3 = 4" using ab by simp
  ultimately show ?thesis unfolding a_def b_def by blast
qed

text \<open>(C27) A \<open>do_write\<close> within the first seven blocks changes no byte outside the written range, keeps every
  block, and grows the size of the file to the end of the range; all directories above the file
  grow by the same amount, no other inode changes its size, and the descriptor moves to the end.\<close>

theorem write_extends:
  assumes "fs_card B content" "k < NUM_FDESCS" "file_ok f n"
    and "fd_inode_num (fdesc_array f k) = int n" "fd_offset (fdesc_array f k) = int p"
    and "p + l \<le> 28672" "l \<le> rsize buff"
    and "7 - p div 4096 \<le> Finite_Set.card (block_alloc.free_set f)" "ancestors f (int n) ns"
  shows "\<exists>f'. do_write B (int k) buff (int l) f = Some (int l, f')
    \<and> (\<forall>r < 28672. has_block f n (r div 4096) \<longrightarrow> has_block f' n (r div 4096)
         \<and> (\<not> (p \<le> r \<and> r < p + l) \<longrightarrow> file_byte content f' n r = file_byte content f n r))
    \<and> i_size (inodes f' n) = max (i_size (inodes f n)) (of_nat (p + l))
    \<and> (\<forall>m \<in> set ns. i_size (inodes f' m) - i_size (inodes f m) = i_size (inodes f' n) - i_size (inodes f n))
    \<and> (\<forall>m. m \<notin> set ns \<longrightarrow> i_size (inodes f' m) = i_size (inodes f m))
    \<and> fd_offset (fdesc_array f' k) = int (p + l) \<and> (\<forall>j. j \<noteq> k \<longrightarrow> fdesc_array f' j = fdesc_array f j)"
proof -
  obtain f' where w: "do_write B (int k) buff (int l) f = Some (int l, f')"
    and keep: "\<forall>r < 28672. has_block f n (r div 4096) \<longrightarrow> has_block f' n (r div 4096)
         \<and> (\<not> (p \<le> r \<and> r < p + l) \<longrightarrow> file_byte content f' n r = file_byte content f n r)"
    and size: "\<And>m. i_size (inodes f' m) = (if m \<in> set ns then i_size (inodes f m) + growth f n (p + l) else i_size (inodes f m))"
    and fd: "fdesc_array f' = (fdesc_array f)(k := (fdesc_array f k)\<lparr>fd_offset := int (p + l)\<rparr>)"
    using do_write_direct [OF assms] by metis
  have "n \<in> set ns" by (rule in_ancestors [OF assms(9)])
  moreover from this have "i_size (inodes f' n) = max (i_size (inodes f n)) (of_nat (p + l))"
    unfolding size grown_size [symmetric] by simp
  moreover have "\<forall>m \<in> set ns. i_size (inodes f' m) - i_size (inodes f m) = i_size (inodes f' n) - i_size (inodes f n)"
    using \<open>n \<in> set ns\<close> by (simp add: size)
  ultimately show ?thesis using w keep by (intro exI [of _ f']) (simp add: size fd)
qed

theorem write_extends_witness:
  "\<exists>f'. do_write toy_bios 0 (str [1, 2, 3, 4, 5]) 5 demo_fs = Some (5, f') \<and> i_size (inodes f' 0) = 5
    \<and> fd_offset (fdesc_array f' 0) = 5"
proof -
  have "0 < NUM_FDESCS" by (simp add: NUM_FDESCS_def)
  from write_extends [OF toy_fs_card this demo_file, of 0 5 "str [1, 2, 3, 4, 5]" "[1, 0]"] demo_ancestors demo_free
  show ?thesis by (simp add: literal_def) (metis max_0L max_def word_zero_le)
qed

text \<open>(C28) In a file that has no block behind the seven direct ones yet, on a card with at least four free blocks, the
  free ones blank, writing two blocks from the first byte behind the direct blocks succeeds, but the first of them is lost: the
  turn for the second block loads the second-level pointer block from the card again, where the
  pointer of the first turn has not been stored. Afterwards the card has a pointer for the second
  block and none for the first.\<close>

theorem indirect_write_loses_block:
  assumes "fs_card B content" "k < NUM_FDESCS" "n < INODE_NUM" "ind_ok f" "blank content f"
    and "fd_inode_num (fdesc_array f k) = int n" "fd_offset (fdesc_array f k) = 28672"
    and "i_sec (inodes f n) 7 = 0" "8192 \<le> rsize buff"
    and "4 \<le> Finite_Set.card (block_alloc.free_set f)" "ancestors f (int n) ns"
  shows "\<exists>f' t y. do_write B (int k) buff 8192 f = Some (8192, f')
    \<and> i_sec (inodes f' n) 7 = of_nat t \<and> t \<noteq> 0 \<and> disk_ptr content f' t 0 = of_nat y \<and> y \<noteq> 0
    \<and> disk_ptr content f' y 0 = 0 \<and> disk_ptr content f' y 1 \<noteq> 0"
  using write_two_blocks [OF assms] by blast

theorem indirect_write_loses_block_witness:
  "\<exists>f'. do_write toy_bios 0 \<lparr>rsize = 8192, rbyte = (\<lambda>_. 0x77)\<rparr> 8192
     (upd_fdesc 0 (\<lambda>d. d\<lparr>fd_offset := 28672\<rparr>) demo_fs) = Some (8192, f')"
proof -
  let ?f = "upd_fdesc 0 (\<lambda>d. d\<lparr>fd_offset := 28672\<rparr>) demo_fs"
  have z: "0 < NUM_FDESCS" "1 < INODE_NUM" by (simp_all add: NUM_FDESCS_def INODE_NUM_def)
  have ok: "ind_ok ?f" by (simp add: ind_ok_def)
  have bl: "blank (\<lambda>d. d) ?f"
    by (auto simp: blank_def disk_block_def data_sector_def demo_card_def)
  have fr: "4 \<le> Finite_Set.card (block_alloc.free_set ?f)"
    using demo_free by (simp add: block_alloc.free_set_def)
  have an: "ancestors ?f (int 1) [1, 0]" by (simp add: INODE_NUM_def)
  from indirect_write_loses_block [OF toy_fs_card z ok bl _ _ _ _ fr an, of "\<lparr>rsize = 8192, rbyte = (\<lambda>_. 0x77)\<rparr>"]
  show ?thesis by auto
qed

lemma propagate_size_chain:
  fixes f f' :: "'d fs"
  assumes "propagate_size d it f = Some f'"
  shows "\<exists>ns. ancestors f it ns"
proof (rule propagate_size.raw_induct [where P = "\<lambda>d it f f'. \<exists>ns. ancestors f it ns", OF _ assms])
  fix loop :: "u32 \<Rightarrow> int \<Rightarrow> 'd fs \<Rightarrow> 'd fs option" and d it and f r :: "'d fs"
  assume IH: "\<And>d it (f :: 'd fs) r. loop d it f = Some r \<Longrightarrow> \<exists>ns. ancestors f it ns"
    and step: "(if it = -1 then Some f
      else do {
        n \<leftarrow> index it INODE_NUM;
        let f1 = upd_inode n (\<lambda>e. e\<lparr>i_size := i_size e + d\<rparr>) f;
        loop d (sint (i_parent (inodes f1 n))) f1 }) = Some r"
  show "\<exists>ns. ancestors f it ns"
  proof (cases "it = -1")
    case True
    then show ?thesis by (intro exI [of _ "[]"]) simp
  next
    case False
    then obtain n where n: "index it INODE_NUM = Some n"
      and l: "loop d (sint (i_parent (inodes f n))) (upd_inode n (\<lambda>e. e\<lparr>i_size := i_size e + d\<rparr>) f) = Some r"
      using step by (auto simp: Let_def bind_eq_Some_conv)
    obtain ns where "ancestors (upd_inode n (\<lambda>e. e\<lparr>i_size := i_size e + d\<rparr>) f) (sint (i_parent (inodes f n))) ns"
      using IH [OF l] by blast
    then have "ancestors f (sint (i_parent (inodes f n))) ns" by (rule ancestors_cong) simp
    then show ?thesis using n by (intro exI [of _ "n # ns"]) (auto simp: index_def split: if_splits)
  qed
qed

text \<open>(C29) The loop that carries a change of size to the directories above returns exactly when the parent
  pointers lead to the end mark -1: it runs for ever on a cycle, such as a directory that is its own
  parent (which is what \<open>do_mkdir\<close> makes of a parent that needs another block), and it leaves the
  inode table on any other number.\<close>

theorem propagate_size_returns:
  "(\<exists>f'. propagate_size d it f = Some f') \<longleftrightarrow> (\<exists>ns. ancestors f it ns)"
  using propagate_size_chain propagate_size_result by blast

text \<open>The last 57 blocks lie behind the end of the file system that its superblock states.\<close>

lemma last_blocks_outside:
  assumes "b < BLOCK_MAP_SIZE"
  shows "BLOCK_MAP_SIZE - 57 \<le> b \<longleftrightarrow>
    unat (fs_start_sec mkfs_superblock) + unat (fs_size mkfs_superblock) div SEC_SIZE < data_sector b + 8"
  by (simp add: mkfs_superblock_def Let_def data_sector_def BLOCK_MAP_SIZE_eq SEC_SIZE_def push_bit_eq_mult) arith

text \<open>(C30) Blocks and inodes are given out at most once: \<open>n\<close> calls of \<open>get_free_block\<close> in a row return the
  least free blocks of the block map in ascending order, and -1 once there are no more; the same
  holds for \<open>get_free_inode\<close> and the inode map. All 131072 blocks are given out, also the last 57, of which a
  comment in \<open>fs.c\<close> says that they cannot be used.\<close>

theorem allocation_order:
  "fst (allocs get_free_block n f) =
      (let free = sorted_list_of_set {b. b < BLOCK_MAP_SIZE \<and> block_map f b = 0}
       in map int (take n free) @ replicate (n - length free) (-1)) \<and>
   fst (allocs get_free_inode n f) =
      (let free = sorted_list_of_set {i. i < INODE_NUM \<and> inode_map f i = 0}
       in map int (take n free) @ replicate (n - length free) (-1))"
proof -
  have "block_alloc.free_set f = {b. b < BLOCK_MAP_SIZE \<and> block_map f b = 0}"
    "inode_alloc.free_set f = {i. i < INODE_NUM \<and> inode_map f i = 0}"
    by (simp_all add: block_alloc.free_set_def inode_alloc.free_set_def)
  with block_alloc.allocs_result [of n f] inode_alloc.allocs_result [of n f] show ?thesis
    by (simp add: Let_def)
qed

end
