(* ===== verification/Printk.thy ===== *)
theory Printk
  imports CString "HOL-Library.Signed_Division"
begin

text \<open>
  Number and text formatting of the kernel, \<open>libs/printk.c\<close>: \<open>mini_itoa\<close> writes a number into a
  small buffer back to front and reverses it, \<open>mini_vsnprintf\<close> interprets a format string and
  writes at most \<open>buffer_len\<close> bytes. The variable arguments are a list of machine words and
  strings. The specification is \<open>format_text\<close>, the text without any bound; the lemmas show that
  the code writes its first \<open>buffer_len - 1\<close> bytes.
\<close>

section \<open>Numbers\<close>

definition itoa_char :: "bool \<Rightarrow> int \<Rightarrow> u8" where
  "itoa_char uppercase digit =
     word_of_int (if digit < 10 then 0x30 + digit else (if uppercase then 0x41 else 0x61) + digit - 10)"

definition itoa_digit :: "bool \<Rightarrow> u32 \<Rightarrow> u64 \<Rightarrow> int" where
  "itoa_digit unsig radix value = (if unsig then uint value mod uint radix else sint value smod uint radix)"

definition itoa_next :: "bool \<Rightarrow> u32 \<Rightarrow> u64 \<Rightarrow> u64" where
  "itoa_next unsig radix value = (if unsig then value div ucast radix else word_of_int (sint value sdiv uint radix))"

text \<open>A radix of 0 divides by zero; with radix 1 the loop does not end.\<close>

partial_function (option) itoa_loop :: "u32 \<Rightarrow> bool \<Rightarrow> bool \<Rightarrow> u64 \<Rightarrow> region \<Rightarrow> nat \<Rightarrow> (region \<times> nat) option" where
  "itoa_loop radix uppercase unsig value buffer p =
     (if radix = 0 then None
      else do {
        buffer1 \<leftarrow> store buffer p (itoa_char uppercase (itoa_digit unsig radix value));
        let value1 = itoa_next unsig radix value;
        if value1 \<noteq> 0 then itoa_loop radix uppercase unsig value1 buffer1 (p + 1)
        else Some (buffer1, p + 1) })"

definition itoa_pad :: "u8 \<Rightarrow> nat \<Rightarrow> nat \<Rightarrow> region \<Rightarrow> region option" where
  "itoa_pad cpad p n_pad buffer = for_each (\<lambda>i r. store r i cpad) [p..<n_pad] buffer"

definition mini_itoa :: "u64 \<Rightarrow> u32 \<Rightarrow> bool \<Rightarrow> bool \<Rightarrow> region \<Rightarrow> u32 \<Rightarrow> u8 \<Rightarrow> (u32 \<times> region) option" where
  "mini_itoa value radix uppercase unsig buffer n_pad cpad =
     (if radix > 16 then Some (0, buffer)
      else do {
        let negative = (sint value < 0 \<and> \<not> unsig);
        (buffer1, p) \<leftarrow> itoa_loop radix uppercase unsig (if negative then - value else value) buffer 0;
        buffer2 \<leftarrow> itoa_pad cpad p (unat n_pad) buffer1;
        let q = max p (unat n_pad);
        (buffer3, len) \<leftarrow> (if negative then do { b \<leftarrow> store buffer2 q 0x2d; Some (b, q + 1) } else Some (buffer2, q));
        buffer4 \<leftarrow> store buffer3 len 0;
        buffer5 \<leftarrow> reverse_bytes len buffer4;
        Some (of_nat len, buffer5) })"

section \<open>Bounded output\<close>

text \<open>\<open>struct mini_buff\<close> as the buffer, the offset of \<open>pbuffer\<close> and \<open>buffer_len\<close>.\<close>

record mini_buff =
  out_bytes :: region
  out_pos :: nat
  out_len :: u32

definition out_full :: "mini_buff \<Rightarrow> bool" where
  "out_full b \<longleftrightarrow> of_nat (out_pos b + 1) \<ge> out_len b"

definition putc :: "u8 \<Rightarrow> mini_buff \<Rightarrow> mini_buff option" where
  "putc ch b =
     (if out_full b then Some b
      else do {
        r \<leftarrow> store (out_bytes b) (out_pos b) ch;
        r' \<leftarrow> store r (out_pos b + 1) 0;
        Some (b\<lparr>out_bytes := r', out_pos := out_pos b + 1\<rparr>) })"

definition puts_len :: "u32 \<Rightarrow> mini_buff \<Rightarrow> nat" where
  "puts_len len b = (let room = uint (out_len b) - int (out_pos b) - 1
     in if room < uint len then unat (word_of_int room :: u32) else unat len)"

text \<open>\<open>_puts\<close> with the source \<open>NULL\<close> writes blanks.\<close>

definition puts :: "(region \<times> nat) option \<Rightarrow> u32 \<Rightarrow> mini_buff \<Rightarrow> mini_buff option" where
  "puts s len b = do {
     let n = puts_len len b;
     r \<leftarrow> (case s of None \<Rightarrow> memset (out_bytes b) (out_pos b) 0x20 n
             | Some (src, q) \<Rightarrow> memcpy (out_bytes b) (out_pos b) src q n);
     r' \<leftarrow> store r (out_pos b + n) 0;
     Some (b\<lparr>out_bytes := r', out_pos := out_pos b + n\<rparr>) }"

section \<open>Format strings\<close>

datatype va_arg = Num u64 | Str region nat

definition is_digit :: "u8 \<Rightarrow> bool" where
  "is_digit ch \<longleftrightarrow> ch \<ge> 0x30 \<and> ch \<le> 0x39"

text \<open>The loop over the padding width: the character that ends it, the place behind it, the width.\<close>

partial_function (option) pad_scan :: "region \<Rightarrow> nat \<Rightarrow> u32 \<Rightarrow> (u8 \<times> nat \<times> u32) option" where
  "pad_scan fmt q n_pad = do {
     ch \<leftarrow> load fmt q;
     if is_digit ch then pad_scan fmt (q + 1) (n_pad * 10 + ucast ch - 0x30) else Some (ch, q + 1, n_pad) }"

definition va_long :: "bool \<Rightarrow> bool \<Rightarrow> u64 \<Rightarrow> u64" where
  "va_long longflag sgnd w =
     (if longflag then w else if sgnd then scast (ucast w :: u32) else ucast (ucast w :: u32))"

text \<open>The buffer \<open>bf\<close>; its bytes are written before they are read.\<close>

definition itoa_buffer :: region where "itoa_buffer = \<lparr>rsize = 24, rbyte = (\<lambda>_. 0)\<rparr>"

definition put_number :: "u8 \<Rightarrow> bool \<Rightarrow> u64 \<Rightarrow> u32 \<Rightarrow> u8 \<Rightarrow> mini_buff \<Rightarrow> mini_buff option" where
  "put_number ch longflag w n_pad c_pad b = do {
     (len, bf) \<leftarrow>
       (if ch = 0x75 then mini_itoa (va_long longflag False w) 10 False True itoa_buffer n_pad c_pad
        else if ch = 0x64 then mini_itoa (va_long longflag True w) 10 False False itoa_buffer n_pad c_pad
        else mini_itoa (va_long longflag False w) 16 (ch = 0x58) True itoa_buffer n_pad c_pad);
     puts (Some (bf, 0)) len b }"

definition put_string :: "region \<Rightarrow> nat \<Rightarrow> u32 \<Rightarrow> mini_buff \<Rightarrow> mini_buff option" where
  "put_string r s n_pad b = do {
     n \<leftarrow> strlen r s;
     let len = of_nat n;
     b1 \<leftarrow> puts (Some (r, s)) len b;
     if len < n_pad then puts None (n_pad - len) b1 else Some b1 }"

text \<open>The part behind a percent sign: \<open>True\<close> when the format string has ended, the place in the
  format string, the arguments that are left and the output.\<close>

definition conversion :: "region \<Rightarrow> nat \<Rightarrow> va_arg list \<Rightarrow> mini_buff \<Rightarrow> (bool \<times> nat \<times> va_arg list \<times> mini_buff) option" where
  "conversion fmt q va b = do {
     ch0 \<leftarrow> load fmt q;
     (ch1, q1, n_pad) \<leftarrow> (if is_digit ch0 then pad_scan fmt q 0 else Some (ch0, q + 1, 0));
     let c_pad = (if ch0 = 0x30 then 0x30 else 0x20);
     let longflag = (ch1 = 0x6c);
     (ch, q2) \<leftarrow> (if longflag then do { c \<leftarrow> load fmt q1; Some (c, q1 + 1) } else Some (ch1, q1));
     if ch = 0 then Some (True, q2, va, b)
     else if ch = 0x6c then Some (False, q2, va, b)
     else if ch = 0x75 \<or> ch = 0x64 \<or> ch = 0x78 \<or> ch = 0x58
     then (case va of Num w # va' \<Rightarrow> do { b' \<leftarrow> put_number ch longflag w n_pad c_pad b; Some (False, q2, va', b') }
             | _ \<Rightarrow> None)
     else if ch = 0x63
     then (case va of Num w # va' \<Rightarrow> do { b' \<leftarrow> putc (ucast w) b; Some (False, q2, va', b') } | _ \<Rightarrow> None)
     else if ch = 0x73
     then (case va of Str r s # va' \<Rightarrow> do { b' \<leftarrow> put_string r s n_pad b; Some (False, q2, va', b') } | _ \<Rightarrow> None)
     else do { b' \<leftarrow> putc ch b; Some (False, q2, va, b') } }"

partial_function (option) vsnprintf_loop :: "region \<Rightarrow> nat \<Rightarrow> va_arg list \<Rightarrow> mini_buff \<Rightarrow> mini_buff option" where
  "vsnprintf_loop fmt q va b = do {
     ch \<leftarrow> load fmt q;
     if ch = 0 \<or> out_full b then Some b
     else if ch \<noteq> 0x25 then do { b' \<leftarrow> putc ch b; vsnprintf_loop fmt (q + 1) va b' }
     else do {
       (ended, q', va', b') \<leftarrow> conversion fmt (q + 1) va b;
       if ended then Some b' else vsnprintf_loop fmt q' va' b' } }"

definition mini_vsnprintf :: "region \<Rightarrow> u32 \<Rightarrow> region \<Rightarrow> va_arg list \<Rightarrow> (nat \<times> region) option" where
  "mini_vsnprintf buffer buffer_len fmt va = do {
     b \<leftarrow> vsnprintf_loop fmt 0 va \<lparr>out_bytes = buffer, out_pos = 0, out_len = buffer_len\<rparr>;
     Some (out_pos b, out_bytes b) }"

text \<open>\<open>_vprint\<close> hands its buffer to the output function.\<close>

definition vprint_buffer :: region where "vprint_buffer = \<lparr>rsize = 256, rbyte = (\<lambda>_. 0)\<rparr>"

definition vprint :: "region \<Rightarrow> va_arg list \<Rightarrow> (region \<Rightarrow> 's \<Rightarrow> 's option) \<Rightarrow> 's \<Rightarrow> (nat \<times> 's) option" where
  "vprint fmt va output s = do {
     (ret, buff) \<leftarrow> mini_vsnprintf vprint_buffer 256 fmt va;
     buff' \<leftarrow> store buff ret 0;
     s' \<leftarrow> output buff' s;
     Some (ret, s') }"

section \<open>Digits\<close>

text \<open>The digits of a number, most significant first.\<close>

fun digits :: "nat \<Rightarrow> nat \<Rightarrow> nat list" where
  "digits r n = (if r < 2 \<or> n < r then [n] else digits r (n div r) @ [n mod r])"

declare digits.simps [simp del]

lemma digits_small: "n < r \<Longrightarrow> digits r n = [n]"
  by (simp add: digits.simps)

lemma digits_step: "2 \<le> r \<Longrightarrow> r \<le> n \<Longrightarrow> digits r n = digits r (n div r) @ [n mod r]"
  by (subst digits.simps) simp

lemma digits_bound: "2 \<le> r \<Longrightarrow> d \<in> set (digits r n) \<Longrightarrow> d < r"
proof (induction r n rule: digits.induct)
  case (1 r n)
  then show ?case by (cases "n < r") (auto simp: digits_small digits_step)
qed

definition number_of :: "nat \<Rightarrow> nat list \<Rightarrow> nat" where
  "number_of r ds = foldl (\<lambda>a d. a * r + d) 0 ds"

lemma number_of_digits: "2 \<le> r \<Longrightarrow> number_of r (digits r n) = n"
proof (induction r n rule: digits.induct)
  case (1 r n)
  then show ?case by (cases "n < r") (simp_all add: digits_small digits_step number_of_def)
qed

lemma digits_length: "2 \<le> r \<Longrightarrow> n < r ^ k \<Longrightarrow> 0 < k \<Longrightarrow> length (digits r n) \<le> k"
proof (induction k arbitrary: n)
  case (Suc k)
  show ?case
  proof (cases "n < r")
    case False
    then have "0 < k" using Suc.prems(2) by (cases k) auto
    moreover have "n div r < r ^ k" using Suc.prems by (simp add: less_mult_imp_div_less mult.commute)
    ultimately show ?thesis using False Suc.IH [of "n div r"] Suc.prems(1) by (simp add: digits_step)
  qed (simp add: digits_small)
qed simp

lemma digits_leading: "2 \<le> r \<Longrightarrow> length (digits r n) = 1 \<or> hd (digits r n) \<noteq> 0"
proof (induction r n rule: digits.induct)
  case (1 r n)
  show ?case
  proof (cases "n < r")
    case False
    have ne: "digits r (n div r) \<noteq> []" by (subst digits.simps) simp
    have "digits r (n div r) = [n div r] \<or> hd (digits r (n div r)) \<noteq> 0"
    proof (cases "n div r < r")
      case step: False
      then have "length (digits r (n div r)) \<noteq> 1"
        using "1.prems" by (subst digits_step, simp, simp) (subst digits.simps, simp)
      then show ?thesis using "1.IH" "1.prems" False by simp
    qed (simp add: digits_small)
    moreover have "n div r \<noteq> 0" using False "1.prems" by (simp add: div_eq_0_iff)
    ultimately show ?thesis using False "1.prems" ne by (auto simp: digits_step)
  qed (simp add: digits_small)
qed

text \<open>Value and bounds determine the digits.\<close>

lemma digits_unique:
  "2 \<le> r \<Longrightarrow> ds \<noteq> [] \<Longrightarrow> \<forall>d \<in> set ds. d < r \<Longrightarrow> length ds = 1 \<or> hd ds \<noteq> 0 \<Longrightarrow> digits r (number_of r ds) = ds"
proof (induction ds rule: rev_induct)
  case (snoc d ds)
  have n: "number_of r (ds @ [d]) = number_of r ds * r + d" by (simp add: number_of_def)
  have d: "d < r" using snoc.prems(3) by simp
  show ?case
  proof (cases "ds = []")
    case True
    then show ?thesis using d by (simp add: number_of_def digits_small)
  next
    case False
    then have "hd ds \<noteq> 0" using snoc.prems(4) by (cases ds) auto
    then have IH: "digits r (number_of r ds) = ds" using snoc False by simp
    have "number_of r ds \<noteq> 0"
    proof
      assume "number_of r ds = 0"
      then have "ds = [0]" using IH snoc.prems(1) by (simp add: digits_small)
      then show False using \<open>hd ds \<noteq> 0\<close> by simp
    qed
    then have "r \<le> number_of r ds * r + d" by (cases "number_of r ds") auto
    then show ?thesis using IH d snoc.prems(1) unfolding n by (simp add: digits_step)
  qed
qed simp

text \<open>The text of a number: sign, padding, digits.\<close>

definition digits_text :: "bool \<Rightarrow> nat \<Rightarrow> nat \<Rightarrow> u8 list" where
  "digits_text uppercase r n = map (\<lambda>d. itoa_char uppercase (int d)) (digits r n)"

definition number_text :: "u64 \<Rightarrow> nat \<Rightarrow> bool \<Rightarrow> bool \<Rightarrow> nat \<Rightarrow> u8 \<Rightarrow> u8 list" where
  "number_text value r uppercase unsig n_pad cpad =
     (let ds = digits_text uppercase r (if unsig then unat value else nat \<bar>sint value\<bar>)
      in (if \<not> unsig \<and> sint value < 0 then [0x2d] else []) @ replicate (n_pad - length ds) cpad @ ds)"

lemma itoa_step:
  assumes "unsig \<or> 0 \<le> sint v" "0 < unat radix"
  shows "itoa_digit unsig radix v = int (unat v mod unat radix)"
    "unat (itoa_next unsig radix v) = unat v div unat radix"
    "unsig \<or> 0 \<le> sint (itoa_next unsig radix v)"
proof -
  have r: "0 < uint radix" using assms(2) by (simp only: unat_eq_nat_uint zero_less_nat_eq)
  have "unat radix < 2 ^ LENGTH(32)" by (rule unsigned_less)
  then have "unat radix < 2 ^ 64" by simp
  then have u: "unat (ucast radix :: u64) = unat radix" by (simp add: unsigned_ucast_eq take_bit_nat_eq_self)
  have s: "\<not> unsig \<Longrightarrow> sint v = uint v" using assms(1) sint_nonneg by auto
  show d: "itoa_digit unsig radix v = int (unat v mod unat radix)"
    using s r by (cases unsig) (simp_all add: itoa_digit_def smod_pos zmod_int)
  have n: "\<not> unsig \<Longrightarrow> itoa_next unsig radix v = word_of_int (uint v div uint radix)"
    using s r by (simp add: itoa_next_def sdiv_pos)
  have q: "0 \<le> uint v div uint radix" "uint v div uint radix \<le> uint v"
    using r zdiv_mono2 [of "uint v" 1 "uint radix"] by (simp_all add: pos_imp_zdiv_nonneg_iff)
  have b: "uint v < 2 ^ 64" using uint_lt2p [of v] by simp
  show "unat (itoa_next unsig radix v) = unat v div unat radix"
  proof (cases unsig)
    case True
    then show ?thesis using u by (simp add: itoa_next_def unat_div_distrib)
  next
    case False
    have "uint (word_of_int (uint v div uint radix) :: u64) = uint v div uint radix"
      using q b by (simp add: uint_word_of_int)
    then have "int (unat (itoa_next unsig radix v)) = int (unat v div unat radix)"
      using n [OF False] by (simp add: zdiv_int)
    then show ?thesis by (simp only: of_nat_eq_iff)
  qed
  show "unsig \<or> 0 \<le> sint (itoa_next unsig radix v)"
  proof (cases unsig)
    case False
    have "uint v div uint radix < 9223372036854775808"
      using q s [OF False] sint_bounds64 [of v] by linarith
    then have "sint (word_of_int (uint v div uint radix) :: u64) = uint v div uint radix"
      using q by (simp add: signed_of_int signed_take_bit_int_eq_self)
    then show ?thesis using n [OF False] q by simp
  qed simp
qed

lemma itoa_loop_result:
  assumes "2 \<le> unat radix" "unsig \<or> 0 \<le> sint v" "n = unat v"
    and "length xs + length (digits (unat radix) n) \<le> rsize r"
  shows "itoa_loop radix uppercase unsig v (with_prefix r xs) (length xs) =
    Some (with_prefix r (xs @ rev (digits_text uppercase (unat radix) n)), length xs + length (digits (unat radix) n))"
  using assms
proof (induction "unat radix" n arbitrary: v xs rule: digits.induct)
  case (1 n)
  let ?r = "unat radix"
  have r0: "radix \<noteq> 0" "0 < ?r" using "1.prems"(1) by auto
  note step = itoa_step [OF "1.prems"(2) r0(2)]
  have l: "length xs < rsize r" using "1.prems"(4) by (subst (asm) digits.simps) (auto split: if_splits)
  have st: "store (with_prefix r xs) (length xs) (itoa_char uppercase (itoa_digit unsig radix v)) =
      Some (with_prefix r (xs @ [itoa_char uppercase (int (n mod ?r))]))"
    unfolding step(1) "1.prems"(3) by (rule with_prefix_store [OF l])
  have v: "unat (itoa_next unsig radix v) = n div ?r" using step(2) "1.prems"(3) by simp
  show ?case
  proof (cases "n < ?r")
    case True
    then have "itoa_next unsig radix v = 0" using v by (simp add: unat_eq_zero)
    then show ?thesis using True st r0 by (subst itoa_loop.simps) (simp add: digits_small digits_text_def)
  next
    case False
    have "n div ?r \<noteq> 0" using False r0 by (simp add: div_eq_0_iff)
    then have nz: "itoa_next unsig radix v \<noteq> 0" using v by auto
    have ge: "\<not> (?r < 2 \<or> n < ?r)" using False "1.prems"(1) by simp
    have "length (xs @ [itoa_char uppercase (int (n mod ?r))]) + length (digits ?r (n div ?r)) \<le> rsize r"
      using "1.prems"(1,4) False by (simp add: digits_step)
    note IH = "1.hyps" [OF ge "1.prems"(1) step(3) v [symmetric] this]
    then show ?thesis using st r0 nz False "1.prems"(1)
      by (subst itoa_loop.simps) (simp add: digits_step digits_text_def)
  qed
qed

lemma itoa_pad_result:
  assumes "max (length xs) n \<le> rsize r"
  shows "itoa_pad c (length xs) n (with_prefix r xs) = Some (with_prefix r (xs @ replicate (n - length xs) c))"
  using assms
proof (induction "n - length xs" arbitrary: xs)
  case 0
  then show ?case by (simp add: itoa_pad_def)
next
  case (Suc k)
  then have l: "length xs < n" by simp
  then have "store (with_prefix r xs) (length xs) c = Some (with_prefix r (xs @ [c]))"
    using Suc.prems by (intro with_prefix_store) simp
  moreover have "itoa_pad c (length (xs @ [c])) n (with_prefix r (xs @ [c]))
      = Some (with_prefix r ((xs @ [c]) @ replicate (n - length (xs @ [c])) c))"
    by (rule Suc.hyps(1)) (use Suc.hyps(2) Suc.prems l in auto)
  moreover have "n - length xs = Suc (n - Suc (length xs))" using l by simp
  ultimately show ?case using l by (simp add: itoa_pad_def upt_conv_Cons)
qed

lemma magnitude:
  fixes v :: u64
  assumes "unsig \<or> sint v \<noteq> - 9223372036854775808"
  defines "w \<equiv> if sint v < 0 \<and> \<not> unsig then - v else v"
  shows "unsig \<or> 0 \<le> sint w" "unat w = (if unsig then unat v else nat \<bar>sint v\<bar>)"
proof -
  have s: "sint w = \<bar>sint v\<bar>" if "\<not> unsig"
    using assms(1) sint_uminus64 [of v] that by (simp add: w_def)
  then show "unsig \<or> 0 \<le> sint w" by fastforce
  have "unat w = nat \<bar>sint v\<bar>" if "\<not> unsig"
  proof -
    have "uint w = \<bar>sint v\<bar>" using sint_nonneg [of w] s [OF that] by linarith
    then show ?thesis by (simp only: unat_eq_nat_uint)
  qed
  moreover have "unat w = unat v" if "unsig" using that by (simp add: w_def)
  ultimately show "unat w = (if unsig then unat v else nat \<bar>sint v\<bar>)" by simp
qed

text \<open>\<open>mini_itoa\<close> in full: the text of the number, terminated, when the buffer has room for it.\<close>

lemma mini_itoa_result:
  assumes "2 \<le> unat radix" "radix \<le> 16" "unsig \<or> sint v \<noteq> - 9223372036854775808"
    and "txt = number_text v (unat radix) uppercase unsig (unat n_pad) cpad" "length txt < rsize r"
  shows "mini_itoa v radix uppercase unsig r n_pad cpad = Some (of_nat (length txt), with_prefix r (txt @ [0]))"
proof -
  define neg where "neg \<longleftrightarrow> sint v < 0 \<and> \<not> unsig"
  define w where "w = (if neg then - v else v)"
  define ds where "ds = digits_text uppercase (unat radix) (unat w)"
  define pad where "pad = replicate (unat n_pad - length ds) cpad"
  have w: "unsig \<or> 0 \<le> sint w" "unat w = (if unsig then unat v else nat \<bar>sint v\<bar>)"
    using magnitude [OF assms(3)] by (auto simp: w_def neg_def)
  have len: "length (digits (unat radix) (unat w)) = length ds" by (simp add: ds_def digits_text_def)
  have txt_eq: "txt = (if neg then [0x2d] else []) @ pad @ ds"
    using assms(4) w(2) by (auto simp: number_text_def Let_def ds_def pad_def neg_def)
  then have rev: "rev txt = (rev ds @ pad) @ (if neg then [0x2d] else [])" by (simp add: pad_def)
  have room: "length (rev ds @ pad) + (if neg then 1 else 0) < rsize r" "length (rev ds @ pad) = max (length ds) (unat n_pad)"
    using assms(5) txt_eq by (auto simp: pad_def)
  have 1: "itoa_loop radix uppercase unsig w r 0 = Some (with_prefix r (rev ds), length ds)"
    using itoa_loop_result [OF assms(1) w(1) refl, of "[]" r uppercase] room len by (simp add: ds_def)
  have 2: "itoa_pad cpad (length ds) (unat n_pad) (with_prefix r (rev ds)) = Some (with_prefix r (rev ds @ pad))"
    using itoa_pad_result [of "rev ds" "unat n_pad" r cpad] room by (simp add: pad_def split: if_splits)
  have 3: "(if neg then do { b \<leftarrow> store (with_prefix r (rev ds @ pad)) (length (rev ds @ pad)) 0x2d;
        Some (b, length (rev ds @ pad) + 1) }
      else Some (with_prefix r (rev ds @ pad), length (rev ds @ pad))) = Some (with_prefix r (rev txt), length (rev txt))"
    using room(1) with_prefix_store [where xs = "rev ds @ pad"] unfolding rev by (cases neg) simp_all
  have 4: "store (with_prefix r (rev txt)) (length (rev txt)) 0 = Some (with_prefix r (rev txt @ [0]))"
    using assms(5) by (intro with_prefix_store) simp
  have 5: "reverse_bytes (length (rev txt)) (with_prefix r (rev txt @ [0])) = Some (with_prefix r (txt @ [0]))"
    using reverse_bytes_prefix [of "rev txt" "[0]" r] assms(5) by simp
  have le: "\<not> 16 < radix" using assms(2) by simp
  show ?thesis
    unfolding mini_itoa_def Let_def if_not_P [OF le] neg_def [symmetric] w_def [symmetric] 1 bind.bind_lunit prod.case
      2 room(2) [symmetric] 3 4 5 by simp
qed

section \<open>The text that a format string stands for\<close>

definition number_spec :: "u8 \<Rightarrow> bool \<Rightarrow> u64 \<Rightarrow> u32 \<Rightarrow> u8 \<Rightarrow> u8 list" where
  "number_spec ch longflag w n_pad c_pad =
     number_text (va_long longflag (ch = 0x64) w) (if ch = 0x75 \<or> ch = 0x64 then 10 else 16) (ch = 0x58) (ch \<noteq> 0x64)
       (unat n_pad) c_pad"

text \<open>The code composes the text in a buffer of 24 bytes, terminator included, and negates a negative
  number; \<open>number_fits\<close> says that there is room and that the negation does not overflow.\<close>

definition number_fits :: "u8 \<Rightarrow> bool \<Rightarrow> u64 \<Rightarrow> u32 \<Rightarrow> bool" where
  "number_fits ch longflag w n_pad \<longleftrightarrow> length (number_spec ch longflag w n_pad 0x20) < 24
     \<and> (ch = 0x64 \<longrightarrow> sint (va_long longflag True w) \<noteq> - 9223372036854775808)"

definition string_spec :: "region \<Rightarrow> nat \<Rightarrow> u32 \<Rightarrow> u8 list option" where
  "string_spec r s n_pad = do {
     t \<leftarrow> string_at r s;
     if length t < 4294967296 then Some (t @ replicate (unat n_pad - length t) 0x20) else None }"

definition pad_width :: "u8 list \<Rightarrow> u32" where
  "pad_width ds = foldl (\<lambda>n ch. n * 10 + ucast ch - 0x30) 0 ds"

text \<open>Text, rest of the format string and arguments left, after a percent sign.\<close>

definition conversion_text :: "u8 list \<Rightarrow> va_arg list \<Rightarrow> (u8 list \<times> u8 list \<times> va_arg list) option" where
  "conversion_text cs va =
     (let n_pad = pad_width (takeWhile is_digit cs);
          c_pad = (if cs \<noteq> [] \<and> hd cs = 0x30 then 0x30 else 0x20);
          cs1 = dropWhile is_digit cs;
          longflag = (cs1 \<noteq> [] \<and> hd cs1 = 0x6c);
          cs2 = (if longflag then tl cs1 else cs1)
      in case cs2 of [] \<Rightarrow> Some ([], [], va)
         | ch # cs' \<Rightarrow>
             if ch = 0x6c then Some ([], cs', va)
             else if ch = 0x75 \<or> ch = 0x64 \<or> ch = 0x78 \<or> ch = 0x58
             then (case va of Num w # va' \<Rightarrow> Some (number_spec ch longflag w n_pad c_pad, cs', va') | _ \<Rightarrow> None)
             else if ch = 0x63 then (case va of Num w # va' \<Rightarrow> Some ([ucast w], cs', va') | _ \<Rightarrow> None)
             else if ch = 0x73 then (case va of Str r s # va' \<Rightarrow> do { t \<leftarrow> string_spec r s n_pad; Some (t, cs', va') } | _ \<Rightarrow> None)
             else Some ([ch], cs', va))"

lemma conversion_text_shorter: "conversion_text cs va = Some (t, cs', va') \<Longrightarrow> length cs' \<le> length cs"
proof -
  assume c: "conversion_text cs va = Some (t, cs', va')"
  define cs1 where "cs1 = dropWhile is_digit cs"
  have l: "length cs1 \<le> length cs" unfolding cs1_def by (rule length_dropWhile_le)
  define cs2 where "cs2 = (if cs1 \<noteq> [] \<and> hd cs1 = 0x6c then tl cs1 else cs1)"
  have l2: "length cs2 \<le> length cs" using l by (auto simp: cs2_def)
  have "cs' = tl cs2"
    using c unfolding conversion_text_def Let_def cs1_def [symmetric] cs2_def [symmetric]
    by (cases cs2) (auto simp: bind_eq_Some_conv split: if_splits list.splits va_arg.splits)
  then show ?thesis using l2 by simp
qed

function format_text :: "u8 list \<Rightarrow> va_arg list \<Rightarrow> u8 list option" where
  "format_text [] va = Some []"
| "format_text (c # cs) va =
     (if c \<noteq> 0x25 then map_option ((#) c) (format_text cs va)
      else case conversion_text cs va of None \<Rightarrow> None
           | Some (t, cs', va') \<Rightarrow> map_option ((@) t) (format_text cs' va'))"
  by pat_completeness auto
termination by (relation "measure (\<lambda>(cs, va). length cs)") (auto dest: conversion_text_shorter)

text \<open>Every number of a format string fits.\<close>

definition conversion_fits :: "u8 list \<Rightarrow> va_arg list \<Rightarrow> bool" where
  "conversion_fits cs va \<longleftrightarrow>
     (let n_pad = pad_width (takeWhile is_digit cs);
          cs1 = dropWhile is_digit cs;
          longflag = (cs1 \<noteq> [] \<and> hd cs1 = 0x6c);
          cs2 = (if longflag then tl cs1 else cs1)
      in case cs2 of [] \<Rightarrow> True
         | ch # _ \<Rightarrow> (ch = 0x75 \<or> ch = 0x64 \<or> ch = 0x78 \<or> ch = 0x58) \<longrightarrow>
             (case va of Num w # _ \<Rightarrow> number_fits ch longflag w n_pad | _ \<Rightarrow> True))"

function numbers_fit :: "u8 list \<Rightarrow> va_arg list \<Rightarrow> bool" where
  "numbers_fit [] va = True"
| "numbers_fit (c # cs) va =
     (if c \<noteq> 0x25 then numbers_fit cs va
      else conversion_fits cs va \<and> (case conversion_text cs va of None \<Rightarrow> True | Some (t, cs', va') \<Rightarrow> numbers_fit cs' va'))"
  by pat_completeness auto
termination by (relation "measure (\<lambda>(cs, va). length cs)") (auto dest: conversion_text_shorter)

section \<open>The output buffer\<close>

text \<open>The bytes \<open>xs\<close> have been written, nothing behind the first \<open>n\<close> bytes has changed.\<close>

definition holds :: "region \<Rightarrow> u32 \<Rightarrow> u8 list \<Rightarrow> mini_buff \<Rightarrow> bool" where
  "holds buffer n xs b \<longleftrightarrow> rsize (out_bytes b) = rsize buffer \<and> unat n \<le> rsize buffer
     \<and> out_pos b = length xs \<and> out_len b = n \<and> length xs < unat n
     \<and> (\<forall>i < length xs. rbyte (out_bytes b) i = xs ! i) \<and> (\<forall>i \<ge> unat n. rbyte (out_bytes b) i = rbyte buffer i)"

lemma out_full_iff: "holds buffer n xs b \<Longrightarrow> out_full b \<longleftrightarrow> length xs = unat n - 1"
proof -
  assume h: "holds buffer n xs b"
  have "unat n < 2 ^ LENGTH(32)" by (rule unsigned_less)
  then have "unat (of_nat (length xs + 1) :: u32) = length xs + 1" using h by (intro unat_of_nat32) (simp add: holds_def)
  then show ?thesis using h by (auto simp: out_full_def holds_def word_le_nat_alt simp del: of_nat_add)
qed

lemma puts_len_eq: "holds buffer n xs b \<Longrightarrow> puts_len len b = min (unat n - 1 - length xs) (unat len)"
proof -
  assume h: "holds buffer n xs b"
  then have room: "uint (out_len b) - int (out_pos b) - 1 = int (unat n - 1 - length xs)"
    by (simp add: holds_def of_nat_diff)
  have "unat n < 2 ^ LENGTH(32)" by (rule unsigned_less)
  then have "unat (word_of_int (int (unat n - 1 - length xs)) :: u32) = unat n - 1 - length xs"
    unfolding of_int_of_nat_eq by (intro unat_of_nat32) simp
  moreover have "uint len = int (unat len)" by simp
  then have "int k < uint len \<longleftrightarrow> k < unat len" for k by (simp only: of_nat_less_iff)
  ultimately show ?thesis unfolding puts_len_def Let_def room by (simp only: min_def) auto
qed

lemma take_append_room:
  "length xs < n \<Longrightarrow> length ys = k \<Longrightarrow> xs @ take (min (n - 1 - length xs) k) ys = take (n - 1) (xs @ ys)"
  by (cases "n - 1 - length xs \<le> length ys") (simp_all add: min_def)

lemma putc_result:
  assumes "holds buffer n xs b"
  obtains b' where "putc ch b = Some b'" "holds buffer n (take (unat n - 1) (xs @ [ch])) b'"
proof (cases "out_full b")
  case True
  then have "take (unat n - 1) (xs @ [ch]) = xs" using out_full_iff [OF assms] by simp
  then show ?thesis using True assms that by (simp add: putc_def)
next
  case False
  then have l: "length xs + 1 < unat n" using out_full_iff [OF assms] assms unfolding holds_def by linarith
  then have t: "take (unat n - 1) (xs @ [ch]) = xs @ [ch]" by simp
  let ?r = "(out_bytes b)\<lparr>rbyte := (rbyte (out_bytes b))(length xs := ch, length xs + 1 := 0)\<rparr>"
  have "putc ch b = Some (b\<lparr>out_bytes := ?r, out_pos := length xs + 1\<rparr>)"
    using False l assms by (simp add: putc_def holds_def store_def)
  moreover have "holds buffer n (xs @ [ch]) (b\<lparr>out_bytes := ?r, out_pos := length xs + 1\<rparr>)"
    using l assms by (auto simp: holds_def nth_append less_Suc_eq)
  ultimately show ?thesis using that t by simp
qed

lemma holds_full: "holds buffer n xs b \<Longrightarrow> take (unat n - 1) xs = xs"
proof (rule take_all)
  show "holds buffer n xs b \<Longrightarrow> length xs \<le> unat n - 1" unfolding holds_def by linarith
qed

text \<open>Both forms of \<open>_puts\<close>: the bytes \<open>ys\<close> as far as there is room.\<close>

lemma puts_written:
  assumes "holds buffer n xs b" "m \<le> unat n - 1 - length xs" "m \<le> length ys"
  obtains b' where "(do { r' \<leftarrow> store ((out_bytes b)\<lparr>rbyte := blit (rbyte (out_bytes b)) (out_pos b) m (\<lambda>k. ys ! k)\<rparr>)
      (out_pos b + m) 0; Some (b\<lparr>out_bytes := r', out_pos := out_pos b + m\<rparr>) }) = Some b'"
    "holds buffer n (xs @ take m ys) b'"
proof -
  let ?r = "(out_bytes b)\<lparr>rbyte := (blit (rbyte (out_bytes b)) (length xs) m (\<lambda>k. ys ! k))(length xs + m := 0)\<rparr>"
  have l: "length xs + m < unat n" using assms by (auto simp: holds_def)
  have "holds buffer n (xs @ take m ys) (b\<lparr>out_bytes := ?r, out_pos := out_pos b + m\<rparr>)"
    using assms l by (auto simp: holds_def blit_def nth_append)
  then show ?thesis using assms l that by (simp add: holds_def store_def)
qed

lemma puts_string:
  assumes h: "holds buffer n xs b" and s: "s + unat len \<le> rsize r" "length ys = unat len" "\<And>k. k < unat len \<Longrightarrow> rbyte r (s + k) = ys ! k"
  obtains b' where "puts (Some (r, s)) len b = Some b'" "holds buffer n (take (unat n - 1) (xs @ ys)) b'"
proof -
  define m where "m = puts_len len b"
  have m: "m = min (unat n - 1 - length xs) (unat len)" using puts_len_eq [OF h] by (simp add: m_def)
  have "length xs < unat n" "unat n \<le> rsize (out_bytes b)" "out_pos b = length xs" using h by (auto simp: holds_def)
  then have "memcpy (out_bytes b) (out_pos b) r s m =
      Some ((out_bytes b)\<lparr>rbyte := blit (rbyte (out_bytes b)) (out_pos b) m (\<lambda>k. ys ! k)\<rparr>)"
    using s m blit_cong [of m "\<lambda>k. rbyte r (s + k)" "\<lambda>k. ys ! k"] by (subst memcpy_eq) auto
  moreover obtain b' where "(do { r' \<leftarrow> store ((out_bytes b)\<lparr>rbyte := blit (rbyte (out_bytes b)) (out_pos b) m (\<lambda>k. ys ! k)\<rparr>)
      (out_pos b + m) 0; Some (b\<lparr>out_bytes := r', out_pos := out_pos b + m\<rparr>) }) = Some b'"
    "holds buffer n (xs @ take m ys) b'"
    by (rule puts_written [OF h, of m ys]) (use m s(2) in auto)
  moreover have "xs @ take m ys = take (unat n - 1) (xs @ ys)"
    using h s(2) unfolding m by (intro take_append_room) (simp_all add: holds_def)
  ultimately show ?thesis using that by (simp add: puts_def m_def Let_def)
qed

lemma puts_blanks:
  assumes h: "holds buffer n xs b"
  obtains b' where "puts None len b = Some b'" "holds buffer n (take (unat n - 1) (xs @ replicate (unat len) 0x20)) b'"
proof -
  let ?ys = "replicate (unat len) 0x20"
  define m where "m = puts_len len b"
  have m: "m = min (unat n - 1 - length xs) (unat len)" using puts_len_eq [OF h] by (simp add: m_def)
  have "length xs < unat n" "unat n \<le> rsize (out_bytes b)" "out_pos b = length xs" using h by (auto simp: holds_def)
  then have "memset (out_bytes b) (out_pos b) 0x20 m =
      Some ((out_bytes b)\<lparr>rbyte := blit (rbyte (out_bytes b)) (out_pos b) m (\<lambda>k. ?ys ! k)\<rparr>)"
    using m blit_cong [of m "\<lambda>k. 0x20 :: u8" "\<lambda>k. ?ys ! k"] by (subst memset_eq) auto
  moreover obtain b' where "(do { r' \<leftarrow> store ((out_bytes b)\<lparr>rbyte := blit (rbyte (out_bytes b)) (out_pos b) m (\<lambda>k. ?ys ! k)\<rparr>)
      (out_pos b + m) 0; Some (b\<lparr>out_bytes := r', out_pos := out_pos b + m\<rparr>) }) = Some b'"
    "holds buffer n (xs @ take m ?ys) b'"
    by (rule puts_written [OF h, of m ?ys]) (use m in auto)
  moreover have "xs @ take m ?ys = take (unat n - 1) (xs @ ?ys)"
    using h unfolding m by (intro take_append_room) (simp_all add: holds_def)
  ultimately show ?thesis using that by (simp add: puts_def m_def Let_def)
qed

section \<open>Conversions\<close>

lemma take_append_twice: "take n (take n (xs @ ys) @ zs) = take n (xs @ ys @ zs)"
  by (simp add: min_def)

lemma number_spec_length: "length (number_spec ch longflag w n_pad c) = length (number_spec ch longflag w n_pad c')"
  by (simp add: number_spec_def number_text_def Let_def)

lemma number_spec_result:
  assumes h: "holds buffer n xs b" and t: "t = number_spec ch longflag w n_pad c_pad" and fits: "number_fits ch longflag w n_pad"
    and ch: "ch = 0x75 \<or> ch = 0x64 \<or> ch = 0x78 \<or> ch = 0x58"
  obtains b' where "put_number ch longflag w n_pad c_pad b = Some b'" "holds buffer n (take (unat n - 1) (xs @ t)) b'"
proof -
  let ?v = "va_long longflag (ch = 0x64) w"
  let ?t = "number_text ?v (if ch = 0x75 \<or> ch = 0x64 then 10 else 16) (ch = 0x58) (ch \<noteq> 0x64) (unat n_pad) c_pad"
  have t': "t = ?t" "length t < 24" "ch = 0x64 \<longrightarrow> sint ?v \<noteq> - 9223372036854775808"
    using fits number_spec_length [of ch longflag w n_pad "0x20" c_pad] by (simp_all add: t number_fits_def) (simp add: number_spec_def)
  have "(if ch = 0x75 then mini_itoa (va_long longflag False w) 10 False True itoa_buffer n_pad c_pad
        else if ch = 0x64 then mini_itoa (va_long longflag True w) 10 False False itoa_buffer n_pad c_pad
        else mini_itoa (va_long longflag False w) 16 (ch = 0x58) True itoa_buffer n_pad c_pad)
      = mini_itoa ?v (if ch = 0x75 \<or> ch = 0x64 then 10 else 16) (ch = 0x58) (ch \<noteq> 0x64) itoa_buffer n_pad c_pad"
    using ch by (elim disjE) simp_all
  also have "\<dots> = Some (of_nat (length t), with_prefix itoa_buffer (t @ [0]))"
    using t' ch by (intro mini_itoa_result) (auto simp: itoa_buffer_def)
  finally have m: "(if ch = 0x75 then mini_itoa (va_long longflag False w) 10 False True itoa_buffer n_pad c_pad
        else if ch = 0x64 then mini_itoa (va_long longflag True w) 10 False False itoa_buffer n_pad c_pad
        else mini_itoa (va_long longflag False w) 16 (ch = 0x58) True itoa_buffer n_pad c_pad)
      = Some (of_nat (length t), with_prefix itoa_buffer (t @ [0]))" .
  have len: "unat (of_nat (length t) :: u32) = length t" using t'(2) by (intro unat_of_nat32) simp
  obtain b' where "puts (Some (with_prefix itoa_buffer (t @ [0]), 0)) (of_nat (length t)) b = Some b'"
    "holds buffer n (take (unat n - 1) (xs @ t)) b'"
    by (rule puts_string [OF h, of 0 "of_nat (length t)" "with_prefix itoa_buffer (t @ [0])" t])
      (use t'(2) len in \<open>simp_all add: itoa_buffer_def nth_append\<close>)
  then show ?thesis using that m by (simp add: put_number_def)
qed

lemma string_spec_result:
  assumes h: "holds buffer n xs b" and t: "string_spec r s n_pad = Some t"
  obtains b' where "put_string r s n_pad b = Some b'" "holds buffer n (take (unat n - 1) (xs @ t)) b'"
proof -
  obtain ys where ys: "string_at r s = Some ys" "length ys < 4294967296"
    "t = ys @ replicate (unat n_pad - length ys) 0x20"
    using t by (auto simp: string_spec_def bind_eq_Some_conv split: if_splits)
  have c: "cstr r s ys" by (rule string_at_cstrD [OF ys(1)])
  let ?len = "of_nat (length ys) :: u32"
  have len: "unat ?len = length ys" by (rule unat_of_nat32 [OF ys(2)])
  have r: "s + length ys < rsize r" "\<And>k. k < length ys \<Longrightarrow> rbyte r (s + k) = ys ! k"
    using c by (auto simp: cstr_def)
  obtain b1 where b1: "puts (Some (r, s)) ?len b = Some b1" "holds buffer n (take (unat n - 1) (xs @ ys)) b1"
    by (rule puts_string [OF h, of s ?len r ys]) (use len r in simp_all)
  show ?thesis
  proof (cases "?len < n_pad")
    case True
    then have "unat (n_pad - ?len) = unat n_pad - length ys" using len unat_sub [of ?len n_pad] by simp
    moreover obtain b2 where "puts None (n_pad - ?len) b1 = Some b2"
      "holds buffer n (take (unat n - 1) (take (unat n - 1) (xs @ ys) @ replicate (unat (n_pad - ?len)) 0x20)) b2"
      by (rule puts_blanks [OF b1(2)])
    ultimately show ?thesis using b1(1) True that ys(3)
      by (simp add: put_string_def strlen_cstr [OF c] take_append_twice Let_def del: take_append)
  next
    case False
    then have "unat n_pad - length ys = 0" using len by (simp add: word_less_nat_alt)
    then show ?thesis using b1 False that ys(3) by (simp add: put_string_def strlen_cstr [OF c] Let_def)
  qed
qed

text \<open>The padding loop stops at the first byte that is not a digit, which may be the terminator.\<close>

lemma pad_scan_result:
  "cstr fmt q cs \<Longrightarrow> pad_scan fmt q k =
     Some (case dropWhile is_digit cs of [] \<Rightarrow> 0 | c # _ \<Rightarrow> c, q + length (takeWhile is_digit cs) + 1,
       foldl (\<lambda>n ch. n * 10 + ucast ch - 0x30) k (takeWhile is_digit cs))"
proof (induction cs arbitrary: q k)
  case Nil
  then show ?case by (subst pad_scan.simps) (simp add: load_def is_digit_def)
next
  case (Cons c cs)
  then show ?case by (subst pad_scan.simps) (simp add: load_def)
qed

lemma cstr_drop:
  assumes "cstr fmt q cs"
  shows "load fmt (q + length (takeWhile P cs)) = Some (case dropWhile P cs of [] \<Rightarrow> 0 | c # _ \<Rightarrow> c)"
    and "dropWhile P cs = c # cs' \<Longrightarrow> cstr fmt (q + length (takeWhile P cs) + 1) cs'"
proof -
  have d: "cstr fmt (q + length (takeWhile P cs)) (dropWhile P cs)"
    using cstr_append [of fmt q "takeWhile P cs" "dropWhile P cs"] assms by simp
  then show "load fmt (q + length (takeWhile P cs)) = Some (case dropWhile P cs of [] \<Rightarrow> 0 | c # _ \<Rightarrow> c)"
    by (cases "dropWhile P cs") (simp_all only: cstr_Nil cstr_Cons load_def list.case if_True simp_thms)
  show "dropWhile P cs = c # cs' \<Longrightarrow> cstr fmt (q + length (takeWhile P cs) + 1) cs'" using d by simp
qed

lemma conversion_result:
  assumes f: "cstr fmt q cs" and t: "conversion_text cs va = Some (t, cs', va')" and fits: "conversion_fits cs va"
    and h: "holds buffer n xs b"
  obtains ended q' b' where "conversion fmt q va b = Some (ended, q', va', b')"
    "holds buffer n (take (unat n - 1) (xs @ t)) b'" "if ended then cs' = [] else cstr fmt q' cs'"
proof -
  define n_pad where "n_pad = pad_width (takeWhile is_digit cs)"
  define c_pad :: u8 where "c_pad = (if cs \<noteq> [] \<and> hd cs = 0x30 then 0x30 else 0x20)"
  define cs1 where "cs1 = dropWhile is_digit cs"
  define longflag where "longflag \<longleftrightarrow> cs1 \<noteq> [] \<and> hd cs1 = 0x6c"
  define cs2 where "cs2 = (if longflag then tl cs1 else cs1)"
  let ?hd = "\<lambda>cs :: u8 list. case cs of [] \<Rightarrow> 0 | c # _ \<Rightarrow> c"
  obtain ch0 where ch0: "load fmt q = Some ch0" "ch0 = ?hd cs"
    using f by (cases cs) (simp_all add: load_def)
  define q1 where "q1 = q + length (takeWhile is_digit cs) + 1"
  have pad: "(if is_digit ch0 then pad_scan fmt q 0 else Some (ch0, q + 1, 0)) = Some (?hd cs1, q1, n_pad)"
  proof (cases "is_digit ch0")
    case True
    then show ?thesis by (simp add: pad_scan_result [OF f] cs1_def q1_def n_pad_def pad_width_def)
  next
    case False
    then have "takeWhile is_digit cs = []" "cs1 = cs" using ch0(2) by (cases cs; simp add: cs1_def)+
    then show ?thesis using False ch0(2) by (simp add: q1_def n_pad_def pad_width_def)
  qed
  have cp: "(if ch0 = 0x30 then 0x30 else 0x20) = c_pad" using ch0(2) by (cases cs) (simp_all add: c_pad_def)
  have c1: "cs1 = c # ds \<Longrightarrow> cstr fmt q1 ds" for c ds
    unfolding cs1_def q1_def using cstr_drop(2) [OF f, of is_digit c ds] by simp
  have lf: "(?hd cs1 = 0x6c) = longflag" by (cases cs1) (simp_all add: longflag_def)
  obtain q2 where q2: "(if longflag then do { c \<leftarrow> load fmt q1; Some (c, q1 + 1) } else Some (?hd cs1, q1)) = Some (?hd cs2, q2)"
    and c2: "\<And>c ds. cs2 = c # ds \<Longrightarrow> cstr fmt q2 ds"
  proof (cases longflag)
    case True
    then obtain ds where ds: "cs1 = 0x6c # ds" unfolding longflag_def by (cases cs1) auto
    have "cs2 = ds" using True ds by (simp add: cs2_def)
    moreover have "load fmt q1 = Some (?hd ds)" using c1 [OF ds] by (cases ds) (simp_all add: load_def)
    moreover have "ds = c # es \<Longrightarrow> cstr fmt (q1 + 1) es" for c es using c1 [OF ds] by simp
    ultimately show ?thesis using True that by simp
  next
    case False
    then show ?thesis using c1 that by (simp add: cs2_def)
  qed
  have nz: "cs2 = c # ds \<Longrightarrow> c \<noteq> 0" for c ds
  proof -
    assume "cs2 = c # ds"
    then have "c \<in> set cs1" by (cases cs1) (auto simp: cs2_def split: if_splits)
    then have "c \<in> set cs" unfolding cs1_def by (rule set_dropWhileD)
    then show "c \<noteq> 0" using f by (auto simp: cstr_def)
  qed
  have conv: "conversion fmt q va b = (let ch = ?hd cs2 in
     if ch = 0 then Some (True, q2, va, b)
     else if ch = 0x6c then Some (False, q2, va, b)
     else if ch = 0x75 \<or> ch = 0x64 \<or> ch = 0x78 \<or> ch = 0x58
     then (case va of Num w # va' \<Rightarrow> do { b' \<leftarrow> put_number ch longflag w n_pad c_pad b; Some (False, q2, va', b') } | _ \<Rightarrow> None)
     else if ch = 0x63
     then (case va of Num w # va' \<Rightarrow> do { b' \<leftarrow> putc (ucast w) b; Some (False, q2, va', b') } | _ \<Rightarrow> None)
     else if ch = 0x73
     then (case va of Str r s # va' \<Rightarrow> do { b' \<leftarrow> put_string r s n_pad b; Some (False, q2, va', b') } | _ \<Rightarrow> None)
     else do { b' \<leftarrow> putc ch b; Some (False, q2, va, b') })"
    unfolding conversion_def ch0(1) bind.bind_lunit pad prod.case Let_def lf cp q2 ..
  have xs: "holds buffer n (take (unat n - 1) (xs @ [])) b" using h holds_full [OF h] by simp
  note t' = t [unfolded conversion_text_def Let_def cs1_def [symmetric] longflag_def [symmetric] cs2_def [symmetric]
      n_pad_def [symmetric] c_pad_def [symmetric]]
  note fits' = fits [unfolded conversion_fits_def Let_def cs1_def [symmetric] longflag_def [symmetric] cs2_def [symmetric]
      n_pad_def [symmetric]]
  show ?thesis
  proof (cases cs2)
    case Nil
    then have e: "t = []" "cs' = []" "va' = va" using t' by simp_all
    show ?thesis by (rule that [of True q2 b]) (use Nil e xs in \<open>simp_all add: conv\<close>)
  next
    case (Cons ch ds)
    have c: "cstr fmt q2 ds" "ch \<noteq> 0" by (rule c2 [OF Cons]) (rule nz [OF Cons])
    consider (l) "ch = 0x6c" | (num) "ch = 0x75 \<or> ch = 0x64 \<or> ch = 0x78 \<or> ch = 0x58" | (char) "ch = 0x63"
      | (str) "ch = 0x73" | (other) "ch \<notin> {0x6c, 0x75, 0x64, 0x78, 0x58, 0x63, 0x73}" by blast
    then show ?thesis
    proof cases
      case l
      then have e: "t = []" "cs' = ds" "va' = va" using t' Cons by simp_all
      show ?thesis by (rule that [of False q2 b]) (use l Cons c e xs in \<open>simp_all add: conv\<close>)
    next
      case num
      then have ne: "ch \<noteq> 0x6c" by auto
      obtain w where w: "va = Num w # va'" "t = number_spec ch longflag w n_pad c_pad" "cs' = ds"
        using t' num ne Cons by (auto split: list.splits va_arg.splits)
      have nf: "number_fits ch longflag w n_pad" using fits' num Cons w(1) by simp
      obtain b' where "put_number ch longflag w n_pad c_pad b = Some b'" "holds buffer n (take (unat n - 1) (xs @ t)) b'"
        by (rule number_spec_result [OF h w(2) nf num])
      note r = this
      show ?thesis by (rule that [of False q2 b']) (use w num ne c Cons r in \<open>simp_all add: conv [unfolded w(1)] Let_def del: take_append\<close>)
    next
      case char
      obtain w where w: "va = Num w # va'" "t = [ucast w]" "cs' = ds"
        using t' char Cons by (auto split: list.splits va_arg.splits)
      obtain b' where "putc (ucast w) b = Some b'" "holds buffer n (take (unat n - 1) (xs @ [ucast w])) b'"
        by (rule putc_result [OF h])
      note r = this
      show ?thesis by (rule that [of False q2 b']) (use w char c Cons r in \<open>simp_all add: conv [unfolded w(1)] Let_def del: take_append\<close>)
    next
      case str
      obtain r s where w: "va = Str r s # va'" "string_spec r s n_pad = Some t" "cs' = ds"
        using t' str Cons by (auto simp: bind_eq_Some_conv split: list.splits va_arg.splits)
      obtain b' where "put_string r s n_pad b = Some b'" "holds buffer n (take (unat n - 1) (xs @ t)) b'"
        by (rule string_spec_result [OF h w(2)])
      note r = this
      show ?thesis by (rule that [of False q2 b']) (use w str c Cons r in \<open>simp_all add: conv [unfolded w(1)] Let_def del: take_append\<close>)
    next
      case other
      then have w: "va' = va" "t = [ch]" "cs' = ds" using t' Cons by auto
      obtain b' where "putc ch b = Some b'" "holds buffer n (take (unat n - 1) (xs @ [ch])) b'"
        by (rule putc_result [OF h])
      note r = this
      show ?thesis by (rule that [of False q2 b']) (use w other c Cons r in \<open>simp_all add: conv Let_def del: take_append\<close>)
    qed
  qed
qed

text \<open>A number text that does not fit runs over the end of the buffer.\<close>

lemma itoa_loop_overrun:
  assumes "2 \<le> unat radix" "unsig \<or> 0 \<le> sint v" "length xs \<le> rsize r"
    and "rsize r < length xs + length (digits (unat radix) (unat v))"
  shows "itoa_loop radix uppercase unsig v (with_prefix r xs) (length xs) = None"
  using assms
proof (induction "unat radix" "unat v" arbitrary: v xs rule: digits.induct)
  case 1
  note step = itoa_step [OF "1.prems"(2), of radix]
  show ?case
  proof (cases "length xs < rsize r")
    case False
    then show ?thesis by (subst itoa_loop.simps) (simp add: store_def with_prefix_def)
  next
    case True
    have big: "\<not> unat v < unat radix" using "1.prems"(3,4) True by (auto simp: digits_small)
    let ?c = "itoa_char uppercase (itoa_digit unsig radix v)"
    have r0: "radix \<noteq> 0" "0 < unat radix" using "1.prems"(1) by auto
    have nz: "itoa_next unsig radix v \<noteq> 0" using step(2) [OF r0(2)] big "1.prems"(1) by (auto simp: div_eq_0_iff)
    have "length (digits (unat radix) (unat v)) = Suc (length (digits (unat radix) (unat v div unat radix)))"
      using big "1.prems"(1) by (simp add: digits_step)
    then have "itoa_loop radix uppercase unsig (itoa_next unsig radix v) (with_prefix r (xs @ [?c])) (length (xs @ [?c])) = None"
      using "1.prems" True big step(2,3) [OF r0(2)] by (intro "1.hyps") auto
    then show ?thesis using True nz r0 with_prefix_store [OF True, of ?c]
      by (subst itoa_loop.simps) simp
  qed
qed

lemma itoa_pad_overrun:
  assumes "length xs \<le> rsize r" "rsize r < n"
  shows "itoa_pad c (length xs) n (with_prefix r xs) = None"
  using assms
proof (induction "rsize r - length xs" arbitrary: xs)
  case 0
  then have "[length xs..<n] = length xs # [Suc (length xs)..<n]" "store (with_prefix r xs) (length xs) c = None"
    by (simp_all add: upt_conv_Cons store_def with_prefix_def)
  then show ?case by (simp add: itoa_pad_def)
next
  case (Suc k)
  then have l: "length xs < rsize r" by simp
  then have "[length xs..<n] = length xs # [length (xs @ [c])..<n]" using Suc.prems by (simp add: upt_conv_Cons)
  moreover have "store (with_prefix r xs) (length xs) c = Some (with_prefix r (xs @ [c]))" using l by (rule with_prefix_store)
  moreover have "itoa_pad c (length (xs @ [c])) n (with_prefix r (xs @ [c])) = None"
    using Suc.hyps(2) Suc.prems l by (intro Suc.hyps(1)) auto
  ultimately show ?case by (simp add: itoa_pad_def)
qed

lemma mini_itoa_overrun:
  assumes "2 \<le> unat radix" "radix \<le> 16" "unsig \<or> sint v \<noteq> - 9223372036854775808"
    and "rsize r \<le> length (number_text v (unat radix) uppercase unsig (unat n_pad) cpad)"
  shows "mini_itoa v radix uppercase unsig r n_pad cpad = None"
proof -
  define neg where "neg \<longleftrightarrow> sint v < 0 \<and> \<not> unsig"
  define w where "w = (if neg then - v else v)"
  define ds where "ds = digits_text uppercase (unat radix) (unat w)"
  have w: "unsig \<or> 0 \<le> sint w" "unat w = (if unsig then unat v else nat \<bar>sint v\<bar>)"
    using magnitude [OF assms(3)] by (auto simp: w_def neg_def)
  have len: "length (digits (unat radix) (unat w)) = length ds" by (simp add: ds_def digits_text_def)
  have big: "rsize r \<le> (if neg then 1 else 0) + max (length ds) (unat n_pad)"
    using assms(4) unfolding number_text_def Let_def w(2) [symmetric] ds_def [symmetric]
    by (auto simp: neg_def split: if_splits)
  have le: "\<not> 16 < radix" using assms(2) by simp
  note unfold = mini_itoa_def Let_def if_not_P [OF le] neg_def [symmetric] w_def [symmetric]
  have z: "with_prefix r [] = r" by (simp add: with_prefix_def)
  show ?thesis
  proof (cases "rsize r < length ds")
    case True
    then have "itoa_loop radix uppercase unsig w r 0 = None"
      using itoa_loop_overrun [OF assms(1) w(1), of "[]" r uppercase] len by (simp add: z)
    then show ?thesis unfolding unfold by simp
  next
    case fits: False
    have 1: "itoa_loop radix uppercase unsig w r 0 = Some (with_prefix r (rev ds), length ds)"
      using itoa_loop_result [OF assms(1) w(1) refl, of "[]" r uppercase] fits len by (simp add: ds_def z)
    show ?thesis
    proof (cases "rsize r < unat n_pad")
      case True
      then have "itoa_pad cpad (length ds) (unat n_pad) (with_prefix r (rev ds)) = None"
        using itoa_pad_overrun [of "rev ds" r "unat n_pad" cpad] fits by simp
      then show ?thesis unfolding unfold 1 bind.bind_lunit prod.case by simp
    next
      case False
      define out where "out = rev ds @ replicate (unat n_pad - length ds) cpad"
      have 2: "itoa_pad cpad (length ds) (unat n_pad) (with_prefix r (rev ds)) = Some (with_prefix r out)"
        using itoa_pad_result [of "rev ds" "unat n_pad" r cpad] fits False by (simp add: out_def split: if_splits)
      have l: "length out = max (length ds) (unat n_pad)" "length out \<le> rsize r" using fits False by (auto simp: out_def)
      show ?thesis
      proof (cases "length out = rsize r")
        case True
        then show ?thesis unfolding unfold 1 bind.bind_lunit prod.case 2 l(1) [symmetric]
          by (simp add: store_def with_prefix_def)
      next
        case False
        then have n: "neg" "Suc (length out) = rsize r" using big l by (auto split: if_splits)
        have "store (with_prefix r out) (length out) 0x2d = Some (with_prefix r (out @ [0x2d]))"
          using n by (intro with_prefix_store) simp
        moreover have "store (with_prefix r (out @ [0x2d])) (rsize r) 0 = None" by (simp add: store_def with_prefix_def)
        ultimately show ?thesis unfolding unfold 1 bind.bind_lunit prod.case 2 l(1) [symmetric] using n by simp
      qed
    qed
  qed
qed

lemma put_number_overrun:
  assumes "ch = 0x75 \<or> ch = 0x64 \<or> ch = 0x78 \<or> ch = 0x58" "24 \<le> length (number_spec ch longflag w n_pad c_pad)"
    and "ch = 0x64 \<longrightarrow> sint (va_long longflag True w) \<noteq> - 9223372036854775808"
  shows "put_number ch longflag w n_pad c_pad b = None"
proof -
  have "mini_itoa (va_long longflag (ch = 0x64) w) (if ch = 0x75 \<or> ch = 0x64 then 10 else 16) (ch = 0x58) (ch \<noteq> 0x64)
      itoa_buffer n_pad c_pad = None"
    using assms(2,3) by (intro mini_itoa_overrun) (auto simp: itoa_buffer_def number_spec_def)
  then show ?thesis using assms(1) by (elim disjE) (simp_all add: put_number_def)
qed

section \<open>The whole format string\<close>

lemma vsnprintf_loop_result:
  "cstr fmt q cs \<Longrightarrow> format_text cs va = Some out \<Longrightarrow> numbers_fit cs va \<Longrightarrow> holds buffer n xs b \<Longrightarrow>
   \<exists>b'. vsnprintf_loop fmt q va b = Some b' \<and> holds buffer n (take (unat n - 1) (xs @ out)) b'"
proof (induction cs va arbitrary: q xs b out rule: format_text.induct)
  case (1 va)
  then show ?case using holds_full [OF "1.prems"(4)] by (subst vsnprintf_loop.simps) (simp add: load_def)
next
  case (2 c cs va)
  have l: "load fmt q = Some c" "c \<noteq> 0" and f: "cstr fmt (q + 1) cs" using "2.prems"(1) by (simp_all add: load_def)
  show ?case
  proof (cases "out_full b")
    case True
    then have "length xs = unat n - 1" using out_full_iff [OF "2.prems"(4)] by simp
    then show ?thesis using True "2.prems"(4) l by (subst vsnprintf_loop.simps) simp
  next
    case nf: False
    show ?thesis
    proof (cases "c = 0x25")
      case False
      obtain o' where o': "format_text cs va = Some o'" "out = c # o'" using "2.prems"(2) False by auto
      have nf1: "numbers_fit cs va" using "2.prems"(3) False by simp
      obtain b1 where b1: "putc c b = Some b1" "holds buffer n (take (unat n - 1) (xs @ [c])) b1"
        by (rule putc_result [OF "2.prems"(4)])
      from "2.IH"(1) [OF False f o'(1) nf1 b1(2)] obtain b' where "vsnprintf_loop fmt (q + 1) va b1 = Some b'"
        "holds buffer n (take (unat n - 1) (take (unat n - 1) (xs @ [c]) @ o')) b'" by blast
      then show ?thesis using b1(1) o'(2) l nf False
        by (subst vsnprintf_loop.simps) (simp add: take_append_twice del: take_append)
    next
      case True
      obtain t cs' va' o' where t: "conversion_text cs va = Some (t, cs', va')" "format_text cs' va' = Some o'" "out = t @ o'"
        using "2.prems"(2) True by (auto split: option.splits prod.splits)
      have fits: "conversion_fits cs va" "numbers_fit cs' va'" using "2.prems"(3) True t(1) by simp_all
      obtain ended q' b1 where b1: "conversion fmt (q + 1) va b = Some (ended, q', va', b1)"
        "holds buffer n (take (unat n - 1) (xs @ t)) b1" "if ended then cs' = [] else cstr fmt q' cs'"
        by (rule conversion_result [OF f t(1) fits(1) "2.prems"(4)])
      show ?thesis
      proof (cases ended)
        case True
        then have "o' = []" using b1(3) t(2) by simp
        then show ?thesis using b1 True \<open>c = 0x25\<close> t(3) l nf by (subst vsnprintf_loop.simps) simp
      next
        case False
        then have f': "cstr fmt q' cs'" using b1(3) by simp
        have nc: "\<not> c \<noteq> 0x25" using True by simp
        from "2.IH"(2) [OF nc t(1) refl refl f' t(2) fits(2) b1(2)] obtain b' where
          "vsnprintf_loop fmt q' va' b1 = Some b'"
          "holds buffer n (take (unat n - 1) (take (unat n - 1) (xs @ t) @ o')) b'" by blast
        then show ?thesis using b1(1) t(3) l nf False True
          by (subst vsnprintf_loop.simps) (simp add: take_append_twice del: take_append)
      qed
    qed
  qed
qed

lemma mini_vsnprintf_result:
  assumes "cstr fmt 0 cs" "format_text cs va = Some out" "numbers_fit cs va" "0 < n" "unat n \<le> rsize buffer"
  obtains r where "mini_vsnprintf buffer n fmt va = Some (length (take (unat n - 1) out), r)" "rsize r = rsize buffer"
    "\<And>i. i < length (take (unat n - 1) out) \<Longrightarrow> rbyte r i = out ! i" "\<And>i. unat n \<le> i \<Longrightarrow> rbyte r i = rbyte buffer i"
proof -
  have "0 < unat n" using assms(4) by (simp add: unat_gt_0)
  then have "holds buffer n [] \<lparr>out_bytes = buffer, out_pos = 0, out_len = n\<rparr>" using assms(5) by (simp add: holds_def)
  from vsnprintf_loop_result [OF assms(1-3) this] obtain b where
    "vsnprintf_loop fmt 0 va \<lparr>out_bytes = buffer, out_pos = 0, out_len = n\<rparr> = Some b"
    "holds buffer n (take (unat n - 1) out) b" by auto
  then show ?thesis using that [of "out_bytes b"] by (simp add: mini_vsnprintf_def holds_def)
qed

text \<open>What \<open>printk\<close> and its relatives hand to their output function.\<close>

lemma vprint_result:
  assumes "cstr fmt 0 cs" "format_text cs va = Some out" "numbers_fit cs va"
  obtains r where "vprint fmt va output s = map_option (Pair (length (take 255 out))) (output r s)"
    "rsize r = 256" "\<And>i. i < length (take 255 out) \<Longrightarrow> rbyte r i = out ! i" "rbyte r (length (take 255 out)) = 0"
proof -
  have n: "0 < (256 :: u32)" "unat (256 :: u32) \<le> rsize vprint_buffer" by (simp_all add: vprint_buffer_def)
  obtain r where r: "mini_vsnprintf vprint_buffer 256 fmt va = Some (length (take (unat (256 :: u32) - 1) out), r)"
    "rsize r = rsize vprint_buffer" "\<And>i. i < length (take (unat (256 :: u32) - 1) out) \<Longrightarrow> rbyte r i = out ! i"
    "\<And>i. unat (256 :: u32) \<le> i \<Longrightarrow> rbyte r i = rbyte vprint_buffer i"
    by (rule mini_vsnprintf_result [OF assms n]) (rule that)
  let ?n = "length (take 255 out)"
  let ?r = "r\<lparr>rbyte := (rbyte r)(?n := 0)\<rparr>"
  have "?n < 256" by simp
  then have "store r ?n 0 = Some ?r" using r(2) by (simp add: store_def vprint_buffer_def)
  then have "vprint fmt va output s = map_option (Pair ?n) (output ?r s)"
    using r(1) by (cases "output ?r s") (simp_all add: vprint_def)
  moreover have "i < ?n \<Longrightarrow> i \<noteq> ?n" for i by (rule less_imp_neq)
  ultimately show ?thesis using r(2,3) by (intro that [of ?r]) (simp_all add: vprint_buffer_def del: length_take)
qed

end
