(* ===== verification/Screen.thy ===== *)
theory Screen
  imports Kstate Printk
begin

text \<open>
  The screen driver, \<open>drivers/screen.c\<close>. What a task writes goes to \<open>new_screen\<close>, an array of 50
  rows of 80 cells; \<open>screen_reflush\<close> sends the cells that differ from \<open>old_screen\<close> to the
  console. The cursor is a member of the running task's control block, so an operation works on
  that control block and the screen. The console is the list of bytes sent to it; \<open>printv\<close>
  formats them with the code of \<open>libs/printk.c\<close>.
\<close>

section \<open>State\<close>

definition SCREEN_WIDTH :: int where "SCREEN_WIDTH = 80"
definition SCREEN_HEIGHT :: int where "SCREEN_HEIGHT = 50"

definition SCREEN_LOC :: "int \<Rightarrow> int \<Rightarrow> int" where
  "SCREEN_LOC x y = y * SCREEN_WIDTH + x"

record screen =
  new_screen :: region
  old_screen :: region
  console :: "u8 list"

type_synonym tty = "pcb_t \<times> screen"

text \<open>A cell of one of the two arrays; an index outside the array is undefined.\<close>

definition get_cell :: "region \<Rightarrow> int \<Rightarrow> u8 option" where
  "get_cell r k = do { i \<leftarrow> byte_offset k; load r i }"

definition set_cell :: "region \<Rightarrow> int \<Rightarrow> u8 \<Rightarrow> region option" where
  "set_cell r k c = do { i \<leftarrow> byte_offset k; store r i c }"

section \<open>The console\<close>

definition bios_putchar :: "u8 \<Rightarrow> screen \<Rightarrow> screen" where
  "bios_putchar c s = s\<lparr>console := console s @ [c]\<rparr>"

definition bios_putstr :: "region \<Rightarrow> screen \<Rightarrow> screen option" where
  "bios_putstr r s = do { t \<leftarrow> string_at r 0; Some (s\<lparr>console := console s @ t\<rparr>) }"

definition printv :: "u8 list \<Rightarrow> va_arg list \<Rightarrow> screen \<Rightarrow> screen option" where
  "printv fmt va s = map_option snd (vprint (str fmt) va bios_putstr s)"

definition vt100_move_cursor :: "int \<Rightarrow> int \<Rightarrow> screen \<Rightarrow> screen option" where
  "vt100_move_cursor x y =
     printv [0x25, 0x63, 0x5b, 0x25, 0x64, 0x3b, 0x25, 0x64, 0x48] [Num 27, Num (word_of_int y), Num (word_of_int x)]"

definition vt100_clear :: "screen \<Rightarrow> screen option" where
  "vt100_clear = printv [0x25, 0x63, 0x5b, 0x32, 0x4a] [Num 27]"

definition vt100_hidden_cursor :: "screen \<Rightarrow> screen option" where
  "vt100_hidden_cursor = printv [0x25, 0x63, 0x5b, 0x3f, 0x32, 0x35, 0x6c] [Num 27]"

section \<open>Writing\<close>

definition screen_write_ch :: "u8 \<Rightarrow> tty \<Rightarrow> tty option" where
  "screen_write_ch ch = (\<lambda>(t, s).
     if ch = 0x0a
     then Some (t\<lparr>cursor_x := 0, cursor_y := (if cursor_y t < SCREEN_HEIGHT then cursor_y t + 1 else cursor_y t)\<rparr>, s)
     else if ch = 0x08 \<or> ch = 0x7f
     then do {
       r \<leftarrow> set_cell (new_screen s) (SCREEN_LOC (cursor_x t) (cursor_y t)) 0;
       let x = cursor_x t - 1;
       Some (if x < 0
             then if cursor_y t > 0 then t\<lparr>cursor_y := cursor_y t - 1, cursor_x := SCREEN_WIDTH - 1\<rparr> else t\<lparr>cursor_x := 0\<rparr>
             else t\<lparr>cursor_x := x\<rparr>, s\<lparr>new_screen := r\<rparr>) }
     else do {
       r \<leftarrow> set_cell (new_screen s) (SCREEN_LOC (cursor_x t) (cursor_y t)) ch;
       let x = cursor_x t + 1;
       Some (if x \<ge> SCREEN_WIDTH
             then t\<lparr>cursor_x := 0, cursor_y := (if cursor_y t < SCREEN_HEIGHT then cursor_y t + 1 else cursor_y t)\<rparr>
             else t\<lparr>cursor_x := x\<rparr>, s\<lparr>new_screen := r\<rparr>) })"

definition screen_write :: "region \<Rightarrow> tty \<Rightarrow> tty option" where
  "screen_write buff ts = do {
     l \<leftarrow> strlen buff 0;
     for_each (\<lambda>i ts. do { c \<leftarrow> load buff i; screen_write_ch c ts }) [0..<l] ts }"

section \<open>Refreshing\<close>

definition reflush_cell :: "nat \<Rightarrow> nat \<Rightarrow> screen \<Rightarrow> screen option" where
  "reflush_cell i j s = do {
     let k = SCREEN_LOC (int j) (int i);
     new \<leftarrow> get_cell (new_screen s) k;
     old \<leftarrow> get_cell (old_screen s) k;
     if new \<noteq> old
     then do {
       s1 \<leftarrow> vt100_move_cursor (int j + 1) (int i + 1) s;
       let s2 = bios_putchar new s1;
       r \<leftarrow> set_cell (old_screen s2) k new;
       Some (s2\<lparr>old_screen := r\<rparr>) }
     else Some s }"

definition screen_reflush :: "tty \<Rightarrow> tty option" where
  "screen_reflush = (\<lambda>(t, s). do {
     s1 \<leftarrow> for_each (\<lambda>i. for_each (reflush_cell i) [0..<nat SCREEN_WIDTH]) [0..<nat SCREEN_HEIGHT] s;
     s2 \<leftarrow> vt100_move_cursor (cursor_x t + 1) (cursor_y t + 1) s1;
     Some (t, s2) })"

definition blank_cell :: "nat \<Rightarrow> nat \<Rightarrow> screen \<Rightarrow> screen option" where
  "blank_cell i j s = do {
     new \<leftarrow> set_cell (new_screen s) (SCREEN_LOC (int j) (int i)) 0x20;
     old \<leftarrow> set_cell (old_screen s) (SCREEN_LOC (int j) (int i)) 0x20;
     Some (s\<lparr>new_screen := new, old_screen := old\<rparr>) }"

definition screen_clear :: "tty \<Rightarrow> tty option" where
  "screen_clear = (\<lambda>(t, s). do {
     s1 \<leftarrow> vt100_clear s;
     s2 \<leftarrow> for_each (\<lambda>i. for_each (blank_cell i) [0..<nat SCREEN_WIDTH]) [0..<nat SCREEN_HEIGHT] s1;
     screen_reflush (t\<lparr>cursor_x := 0, cursor_y := 0\<rparr>, s2) })"

definition init_screen :: "tty \<Rightarrow> tty option" where
  "init_screen = (\<lambda>(t, s). do {
     s1 \<leftarrow> vt100_hidden_cursor s;
     s2 \<leftarrow> vt100_clear s1;
     screen_clear (t, s2) })"

definition screen_move_cursor :: "int \<Rightarrow> int \<Rightarrow> tty \<Rightarrow> tty option" where
  "screen_move_cursor x y = (\<lambda>(t, s). do {
     let x' = (if x \<ge> SCREEN_WIDTH then SCREEN_WIDTH - 1 else if x < 0 then 0 else x);
     let y' = (if y \<ge> SCREEN_HEIGHT then SCREEN_HEIGHT - 1 else if y < 0 then 0 else y);
     s1 \<leftarrow> vt100_move_cursor (x' + 1) (y' + 1) s;
     Some (t\<lparr>cursor_x := x', cursor_y := y'\<rparr>, s1) })"

text \<open>The output function of \<open>printk\<close>: write to the screen and refresh it.\<close>

definition output_wrapper :: "region \<Rightarrow> tty \<Rightarrow> tty option" where
  "output_wrapper buff ts = do { ts1 \<leftarrow> screen_write buff ts; screen_reflush ts1 }"

definition printk :: "u8 list \<Rightarrow> va_arg list \<Rightarrow> tty \<Rightarrow> (nat \<times> tty) option" where
  "printk fmt va ts = vprint (str fmt) va output_wrapper ts"

section \<open>The cursor stays on the screen, or one row below it\<close>

text \<open>Both arrays have 4000 cells; the cursor's row may be 50, one more than the last.\<close>

definition screen_ok :: "tty \<Rightarrow> bool" where
  "screen_ok = (\<lambda>(t, s). rsize (new_screen s) = 4000 \<and> rsize (old_screen s) = 4000
     \<and> 0 \<le> cursor_x t \<and> cursor_x t < 80 \<and> 0 \<le> cursor_y t \<and> cursor_y t \<le> 50)"

lemma cell_store:
  assumes "0 \<le> x" "x < 80" "0 \<le> y" "rsize r = 4000"
  shows "set_cell r (SCREEN_LOC x y) c =
    (if y < 50 then Some (r\<lparr>rbyte := (rbyte r)(nat (y * 80 + x) := c)\<rparr>) else None)"
proof -
  have "nat (y * 80 + x) < 4000 \<longleftrightarrow> y < 50" using assms(1-3) by linarith
  then show ?thesis using assms by (simp add: set_cell_def SCREEN_LOC_def SCREEN_WIDTH_def byte_offset_def store_def)
qed

lemma screen_write_ch_ok:
  assumes "screen_ok (t, s)"
  shows "screen_write_ch ch (t, s) = None \<longleftrightarrow> cursor_y t = 50 \<and> ch \<noteq> 0x0a"
    and "screen_write_ch ch (t, s) = Some ts' \<Longrightarrow> screen_ok ts'"
proof -
  have b: "0 \<le> cursor_x t" "cursor_x t < 80" "0 \<le> cursor_y t" "rsize (new_screen s) = 4000" and y: "cursor_y t \<le> 50"
    using assms by (simp_all add: screen_ok_def)
  show "screen_write_ch ch (t, s) = None \<longleftrightarrow> cursor_y t = 50 \<and> ch \<noteq> 0x0a"
    using y by (auto simp: screen_write_ch_def cell_store [OF b] Let_def)
  show "screen_write_ch ch (t, s) = Some ts' \<Longrightarrow> screen_ok ts'"
    using assms b by (auto simp: screen_write_ch_def cell_store [OF b] screen_ok_def SCREEN_WIDTH_def SCREEN_HEIGHT_def Let_def
        split: if_splits)
qed

text \<open>A newline moves the cursor by at most a row, any other character by at most a cell.\<close>

section \<open>The effect of writing, cell by cell\<close>

text \<open>The cursor as column and row, the cells as a function of \<open>80 * row + column\<close>. A character other than a
  newline needs a row of the screen.\<close>

definition cursor_step :: "u8 \<Rightarrow> int \<times> int \<Rightarrow> int \<times> int" where
  "cursor_step ch = (\<lambda>(x, y).
     if ch = 0x0a then (0, min 50 (y + 1))
     else if ch = 0x08 \<or> ch = 0x7f then (if 0 < x then (x - 1, y) else if 0 < y then (79, y - 1) else (0, y))
     else if x = 79 then (0, min 50 (y + 1)) else (x + 1, y))"

definition draw :: "u8 \<Rightarrow> int \<times> int \<Rightarrow> (nat \<Rightarrow> u8) \<Rightarrow> (nat \<Rightarrow> u8)" where
  "draw ch = (\<lambda>(x, y) cells.
     if ch = 0x0a then cells else cells(nat (80 * y + x) := (if ch = 0x08 \<or> ch = 0x7f then 0 else ch)))"

fun on_screen :: "u8 list \<Rightarrow> int \<times> int \<Rightarrow> bool" where
  "on_screen [] c = True"
| "on_screen (ch # xs) c = ((snd c < 50 \<or> ch = 0x0a) \<and> on_screen xs (cursor_step ch c))"

fun cursor_after :: "u8 list \<Rightarrow> int \<times> int \<Rightarrow> int \<times> int" where
  "cursor_after [] c = c"
| "cursor_after (ch # xs) c = cursor_after xs (cursor_step ch c)"

fun drawn :: "u8 list \<Rightarrow> int \<times> int \<Rightarrow> (nat \<Rightarrow> u8) \<Rightarrow> (nat \<Rightarrow> u8)" where
  "drawn [] c cells = cells"
| "drawn (ch # xs) c cells = drawn xs (cursor_step ch c) (draw ch c cells)"

definition move_and_draw :: "int \<times> int \<Rightarrow> (nat \<Rightarrow> u8) \<Rightarrow> tty \<Rightarrow> tty" where
  "move_and_draw c cells = (\<lambda>(t, s). (t\<lparr>cursor_x := fst c, cursor_y := snd c\<rparr>, s\<lparr>new_screen := (new_screen s)\<lparr>rbyte := cells\<rparr>\<rparr>))"

definition cursor_of :: "tty \<Rightarrow> int \<times> int" where
  "cursor_of ts = (cursor_x (fst ts), cursor_y (fst ts))"

definition cells_of :: "tty \<Rightarrow> nat \<Rightarrow> u8" where
  "cells_of ts = rbyte (new_screen (snd ts))"

lemma move_and_draw_simps [simp]:
  "cursor_of (move_and_draw c cells ts) = c" "cells_of (move_and_draw c cells ts) = cells"
  "move_and_draw c cells (move_and_draw c' cells' ts) = move_and_draw c cells ts"
  "move_and_draw (cursor_of ts) (cells_of ts) ts = ts"
  by (cases ts; simp add: move_and_draw_def cursor_of_def cells_of_def)+

lemma screen_write_ch_exact:
  assumes "screen_ok ts"
  shows "screen_write_ch ch ts = (if snd (cursor_of ts) < 50 \<or> ch = 0x0a
    then Some (move_and_draw (cursor_step ch (cursor_of ts)) (draw ch (cursor_of ts) (cells_of ts)) ts) else None)"
proof -
  obtain t s where ts: "ts = (t, s)" by fastforce
  have b: "0 \<le> cursor_x t" "cursor_x t < 80" "0 \<le> cursor_y t" "rsize (new_screen s) = 4000" and y: "cursor_y t \<le> 50"
    using assms by (simp_all add: ts screen_ok_def)
  have e: "80 * cursor_y t + cursor_x t = cursor_y t * 80 + cursor_x t" by simp
  consider "ch = 0x0a" | "ch \<noteq> 0x0a" "ch = 0x08 \<or> ch = 0x7f" | "ch \<noteq> 0x0a" "ch \<noteq> 0x08" "ch \<noteq> 0x7f" by blast
  then show ?thesis
  proof cases
    case 1
    then show ?thesis using y
      by (cases t, cases s) (auto simp: ts screen_write_ch_def move_and_draw_def cursor_step_def draw_def cursor_of_def
          cells_of_def SCREEN_HEIGHT_def)
  next
    case 2
    then show ?thesis using b y
      by (auto simp: ts screen_write_ch_def cell_store [OF b] move_and_draw_def cursor_step_def draw_def cursor_of_def
          cells_of_def SCREEN_WIDTH_def Let_def e)
  next
    case 3
    then show ?thesis using b y
      by (auto simp: ts screen_write_ch_def cell_store [OF b] move_and_draw_def cursor_step_def draw_def cursor_of_def
          cells_of_def SCREEN_WIDTH_def SCREEN_HEIGHT_def Let_def e)
  qed
qed

definition write_bytes :: "u8 list \<Rightarrow> tty \<Rightarrow> tty option" where
  "write_bytes xs ts = for_each screen_write_ch xs ts"

lemma screen_write_bytes:
  assumes "cstr buff 0 xs"
  shows "screen_write buff ts = write_bytes xs ts"
proof -
  have "for_each (\<lambda>i ts. do { c \<leftarrow> load buff i; screen_write_ch c ts }) [k..<k + length ys] ts = for_each screen_write_ch ys ts"
    if "cstr buff k ys" for k ys ts
    using that
  proof (induction ys arbitrary: k ts)
    case (Cons y ys)
    then have "load buff k = Some y" "cstr buff (k + 1) ys" by (simp_all add: load_def)
    moreover have "[k..<k + length (y # ys)] = k # [k + 1..<(k + 1) + length ys]" by (simp add: upt_conv_Cons del: upt_Suc)
    moreover have "for_each (\<lambda>i ts. do { c \<leftarrow> load buff i; screen_write_ch c ts }) [k + 1..<(k + 1) + length ys]
        = for_each screen_write_ch ys"
      by (rule ext) (rule Cons.IH, rule calculation(2))
    ultimately show ?case by (simp only: for_each.simps bind.bind_lunit)
  qed simp
  from this [OF assms] show ?thesis by (simp add: screen_write_def write_bytes_def strlen_cstr [OF assms])
qed

lemma write_bytes_exact:
  "screen_ok ts \<Longrightarrow> write_bytes xs ts = (if on_screen xs (cursor_of ts)
      then Some (move_and_draw (cursor_after xs (cursor_of ts)) (drawn xs (cursor_of ts) (cells_of ts)) ts) else None)"
proof (induction xs arbitrary: ts)
  case (Cons c xs)
  show ?case
  proof (cases "snd (cursor_of ts) < 50 \<or> c = 0x0a")
    case True
    let ?ts = "move_and_draw (cursor_step c (cursor_of ts)) (draw c (cursor_of ts) (cells_of ts)) ts"
    have w: "screen_write_ch c ts = Some ?ts" using screen_write_ch_exact [OF Cons.prems, of c] True by simp
    have "screen_ok ?ts" using screen_write_ch_ok(2) [of "fst ts" "snd ts" c ?ts] Cons.prems w by simp
    from Cons.IH [OF this] show ?thesis using w True by (auto simp: write_bytes_def)
  next
    case False
    then show ?thesis using screen_write_ch_exact [OF Cons.prems, of c] by (auto simp: write_bytes_def)
  qed
qed (simp add: write_bytes_def)

lemma write_bytes_ok: "screen_ok ts \<Longrightarrow> write_bytes xs ts = Some ts' \<Longrightarrow> screen_ok ts'"
proof (induction xs arbitrary: ts)
  case (Cons c xs)
  obtain t s where ts: "ts = (t, s)" by fastforce
  obtain ts1 where "screen_write_ch c ts = Some ts1" "write_bytes xs ts1 = Some ts'"
    using Cons.prems(2) by (auto simp: write_bytes_def bind_eq_Some_conv)
  then show ?case using Cons.IH screen_write_ch_ok(2) Cons.prems(1) unfolding ts by blast
qed (simp add: write_bytes_def)

end
