(* ===== verification/Reflush.thy ===== *)
theory Reflush
  imports Screen
begin

text \<open>
  What \<open>screen_reflush\<close> sends to the console, and what a VT100 terminal shows then. The terminal
  is not part of the repository: \<open>vt100\<close> states what the driver relies on, for any terminal.
\<close>

section \<open>Formatted output on the console\<close>

lemma printv_result:
  assumes "format_text fmt va = Some out" "numbers_fit fmt va" "0 \<notin> set fmt" "0 \<notin> set out" "length out \<le> 255"
  shows "printv fmt va s = Some (s\<lparr>console := console s @ out\<rparr>)"
proof -
  obtain r where r: "vprint (str fmt) va bios_putstr s = map_option (Pair (length (take 255 out))) (bios_putstr r s)"
    "rsize r = 256" "\<And>i. i < length (take 255 out) \<Longrightarrow> rbyte r i = out ! i" "rbyte r (length (take 255 out)) = 0"
    by (rule vprint_result [OF str_cstr [OF assms(3)] assms(1,2)]) (rule that)
  have "cstr r 0 out" using r(2-4) assms(4,5) by (auto simp: cstr_def in_set_conv_nth)
  then show ?thesis using r(1) by (simp add: printv_def bios_putstr_def string_at_cstr)
qed

lemma va_int:
  assumes "0 \<le> y" "y < 2147483648"
  shows "sint (va_long False True (word_of_int y)) = y"
proof -
  have "ucast (word_of_int y :: u64) = (word_of_int y :: u32)"
    using assms by (simp add: ucast_eq uint_word_of_int)
  moreover have "sint (word_of_int y :: u32) = y" using assms by (intro sint_small) auto
  ultimately show ?thesis using assms
    by (simp add: va_long_def scast_eq signed_of_int signed_take_bit_int_eq_self)
qed

lemma number_spec_int:
  assumes "0 \<le> y" "y < 10 ^ 9"
  shows "number_spec 0x64 False (word_of_int y) 0 0x20 = digits_text False 10 (nat y)" "number_fits 0x64 False (word_of_int y) 0"
proof -
  have "length (digits 10 (nat y)) \<le> 9" using assms by (intro digits_length) (simp_all add: nat_less_iff)
  then show "number_spec 0x64 False (word_of_int y) 0 0x20 = digits_text False 10 (nat y)" "number_fits 0x64 False (word_of_int y) 0"
    using assms va_int [of y]
    by (simp_all add: number_fits_def number_spec_def number_text_def Let_def digits_text_def)
qed

text \<open>The control sequence that moves the cursor.\<close>

definition cursor_to :: "nat \<Rightarrow> nat \<Rightarrow> u8 list" where
  "cursor_to y x = [0x1b, 0x5b] @ digits_text False 10 y @ [0x3b] @ digits_text False 10 x @ [0x48]"

lemma digits_text_chars: "c \<in> set (digits_text upper 10 n) \<Longrightarrow> is_digit c"
proof -
  assume "c \<in> set (digits_text upper 10 n)"
  then obtain d where "d \<in> set (digits 10 n)" "c = itoa_char upper (int d)" by (auto simp: digits_text_def)
  moreover from this(1) have "d < 10" using digits_bound [of 10 d n] by simp
  ultimately have "\<exists>d \<in> {0..<10}. c = itoa_char upper (int d)" by auto
  then show "is_digit c" by (auto simp: atLeastLessThan_upt upt_rec itoa_char_def is_digit_def)
qed

lemma vt100_move_cursor_result:
  assumes "0 \<le> x" "x < 1000" "0 \<le> y" "y < 1000"
  shows "vt100_move_cursor x y s = Some (s\<lparr>console := console s @ cursor_to (nat y) (nat x)\<rparr>)"
proof -
  let ?fmt = "[0x25, 0x63, 0x5b, 0x25, 0x64, 0x3b, 0x25, 0x64, 0x48] :: u8 list"
  have n: "number_spec 0x64 False (word_of_int k) 0 0x20 = digits_text False 10 (nat k)" "number_fits 0x64 False (word_of_int k) 0"
    if "0 \<le> k" "k < 1000" for k using number_spec_int [of k] that by auto
  have "numbers_fit ?fmt [Num 27, Num (word_of_int y), Num (word_of_int x)]"
    using n(2) [OF assms(1,2)] n(2) [OF assms(3,4)]
    by (simp add: conversion_fits_def conversion_text_def Let_def is_digit_def pad_width_def)
  moreover have "format_text ?fmt [Num 27, Num (word_of_int y), Num (word_of_int x)] = Some (cursor_to (nat y) (nat x))"
    using n(1) [OF assms(1,2)] n(1) [OF assms(3,4)]
    by (simp add: conversion_text_def Let_def is_digit_def pad_width_def cursor_to_def)
  moreover have "0 \<notin> set (cursor_to (nat y) (nat x))"
    using digits_text_chars [of 0 False] by (auto simp: cursor_to_def is_digit_def)
  moreover have d: "length (digits 10 (nat k)) \<le> 3" if "0 \<le> k" "k < 1000" for k :: int
    using that by (intro digits_length) (simp_all add: nat_less_iff)
  have "length (cursor_to (nat y) (nat x)) \<le> 255"
    using d [OF assms(1,2)] d [OF assms(3,4)] by (simp add: cursor_to_def digits_text_def)
  ultimately show ?thesis unfolding vt100_move_cursor_def by (intro printv_result) auto
qed

section \<open>A terminal\<close>

definition printable :: "u8 \<Rightarrow> bool" where
  "printable c \<longleftrightarrow> 0x20 \<le> c \<and> c < 0x7f"

text \<open>
  \<open>feed\<close> sends bytes to the terminal, \<open>pos\<close> is its cursor, \<open>cell t x y\<close> what it shows in column
  \<open>x\<close> of row \<open>y\<close>, and \<open>ready\<close> says that it is not within a control sequence. The sequence
  \<open>ESC [ row ; column H\<close> moves the cursor (counting from 1) and a printable character appears
  at the cursor.
\<close>

definition vt100 :: "('t \<Rightarrow> bool) \<Rightarrow> ('t \<Rightarrow> u8 list \<Rightarrow> 't) \<Rightarrow> ('t \<Rightarrow> nat \<times> nat) \<Rightarrow> ('t \<Rightarrow> nat \<Rightarrow> nat \<Rightarrow> u8) \<Rightarrow> bool" where
  "vt100 ready feed pos cell \<longleftrightarrow>
     (\<forall>t a b. feed t (a @ b) = feed (feed t a) b) \<and> (\<forall>t. feed t [] = t)
     \<and> (\<forall>t x y. ready t \<and> x < 80 \<and> y < 50 \<longrightarrow>
          ready (feed t (cursor_to (y + 1) (x + 1))) \<and> pos (feed t (cursor_to (y + 1) (x + 1))) = (x, y)
          \<and> cell (feed t (cursor_to (y + 1) (x + 1))) = cell t)
     \<and> (\<forall>t c x y. ready t \<and> pos t = (x, y) \<and> x < 80 \<and> y < 50 \<and> printable c \<longrightarrow>
          ready (feed t [c]) \<and> cell (feed t [c]) = (cell t)(x := (cell t x)(y := c)))"

lemma vt100D:
  assumes "vt100 ready feed pos cell"
  shows "feed t (a @ b) = feed (feed t a) b" "feed t [] = t"
    and "ready t \<Longrightarrow> x < 80 \<Longrightarrow> y < 50 \<Longrightarrow> ready (feed t (cursor_to (y + 1) (x + 1)))
      \<and> pos (feed t (cursor_to (y + 1) (x + 1))) = (x, y) \<and> cell (feed t (cursor_to (y + 1) (x + 1))) = cell t"
    and "ready t \<Longrightarrow> pos t = (x, y) \<Longrightarrow> x < 80 \<Longrightarrow> y < 50 \<Longrightarrow> printable c \<Longrightarrow>
      ready (feed t [c]) \<and> cell (feed t [c]) = (cell t)(x := (cell t x)(y := c))"
  using assms unfolding vt100_def by simp_all

section \<open>Refreshing the terminal\<close>

text \<open>The first \<open>m\<close> cells of the screen are up to date; \<open>s0\<close> and \<open>t0\<close> are what there was before.\<close>

definition refreshed :: "('t \<Rightarrow> bool) \<Rightarrow> ('t \<Rightarrow> u8 list \<Rightarrow> 't) \<Rightarrow> ('t \<Rightarrow> nat \<Rightarrow> nat \<Rightarrow> u8) \<Rightarrow> screen \<Rightarrow> 't \<Rightarrow> nat \<Rightarrow> screen \<Rightarrow> bool" where
  "refreshed ready feed cell s0 t0 m s \<longleftrightarrow> new_screen s = new_screen s0 \<and> rsize (old_screen s) = 4000
     \<and> (\<forall>k < 4000. rbyte (old_screen s) k = (if k < m then rbyte (new_screen s0) k else rbyte (old_screen s0) k))
     \<and> (\<exists>bs. console s = console s0 @ bs \<and> ready (feed t0 bs)
          \<and> (\<forall>x < 80. \<forall>y < 50. cell (feed t0 bs) x y =
               (if 80 * y + x < m then rbyte (new_screen s0) (80 * y + x) else rbyte (old_screen s0) (80 * y + x))))"

lemma cell_index: "x < 80 \<Longrightarrow> y < 50 \<Longrightarrow> x' < 80 \<Longrightarrow> 80 * y + x = 80 * y' + x' \<longleftrightarrow> x = x' \<and> y = y'" for x y x' y' :: nat
  by (cases y y' rule: linorder_cases) auto

lemma cell_int: "get_cell r (int k) = load r k" "set_cell r (int k) c = store r k c"
  by (simp_all add: get_cell_def set_cell_def byte_offset_def)

lemma reflush_cell_step:
  assumes vt: "vt100 ready feed pos cell" and R: "refreshed ready feed cell s0 t0 (80 * i + j) s"
    and ij: "i < 50" "j < 80" and size: "rsize (new_screen s0) = 4000"
    and pr: "rbyte (new_screen s0) (80 * i + j) \<noteq> rbyte (old_screen s0) (80 * i + j) \<Longrightarrow> printable (rbyte (new_screen s0) (80 * i + j))"
  shows "\<exists>s'. reflush_cell i j s = Some s' \<and> refreshed ready feed cell s0 t0 (80 * i + Suc j) s'"
proof -
  let ?k = "80 * i + j"
  let ?new = "rbyte (new_screen s0) ?k" and ?old = "rbyte (old_screen s0) ?k"
  have k: "?k < 4000" using ij by simp
  have loc: "SCREEN_LOC (int j) (int i) = int ?k" by (simp add: SCREEN_LOC_def SCREEN_WIDTH_def)
  have g: "get_cell (new_screen s) (int ?k) = Some ?new" "get_cell (old_screen s) (int ?k) = Some ?old"
    using R k size unfolding cell_int by (simp_all add: refreshed_def load_def)
  obtain bs where bs: "console s = console s0 @ bs" "ready (feed t0 bs)"
    "\<And>x y. x < 80 \<Longrightarrow> y < 50 \<Longrightarrow> cell (feed t0 bs) x y =
      (if 80 * y + x < ?k then rbyte (new_screen s0) (80 * y + x) else rbyte (old_screen s0) (80 * y + x))"
    using R by (auto simp: refreshed_def)
  have lt: "80 * y + x < Suc ?k \<longleftrightarrow> 80 * y + x < ?k \<or> x = j \<and> y = i" if "x < 80" "y < 50" for x y
    using cell_index [of x y j i] that ij(2) by (auto simp: less_Suc_eq)
  show ?thesis
  proof (cases "?new = ?old")
    case True
    have "reflush_cell i j s = Some s" unfolding reflush_cell_def Let_def loc g bind.bind_lunit using True by simp
    moreover have "refreshed ready feed cell s0 t0 (80 * i + Suc j) s"
      using R bs True lt by (auto simp: refreshed_def less_Suc_eq intro!: exI [of _ bs])
    ultimately show ?thesis by blast
  next
    case False
    let ?mv = "cursor_to (i + 1) (j + 1)"
    let ?s1 = "s\<lparr>console := console s @ ?mv\<rparr>"
    have mv: "vt100_move_cursor (int j + 1) (int i + 1) s = Some ?s1"
      using vt100_move_cursor_result [of "int j + 1" "int i + 1" s] ij by (simp add: nat_add_distrib)
    let ?r = "(old_screen s)\<lparr>rbyte := (rbyte (old_screen s))(?k := ?new)\<rparr>"
    have st: "set_cell (old_screen s) (int ?k) ?new = Some ?r"
      using R k unfolding cell_int by (simp add: refreshed_def store_def)
    let ?s' = "s\<lparr>console := console s @ ?mv @ [?new], old_screen := ?r\<rparr>"
    have "reflush_cell i j s = Some ?s'"
      unfolding reflush_cell_def Let_def loc g bind.bind_lunit mv bios_putchar_def using False st by simp
    moreover have "refreshed ready feed cell s0 t0 (80 * i + Suc j) ?s'"
    proof -
      let ?t1 = "feed (feed t0 bs) ?mv" and ?t2 = "feed t0 (bs @ ?mv @ [?new])"
      have t1: "ready ?t1" "pos ?t1 = (j, i)" "cell ?t1 = cell (feed t0 bs)"
        using vt100D(3) [OF vt bs(2) ij(2,1)] by auto
      have t2: "?t2 = feed ?t1 [?new]" by (simp only: vt100D(1) [OF vt])
      have "ready ?t2" "cell ?t2 = (cell (feed t0 bs))(j := (cell (feed t0 bs) j)(i := ?new))"
        using vt100D(4) [OF vt t1(1,2) ij(2,1) pr [OF False]] t1(3) t2 by auto
      then show ?thesis using R bs lt
        by (auto simp: refreshed_def less_Suc_eq intro!: exI [of _ "bs @ ?mv @ [?new]"])
    qed
    ultimately show ?thesis by blast
  qed
qed

lemma reflush_result:
  assumes vt: "vt100 ready feed pos cell" and ok: "screen_ok (p, s)" and y: "cursor_y p < 50" and t: "ready t"
    and old: "\<And>x y. x < 80 \<Longrightarrow> y < 50 \<Longrightarrow> cell t x y = rbyte (old_screen s) (80 * y + x)"
    and pr: "\<And>k. k < 4000 \<Longrightarrow> rbyte (new_screen s) k \<noteq> rbyte (old_screen s) k \<Longrightarrow> printable (rbyte (new_screen s) k)"
  shows "\<exists>s' bs. screen_reflush (p, s) = Some (p, s') \<and> console s' = console s @ bs
    \<and> (\<forall>x < 80. \<forall>y < 50. cell (feed t bs) x y = rbyte (new_screen s) (80 * y + x))
    \<and> pos (feed t bs) = (nat (cursor_x p), nat (cursor_y p)) \<and> new_screen s' = new_screen s
    \<and> (\<forall>k < 4000. rbyte (old_screen s') k = rbyte (new_screen s) k)"
proof -
  let ?R = "refreshed ready feed cell s t"
  have size: "rsize (new_screen s) = 4000" "rsize (old_screen s) = 4000"
    and c: "0 \<le> cursor_x p" "cursor_x p < 80" "0 \<le> cursor_y p" using ok by (simp_all add: screen_ok_def)
  have "?R 0 s" using size t old vt100D(2) [OF vt] by (auto simp: refreshed_def intro!: exI [of _ "[]"])
  moreover have "\<exists>s'. for_each (reflush_cell i) [0..<80] s1 = Some s' \<and> ?R (80 * Suc i) s'"
    if "i < 50" "?R (80 * i) s1" for i s1
  proof -
    have "\<exists>s'. for_each (reflush_cell i) [0..<80] s1 = Some s' \<and> ?R (80 * i + 80) s'"
    proof (rule for_each_upt [where P = "\<lambda>j. ?R (80 * i + j)"])
      show "?R (80 * i + 0) s1" using that(2) by simp
      fix j s2
      assume j: "j < 80" "?R (80 * i + j) s2"
      show "\<exists>s'. reflush_cell i j s2 = Some s' \<and> ?R (80 * i + Suc j) s'"
        by (rule reflush_cell_step [OF vt j(2) that(1) j(1) size(1)]) (use pr that(1) j(1) in simp)
    qed
    then show ?thesis by (simp add: algebra_simps)
  qed
  ultimately obtain s1 where s1: "for_each (\<lambda>i. for_each (reflush_cell i) [0..<80]) [0..<50] s = Some s1" "?R (80 * 50) s1"
    using for_each_upt [of "\<lambda>i. ?R (80 * i)" s 50 "\<lambda>i. for_each (reflush_cell i) [0..<80]"] by auto
  obtain bs where bs: "console s1 = console s @ bs" "ready (feed t bs)"
    "\<And>x y. x < 80 \<Longrightarrow> y < 50 \<Longrightarrow> cell (feed t bs) x y = rbyte (new_screen s) (80 * y + x)"
    using s1(2) by (auto simp: refreshed_def)
  let ?mv = "cursor_to (nat (cursor_y p) + 1) (nat (cursor_x p) + 1)"
  have "vt100_move_cursor (cursor_x p + 1) (cursor_y p + 1) s1 = Some (s1\<lparr>console := console s1 @ ?mv\<rparr>)"
    using vt100_move_cursor_result [of "cursor_x p + 1" "cursor_y p + 1" s1] c y by (simp add: nat_add_distrib)
  then have "screen_reflush (p, s) = Some (p, s1\<lparr>console := console s @ bs @ ?mv\<rparr>)"
    using s1(1) bs(1) by (simp add: screen_reflush_def SCREEN_WIDTH_def SCREEN_HEIGHT_def)
  moreover have "nat (cursor_x p) < 80" "nat (cursor_y p) < 50" using c y by auto
  then have "cell (feed t (bs @ ?mv)) = cell (feed t bs)" "pos (feed t (bs @ ?mv)) = (nat (cursor_x p), nat (cursor_y p))"
    using vt100D(3) [OF vt bs(2)] vt100D(1) [OF vt] by auto
  moreover have "new_screen s1 = new_screen s" "\<forall>k < 4000. rbyte (old_screen s1) k = rbyte (new_screen s) k"
    using s1(2) by (simp_all add: refreshed_def)
  ultimately show ?thesis using bs(3) by (intro exI [of _ "s1\<lparr>console := console s @ bs @ ?mv\<rparr>"] exI [of _ "bs @ ?mv"]) simp
qed

section \<open>A small terminal\<close>

text \<open>A terminal that satisfies \<open>vt100\<close>: it knows printable characters and the cursor sequence.\<close>

datatype vt_mode = Ground | Escape | Csi "nat list"

record small_vt =
  vt_mode :: vt_mode
  vt_x :: nat
  vt_y :: nat
  vt_cell :: "nat \<Rightarrow> nat \<Rightarrow> u8"

definition vt_step :: "small_vt \<Rightarrow> u8 \<Rightarrow> small_vt" where
  "vt_step t c = (case vt_mode t of
       Ground \<Rightarrow>
         if c = 0x1b then t\<lparr>vt_mode := Escape\<rparr>
         else t\<lparr>vt_cell := (vt_cell t)(vt_x t := (vt_cell t (vt_x t))(vt_y t := c)), vt_x := vt_x t + 1\<rparr>
     | Escape \<Rightarrow> t\<lparr>vt_mode := (if c = 0x5b then Csi [0] else Ground)\<rparr>
     | Csi ps \<Rightarrow>
         if is_digit c then t\<lparr>vt_mode := Csi ((hd ps * 10 + (unat c - 48)) # tl ps)\<rparr>
         else if c = 0x3b then t\<lparr>vt_mode := Csi (0 # ps)\<rparr>
         else if c = 0x48 \<and> length ps = 2 then t\<lparr>vt_mode := Ground, vt_x := hd ps - 1, vt_y := hd (tl ps) - 1\<rparr>
         else t\<lparr>vt_mode := Ground\<rparr>)"

lemma digit_char: "d < 10 \<Longrightarrow> is_digit (itoa_char False (int d)) \<and> unat (itoa_char False (int d)) - 48 = d"
proof -
  assume "d < 10"
  then have "d \<in> set [0..<10]" by simp
  then show ?thesis by (auto simp: upt_rec itoa_char_def is_digit_def)
qed

lemma vt_digits:
  "\<forall>d \<in> set ds. d < 10 \<Longrightarrow> vt_mode t = Csi (a # ps) \<Longrightarrow>
   foldl vt_step t (map (\<lambda>d. itoa_char False (int d)) ds) = t\<lparr>vt_mode := Csi (foldl (\<lambda>a d. a * 10 + d) a ds # ps)\<rparr>"
proof (induction ds arbitrary: t a)
  case (Cons d ds)
  then have "vt_step t (itoa_char False (int d)) = t\<lparr>vt_mode := Csi ((a * 10 + d) # ps)\<rparr>"
    using digit_char [of d] by (simp add: vt_step_def)
  then show ?case using Cons.IH [of "t\<lparr>vt_mode := Csi ((a * 10 + d) # ps)\<rparr>" "a * 10 + d"] Cons.prems(1) by simp
qed simp

lemma vt_number:
  "vt_mode t = Csi (0 # ps) \<Longrightarrow> foldl vt_step t (digits_text False 10 n) = t\<lparr>vt_mode := Csi (n # ps)\<rparr>"
  using vt_digits [of "digits 10 n" t 0 ps] number_of_digits [of 10 n] digits_bound [of 10 _ n]
  by (simp add: digits_text_def number_of_def)

lemma vt_cursor_to:
  assumes "vt_mode t = Ground"
  shows "foldl vt_step t (cursor_to (y + 1) (x + 1)) = t\<lparr>vt_x := x, vt_y := y\<rparr>"
proof -
  let ?t1 = "t\<lparr>vt_mode := Csi [0]\<rparr>" and ?t2 = "t\<lparr>vt_mode := Csi [0, y + 1]\<rparr>"
  have "foldl vt_step t [0x1b, 0x5b] = ?t1" using assms by (simp add: vt_step_def)
  moreover have "foldl vt_step ?t1 (digits_text False 10 (y + 1)) = t\<lparr>vt_mode := Csi [y + 1]\<rparr>"
    using vt_number [of ?t1 "[]" "y + 1"] by simp
  moreover have "vt_step (t\<lparr>vt_mode := Csi [y + 1]\<rparr>) 0x3b = ?t2" by (simp add: vt_step_def is_digit_def)
  moreover have "foldl vt_step ?t2 (digits_text False 10 (x + 1)) = t\<lparr>vt_mode := Csi [x + 1, y + 1]\<rparr>"
    using vt_number [of ?t2 "[y + 1]" "x + 1"] by simp
  moreover have "vt_step (t\<lparr>vt_mode := Csi [x + 1, y + 1]\<rparr>) 0x48 = t\<lparr>vt_x := x, vt_y := y\<rparr>"
    using assms by (simp add: vt_step_def is_digit_def)
  ultimately show ?thesis unfolding cursor_to_def foldl_append by simp
qed

lemma small_vt_ok: "vt100 (\<lambda>t. vt_mode t = Ground) (foldl vt_step) (\<lambda>t. (vt_x t, vt_y t)) vt_cell"
  unfolding vt100_def by (auto simp: vt_cursor_to [simplified]) (auto simp: vt_step_def printable_def)

section \<open>The first screen\<close>

definition blanked :: "nat \<Rightarrow> screen \<Rightarrow> bool" where
  "blanked m s \<longleftrightarrow> rsize (new_screen s) = 4000 \<and> rsize (old_screen s) = 4000
     \<and> (\<forall>k < m. rbyte (new_screen s) k = 0x20 \<and> rbyte (old_screen s) k = 0x20)"

lemma blank_cell_step:
  assumes "blanked (80 * i + j) s" "i < 50" "j < 80"
  shows "\<exists>s'. blank_cell i j s = Some s' \<and> blanked (80 * i + Suc j) s'"
proof -
  have loc: "SCREEN_LOC (int j) (int i) = int (80 * i + j)" by (simp add: SCREEN_LOC_def SCREEN_WIDTH_def)
  show ?thesis using assms unfolding blank_cell_def loc cell_int by (auto simp: blanked_def store_def less_Suc_eq)
qed

text \<open>\<open>init_screen\<close> returns, whatever the two arrays hold, with both blank and the cursor at the origin.\<close>

lemma init_screen_blank:
  assumes "rsize (new_screen s) = 4000" "rsize (old_screen s) = 4000"
  shows "\<exists>s'. init_screen (p, s) = Some (p\<lparr>cursor_x := 0, cursor_y := 0\<rparr>, s')
    \<and> (\<forall>k < 4000. rbyte (new_screen s') k = 0x20 \<and> rbyte (old_screen s') k = 0x20)"
proof -
  let ?p = "p\<lparr>cursor_x := 0, cursor_y := 0\<rparr>"
  have clear: "vt100_clear u = Some (u\<lparr>console := console u @ [0x1b, 0x5b, 0x32, 0x4a]\<rparr>)" for u
    unfolding vt100_clear_def by (rule printv_result) (simp_all add: conversion_fits_def conversion_text_def Let_def is_digit_def pad_width_def)
  have hide: "vt100_hidden_cursor u = Some (u\<lparr>console := console u @ [0x1b, 0x5b, 0x3f, 0x32, 0x35, 0x6c]\<rparr>)" for u
    unfolding vt100_hidden_cursor_def by (rule printv_result) (simp_all add: conversion_fits_def conversion_text_def Let_def is_digit_def pad_width_def)
  define s0 where "s0 = s\<lparr>console := console s @ [0x1b, 0x5b, 0x3f, 0x32, 0x35, 0x6c] @ [0x1b, 0x5b, 0x32, 0x4a] @ [0x1b, 0x5b, 0x32, 0x4a]\<rparr>"
  have "blanked (80 * 0) s0" using assms by (simp add: blanked_def s0_def)
  moreover have "\<exists>s'. for_each (blank_cell i) [0..<80] s1 = Some s' \<and> blanked (80 * Suc i) s'" if "i < 50" "blanked (80 * i) s1" for i s1
  proof -
    have "\<exists>s'. for_each (blank_cell i) [0..<80] s1 = Some s' \<and> blanked (80 * i + 80) s'"
      by (rule for_each_upt [where P = "\<lambda>j. blanked (80 * i + j)"]) (use that blank_cell_step in auto)
    then show ?thesis by (simp add: algebra_simps)
  qed
  ultimately obtain s1 where s1: "for_each (\<lambda>i. for_each (blank_cell i) [0..<80]) [0..<50] s0 = Some s1" "blanked (80 * 50) s1"
    using for_each_upt [of "\<lambda>i. blanked (80 * i)" s0 50 "\<lambda>i. for_each (blank_cell i) [0..<80]"] by auto
  let ?t = "\<lparr>vt_mode = Ground, vt_x = 0, vt_y = 0, vt_cell = (\<lambda>_ _. 0x20)\<rparr> :: small_vt"
  have "\<exists>s' bs. screen_reflush (?p, s1) = Some (?p, s') \<and> console s' = console s1 @ bs
    \<and> (\<forall>x < 80. \<forall>y < 50. vt_cell (foldl vt_step ?t bs) x y = rbyte (new_screen s1) (80 * y + x))
    \<and> (\<lambda>t. (vt_x t, vt_y t)) (foldl vt_step ?t bs) = (nat (cursor_x ?p), nat (cursor_y ?p)) \<and> new_screen s' = new_screen s1
    \<and> (\<forall>k < 4000. rbyte (old_screen s') k = rbyte (new_screen s1) k)"
    by (rule reflush_result [OF small_vt_ok]) (use s1(2) in \<open>simp_all add: blanked_def screen_ok_def\<close>)
  then obtain s' where s': "screen_reflush (?p, s1) = Some (?p, s')" "new_screen s' = new_screen s1"
    "\<forall>k < 4000. rbyte (old_screen s') k = rbyte (new_screen s1) k" by blast
  have "init_screen (p, s) = Some (?p, s')"
    using s1(1) s'(1) by (simp add: init_screen_def hide clear screen_clear_def SCREEN_WIDTH_def SCREEN_HEIGHT_def s0_def)
  then show ?thesis using s'(2,3) s1(2) by (simp add: blanked_def)
qed

end
