(* ===== verification/OutputProps.thy ===== *)
theory OutputProps
  imports Reflush
begin

text \<open>
  The properties of number formatting, of \<open>printk\<close>'s format strings and of the screen.
\<close>

section \<open>Formatting\<close>

lemma itoa_char_nonzero: "d < 16 \<Longrightarrow> itoa_char upper (int d) \<noteq> 0"
proof -
  assume "d < 16"
  then have "d \<in> set [0..<16]" by simp
  then show ?thesis by (cases upper) (auto simp: upt_rec itoa_char_def)
qed

text \<open>\<open>mini_itoa\<close> writes a terminated string: the sign of a negative number, the padding up to the
  given width, and digits in the given radix whose value is the number's magnitude, without a
  leading zero unless the number is zero. The buffer must have room, and the most negative
  \<open>long\<close> is excluded, whose negation overflows.\<close>

theorem mini_itoa_number:
  assumes "2 \<le> unat radix" "radix \<le> 16" "unsig \<or> sint v \<noteq> - 9223372036854775808" "cpad \<noteq> 0"
    and "65 + unat n_pad < rsize r"
  shows "\<exists>r' ds. mini_itoa v radix upper unsig r n_pad cpad = Some
      (of_nat ((if \<not> unsig \<and> sint v < 0 then 1 else 0) + max (unat n_pad) (length ds)), r')
    \<and> cstr r' 0 ((if \<not> unsig \<and> sint v < 0 then [0x2d] else []) @ replicate (unat n_pad - length ds) cpad
        @ map (\<lambda>d. itoa_char upper (int d)) ds)
    \<and> number_of (unat radix) ds = (if unsig then unat v else nat \<bar>sint v\<bar>)
    \<and> (\<forall>d \<in> set ds. d < unat radix) \<and> (length ds = 1 \<or> hd ds \<noteq> 0)"
proof -
  define n where "n = (if unsig then unat v else nat \<bar>sint v\<bar>)"
  define ds where "ds = digits (unat radix) n"
  define out where "out = number_text v (unat radix) upper unsig (unat n_pad) cpad"
  have bound: "d < unat radix" "d < 16" if "d \<in> set ds" for d
    using digits_bound [OF assms(1), of d n] that assms(2) by (auto simp: ds_def word_le_nat_alt)
  have text_eq: "out = (if \<not> unsig \<and> sint v < 0 then [0x2d] else []) @ replicate (unat n_pad - length ds) cpad
      @ map (\<lambda>d. itoa_char upper (int d)) ds"
    by (simp add: out_def ds_def n_def number_text_def digits_text_def Let_def)
  have "n < 2 ^ 64"
    using sint_bounds64 [of v] unsigned_less [of v, where 'a = nat] by (auto simp: n_def)
  also have "(2 :: nat) ^ 64 \<le> unat radix ^ 64" using assms(1) by (rule power_mono) simp
  finally have len: "length ds \<le> 64" using assms(1) unfolding ds_def by (intro digits_length) simp_all
  then have room: "length out < rsize r" using assms(5) unfolding text_eq by auto
  have nz: "0 \<notin> set out"
    using assms(4) itoa_char_nonzero bound(2) unfolding text_eq by (auto split: if_splits)
  have 1: "mini_itoa v radix upper unsig r n_pad cpad = Some (of_nat (length out), with_prefix r (out @ [0]))"
    by (rule mini_itoa_result [OF assms(1-3) out_def room])
  have 2: "length out = (if \<not> unsig \<and> sint v < 0 then 1 else 0) + max (unat n_pad) (length ds)"
    unfolding text_eq by (auto simp: max_def)
  have 3: "cstr (with_prefix r (out @ [0])) 0 out" by (rule with_prefix_cstr [OF nz room])
  have 4: "length ds = 1 \<or> hd ds \<noteq> 0" unfolding ds_def by (rule digits_leading [OF assms(1)])
  have 5: "number_of (unat radix) ds = n" unfolding ds_def by (rule number_of_digits [OF assms(1)])
  have 6: "cstr (with_prefix r (out @ [0])) 0 ((if \<not> unsig \<and> sint v < 0 then [0x2d] else [])
      @ replicate (unat n_pad - length ds) cpad @ map (\<lambda>d. itoa_char upper (int d)) ds)"
    by (subst text_eq [symmetric]) (rule 3)
  have 7: "\<forall>d \<in> set ds. d < unat radix" using bound(1) by blast
  show ?thesis using 1 [unfolded 2] 6 5 [unfolded n_def] 7 4 by blast
qed

theorem mini_itoa_number_witness:
  "\<exists>r'. mini_itoa (- 42) 10 False False \<lparr>rsize = 80, rbyte = (\<lambda>_. 0)\<rparr> 3 0x20 = Some (4, r')
    \<and> cstr r' 0 [0x2d, 0x20, 0x34, 0x32]"
proof -
  let ?r = "\<lparr>rsize = 80, rbyte = (\<lambda>_. 0)\<rparr> :: region"
  obtain r' ds where r: "mini_itoa (- 42) 10 False False ?r 3 0x20 = Some (of_nat (1 + max 3 (length ds)), r')"
    "cstr r' 0 ([0x2d] @ replicate (3 - length ds) 0x20 @ map (\<lambda>d. itoa_char False (int d)) ds)"
    "number_of 10 ds = 42" "\<forall>d \<in> set ds. d < 10" "length ds = 1 \<or> hd ds \<noteq> 0"
    using mini_itoa_number [where radix = 10 and unsig = False and v = "- 42" and cpad = "0x20" and n_pad = 3 and r = ?r and upper = False]
    by auto
  have "ds \<noteq> []" using r(3) by (auto simp: number_of_def)
  then have "ds = digits 10 42" using digits_unique [of 10 ds] r(3-5) by simp
  also have "\<dots> = [4, 2]" by (simp add: digits.simps)
  finally show ?thesis using r(1,2) by (simp add: itoa_char_def)
qed

text \<open>(C31) \<open>mini_vsnprintf\<close> implements its format language with truncation: for a format string that is
  followed by matching arguments, and each of whose numbers has a text of less than 24 bytes (sign, padding and digits)
  and is not the most negative \<open>long\<close> under \<open>%ld\<close>, it writes the first \<open>buffer_len - 1\<close> bytes of the formatted text,
  returns their number, and leaves everything from \<open>buffer_len\<close> on untouched. A number with a longer text, as \<open>%30d\<close> gives
  it, runs over the 24 bytes in which it is composed: its conversion has no result.\<close>

theorem vsnprintf_formats:
  assumes "cstr fmt 0 cs" "format_text cs va = Some out" "numbers_fit cs va" "0 < n" "unat n \<le> rsize buffer"
  shows "(\<exists>r. mini_vsnprintf buffer n fmt va = Some (min (unat n - 1) (length out), r) \<and> rsize r = rsize buffer
    \<and> (\<forall>i < min (unat n - 1) (length out). rbyte r i = out ! i) \<and> (\<forall>i \<ge> unat n. rbyte r i = rbyte buffer i))
    \<and> (\<forall>ch l w k c b. ch \<in> {0x75, 0x64, 0x78, 0x58} \<and> 24 \<le> length (number_spec ch l w k c)
        \<and> (ch = 0x64 \<longrightarrow> sint (va_long l True w) \<noteq> - 9223372036854775808) \<longrightarrow> put_number ch l w k c b = None)"
proof -
  obtain r where "mini_vsnprintf buffer n fmt va = Some (length (take (unat n - 1) out), r)" "rsize r = rsize buffer"
    "\<And>i. i < length (take (unat n - 1) out) \<Longrightarrow> rbyte r i = out ! i" "\<And>i. unat n \<le> i \<Longrightarrow> rbyte r i = rbyte buffer i"
    by (rule mini_vsnprintf_result [OF assms]) (rule that)
  then have "\<exists>r. mini_vsnprintf buffer n fmt va = Some (min (unat n - 1) (length out), r) \<and> rsize r = rsize buffer
    \<and> (\<forall>i < min (unat n - 1) (length out). rbyte r i = out ! i) \<and> (\<forall>i \<ge> unat n. rbyte r i = rbyte buffer i)"
    by (intro exI [of _ r]) (simp add: min.commute)
  moreover have "\<forall>ch l w k c b. ch \<in> {0x75, 0x64, 0x78, 0x58} \<and> 24 \<le> length (number_spec ch l w k c)
      \<and> (ch = 0x64 \<longrightarrow> sint (va_long l True w) \<noteq> - 9223372036854775808) \<longrightarrow> put_number ch l w k c b = None"
    by (intro allI impI, elim conjE, rule put_number_overrun) simp_all
  ultimately show ?thesis by (rule conjI)
qed

text \<open>The format \<open>%d:%04x:%s.\<close> in a buffer of eight bytes.\<close>

theorem vsnprintf_formats_witness:
  "\<exists>r. mini_vsnprintf \<lparr>rsize = 10, rbyte = (\<lambda>_. 0)\<rparr> 8 (str (ascii ''%d:%04x:%s.'')) [Num 7, Num 0xab, Str (str (ascii ''hi'')) 0]
    = Some (7, r) \<and> rbyte r 0 = 0x37 \<and> rbyte r 5 = 0x62"
proof -
  let ?fmt = "[0x25, 0x64, 0x3a, 0x25, 0x30, 0x34, 0x78, 0x3a, 0x25, 0x73, 0x2e] :: u8 list"
  let ?va = "[Num 7, Num 0xab, Str (str (ascii ''hi'')) 0]"
  have fmt: "ascii ''%d:%04x:%s.'' = ?fmt" and hi: "ascii ''hi'' = [0x68, 0x69]" by (simp_all add: ascii_def)
  have s: "string_at (str [0x68, 0x69]) 0 = Some [0x68, 0x69]" by (intro string_at_cstr str_cstr) simp
  have rep: "replicate 2 c = [c, c]" for c :: u8 by (simp add: numeral_2_eq_2)
  have n: "digits 10 7 = [7]" "digits 16 171 = [10, 11]" by (simp_all add: digits.simps)
  have f: "format_text ?fmt ?va = Some [0x37, 0x3a, 0x30, 0x30, 0x61, 0x62, 0x3a, 0x68, 0x69, 0x2e]"
    by (simp add: hi conversion_text_def Let_def is_digit_def pad_width_def number_spec_def number_text_def digits_text_def
        va_long_def n string_spec_def s itoa_char_def rep)
  have c: "cstr (str ?fmt) 0 ?fmt" by (rule str_cstr) simp
  have "numbers_fit ?fmt ?va"
    by (simp add: hi conversion_fits_def number_fits_def conversion_text_def Let_def is_digit_def pad_width_def number_spec_def
        number_text_def digits_text_def va_long_def n string_spec_def s itoa_char_def rep)
  from vsnprintf_formats [OF c f this, of 8 "\<lparr>rsize = 10, rbyte = (\<lambda>_. 0)\<rparr>"] show ?thesis unfolding fmt by auto
qed

section \<open>The screen\<close>

text \<open>(C32) \<open>screen_write\<close> returns exactly when no character but a newline comes while the cursor is on row 50,
  one below the last (\<open>on_screen\<close>); the code does not bound the row by the last one, and such a character is stored behind
  the end of \<open>new_screen\<close>. When it returns, the cells are those that the characters drew one after the other, each at
  the cursor, a backspace blanking its cell; the cursor is where they moved it, in a column of the screen and at
  most one row below it; nothing else changes.\<close>

theorem screen_write_bounds:
  assumes "screen_ok ts" "cstr buff 0 xs"
  shows "screen_write buff ts = (if on_screen xs (cursor_of ts)
      then Some (move_and_draw (cursor_after xs (cursor_of ts)) (drawn xs (cursor_of ts) (cells_of ts)) ts) else None)
    \<and> (\<forall>ts'. screen_write buff ts = Some ts' \<longrightarrow> screen_ok ts')"
  using write_bytes_exact [OF assms(1)] write_bytes_ok [OF assms(1)] screen_write_bytes [OF assms(2)] by simp

definition blank_screen :: screen where
  "blank_screen = \<lparr>new_screen = \<lparr>rsize = 4000, rbyte = (\<lambda>_. 0x20)\<rparr>, old_screen = \<lparr>rsize = 4000, rbyte = (\<lambda>_. 0x20)\<rparr>, console = []\<rparr>"

definition cursor_at :: "int \<Rightarrow> int \<Rightarrow> pcb_t" where
  "cursor_at x y = \<lparr>kernel_sp = 0, user_sp = 0, kernel_stack_base = 0, user_stack_base = 0, pgdir = 0, pid = 0, parent_pid = -1,
     status = TASK_RUNNING, cursor_x = x, cursor_y = y, wakeup_time = 0, mutex_idx = -1, mbox_buf = 0, mbox_size = 0, mbox_rw = -1,
     satp = 0, asid = 0, net_curr_num = 0, net_length = 0, net_buffer = 0, net_packet_size = 0\<rparr>"

lemma blank_screen_ok: "0 \<le> x \<Longrightarrow> x < 80 \<Longrightarrow> 0 \<le> y \<Longrightarrow> y \<le> 50 \<Longrightarrow> screen_ok (cursor_at x y, blank_screen)"
  by (simp add: screen_ok_def cursor_at_def blank_screen_def)

theorem screen_write_bounds_witness:
  "(\<exists>ts'. screen_write (str [0x61, 0x0a, 0x62]) (cursor_at 3 48, blank_screen) = Some ts'
      \<and> cursor_of ts' = (1, 49) \<and> cells_of ts' 3843 = 0x61 \<and> cells_of ts' 3920 = 0x62)
    \<and> screen_write (str [0x0a, 0x61]) (cursor_at 3 49, blank_screen) = None"
proof -
  have c: "cstr (str [0x61, 0x0a, 0x62]) 0 [0x61, 0x0a, 0x62]" "cstr (str [0x0a, 0x61]) 0 [0x0a, 0x61]" by (rule str_cstr, simp)+
  have p: "cursor_of (cursor_at 3 48, blank_screen) = (3, 48)" "cursor_of (cursor_at 3 49, blank_screen) = (3, 49)"
    by (simp_all add: cursor_of_def cursor_at_def)
  from screen_write_bounds [OF blank_screen_ok c(1), of 3 48] screen_write_bounds [OF blank_screen_ok c(2), of 3 49]
  show ?thesis by (simp add: p cursor_step_def draw_def)
qed

text \<open>(C33) With the cursor on a row of the screen, after \<open>screen_reflush\<close> a terminal that showed \<open>old_screen\<close> before shows \<open>new_screen\<close>, with its
  cursor at the running task's cursor, although only the cells that differ are sent; and
  \<open>old_screen\<close> again agrees with what is shown. The cells sent must be printable.\<close>

theorem screen_reflush_shows:
  assumes "vt100 ready feed pos cell" "screen_ok (p, s)" "cursor_y p < 50" "ready t"
    and "\<forall>x < 80. \<forall>y < 50. cell t x y = rbyte (old_screen s) (80 * y + x)"
    and "\<forall>k < 4000. rbyte (new_screen s) k \<noteq> rbyte (old_screen s) k \<longrightarrow> printable (rbyte (new_screen s) k)"
  shows "\<exists>s' bs. screen_reflush (p, s) = Some (p, s') \<and> console s' = console s @ bs
    \<and> (\<forall>x < 80. \<forall>y < 50. cell (feed t bs) x y = rbyte (new_screen s) (80 * y + x))
    \<and> pos (feed t bs) = (nat (cursor_x p), nat (cursor_y p)) \<and> new_screen s' = new_screen s
    \<and> (\<forall>k < 4000. rbyte (old_screen s') k = rbyte (new_screen s) k)"
  by (rule reflush_result [OF assms(1-4)]) (use assms(5,6) in blast)+

theorem screen_reflush_shows_witness:
  "\<exists>s' bs. screen_reflush (cursor_at 3 7, blank_screen\<lparr>new_screen := \<lparr>rsize = 4000, rbyte = (\<lambda>k. if k = 81 then 0x61 else 0x20)\<rparr>\<rparr>)
      = Some (cursor_at 3 7, s') \<and> console s' = bs
    \<and> vt_cell (foldl vt_step \<lparr>vt_mode = Ground, vt_x = 0, vt_y = 0, vt_cell = (\<lambda>_ _. 0x20)\<rparr> bs) 1 1 = 0x61"
proof -
  let ?s = "blank_screen\<lparr>new_screen := \<lparr>rsize = 4000, rbyte = (\<lambda>k. if k = 81 then 0x61 else 0x20)\<rparr>\<rparr>"
  let ?t = "\<lparr>vt_mode = Ground, vt_x = 0, vt_y = 0, vt_cell = (\<lambda>_ _. 0x20)\<rparr> :: small_vt"
  have ok: "screen_ok (cursor_at 3 7, ?s)" by (simp add: screen_ok_def cursor_at_def blank_screen_def)
  have y: "cursor_y (cursor_at 3 7) < 50" "vt_mode ?t = Ground" by (simp_all add: cursor_at_def)
  have o: "\<forall>x < 80. \<forall>y < 50. vt_cell ?t x y = rbyte (old_screen ?s) (80 * y + x)" by (simp add: blank_screen_def)
  have n: "\<forall>k < 4000. rbyte (new_screen ?s) k \<noteq> rbyte (old_screen ?s) k \<longrightarrow> printable (rbyte (new_screen ?s) k)"
    by (simp add: blank_screen_def printable_def)
  obtain s' bs where r: "screen_reflush (cursor_at 3 7, ?s) = Some (cursor_at 3 7, s')" "console s' = console ?s @ bs"
    "\<forall>x < 80. \<forall>y < 50. vt_cell (foldl vt_step ?t bs) x y = rbyte (new_screen ?s) (80 * y + x)"
    using screen_reflush_shows [OF small_vt_ok ok y o n] by blast
  from r(3) have "vt_cell (foldl vt_step ?t bs) 1 1 = 0x61" by simp
  with r(1,2) show ?thesis by (auto simp: blank_screen_def)
qed

end
