(* ===== verification/Dispatch.thy ===== *)
theory Dispatch
  imports Kstate
begin

text \<open>
  From an \<open>ecall\<close> in a user program to the kernel function that serves it: the stubs of
  \<open>tiny_libc/syscall.c\<close> with the numbers of \<open>tiny_libc/include/syscall.h\<close>, the trap tables and
  \<open>interrupt_helper\<close> of \<open>kernel/irq/irq.c\<close>, \<open>handle_syscall\<close> of \<open>kernel/syscall/syscall.c\<close> and the
  table that \<open>init_syscall\<close> of \<open>init/main.c\<close> fills with the numbers of
  \<open>arch/riscv/include/asm/unistd.h\<close>. A function pointer is the name of the function. An entry
  that is never assigned is a null pointer: a call through it is undefined.
\<close>

section \<open>System call numbers\<close>

datatype (plugins only: size) sys =
  SC_EXEC | SC_EXIT | SC_SLEEP | SC_KILL | SC_WAITPID | SC_PS | SC_GETPID | SC_YIELD | SC_THREAD_CREATE | SC_THREAD_JOIN | SC_WRITE | SC_READCH | SC_CURSOR | SC_REFLUSH | SC_CLEAR | SC_GET_TIMEBASE | SC_GET_TICK | SC_SEMA_INIT | SC_SEMA_UP | SC_SEMA_DOWN | SC_SEMA_DESTROY | SC_LOCK_INIT | SC_LOCK_ACQ | SC_LOCK_RELEASE | SC_SHOW_TASK | SC_BARR_INIT | SC_BARR_WAIT | SC_BARR_DESTROY | SC_COND_INIT | SC_COND_WAIT | SC_COND_SIGNAL | SC_COND_BROADCAST | SC_COND_DESTROY | SC_MBOX_OPEN | SC_MBOX_CLOSE | SC_MBOX_SEND | SC_MBOX_RECV | SC_SHM_GET | SC_SHM_DT | SC_NET_SEND | SC_NET_RECV | SC_FS_MKFS | SC_FS_STATFS | SC_FS_CD | SC_FS_MKDIR | SC_FS_RMDIR | SC_FS_LS | SC_FS_TOUCH | SC_FS_CAT | SC_FS_OPEN | SC_FS_READ | SC_FS_WRITE | SC_FS_CLOSE | SC_FS_LN | SC_FS_RM | SC_FS_LSEEK

text \<open>The numbers of the user library and those of the kernel; the kernel has no semaphore calls.\<close>

fun user_sysno :: "sys \<Rightarrow> nat" where
  "user_sysno SC_EXEC = 0"
| "user_sysno SC_EXIT = 1"
| "user_sysno SC_SLEEP = 2"
| "user_sysno SC_KILL = 3"
| "user_sysno SC_WAITPID = 4"
| "user_sysno SC_PS = 5"
| "user_sysno SC_GETPID = 6"
| "user_sysno SC_YIELD = 7"
| "user_sysno SC_THREAD_CREATE = 10"
| "user_sysno SC_THREAD_JOIN = 11"
| "user_sysno SC_WRITE = 20"
| "user_sysno SC_READCH = 21"
| "user_sysno SC_CURSOR = 22"
| "user_sysno SC_REFLUSH = 23"
| "user_sysno SC_CLEAR = 24"
| "user_sysno SC_GET_TIMEBASE = 30"
| "user_sysno SC_GET_TICK = 31"
| "user_sysno SC_SEMA_INIT = 36"
| "user_sysno SC_SEMA_UP = 37"
| "user_sysno SC_SEMA_DOWN = 38"
| "user_sysno SC_SEMA_DESTROY = 39"
| "user_sysno SC_LOCK_INIT = 40"
| "user_sysno SC_LOCK_ACQ = 41"
| "user_sysno SC_LOCK_RELEASE = 42"
| "user_sysno SC_SHOW_TASK = 43"
| "user_sysno SC_BARR_INIT = 44"
| "user_sysno SC_BARR_WAIT = 45"
| "user_sysno SC_BARR_DESTROY = 46"
| "user_sysno SC_COND_INIT = 47"
| "user_sysno SC_COND_WAIT = 48"
| "user_sysno SC_COND_SIGNAL = 49"
| "user_sysno SC_COND_BROADCAST = 50"
| "user_sysno SC_COND_DESTROY = 51"
| "user_sysno SC_MBOX_OPEN = 52"
| "user_sysno SC_MBOX_CLOSE = 53"
| "user_sysno SC_MBOX_SEND = 54"
| "user_sysno SC_MBOX_RECV = 55"
| "user_sysno SC_SHM_GET = 56"
| "user_sysno SC_SHM_DT = 57"
| "user_sysno SC_NET_SEND = 63"
| "user_sysno SC_NET_RECV = 64"
| "user_sysno SC_FS_MKFS = 65"
| "user_sysno SC_FS_STATFS = 66"
| "user_sysno SC_FS_CD = 67"
| "user_sysno SC_FS_MKDIR = 68"
| "user_sysno SC_FS_RMDIR = 69"
| "user_sysno SC_FS_LS = 70"
| "user_sysno SC_FS_TOUCH = 71"
| "user_sysno SC_FS_CAT = 72"
| "user_sysno SC_FS_OPEN = 73"
| "user_sysno SC_FS_READ = 74"
| "user_sysno SC_FS_WRITE = 75"
| "user_sysno SC_FS_CLOSE = 76"
| "user_sysno SC_FS_LN = 77"
| "user_sysno SC_FS_RM = 78"
| "user_sysno SC_FS_LSEEK = 79"

fun kernel_sysno :: "sys \<Rightarrow> nat option" where
  "kernel_sysno SC_EXEC = Some 0"
| "kernel_sysno SC_EXIT = Some 1"
| "kernel_sysno SC_SLEEP = Some 2"
| "kernel_sysno SC_KILL = Some 3"
| "kernel_sysno SC_WAITPID = Some 4"
| "kernel_sysno SC_PS = Some 5"
| "kernel_sysno SC_GETPID = Some 6"
| "kernel_sysno SC_YIELD = Some 7"
| "kernel_sysno SC_THREAD_CREATE = Some 10"
| "kernel_sysno SC_THREAD_JOIN = Some 11"
| "kernel_sysno SC_WRITE = Some 20"
| "kernel_sysno SC_READCH = Some 21"
| "kernel_sysno SC_CURSOR = Some 22"
| "kernel_sysno SC_REFLUSH = Some 23"
| "kernel_sysno SC_CLEAR = Some 24"
| "kernel_sysno SC_GET_TIMEBASE = Some 30"
| "kernel_sysno SC_GET_TICK = Some 31"
| "kernel_sysno SC_SEMA_INIT = None"
| "kernel_sysno SC_SEMA_UP = None"
| "kernel_sysno SC_SEMA_DOWN = None"
| "kernel_sysno SC_SEMA_DESTROY = None"
| "kernel_sysno SC_LOCK_INIT = Some 40"
| "kernel_sysno SC_LOCK_ACQ = Some 41"
| "kernel_sysno SC_LOCK_RELEASE = Some 42"
| "kernel_sysno SC_SHOW_TASK = Some 43"
| "kernel_sysno SC_BARR_INIT = Some 44"
| "kernel_sysno SC_BARR_WAIT = Some 45"
| "kernel_sysno SC_BARR_DESTROY = Some 46"
| "kernel_sysno SC_COND_INIT = Some 47"
| "kernel_sysno SC_COND_WAIT = Some 48"
| "kernel_sysno SC_COND_SIGNAL = Some 49"
| "kernel_sysno SC_COND_BROADCAST = Some 50"
| "kernel_sysno SC_COND_DESTROY = Some 51"
| "kernel_sysno SC_MBOX_OPEN = Some 52"
| "kernel_sysno SC_MBOX_CLOSE = Some 53"
| "kernel_sysno SC_MBOX_SEND = Some 54"
| "kernel_sysno SC_MBOX_RECV = Some 55"
| "kernel_sysno SC_SHM_GET = Some 56"
| "kernel_sysno SC_SHM_DT = Some 57"
| "kernel_sysno SC_NET_SEND = Some 63"
| "kernel_sysno SC_NET_RECV = Some 64"
| "kernel_sysno SC_FS_MKFS = Some 65"
| "kernel_sysno SC_FS_STATFS = Some 66"
| "kernel_sysno SC_FS_CD = Some 67"
| "kernel_sysno SC_FS_MKDIR = Some 68"
| "kernel_sysno SC_FS_RMDIR = Some 69"
| "kernel_sysno SC_FS_LS = Some 70"
| "kernel_sysno SC_FS_TOUCH = Some 71"
| "kernel_sysno SC_FS_CAT = Some 72"
| "kernel_sysno SC_FS_OPEN = Some 73"
| "kernel_sysno SC_FS_READ = Some 74"
| "kernel_sysno SC_FS_WRITE = Some 75"
| "kernel_sysno SC_FS_CLOSE = Some 76"
| "kernel_sysno SC_FS_LN = Some 77"
| "kernel_sysno SC_FS_RM = Some 78"
| "kernel_sysno SC_FS_LSEEK = Some 79"

section \<open>The system call table\<close>

datatype (plugins only: size) kfun =
  Do_exec | Do_exit | Do_sleep | Do_kill_all | Do_waitpid | Do_process_show | Do_getpid | Do_scheduler | Do_thread_create | Do_thread_join | Screen_write | Port_read_ch | Screen_move_cursor | Screen_reflush | Screen_clear | Get_time_base | Get_ticks | Do_mutex_lock_init | Do_mutex_lock_acquire | Do_mutex_lock_release | Do_barrier_init | Do_barrier_wait | Do_barrier_destroy | Do_condition_init | Do_condition_wait | Do_condition_signal | Do_condition_broadcast | Do_mbox_open | Do_mbox_close | Do_mbox_send | Do_mbox_recv | Do_net_send | Do_net_recv | Do_mkfs | Do_statfs | Do_cd | Do_ls | Do_mkdir | Do_rmdir | Do_open | Do_close | Do_read | Do_write | Do_lseek | Do_ln | Do_rm

definition NUM_SYSCALLS :: nat where "NUM_SYSCALLS = 96"

text \<open>The assignments of \<open>init_syscall\<close> in their order.\<close>

definition syscall_entries :: "(sys \<times> kfun) list" where
  "syscall_entries =
    [(SC_EXEC, Do_exec),
     (SC_EXIT, Do_exit),
     (SC_SLEEP, Do_sleep),
     (SC_KILL, Do_kill_all),
     (SC_WAITPID, Do_waitpid),
     (SC_PS, Do_process_show),
     (SC_GETPID, Do_getpid),
     (SC_YIELD, Do_scheduler),
     (SC_THREAD_CREATE, Do_thread_create),
     (SC_THREAD_JOIN, Do_thread_join),
     (SC_WRITE, Screen_write),
     (SC_READCH, Port_read_ch),
     (SC_CURSOR, Screen_move_cursor),
     (SC_REFLUSH, Screen_reflush),
     (SC_CLEAR, Screen_clear),
     (SC_GET_TIMEBASE, Get_time_base),
     (SC_GET_TICK, Get_ticks),
     (SC_LOCK_INIT, Do_mutex_lock_init),
     (SC_LOCK_ACQ, Do_mutex_lock_acquire),
     (SC_LOCK_RELEASE, Do_mutex_lock_release),
     (SC_BARR_INIT, Do_barrier_init),
     (SC_BARR_WAIT, Do_barrier_wait),
     (SC_BARR_DESTROY, Do_barrier_destroy),
     (SC_COND_INIT, Do_condition_init),
     (SC_COND_WAIT, Do_condition_wait),
     (SC_COND_SIGNAL, Do_condition_signal),
     (SC_COND_BROADCAST, Do_condition_broadcast),
     (SC_MBOX_OPEN, Do_mbox_open),
     (SC_MBOX_CLOSE, Do_mbox_close),
     (SC_MBOX_SEND, Do_mbox_send),
     (SC_MBOX_RECV, Do_mbox_recv),
     (SC_NET_SEND, Do_net_send),
     (SC_NET_RECV, Do_net_recv),
     (SC_FS_MKFS, Do_mkfs),
     (SC_FS_STATFS, Do_statfs),
     (SC_FS_CD, Do_cd),
     (SC_FS_LS, Do_ls),
     (SC_FS_MKDIR, Do_mkdir),
     (SC_FS_RMDIR, Do_rmdir),
     (SC_FS_OPEN, Do_open),
     (SC_FS_CLOSE, Do_close),
     (SC_FS_READ, Do_read),
     (SC_FS_WRITE, Do_write),
     (SC_FS_LSEEK, Do_lseek),
     (SC_FS_LN, Do_ln),
     (SC_FS_RM, Do_rm)]"

definition init_syscall :: "nat \<Rightarrow> kfun option" where
  "init_syscall = foldl (\<lambda>t (n, f). case kernel_sysno n of None \<Rightarrow> t | Some k \<Rightarrow> t(k \<mapsto> f)) Map.empty syscall_entries"

section \<open>User stubs\<close>

text \<open>
  \<open>invoke_syscall\<close> moves its arguments to \<open>a7\<close> and \<open>a0\<close> to \<open>a4\<close> and executes \<open>ecall\<close>: the registers of the
  trap frame that the kernel sees, with the exception code of a system call.
\<close>

definition EXCC_SYSCALL :: u64 where "EXCC_SYSCALL = 8"

definition invoke_syscall :: "nat \<Rightarrow> u64 \<Rightarrow> u64 \<Rightarrow> u64 \<Rightarrow> u64 \<Rightarrow> u64 \<Rightarrow> regs_context_t \<Rightarrow> regs_context_t" where
  "invoke_syscall sysno arg0 arg1 arg2 arg3 arg4 c =
     c\<lparr>regs := (regs c)(17 := of_nat sysno, 10 := arg0, 11 := arg1, 12 := arg2, 13 := arg3, 14 := arg4),
       scause := EXCC_SYSCALL\<rparr>"

text \<open>Pointers are addresses; an \<open>int\<close> is sign-extended to a register.\<close>

abbreviation reg :: "int \<Rightarrow> u64" where "reg \<equiv> word_of_int"

definition sys_yield :: "regs_context_t \<Rightarrow> regs_context_t" where
  "sys_yield = invoke_syscall (user_sysno SC_YIELD) 0 0 0 0 0"

definition sys_move_cursor :: "int \<Rightarrow> int \<Rightarrow> regs_context_t \<Rightarrow> regs_context_t" where
  "sys_move_cursor x y = invoke_syscall (user_sysno SC_CURSOR) (reg x) (reg y) 0 0 0"

definition sys_screen_write :: "u64 \<Rightarrow> regs_context_t \<Rightarrow> regs_context_t" where
  "sys_screen_write buff = invoke_syscall (user_sysno SC_WRITE) buff 0 0 0 0"

definition sys_reflush :: "regs_context_t \<Rightarrow> regs_context_t" where
  "sys_reflush = invoke_syscall (user_sysno SC_REFLUSH) 0 0 0 0 0"

definition sys_mutex_init :: "int \<Rightarrow> regs_context_t \<Rightarrow> regs_context_t" where
  "sys_mutex_init key = invoke_syscall (user_sysno SC_LOCK_INIT) (reg key) 0 0 0 0"

definition sys_mutex_acquire :: "int \<Rightarrow> regs_context_t \<Rightarrow> regs_context_t" where
  "sys_mutex_acquire mutex = invoke_syscall (user_sysno SC_LOCK_ACQ) (reg mutex) 0 0 0 0"

definition sys_mutex_release :: "int \<Rightarrow> regs_context_t \<Rightarrow> regs_context_t" where
  "sys_mutex_release mutex = invoke_syscall (user_sysno SC_LOCK_RELEASE) (reg mutex) 0 0 0 0"

definition sys_get_timebase :: "regs_context_t \<Rightarrow> regs_context_t" where
  "sys_get_timebase = invoke_syscall (user_sysno SC_GET_TIMEBASE) 0 0 0 0 0"

definition sys_get_tick :: "regs_context_t \<Rightarrow> regs_context_t" where
  "sys_get_tick = invoke_syscall (user_sysno SC_GET_TICK) 0 0 0 0 0"

definition sys_sleep :: "u32 \<Rightarrow> regs_context_t \<Rightarrow> regs_context_t" where
  "sys_sleep time = invoke_syscall (user_sysno SC_SLEEP) (ucast time) 0 0 0 0"

definition sys_exec :: "u64 \<Rightarrow> int \<Rightarrow> u64 \<Rightarrow> regs_context_t \<Rightarrow> regs_context_t" where
  "sys_exec name argc argv = invoke_syscall (user_sysno SC_EXEC) name (reg argc) argv 0 0"

definition sys_exit :: "regs_context_t \<Rightarrow> regs_context_t" where
  "sys_exit = invoke_syscall (user_sysno SC_EXIT) 0 0 0 0 0"

definition sys_kill :: "int \<Rightarrow> regs_context_t \<Rightarrow> regs_context_t" where
  "sys_kill child = invoke_syscall (user_sysno SC_KILL) (reg child) 0 0 0 0"

definition sys_waitpid :: "int \<Rightarrow> regs_context_t \<Rightarrow> regs_context_t" where
  "sys_waitpid child = invoke_syscall (user_sysno SC_WAITPID) (reg child) 0 0 0 0"

definition sys_ps :: "regs_context_t \<Rightarrow> regs_context_t" where
  "sys_ps = invoke_syscall (user_sysno SC_PS) 0 0 0 0 0"

definition sys_getpid :: "regs_context_t \<Rightarrow> regs_context_t" where
  "sys_getpid = invoke_syscall (user_sysno SC_GETPID) 0 0 0 0 0"

definition sys_getchar :: "regs_context_t \<Rightarrow> regs_context_t" where
  "sys_getchar = invoke_syscall (user_sysno SC_READCH) 0 0 0 0 0"

definition sys_clear :: "regs_context_t \<Rightarrow> regs_context_t" where
  "sys_clear = invoke_syscall (user_sysno SC_CLEAR) 0 0 0 0 0"

definition sys_barrier_init :: "int \<Rightarrow> int \<Rightarrow> regs_context_t \<Rightarrow> regs_context_t" where
  "sys_barrier_init key goal = invoke_syscall (user_sysno SC_BARR_INIT) (reg key) (reg goal) 0 0 0"

definition sys_barrier_wait :: "int \<Rightarrow> regs_context_t \<Rightarrow> regs_context_t" where
  "sys_barrier_wait bar_idx = invoke_syscall (user_sysno SC_BARR_WAIT) (reg bar_idx) 0 0 0 0"

definition sys_barrier_destroy :: "int \<Rightarrow> regs_context_t \<Rightarrow> regs_context_t" where
  "sys_barrier_destroy bar_idx = invoke_syscall (user_sysno SC_BARR_DESTROY) (reg bar_idx) 0 0 0 0"

definition sys_condition_init :: "int \<Rightarrow> regs_context_t \<Rightarrow> regs_context_t" where
  "sys_condition_init key = invoke_syscall (user_sysno SC_COND_INIT) (reg key) 0 0 0 0"

definition sys_condition_wait :: "int \<Rightarrow> int \<Rightarrow> regs_context_t \<Rightarrow> regs_context_t" where
  "sys_condition_wait cond_idx mutex = invoke_syscall (user_sysno SC_COND_WAIT) (reg cond_idx) (reg mutex) 0 0 0"

definition sys_condition_signal :: "int \<Rightarrow> regs_context_t \<Rightarrow> regs_context_t" where
  "sys_condition_signal cond_idx = invoke_syscall (user_sysno SC_COND_SIGNAL) (reg cond_idx) 0 0 0 0"

definition sys_condition_broadcast :: "int \<Rightarrow> regs_context_t \<Rightarrow> regs_context_t" where
  "sys_condition_broadcast cond_idx = invoke_syscall (user_sysno SC_COND_BROADCAST) (reg cond_idx) 0 0 0 0"

definition sys_condition_destroy :: "int \<Rightarrow> regs_context_t \<Rightarrow> regs_context_t" where
  "sys_condition_destroy cond_idx = invoke_syscall (user_sysno SC_COND_DESTROY) (reg cond_idx) 0 0 0 0"

definition sys_mbox_open :: "u64 \<Rightarrow> regs_context_t \<Rightarrow> regs_context_t" where
  "sys_mbox_open name = invoke_syscall (user_sysno SC_MBOX_OPEN) name 0 0 0 0"

definition sys_mbox_close :: "int \<Rightarrow> regs_context_t \<Rightarrow> regs_context_t" where
  "sys_mbox_close mbox_id = invoke_syscall (user_sysno SC_MBOX_CLOSE) (reg mbox_id) 0 0 0 0"

definition sys_mbox_send :: "int \<Rightarrow> u64 \<Rightarrow> int \<Rightarrow> regs_context_t \<Rightarrow> regs_context_t" where
  "sys_mbox_send mbox_idx msg msg_length = invoke_syscall (user_sysno SC_MBOX_SEND) (reg mbox_idx) msg (reg msg_length) 0 0"

definition sys_mbox_recv :: "int \<Rightarrow> u64 \<Rightarrow> int \<Rightarrow> regs_context_t \<Rightarrow> regs_context_t" where
  "sys_mbox_recv mbox_idx msg msg_length = invoke_syscall (user_sysno SC_MBOX_RECV) (reg mbox_idx) msg (reg msg_length) 0 0"

definition sys_net_send :: "u64 \<Rightarrow> int \<Rightarrow> regs_context_t \<Rightarrow> regs_context_t" where
  "sys_net_send txpacket len = invoke_syscall (user_sysno SC_NET_SEND) txpacket (reg len) 0 0 0"

definition sys_net_recv :: "u64 \<Rightarrow> int \<Rightarrow> u64 \<Rightarrow> regs_context_t \<Rightarrow> regs_context_t" where
  "sys_net_recv rxbuffer pkt_num pkt_lens = invoke_syscall (user_sysno SC_NET_RECV) rxbuffer (reg pkt_num) pkt_lens 0 0"

definition sys_mkfs :: "regs_context_t \<Rightarrow> regs_context_t" where
  "sys_mkfs = invoke_syscall (user_sysno SC_FS_MKFS) 0 0 0 0 0"

definition sys_statfs :: "regs_context_t \<Rightarrow> regs_context_t" where
  "sys_statfs = invoke_syscall (user_sysno SC_FS_STATFS) 0 0 0 0 0"

definition sys_cd :: "u64 \<Rightarrow> regs_context_t \<Rightarrow> regs_context_t" where
  "sys_cd path = invoke_syscall (user_sysno SC_FS_CD) path 0 0 0 0"

definition sys_mkdir :: "u64 \<Rightarrow> regs_context_t \<Rightarrow> regs_context_t" where
  "sys_mkdir path = invoke_syscall (user_sysno SC_FS_MKDIR) path 0 0 0 0"

definition sys_rmdir :: "u64 \<Rightarrow> regs_context_t \<Rightarrow> regs_context_t" where
  "sys_rmdir path = invoke_syscall (user_sysno SC_FS_RMDIR) path 0 0 0 0"

definition sys_ls :: "u64 \<Rightarrow> int \<Rightarrow> regs_context_t \<Rightarrow> regs_context_t" where
  "sys_ls path option = invoke_syscall (user_sysno SC_FS_LS) path (reg option) 0 0 0"

definition sys_open :: "u64 \<Rightarrow> int \<Rightarrow> regs_context_t \<Rightarrow> regs_context_t" where
  "sys_open path mode = invoke_syscall (user_sysno SC_FS_OPEN) path (reg mode) 0 0 0"

definition sys_read :: "int \<Rightarrow> u64 \<Rightarrow> int \<Rightarrow> regs_context_t \<Rightarrow> regs_context_t" where
  "sys_read fd buff len = invoke_syscall (user_sysno SC_FS_READ) (reg fd) buff (reg len) 0 0"

definition sys_write :: "int \<Rightarrow> u64 \<Rightarrow> int \<Rightarrow> regs_context_t \<Rightarrow> regs_context_t" where
  "sys_write fd buff len = invoke_syscall (user_sysno SC_FS_WRITE) (reg fd) buff (reg len) 0 0"

definition sys_close :: "int \<Rightarrow> regs_context_t \<Rightarrow> regs_context_t" where
  "sys_close fd = invoke_syscall (user_sysno SC_FS_CLOSE) (reg fd) 0 0 0 0"

definition sys_ln :: "u64 \<Rightarrow> u64 \<Rightarrow> regs_context_t \<Rightarrow> regs_context_t" where
  "sys_ln src_path dst_path = invoke_syscall (user_sysno SC_FS_LN) src_path dst_path 0 0 0"

definition sys_rm :: "u64 \<Rightarrow> regs_context_t \<Rightarrow> regs_context_t" where
  "sys_rm path = invoke_syscall (user_sysno SC_FS_RM) path 0 0 0 0"

definition sys_lseek :: "int \<Rightarrow> int \<Rightarrow> int \<Rightarrow> regs_context_t \<Rightarrow> regs_context_t" where
  "sys_lseek fd offset whence = invoke_syscall (user_sysno SC_FS_LSEEK) (reg fd) (reg offset) (reg whence) 0 0"

definition sys_thread_create :: "u64 \<Rightarrow> u64 \<Rightarrow> u64 \<Rightarrow> regs_context_t \<Rightarrow> regs_context_t" where
  "sys_thread_create thread start_routine arg = invoke_syscall (user_sysno SC_THREAD_CREATE) thread start_routine arg 0 0"

definition sys_thread_join :: "int \<Rightarrow> regs_context_t \<Rightarrow> regs_context_t" where
  "sys_thread_join thread = invoke_syscall (user_sysno SC_THREAD_JOIN) (reg thread) 0 0 0 0"

section \<open>Traps\<close>

datatype handler = Handle_syscall | Handle_other | Handle_load_page_fault | Handle_store_page_fault
  | Handle_irq_timer | Handle_irq_ext

definition IRQC_COUNT :: nat where "IRQC_COUNT = 12"
definition EXCC_COUNT :: nat where "EXCC_COUNT = 16"

definition exc_table :: "nat \<Rightarrow> handler option" where
  "exc_table = [8 \<mapsto> Handle_syscall, 3 \<mapsto> Handle_other, 0 \<mapsto> Handle_other, 1 \<mapsto> Handle_other, 5 \<mapsto> Handle_other,
     7 \<mapsto> Handle_other, 12 \<mapsto> Handle_load_page_fault, 13 \<mapsto> Handle_load_page_fault, 15 \<mapsto> Handle_store_page_fault]"

definition irq_table :: "nat \<Rightarrow> handler option" where
  "irq_table = [4 \<mapsto> Handle_other, 5 \<mapsto> Handle_irq_timer, 7 \<mapsto> Handle_other, 8 \<mapsto> Handle_other, 9 \<mapsto> Handle_irq_ext,
     11 \<mapsto> Handle_other, 0 \<mapsto> Handle_other, 1 \<mapsto> Handle_other, 3 \<mapsto> Handle_other]"

text \<open>The handler that \<open>interrupt_helper\<close> calls.\<close>

definition interrupt_helper :: "u64 \<Rightarrow> handler option" where
  "interrupt_helper c =
     (let flag = push_bit 63 1; is_irq = drop_bit 63 c; cause = c AND NOT flag
      in if is_irq \<noteq> 0
         then if unat cause < IRQC_COUNT then irq_table (unat cause) else None
         else if unat cause < EXCC_COUNT then exc_table (unat cause) else None)"

section \<open>System calls\<close>

text \<open>
  \<open>handle_syscall\<close> with the trap frame at address \<open>a\<close>: it steps over the \<open>ecall\<close>, calls the function
  in the table with the five argument registers and stores the result in \<open>a0\<close>. What the functions
  do is the argument \<open>call\<close>, on a state that contains the kernel's (\<open>get\<close> and \<open>upd\<close>); theory Machine gives
  both. The number is not checked against the size of the table.
\<close>

definition upd_frame :: "u64 \<Rightarrow> (regs_context_t \<Rightarrow> regs_context_t) \<Rightarrow> 'd kernel \<Rightarrow> 'd kernel" where
  "upd_frame a f s = s\<lparr>frames := (frames s)(a := f (frames s a))\<rparr>"

definition handle_syscall ::
  "('s \<Rightarrow> 'd kernel) \<Rightarrow> (('d kernel \<Rightarrow> 'd kernel) \<Rightarrow> 's \<Rightarrow> 's) \<Rightarrow>
   (kfun \<Rightarrow> u64 list \<Rightarrow> 's \<Rightarrow> (u64 \<times> 's) option) \<Rightarrow> u64 \<Rightarrow> 's \<Rightarrow> 's option" where
  "handle_syscall get upd call a s = do {
     let s1 = upd (upd_frame a (\<lambda>c. c\<lparr>sepc := sepc c + 4\<rparr>)) s;
     let r = regs (frames (get s1) a);
     fn \<leftarrow> index (sint (r 17)) NUM_SYSCALLS;
     f \<leftarrow> init_syscall fn;
     (ret, s2) \<leftarrow> call f [r 10, r 11, r 12, r 13, r 14] s1;
     Some (upd (upd_frame a (\<lambda>c. c\<lparr>regs := (regs c)(10 := ret)\<rparr>)) s2) }"

section \<open>What a stub reaches\<close>

text \<open>A trap with the frame \<open>c\<close> saved at \<open>a\<close>, when the trap table leads to \<open>handle_syscall\<close>.\<close>

definition syscall_trap ::
  "(kfun \<Rightarrow> u64 list \<Rightarrow> 'd kernel \<Rightarrow> (u64 \<times> 'd kernel) option) \<Rightarrow> u64 \<Rightarrow> 'd kernel \<Rightarrow> regs_context_t \<Rightarrow> 'd kernel option" where
  "syscall_trap call a s c =
     (if interrupt_helper (scause c) = Some Handle_syscall
      then handle_syscall (\<lambda>s. s) (\<lambda>f. f) call a (s\<lparr>frames := (frames s)(a := c)\<rparr>) else None)"

text \<open>What it should do: call \<open>f\<close> on \<open>xs\<close> with the frame moved behind the \<open>ecall\<close>, and put the result into the
  register \<open>a0\<close> of the frame that is there then.\<close>

definition served ::
  "(kfun \<Rightarrow> u64 list \<Rightarrow> 'd kernel \<Rightarrow> (u64 \<times> 'd kernel) option) \<Rightarrow> u64 \<Rightarrow> 'd kernel \<Rightarrow> regs_context_t \<Rightarrow>
   kfun \<Rightarrow> u64 list \<Rightarrow> 'd kernel option" where
  "served call a s c f xs =
     (case call f xs (s\<lparr>frames := (frames s)(a := c\<lparr>sepc := sepc c + 4\<rparr>)\<rparr>) of
        None \<Rightarrow> None
      | Some (v, t) \<Rightarrow> Some (t\<lparr>frames := (frames t)(a := (frames t a)\<lparr>regs := (regs (frames t a))(10 := v)\<rparr>)\<rparr>))"

lemma syscall_trap_invoke:
  fixes n :: nat and x0 x1 x2 x3 x4 :: u64 and c :: regs_context_t
  assumes "n < NUM_SYSCALLS"
  defines "c' \<equiv> invoke_syscall n x0 x1 x2 x3 x4 c"
  shows "syscall_trap call a s c' = (case init_syscall n of None \<Rightarrow> None | Some f \<Rightarrow> served call a s c' f [x0, x1, x2, x3, x4])"
proof -
  have r: "scause c' = EXCC_SYSCALL" "regs c' 17 = of_nat n"
    "[regs c' 10, regs c' 11, regs c' 12, regs c' 13, regs c' 14] = [x0, x1, x2, x3, x4]"
    by (simp_all add: c'_def invoke_syscall_def)
  have "interrupt_helper EXCC_SYSCALL = Some Handle_syscall"
    by (simp add: interrupt_helper_def EXCC_SYSCALL_def EXCC_COUNT_def exc_table_def)
  moreover have "sint (of_nat n :: u64) = int n"
    using assms(1) by (simp add: NUM_SYSCALLS_def signed_of_nat signed_take_bit_int_eq_self)
  ultimately show ?thesis using assms(1) r(1,2)
    by (cases "init_syscall n")
      (simp_all add: syscall_trap_def handle_syscall_def served_def upd_frame_def Let_def r(3) [symmetric]
        split: option.split)
qed

lemma init_syscall_table:
  "init_syscall = map_of (map (\<lambda>(n, f). (user_sysno n, f)) (rev syscall_entries))"
  by (simp add: init_syscall_def syscall_entries_def)

lemmas stub_defs =
  sys_yield_def sys_move_cursor_def sys_screen_write_def sys_reflush_def sys_mutex_init_def sys_mutex_acquire_def sys_mutex_release_def sys_get_timebase_def sys_get_tick_def sys_sleep_def sys_exec_def sys_exit_def sys_kill_def sys_waitpid_def sys_ps_def sys_getpid_def sys_getchar_def sys_clear_def sys_barrier_init_def sys_barrier_wait_def sys_barrier_destroy_def sys_condition_init_def sys_condition_wait_def sys_condition_signal_def sys_condition_broadcast_def sys_condition_destroy_def sys_mbox_open_def sys_mbox_close_def sys_mbox_send_def sys_mbox_recv_def sys_net_send_def sys_net_recv_def sys_mkfs_def sys_statfs_def sys_cd_def sys_mkdir_def sys_rmdir_def sys_ls_def sys_open_def sys_read_def sys_write_def sys_close_def sys_ln_def sys_rm_def sys_lseek_def sys_thread_create_def sys_thread_join_def

text \<open>(C34) A trap with the frame that a stub of the user library leaves is served by \<open>handle_syscall\<close>, which steps over the
  \<open>ecall\<close>, calls, through the stub's number and the system call table, the kernel function of the
  same purpose with the stub's arguments in order, and puts its result into the register \<open>a0\<close> of the saved frame, for every
  stub, whatever the kernel functions do. The one exception is \<open>sys_condition_destroy\<close>: no entry is ever assigned to its
  number, so the kernel calls a null pointer.\<close>

theorem stubs_reach_kernel:
  "syscall_trap call a s (sys_yield c) = served call a s (sys_yield c) Do_scheduler [0, 0, 0, 0, 0]
   \<and> syscall_trap call a s (sys_move_cursor x y c) = served call a s (sys_move_cursor x y c) Screen_move_cursor [reg x, reg y, 0, 0, 0]
   \<and> syscall_trap call a s (sys_screen_write buff c) = served call a s (sys_screen_write buff c) Screen_write [buff, 0, 0, 0, 0]
   \<and> syscall_trap call a s (sys_reflush c) = served call a s (sys_reflush c) Screen_reflush [0, 0, 0, 0, 0]
   \<and> syscall_trap call a s (sys_mutex_init key c) = served call a s (sys_mutex_init key c) Do_mutex_lock_init [reg key, 0, 0, 0, 0]
   \<and> syscall_trap call a s (sys_mutex_acquire mutex c) = served call a s (sys_mutex_acquire mutex c) Do_mutex_lock_acquire [reg mutex, 0, 0, 0, 0]
   \<and> syscall_trap call a s (sys_mutex_release mutex c) = served call a s (sys_mutex_release mutex c) Do_mutex_lock_release [reg mutex, 0, 0, 0, 0]
   \<and> syscall_trap call a s (sys_get_timebase c) = served call a s (sys_get_timebase c) Get_time_base [0, 0, 0, 0, 0]
   \<and> syscall_trap call a s (sys_get_tick c) = served call a s (sys_get_tick c) Get_ticks [0, 0, 0, 0, 0]
   \<and> syscall_trap call a s (sys_sleep time c) = served call a s (sys_sleep time c) Do_sleep [ucast time, 0, 0, 0, 0]
   \<and> syscall_trap call a s (sys_exec name argc argv c) = served call a s (sys_exec name argc argv c) Do_exec [name, reg argc, argv, 0, 0]
   \<and> syscall_trap call a s (sys_exit c) = served call a s (sys_exit c) Do_exit [0, 0, 0, 0, 0]
   \<and> syscall_trap call a s (sys_kill child c) = served call a s (sys_kill child c) Do_kill_all [reg child, 0, 0, 0, 0]
   \<and> syscall_trap call a s (sys_waitpid child c) = served call a s (sys_waitpid child c) Do_waitpid [reg child, 0, 0, 0, 0]
   \<and> syscall_trap call a s (sys_ps c) = served call a s (sys_ps c) Do_process_show [0, 0, 0, 0, 0]
   \<and> syscall_trap call a s (sys_getpid c) = served call a s (sys_getpid c) Do_getpid [0, 0, 0, 0, 0]
   \<and> syscall_trap call a s (sys_getchar c) = served call a s (sys_getchar c) Port_read_ch [0, 0, 0, 0, 0]
   \<and> syscall_trap call a s (sys_clear c) = served call a s (sys_clear c) Screen_clear [0, 0, 0, 0, 0]
   \<and> syscall_trap call a s (sys_barrier_init key goal c) = served call a s (sys_barrier_init key goal c) Do_barrier_init [reg key, reg goal, 0, 0, 0]
   \<and> syscall_trap call a s (sys_barrier_wait bar_idx c) = served call a s (sys_barrier_wait bar_idx c) Do_barrier_wait [reg bar_idx, 0, 0, 0, 0]
   \<and> syscall_trap call a s (sys_barrier_destroy bar_idx c) = served call a s (sys_barrier_destroy bar_idx c) Do_barrier_destroy [reg bar_idx, 0, 0, 0, 0]
   \<and> syscall_trap call a s (sys_condition_init key c) = served call a s (sys_condition_init key c) Do_condition_init [reg key, 0, 0, 0, 0]
   \<and> syscall_trap call a s (sys_condition_wait cond_idx mutex c) = served call a s (sys_condition_wait cond_idx mutex c) Do_condition_wait [reg cond_idx, reg mutex, 0, 0, 0]
   \<and> syscall_trap call a s (sys_condition_signal cond_idx c) = served call a s (sys_condition_signal cond_idx c) Do_condition_signal [reg cond_idx, 0, 0, 0, 0]
   \<and> syscall_trap call a s (sys_condition_broadcast cond_idx c) = served call a s (sys_condition_broadcast cond_idx c) Do_condition_broadcast [reg cond_idx, 0, 0, 0, 0]
   \<and> syscall_trap call a s (sys_condition_destroy cond_idx c) = None
   \<and> syscall_trap call a s (sys_mbox_open name c) = served call a s (sys_mbox_open name c) Do_mbox_open [name, 0, 0, 0, 0]
   \<and> syscall_trap call a s (sys_mbox_close mbox_id c) = served call a s (sys_mbox_close mbox_id c) Do_mbox_close [reg mbox_id, 0, 0, 0, 0]
   \<and> syscall_trap call a s (sys_mbox_send mbox_idx msg msg_length c) = served call a s (sys_mbox_send mbox_idx msg msg_length c) Do_mbox_send [reg mbox_idx, msg, reg msg_length, 0, 0]
   \<and> syscall_trap call a s (sys_mbox_recv mbox_idx msg msg_length c) = served call a s (sys_mbox_recv mbox_idx msg msg_length c) Do_mbox_recv [reg mbox_idx, msg, reg msg_length, 0, 0]
   \<and> syscall_trap call a s (sys_net_send txpacket len c) = served call a s (sys_net_send txpacket len c) Do_net_send [txpacket, reg len, 0, 0, 0]
   \<and> syscall_trap call a s (sys_net_recv rxbuffer pkt_num pkt_lens c) = served call a s (sys_net_recv rxbuffer pkt_num pkt_lens c) Do_net_recv [rxbuffer, reg pkt_num, pkt_lens, 0, 0]
   \<and> syscall_trap call a s (sys_mkfs c) = served call a s (sys_mkfs c) Do_mkfs [0, 0, 0, 0, 0]
   \<and> syscall_trap call a s (sys_statfs c) = served call a s (sys_statfs c) Do_statfs [0, 0, 0, 0, 0]
   \<and> syscall_trap call a s (sys_cd path c) = served call a s (sys_cd path c) Do_cd [path, 0, 0, 0, 0]
   \<and> syscall_trap call a s (sys_mkdir path c) = served call a s (sys_mkdir path c) Do_mkdir [path, 0, 0, 0, 0]
   \<and> syscall_trap call a s (sys_rmdir path c) = served call a s (sys_rmdir path c) Do_rmdir [path, 0, 0, 0, 0]
   \<and> syscall_trap call a s (sys_ls path option c) = served call a s (sys_ls path option c) Do_ls [path, reg option, 0, 0, 0]
   \<and> syscall_trap call a s (sys_open path mode c) = served call a s (sys_open path mode c) Do_open [path, reg mode, 0, 0, 0]
   \<and> syscall_trap call a s (sys_read fd buff len c) = served call a s (sys_read fd buff len c) Do_read [reg fd, buff, reg len, 0, 0]
   \<and> syscall_trap call a s (sys_write fd buff len c) = served call a s (sys_write fd buff len c) Do_write [reg fd, buff, reg len, 0, 0]
   \<and> syscall_trap call a s (sys_close fd c) = served call a s (sys_close fd c) Do_close [reg fd, 0, 0, 0, 0]
   \<and> syscall_trap call a s (sys_ln src_path dst_path c) = served call a s (sys_ln src_path dst_path c) Do_ln [src_path, dst_path, 0, 0, 0]
   \<and> syscall_trap call a s (sys_rm path c) = served call a s (sys_rm path c) Do_rm [path, 0, 0, 0, 0]
   \<and> syscall_trap call a s (sys_lseek fd offset whence c) = served call a s (sys_lseek fd offset whence c) Do_lseek [reg fd, reg offset, reg whence, 0, 0]
   \<and> syscall_trap call a s (sys_thread_create thread start_routine arg c) = served call a s (sys_thread_create thread start_routine arg c) Do_thread_create [thread, start_routine, arg, 0, 0]
   \<and> syscall_trap call a s (sys_thread_join child c) = served call a s (sys_thread_join child c) Do_thread_join [reg child, 0, 0, 0, 0]"
  by (simp add: stub_defs syscall_trap_invoke NUM_SYSCALLS_def init_syscall_table syscall_entries_def)

end
