(* ===== verification/Loader.thy ===== *)
theory Loader
  imports Paging Sdcard
begin

text \<open>
  The task loader, \<open>kernel/loader/loader.c\<close>: a task image is read from the card to
  \<open>TEMP_TASK_IMG\<close>, its bss is cleared, and it is copied page by page into fresh frames that are
  mapped from \<open>0x10000\<close> on. The array \<open>tasks\<close> of \<open>include/os/task.h\<close> is an argument.

  The byte routines \<open>memset\<close> and \<open>memcpy\<close> act here on kernel memory, one 64-bit word per aligned
  address; an access outside the mapped window is undefined.
\<close>

section \<open>Bytes of kernel memory\<close>

definition word_base :: "u64 \<Rightarrow> u64" where
  "word_base a = a AND NOT 7"

definition byte_at :: "(u64 \<Rightarrow> u64) \<Rightarrow> u64 \<Rightarrow> u8" where
  "byte_at m a = byte_of (m (word_base a)) (unat (a AND 7))"

definition load_byte :: "u64 \<Rightarrow> (u64 \<Rightarrow> u64) \<Rightarrow> u8 option" where
  "load_byte a m = (if mapped_kva a then Some (byte_at m a) else None)"

definition put_byte :: "u64 \<Rightarrow> u8 \<Rightarrow> (u64 \<Rightarrow> u64) \<Rightarrow> (u64 \<Rightarrow> u64)" where
  "put_byte a v m = m(word_base a :=
     le64 (\<lambda>i. if i = unat (a AND 7) then v else byte_of (m (word_base a)) i))"

definition store_byte :: "u64 \<Rightarrow> u8 \<Rightarrow> (u64 \<Rightarrow> u64) \<Rightarrow> (u64 \<Rightarrow> u64) option" where
  "store_byte a v m = (if mapped_kva a then Some (put_byte a v m) else None)"

definition kmemset :: "u64 \<Rightarrow> u8 \<Rightarrow> nat \<Rightarrow> (u64 \<Rightarrow> u64) \<Rightarrow> (u64 \<Rightarrow> u64) option" where
  "kmemset dest val len m = for_each (\<lambda>i. store_byte (dest + of_nat i) val) [0..<len] m"

definition kmemcpy :: "u64 \<Rightarrow> u64 \<Rightarrow> nat \<Rightarrow> (u64 \<Rightarrow> u64) \<Rightarrow> (u64 \<Rightarrow> u64) option" where
  "kmemcpy dest src len m = for_each
     (\<lambda>i m. do { b \<leftarrow> load_byte (src + of_nat i) m; store_byte (dest + of_nat i) b m }) [0..<len] m"

section \<open>Loading a task\<close>

record task_info_t =
  ti_name :: region
  ti_offset :: int
  ti_file_size :: int
  ti_mem_size :: int

definition TASK_ENTRY :: u64 where "TASK_ENTRY = 0x10000"

text \<open>\<open>sd_read\<close> of \<open>n\<close> sectors to a physical address.\<close>

definition sd_read :: "'d bios \<Rightarrow> u64 \<Rightarrow> u32 \<Rightarrow> u32 \<Rightarrow> 'd mm_state \<Rightarrow> 'd mm_state" where
  "sd_read B pa n sec m = m\<lparr>mem := dma_in pa (512 * unat n) (snd (bios_sdread B n sec (sd m))) (mem m)\<rparr>"

definition load_task_page ::
  "'d bios \<Rightarrow> (pcb_ref \<Rightarrow> pcb_t) \<Rightarrow> u64 \<Rightarrow> u64 \<Rightarrow> u8 \<Rightarrow> nat \<Rightarrow> 'd mm_state \<Rightarrow> 'd mm_state option" where
  "load_task_page B ps start_ptr page_dir aid i m = do {
     (kva, m1) \<leftarrow> alloc_page_helper B ps (TASK_ENTRY + of_nat i * PAGE_SIZE) page_dir aid m;
     mem2 \<leftarrow> kmemcpy kva (start_ptr + of_nat i * PAGE_SIZE) (unat PAGE_SIZE) (mem m1);
     Some (m1\<lparr>mem := mem2\<rparr>) }"

definition load_task_img ::
  "'d bios \<Rightarrow> (pcb_ref \<Rightarrow> pcb_t) \<Rightarrow> (nat \<Rightarrow> task_info_t) \<Rightarrow> nat \<Rightarrow> u8 \<Rightarrow> 'd mm_state
    \<Rightarrow> (u64 \<times> 'd mm_state) option" where
  "load_task_img B ps tasks taskid aid m = do {
     let offset = ti_offset (tasks taskid);
     let file_size = ti_file_size (tasks taskid);
     let mem_size = ti_mem_size (tasks taskid);
     let start_sec = offset sdiv 512;
     let end_sec = (offset + file_size) sdiv 512;
     let num_sec = end_sec - start_sec + 1;
     let start_offset = offset smod 512;
     let m1 = sd_read B (kva2pa TEMP_TASK_IMG) (word_of_int num_sec) (word_of_int start_sec) m;
     let start_ptr = TEMP_TASK_IMG + word_of_int start_offset;
     mem2 \<leftarrow> kmemset (start_ptr + word_of_int file_size) 0 (memcpy_len (mem_size - file_size)) (mem m1);
     let m2 = m1\<lparr>mem := mem2\<rparr>;
     let (page_dir, m3) = allocPagetable aid m2;
     let m4 = share_pgtable page_dir (pa2kva PGDIR_PA) m3;
     let page_num = mem_size sdiv 4096 + (if mem_size smod 4096 \<noteq> 0 then 1 else 0);
     m5 \<leftarrow> for_each (load_task_page B ps start_ptr page_dir aid) [0..<nat page_num] m4;
     Some (kva2pa page_dir, m5) }"

end
