(* ===== verification/Exec.thy ===== *)
theory Exec
  imports Loader Proc Screen
begin

text \<open>
  \<open>do_exec\<close> and \<open>do_process_show\<close> of \<open>kernel/sched/sched.c\<close>. A new task gets its image, a page of
  user stack that holds the argument strings and the pointers to them, a page of kernel stack
  with a trap frame at its top, and the end of the ready queue.

  User memory as the caller sees it and the direct map are two memories of the model: the
  arguments are read from the first and written through the second.
\<close>

section \<open>The caller's memory\<close>

definition user_region :: "'d kernel \<Rightarrow> u64 \<Rightarrow> region" where
  "user_region s a = \<lparr>rsize = 2 ^ 64 - unat a, rbyte = (\<lambda>i. user_view s (a + of_nat i))\<rparr>"

definition user_word :: "'d kernel \<Rightarrow> u64 \<Rightarrow> u64" where
  "user_word s a = le64 (\<lambda>i. user_view s (a + of_nat i))"

text \<open>\<open>strcpy\<close> from the caller's memory to kernel memory.\<close>

definition strcpy_from_user :: "u64 \<Rightarrow> u64 \<Rightarrow> 'd kernel \<Rightarrow> 'd kernel option" where
  "strcpy_from_user dest src s = do {
     len \<leftarrow> strlen (user_region s src) 0;
     mem' \<leftarrow> for_each (\<lambda>i. store_byte (dest + of_nat i) (rbyte (user_region s src) i)) [0..<len + 1] (mem (mm s));
     Some (s\<lparr>mm := (mm s)\<lparr>mem := mem'\<rparr>\<rparr>) }"

section \<open>\<open>do_exec\<close>\<close>

text \<open>\<open>argv[k]\<close>.\<close>

definition arg_string :: "u64 \<Rightarrow> nat \<Rightarrow> 'd kernel \<Rightarrow> u64" where
  "arg_string argv k s = user_word s (argv + 8 * of_nat k)"

definition arg_space :: "u64 \<Rightarrow> 'd kernel \<Rightarrow> nat \<Rightarrow> u64 \<Rightarrow> u64 option" where
  "arg_space argv s k space = do {
     n \<leftarrow> strlen (user_region s (arg_string argv k s)) 0;
     Some (space + of_nat n + 1 + 8) }"

text \<open>One round of the copying loop, on \<open>arg_pointer\<close>, \<open>pointers\<close> and the state.\<close>

definition push_arg :: "u64 \<Rightarrow> u64 \<Rightarrow> nat \<Rightarrow> u64 \<times> u64 \<times> 'd kernel \<Rightarrow> (u64 \<times> u64 \<times> 'd kernel) option" where
  "push_arg argv kva2uva k x = do {
     let (arg_pointer, pointers, s) = x;
     s1 \<leftarrow> strcpy_from_user arg_pointer (arg_string argv k s) s;
     mem' \<leftarrow> store64 (mem (mm s1)) pointers (arg_pointer - kva2uva);
     let s2 = s1\<lparr>mm := (mm s1)\<lparr>mem := mem'\<rparr>\<rparr>;
     n \<leftarrow> strlen (user_region s2 (arg_string argv k s2)) 0;
     Some (arg_pointer + of_nat n + 1, pointers + 8, s2) }"

definition exec_task ::
  "'d bios \<Rightarrow> (pcb_ref \<Rightarrow> u64) \<Rightarrow> (nat \<Rightarrow> task_info_t) \<Rightarrow> int \<Rightarrow> u64 \<Rightarrow> nat \<Rightarrow> nat \<Rightarrow> 'd kernel \<Rightarrow> (int \<times> 'd kernel) option" where
  "exec_task B pcb_addr tasks argc argv i j s = do {
     let s1 = upd_pcb (Pcb j) (\<lambda>t. t\<lparr>asid := ASID_USER OR word_of_nat j\<rparr>) s;
     let aid = ucast (asid (pcbs s1 (Pcb j)));
     (pd, m2) \<leftarrow> load_task_img B (pcbs s1) tasks i aid (mm s1);
     let s2 = upd_pcb (Pcb j) (\<lambda>t. t\<lparr>satp := pd, parent_pid := -1, net_curr_num := 0, net_length := 0\<rparr>) (s1\<lparr>mm := m2\<rparr>);
     (real_user_sp, m3) \<leftarrow> alloc_page_helper B (pcbs s2) (USER_STACK_ADDR - PAGE_SIZE) (pa2kva pd) aid (mm s2);
     let user_stack = real_user_sp + PAGE_SIZE;
     let kva2uva = user_stack - USER_STACK_ADDR;
     (page, m4) \<leftarrow> allocPage B (pcbs s2) (ucast (asid (pcbs s2 (Pcb j)) OR ucast KERNEL_PAGE)) m3;
     let frame = page + PAGE_SIZE - REGS_CONTEXT_SIZE;
     let pointers = user_stack - word_of_int argc * 8;
     let argp = pointers - kva2uva;
     let s4 = s2\<lparr>mm := m4\<rparr>;
     space \<leftarrow> for_each (arg_space argv s4) [0..<nat argc] 0;
     let user_stack' = user_stack - space;
     (_, _, s5) \<leftarrow> for_each (push_arg argv kva2uva) [0..<nat argc] (user_stack', pointers, s4);
     let user_stack'' = ROUNDDOWN user_stack' 128;
     let context = \<lparr>regs = (\<lambda>_. 0)(11 := argp, 2 := USER_STACK_ADDR + user_stack'' - real_user_sp - PAGE_SIZE,
             4 := pcb_addr (Pcb j), 10 := word_of_int argc),
         sstatus = SR_SPIE AND NOT SR_SPP, sepc = TASK_ENTRY, sbadaddr = 0, scause = 0\<rparr>;
     let s6 = s5\<lparr>frames := (frames s5)(frame := context)\<rparr>;
     let s7 = upd_links (LIST_ADD_TAIL (Head ReadyQ) (PList (Pcb j))) (set_status (Pcb j) TASK_READY s6);
     let s8 = upd_links (LIST_REMOVE (Head (WaitQ (Pcb j)))) (upd_pcb (Pcb j) (\<lambda>t. t\<lparr>pid := int j\<rparr>) s7);
     Some (int j, upd_pcb (Pcb j) (\<lambda>t. t\<lparr>kernel_sp := frame, user_sp := user_stack''\<rparr>) s8) }"

text \<open>The search for the task's name; a name that is found while no control block is free is
  passed over.\<close>

fun exec_from ::
  "'d bios \<Rightarrow> (pcb_ref \<Rightarrow> u64) \<Rightarrow> (nat \<Rightarrow> task_info_t) \<Rightarrow> u64 \<Rightarrow> int \<Rightarrow> u64 \<Rightarrow> nat list \<Rightarrow> 'd kernel \<Rightarrow> (int \<times> 'd kernel) option" where
  "exec_from B pcb_addr tasks name argc argv [] s = Some (-1, s)"
| "exec_from B pcb_addr tasks name argc argv (i # is) s = do {
     c \<leftarrow> strcmp (ti_name (tasks i)) 0 (user_region s name) 0;
     if c = 0
     then case find_from (\<lambda>j. pstatus s (Pcb j) = TASK_EXITED) 0 NUM_MAX_TASK of
         Some j \<Rightarrow> exec_task B pcb_addr tasks argc argv i j s
       | None \<Rightarrow> exec_from B pcb_addr tasks name argc argv is s
     else exec_from B pcb_addr tasks name argc argv is s }"

definition do_exec ::
  "'d bios \<Rightarrow> (pcb_ref \<Rightarrow> u64) \<Rightarrow> (nat \<Rightarrow> task_info_t) \<Rightarrow> u64 \<Rightarrow> int \<Rightarrow> u64 \<Rightarrow> 'd kernel \<Rightarrow> (int \<times> 'd kernel) option" where
  "do_exec B pcb_addr tasks name argc argv s =
     exec_from B pcb_addr tasks name argc argv [0..<TASK_MAXNUM] s"

section \<open>\<open>do_process_show\<close>\<close>

text \<open>The control block whose cursor moves is the running one; the screen is a component of its own.\<close>

definition on_screen :: "(tty \<Rightarrow> tty option) \<Rightarrow> 'd kernel \<times> screen \<Rightarrow> ('d kernel \<times> screen) option" where
  "on_screen f x = do {
     let (s, d) = x;
     (t, d') \<leftarrow> f (pcbs s (current_running s), d);
     Some (upd_pcb (current_running s) (\<lambda>_. t) s, d') }"

definition status_text :: "task_status_t \<Rightarrow> u8 list" where
  "status_text st = (case st of TASK_RUNNING \<Rightarrow> ascii ''RUNNING'' @ [10] | TASK_READY \<Rightarrow> ascii ''READY'' @ [10]
     | TASK_BLOCKED \<Rightarrow> ascii ''BLOCKED'' @ [10] | TASK_EXITED \<Rightarrow> [])"

text \<open>One round, on the line number and the state.\<close>

definition show_task :: "nat \<Rightarrow> int \<times> ('d kernel \<times> screen) \<Rightarrow> (int \<times> ('d kernel \<times> screen)) option" where
  "show_task i x = do {
     let (num, y) = x;
     if pstatus (fst y) (Pcb i) \<noteq> TASK_EXITED
     then do {
       y1 \<leftarrow> on_screen (screen_write_ch (of_char CHR ''['')) y;
       y2 \<leftarrow> on_screen (screen_write_ch (word_of_int (num + 48))) y1;
       y3 \<leftarrow> on_screen (screen_write (str (ascii '']:PID ''))) y2;
       y4 \<leftarrow> on_screen (screen_write_ch (word_of_int (pid (pcbs (fst y3) (Pcb i)) + 48))) y3;
       y5 \<leftarrow> on_screen (screen_write (str (ascii '' , STATUS ''))) y4;
       y6 \<leftarrow> on_screen (screen_write (str (status_text (pstatus (fst y5) (Pcb i))))) y5;
       Some (num + 1, y6) }
     else Some x }"

definition do_process_show :: "'d kernel \<times> screen \<Rightarrow> ('d kernel \<times> screen) option" where
  "do_process_show x = do {
     x1 \<leftarrow> on_screen (screen_write (str (ascii ''[Process table]'' @ [10]))) x;
     (num, x2) \<leftarrow> for_each show_task [0..<NUM_MAX_TASK] (0, x1);
     Some x2 }"

end
