(* ===== verification/Boot.thy ===== *)
theory Boot
  imports Exec
begin

text \<open>
  The initialisation of \<open>init/main.c\<close>: the task table read from the image, the control blocks,
  the first task, and the order in which \<open>main\<close> initialises the parts of the kernel record.
  The screen and the file system have states of their own (theories Screen and FsMount), the
  interrupt and system call tables are constants (theory Dispatch), and the frequency that the
  firmware reports is an argument.
\<close>

section \<open>The task table\<close>

text \<open>Before \<open>clean_temp_page\<close> a physical address of the boot mapping can be used as such; it is
  written here as the kernel address of the same word. \<open>sd_read_more\<close> reads at most 64 sectors at a time.\<close>

function sd_read_more :: "'d bios \<Rightarrow> u32 \<Rightarrow> u32 \<Rightarrow> u32 \<Rightarrow> 'd mm_state \<Rightarrow> 'd mm_state" where
  "sd_read_more B mem_address num_of_blocks block_id m =
     (if 64 < num_of_blocks
      then sd_read_more B (mem_address + 64 * 512) (num_of_blocks - 64) (block_id + 64)
             (sd_read B (ucast mem_address) 64 block_id m)
      else sd_read B (ucast mem_address) num_of_blocks block_id m)"
  by pat_completeness auto
termination
  by (relation "measure (\<lambda>(B, a, n, b, m). unat n)") (auto simp: word_less_nat_alt unat_sub_if_size)

declare sd_read_more.simps [simp del]

definition TASK_NUM_LOC :: u64 where "TASK_NUM_LOC = 0x502001f6"
definition TASK_INFO_OFFSET :: u64 where "TASK_INFO_OFFSET = 0x502001f8"
definition MYSTERIOUS_PLACE :: u64 where "MYSTERIOUS_PLACE = 0x52000000"
definition TASK_INFO_SIZE :: int where "TASK_INFO_SIZE = 44"

text \<open>Reads of an \<open>int16_t\<close> and an \<open>int\<close>, at any address.\<close>

definition load_int16 :: "(u64 \<Rightarrow> u64) \<Rightarrow> u64 \<Rightarrow> int" where
  "load_int16 m a = sint (ucast (byte_at m a) OR push_bit 8 (ucast (byte_at m (a + 1))) :: 16 word)"

definition load_int32 :: "(u64 \<Rightarrow> u64) \<Rightarrow> u64 \<Rightarrow> int" where
  "load_int32 m a = sint (le32 (\<lambda>i. byte_at m (a + of_nat i)))"

definition task_info_at :: "(u64 \<Rightarrow> u64) \<Rightarrow> u64 \<Rightarrow> task_info_t" where
  "task_info_at m ptr = \<lparr>ti_name = \<lparr>rsize = 32, rbyte = (\<lambda>j. byte_at m (ptr + of_nat j))\<rparr>,
     ti_offset = load_int32 m (ptr + 32), ti_file_size = load_int32 m (ptr + 36),
     ti_mem_size = load_int32 m (ptr + 40)\<rparr>"

definition images_end :: "(nat \<Rightarrow> task_info_t) \<Rightarrow> nat \<Rightarrow> int" where
  "images_end tasks num = fold (\<lambda>i tmp. max tmp (ti_offset (tasks i) + ti_file_size (tasks i))) [0..<num] 0"

definition init_task_info ::
  "'d bios \<Rightarrow> (nat \<Rightarrow> task_info_t) \<Rightarrow> 'd mm_state \<Rightarrow> (int \<times> (nat \<Rightarrow> task_info_t) \<times> 'd mm_state) option" where
  "init_task_info B tasks m = do {
     let num = load_int16 (mem m) (pa2kva TASK_NUM_LOC);
     let offset = load_int32 (mem m) (pa2kva TASK_INFO_OFFSET);
     let infosize = TASK_INFO_SIZE * num;
     let start_sec = offset sdiv 512;
     let end_sec = (offset + infosize) sdiv 512;
     let num_sec = end_sec - start_sec + 1;
     let m1 = sd_read_more B (ucast MYSTERIOUS_PLACE) (word_of_int num_sec) (word_of_int start_sec) m;
     let ptr = pa2kva (MYSTERIOUS_PLACE + word_of_int (offset smod 512));
     ensure (num \<le> int TASK_MAXNUM);
     let tasks' = (\<lambda>i. if int i < num then task_info_at (mem m1) (ptr + 44 * of_nat i) else tasks i);
     let tmp = images_end tasks' (nat num);
     Some (num, tasks', m1\<lparr>padding_start_sec := sint (ucast (ROUND (word_of_int (tmp sdiv 512)) 8) :: u32)\<rparr>) }"

section \<open>Control blocks\<close>

definition USER_STACK :: u64 where "USER_STACK = 0xf00010000"

definition init_pcb_stack :: "(pcb_ref \<Rightarrow> u64) \<Rightarrow> u64 \<Rightarrow> pcb_ref \<Rightarrow> 'd kernel \<Rightarrow> 'd kernel" where
  "init_pcb_stack pcb_addr kernel_stack p s =
     (let frame = kernel_stack - REGS_CONTEXT_SIZE;
          context = \<lparr>regs = (\<lambda>_. 0)(2 := USER_STACK, 4 := pcb_addr p), sstatus = SR_SPIE AND NOT SR_SPP,
            sepc = TASK_ENTRY, sbadaddr = 0, scause = 0\<rparr>
      in upd_pcb p (\<lambda>t. t\<lparr>user_sp := USER_STACK, kernel_sp := frame\<rparr>)
           (s\<lparr>frames := (frames s)(frame := context)\<rparr>))"

definition init_pid0 :: "'d bios \<Rightarrow> nat \<Rightarrow> 'd kernel \<Rightarrow> 'd kernel option" where
  "init_pid0 B k s = do {
     let s1 = upd_pcb (Pid0 k) (\<lambda>t. t\<lparr>asid := ASID_KERNEL OR of_nat k, cursor_x := 0, cursor_y := 0, pid := -1,
         parent_pid := -1, status := TASK_RUNNING, wakeup_time := 0, mbox_rw := -1, mutex_idx := -1\<rparr>) s;
     let s2 = upd_links (NODE_REFRESH (PList (Pid0 k))) s1;
     let s3 = upd_links (NODE_REFRESH (Head (WaitQ (Pid0 k)))) s2;
     (page, m) \<leftarrow> allocPage B (pcbs s3) (ucast (asid (pcbs s3 (Pid0 k)) OR ucast KERNEL_PAGE)) (mm s3);
     Some (upd_pcb (Pid0 k) (\<lambda>t. t\<lparr>kernel_sp := page + PAGE_SIZE, satp := PGDIR_PA\<rparr>) (s3\<lparr>mm := m\<rparr>)) }"

definition init_task_pcb :: "nat \<Rightarrow> 'd kernel \<Rightarrow> 'd kernel option" where
  "init_task_pcb i s =
     (let s1 = upd_links (NODE_REFRESH (PList (Pcb i))) s;
          s2 = upd_links (NODE_REFRESH (Head (WaitQ (Pcb i)))) s1
      in Some (upd_pcb (Pcb i) (\<lambda>t. t\<lparr>pid := int i, parent_pid := -1, status := TASK_EXITED, wakeup_time := 0,
           cursor_x := 0, cursor_y := 0, mbox_rw := -1, mutex_idx := -1, asid := ASID_USER OR of_nat i,
           net_curr_num := 0, net_length := 0\<rparr>) s2))"

definition init_pcb :: "'d bios \<Rightarrow> 'd kernel \<Rightarrow> 'd kernel option" where
  "init_pcb B s = do {
     s1 \<leftarrow> for_each (init_pid0 B) [0, 1] s;
     s2 \<leftarrow> for_each init_task_pcb [0..<NUM_MAX_TASK] s1;
     Some (set_current (Pid0 0) s2) }"

section \<open>The boot mapping\<close>

text \<open>\<open>clean_temp_page\<close> clears the entries that map \<open>0x50000000\<close> to \<open>0x51000000\<close> to themselves.\<close>

definition clean_temp_page :: "'d mm_state \<Rightarrow> 'd mm_state option" where
  "clean_temp_page m = do {
     e \<leftarrow> load64 (mem m) (pa2kva PGDIR_PA + 8 * get_vpn2 0x50000000);
     let second = pa2kva (get_pa e);
     mem' \<leftarrow> for_each (\<lambda>i mem. store64 mem (second + 8 * get_vpn1 (0x50000000 + of_nat i * 0x200000)) 0) [0..<8] (mem m);
     Some (m\<lparr>mem := mem'\<rparr>) }"

section \<open>\<open>main\<close>\<close>

text \<open>\<open>test\<close> starts every task that is called \<open>shell\<close> as the first user task.\<close>

definition start_shell ::
  "'d bios \<Rightarrow> (pcb_ref \<Rightarrow> u64) \<Rightarrow> (nat \<Rightarrow> task_info_t) \<Rightarrow> nat \<Rightarrow> 'd kernel \<Rightarrow> 'd kernel option" where
  "start_shell B pcb_addr tasks i s = do {
     c \<leftarrow> strcmp (str (ascii ''shell'')) 0 (ti_name (tasks i)) 0;
     if c = 0 then do {
       let s1 = set_status (Pcb 0) TASK_READY s;
       (pd, m2) \<leftarrow> load_task_img B (pcbs s1) tasks i (ucast (asid (pcbs s1 (Pcb 0)))) (mm s1);
       let s2 = upd_pcb (Pcb 0) (\<lambda>t. t\<lparr>satp := pd\<rparr>) (s1\<lparr>mm := m2\<rparr>);
       (page, m3) \<leftarrow> allocPage B (pcbs s2) (ucast (asid (pcbs s2 (Pcb 0)) OR ucast KERNEL_PAGE)) (mm s2);
       let s3 = init_pcb_stack pcb_addr (page + PAGE_SIZE) (Pcb 0) (s2\<lparr>mm := m3\<rparr>);
       Some (upd_links (LIST_ADD_TAIL (Head ReadyQ) (PList (Pcb 0))) s3) }
     else Some s }"

definition test_shell ::
  "'d bios \<Rightarrow> (pcb_ref \<Rightarrow> u64) \<Rightarrow> (nat \<Rightarrow> task_info_t) \<Rightarrow> int \<Rightarrow> 'd kernel \<Rightarrow> 'd kernel option" where
  "test_shell B pcb_addr tasks tasknum s = for_each (start_shell B pcb_addr tasks) [0..<nat tasknum] s"

definition main_init :: "'d bios \<Rightarrow> u64 \<Rightarrow> 'd kernel \<Rightarrow> 'd kernel option" where
  "main_init B freq s = do {
     s1 \<leftarrow> init_pcb B s;
     s2 \<leftarrow> init_locks (s1\<lparr>time_base := freq\<rparr>);
     s3 \<leftarrow> init_barriers s2;
     s4 \<leftarrow> init_conditions s3;
     init_mbox s4 }"

text \<open>Hart 0 up to its idle loop.\<close>

definition main_hart0 ::
  "'d bios \<Rightarrow> (pcb_ref \<Rightarrow> u64) \<Rightarrow> u64 \<Rightarrow> (nat \<Rightarrow> task_info_t) \<Rightarrow> 'd kernel \<Rightarrow> 'd kernel option" where
  "main_hart0 B pcb_addr freq tasks s = do {
     (tasknum, tasks', m1) \<leftarrow> init_task_info B tasks (init_mm (mm s));
     s2 \<leftarrow> main_init B freq (s\<lparr>mm := m1\<rparr>);
     s3 \<leftarrow> test_shell B pcb_addr tasks' tasknum s2;
     m4 \<leftarrow> clean_temp_page (mm s3);
     Some (s3\<lparr>mm := m4\<rparr>) }"

text \<open>Hart 1 starts in the kernel with its own idle task.\<close>

definition main_hart1 :: "'d kernel \<Rightarrow> 'd kernel" where
  "main_hart1 s = set_current (Pid0 1) (s\<lparr>hart := 1\<rparr>)"

end
