(* ===== verification/System.thy ===== *)
theory System
  imports Boot
begin

text \<open>
  The kernel as a whole: what holds of the tasks, the queues, the locks and the two harts in
  every state that the system calls and the timer interrupt lead to. One hart at a time is in
  the kernel, \<open>hart s\<close>; the other one runs \<open>other s\<close>.

  \<open>presched\<close> is the state in which \<open>do_scheduler\<close> is called: everything is in order except that
  the current task may have been queued or have exited. \<open>sysinv\<close> adds that it is running. There
  are two idle tasks, which never block, for two harts, so a task that gives up its hart always
  finds a successor in the ready queue.
\<close>

section \<open>The invariant\<close>

definition other :: "'d kernel \<Rightarrow> pcb_ref" where
  "other s = tp s (1 - hart s)"

definition tasks_ok :: "'d kernel \<Rightarrow> (head \<Rightarrow> pcb_ref list) \<Rightarrow> bool" where
  "tasks_ok s Q \<longleftrightarrow> (\<forall>p. \<not> valid_pcb p \<longrightarrow> pstatus s p = TASK_EXITED)
     \<and> (\<forall>i < NUM_MAX_TASK. pid (pcbs s (Pcb i)) = int i)
     \<and> (\<forall>k < 2. pstatus s (Pid0 k) = TASK_READY \<or> pstatus s (Pid0 k) = TASK_RUNNING)
     \<and> (\<forall>p. pstatus s p = TASK_EXITED \<longrightarrow> Q (WaitQ p) = [])
     \<and> (\<forall>c. \<forall>p \<in> set (Q (CondQ c)). \<exists>i < LOCK_NUM. mutex_idx (pcbs s p) = int i)"

definition presched :: "'d kernel \<Rightarrow> (head \<Rightarrow> pcb_ref list) \<Rightarrow> bool" where
  "presched s Q \<longleftrightarrow> kinv s Q \<and> linv s Q \<and> tasks_ok s Q \<and> hart s < 2 \<and> other s \<noteq> current_running s
     \<and> pstatus s (current_running s) \<noteq> TASK_READY
     \<and> (\<forall>p. p \<noteq> current_running s \<longrightarrow> (pstatus s p = TASK_RUNNING \<longleftrightarrow> p = other s))"

definition sysinv :: "'d kernel \<Rightarrow> (head \<Rightarrow> pcb_ref list) \<Rightarrow> bool" where
  "sysinv s Q \<longleftrightarrow> presched s Q \<and> pstatus s (current_running s) = TASK_RUNNING"

lemma tasks_okD:
  assumes "tasks_ok s Q"
  shows "\<not> valid_pcb p \<Longrightarrow> pstatus s p = TASK_EXITED" "i < NUM_MAX_TASK \<Longrightarrow> pid (pcbs s (Pcb i)) = int i"
    "k < 2 \<Longrightarrow> pstatus s (Pid0 k) = TASK_READY \<or> pstatus s (Pid0 k) = TASK_RUNNING"
    "pstatus s p = TASK_EXITED \<Longrightarrow> Q (WaitQ p) = []"
    "p \<in> set (Q (CondQ c)) \<Longrightarrow> \<exists>i < LOCK_NUM. mutex_idx (pcbs s p) = int i"
  using assms unfolding tasks_ok_def by blast+

lemma preschedD:
  assumes "presched s Q"
  shows "kinv s Q" "linv s Q" "tasks_ok s Q" "hart s < 2" "other s \<noteq> current_running s"
    "pstatus s (current_running s) \<noteq> TASK_READY"
    "p \<noteq> current_running s \<Longrightarrow> pstatus s p = TASK_RUNNING \<longleftrightarrow> p = other s"
  using assms unfolding presched_def by blast+

lemma sysinvD:
  assumes "sysinv s Q"
  shows "presched s Q" "pstatus s (current_running s) = TASK_RUNNING"
  using assms by (simp_all add: sysinv_def)

text \<open>A READY task is in the ready queue.\<close>

lemma ready_queued: "kinv s Q \<Longrightarrow> pstatus s p = TASK_READY \<Longrightarrow> p \<in> set (Q ReadyQ)"
  using kinvD(3,4) [of s Q] unfolding in_no_queue_def by (metis task_status_t.distinct)

lemma queued_status:
  assumes "kinv s Q" "p \<in> set (Q q)"
  shows "pstatus s p = TASK_READY \<or> pstatus s p = TASK_BLOCKED"
  using kinvD(2,3) [OF assms(1)] assms(2) by (cases "q = ReadyQ") auto

lemma queued_statusE: "kinv s Q \<Longrightarrow> \<not> in_no_queue Q p \<Longrightarrow> pstatus s p = TASK_READY \<or> pstatus s p = TASK_BLOCKED"
  unfolding in_no_queue_def using queued_status by blast

text \<open>A task that gives up its hart leaves an idle task in the ready queue.\<close>

lemma idle_task_waits:
  assumes s: "presched s Q" and stop: "\<forall>k < 2. current_running s \<noteq> Pid0 k"
  shows "Q ReadyQ \<noteq> []"
proof -
  note S = preschedD [OF s]
  obtain k :: nat where k: "k < 2" "Pid0 k \<noteq> other s"
    by (cases "other s = Pid0 0") (auto intro: that [of 0] that [of 1])
  have "Pid0 k \<noteq> current_running s" using stop k(1) by metis
  then have "pstatus s (Pid0 k) = TASK_READY" using S(7) [of "Pid0 k"] k tasks_okD(3) [OF S(3) k(1)] by auto
  from ready_queued [OF S(1) this] show ?thesis by auto
qed

lemma stopped_not_idle:
  assumes "presched s Q" "pstatus s (current_running s) \<noteq> TASK_RUNNING" "k < 2"
  shows "current_running s \<noteq> Pid0 k"
  using preschedD(6) [OF assms(1)] tasks_okD(3) [OF preschedD(3) [OF assms(1)] assms(3)] assms(2) by auto

lemma presched_can_schedule:
  assumes s: "presched s Q"
  shows "can_schedule s Q"
proof (cases "pstatus s (current_running s) = TASK_RUNNING")
  case False
  then have "Q ReadyQ \<noteq> []" using idle_task_waits [OF s] stopped_not_idle [OF s] by blast
  moreover have "current_running s \<notin> set (Q ReadyQ)" using kinvD(2) preschedD(1,6) [OF s] by blast
  ultimately show ?thesis by (simp add: can_schedule_def)
qed (simp add: can_schedule_def)

section \<open>The scheduler keeps it\<close>

lemma slept_sub: "p \<in> set (sched_slept rt s Q ReadyQ) \<Longrightarrow> p \<in> set (Q ReadyQ) \<union> set (Q SleepQ)"
  using sleepers_sub(1) [of rt s "Q SleepQ"] by (auto simp: sched_slept_def)

lemma slept_union: "in_no_queue (sched_slept rt s Q) p \<longleftrightarrow> in_no_queue Q p"
  unfolding sched_slept_def by (rule in_no_queue_sleep_step)

lemma sched_queues_sub:
  assumes "q \<noteq> ReadyQ" "p \<in> set (sched_queues rt s Q q)"
  shows "p \<in> set (Q q)"
proof -
  have "p \<in> set (sched_slept rt s Q q)" using assms by (simp add: sched_queues_def split: list.splits)
  then show ?thesis using sleepers_sub(2) [of rt s "Q SleepQ"] assms(1)
    by (auto simp: sched_slept_def sleep_step_def split: if_splits)
qed

lemma sched_queues_keeps:
  assumes "\<not> in_no_queue Q p" "p \<noteq> sched_next rt s Q"
  shows "\<not> in_no_queue (sched_queues rt s Q) p"
proof -
  obtain q where q: "p \<in> set (sched_slept rt s Q q)"
    using assms(1) slept_union [of rt s Q p] by (auto simp: in_no_queue_def)
  then have "p \<in> set (sched_queues rt s Q q)" using assms(2)
    by (cases "q = ReadyQ") (auto simp: sched_queues_def sched_next_def split: list.splits)
  then show ?thesis by (auto simp: in_no_queue_def)
qed

lemma sched_queues_requeues:
  assumes "pstatus s (current_running s) = TASK_RUNNING" "sched_next rt s Q \<noteq> current_running s"
  shows "current_running s \<in> set (sched_queues rt s Q ReadyQ)"
  using assms by (auto simp: sched_queues_def sched_next_def requeue_def split: list.splits)

lemma sched_next_cases:
  assumes "presched s Q"
  shows "sched_next rt s Q \<in> set (Q ReadyQ) \<union> set (Q SleepQ)
    \<or> sched_next rt s Q = current_running s \<and> pstatus s (current_running s) = TASK_RUNNING"
proof (cases "sched_slept rt s Q ReadyQ")
  case Nil
  then have "Q ReadyQ = []" by (simp add: sched_slept_def)
  then show ?thesis using Nil presched_can_schedule [OF assms] by (simp add: sched_next_def can_schedule_def)
next
  case (Cons n ps)
  then show ?thesis using slept_sub [of n rt s Q] by (simp add: sched_next_def)
qed

lemma do_scheduler_sysinv:
  assumes s: "presched s Q"
  shows "\<exists>s'. do_scheduler rt s = Some s' \<and> sysinv s' (sched_queues rt s Q)
    \<and> current_running s' = sched_next rt s Q \<and> sched_frame s s'"
proof -
  note S = preschedD [OF s] and T = tasks_okD [OF preschedD(3) [OF s]] and K = kinvD [OF preschedD(1) [OF s]]
  let ?c = "current_running s" and ?n = "sched_next rt s Q" and ?Q = "sched_queues rt s Q"
  obtain s' where s': "do_scheduler rt s = Some s'" "kinv s' ?Q" "current_running s' = ?n"
    "pstatus s' ?n = TASK_RUNNING" "sched_frame s s'"
    and same: "\<And>p. p \<noteq> ?n \<Longrightarrow> p \<noteq> ?c \<Longrightarrow> p \<notin> set (Q SleepQ) \<Longrightarrow> pcbs s' p = pcbs s p"
    and stopped: "pstatus s ?c \<noteq> TASK_RUNNING \<Longrightarrow> ?c \<notin> set (Q SleepQ) \<Longrightarrow> pstatus s' ?c = pstatus s ?c"
    using do_scheduler_result [OF S(1) presched_can_schedule [OF s], of rt] by blast
  note K' = kinvD [OF s'(2)]
  have F: "hart s' = hart s" "mlocks s' = mlocks s" "\<And>h. h \<noteq> hart s \<Longrightarrow> tp s' h = tp s h"
    "\<And>p. same_task (pcbs s p) (pcbs s' p)"
    using s'(5) by (simp_all add: sched_frame_def)
  have "1 - hart s \<noteq> hart s" using S(4) by presburger
  then have o: "other s' = other s" by (simp add: other_def F)
  have orun: "pstatus s (other s) = TASK_RUNNING" using S(5,7) by simp
  have ofree: "in_no_queue Q (other s)" using kinv_running_free [OF S(1)] orun by blast
  have no: "?n \<noteq> other s"
    using sched_next_cases [OF s, of rt] ofree S(5) by (auto simp: in_no_queue_def)
  have queued': "pstatus s' p = TASK_READY \<or> pstatus s' p = TASK_BLOCKED" if "\<not> in_no_queue ?Q p" for p
    using queued_statusE [OF s'(2) that] .
  have gone: "pstatus s' ?c = pstatus s ?c" if "pstatus s ?c = TASK_EXITED"
    using that stopped kinv_running_free [OF S(1), of ?c] by (auto simp: in_no_queue_def)
  have nex: "pstatus s ?n \<noteq> TASK_EXITED"
    using sched_next_cases [OF s, of rt] K(2) K(3) [of SleepQ ?n] by auto
  have exited: "pstatus s' p = TASK_EXITED \<longleftrightarrow> pstatus s p = TASK_EXITED" for p
  proof (cases "p = ?n")
    case True
    then show ?thesis using s'(4) nex by simp
  next
    case pn: False
    show ?thesis
    proof (cases "in_no_queue Q p")
      case False
      then have "pstatus s p \<noteq> TASK_EXITED" using queued_statusE [OF S(1) False] by auto
      then show ?thesis using queued' [OF sched_queues_keeps [OF False pn]] by auto
    next
      case True
      then have ps: "p \<notin> set (Q SleepQ)" by (simp add: in_no_queue_def)
      show ?thesis
      proof (cases "p = ?c")
        case pc: True
        show ?thesis
        proof (cases "pstatus s ?c = TASK_RUNNING")
          case True
          then have "?c \<in> set (?Q ReadyQ)" using sched_queues_requeues [OF True, of rt Q] pn pc by simp
          then show ?thesis using K'(2) True pc by simp
        qed (use pc stopped ps in simp)
      qed (use same [OF pn _ ps] in simp)
    qed
  qed
  have run': "pstatus s' p = TASK_RUNNING \<longleftrightarrow> p = other s" if pn: "p \<noteq> ?n" for p
  proof
    assume p: "p = other s"
    then show "pstatus s' p = TASK_RUNNING"
      using same [OF pn] S(5) ofree orun by (auto simp: in_no_queue_def)
  next
    assume r: "pstatus s' p = TASK_RUNNING"
    then have free': "in_no_queue ?Q p" using kinv_running_free [OF s'(2)] by blast
    then have free: "in_no_queue Q p" using sched_queues_keeps pn by blast
    then have "pstatus s p = TASK_RUNNING" using K(4) [OF free] exited [of p] r by simp
    moreover from this have "p \<noteq> ?c"
      using sched_queues_requeues [of s rt Q] pn free' by (auto simp: in_no_queue_def)
    ultimately show "p = other s" using S(7) by blast
  qed
  have "tasks_ok s' ?Q"
    unfolding tasks_ok_def
  proof (intro conjI allI impI ballI)
    show "pstatus s' p = TASK_EXITED" if "\<not> valid_pcb p" for p using T(1) [OF that] exited by blast
    show "pid (pcbs s' (Pcb i)) = int i" if "i < NUM_MAX_TASK" for i using T(2) [OF that] same_taskD(1) [OF F(4)] by simp
    show "?Q (WaitQ p) = []" if "pstatus s' p = TASK_EXITED" for p
      using T(4) that exited by (simp add: sched_queues_other)
    show "\<exists>i < LOCK_NUM. mutex_idx (pcbs s' p) = int i" if "p \<in> set (?Q (CondQ c))" for c p
      using T(5) [of p c] that same_taskD(5) [OF F(4)] by (simp add: sched_queues_other)
    fix k :: nat assume k: "k < 2"
    have "pstatus s (Pid0 k) \<noteq> TASK_EXITED" using T(3) [OF k] by auto
    then have ne: "pstatus s' (Pid0 k) \<noteq> TASK_EXITED" using exited by blast
    show "pstatus s' (Pid0 k) = TASK_READY \<or> pstatus s' (Pid0 k) = TASK_RUNNING"
    proof (rule ccontr)
      assume n: "\<not> (pstatus s' (Pid0 k) = TASK_READY \<or> pstatus s' (Pid0 k) = TASK_RUNNING)"
      then obtain q where q: "Pid0 k \<in> set (?Q q)" using K'(4) ne by (auto simp: in_no_queue_def)
      then have "q \<noteq> ReadyQ" using K'(2) n by auto
      then show False using K(3) sched_queues_sub [OF _ q] T(3) [OF k] by auto
    qed
  qed
  moreover have "linv s' ?Q" using S(2) by (simp add: linv_def F sched_queues_other)
  ultimately have "sysinv s' ?Q"
    unfolding sysinv_def presched_def using s'(2,3,4) run' no S(4) by (simp add: o F)
  then show ?thesis using s' by blast
qed

section \<open>Blocking the current task\<close>

text \<open>A user task is running; the idle tasks make no system calls.\<close>

definition user_running :: "'d kernel \<Rightarrow> bool" where
  "user_running s \<longleftrightarrow> (\<exists>i. current_running s = Pcb i)"

lemma user_not_idle: "user_running s \<Longrightarrow> current_running s \<noteq> Pid0 k"
  by (auto simp: user_running_def)

lemma blocked_presched:
  assumes s: "sysinv s Q" and user: "user_running s" and q: "q \<noteq> ReadyQ"
    and k: "kinv t (Q(q := Q q @ [current_running s]))"
    and same: "mlocks t = mlocks s" "hart t = hart s" "tp t = tp s"
    and st: "\<And>p. pstatus t p = (if p = current_running s then TASK_BLOCKED else pstatus s p)"
    and pids: "\<And>p. pid (pcbs t p) = pid (pcbs s p)"
    and idx: "\<And>p. p \<noteq> current_running s \<Longrightarrow> mutex_idx (pcbs t p) = mutex_idx (pcbs s p)"
    and cond: "\<And>c. q = CondQ c \<Longrightarrow> \<exists>i < LOCK_NUM. mutex_idx (pcbs t (current_running s)) = int i"
    and lock: "\<And>i. q = MutexQ i \<Longrightarrow> i < LOCK_NUM \<Longrightarrow> m_status (mlocks s i) = LOCKED"
    and wait: "\<And>p. q = WaitQ p \<Longrightarrow> pstatus s p \<noteq> TASK_EXITED"
  shows "presched t (Q(q := Q q @ [current_running s]))"
proof -
  let ?c = "current_running s" and ?Q = "Q(q := Q q @ [current_running s])"
  note S = preschedD [OF sysinvD(1) [OF s]] and run = sysinvD(2) [OF s]
  note T = tasks_okD [OF S(3)]
  have c: "current_running t = ?c" "other t = other s" by (simp_all add: current_running_def other_def same)
  have ni: "Pid0 k \<noteq> ?c" for k using user_not_idle [OF user] by metis
  have exited: "pstatus t p = TASK_EXITED \<longleftrightarrow> pstatus s p = TASK_EXITED" for p using run by (simp add: st)
  have "tasks_ok t ?Q"
    unfolding tasks_ok_def
  proof (intro conjI allI impI ballI)
    show "pstatus t p = TASK_EXITED" if "\<not> valid_pcb p" for p using T(1) [OF that] exited by blast
    show "pid (pcbs t (Pcb i)) = int i" if "i < NUM_MAX_TASK" for i using T(2) [OF that] pids by simp
    show "pstatus t (Pid0 k) = TASK_READY \<or> pstatus t (Pid0 k) = TASK_RUNNING" if "k < 2" for k
      using T(3) [OF that] ni by (simp add: st)
    show "?Q (WaitQ p) = []" if "pstatus t p = TASK_EXITED" for p
      using T(4) [of p] that wait [of p] unfolding exited by auto
    show "\<exists>i < LOCK_NUM. mutex_idx (pcbs t p) = int i" if p: "p \<in> set (?Q (CondQ c))" for c p
    proof (cases "p = ?c")
      case True
      have "in_no_queue Q ?c" using kinv_running_free [OF S(1)] run by blast
      then have "q = CondQ c" using p True by (auto simp: in_no_queue_def split: if_splits)
      then show ?thesis using cond True by blast
    next
      case False
      then have "p \<in> set (Q (CondQ c))" using p by (auto split: if_splits)
      then show ?thesis using T(5) idx [OF False] by simp
    qed
  qed
  moreover have "linv t ?Q" using S(2) lock by (fastforce simp: linv_def same)
  ultimately show ?thesis
    unfolding presched_def using k S(4,5,7) by (simp add: c same st)
qed

text \<open>Blocking through \<open>do_block\<close>, whichever of status and list is changed first.\<close>

lemma block_and_schedule:
  assumes s: "sysinv s Q" and user: "user_running s" and q: "q \<noteq> ReadyQ" "\<And>c. q \<noteq> CondQ c"
    and lock: "\<And>i. q = MutexQ i \<Longrightarrow> i < LOCK_NUM \<Longrightarrow> m_status (mlocks s i) = LOCKED"
    and wait: "\<And>p. q = WaitQ p \<Longrightarrow> pstatus s p \<noteq> TASK_EXITED"
  shows "\<exists>s' Q'. do_scheduler rt (block_current q s) = Some s' \<and> sysinv s' Q'"
proof -
  note S = preschedD [OF sysinvD(1) [OF s]] and run = sysinvD(2) [OF s]
  have k: "kinv (block_current q s) (Q(q := Q q @ [current_running s]))"
    unfolding block_current_def by (rule kinv_block [OF S(1) run q(1)])
  have "presched (block_current q s) (Q(q := Q q @ [current_running s]))"
    by (rule blocked_presched [OF s user q(1) k]) (use q lock wait in \<open>simp_all add: block_current_def\<close>)
  from do_scheduler_sysinv [OF this, of rt] show ?thesis by blast
qed

section \<open>Waking other tasks\<close>

text \<open>Operations that only make other tasks READY or BLOCKED.\<close>

definition wakes :: "'d kernel \<Rightarrow> 'd kernel \<Rightarrow> bool" where
  "wakes s s' \<longleftrightarrow> hart s' = hart s \<and> tp s' = tp s
     \<and> (\<forall>p. \<exists>st. pcbs s' p = (pcbs s p)\<lparr>status := st\<rparr>
          \<and> (st = pstatus s p \<or> st = TASK_READY \<or> st = TASK_BLOCKED))"

lemma wakes_refl [simp]: "wakes s s"
  by (auto simp: wakes_def intro!: exI [of _ "pstatus s _"])

lemma wakes_trans:
  assumes "wakes s t" "wakes t u"
  shows "wakes s u"
  unfolding wakes_def
proof (intro conjI allI)
  show "hart u = hart s" "tp u = tp s" using assms unfolding wakes_def by simp_all
  fix p
  obtain a where a: "pcbs t p = (pcbs s p)\<lparr>status := a\<rparr>" "a = pstatus s p \<or> a = TASK_READY \<or> a = TASK_BLOCKED"
    using assms(1) unfolding wakes_def by blast
  obtain b where b: "pcbs u p = (pcbs t p)\<lparr>status := b\<rparr>" "b = pstatus t p \<or> b = TASK_READY \<or> b = TASK_BLOCKED"
    using assms(2) unfolding wakes_def by blast
  show "\<exists>st. pcbs u p = (pcbs s p)\<lparr>status := st\<rparr> \<and> (st = pstatus s p \<or> st = TASK_READY \<or> st = TASK_BLOCKED)"
    by (rule exI [of _ b]) (use a b in auto)
qed

lemma wakes_status: "st = TASK_READY \<or> st = TASK_BLOCKED \<Longrightarrow> wakes s (set_status p st s)"
proof -
  assume st: "st = TASK_READY \<or> st = TASK_BLOCKED"
  have "\<exists>a. pcbs (set_status p st s) x = (pcbs s x)\<lparr>status := a\<rparr>
      \<and> (a = pstatus s x \<or> a = TASK_READY \<or> a = TASK_BLOCKED)" for x
    by (rule exI [of _ "if x = p then st else pstatus s x"]) (use st in auto)
  then show ?thesis by (simp add: wakes_def)
qed

lemma wakes_frame:
  "wakes s (upd_links f s)" "wakes s (do_unblock n s)" "wakes s (do_block p q s)"
  "wakes s (upd_mlock i g s)" "wakes s (upd_barrier i h s)"
  unfolding wakes_def by (auto simp: upd_barrier_def intro!: exI [of _ "pstatus s _"])

lemmas wakes_after = wakes_trans [OF _ wakes_status [OF disjI1 [OF refl]]]
  wakes_trans [OF _ wakes_status [OF disjI2 [OF refl]]] wakes_frame [THEN wakes_trans [rotated]]

lemma for_each_wakes:
  assumes "\<And>i s s'. f i s = Some s' \<Longrightarrow> wakes s s'"
  shows "for_each f is s = Some s' \<Longrightarrow> wakes s s'"
proof (induction "is" arbitrary: s)
  case (Cons i "is")
  then obtain t where "f i s = Some t" "for_each f is t = Some s'" by (auto split: bind_splits)
  then show ?case using wakes_trans assms Cons.IH by blast
qed simp

lemma pass_lock_wakes:
  assumes "pass_lock i s = Some s'"
  shows "wakes s s'"
  using assms
  by (auto simp: pass_lock_def Let_def split: if_splits bind_splits intro!: wakes_after)

lemma do_release_locks_wakes: "do_release_locks p s = Some s' \<Longrightarrow> wakes s s'"
  unfolding do_release_locks_def
  by (erule for_each_wakes [rotated]) (auto split: if_splits dest: pass_lock_wakes)

lemma do_mutex_lock_release_wakes: "do_mutex_lock_release i s = Some s' \<Longrightarrow> wakes s s'"
  by (auto simp: do_mutex_lock_release_def split: if_splits bind_splits dest: pass_lock_wakes)

lemma release_barrier_queue_wakes:
  assumes "release_barrier_queue i s = Some s'"
  shows "wakes s s'"
proof (rule release_barrier_queue.raw_induct [where P = "\<lambda>i s s'. wakes s s'", OF _ assms])
  fix loop :: "nat \<Rightarrow> 'a kernel \<Rightarrow> 'a kernel option" and i and s s' :: "'a kernel"
  assume IH: "\<And>i s s'. loop i s = Some s' \<Longrightarrow> wakes s s'"
    and step: "(if LIST_IS_EMPTY (Head (BarrierQ i)) (links s) then Some s
      else do {
        let node = lnext (links s) (Head (BarrierQ i));
        p \<leftarrow> NODE_TO_PCB node;
        loop i (set_status p TASK_READY (do_unblock node s)) }) = Some s'"
  show "wakes s s'"
  proof (cases "LIST_IS_EMPTY (Head (BarrierQ i)) (links s)")
    case False
    then obtain p n where "loop i (set_status p TASK_READY (do_unblock n s)) = Some s'"
      using step by (auto simp: Let_def split: bind_splits)
    then show ?thesis by (rule wakes_trans [rotated, OF IH]) (auto intro!: wakes_after)
  qed (use step in simp)
qed

lemma wake_waiters_wakes:
  assumes "wake_waiters p s = Some s'"
  shows "wakes s s'"
proof (rule wake_waiters.raw_induct [where P = "\<lambda>p s s'. wakes s s'", OF _ assms])
  fix loop :: "pcb_ref \<Rightarrow> 'a kernel \<Rightarrow> 'a kernel option" and p and s s' :: "'a kernel"
  assume IH: "\<And>p s s'. loop p s = Some s' \<Longrightarrow> wakes s s'"
    and step: "(if LIST_IS_EMPTY (Head (WaitQ p)) (links s) then Some s
      else do {
        let node = lnext (links s) (Head (WaitQ p));
        waiter \<leftarrow> NODE_TO_PCB node;
        loop p (do_unblock node (set_status waiter TASK_READY s)) }) = Some s'"
  show "wakes s s'"
  proof (cases "LIST_IS_EMPTY (Head (WaitQ p)) (links s)")
    case False
    then obtain x n where "loop p (do_unblock n (set_status x TASK_READY s)) = Some s'"
      using step by (auto simp: Let_def split: bind_splits)
    then show ?thesis by (rule wakes_trans [rotated, OF IH]) (auto intro!: wakes_after)
  qed (use step in simp)
qed

lemma wake_waiter_wakes: "wake_waiter p s = Some s' \<Longrightarrow> wakes s s'"
  by (auto simp: wake_waiter_def do_mutex_lock_acquire_non_sched_def Let_def split: if_splits bind_splits
      intro!: wakes_after)

lemma wakesD:
  assumes "wakes s s'"
  shows "hart s' = hart s" "tp s' = tp s" "current_running s' = current_running s" "other s' = other s"
    "pid (pcbs s' p) = pid (pcbs s p)" "mutex_idx (pcbs s' p) = mutex_idx (pcbs s p)"
    "pstatus s' p = pstatus s p \<or> pstatus s' p = TASK_READY \<or> pstatus s' p = TASK_BLOCKED"
proof -
  show h: "hart s' = hart s" "tp s' = tp s" using assms by (simp_all add: wakes_def)
  then show "current_running s' = current_running s" "other s' = other s"
    by (simp_all add: current_running_def other_def)
  obtain st where "pcbs s' p = (pcbs s p)\<lparr>status := st\<rparr>" "st = pstatus s p \<or> st = TASK_READY \<or> st = TASK_BLOCKED"
    using assms unfolding wakes_def by blast
  then show "pid (pcbs s' p) = pid (pcbs s p)" "mutex_idx (pcbs s' p) = mutex_idx (pcbs s p)"
    "pstatus s' p = pstatus s p \<or> pstatus s' p = TASK_READY \<or> pstatus s' p = TASK_BLOCKED" by simp_all
qed

text \<open>Other tasks are woken or move between queues, and the tasks \<open>X\<close> exit.\<close>

lemma presched_wakes:
  assumes s: "presched s Q" and w: "wakes s t"
    and s': "hart s' = hart t" "tp s' = tp t"
      "\<And>p. pcbs s' p = (if p \<in> X then (pcbs t p)\<lparr>status := TASK_EXITED\<rparr> else pcbs t p)"
    and k: "kinv s' Q'" and l: "linv s' Q'"
    and queued: "\<And>q p. p \<in> set (Q' q) \<Longrightarrow> \<exists>r. p \<in> set (Q r) \<and> (q \<noteq> ReadyQ \<longrightarrow> r \<noteq> ReadyQ)"
    and sub: "\<And>c. set (Q' (CondQ c)) \<subseteq> set (Q (CondQ c))" "\<And>p. set (Q' (WaitQ p)) \<subseteq> set (Q (WaitQ p))"
    and X: "\<And>p. p \<in> X \<Longrightarrow> Q' (WaitQ p) = [] \<and> (\<exists>i. p = Pcb i) \<and> p \<noteq> other s"
    and c: "current_running s \<notin> X \<Longrightarrow> pstatus s (current_running s) = TASK_RUNNING"
  shows "presched s' Q' \<and> (current_running s \<notin> X \<longrightarrow> sysinv s' Q')"
proof -
  let ?c = "current_running s"
  note S = preschedD [OF s] and T = tasks_okD [OF preschedD(3) [OF s]] and W = wakesD [OF w]
  note K = kinvD [OF S(1)] and K' = kinvD [OF k]
  have c': "current_running s' = ?c" "other s' = other s" "hart s' = hart s"
    using s' W by (simp_all add: current_running_def other_def)
  have st: "pstatus s' p = (if p \<in> X then TASK_EXITED else pstatus t p)"
    "pid (pcbs s' p) = pid (pcbs s p)" "mutex_idx (pcbs s' p) = mutex_idx (pcbs s p)" for p
    using s'(3) W(5,6) by simp_all
  have free': "in_no_queue Q' p" if "in_no_queue Q p" for p
    using queued that unfolding in_no_queue_def by blast
  have blocked: "pstatus s p = TASK_BLOCKED" if "p \<in> set (Q' q)" "q \<noteq> ReadyQ" for p q
    using queued [OF that(1)] that(2) K(3) by blast
  have keeps: "pstatus s' p = TASK_RUNNING" if "pstatus s p = TASK_RUNNING" "p \<notin> X" for p
  proof -
    have "in_no_queue Q' p" using free' kinv_running_free [OF S(1)] that(1) by blast
    moreover have "pstatus s' p \<noteq> TASK_EXITED" using W(7) [of p] that by (auto simp: st)
    ultimately show ?thesis using K'(4) by blast
  qed
  have running: "pstatus s' p = TASK_RUNNING \<Longrightarrow> pstatus s p = TASK_RUNNING" for p
    using W(7) [of p] by (auto simp: st split: if_splits)
  have exited: "p \<in> X \<or> pstatus s p = TASK_EXITED" if "pstatus s' p = TASK_EXITED" for p
    using that W(7) [of p] by (auto simp: st split: if_splits)
  have "tasks_ok s' Q'"
    unfolding tasks_ok_def
  proof (intro conjI allI impI ballI)
    show "pstatus s' p = TASK_EXITED" if "\<not> valid_pcb p" for p
    proof -
      have e: "pstatus s p = TASK_EXITED" by (rule T(1) [OF that])
      then have "in_no_queue Q' p" using free' kinv_running_free [OF S(1)] by blast
      then show ?thesis using K'(4) running e by fastforce
    qed
    show "pid (pcbs s' (Pcb i)) = int i" if "i < NUM_MAX_TASK" for i using T(2) [OF that] by (simp add: st)
    show "Q' (WaitQ p) = []" if "pstatus s' p = TASK_EXITED" for p
      using exited [OF that] X T(4) sub(2) [of p] by auto
    show "\<exists>i < LOCK_NUM. mutex_idx (pcbs s' p) = int i" if "p \<in> set (Q' (CondQ c))" for c p
      using T(5) that sub(1) [of c] by (auto simp: st)
    fix k :: nat assume k: "k < 2"
    have "Pid0 k \<notin> X" using X by blast
    then have "pstatus s' (Pid0 k) \<noteq> TASK_EXITED" using T(3) [OF k] exited by fastforce
    moreover have "\<not> (Pid0 k \<in> set (Q' q) \<and> q \<noteq> ReadyQ)" for q using blocked T(3) [OF k] by fastforce
    ultimately show "pstatus s' (Pid0 k) = TASK_READY \<or> pstatus s' (Pid0 k) = TASK_RUNNING"
      using K'(2,4) unfolding in_no_queue_def by blast
  qed
  moreover have "pstatus s' p = TASK_RUNNING \<longleftrightarrow> p = other s" if "p \<noteq> ?c" for p
    using running [of p] keeps [of p] S(7) [OF that] X [of p] by blast
  moreover have "pstatus s' ?c \<noteq> TASK_READY" "?c \<notin> X \<longrightarrow> pstatus s' ?c = TASK_RUNNING"
    using keeps [OF c] by (cases "?c \<in> X"; simp add: st)+
  ultimately show ?thesis using k l S(4,5) unfolding sysinv_def presched_def by (simp add: c')
qed

lemma sysinv_wakes:
  assumes s: "sysinv s Q" and w: "wakes s s'" and k: "kinv s' Q'" and l: "linv s' Q'"
    and "\<And>q p. p \<in> set (Q' q) \<Longrightarrow> \<exists>r. p \<in> set (Q r) \<and> (q \<noteq> ReadyQ \<longrightarrow> r \<noteq> ReadyQ)"
    and "\<And>c. set (Q' (CondQ c)) \<subseteq> set (Q (CondQ c))" "\<And>p. set (Q' (WaitQ p)) \<subseteq> set (Q (WaitQ p))"
  shows "sysinv s' Q'"
  using presched_wakes [OF sysinvD(1) [OF s] w, of s' "{}" Q'] assms sysinvD(2) [OF s] by auto

end
