(* ===== verification/SysOps.thy ===== *)
theory SysOps
  imports System
begin

text \<open>
  Each system call keeps the invariant of theory System and returns, from the results of the
  theories Lock and Proc. The lemmas cover the timer interrupt, sleeping, the three kinds of
  synchronisation object, waiting for a task, killing and exiting, and adding a task.
\<close>

section \<open>Changes outside the tasks\<close>

lemma upd_barrier_harts [simp]: "hart (upd_barrier i g s) = hart s" "tp (upd_barrier i g s) = tp s"
  by (simp_all add: upd_barrier_def)

lemma sysinv_change:
  fixes s t :: "'d kernel"
  assumes s: "sysinv s Q" and "links t = links s" "pcbs t = pcbs s" "hart t = hart s" "tp t = tp s"
    and "\<And>i. m_status (mlocks t i) = m_status (mlocks s i)"
  shows "sysinv t Q"
proof (rule sysinv_wakes [OF s])
  note S = preschedD [OF sysinvD(1) [OF s]]
  show "wakes s t" using assms by (auto simp: wakes_def intro!: exI [of _ "pstatus s _"])
  show "kinv t Q" by (rule kinv_change [OF S(1)]) (simp_all add: assms)
  show "linv t Q" using S(2) assms(6) by (simp add: linv_def)
qed auto

lemma presched_mm: "presched s Q \<Longrightarrow> presched (s\<lparr>mm := m\<rparr>) Q"
  unfolding presched_def tasks_ok_def linv_def other_def current_running_def
  by (auto intro: kinv_change)

lemma mutex_init_sysinv: "sysinv s Q \<Longrightarrow> sysinv (snd (do_mutex_lock_init key s)) Q"
  by (erule sysinv_change) (auto simp: do_mutex_lock_init_def split: option.split)

lemma barrier_init_sysinv: "sysinv s Q \<Longrightarrow> sysinv (snd (do_barrier_init key goal s)) Q"
  by (erule sysinv_change) (auto simp: do_barrier_init_def upd_barrier_def split: option.split)

lemma condition_init_sysinv: "sysinv s Q \<Longrightarrow> sysinv (snd (do_condition_init key s)) Q"
  by (erule sysinv_change) (auto simp: do_condition_init_def upd_condition_def split: option.split)

section \<open>Time\<close>

lemma timer_sysinv:
  assumes "sysinv s Q"
  shows "\<exists>s' Q'. do_scheduler rt s = Some s' \<and> sysinv s' Q'"
  using do_scheduler_sysinv [OF sysinvD(1) [OF assms], of rt] by blast

lemma sleep_sysinv:
  assumes s: "sysinv s Q" and user: "user_running s"
  shows "\<exists>s' Q'. do_sleep rt secs s = Some s' \<and> sysinv s' Q'"
proof -
  note S = preschedD [OF sysinvD(1) [OF s]] and run = sysinvD(2) [OF s]
  let ?c = "current_running s" and ?b = "block_current SleepQ s"
  define t where "t = upd_pcb ?c (\<lambda>x. x\<lparr>wakeup_time := rt (ticks_read s) + ucast secs * time_base s\<rparr>)
    (snd (get_ticks rt ?b))"
  have "do_sleep rt secs s = do_scheduler rt t"
    by (simp add: do_sleep_def t_def block_current_def do_block_def Let_def get_ticks_def status_links_commute)
  moreover have k: "kinv ?b (Q(SleepQ := Q SleepQ @ [?c]))"
    unfolding block_current_def by (rule kinv_block [OF S(1) run]) simp
  have "presched t (Q(SleepQ := Q SleepQ @ [?c]))"
  proof (rule blocked_presched [OF s user])
    show "kinv t (Q(SleepQ := Q SleepQ @ [?c]))" by (rule kinv_change [OF k]) (simp_all add: t_def)
  qed (simp_all add: t_def block_current_def get_ticks_def)
  ultimately show ?thesis using do_scheduler_sysinv [of t _ rt] by metis
qed

section \<open>Locks\<close>

lemma acquire_sysinv:
  assumes s: "sysinv s Q" and user: "user_running s" and i: "i < LOCK_NUM"
  shows "\<exists>s' Q'. do_mutex_lock_acquire rt (int i) s = Some s' \<and> sysinv s' Q'"
proof (cases "m_status (mlocks s i)")
  case UNLOCKED
  let ?s' = "upd_mlock i (\<lambda>m. m\<lparr>m_status := LOCKED, m_owner := pid (pcbs s (current_running s))\<rparr>) s"
  note S = preschedD [OF sysinvD(1) [OF s]]
  have "sysinv ?s' Q"
  proof (rule sysinv_wakes [OF s])
    show "wakes s ?s'" by (rule wakes_frame)
    show "kinv ?s' Q" by (rule upd_mlock_kinv [OF S(1)])
    show "linv ?s' Q" using S(2) by (auto simp: linv_def)
  qed auto
  then show ?thesis using i UNLOCKED by (auto simp: do_mutex_lock_acquire_def Let_def)
next
  case LOCKED
  then have "do_mutex_lock_acquire rt (int i) s = do_scheduler rt (block_current (MutexQ i) s)"
    using i by (simp add: do_mutex_lock_acquire_def block_current_def Let_def)
  then show ?thesis using block_and_schedule [OF s user, of "MutexQ i" rt] LOCKED by simp
qed

lemma pass_lock_sysinv:
  assumes s: "sysinv s Q"
  shows "\<exists>s' Q'. pass_lock i s = Some s' \<and> sysinv s' Q'"
proof -
  note S = preschedD [OF sysinvD(1) [OF s]]
  let ?Q = "Q(MutexQ i := tl (Q (MutexQ i)), ReadyQ := take 1 (Q (MutexQ i)) @ Q ReadyQ)"
  obtain s' where s': "pass_lock i s = Some s'" "kinv s' ?Q" "linv s' ?Q"
    using pass_lock_result [OF S(1,2), of i] by blast
  have tl: "x \<in> set (tl xs) \<Longrightarrow> x \<in> set xs" for x and xs :: "pcb_ref list" by (cases xs) auto
  have "sysinv s' ?Q"
  proof (rule sysinv_wakes [OF s pass_lock_wakes [OF s'(1)] s'(2,3)])
    fix q p assume p: "p \<in> set (?Q q)"
    show "\<exists>r. p \<in> set (Q r) \<and> (q \<noteq> ReadyQ \<longrightarrow> r \<noteq> ReadyQ)"
    proof (cases "q = ReadyQ")
      case True
      then show ?thesis using p by (auto dest: in_set_takeD)
    next
      case False
      then have "p \<in> set (Q q)" using p tl by (auto split: if_splits)
      then show ?thesis using False by blast
    qed
  qed auto
  then show ?thesis using s'(1) by blast
qed

lemma release_sysinv:
  assumes s: "sysinv s Q" and i: "i < LOCK_NUM"
  shows "\<exists>s' Q'. do_mutex_lock_release (int i) s = Some s' \<and> sysinv s' Q'"
  using i s pass_lock_sysinv [OF s, of i] by (auto simp: do_mutex_lock_release_def)

section \<open>Barriers\<close>

lemma barrier_wait_sysinv:
  assumes s: "sysinv s Q" and user: "user_running s" and i: "i < BARRIER_NUM"
  shows "\<exists>s' Q'. do_barrier_wait rt (int i) s = Some s' \<and> sysinv s' Q'"
proof -
  define u where "u = upd_barrier i (\<lambda>b. b\<lparr>b_count := b_count b + 1\<rparr>) s"
  have su: "sysinv u Q" by (rule sysinv_change [OF s]) (simp_all add: u_def)
  have c: "current_running u = current_running s" by (simp add: u_def)
  have b: "b_count (barriers u i) = b_count (barriers s i) + 1" "b_goal (barriers u i) = b_goal (barriers s i)"
    by (simp_all add: u_def)
  show ?thesis
  proof (cases "b_count (barriers u i) \<ge> b_goal (barriers u i)")
    case True
    define v where "v = upd_barrier i (\<lambda>b. b\<lparr>b_count := 0\<rparr>) u"
    have sv: "sysinv v Q" by (rule sysinv_change [OF su]) (simp_all add: v_def)
    let ?Q = "Q(BarrierQ i := [], ReadyQ := rev (Q (BarrierQ i)) @ Q ReadyQ)"
    obtain s' where s': "release_barrier_queue i v = Some s'" "kinv s' ?Q" "mlocks s' = mlocks v"
      using release_barrier_queue_result [OF preschedD(1) [OF sysinvD(1) [OF sv]] refl, of i] by blast
    have "sysinv s' ?Q"
    proof (rule sysinv_wakes [OF sv release_barrier_queue_wakes [OF s'(1)] s'(2)])
      show "linv s' ?Q" using preschedD(2) [OF sysinvD(1) [OF sv]] by (simp add: linv_def s'(3))
    qed (auto split: if_splits)
    moreover have "do_barrier_wait rt (int i) s = Some s'"
      using i True s'(1) by (simp add: do_barrier_wait_def b u_def [symmetric] v_def [symmetric])
    ultimately show ?thesis by blast
  next
    case False
    then have "do_barrier_wait rt (int i) s = do_scheduler rt (block_current (BarrierQ i) u)"
      using i c by (simp add: do_barrier_wait_def b u_def [symmetric] block_current_def Let_def)
    moreover have "user_running u" using user c by (simp add: user_running_def)
    ultimately show ?thesis using block_and_schedule [OF su, of "BarrierQ i" rt] by simp
  qed
qed

section \<open>Condition variables\<close>

lemma condition_wait_sysinv:
  assumes s: "sysinv s Q" and user: "user_running s" and i: "c < CONDITION_NUM" "j < LOCK_NUM"
  shows "\<exists>s' Q'. do_condition_wait rt (int c) (int j) s = Some s' \<and> sysinv s' Q'"
proof -
  obtain u R where u: "do_mutex_lock_release (int j) s = Some u" "sysinv u R"
    using release_sysinv [OF s i(2)] by blast
  let ?c = "current_running u"
  have user': "user_running u"
    using user wakesD(3) [OF do_mutex_lock_release_wakes [OF u(1)]] by (simp add: user_running_def)
  define t where "t = upd_pcb ?c (\<lambda>t. t\<lparr>mutex_idx := int j\<rparr>) (block_current (CondQ c) u)"
  have k: "kinv (block_current (CondQ c) u) (R(CondQ c := R (CondQ c) @ [?c]))"
    unfolding block_current_def
    by (rule kinv_block [OF preschedD(1) [OF sysinvD(1) [OF u(2)]] sysinvD(2) [OF u(2)]]) simp
  have "presched t (R(CondQ c := R (CondQ c) @ [?c]))"
  proof (rule blocked_presched [OF u(2) user'])
    show "kinv t (R(CondQ c := R (CondQ c) @ [?c]))" by (rule kinv_change [OF k]) (simp_all add: t_def)
  qed (use i in \<open>simp_all add: t_def block_current_def\<close>)
  moreover have "do_condition_wait rt (int c) (int j) s = do_scheduler rt t"
    using i by (simp add: do_condition_wait_def u(1) t_def block_current_def do_block_def Let_def pcb_links_commute)
  ultimately show ?thesis using do_scheduler_sysinv [of t _ rt] by metis
qed

lemma wake_waiter_sysinv:
  assumes s: "sysinv s Q" and c: "Q (CondQ c) = p # ps"
  shows "\<exists>s' Q'. wake_waiter p s = Some s' \<and> sysinv s' Q' \<and> Q' (CondQ c) = ps"
proof -
  note S = preschedD [OF sysinvD(1) [OF s]] and T = tasks_okD [OF preschedD(3) [OF sysinvD(1) [OF s]]]
  have "p \<in> set (Q (CondQ c))" using c by simp
  then obtain i where i: "mutex_idx (pcbs s p) = int i" "i < LOCK_NUM" using T(5) by blast
  obtain s' where s': "wake_waiter p s = Some s'"
    and r: "if m_status (mlocks s i) = UNLOCKED
     then kinv s' (Q(CondQ c := ps, ReadyQ := p # Q ReadyQ)) \<and> linv s' (Q(CondQ c := ps, ReadyQ := p # Q ReadyQ))
     else kinv s' (Q(CondQ c := ps, MutexQ i := Q (MutexQ i) @ [p]))
       \<and> linv s' (Q(CondQ c := ps, MutexQ i := Q (MutexQ i) @ [p]))"
    using wake_waiter_result [OF S(1,2) c i] by (auto split: if_splits)
  define Q' where "Q' = (if m_status (mlocks s i) = UNLOCKED then Q(CondQ c := ps, ReadyQ := p # Q ReadyQ)
    else Q(CondQ c := ps, MutexQ i := Q (MutexQ i) @ [p]))"
  have "sysinv s' Q'"
  proof (rule sysinv_wakes [OF s wake_waiter_wakes [OF s']])
    show "kinv s' Q'" "linv s' Q'" using r by (auto simp: Q'_def split: if_splits)
    show "\<exists>r. x \<in> set (Q r) \<and> (q \<noteq> ReadyQ \<longrightarrow> r \<noteq> ReadyQ)" if x: "x \<in> set (Q' q)" for q x
    proof (cases "x = p")
      case True
      then show ?thesis using c by (intro exI [of _ "CondQ c"]) simp
    next
      case False
      then have "x \<in> set (Q q)" using x c by (auto simp: Q'_def split: if_splits)
      then show ?thesis by blast
    qed
  qed (use c in \<open>auto simp: Q'_def\<close>)
  moreover have "Q' (CondQ c) = ps" by (simp add: Q'_def)
  ultimately show ?thesis using s' by blast
qed

lemma condition_signal_sysinv:
  assumes s: "sysinv s Q" and c: "c < CONDITION_NUM"
  shows "\<exists>s' Q'. do_condition_signal (int c) s = Some s' \<and> sysinv s' Q'"
proof (cases "Q (CondQ c)")
  case Nil
  then show ?thesis using condition_signal_empty [OF c preschedD(1) [OF sysinvD(1) [OF s]]] s by blast
next
  case (Cons p ps)
  then show ?thesis
    using condition_signal_unfold [OF c preschedD(1) [OF sysinvD(1) [OF s]]] wake_waiter_sysinv [OF s Cons] by auto
qed

lemma condition_broadcast_loop_sysinv:
  "sysinv s Q \<Longrightarrow> Q (CondQ c) = ps \<Longrightarrow>
    \<exists>s' Q'. condition_broadcast_loop c (front_node (CondQ c) ps) s = Some s' \<and> sysinv s' Q'"
proof (induction ps arbitrary: s Q)
  case Nil
  then show ?case by (subst condition_broadcast_loop.simps) (auto simp: front_node_def)
next
  case (Cons p ps)
  obtain t R where t: "wake_waiter p s = Some t" "sysinv t R" "R (CondQ c) = ps"
    using wake_waiter_sysinv [OF Cons.prems] by blast
  have "lnext (links t) (Head (CondQ c)) = front_node (CondQ c) ps"
    using queues_front [OF kinvD(1) [OF preschedD(1) [OF sysinvD(1) [OF t(2)]]], of "CondQ c"] t(3) by simp
  then have "condition_broadcast_loop c (front_node (CondQ c) (p # ps)) s =
      condition_broadcast_loop c (front_node (CondQ c) ps) t"
    using t(1) by (subst condition_broadcast_loop.simps) (simp add: front_node_def wake_waiter_def Let_def)
  then show ?case using Cons.IH [OF t(2,3)] by simp
qed

lemma condition_broadcast_sysinv:
  assumes s: "sysinv s Q" and c: "c < CONDITION_NUM"
  shows "\<exists>s' Q'. do_condition_broadcast (int c) s = Some s' \<and> sysinv s' Q'"
  using condition_broadcast_loop_sysinv [OF s refl, of c] c
    queues_front [OF kinvD(1) [OF preschedD(1) [OF sysinvD(1) [OF s]]], of "CondQ c"]
  by (simp add: do_condition_broadcast_def)

section \<open>Waiting for a task\<close>

lemma waitpid_sysinv:
  assumes s: "sysinv s Q" and user: "user_running s" and i: "i < NUM_MAX_TASK"
  shows "\<exists>s' Q'. do_waitpid rt (int i) s = Some (0, s') \<and> sysinv s' Q'"
proof (cases "pstatus s (Pcb i) = TASK_EXITED")
  case True
  then show ?thesis using i s by (auto simp: do_waitpid_def)
next
  case False
  have "set_status (current_running s) TASK_BLOCKED (do_block (current_running s) (WaitQ (Pcb i)) s) =
      block_current (WaitQ (Pcb i)) s"
    by (simp add: block_current_def do_block_def status_links_commute)
  then have "do_waitpid rt (int i) s = do { s2 \<leftarrow> do_scheduler rt (block_current (WaitQ (Pcb i)) s); Some (0, s2) }"
    using i False by (simp add: do_waitpid_def Let_def)
  then show ?thesis using block_and_schedule [OF s user, of "WaitQ (Pcb i)" rt] False by auto
qed

section \<open>Killing and exiting\<close>

lemma parent_wakes: "wakes s t \<Longrightarrow> parent_pid (pcbs t p) = parent_pid (pcbs s p)"
  unfolding wakes_def by (metis pcb_t.select_convs(7) pcb_t.surjective pcb_t.update_convs(8))

text \<open>\<open>do_kill\<close> on a live task that no other hart runs.\<close>

lemma do_kill_presched:
  fixes s :: "'d kernel"
  assumes s: "sysinv s Q" and i: "i < NUM_MAX_TASK" and alive: "pstatus s (Pcb i) \<noteq> TASK_EXITED"
    and o: "Pcb i \<noteq> other s"
  shows "\<exists>s' Q'. do_kill (int i) s = Some (1, s') \<and> presched s' Q'
    \<and> (Pcb i \<noteq> current_running s \<longrightarrow> sysinv s' Q') \<and> current_running s' = current_running s \<and> other s' = other s
    \<and> (\<forall>p. parent_pid (pcbs s' p) = parent_pid (pcbs s p))
    \<and> (\<forall>p. p \<noteq> Pcb i \<longrightarrow> pstatus s p \<noteq> TASK_EXITED \<longrightarrow> pstatus s' p \<noteq> TASK_EXITED)"
proof -
  note S = preschedD [OF sysinvD(1) [OF s]] and T = tasks_okD [OF preschedD(3) [OF sysinvD(1) [OF s]]]
  have pids: "pid (pcbs s x) \<noteq> int i" if x: "x \<in> set (Q (MutexQ j))" "x \<noteq> Pcb i" for j x
  proof -
    have b: "pstatus s x = TASK_BLOCKED" using kinvD(3) [OF S(1) _ x(1)] by simp
    then have "valid_pcb x" using T(1) by force
    moreover have "x \<noteq> Pid0 k" if "k < 2" for k using T(3) [OF that] b by auto
    ultimately obtain n where "x = Pcb n" "n < NUM_MAX_TASK" by (cases x) auto
    then show ?thesis using T(2) x(2) by auto
  qed
  obtain s' Q' where s': "do_kill (int i) s = Some (1, s')" "kinv s' Q'" "linv s' Q'" "Q' (WaitQ (Pcb i)) = []"
    and sub: "\<And>q x. x \<in> set (Q' q) \<Longrightarrow> \<exists>r. x \<in> set (Q r) \<and> (q \<noteq> ReadyQ \<longrightarrow> r = q)"
    using do_kill_result [OF i S(1,2) alive] pids by blast
  obtain s2 s3 where t: "do_release_locks (int i) (upd_links (LIST_REMOVE (PList (Pcb i))) s) = Some s2"
    "wake_waiters (Pcb i) s2 = Some s3" "s' = set_status (Pcb i) TASK_EXITED s3"
    using s'(1) i by (auto simp: do_kill_def split: bind_splits)
  have w: "wakes s s3"
    using wakes_trans [OF wakes_trans [OF wakes_frame(1) do_release_locks_wakes [OF t(1)]] wake_waiters_wakes [OF t(2)]] .
  have P: "presched s' Q' \<and> (current_running s \<notin> {Pcb i} \<longrightarrow> sysinv s' Q')"
  proof (rule presched_wakes [OF sysinvD(1) [OF s] w _ _ _ s'(2,3)])
    show "\<exists>r. p \<in> set (Q r) \<and> (q \<noteq> ReadyQ \<longrightarrow> r \<noteq> ReadyQ)" if "p \<in> set (Q' q)" for q p
      using sub [OF that] by blast
    show "set (Q' (CondQ c)) \<subseteq> set (Q (CondQ c))" for c using sub [of _ "CondQ c"] by blast
    show "set (Q' (WaitQ p)) \<subseteq> set (Q (WaitQ p))" for p using sub [of _ "WaitQ p"] by blast
  qed (use t(3) s'(4) o sysinvD(2) [OF s] in auto)
  have "current_running s' = current_running s \<and> other s' = other s"
    using wakesD(3,4) [OF w] by (simp add: t(3) other_def)
  moreover have "parent_pid (pcbs s' p) = parent_pid (pcbs s p)" for p
    using parent_wakes [OF w, of p] by (auto simp: t(3))
  moreover have "p \<noteq> Pcb i \<Longrightarrow> pstatus s p \<noteq> TASK_EXITED \<Longrightarrow> pstatus s' p \<noteq> TASK_EXITED" for p
    using wakesD(7) [OF w, of p] by (auto simp: t(3))
  ultimately show ?thesis using P s'(1) by (intro exI [of _ s'] exI [of _ Q']) auto
qed

text \<open>The children that \<open>do_kill_all\<close> kills first.\<close>

lemma kill_children_sysinv:
  fixes s :: "'d kernel"
  assumes s: "sysinv s Q"
    and parents: "parent_pid (pcbs s (current_running s)) \<noteq> p" "parent_pid (pcbs s (other s)) \<noteq> p"
  shows "\<exists>s'. for_each (\<lambda>i s. if parent_pid (pcbs s (Pcb i)) = p \<and> pstatus s (Pcb i) \<noteq> TASK_EXITED
        then map_option snd (do_kill (int i) s) else Some s) [0..<NUM_MAX_TASK] s = Some s'
    \<and> (\<exists>Q'. sysinv s' Q') \<and> current_running s' = current_running s \<and> other s' = other s
    \<and> (\<forall>q. parent_pid (pcbs s q) \<noteq> p \<longrightarrow> pstatus s q \<noteq> TASK_EXITED \<longrightarrow> pstatus s' q \<noteq> TASK_EXITED)"
proof -
  let ?P = "\<lambda>n t. (\<exists>Q'. sysinv t Q') \<and> current_running t = current_running s \<and> other t = other s
    \<and> (\<forall>q. parent_pid (pcbs t q) = parent_pid (pcbs s q))
    \<and> (\<forall>q. parent_pid (pcbs s q) \<noteq> p \<longrightarrow> pstatus s q \<noteq> TASK_EXITED \<longrightarrow> pstatus t q \<noteq> TASK_EXITED)"
  have "\<exists>s'. for_each (\<lambda>i s. if parent_pid (pcbs s (Pcb i)) = p \<and> pstatus s (Pcb i) \<noteq> TASK_EXITED
        then map_option snd (do_kill (int i) s) else Some s) [0..<NUM_MAX_TASK] s = Some s' \<and> ?P NUM_MAX_TASK s'"
  proof (rule for_each_upt [where P = ?P])
    show "?P 0 s" using s by blast
  next
    fix i and t :: "'d kernel" assume i: "i < NUM_MAX_TASK" and P: "?P i t"
    then obtain Q' where t: "sysinv t Q'" by blast
    show "\<exists>s'. (if parent_pid (pcbs t (Pcb i)) = p \<and> pstatus t (Pcb i) \<noteq> TASK_EXITED
        then map_option snd (do_kill (int i) t) else Some t) = Some s' \<and> ?P (Suc i) s'"
    proof (cases "parent_pid (pcbs t (Pcb i)) = p \<and> pstatus t (Pcb i) \<noteq> TASK_EXITED")
      case True
      have o: "Pcb i \<noteq> other t" "Pcb i \<noteq> current_running t" using P True parents by auto
      obtain s' R where k: "do_kill (int i) t = Some (1, s')" "sysinv s' R" "current_running s' = current_running t"
        "other s' = other t" "\<And>q. parent_pid (pcbs s' q) = parent_pid (pcbs t q)"
        "\<And>q. q \<noteq> Pcb i \<Longrightarrow> pstatus t q \<noteq> TASK_EXITED \<Longrightarrow> pstatus s' q \<noteq> TASK_EXITED"
        using do_kill_presched [OF t i conjunct2 [OF True] o(1)] o(2) by metis
      have "?P (Suc i) s'"
      proof (intro conjI allI impI)
        show "\<exists>Q'. sysinv s' Q'" using k(2) by blast
        show "current_running s' = current_running s" "other s' = other s" using k(3,4) P by simp_all
        show "parent_pid (pcbs s' q) = parent_pid (pcbs s q)" for q using k(5) P by simp
        show "pstatus s' q \<noteq> TASK_EXITED" if "parent_pid (pcbs s q) \<noteq> p" "pstatus s q \<noteq> TASK_EXITED" for q
          using k(6) [of q] P True that by metis
      qed
      then show ?thesis using True k(1) by simp
    next
      case False
      then show ?thesis using P by auto
    qed
  qed
  then show ?thesis by blast
qed

lemma kill_all_presched:
  fixes s :: "'d kernel"
  assumes s: "sysinv s Q" and i: "i < NUM_MAX_TASK" and alive: "pstatus s (Pcb i) \<noteq> TASK_EXITED"
    and o: "Pcb i \<noteq> other s"
    and parents: "parent_pid (pcbs s (current_running s)) \<noteq> int i" "parent_pid (pcbs s (other s)) \<noteq> int i"
      "parent_pid (pcbs s (Pcb i)) \<noteq> int i"
  shows "\<exists>s' Q'. do_kill_all (int i) s = Some (1, s') \<and> presched s' Q'
    \<and> (Pcb i \<noteq> current_running s \<longrightarrow> sysinv s' Q')"
proof -
  obtain t R where t: "for_each (\<lambda>j s. if parent_pid (pcbs s (Pcb j)) = int i \<and> pstatus s (Pcb j) \<noteq> TASK_EXITED
        then map_option snd (do_kill (int j) s) else Some s) [0..<NUM_MAX_TASK] s = Some t" "sysinv t R"
      "current_running t = current_running s" "other t = other s" "pstatus t (Pcb i) \<noteq> TASK_EXITED"
    using kill_children_sysinv [OF s parents(1,2)] parents(3) alive by blast
  have "Pcb i \<noteq> other t" using o t(4) by simp
  then obtain u Q' where u: "do_kill (int i) t = Some (1, u)" "presched u Q'"
    "Pcb i \<noteq> current_running t \<longrightarrow> sysinv u Q'" "current_running u = current_running t"
    using do_kill_presched [OF t(2) i t(5)] by blast
  let ?s' = "u\<lparr>mm := freeProcessMem (ucast (asid (pcbs u (Pcb i)))) (mm u)\<rparr>"
  have "do_kill_all (int i) s = Some (1, ?s')" using i t(1) u(1) by (simp add: do_kill_all_def)
  moreover have "presched ?s' Q'" by (rule presched_mm [OF u(2)])
  moreover have "sysinv ?s' Q'" if "Pcb i \<noteq> current_running s"
    using sysinv_change [of u Q' ?s'] u(3) t(3) that by simp
  ultimately show ?thesis by blast
qed

lemma exit_sysinv:
  fixes s :: "'d kernel"
  assumes s: "sysinv s Q" and c: "current_running s = Pcb i"
    and parents: "parent_pid (pcbs s (Pcb i)) \<noteq> int i" "parent_pid (pcbs s (other s)) \<noteq> int i"
  shows "\<exists>s' Q'. do_exit rt s = Some s' \<and> sysinv s' Q'"
proof -
  note S = preschedD [OF sysinvD(1) [OF s]] and run = sysinvD(2) [OF s]
  note T = tasks_okD [OF S(3)]
  have "valid_pcb (Pcb i)" using T(1) [of "Pcb i"] run c by fastforce
  then have i: "i < NUM_MAX_TASK" by simp
  have "pstatus s (Pcb i) \<noteq> TASK_EXITED" "Pcb i \<noteq> other s" using run c S(5) by auto
  then obtain t R where t: "do_kill_all (int i) s = Some (1, t)" "presched t R"
    using kill_all_presched [OF s i] parents c by auto
  then show ?thesis using do_scheduler_sysinv [OF t(2), of rt] T(2) [OF i] c by (auto simp: do_exit_def)
qed

section \<open>New tasks\<close>

lemma self_remove: "queue h (Head q) [] \<Longrightarrow> LIST_REMOVE (Head q) h = h"
  by (rule REMOVE_self_linked) (simp add: queue_def self_linked_def)

text \<open>An exited task joins the ready queue.\<close>

lemma kinv_add_ready:
  fixes s t :: "'d kernel"
  assumes k: "kinv s Q" and p: "pstatus s p = TASK_EXITED"
    and links: "links t = LIST_ADD_TAIL (Head ReadyQ) (PList p) (links s)"
    and st: "\<And>x. pstatus t x = (if x = p then TASK_READY else pstatus s x)"
  shows "kinv t (Q(ReadyQ := Q ReadyQ @ [p]))"
  unfolding kinv_on_def
proof (intro conjI ballI allI impI)
  note K = kinvD [OF k]
  have free: "\<forall>r. p \<notin> set (Q r)" using kinv_running_free [OF k] p by (simp add: in_no_queue_def)
  show "queues (links t) (Q(ReadyQ := Q ReadyQ @ [p]))"
    using kq.repr_add_tail [OF K(1) free, of ReadyQ] by (simp add: links)
  show "pstatus t x = TASK_READY" if "x \<in> set ((Q(ReadyQ := Q ReadyQ @ [p])) ReadyQ)" for x
    using that K(2) by (auto simp: st)
  show "pstatus t x = TASK_BLOCKED" if "r \<noteq> ReadyQ" "x \<in> set ((Q(ReadyQ := Q ReadyQ @ [p])) r)" for r x
    using that K(3) free by (auto simp: st)
  fix x assume x: "in_no_queue (Q(ReadyQ := Q ReadyQ @ [p])) x" "pstatus t x \<noteq> TASK_EXITED"
  have "x \<notin> set ((Q(ReadyQ := Q ReadyQ @ [p])) ReadyQ)" using x(1) unfolding in_no_queue_def by blast
  then have xp: "x \<noteq> p" by auto
  have xq: "in_no_queue Q x" unfolding in_no_queue_def
  proof
    fix r show "x \<notin> set (Q r)" using x(1) unfolding in_no_queue_def by (cases "r = ReadyQ") (auto dest: spec [of _ r])
  qed
  show "pstatus t x = TASK_RUNNING" using K(4) [OF xq] x(2) xp by (simp add: st)
  have "\<forall>r. x \<notin> set (Q r)" using xq by (simp add: in_no_queue_def)
  then show "detached (links t) x" using kq.free_add_tail [OF K(1)] K(5) [OF xq] x(2) xp by (simp add: st links)
qed

lemma tasks_ok_add_ready:
  fixes s t :: "'d kernel"
  assumes k: "kinv s Q" and T: "tasks_ok s Q" and j: "j < NUM_MAX_TASK" "pstatus s (Pcb j) = TASK_EXITED"
    and pcbs: "\<And>p. p \<noteq> Pcb j \<Longrightarrow> pcbs t p = pcbs s p" "pstatus t (Pcb j) = TASK_READY" "pid (pcbs t (Pcb j)) = int j"
  shows "tasks_ok t (Q(ReadyQ := Q ReadyQ @ [Pcb j]))"
  unfolding tasks_ok_def
proof (intro conjI allI impI ballI)
  note T = tasks_okD [OF T]
  let ?p = "Pcb j" and ?Q = "Q(ReadyQ := Q ReadyQ @ [Pcb j])"
  have free: "in_no_queue Q ?p" using kinv_running_free [OF k] j(2) by blast
  have st: "pstatus t p = (if p = ?p then TASK_READY else pstatus s p)" for p using pcbs by simp
  show "pstatus t p = TASK_EXITED" if "\<not> valid_pcb p" for p using T(1) [OF that] that j(1) by (auto simp: st)
  show "pid (pcbs t (Pcb i)) = int i" if "i < NUM_MAX_TASK" for i
    using T(2) [OF that] pcbs(1) [of "Pcb i"] pcbs(3) by (cases "i = j") auto
  show "pstatus t (Pid0 k) = TASK_READY \<or> pstatus t (Pid0 k) = TASK_RUNNING" if "k < 2" for k
    using T(3) [OF that] by (simp add: st)
  show "?Q (WaitQ p) = []" if "pstatus t p = TASK_EXITED" for p using that T(4) by (simp add: st split: if_splits)
  show "\<exists>i < LOCK_NUM. mutex_idx (pcbs t p) = int i" if "p \<in> set (?Q (CondQ c))" for c p
  proof -
    have p: "p \<in> set (Q (CondQ c))" using that by simp
    then have "p \<noteq> ?p" using free by (auto simp: in_no_queue_def)
    then show ?thesis using T(5) [OF p] pcbs(1) by simp
  qed
qed

lemma add_task_sysinv:
  fixes s t :: "'d kernel"
  assumes s: "sysinv s Q" and j: "j < NUM_MAX_TASK" "pstatus s (Pcb j) = TASK_EXITED"
    and links: "links t = LIST_REMOVE (Head (WaitQ (Pcb j))) (LIST_ADD_TAIL (Head ReadyQ) (PList (Pcb j)) (links s))"
    and pcbs: "\<And>p. p \<noteq> Pcb j \<Longrightarrow> pcbs t p = pcbs s p" "pstatus t (Pcb j) = TASK_READY" "pid (pcbs t (Pcb j)) = int j"
    and same: "hart t = hart s" "tp t = tp s" "mlocks t = mlocks s"
  shows "sysinv t (Q(ReadyQ := Q ReadyQ @ [Pcb j]))"
proof -
  note S = preschedD [OF sysinvD(1) [OF s]] and run = sysinvD(2) [OF s]
  note T = tasks_okD [OF S(3)] and K = kinvD [OF S(1)]
  let ?p = "Pcb j" and ?Q = "Q(ReadyQ := Q ReadyQ @ [Pcb j])"
  let ?h = "LIST_ADD_TAIL (Head ReadyQ) (PList (Pcb j)) (links s)"
  have c: "current_running t = current_running s" "other t = other s"
    by (simp_all add: current_running_def other_def same)
  have free: "in_no_queue Q ?p" using kinv_running_free [OF S(1)] j(2) by blast
  have q: "queues ?h ?Q" using kq.repr_add_tail [OF K(1), of ?p ReadyQ] free by (simp add: in_no_queue_def)
  have "Q (WaitQ ?p) = []" using T(4) j(2) by blast
  then have "queue ?h (Head (WaitQ ?p)) []" using queuesD(1) [OF q, of "WaitQ ?p"] by simp
  then have lt: "links t = ?h" using self_remove links by simp
  have st: "pstatus t p = (if p = ?p then TASK_READY else pstatus s p)" for p using pcbs by simp
  have pc: "?p \<noteq> current_running s" "?p \<noteq> other s"
    using j(2) run S(5) S(7) [of "other s"] by auto
  have k: "kinv t ?Q" by (rule kinv_add_ready [OF S(1) j(2) lt st])
  have "tasks_ok t ?Q" by (rule tasks_ok_add_ready [OF S(1,3) j pcbs])
  moreover have "linv t ?Q" using S(2) by (simp add: linv_def same)
  ultimately show ?thesis unfolding sysinv_def presched_def using k S(4-7) run pc by (simp add: c same st)
qed

lemma for_each_keep:
  assumes "\<And>i s s'. f i s = Some s' \<Longrightarrow> g s' = g s"
  shows "for_each f is s = Some s' \<Longrightarrow> g s' = g s"
proof (induction "is" arbitrary: s)
  case (Cons i "is")
  then obtain t where t: "f i s = Some t" "for_each f is t = Some s'" by (auto split: bind_splits)
  show ?case using Cons.IH [OF t(2)] assms [OF t(1)] by simp
qed simp

lemma push_args_frame:
  fixes s s' :: "'d kernel"
  assumes "for_each (push_arg argv k) ks (a, b, s) = Some (a', b', s')"
  shows "\<exists>m. s' = s\<lparr>mm := m\<rparr>"
proof -
  define g :: "u64 \<times> u64 \<times> 'd kernel \<Rightarrow> 'd kernel" where "g x = (snd (snd x))\<lparr>mm := mm s\<rparr>" for x
  have "g (a', b', s') = g (a, b, s)"
    using assms
  proof (rule for_each_keep [rotated])
    fix i x x' assume "push_arg argv k i x = Some (x' :: u64 \<times> u64 \<times> 'd kernel)"
    then show "g x' = g x"
      by (cases x; cases x') (auto simp: g_def push_arg_def strcpy_from_user_def Let_def split: bind_splits)
  qed
  then have "s' = s\<lparr>mm := mm s'\<rparr>" by (simp add: g_def) (metis kernel.surjective kernel.update_convs(15))
  then show ?thesis by blast
qed

lemma exec_task_sysinv:
  fixes s s' :: "'d kernel"
  assumes s: "sysinv s Q" and j: "j < NUM_MAX_TASK" "pstatus s (Pcb j) = TASK_EXITED"
    and run: "exec_task B pa tasks argc argv i j s = Some (r, s')"
  shows "\<exists>Q'. sysinv s' Q'"
proof -
  have "\<exists>v f. s' = upd_pcb (Pcb j) f (upd_links (LIST_REMOVE (Head (WaitQ (Pcb j))))
          (upd_pcb (Pcb j) (\<lambda>t. t\<lparr>pid := int j\<rparr>)
            (upd_links (LIST_ADD_TAIL (Head ReadyQ) (PList (Pcb j))) (set_status (Pcb j) TASK_READY v))))
      \<and> (\<forall>t. status (f t) = status t \<and> pid (f t) = pid t)
      \<and> links v = links s \<and> hart v = hart s \<and> tp v = tp s \<and> mlocks v = mlocks s
      \<and> (\<forall>p. p \<noteq> Pcb j \<longrightarrow> pcbs v p = pcbs s p)"
    using run by (clarsimp simp: exec_task_def Let_def split: bind_splits dest!: push_args_frame)
      (intro exI conjI, rule refl, simp_all)
  then obtain v f where s': "s' = upd_pcb (Pcb j) f (upd_links (LIST_REMOVE (Head (WaitQ (Pcb j))))
          (upd_pcb (Pcb j) (\<lambda>t. t\<lparr>pid := int j\<rparr>)
            (upd_links (LIST_ADD_TAIL (Head ReadyQ) (PList (Pcb j))) (set_status (Pcb j) TASK_READY v))))"
    and f: "\<And>t. status (f t) = status t" "\<And>t. pid (f t) = pid t"
    and v: "links v = links s" "hart v = hart s" "tp v = tp s" "mlocks v = mlocks s"
      "\<And>p. p \<noteq> Pcb j \<Longrightarrow> pcbs v p = pcbs s p" by blast
  show ?thesis
    by (rule exI, rule add_task_sysinv [OF s j]) (simp_all add: s' f v)
qed

lemma exec_sysinv:
  fixes s s' :: "'d kernel"
  assumes s: "sysinv s Q" and run: "do_exec B pa tasks name argc argv s = Some (r, s')"
  shows "\<exists>Q'. sysinv s' Q'"
proof -
  have "\<exists>Q'. sysinv s' Q'" if "exec_from B pa tasks name argc argv is s = Some (r, s')" for "is"
    using that
  proof (induction "is")
    case Nil
    then show ?case using s by auto
  next
    case (Cons i "is")
    then show ?case using exec_task_sysinv [OF s]
      by (auto split: bind_splits if_splits option.splits dest: find_from_SomeD)
  qed
  then show ?thesis using run by (simp add: do_exec_def)
qed

lemma thread_create_sysinv:
  fixes s s' :: "'d kernel"
  assumes s: "sysinv s Q" and run: "do_thread_create B pa thread f arg s = Some s'"
  shows "\<exists>Q'. sysinv s' Q'"
proof (cases "find_from (\<lambda>j. pstatus s (Pcb j) = TASK_EXITED) 0 NUM_MAX_TASK")
  case None
  then show ?thesis using run s by (auto simp: do_thread_create_def)
next
  case (Some j)
  have j: "j < NUM_MAX_TASK" "pstatus s (Pcb j) = TASK_EXITED" using find_from_SomeD [OF Some] by auto
  have t: "links s' = LIST_REMOVE (Head (WaitQ (Pcb j))) (LIST_ADD_TAIL (Head ReadyQ) (PList (Pcb j)) (links s))"
      "pstatus s' (Pcb j) = TASK_READY" "pid (pcbs s' (Pcb j)) = int j"
      "\<And>p. p \<noteq> Pcb j \<Longrightarrow> pcbs s' p = pcbs s p" "hart s' = hart s" "tp s' = tp s" "mlocks s' = mlocks s"
    using run Some by (auto simp: do_thread_create_def copy_to_user_def Let_def split: bind_splits if_splits)
  show ?thesis by (rule exI, rule add_task_sysinv [OF s j]) (use t in simp_all)
qed

section \<open>Events\<close>

text \<open>
  What can happen in the kernel: the big lock passes to a hart, the timer fires, or the current
  task makes a system call.
\<close>

datatype event =
    Enter_kernel nat | Timer | Sleep u32
  | Mutex_init int | Mutex_acquire int | Mutex_release int
  | Barrier_init int int | Barrier_wait int
  | Condition_init int | Condition_wait int int | Condition_signal int | Condition_broadcast int
  | Waitpid int | Kill int | Exit
  | Exec u64 int u64 | Thread_create u64 u64 u64

fun perform ::
  "'d bios \<Rightarrow> (pcb_ref \<Rightarrow> u64) \<Rightarrow> (nat \<Rightarrow> task_info_t) \<Rightarrow> (nat \<Rightarrow> u64) \<Rightarrow> event \<Rightarrow> 'd kernel \<Rightarrow> 'd kernel option" where
  "perform B pa tasks rt (Enter_kernel h) s = Some (s\<lparr>hart := h\<rparr>)"
| "perform B pa tasks rt Timer s = do_scheduler rt s"
| "perform B pa tasks rt (Sleep secs) s = do_sleep rt secs s"
| "perform B pa tasks rt (Mutex_init key) s = Some (snd (do_mutex_lock_init key s))"
| "perform B pa tasks rt (Mutex_acquire i) s = do_mutex_lock_acquire rt i s"
| "perform B pa tasks rt (Mutex_release i) s = do_mutex_lock_release i s"
| "perform B pa tasks rt (Barrier_init key goal) s = Some (snd (do_barrier_init key goal s))"
| "perform B pa tasks rt (Barrier_wait i) s = do_barrier_wait rt i s"
| "perform B pa tasks rt (Condition_init key) s = Some (snd (do_condition_init key s))"
| "perform B pa tasks rt (Condition_wait c i) s = do_condition_wait rt c i s"
| "perform B pa tasks rt (Condition_signal c) s = do_condition_signal c s"
| "perform B pa tasks rt (Condition_broadcast c) s = do_condition_broadcast c s"
| "perform B pa tasks rt (Waitpid i) s = map_option snd (do_waitpid rt i s)"
| "perform B pa tasks rt (Kill i) s = map_option snd (do_kill_all i s)"
| "perform B pa tasks rt Exit s = do_exit rt s"
| "perform B pa tasks rt (Exec name argc argv) s = map_option snd (do_exec B pa tasks name argc argv s)"
| "perform B pa tasks rt (Thread_create thread f arg) s = do_thread_create B pa thread f arg s"

text \<open>
  The calls covered: numbers in range; a task that is killed is alive and neither it nor a child
  of it runs on a hart at that moment, except that the caller of \<open>Exit\<close> does.
\<close>

definition no_running_child :: "int \<Rightarrow> 'd kernel \<Rightarrow> bool" where
  "no_running_child p s \<longleftrightarrow> parent_pid (pcbs s (current_running s)) \<noteq> p \<and> parent_pid (pcbs s (other s)) \<noteq> p"

fun allowed :: "event \<Rightarrow> 'd kernel \<Rightarrow> bool" where
  "allowed (Enter_kernel h) s \<longleftrightarrow> h < 2"
| "allowed Timer s \<longleftrightarrow> True"
| "allowed (Mutex_acquire i) s \<longleftrightarrow> user_running s \<and> 0 \<le> i \<and> i < int LOCK_NUM"
| "allowed (Mutex_release i) s \<longleftrightarrow> user_running s \<and> 0 \<le> i \<and> i < int LOCK_NUM"
| "allowed (Barrier_wait i) s \<longleftrightarrow> user_running s \<and> 0 \<le> i \<and> i < int BARRIER_NUM"
| "allowed (Condition_wait c i) s \<longleftrightarrow>
     user_running s \<and> 0 \<le> c \<and> c < int CONDITION_NUM \<and> 0 \<le> i \<and> i < int LOCK_NUM"
| "allowed (Condition_signal c) s \<longleftrightarrow> user_running s \<and> 0 \<le> c \<and> c < int CONDITION_NUM"
| "allowed (Condition_broadcast c) s \<longleftrightarrow> user_running s \<and> 0 \<le> c \<and> c < int CONDITION_NUM"
| "allowed (Waitpid i) s \<longleftrightarrow> user_running s \<and> 0 \<le> i \<and> i < int NUM_MAX_TASK"
| "allowed (Kill i) s \<longleftrightarrow> user_running s \<and> 0 \<le> i \<and> i < int NUM_MAX_TASK
     \<and> pstatus s (Pcb (nat i)) \<noteq> TASK_EXITED \<and> Pcb (nat i) \<noteq> current_running s \<and> Pcb (nat i) \<noteq> other s
     \<and> no_running_child i s \<and> parent_pid (pcbs s (Pcb (nat i))) \<noteq> i"
| "allowed Exit s \<longleftrightarrow> user_running s \<and> no_running_child (pid (pcbs s (current_running s))) s"
| "allowed e s \<longleftrightarrow> user_running s"

text \<open>The calls that allocate memory are undefined when there is none to have.\<close>

definition allocates :: "event \<Rightarrow> bool" where
  "allocates e = (case e of Exec name argc argv \<Rightarrow> True | Thread_create t f a \<Rightarrow> True | _ \<Rightarrow> False)"

lemma enter_sysinv:
  assumes s: "sysinv s Q" and h: "h < 2"
  shows "sysinv (s\<lparr>hart := h\<rparr>) Q"
proof (cases "h = hart s")
  case False
  note S = preschedD [OF sysinvD(1) [OF s]] and run = sysinvD(2) [OF s]
  let ?t = "s\<lparr>hart := h\<rparr>"
  have h': "h = 1 - hart s" "hart s = 1 - h" using False h S(4) by linarith+
  have c: "current_running ?t = other s" "other ?t = current_running s"
    using h' by (simp_all add: current_running_def other_def)
  have "kinv ?t Q" by (rule kinv_change [OF S(1)]) simp_all
  moreover have "linv ?t Q" "tasks_ok ?t Q" using S(2,3) by (simp_all add: linv_def tasks_ok_def)
  moreover have "pstatus s (other s) = TASK_RUNNING" using S(5,7) by blast
  moreover have "\<forall>p. p \<noteq> other s \<longrightarrow> (pstatus s p = TASK_RUNNING \<longleftrightarrow> p = current_running s)"
    using S(7) run by blast
  ultimately show ?thesis unfolding sysinv_def presched_def using h S(5) by (simp add: c)
qed (use s in simp)

lemma perform_result:
  assumes s: "sysinv s Q" and e: "allowed e s"
  shows "(\<exists>s' Q'. perform B pa tasks rt e s = Some s' \<and> sysinv s' Q')
    \<or> allocates e \<and> perform B pa tasks rt e s = None"
proof (cases e)
  case (Kill i)
  then obtain n where n: "i = int n" "n < NUM_MAX_TASK" using e by (auto elim: nonneg_int_cases)
  then show ?thesis using kill_all_presched [OF s n(2)] e Kill by (auto simp: no_running_child_def)
next
  case Exit
  then obtain i where i: "current_running s = Pcb i" using e by (auto simp: user_running_def)
  have "valid_pcb (Pcb i)" using tasks_okD(1) [OF preschedD(3) [OF sysinvD(1) [OF s]]] sysinvD(2) [OF s] i by fastforce
  then have "pid (pcbs s (Pcb i)) = int i" using tasks_okD(2) [OF preschedD(3) [OF sysinvD(1) [OF s]]] by simp
  then show ?thesis using exit_sysinv [OF s i, of rt] e Exit i by (auto simp: no_running_child_def)
next
  case (Mutex_acquire i)
  then show ?thesis using acquire_sysinv [OF s, of "nat i" rt] e by (auto simp: nat_less_iff)
next
  case (Mutex_release i)
  then show ?thesis using release_sysinv [OF s, of "nat i"] e by (auto simp: nat_less_iff)
next
  case (Barrier_wait i)
  then show ?thesis using barrier_wait_sysinv [OF s, of "nat i" rt] e by (auto simp: nat_less_iff)
next
  case (Condition_wait c i)
  then show ?thesis using condition_wait_sysinv [OF s, of "nat c" "nat i" rt] e by (auto simp: nat_less_iff)
next
  case (Condition_signal c)
  then show ?thesis using condition_signal_sysinv [OF s, of "nat c"] e by (auto simp: nat_less_iff)
next
  case (Condition_broadcast c)
  then show ?thesis using condition_broadcast_sysinv [OF s, of "nat c"] e by (auto simp: nat_less_iff)
next
  case (Waitpid i)
  then show ?thesis using waitpid_sysinv [OF s, of "nat i" rt] e by (auto simp: nat_less_iff)
next
  case (Exec name argc argv)
  then show ?thesis using exec_sysinv [OF s]
    by (cases "do_exec B pa tasks name argc argv s") (auto simp: allocates_def)
next
  case (Thread_create thread f arg)
  then show ?thesis using thread_create_sysinv [OF s]
    by (cases "do_thread_create B pa thread f arg s") (auto simp: allocates_def)
next
  case (Enter_kernel h)
  then show ?thesis using enter_sysinv [OF s] e by (auto simp: nat_less_iff)
next
  case (Sleep secs)
  then show ?thesis using sleep_sysinv [OF s, of rt secs] e by (auto simp: nat_less_iff)
next
  case Timer
  then show ?thesis using timer_sysinv [OF s, of rt] by auto
next
  case (Mutex_init key)
  then show ?thesis using mutex_init_sysinv [OF s] by auto
next
  case (Barrier_init key goal)
  then show ?thesis using barrier_init_sysinv [OF s] by auto
next
  case (Condition_init key)
  then show ?thesis using condition_init_sysinv [OF s] by auto
qed

end
