(* ===== verification/SysBoot.thy ===== *)
theory SysBoot
  imports SysOps
begin

text \<open>
  From \<open>main\<close> to the running system: the initialisation establishes the invariant of theory
  System, every event keeps it, and the timer serves the ready queue in order.

  References that name no control block, lock or mailbox do not exist in the program; the
  statements take their statuses to be EXITED and their list heads to be empty (\<open>fresh\<close>).
\<close>

section \<open>The state before \<open>main\<close>\<close>

text \<open>The list heads that \<open>main\<close> does not initialise: those with an initialiser in their
  declaration and those that do not exist.\<close>

definition preset :: "head \<Rightarrow> bool" where
  "preset q \<longleftrightarrow> (case q of MutexQ i \<Rightarrow> LOCK_NUM \<le> i | BarrierQ i \<Rightarrow> BARRIER_NUM \<le> i
     | CondQ i \<Rightarrow> CONDITION_NUM \<le> i | MboxQ i \<Rightarrow> MBOX_NUM \<le> i | WaitQ p \<Rightarrow> \<not> valid_pcb p | _ \<Rightarrow> True)"

definition fresh :: "'d kernel \<Rightarrow> bool" where
  "fresh s \<longleftrightarrow> hart s = 0 \<and> (\<forall>q. preset q \<longrightarrow> self_linked (links s) (Head q))
     \<and> (\<forall>p. \<not> valid_pcb p \<longrightarrow> pstatus s p = TASK_EXITED)"

section \<open>Initialisation\<close>

lemma refresh_self [simp]: "self_linked (NODE_REFRESH n h) n"
  by (simp add: self_linked_def NODE_REFRESH_def)

lemma refresh_keeps: "self_linked h x \<Longrightarrow> self_linked (NODE_REFRESH n h) x"
  by (cases "x = n") (auto simp: self_linked_def NODE_REFRESH_def)

lemma links_init_head [simp]: "links (init_head q s) = NODE_REFRESH (Head q) (links s)"
  by (simp add: init_head_def NODE_REFRESH_def)

lemma init_head_simps [simp]:
  "pcbs (init_head q s) = pcbs s" "hart (init_head q s) = hart s" "tp (init_head q s) = tp s"
  "mlocks (init_head q s) = mlocks s"
  by (simp_all add: init_head_def)

text \<open>An initialiser leaves tasks alone, but for what the invariant does not see of them, and only links list
  nodes to themselves.\<close>

definition boots :: "'d kernel \<Rightarrow> 'd kernel \<Rightarrow> bool" where
  "boots s t \<longleftrightarrow> (\<forall>p. pstatus t p = pstatus s p \<and> pid (pcbs t p) = pid (pcbs s p)) \<and> hart t = hart s \<and> tp t = tp s
     \<and> (\<forall>x. self_linked (links s) x \<longrightarrow> self_linked (links t) x)"

lemma boots_refl [simp]: "boots s s"
  by (simp add: boots_def)

lemma boots_trans: "boots s t \<Longrightarrow> boots t u \<Longrightarrow> boots s u"
  by (simp add: boots_def)

lemma init_locks_boots:
  assumes "init_locks s = Some t"
  shows "boots s t \<and> (\<forall>i < LOCK_NUM. self_linked (links t) (Head (MutexQ i)) \<and> m_status (mlocks t i) = UNLOCKED)"
proof (rule for_each_upt_Some [OF assms [unfolded init_locks_def], where P = "\<lambda>n t. boots s t
    \<and> (\<forall>i < n. self_linked (links t) (Head (MutexQ i)) \<and> m_status (mlocks t i) = UNLOCKED)"])
qed (auto simp: boots_def refresh_keeps less_Suc_eq)

lemma init_barriers_boots:
  assumes "init_barriers s = Some t"
  shows "boots s t \<and> mlocks t = mlocks s \<and> (\<forall>i < BARRIER_NUM. self_linked (links t) (Head (BarrierQ i)))"
proof (rule for_each_upt_Some [OF assms [unfolded init_barriers_def], where P = "\<lambda>n t. boots s t
    \<and> mlocks t = mlocks s \<and> (\<forall>i < n. self_linked (links t) (Head (BarrierQ i)))"])
qed (auto simp: boots_def refresh_keeps less_Suc_eq)

lemma init_conditions_boots:
  assumes "init_conditions s = Some t"
  shows "boots s t \<and> mlocks t = mlocks s \<and> (\<forall>i < CONDITION_NUM. self_linked (links t) (Head (CondQ i)))"
proof (rule for_each_upt_Some [OF assms [unfolded init_conditions_def], where P = "\<lambda>n t. boots s t
    \<and> mlocks t = mlocks s \<and> (\<forall>i < n. self_linked (links t) (Head (CondQ i)))"])
qed (auto simp: boots_def refresh_keeps less_Suc_eq upd_condition_def)

lemma init_mbox_boots:
  assumes "init_mbox s = Some t"
  shows "boots s t \<and> mlocks t = mlocks s \<and> (\<forall>i < MBOX_NUM. self_linked (links t) (Head (MboxQ i)))"
proof (rule for_each_upt_Some [OF assms [unfolded init_mbox_def], where P = "\<lambda>n t. boots s t
    \<and> mlocks t = mlocks s \<and> (\<forall>i < n. self_linked (links t) (Head (MboxQ i)))"])
qed (auto simp: boots_def refresh_keeps less_Suc_eq upd_mbox_def split: bind_splits)

lemma init_pid0_result:
  assumes "init_pid0 B k s = Some t"
  shows "links t = NODE_REFRESH (Head (WaitQ (Pid0 k))) (NODE_REFRESH (PList (Pid0 k)) (links s))"
    and "hart t = hart s" "tp t = tp s" "p \<noteq> Pid0 k \<Longrightarrow> pcbs t p = pcbs s p" "pstatus t (Pid0 k) = TASK_RUNNING"
  using assms by (auto simp: init_pid0_def Let_def split: bind_splits)

lemma init_task_pcbs_result:
  fixes s :: "'d kernel"
  assumes "for_each init_task_pcb [0..<n] s = Some t"
  shows "(\<forall>x. self_linked (links s) x \<longrightarrow> self_linked (links t) x)
    \<and> (\<forall>i < n. self_linked (links t) (PList (Pcb i)) \<and> self_linked (links t) (Head (WaitQ (Pcb i)))
          \<and> pstatus t (Pcb i) = TASK_EXITED \<and> pid (pcbs t (Pcb i)) = int i)
    \<and> (\<forall>p. (\<forall>i < n. p \<noteq> Pcb i) \<longrightarrow> pcbs t p = pcbs s p) \<and> hart t = hart s \<and> tp t = tp s"
proof (rule for_each_upt_Some [OF assms, where P = "\<lambda>n t.
      (\<forall>x. self_linked (links s) x \<longrightarrow> self_linked (links t) x)
    \<and> (\<forall>i < n. self_linked (links t) (PList (Pcb i)) \<and> self_linked (links t) (Head (WaitQ (Pcb i)))
          \<and> pstatus t (Pcb i) = TASK_EXITED \<and> pid (pcbs t (Pcb i)) = int i)
    \<and> (\<forall>p. (\<forall>i < n. p \<noteq> Pcb i) \<longrightarrow> pcbs t p = pcbs s p) \<and> hart t = hart s \<and> tp t = tp s"])
qed (auto simp: init_task_pcb_def Let_def refresh_keeps less_Suc_eq)

lemma two_cases: "k < 2 \<longleftrightarrow> k = 0 \<or> k = (1 :: nat)"
  by auto

lemma init_pcb_result:
  fixes s t :: "'d kernel"
  assumes "init_pcb B s = Some t" "hart s = 0"
  shows "(\<forall>x. self_linked (links s) x \<longrightarrow> self_linked (links t) x)
    \<and> (\<forall>p. valid_pcb p \<longrightarrow> self_linked (links t) (PList p) \<and> self_linked (links t) (Head (WaitQ p)))
    \<and> (\<forall>i < NUM_MAX_TASK. pstatus t (Pcb i) = TASK_EXITED \<and> pid (pcbs t (Pcb i)) = int i)
    \<and> (\<forall>k < 2. pstatus t (Pid0 k) = TASK_RUNNING)
    \<and> (\<forall>p. \<not> valid_pcb p \<longrightarrow> pcbs t p = pcbs s p) \<and> hart t = 0 \<and> tp t 0 = Pid0 0"
proof -
  obtain a b c where r: "init_pid0 B 0 s = Some a" "init_pid0 B 1 a = Some b"
    "for_each init_task_pcb [0..<NUM_MAX_TASK] b = Some c" "t = set_current (Pid0 0) c"
    using assms(1) by (auto simp: init_pcb_def split: bind_splits)
  note A = init_pid0_result [OF r(1)] and B = init_pid0_result [OF r(2)] and C = init_task_pcbs_result [OF r(3)]
  have keep: "self_linked (links b) x" if "self_linked (links s) x" for x
    by (simp add: A(1) B(1) refresh_keeps that)
  have nodes: "self_linked (links t) (PList p) \<and> self_linked (links t) (Head (WaitQ p))" if "valid_pcb p" for p
  proof (cases p)
    case (Pcb i)
    then show ?thesis using C that by (simp add: r(4))
  next
    case (Pid0 k)
    then have "self_linked (links b) (PList p) \<and> self_linked (links b) (Head (WaitQ p))"
      using that by (auto simp: A(1) B(1) refresh_keeps two_cases)
    then show ?thesis using C by (simp add: r(4))
  qed
  have st: "pstatus t (Pid0 k) = TASK_RUNNING" if "k < 2" for k
  proof -
    have "pstatus b (Pid0 k) = TASK_RUNNING" using that A(5) B(4,5) by (auto simp: two_cases)
    then show ?thesis using C by (simp add: r(4))
  qed
  have inv: "pcbs t p = pcbs s p" if "\<not> valid_pcb p" for p
  proof -
    have "p \<noteq> Pid0 0" "p \<noteq> Pid0 1" "\<forall>i < NUM_MAX_TASK. p \<noteq> Pcb i" using that by auto
    then show ?thesis using A(4) B(4) C by (simp add: r(4))
  qed
  have "hart t = 0" "tp t 0 = Pid0 0" using A(2) B(2) C assms(2) by (simp_all add: r(4))
  then show ?thesis using keep nodes st inv C by (simp add: r(4))
qed

section \<open>The initial state is in order\<close>

text \<open>Hart 0 before hart 1 has started.\<close>

definition booted :: "'d kernel \<Rightarrow> (head \<Rightarrow> pcb_ref list) \<Rightarrow> bool" where
  "booted s Q \<longleftrightarrow> kinv s Q \<and> linv s Q \<and> tasks_ok s Q \<and> hart s = 0 \<and> tp s 0 = Pid0 0
     \<and> (\<forall>p. pstatus s p = TASK_RUNNING \<longleftrightarrow> p = Pid0 0 \<or> p = Pid0 1)"

lemma booted_sysinv:
  assumes "booted s Q"
  shows "sysinv (main_hart1 s) Q"
proof -
  have B: "kinv s Q" "linv s Q" "tasks_ok s Q" "hart s = 0" "tp s 0 = Pid0 0"
    and run: "\<And>p. pstatus s p = TASK_RUNNING \<longleftrightarrow> p = Pid0 0 \<or> p = Pid0 1"
    using assms unfolding booted_def by blast+
  let ?t = "main_hart1 s"
  have f: "links ?t = links s" "pcbs ?t = pcbs s" "mlocks ?t = mlocks s" "hart ?t = 1"
    "current_running ?t = Pid0 1" "other ?t = Pid0 0"
    using B by (simp_all add: main_hart1_def other_def)
  have "kinv ?t Q" by (rule kinv_change [of _ s]) (use B in \<open>simp_all add: f\<close>)
  moreover have "linv ?t Q = linv s Q" "tasks_ok ?t Q = tasks_ok s Q" by (simp_all add: linv_def tasks_ok_def f)
  moreover have "\<forall>p. p \<noteq> Pid0 1 \<longrightarrow> (pstatus s p = TASK_RUNNING \<longleftrightarrow> p = Pid0 0)" using run by blast
  moreover have "pstatus s (Pid0 1) = TASK_RUNNING" using run by blast
  ultimately show ?thesis unfolding sysinv_def presched_def f using B(2,3) by simp
qed

text \<open>The parts of the initialisation, with anything between them that only concerns memory, devices or
  the screen.\<close>

lemma init_booted:
  fixes s t :: "'d kernel"
  assumes r: "init_pcb B s = Some a" "boots a a'" "init_locks a' = Some b" "boots b b'" "mlocks b' = mlocks b"
      "init_barriers b' = Some c" "init_conditions c = Some d" "init_mbox d = Some t"
    and fresh: "fresh s"
  shows "booted t (\<lambda>_. []) \<and> pstatus t (Pcb 0) = TASK_EXITED"
proof -
  have h: "hart s = 0" using fresh by (simp add: fresh_def)
  note A = init_pcb_result [OF r(1) h] and B = init_locks_boots [OF r(3)] and C = init_barriers_boots [OF r(6)]
    and D = init_conditions_boots [OF r(7)] and E = init_mbox_boots [OF r(8)]
  have bt: "boots b t" "boots c t" "boots d t" using boots_trans r(4) C D E by metis+
  have at: "boots a t" using boots_trans r(2) B bt(1) by metis
  have keep: "self_linked (links t) x" if "self_linked (links s) x" for x
    using that A at by (simp add: boots_def)
  have heads: "self_linked (links t) (Head q)" for q
  proof (cases "preset q")
    case True
    then show ?thesis using fresh keep by (simp add: fresh_def)
  next
    case False
    then show ?thesis
      using A at B C D E bt by (auto simp: preset_def boots_def split: head.splits)
  qed
  have same: "pstatus t p = pstatus a p" "pid (pcbs t p) = pid (pcbs a p)" "hart t = 0" "tp t 0 = Pid0 0" for p
    using A at by (simp_all add: boots_def)
  have st: "pstatus t p = (if p = Pid0 0 \<or> p = Pid0 1 then TASK_RUNNING else TASK_EXITED)" for p
    using A fresh by (cases p; cases "valid_pcb p") (auto simp: same fresh_def two_cases)
  have pids: "pid (pcbs t (Pcb i)) = int i" if "i < NUM_MAX_TASK" for i using A that by (simp add: same)
  have locks: "m_status (mlocks t i) = UNLOCKED" if "i < LOCK_NUM" for i using B C D E r(5) that by simp
  have "queues (links t) (\<lambda>_. [])" using heads by (simp add: queues_def queue_def self_linked_def)
  moreover have "detached (links t) (Pid0 k)" if "k < 2" for k
    using A at that by (simp add: detached_def boots_def)
  ultimately have k: "kinv t (\<lambda>_. [])" by (auto simp: kinv_on_def st split: if_splits)
  have "tasks_ok t (\<lambda>_. [])"
    unfolding tasks_ok_def st using pids by (auto simp: two_cases)
  then show ?thesis unfolding booted_def linv_def st using k locks same(3,4) by simp
qed

lemma main_init_booted:
  fixes s t :: "'d kernel"
  assumes run: "main_init B freq s = Some t" and fresh: "fresh s"
  shows "booted t (\<lambda>_. []) \<and> pstatus t (Pcb 0) = TASK_EXITED"
proof -
  obtain a b c d where r: "init_pcb B s = Some a" "init_locks (a\<lparr>time_base := freq\<rparr>) = Some b"
    "init_barriers b = Some c" "init_conditions c = Some d" "init_mbox d = Some t"
    using run by (auto simp: main_init_def split: bind_splits)
  show ?thesis by (rule init_booted [OF r(1) _ r(2) boots_refl refl r(3-5) fresh]) (simp add: boots_def)
qed

section \<open>The first task\<close>

definition named_shell :: "(nat \<Rightarrow> task_info_t) \<Rightarrow> nat \<Rightarrow> bool" where
  "named_shell ts i \<longleftrightarrow> strcmp (str (ascii ''shell'')) 0 (ti_name (ts i)) 0 = Some 0"

lemma start_shell_booted:
  fixes s t :: "'d kernel"
  assumes s: "booted s Q" "pstatus s (Pcb 0) = TASK_EXITED" and i: "named_shell ts i"
    and run: "start_shell B pa ts i s = Some t"
  shows "booted t (Q(ReadyQ := Q ReadyQ @ [Pcb 0]))"
proof -
  have S: "kinv s Q" "linv s Q" "tasks_ok s Q" "hart s = 0" "tp s 0 = Pid0 0"
    and running: "\<And>p. pstatus s p = TASK_RUNNING \<longleftrightarrow> p = Pid0 0 \<or> p = Pid0 1"
    using s(1) unfolding booted_def by blast+
  have z: "0 < NUM_MAX_TASK" by (simp add: NUM_MAX_TASK_def)
  have pid0: "pid (pcbs s (Pcb 0)) = int 0" using tasks_okD(2) [OF S(3) z] by simp
  have t: "links t = LIST_ADD_TAIL (Head ReadyQ) (PList (Pcb 0)) (links s)" "pstatus t (Pcb 0) = TASK_READY"
    "pid (pcbs t (Pcb 0)) = int 0" "\<And>p. p \<noteq> Pcb 0 \<Longrightarrow> pcbs t p = pcbs s p"
    "hart t = hart s" "tp t = tp s" "mlocks t = mlocks s"
    using run i pid0 by (auto simp: start_shell_def named_shell_def init_pcb_stack_def Let_def split: bind_splits)
  have st: "pstatus t p = (if p = Pcb 0 then TASK_READY else pstatus s p)" for p using t(2,4) by simp
  have "kinv t (Q(ReadyQ := Q ReadyQ @ [Pcb 0]))" by (rule kinv_add_ready [OF S(1) s(2) t(1) st])
  moreover have "tasks_ok t (Q(ReadyQ := Q ReadyQ @ [Pcb 0]))"
    by (rule tasks_ok_add_ready [OF S(1,3) z s(2) t(4,2,3)])
  moreover have "linv t (Q(ReadyQ := Q ReadyQ @ [Pcb 0]))" using S(2) by (simp add: linv_def t(7))
  ultimately show ?thesis unfolding booted_def using S(4,5) running by (simp add: st t(5,6))
qed

lemma test_shell_booted:
  fixes s t :: "'d kernel"
  assumes s: "booted s Q" "pstatus s (Pcb 0) = TASK_EXITED"
    and one: "\<forall>i < nat num. \<forall>j < nat num. named_shell ts i \<longrightarrow> named_shell ts j \<longrightarrow> i = j"
    and run: "test_shell B pa ts num s = Some t"
  shows "\<exists>Q'. booted t Q'"
proof -
  have "(\<exists>Q'. booted t Q') \<and> (pstatus t (Pcb 0) = TASK_EXITED \<or> (\<exists>i < nat num. named_shell ts i))"
  proof (rule for_each_upt_Some [OF run [unfolded test_shell_def], where
        P = "\<lambda>n t. (\<exists>Q'. booted t Q') \<and> (pstatus t (Pcb 0) = TASK_EXITED \<or> (\<exists>i < n. named_shell ts i))"])
    show "(\<exists>Q'. booted s Q') \<and> (pstatus s (Pcb 0) = TASK_EXITED \<or> (\<exists>i < 0. named_shell ts i))" using s by blast
  next
    fix i u v assume i: "i < nat num" and P: "(\<exists>Q'. booted u Q') \<and> (pstatus u (Pcb 0) = TASK_EXITED \<or> (\<exists>j < i. named_shell ts j))"
      and v: "start_shell B pa ts i u = Some v"
    show "(\<exists>Q'. booted v Q') \<and> (pstatus v (Pcb 0) = TASK_EXITED \<or> (\<exists>j < Suc i. named_shell ts j))"
    proof (cases "named_shell ts i")
      case True
      then have "\<not> (\<exists>j < i. named_shell ts j)" using one i by (metis less_trans nat_neq_iff)
      then show ?thesis using P start_shell_booted [OF _ _ True v] True by blast
    next
      case False
      then have "v = u" using v by (auto simp: start_shell_def named_shell_def split: bind_splits if_splits)
      then show ?thesis using P less_SucI by blast
    qed
  qed
  then show ?thesis by blast
qed

lemma booted_mm: "booted s Q \<Longrightarrow> booted (s\<lparr>mm := m\<rparr>) Q"
proof -
  assume b: "booted s Q"
  let ?t = "s\<lparr>mm := m\<rparr>"
  have "kinv s Q" using b by (simp add: booted_def)
  then have "kinv ?t Q" by (rule kinv_change) simp_all
  moreover have "linv ?t Q = linv s Q" "tasks_ok ?t Q = tasks_ok s Q" by (simp_all add: linv_def tasks_ok_def)
  ultimately show ?thesis using b by (simp add: booted_def)
qed

lemma main_hart0_booted:
  fixes s t :: "'d kernel"
  assumes run: "main_hart0 B pa freq tasks s = Some t" and fresh: "fresh s"
    and info: "init_task_info B tasks (init_mm (mm s)) = Some (num, ts, m)"
    and one: "\<forall>i < nat num. \<forall>j < nat num. named_shell ts i \<longrightarrow> named_shell ts j \<longrightarrow> i = j"
  shows "\<exists>Q. booted t Q"
proof -
  obtain a b c where r: "main_init B freq (s\<lparr>mm := m\<rparr>) = Some a" "test_shell B pa ts num a = Some b"
    "t = b\<lparr>mm := c\<rparr>"
    using run info by (auto simp: main_hart0_def split: bind_splits)
  have "fresh (s\<lparr>mm := m\<rparr>)" using fresh by (simp add: fresh_def)
  then have "booted a (\<lambda>_. [])" "pstatus a (Pcb 0) = TASK_EXITED" using main_init_booted [OF r(1)] by simp_all
  then obtain Q where "booted b Q" using test_shell_booted [OF _ _ one r(2)] by blast
  then show ?thesis unfolding r(3) using booted_mm by blast
qed

section \<open>Reachable states\<close>

inductive reachable ::
  "'d bios \<Rightarrow> (pcb_ref \<Rightarrow> u64) \<Rightarrow> (nat \<Rightarrow> task_info_t) \<Rightarrow> (nat \<Rightarrow> u64) \<Rightarrow> 'd kernel \<Rightarrow> 'd kernel \<Rightarrow> bool"
  for B pa tasks rt s0 where
  start: "reachable B pa tasks rt s0 s0"
| event: "reachable B pa tasks rt s0 s \<Longrightarrow> allowed e s \<Longrightarrow> perform B pa tasks rt e s = Some s' \<Longrightarrow>
    reachable B pa tasks rt s0 s'"

lemma reachable_sysinv:
  assumes "reachable B pa tasks rt s0 s" "\<exists>Q. sysinv s0 Q"
  shows "\<exists>Q. sysinv s Q"
  using assms
proof (induction rule: reachable.induct)
  case (event s e s')
  then obtain Q where "sysinv s Q" by blast
  from perform_result [OF this event.hyps(2), of B pa tasks rt] show ?case using event.hyps(3) by auto
qed simp

section \<open>Round robin\<close>

text \<open>Timer interrupts on the harts \<open>hs\<close>, one after the other.\<close>

fun timer_ticks :: "(nat \<Rightarrow> u64) \<Rightarrow> nat list \<Rightarrow> 'd kernel \<Rightarrow> 'd kernel option" where
  "timer_ticks rt [] s = Some s"
| "timer_ticks rt (h # hs) s = do { s' \<leftarrow> do_scheduler rt (s\<lparr>hart := h\<rparr>); timer_ticks rt hs s' }"

lemma timer_ticks_reach:
  fixes s :: "'d kernel"
  assumes "sysinv s Q" "\<forall>h \<in> set hs. h < 2" "Q ReadyQ = xs @ p # ys" "length hs = Suc (length xs)"
  shows "\<exists>s' Q'. timer_ticks rt hs s = Some s' \<and> sysinv s' Q' \<and> current_running s' = p"
  using assms
proof (induction xs arbitrary: s Q hs ys)
  case Nil
  then obtain h where h: "hs = [h]" "h < 2" by (auto simp: length_Suc_conv)
  note s' = do_scheduler_sysinv [OF sysinvD(1) [OF enter_sysinv [OF Nil.prems(1) h(2)]], of rt]
  have "sched_next rt (s\<lparr>hart := h\<rparr>) Q = p" by (rule sched_next_hd) (use Nil in simp)
  then show ?case using s' h(1) by auto
next
  case (Cons x xs)
  then obtain h hs' where h: "hs = h # hs'" "h < 2" "length hs' = Suc (length xs)" "\<forall>h \<in> set hs'. h < 2"
    by (cases hs) auto
  let ?s = "s\<lparr>hart := h\<rparr>"
  obtain t where t: "do_scheduler rt ?s = Some t" "sysinv t (sched_queues rt ?s Q)"
    using do_scheduler_sysinv [OF sysinvD(1) [OF enter_sysinv [OF Cons.prems(1) h(2)]], of rt] by blast
  have "sched_queues rt ?s Q ReadyQ = xs @ p # (ys @ fst (sleepers_of rt ?s (Q SleepQ)) @ requeue ?s)"
    using Cons.prems(3) by (simp add: sched_queues_def sched_slept_def sleep_step_def)
  from Cons.IH [OF t(2) h(4) this h(3)] show ?case using t(1) h(1) by simp
qed

end
