(* ===== verification/Smp.thy ===== *)
theory Smp
  imports Prelude
begin

text \<open>
  The lock of the kernel, \<open>kernel/smp/smp.c\<close>, and the atomic operations of
  \<open>arch/riscv/include/atomic.h\<close> it is made of. A hart that traps spins in \<open>lock_kernel\<close>, runs its
  handler and leaves through \<open>unlock_kernel\<close>; the harts run one step at a time in any order. The
  handlers themselves are a parameter, \<open>exec\<close>: a step takes what the hart has in its registers
  and on its stack, and the kernel state, and gives both back; no local state means that the
  handler has returned.

  The invariant says that the lock word is set exactly while a hart is inside, and that the kernel
  state is what the handlers would have made of it one after the other. So the other theories may
  treat the way of a hart through the kernel as a single step.
\<close>

section \<open>Atomic operations\<close>

text \<open>The old contents and the new ones.\<close>

definition atomic_swap :: "u32 \<Rightarrow> u32 \<Rightarrow> u32 \<times> u32" where
  "atomic_swap val m = (m, val)"

definition atomic_swap_d :: "u64 \<Rightarrow> u64 \<Rightarrow> u64 \<times> u64" where
  "atomic_swap_d val m = (m, val)"

definition atomic_cmpxchg :: "u32 \<Rightarrow> u32 \<Rightarrow> u32 \<Rightarrow> u32 \<times> u32" where
  "atomic_cmpxchg old_val new_val m = (m, if m = old_val then new_val else m)"

definition atomic_cmpxchg_d :: "u64 \<Rightarrow> u64 \<Rightarrow> u64 \<Rightarrow> u64 \<times> u64" where
  "atomic_cmpxchg_d old_val new_val m = (m, if m = old_val then new_val else m)"

section \<open>The lock\<close>

definition NR_CPUS :: nat where "NR_CPUS = 2"

datatype 'l phase = Outside | Spinning 'l | Inside "'l option"

record ('l, 'k) smp =
  locked :: u32
  harts :: "nat \<Rightarrow> 'l phase"
  shared :: 'k

definition smp_initial :: "('l, 'k) smp \<Rightarrow> bool" where
  "smp_initial s \<longleftrightarrow> locked s = 0 \<and> (\<forall>h. harts s h = Outside)"

definition set_hart :: "nat \<Rightarrow> 'l phase \<Rightarrow> ('l, 'k) smp \<Rightarrow> ('l, 'k) smp" where
  "set_hart h p s = s\<lparr>harts := (harts s)(h := p)\<rparr>"

text \<open>One turn of the loop of \<open>lock_kernel\<close>, for a hart that is to run \<open>l\<close>.\<close>

definition lock_kernel :: "nat \<Rightarrow> 'l \<Rightarrow> ('l, 'k) smp \<Rightarrow> ('l, 'k) smp" where
  "lock_kernel h l s =
     (let (old, m) = atomic_swap 1 (locked s)
      in set_hart h (if old \<noteq> 0 then Spinning l else Inside (Some l)) (s\<lparr>locked := m\<rparr>))"

definition unlock_kernel :: "nat \<Rightarrow> ('l, 'k) smp \<Rightarrow> ('l, 'k) smp" where
  "unlock_kernel h s = (let (old, m) = atomic_swap 0 (locked s) in set_hart h Outside (s\<lparr>locked := m\<rparr>))"

definition handler_step :: "('l \<Rightarrow> 'k \<Rightarrow> 'l option \<times> 'k) \<Rightarrow> nat \<Rightarrow> 'l \<Rightarrow> ('l, 'k) smp \<Rightarrow> ('l, 'k) smp" where
  "handler_step exec h l s = (let (l', k') = exec l (shared s) in set_hart h (Inside l') (s\<lparr>shared := k'\<rparr>))"

text \<open>Runs of the harts, with the handlers in the order in which they got the lock.\<close>

inductive smp_run :: "('l \<Rightarrow> 'k \<Rightarrow> 'l option \<times> 'k) \<Rightarrow> ('l, 'k) smp \<Rightarrow> 'l list \<Rightarrow> ('l, 'k) smp \<Rightarrow> bool"
  for exec s0 where
  start: "smp_run exec s0 [] s0"
| trap: "smp_run exec s0 ls s \<Longrightarrow> h < NR_CPUS \<Longrightarrow> harts s h = Outside \<Longrightarrow> smp_run exec s0 ls (set_hart h (Spinning l) s)"
| acquire: "smp_run exec s0 ls s \<Longrightarrow> harts s h = Spinning l
    \<Longrightarrow> smp_run exec s0 (if locked s = 0 then ls @ [l] else ls) (lock_kernel h l s)"
| work: "smp_run exec s0 ls s \<Longrightarrow> harts s h = Inside (Some l) \<Longrightarrow> smp_run exec s0 ls (handler_step exec h l s)"
| leave: "smp_run exec s0 ls s \<Longrightarrow> harts s h = Inside None \<Longrightarrow> smp_run exec s0 ls (unlock_kernel h s)"

section \<open>One after the other\<close>

text \<open>The steps of a single handler, and handlers that run one after the other.\<close>

inductive handler_steps :: "('l \<Rightarrow> 'k \<Rightarrow> 'l option \<times> 'k) \<Rightarrow> 'l option \<Rightarrow> 'k \<Rightarrow> 'l option \<Rightarrow> 'k \<Rightarrow> bool"
  for exec l0 k0 where
  none: "handler_steps exec l0 k0 l0 k0"
| more: "handler_steps exec l0 k0 (Some l) k \<Longrightarrow> exec l k = (l', k') \<Longrightarrow> handler_steps exec l0 k0 l' k'"

inductive serial :: "('l \<Rightarrow> 'k \<Rightarrow> 'l option \<times> 'k) \<Rightarrow> 'k \<Rightarrow> 'l list \<Rightarrow> 'k \<Rightarrow> bool" for exec k0 where
  "serial exec k0 [] k0"
| "serial exec k0 ls k \<Longrightarrow> handler_steps exec (Some l) k None k' \<Longrightarrow> serial exec k0 (ls @ [l]) k'"

definition inside :: "('l, 'k) smp \<Rightarrow> nat \<Rightarrow> bool" where
  "inside s h \<longleftrightarrow> (\<exists>l. harts s h = Inside l)"

definition smp_inv :: "('l \<Rightarrow> 'k \<Rightarrow> 'l option \<times> 'k) \<Rightarrow> 'k \<Rightarrow> 'l list \<Rightarrow> ('l, 'k) smp \<Rightarrow> bool" where
  "smp_inv exec k0 ls s \<longleftrightarrow>
     (locked s = 0 \<and> (\<forall>h. \<not> inside s h) \<and> serial exec k0 ls (shared s))
     \<or> (locked s = 1 \<and> (\<exists>h l l0 k ls'. harts s h = Inside l \<and> (\<forall>h'. inside s h' \<longrightarrow> h' = h)
          \<and> ls = ls' @ [l0] \<and> serial exec k0 ls' k \<and> handler_steps exec (Some l0) k l (shared s)))"

lemma set_hart_simps [simp]:
  "locked (set_hart h p s) = locked s" "shared (set_hart h p s) = shared s"
  "harts (set_hart h p s) h' = (if h' = h then p else harts s h')"
  "inside (set_hart h p s) h' \<longleftrightarrow> (if h' = h then (\<exists>l. p = Inside l) else inside s h')"
  by (simp_all add: set_hart_def inside_def)

lemma inside_update [simp]: "inside (s\<lparr>locked := m\<rparr>) h = inside s h" "inside (s\<lparr>shared := k\<rparr>) h = inside s h"
  by (simp_all add: inside_def)

lemma smp_invI:
  assumes "locked s = 1" "harts s h = Inside l" "\<And>h'. inside s h' \<Longrightarrow> h' = h"
    "serial exec k0 ls' k" "handler_steps exec (Some l0) k l (shared s)"
  shows "smp_inv exec k0 (ls' @ [l0]) s"
  unfolding smp_inv_def using assms by blast

lemma smp_inv_cases:
  assumes "smp_inv exec k0 ls s"
  obtains (free) "locked s = 0" "\<forall>h. \<not> inside s h" "serial exec k0 ls (shared s)"
    | (held) h l l0 k ls' where "locked s = 1" "harts s h = Inside l" "\<forall>h'. inside s h' \<longrightarrow> h' = h" "ls = ls' @ [l0]"
      "serial exec k0 ls' k" "handler_steps exec (Some l0) k l (shared s)"
  using assms unfolding smp_inv_def by (elim disjE exE conjE)

lemma smp_inv_insideE:
  assumes "smp_inv exec k0 ls s" "harts s h = Inside l"
  obtains l0 k ls' where "locked s = 1" "\<forall>h'. inside s h' \<longrightarrow> h' = h" "ls = ls' @ [l0]"
    "serial exec k0 ls' k" "handler_steps exec (Some l0) k l (shared s)"
proof -
  have h: "inside s h" using assms(2) by (simp add: inside_def)
  from assms(1) show ?thesis
  proof (cases rule: smp_inv_cases)
    case free
    then show ?thesis using h by simp
  next
    case (held h' l' l0 k ls')
    then have "h' = h" using h by simp
    then show ?thesis using held assms(2) that by simp
  qed
qed

lemma smp_run_inv:
  assumes "smp_initial s0" "smp_run exec s0 ls s"
  shows "smp_inv exec (shared s0) ls s"
  using assms(2)
proof induction
  case start
  then show ?case using assms(1) by (auto simp: smp_inv_def smp_initial_def inside_def intro: serial.intros)
next
  case (trap ls s h l)
  have h: "\<not> inside s h" using trap.hyps by (simp add: inside_def)
  from trap.IH show ?case
  proof (cases rule: smp_inv_cases)
    case free
    then show ?thesis by (simp add: smp_inv_def)
  next
    case (held h' l' l0 k ls')
    then have "h' \<noteq> h" using h by (auto simp: inside_def)
    then show ?thesis unfolding held(4)
      by (intro smp_invI [where h = h' and l = l', OF _ _ _ held(5)]) (use held in \<open>auto split: if_splits\<close>)
  qed
next
  case (acquire ls s h l)
  show ?case
  proof (cases "locked s = 0")
    case True
    then have s: "\<forall>h. \<not> inside s h" "serial exec (shared s0) ls (shared s)" using acquire.IH by (auto simp: smp_inv_def)
    have "smp_inv exec (shared s0) (ls @ [l]) (lock_kernel h l s)"
      by (rule smp_invI [where h = h and l = "Some l"])
        (use s True in \<open>auto simp: lock_kernel_def atomic_swap_def intro: handler_steps.none split: if_splits\<close>)
    then show ?thesis using True by simp
  next
    case False
    then have one: "locked s = 1" using acquire.IH by (auto simp: smp_inv_def)
    have "lock_kernel h l s = s" using False one acquire.hyps
      by (simp add: lock_kernel_def atomic_swap_def set_hart_def fun_upd_idem)
    then show ?thesis using False acquire.IH by simp
  qed
next
  case (work ls s h l)
  obtain l0 k ls' where i: "locked s = 1" "\<forall>h'. inside s h' \<longrightarrow> h' = h" "ls = ls' @ [l0]"
    "serial exec (shared s0) ls' k" "handler_steps exec (Some l0) k (Some l) (shared s)"
    by (rule smp_inv_insideE [OF work.IH work.hyps(2)])
  obtain l' k' where e: "exec l (shared s) = (l', k')" by fastforce
  show ?case unfolding i(3)
    by (rule smp_invI [where h = h and l = l', OF _ _ _ i(4)])
      (use i(1,2) handler_steps.more [OF i(5) e] in \<open>auto simp: handler_step_def e split: if_splits\<close>)
next
  case (leave ls s h)
  obtain l0 k ls' where i: "locked s = 1" "\<forall>h'. inside s h' \<longrightarrow> h' = h" "ls = ls' @ [l0]"
    "serial exec (shared s0) ls' k" "handler_steps exec (Some l0) k None (shared s)"
    by (rule smp_inv_insideE [OF leave.IH leave.hyps(2)])
  have "\<not> inside (unlock_kernel h s) h'" for h' using i(2) by (auto simp: unlock_kernel_def atomic_swap_def)
  then show ?case using serial.intros(2) [OF i(4,5)] i(3)
    by (simp add: smp_inv_def unlock_kernel_def atomic_swap_def)
qed

text \<open>What every handler keeps when it runs alone holds whenever nobody is in the kernel.\<close>

lemma serial_keeps:
  assumes "serial exec k0 ls k" "P k0" "\<And>l k k'. P k \<Longrightarrow> handler_steps exec (Some l) k None k' \<Longrightarrow> P k'"
  shows "P k"
  using assms by (induction rule: serial.induct) blast+

section \<open>The property\<close>

text \<open>(C4) The kernel lock serializes the harts. At any time at most one hart is in the kernel, and the
  lock is free exactly when none is. While none is, the kernel state is the result of running the
  handlers that got the lock one after the other in that order, each from its start to its end; while
  one is, the earlier handlers have run so, and what it has done up to now are the first steps of the
  last one. A hart that tries a free lock gets it.\<close>

theorem kernel_lock_serializes:
  assumes "smp_initial s0" "smp_run exec s0 ls s"
  shows "(\<forall>h h'. inside s h \<longrightarrow> inside s h' \<longrightarrow> h = h') \<and> (locked s = 0 \<longleftrightarrow> (\<forall>h. \<not> inside s h))
    \<and> ((\<forall>h. \<not> inside s h) \<longrightarrow> serial exec (shared s0) ls (shared s))
    \<and> (\<forall>h l. harts s h = Inside l \<longrightarrow> (\<exists>ls' l0 k. ls = ls' @ [l0] \<and> serial exec (shared s0) ls' k
         \<and> handler_steps exec (Some l0) k l (shared s)))
    \<and> (\<forall>h l. harts s h = Spinning l \<longrightarrow> locked s = 0 \<longrightarrow> harts (lock_kernel h l s) h = Inside (Some l))"
  using smp_run_inv [OF assms]
proof (cases rule: smp_inv_cases)
  case free
  then show ?thesis by (auto simp: lock_kernel_def atomic_swap_def inside_def)
next
  case (held h l l0 k ls')
  have i: "inside s h" using held(2) by (simp add: inside_def)
  have "\<exists>ls' l0 k. ls = ls' @ [l0] \<and> serial exec (shared s0) ls' k \<and> handler_steps exec (Some l0) k l' (shared s)"
    if "harts s h' = Inside l'" for h' l'
  proof -
    have "inside s h'" using that by (simp add: inside_def)
    then have "l' = l" using held(2,3) that by simp
    then show ?thesis using held(4,5,6) by blast
  qed
  note last = this
  have "locked s \<noteq> 0" using held(1) by simp
  then show ?thesis using held(3) i by (intro conjI allI impI last) blast+
qed

text \<open>Two harts increment a counter, each by reading it and storing it afterwards; the second one
  spins until the first one has left.\<close>

definition increment :: "nat option \<Rightarrow> nat \<Rightarrow> nat option option \<times> nat" where
  "increment l k = (case l of None \<Rightarrow> (Some (Some k), k) | Some v \<Rightarrow> (None, v + 1))"

definition two_increments :: "(nat option, nat) smp" where
  "two_increments = \<lparr>locked = 1, harts = (\<lambda>_. Outside)(0 := Inside None, 1 := Spinning None), shared = 8\<rparr>"

lemma two_increments_run:
  "smp_run increment \<lparr>locked = 0, harts = \<lambda>_. Outside, shared = 7\<rparr> [None] two_increments"
proof -
  let ?s0 = "\<lparr>locked = 0, harts = \<lambda>_. Outside, shared = 7\<rparr> :: (nat option, nat) smp"
  let ?h = "\<lambda>p m k. \<lparr>locked = m, harts = (\<lambda>_. Outside)(0 := p, 1 := Spinning None), shared = k\<rparr> :: (nat option, nat) smp"
  have "smp_run increment ?s0 [] (set_hart 1 (Spinning None) (set_hart 0 (Spinning None) ?s0))"
    by (intro smp_run.intros) (simp_all add: NR_CPUS_def)
  then have "smp_run increment ?s0 [] (?h (Spinning None) 0 7)" by (simp add: set_hart_def)
  from smp_run.acquire [OF this, of 0 None]
  have "smp_run increment ?s0 [None] (?h (Inside (Some None)) 1 7)"
    by (simp add: lock_kernel_def atomic_swap_def set_hart_def fun_upd_twist)
  from smp_run.acquire [OF this, of 1 None]
  have "smp_run increment ?s0 [None] (?h (Inside (Some None)) 1 7)"
    by (simp add: lock_kernel_def atomic_swap_def set_hart_def)
  from smp_run.work [OF this, of 0 None]
  have "smp_run increment ?s0 [None] (?h (Inside (Some (Some 7))) 1 7)"
    by (simp add: handler_step_def increment_def set_hart_def fun_upd_twist)
  from smp_run.work [OF this, of 0 "Some 7"]
  show ?thesis by (simp add: handler_step_def increment_def set_hart_def fun_upd_twist two_increments_def)
qed

theorem kernel_lock_serializes_witness:
  "\<not> inside two_increments 1 \<and> serial increment 7 [None] (shared (unlock_kernel 0 two_increments))"
proof -
  let ?s0 = "\<lparr>locked = 0, harts = \<lambda>_. Outside, shared = 7\<rparr> :: (nat option, nat) smp"
  have i: "smp_initial ?s0" by (simp add: smp_initial_def)
  have l: "smp_run increment ?s0 [None] (unlock_kernel 0 two_increments)"
    by (rule smp_run.leave [OF two_increments_run]) (simp add: two_increments_def)
  have "\<not> inside (unlock_kernel 0 two_increments) h" for h
    by (simp add: unlock_kernel_def atomic_swap_def set_hart_def two_increments_def inside_def)
  then have "serial increment (shared ?s0) [None] (shared (unlock_kernel 0 two_increments))"
    using kernel_lock_serializes [OF i l] by blast
  moreover have "inside two_increments 0" by (simp add: two_increments_def inside_def)
  then have "\<not> inside two_increments 1" using kernel_lock_serializes [OF i two_increments_run] by (metis zero_neq_one)
  ultimately show ?thesis by simp
qed

end
