(* ===== verification/SysProps.thy ===== *)
theory SysProps
  imports SysBoot Demo Smp
begin

text \<open>
  Properties of the kernel as a whole: the invariant of theory System from \<open>main\<close> on, and the
  service that a ready task gets. The witnesses boot a machine with an empty task table and a
  blank card, and let the timer run on a kernel with three ready tasks.
\<close>

section \<open>A machine to boot\<close>

definition boot_entry :: u64 where "boot_entry = 0x14400801"

definition boot_kernel :: "(nat \<Rightarrow> u8) kernel" where
  "boot_kernel = (demo [] (Pid0 0))\<lparr>pcbs := (\<lambda>p. demo_pcb p TASK_EXITED),
     mm := demo_mm\<lparr>mem := (\<lambda>_. 0)(0xffffffc051000008 := boot_entry)\<rparr>\<rparr>"

lemma boot_kernel_fresh: "fresh boot_kernel"
  by (simp add: fresh_def boot_kernel_def demo_def place_def links0_def self_linked_def)

definition entry_kept :: "(nat \<Rightarrow> u8) mm_state \<Rightarrow> bool" where
  "entry_kept m \<longleftrightarrow> mem m 0xffffffc051000008 = boot_entry"

lemma entry_below_frames: "i < 8192 \<Longrightarrow> entry_kept (clean_page (frame_addr i) m) = entry_kept m"
proof -
  assume i: "i < 8192"
  have "unat (0xffffffc051000008 - frame_addr i) = 2 ^ 64 + 0xffffffc051000008 - unat (frame_addr i)"
    using unat_frame_addr [OF i] i by (simp add: unat_sub_if_size word_size)
  then have "\<not> unat (0xffffffc051000008 - frame_addr i) < 4096" using unat_frame_addr [OF i] i by simp
  then show ?thesis by (simp add: entry_kept_def mem_clean_page)
qed

text \<open>A page of the first two frames.\<close>

lemma alloc_boot:
  assumes "k < 2" "free_mem_map m k = 0" "entry_kept m"
  shows "\<exists>p m'. allocPage B ps aid m = Some (p, m') \<and> entry_kept m' \<and> (\<exists>i. free_mem_map m' = (free_mem_map m)(i := aid) \<and> i \<le> k)"
proof -
  obtain i where i: "find_from (\<lambda>i. free_mem_map m i = 0) 0 MEM_PAGE_NUM = Some i" "i \<le> k"
    by (rule find_from_exists [of 0 k MEM_PAGE_NUM "\<lambda>i. free_mem_map m i = 0"]) (use assms in auto)
  have "i < 8192" using free_frame_bound [OF i(1)] by simp
  then have "entry_kept (clean_page (frame_addr i) (m\<lparr>free_mem_map := (free_mem_map m)(i := aid)\<rparr>))"
    using assms(3) by (simp add: entry_below_frames) (simp add: entry_kept_def)
  then show ?thesis using i by (auto simp: allocPage_free)
qed

lemma entry_kept_read:
  "entry_kept (sd_read B (ucast (ucast MYSTERIOUS_PLACE :: u32)) 1 sec m\<lparr>padding_start_sec := x\<rparr>) = entry_kept m"
  "free_mem_map (sd_read B pa n sec m) = free_mem_map m"
  by (simp_all add: entry_kept_def sd_read_def dma_in_def MYSTERIOUS_PLACE_def pa2kva_def)

lemma entry_kept_init:
  "entry_kept (init_mm (mm boot_kernel))" "i < 8192 \<Longrightarrow> free_mem_map (init_mm m) i = 0"
  by (simp_all add: entry_kept_def init_mm_def boot_kernel_def)

lemma boot_task_info:
  "\<exists>m. init_task_info toy_bios ts (init_mm (mm boot_kernel)) = Some (0, ts, m) \<and> entry_kept m
     \<and> (\<forall>i < 8192. free_mem_map m i = 0)"
proof -
  let ?m = "init_mm (mm boot_kernel)"
  have z: "byte_at (mem ?m) a = 0" if "word_base a \<noteq> 0xffffffc051000008" for a
    using that by (simp add: byte_at_def init_mm_def boot_kernel_def byte_of_def)
  have n: "load_int16 (mem ?m) (pa2kva TASK_NUM_LOC) = 0"
    by (simp add: load_int16_def z TASK_NUM_LOC_def pa2kva_def word_base_def)
  have o: "load_int32 (mem ?m) (pa2kva TASK_INFO_OFFSET) = 0"
    by (simp add: load_int32_def le32_def z TASK_INFO_OFFSET_def pa2kva_def word_base_def)
  show ?thesis
    by (simp add: init_task_info_def n o Let_def sd_read_more.simps images_end_def entry_kept_read entry_kept_init)
qed

lemma init_pid0_total:
  assumes "k < 2" "\<forall>i \<ge> k. i < 8192 \<longrightarrow> free_mem_map (mm s) i = 0" "entry_kept (mm s)"
  shows "\<exists>t. init_pid0 B k s = Some t \<and> (\<forall>i \<ge> Suc k. i < 8192 \<longrightarrow> free_mem_map (mm t) i = 0)
    \<and> entry_kept (mm t) \<and> mboxes t = mboxes s"
proof -
  define u where "u = upd_links (NODE_REFRESH (Head (WaitQ (Pid0 k)))) (upd_links (NODE_REFRESH (PList (Pid0 k)))
    (upd_pcb (Pid0 k) (\<lambda>t. t\<lparr>asid := ASID_KERNEL OR of_nat k, cursor_x := 0, cursor_y := 0, pid := -1,
         parent_pid := -1, status := TASK_RUNNING, wakeup_time := 0, mbox_rw := -1, mutex_idx := -1\<rparr>) s))"
  have u: "mm u = mm s" "mboxes u = mboxes s" by (simp_all add: u_def)
  have pre: "free_mem_map (mm u) k = 0" "entry_kept (mm u)" using assms by (simp_all add: u)
  obtain p m i where p: "allocPage B (pcbs u) (ucast (asid (pcbs u (Pid0 k)) OR ucast KERNEL_PAGE)) (mm u) = Some (p, m)"
    "entry_kept m" "free_mem_map m = (free_mem_map (mm u))(i := ucast (asid (pcbs u (Pid0 k)) OR ucast KERNEL_PAGE))" "i \<le> k"
    using alloc_boot [OF assms(1) pre, of B "pcbs u" "ucast (asid (pcbs u (Pid0 k)) OR ucast KERNEL_PAGE)"] by blast
  have "init_pid0 B k s = Some (upd_pcb (Pid0 k) (\<lambda>t. t\<lparr>kernel_sp := p + PAGE_SIZE, satp := PGDIR_PA\<rparr>) (u\<lparr>mm := m\<rparr>))"
    using p(1) unfolding init_pid0_def Let_def u_def [symmetric] by (simp del: upd_links_def)
  moreover have "free_mem_map m j = 0" if "Suc k \<le> j" "j < 8192" for j
    using assms(2) that p(4) by (simp add: p(3) u)
  ultimately show ?thesis using p(2) u by simp
qed

lemma for_each_keeps:
  assumes "\<And>i s. P s \<Longrightarrow> \<exists>s'. f i s = Some s' \<and> P s'"
  shows "P s \<Longrightarrow> \<exists>s'. for_each f is s = Some s' \<and> P s'"
proof (induction "is" arbitrary: s)
  case (Cons i "is")
  from assms [OF Cons.prems, of i] Cons.IH show ?case by force
qed simp

lemma clean_temp_ok:
  assumes "entry_kept m"
  shows "\<exists>m'. clean_temp_page m = Some m'"
proof -
  have a: "pa2kva PGDIR_PA + 8 * get_vpn2 0x50000000 = 0xffffffc051000008"
    by (simp add: pa2kva_def PGDIR_PA_def get_vpn2_def NORMAL_PAGE_SHIFT_def PPN_BITS_def VA_MASK_def)
  have e: "pa2kva (get_pa boot_entry) = 0xffffffc051002000"
    by (simp add: pa2kva_def get_pa_def get_pfn_def boot_entry_def NORMAL_PAGE_SHIFT_def PAGE_PFN_SHIFT_def PTE_MASK_def)
  show ?thesis using assms
    by (simp add: clean_temp_page_def a e entry_kept_def load64_def store64_def mapped_kva_def upt_rec get_vpn1_def
        NORMAL_PAGE_SHIFT_def PPN_BITS_def VA_MASK_def)
qed

definition bootable :: "(nat \<Rightarrow> u8) kernel \<Rightarrow> bool" where
  "bootable s \<longleftrightarrow> entry_kept (mm s) \<and> (\<forall>i. 0 < rsize (mb_name (mboxes s i)))"

lemma boot_init_pcb:
  assumes "entry_kept m" "\<forall>i < 8192. free_mem_map m i = 0"
  shows "\<exists>t. init_pcb toy_bios (boot_kernel\<lparr>mm := m\<rparr>) = Some t \<and> bootable t"
proof -
  let ?s = "boot_kernel\<lparr>mm := m\<rparr>"
  obtain a where a: "init_pid0 toy_bios 0 ?s = Some a" "\<forall>i \<ge> Suc 0. i < 8192 \<longrightarrow> free_mem_map (mm a) i = 0"
    "entry_kept (mm a)" "mboxes a = mboxes ?s"
    using init_pid0_total [of 0 ?s toy_bios] assms by auto
  obtain b where b: "init_pid0 toy_bios 1 a = Some b" "entry_kept (mm b)" "mboxes b = mboxes ?s"
    using init_pid0_total [of 1 a toy_bios] a by auto
  have Pb: "bootable b" using b by (simp add: bootable_def boot_kernel_def demo_def demo_mbox_def)
  have "\<exists>c. for_each init_task_pcb [0..<NUM_MAX_TASK] b = Some c \<and> bootable c"
    by (rule for_each_keeps [where P = bootable, OF _ Pb]) (simp add: init_task_pcb_def Let_def bootable_def)
  then show ?thesis using a(1) b(1) by (auto simp: init_pcb_def bootable_def)
qed

lemma tables_total:
  assumes "bootable s"
  shows "\<exists>t. init_locks s = Some t \<and> bootable t" "\<exists>t. init_barriers s = Some t \<and> bootable t"
    "\<exists>t. init_conditions s = Some t \<and> bootable t" "\<exists>t. init_mbox s = Some t \<and> bootable t"
  unfolding init_locks_def init_barriers_def init_conditions_def init_mbox_def
  by (rule for_each_keeps [where P = bootable, OF _ assms],
      simp add: bootable_def upd_mlock_def upd_barrier_def upd_condition_def upd_mbox_def init_head_def store_def)+

lemma boot_kernel_boots:
  "\<exists>t. main_hart0 toy_bios pa 1 ts boot_kernel = Some t"
proof -
  obtain m where m: "init_task_info toy_bios ts (init_mm (mm boot_kernel)) = Some (0, ts, m)" "entry_kept m"
    "\<forall>i < 8192. free_mem_map m i = 0"
    using boot_task_info by blast
  obtain c where c: "init_pcb toy_bios (boot_kernel\<lparr>mm := m\<rparr>) = Some c" "bootable c" using boot_init_pcb [OF m(2,3)] by blast
  then have Pc: "bootable (c\<lparr>time_base := 1\<rparr>)" by (simp add: bootable_def)
  obtain d where d: "init_locks (c\<lparr>time_base := 1\<rparr>) = Some d" "bootable d" using tables_total(1) [OF Pc] by blast
  obtain e where e: "init_barriers d = Some e" "bootable e" using tables_total(2) [OF d(2)] by blast
  obtain f where f: "init_conditions e = Some f" "bootable f" using tables_total(3) [OF e(2)] by blast
  obtain g where g: "init_mbox f = Some g" "bootable g" using tables_total(4) [OF f(2)] by blast
  have "main_init toy_bios 1 (boot_kernel\<lparr>mm := m\<rparr>) = Some g"
    using c(1) d(1) e(1) f(1) g(1) by (simp add: main_init_def)
  moreover have "\<exists>m. clean_temp_page (mm g) = Some m"
    using g(2) by (simp add: clean_temp_ok bootable_def)
  ultimately show ?thesis using m(1) by (auto simp: main_hart0_def test_shell_def)
qed

section \<open>The properties\<close>

lemma sysinv_harts:
  assumes "sysinv s Q"
  shows "tp s 0 \<noteq> tp s 1 \<and> (\<forall>p. pstatus s p = TASK_RUNNING \<longleftrightarrow> p = tp s 0 \<or> p = tp s 1)"
proof -
  note S = preschedD [OF sysinvD(1) [OF assms]] and run = sysinvD(2) [OF assms]
  have "pstatus s p = TASK_RUNNING \<longleftrightarrow> p = current_running s \<or> p = other s" for p
    using S(7) [of p] run by (cases "p = current_running s") simp_all
  moreover have "(current_running s = tp s 0 \<and> other s = tp s 1) \<or> (current_running s = tp s 1 \<and> other s = tp s 0)"
    using S(4) by (cases "hart s") (simp_all add: other_def current_running_def)
  ultimately show ?thesis using S(5) by metis
qed

text \<open>(C1) Once \<open>main\<close> has returned on the two harts, started on the memory that the loader leaves (\<open>fresh\<close>) with
  at most one task named \<open>shell\<close> in the image, let timer interrupts and the system calls on tasks, locks, barriers and
  conditions come on either hart, each of them \<open>allowed\<close> in the state it comes in: a call comes from a user task and
  its indices are in range; a kill names a live task that no hart runs, that is not its own parent and none of whose
  threads runs; an exit has no thread on the other hart. Every kernel state so reached satisfies the kernel invariant:
  the queues are well linked and agree with the status of every task, tasks wait for held locks only, the idle tasks
  never block, and the RUNNING tasks are exactly the two different ones that the harts run. In each such state every
  allowed event except \<open>Exec\<close> and \<open>Thread_create\<close> returns. Of these two, which allocate memory, it is only claimed that they keep
  the invariant when they return.\<close>

theorem kernel_invariant:
  fixes s :: "'d kernel"
  assumes "main_hart0 B pa freq tasks s0 = Some s1" "fresh s0"
    and "init_task_info B tasks (init_mm (mm s0)) = Some (num, ts, m)"
    and "\<forall>i < nat num. \<forall>j < nat num. named_shell ts i \<longrightarrow> named_shell ts j \<longrightarrow> i = j"
    and "reachable B pa ts rt (main_hart1 s1) s"
  shows "(\<exists>Q. sysinv s Q) \<and> tp s 0 \<noteq> tp s 1 \<and> (\<forall>p. pstatus s p = TASK_RUNNING \<longleftrightarrow> p = tp s 0 \<or> p = tp s 1)
    \<and> (\<forall>e. allowed e s \<longrightarrow> \<not> allocates e \<longrightarrow> perform B pa ts rt e s \<noteq> None)"
proof -
  obtain Q0 where "booted s1 Q0" using main_hart0_booted [OF assms(1-4)] by blast
  then have "\<exists>Q. sysinv (main_hart1 s1) Q" using booted_sysinv by blast
  then obtain Q where Q: "sysinv s Q" using reachable_sysinv [OF assms(5)] by blast
  have "perform B pa ts rt e s \<noteq> None" if "allowed e s" "\<not> allocates e" for e
    using perform_result [OF Q that(1), of B pa ts rt] that(2) by auto
  then show ?thesis using Q sysinv_harts [OF Q] by blast
qed

theorem kernel_invariant_witness:
  "\<forall>ts. \<exists>s1 s. main_hart0 toy_bios (\<lambda>_. 0) 1 ts boot_kernel = Some s1 \<and> do_scheduler (\<lambda>_. 0) (main_hart1 s1) = Some s
     \<and> tp s 0 \<noteq> tp s 1 \<and> (\<exists>Q. sysinv s Q)"
proof
  fix ts
  let ?pa = "\<lambda>_. 0 :: u64" and ?rt = "\<lambda>_ :: nat. 0 :: u64"
  obtain s1 where s1: "main_hart0 toy_bios ?pa 1 ts boot_kernel = Some s1" using boot_kernel_boots by blast
  obtain m where m: "init_task_info toy_bios ts (init_mm (mm boot_kernel)) = Some (0, ts, m)"
    using boot_task_info by blast
  have r0: "reachable toy_bios ?pa ts ?rt (main_hart1 s1) (main_hart1 s1)" by (rule reachable.start)
  note K = kernel_invariant [OF s1 boot_kernel_fresh m]
  have "do_scheduler ?rt (main_hart1 s1) \<noteq> None"
    using K [OF _ r0] by (auto simp: allocates_def dest: spec [of _ Timer])
  then obtain s where s: "do_scheduler ?rt (main_hart1 s1) = Some s" by blast
  have "reachable toy_bios ?pa ts ?rt (main_hart1 s1) s"
    by (rule reachable.event [OF r0, of Timer]) (simp_all add: s)
  from K [OF _ this] s1 s show "\<exists>s1 s. main_hart0 toy_bios (\<lambda>_. 0) 1 ts boot_kernel = Some s1 \<and>
      do_scheduler ?rt (main_hart1 s1) = Some s \<and> tp s 0 \<noteq> tp s 1 \<and> (\<exists>Q. sysinv s Q)" by auto
qed

text \<open>Two harts that enter the kernel through its lock: if every handler, run alone, does one of the
  events, then the kernel states between the handlers are the reachable ones, and the invariant
  above holds of them.\<close>

lemma locked_harts_reachable:
  fixes s0 :: "('l, 'd kernel) smp"
  assumes "smp_initial s0" "smp_run exec s0 ls s" "\<forall>h. \<not> inside s h"
    and "\<And>l k k'. handler_steps exec (Some l) k None k' \<Longrightarrow> \<exists>e. allowed e k \<and> perform B pa ts rt e k = Some k'"
  shows "reachable B pa ts rt (shared s0) (shared s)"
proof -
  have "serial exec (shared s0) ls (shared s)"
    using smp_run_inv [OF assms(1,2)] assms(3) by (cases rule: smp_inv_cases) (auto simp: inside_def)
  then show ?thesis
    by (rule serial_keeps [where P = "reachable B pa ts rt (shared s0)"])
      (use assms(4) reachable.start reachable.event in blast)+
qed

text \<open>(C6) The ready queue is served in turn: the task behind \<open>n\<close> others in it runs after
  \<open>n + 1\<close> timer interrupts, whichever harts they come on, and the invariant still holds.\<close>

theorem round_robin:
  fixes s :: "'d kernel"
  assumes "sysinv s Q" "Q ReadyQ = xs @ p # ys" "\<forall>h \<in> set hs. h < 2" "length hs = Suc (length xs)"
  shows "\<exists>s' Q'. timer_ticks rt hs s = Some s' \<and> sysinv s' Q' \<and> current_running s' = p"
  using timer_ticks_reach [OF assms(1,3,2,4)] .

definition three_ready :: "(nat \<Rightarrow> u8) kernel" where
  "three_ready = upd_pcb (Pid0 1) (\<lambda>t. t\<lparr>status := TASK_RUNNING\<rparr>)
     (demo [(ReadyQ, Pid0 0), (ReadyQ, Pcb 1), (ReadyQ, Pcb 2)] (Pcb 0))"

lemma three_ready_sysinv: "sysinv three_ready (contents [(ReadyQ, Pid0 0), (ReadyQ, Pcb 1), (ReadyQ, Pcb 2)])"
proof -
  let ?xs = "[(ReadyQ, Pid0 0), (ReadyQ, Pcb 1), (ReadyQ, Pcb 2)]"
  have K: "kinv (demo ?xs (Pcb 0)) (contents ?xs)" by (rule kinv_demo) (simp add: demo_ok_def)
  have d: "detached (links (demo ?xs (Pcb 0))) (Pid0 1)"
    using queues_place [of ?xs] by (simp add: demo_def)
  have "kinv three_ready (contents ?xs)"
    using kinvD [OF K] d unfolding kinv_on_def three_ready_def by (auto simp: contents_set)
  moreover have st: "pstatus three_ready p = (if p = Pid0 1 \<or> p = Pcb 0 then TASK_RUNNING
      else if p \<in> {Pid0 0, Pcb 1, Pcb 2} then TASK_READY else TASK_EXITED)" for p
    by (simp add: three_ready_def demo_status_def)
  moreover have "tasks_ok three_ready (contents ?xs)"
    unfolding tasks_ok_def st by (auto simp: contents_def three_ready_def less_2_cases_iff NUM_MAX_TASK_def split: if_splits)
  ultimately show ?thesis
    by (auto simp: sysinv_def presched_def other_def linv_def contents_def three_ready_def current_running_def demo_def)
qed

theorem round_robin_witness:
  "\<exists>s' Q'. timer_ticks (\<lambda>_. 0) [0, 1, 0] three_ready = Some s' \<and> sysinv s' Q' \<and> current_running s' = Pcb 2"
  by (rule round_robin [OF three_ready_sysinv, of "[Pid0 0, Pcb 1]" "Pcb 2" "[]"]) (simp_all add: contents_def)

end
