(* ===== verification/Image.thy ===== *)
theory Image
  imports Boot
begin

text \<open>
  The image tool, \<open>tools/createimage.c\<close>, which puts the loadable segments of the boot block, the
  kernel and the tasks one behind the other and appends the table of the tasks.

  A file is the list of its bytes. The tool reads the ELF headers field by field, as \<open>elf.h\<close> lays
  them out; an assertion that fails and an access outside an array are undefined. The files are
  given by their names, as on the command line. The messages of the tool are left out.
\<close>

section \<open>ELF headers\<close>

record elf64_ehdr =
  e_phoff :: nat
  e_phentsize :: nat
  e_phnum :: nat

record elf64_phdr =
  p_type :: nat
  p_offset :: nat
  p_filesz :: nat
  p_memsz :: nat

record input_file =
  f_name :: "u8 list"
  f_bytes :: "u8 list"

fun le_nat :: "u8 list \<Rightarrow> nat" where
  "le_nat [] = 0"
| "le_nat (b # bs) = unat b + 256 * le_nat bs"

definition file_field :: "nat \<Rightarrow> nat \<Rightarrow> u8 list \<Rightarrow> nat" where
  "file_field off n f = le_nat (take n (drop off f))"

definition PT_LOAD :: nat where "PT_LOAD = 1"

definition read_ehdr :: "u8 list \<Rightarrow> elf64_ehdr option" where
  "read_ehdr f = do {
     ensure (64 \<le> length f);
     ensure (f ! 1 = 0x45);
     ensure (f ! 2 = 0x4c);
     ensure (f ! 3 = 0x46);
     Some \<lparr>e_phoff = file_field 32 8 f, e_phentsize = file_field 54 2 f, e_phnum = file_field 56 2 f\<rparr> }"

definition read_phdr :: "nat \<Rightarrow> elf64_ehdr \<Rightarrow> u8 list \<Rightarrow> elf64_phdr option" where
  "read_phdr ph ehdr f = do {
     let pos = e_phoff ehdr + ph * e_phentsize ehdr;
     ensure (pos + 56 \<le> length f);
     Some \<lparr>p_type = file_field pos 4 f, p_offset = file_field (pos + 8) 8 f,
           p_filesz = file_field (pos + 32) 8 f, p_memsz = file_field (pos + 40) 8 f\<rparr> }"

definition get_filesz :: "elf64_phdr \<Rightarrow> int" where
  "get_filesz phdr = uint (of_nat (p_filesz phdr) :: u32)"

definition get_memsz :: "elf64_phdr \<Rightarrow> int" where
  "get_memsz phdr = uint (of_nat (p_memsz phdr) :: u32)"

section \<open>Writing the image\<close>

text \<open>\<open>fgetc\<close> at the end of a file gives \<open>EOF\<close>, which \<open>fputc\<close> writes as the byte 255.\<close>

definition fgetc :: "u8 list \<Rightarrow> nat \<Rightarrow> u8" where
  "fgetc f k = (if k < length f then f ! k else 255)"

fun copy_bytes :: "nat \<Rightarrow> nat \<Rightarrow> u8 list \<Rightarrow> u8 list \<times> int \<Rightarrow> u8 list \<times> int" where
  "copy_bytes 0 k f (img, phyaddr) = (img, phyaddr)"
| "copy_bytes (Suc n) k f (img, phyaddr) = copy_bytes n (k + 1) f (img @ [fgetc f k], phyaddr + 1)"

definition write_segment :: "elf64_phdr \<Rightarrow> u8 list \<Rightarrow> u8 list \<times> int \<Rightarrow> u8 list \<times> int" where
  "write_segment phdr f out =
     (if p_memsz phdr \<noteq> 0 \<and> p_type phdr = PT_LOAD then copy_bytes (p_filesz phdr) (p_offset phdr) f out else out)"

function write_padding :: "int \<Rightarrow> u8 list \<times> int \<Rightarrow> u8 list \<times> int" where
  "write_padding new_phyaddr (img, phyaddr) =
     (if phyaddr < new_phyaddr then write_padding new_phyaddr (img @ [0], phyaddr + 1) else (img, phyaddr))"
  by pat_completeness auto
termination
  by (relation "measure (\<lambda>(new, (img, a)). nat (new - a))") auto

declare write_padding.simps [simp del]

text \<open>\<open>fseek\<close> and \<open>fwrite\<close>: the bytes at a position are replaced, a gap is filled with zeros.\<close>

definition fwrite_at :: "nat \<Rightarrow> u8 list \<Rightarrow> u8 list \<Rightarrow> u8 list" where
  "fwrite_at pos bs img = take pos (img @ replicate (pos - length img) 0) @ bs @ drop (pos + length bs) img"

definition int16_bytes :: "int \<Rightarrow> u8 list" where
  "int16_bytes x = map (byte_of (word_of_int x :: 16 word)) [0..<2]"

definition int32_bytes :: "int \<Rightarrow> u8 list" where
  "int32_bytes x = map (byte_of (word_of_int x :: u32)) [0..<4]"

definition task_info_bytes :: "task_info_t \<Rightarrow> u8 list" where
  "task_info_bytes t = map (rbyte (ti_name t)) [0..<32] @ int32_bytes (ti_offset t)
     @ int32_bytes (ti_file_size t) @ int32_bytes (ti_mem_size t)"

definition BOOT_LOADER_SIG_OFFSET :: nat where "BOOT_LOADER_SIG_OFFSET = 0x1fe"
definition OS_SIZE_LOC :: nat where "OS_SIZE_LOC = BOOT_LOADER_SIG_OFFSET - 2"
definition TASK_INFO_LOC :: nat where "TASK_INFO_LOC = BOOT_LOADER_SIG_OFFSET - 6"
definition IMG_TASK_NUM_LOC :: nat where "IMG_TASK_NUM_LOC = BOOT_LOADER_SIG_OFFSET - 8"

definition NBYTES2SEC :: "int \<Rightarrow> int" where
  "NBYTES2SEC nbytes = nbytes sdiv 512 + (if nbytes smod 512 \<noteq> 0 then 1 else 0)"

definition write_img_info :: "int \<Rightarrow> (nat \<Rightarrow> task_info_t) \<Rightarrow> int \<Rightarrow> int \<Rightarrow> u8 list \<Rightarrow> u8 list" where
  "write_img_info nbytes_kernel taskinfo tasknum taskinfo_off img =
     (let num = sint (word_of_int tasknum :: 16 word);
          img1 = img @ concat (map (\<lambda>i. task_info_bytes (taskinfo i)) [0..<nat num]);
          img2 = fwrite_at IMG_TASK_NUM_LOC (int16_bytes num) img1;
          img3 = fwrite_at TASK_INFO_LOC (int32_bytes taskinfo_off) img2
      in fwrite_at OS_SIZE_LOC (int16_bytes (NBYTES2SEC nbytes_kernel)) img3)"

section \<open>The tool\<close>

record img_state =
  out :: "u8 list \<times> int"
  taskinfo :: "nat \<Rightarrow> task_info_t"
  nbytes_kernel :: int

definition upd_taskinfo :: "nat \<Rightarrow> (task_info_t \<Rightarrow> task_info_t) \<Rightarrow> img_state \<Rightarrow> img_state" where
  "upd_taskinfo k g s = s\<lparr>taskinfo := (taskinfo s)(k := g (taskinfo s k))\<rparr>"

text \<open>One turn of the loop over the program headers, and of the loop over the files.\<close>

definition add_segment :: "int \<Rightarrow> input_file \<Rightarrow> elf64_ehdr \<Rightarrow> nat \<Rightarrow> img_state \<Rightarrow> img_state option" where
  "add_segment fidx file ehdr ph s = do {
     phdr \<leftarrow> read_phdr ph ehdr (f_bytes file);
     if p_type phdr \<noteq> PT_LOAD then Some s
     else do {
       let s1 = s\<lparr>out := write_segment phdr (f_bytes file) (out s)\<rparr>;
       if f_name file = ascii ''main'' then Some (s1\<lparr>nbytes_kernel := nbytes_kernel s1 + get_filesz phdr\<rparr>)
       else if fidx > 0 then do {
         k \<leftarrow> index (fidx - 2) TASK_MAXNUM;
         Some (upd_taskinfo k (\<lambda>t. t\<lparr>ti_file_size := snd (out s1) - ti_offset t,
                 ti_mem_size := ti_mem_size t + get_memsz phdr\<rparr>) s1) }
       else Some s1 } }"

definition add_file :: "input_file list \<Rightarrow> nat \<Rightarrow> img_state \<Rightarrow> img_state option" where
  "add_file files i s = do {
     let file = files ! i;
     s1 \<leftarrow> (if 2 \<le> i then do {
              k \<leftarrow> index (int i - 2) TASK_MAXNUM;
              name \<leftarrow> strcpy (ti_name (taskinfo s k)) 0 (str (f_name file)) 0;
              Some (upd_taskinfo k (\<lambda>t. t\<lparr>ti_name := name, ti_offset := snd (out s), ti_file_size := 0,
                      ti_mem_size := 0\<rparr>) s) }
            else Some s);
     ehdr \<leftarrow> read_ehdr (f_bytes file);
     s2 \<leftarrow> for_each (add_segment (int i) file ehdr) [0..<e_phnum ehdr] s1;
     Some (if f_name file = ascii ''bootblock'' then s2\<lparr>out := write_padding 512 (out s2)\<rparr> else s2) }"

definition no_task :: task_info_t where
  "no_task = \<lparr>ti_name = \<lparr>rsize = 32, rbyte = (\<lambda>_. 0)\<rparr>, ti_offset = 0, ti_file_size = 0, ti_mem_size = 0\<rparr>"

definition create_image :: "input_file list \<Rightarrow> u8 list option" where
  "create_image files = do {
     s \<leftarrow> for_each (add_file files) [0..<length files] \<lparr>out = ([], 0), taskinfo = (\<lambda>_. no_task), nbytes_kernel = 0\<rparr>;
     Some (write_img_info (nbytes_kernel s) (taskinfo s) (int (length files) - 2) (snd (out s)) (fst (out s))) }"

section \<open>Bytes of kernel memory\<close>

lemma unat_and_7: "unat (a AND 7) = unat a mod 8" for a :: u64
proof -
  have "a AND 7 = a mod 8" using take_bit_eq_mask [of 3 a] by (simp add: mask_eq_exp_minus_1 take_bit_eq_mod)
  then show ?thesis by (simp add: unat_mod)
qed

lemma unat_word_base: "unat (word_base a) = 8 * (unat a div 8)"
proof -
  have "word_base a = push_bit 3 (drop_bit 3 a)"
  proof (rule bit_word_eqI)
    fix n assume n: "n < LENGTH(64)"
    have "bit (7 :: u64) n \<longleftrightarrow> n < 3" using n bit_mask_iff [of 3 n, where ?'a = "64 word"] by (simp add: mask_eq_exp_minus_1)
    then show "bit (word_base a) n = bit (push_bit 3 (drop_bit 3 a)) n"
      using n by (auto simp: word_base_def bit_simps)
  qed
  then have e: "word_base a = 8 * (a div 8)" by (simp add: push_bit_eq_mult drop_bit_eq_div)
  have d: "unat (a div 8) = unat a div 8" by (simp add: unat_div)
  have "unat (8 :: u64) * unat (a div 8) < 2 ^ LENGTH(64)" using unsigned_less [of a, where 'a = nat] by (simp add: d)
  then have "unat (8 * (a div 8)) = unat (8 :: u64) * unat (a div 8)" by (simp only: unat_mult_lem)
  then show ?thesis by (simp add: e d)
qed

lemma byte_of_le64: "k < 8 \<Longrightarrow> byte_of (le64 f) k = f k"
proof (rule bit_word_eqI)
  fix n assume k: "k < 8" and n: "n < LENGTH(8)"
  show "bit (byte_of (le64 f) k) n = bit (f k) n"
  proof (cases "k < 4")
    case True
    then show ?thesis using n by (auto simp: bit_byte_of le64_def bit_simps bit_le32)
  next
    case False
    moreover have "8 * k + n - 32 = 8 * (k - 4) + n" using False by simp
    ultimately show ?thesis using k n by (auto simp: bit_byte_of le64_def bit_simps bit_le32)
  qed
qed

lemma pa2kva_add: "unat a < 2 ^ 38 \<Longrightarrow> pa2kva a = a + 0xffffffc000000000"
proof -
  assume a: "unat a < 2 ^ 38"
  then have "unat (take_bit 38 a) = unat a" by (simp add: unsigned_take_bit_eq take_bit_nat_eq_self)
  then have "take_bit 38 a = a" by (simp add: word_eq_iff_unsigned [where 'a = nat])
  then have "bit a n \<Longrightarrow> n < 38" for n by (metis bit_take_bit_iff)
  then have "a AND 0xffffffc000000000 = 0"
    by (intro bit_word_eqI) (force simp: bit_simps high_mask)
  from disjunctive_add_eq_or [OF this] show ?thesis by (simp add: pa2kva_def)
qed

text \<open>A byte of a transfer to an aligned address.\<close>

lemma byte_at_dma_in:
  assumes "unat (pa2kva pa) mod 8 = 0" "unat (pa2kva pa) + len < 2 ^ 64" "len mod 8 = 0" "k < len"
  shows "byte_at (dma_in pa len bs m) (pa2kva pa + of_nat k) = bs k"
proof -
  let ?a = "pa2kva pa + of_nat k"
  have a: "unat ?a = unat (pa2kva pa) + k" using assms(2,4) by (intro unat_add_small) simp
  obtain q where q: "unat (pa2kva pa) = 8 * q" using assms(1) by (metis mod_0_imp_dvd dvdE)
  have w: "unat (word_base ?a) = unat (pa2kva pa) + 8 * (k div 8)"
    unfolding unat_word_base a q by simp
  have "pa2kva pa \<le> word_base ?a" unfolding word_le_nat_alt w by simp
  from unat_sub [OF this] have off: "unat (word_base ?a - pa2kva pa) = 8 * (k div 8)" unfolding w by simp
  have "8 * (k div 8) < len" using assms(4) by (simp add: less_le_trans)
  moreover have "unat (?a AND 7) = k mod 8" unfolding unat_and_7 a q by simp
  moreover have "dma_in pa len bs m (word_base ?a) = le64 (\<lambda>b. bs (8 * (k div 8) + b))"
    using calculation(1) unfolding dma_in_def Let_def off by simp
  ultimately show ?thesis unfolding byte_at_def by (simp only: byte_of_le64 mod_less_divisor) simp
qed

lemma load_int16_bytes:
  "(\<And>b. b < 2 \<Longrightarrow> byte_at m (a + of_nat b) = byte_of (w :: 16 word) b) \<Longrightarrow> load_int16 m a = sint w"
proof -
  assume b: "\<And>b. b < 2 \<Longrightarrow> byte_at m (a + of_nat b) = byte_of w b"
  have "(ucast (byte_of w 0) OR push_bit 8 (ucast (byte_of w 1)) :: 16 word) = w"
  proof (rule bit_word_eqI)
    fix n assume n: "n < LENGTH(16)"
    show "bit (ucast (byte_of w 0) OR push_bit 8 (ucast (byte_of w 1)) :: 16 word) n = bit w n"
    proof (cases "n < 8")
      case False
      then have "8 + (n - 8) = n" "n - 8 < 8" "n - 8 < 16" using n by simp_all
      then show ?thesis using False n by (simp add: bit_simps bit_byte_of)
    qed (use n in \<open>simp add: bit_simps bit_byte_of\<close>)
  qed
  then show ?thesis using b [of 0] b [of 1] by (simp add: load_int16_def)
qed

lemma load_int32_bytes:
  assumes "\<And>b. b < 4 \<Longrightarrow> byte_at m (a + of_nat b) = byte_of (w :: u32) b"
  shows "load_int32 m a = sint w"
  unfolding load_int32_def using le32_cong [of "\<lambda>i. byte_at m (a + of_nat i)" "byte_of w"] assms by simp

section \<open>What the tool writes\<close>

text \<open>The loadable segments of a file, the bytes they put into the image and the memory they ask for.\<close>

definition load_segments :: "u8 list \<Rightarrow> elf64_ehdr \<Rightarrow> nat \<Rightarrow> elf64_phdr list" where
  "load_segments f ehdr n = filter (\<lambda>p. p_type p = PT_LOAD) (List.map_filter (\<lambda>ph. read_phdr ph ehdr f) [0..<n])"

definition segment_bytes :: "u8 list \<Rightarrow> elf64_phdr \<Rightarrow> u8 list" where
  "segment_bytes f p = (if p_memsz p = 0 then [] else map (fgetc f) [p_offset p..<p_offset p + p_filesz p])"

definition segments :: "u8 list \<Rightarrow> elf64_phdr list" where
  "segments f = (case read_ehdr f of None \<Rightarrow> [] | Some e \<Rightarrow> load_segments f e (e_phnum e))"

definition task_bytes :: "u8 list \<Rightarrow> u8 list" where
  "task_bytes f = concat (map (segment_bytes f) (segments f))"

definition task_memory :: "u8 list \<Rightarrow> int" where
  "task_memory f = sum_list (map get_memsz (segments f))"

definition holds_at :: "u8 list \<Rightarrow> nat \<Rightarrow> u8 list \<Rightarrow> bool" where
  "holds_at img o' xs \<longleftrightarrow> o' + length xs \<le> length img \<and> (\<forall>j < length xs. img ! (o' + j) = xs ! j)"

lemma holds_at_append: "holds_at img k xs \<Longrightarrow> holds_at (img @ ys) k xs"
  by (auto simp: holds_at_def nth_append)

lemma holds_at_end: "holds_at (img @ xs) (length img) xs"
  by (simp add: holds_at_def)

lemma copy_bytes_result:
  "copy_bytes n k f (img, a) = (img @ map (fgetc f) [k..<k + n], a + int n)"
  by (induction n arbitrary: k img a) (simp_all add: upt_conv_Cons del: upt_Suc)

lemma write_segment_result:
  assumes "p_type p = PT_LOAD" "snd o' = int (length (fst o'))"
  shows "write_segment p f o' = (fst o' @ segment_bytes f p, int (length (fst o' @ segment_bytes f p)))"
  using assms by (cases o') (simp add: write_segment_def segment_bytes_def copy_bytes_result)

lemma write_padding_result:
  "a = int (length img) \<Longrightarrow> \<exists>n. write_padding new (img, a) = (img @ replicate n 0, int (length img + n)) \<and> new \<le> int (length img + n)"
proof (induction new "(img, a)" arbitrary: img a rule: write_padding.induct)
  case (1 new img a)
  show ?case
  proof (cases "a < new")
    case True
    with 1 obtain n where "write_padding new (img @ [0], a + 1) = ((img @ [0]) @ replicate n 0, int (length (img @ [0]) + n))"
      "new \<le> int (length (img @ [0]) + n)" by fastforce
    then show ?thesis using True by (intro exI [of _ "Suc n"]) (simp add: write_padding.simps [of new img])
  next
    case False
    then show ?thesis using 1(2) by (intro exI [of _ 0]) (simp add: write_padding.simps)
  qed
qed

lemma load_segments_Suc:
  "load_segments f e (Suc n) = load_segments f e n @
     (case read_phdr n e f of None \<Rightarrow> [] | Some p \<Rightarrow> if p_type p = PT_LOAD then [p] else [])"
  by (simp add: load_segments_def List.map_filter_def split: option.splits)

text \<open>After \<open>n\<close> program headers of a file.\<close>

definition segments_written :: "int \<Rightarrow> input_file \<Rightarrow> elf64_ehdr \<Rightarrow> img_state \<Rightarrow> nat \<Rightarrow> img_state \<Rightarrow> bool" where
  "segments_written i file e s n s' \<longleftrightarrow>
     fst (out s') = fst (out s) @ concat (map (segment_bytes (f_bytes file)) (load_segments (f_bytes file) e n))
     \<and> snd (out s') = int (length (fst (out s')))
     \<and> (if 2 \<le> i \<and> f_name file \<noteq> ascii ''main''
        then i < 18 \<and> ti_name (taskinfo s' (nat i - 2)) = ti_name (taskinfo s (nat i - 2))
          \<and> ti_offset (taskinfo s' (nat i - 2)) = ti_offset (taskinfo s (nat i - 2))
          \<and> ti_file_size (taskinfo s' (nat i - 2)) =
              int (length (concat (map (segment_bytes (f_bytes file)) (load_segments (f_bytes file) e n))))
          \<and> ti_mem_size (taskinfo s' (nat i - 2)) = sum_list (map get_memsz (load_segments (f_bytes file) e n))
          \<and> (\<forall>k. k \<noteq> nat i - 2 \<longrightarrow> taskinfo s' k = taskinfo s k)
        else taskinfo s' = taskinfo s)"

lemma for_each_segments:
  assumes run: "for_each (add_segment i file e) [0..<n] s = Some s'"
    and len: "snd (out s) = int (length (fst (out s)))"
    and new: "2 \<le> i \<longrightarrow> i < 18 \<and> ti_offset (taskinfo s (nat i - 2)) = snd (out s)
      \<and> ti_file_size (taskinfo s (nat i - 2)) = 0 \<and> ti_mem_size (taskinfo s (nat i - 2)) = 0"
  shows "segments_written i file e s n s'"
proof (rule for_each_upt_Some [OF run])
  show "segments_written i file e s 0 s"
    using len new by (simp add: segments_written_def load_segments_def List.map_filter_def)
next
  fix k t t'
  assume IH: "segments_written i file e s k t" and t: "add_segment i file e k t = Some t'"
  then obtain p where p: "read_phdr k e (f_bytes file) = Some p" by (auto simp: add_segment_def split: bind_splits)
  have l: "snd (out t) = int (length (fst (out t)))" using IH by (simp add: segments_written_def)
  show "segments_written i file e s (Suc k) t'"
  proof (cases "p_type p = PT_LOAD")
    case True
    let ?t = "t\<lparr>out := write_segment p (f_bytes file) (out t)\<rparr>"
    note w = write_segment_result [OF True l, of "f_bytes file"]
    have ls: "load_segments (f_bytes file) e (Suc k) = load_segments (f_bytes file) e k @ [p]"
      by (simp add: load_segments_Suc p True)
    show ?thesis
    proof (cases "f_name file = ascii ''main'' \<or> i \<le> 0")
      case True
      then have "out t' = out ?t" "taskinfo t' = taskinfo t"
        using t p \<open>p_type p = PT_LOAD\<close> by (auto simp: add_segment_def Let_def split: if_splits)
      moreover have c: "(2 \<le> i \<and> f_name file \<noteq> ascii ''main'') = False" using True by auto
      ultimately show ?thesis using IH unfolding segments_written_def ls c if_False by (simp add: w)
    next
      case False
      then obtain j where j: "i - 2 = int j" "j < 16" "t' = upd_taskinfo j (\<lambda>t. t\<lparr>ti_file_size := snd (out ?t) - ti_offset t,
          ti_mem_size := ti_mem_size t + get_memsz p\<rparr>) ?t"
        using t p \<open>p_type p = PT_LOAD\<close>
        by (auto simp: add_segment_def Let_def TASK_MAXNUM_def split: bind_splits if_splits)
      have c: "(2 \<le> i \<and> f_name file \<noteq> ascii ''main'') = True" "nat i - 2 = j" "i < 18" "2 \<le> i" using False j(1,2) by auto
      then show ?thesis using IH len new c(3,4) unfolding segments_written_def ls c(1,2) if_True
        by (simp add: w j(3) upd_taskinfo_def)
    qed
  next
    case False
    then show ?thesis using t IH p by (simp add: add_segment_def segments_written_def load_segments_Suc)
  qed
qed

text \<open>An entry of the task table describes a file of the command line: its name, where its bytes are
  in the image, and how much memory it needs.\<close>

definition describes :: "u8 list \<Rightarrow> task_info_t \<Rightarrow> input_file \<Rightarrow> bool" where
  "describes img t file \<longleftrightarrow> rsize (ti_name t) = 32 \<and> cstr (ti_name t) 0 (f_name file)
     \<and> (\<exists>k. ti_offset t = int k \<and> 512 \<le> k \<and> holds_at img k (task_bytes (f_bytes file)))
     \<and> ti_file_size t = int (length (task_bytes (f_bytes file))) \<and> ti_mem_size t = task_memory (f_bytes file)"

lemma describes_append: "describes img t file \<Longrightarrow> describes (img @ xs) t file"
  unfolding describes_def using holds_at_append by blast

definition files_written :: "input_file list \<Rightarrow> nat \<Rightarrow> img_state \<Rightarrow> bool" where
  "files_written files n s \<longleftrightarrow> snd (out s) = int (length (fst (out s))) \<and> (0 < n \<longrightarrow> 512 \<le> length (fst (out s)))
     \<and> n \<le> 18 \<and> (\<forall>k. rsize (ti_name (taskinfo s k)) = 32)
     \<and> (\<forall>i < n. 2 \<le> i \<longrightarrow> describes (fst (out s)) (taskinfo s (i - 2)) (files ! i))"

definition command_line :: "input_file list \<Rightarrow> bool" where
  "command_line files \<longleftrightarrow> 2 \<le> length files \<and> f_name (files ! 0) = ascii ''bootblock''
     \<and> (\<forall>i < length files. 2 \<le> i \<longrightarrow> 0 \<notin> set (f_name (files ! i)) \<and> f_name (files ! i) \<noteq> ascii ''main'')"

text \<open>The new entry of a task, before its segments are written.\<close>

lemma new_entry:
  assumes s: "rsize (ti_name (taskinfo s j)) = 32" and name: "0 \<notin> set (f_name file)"
    and run: "strcpy (ti_name (taskinfo s j)) 0 (str (f_name file)) 0 = Some name"
  shows "rsize name = 32 \<and> cstr name 0 (f_name file)"
proof -
  note c = str_cstr [OF name]
  have "length (f_name file) < 32"
    using strcpy_overflow [OF c, of "ti_name (taskinfo s j)" 0] run s by (cases "length (f_name file) < 32") auto
  then show ?thesis using strcpy_result [OF c, of 0 "ti_name (taskinfo s j)"] run s by fastforce
qed

lemma pad_result:
  assumes "snd (out s) = int (length (fst (out s)))"
    and "s' = (if b then s\<lparr>out := write_padding 512 (out s)\<rparr> else s)"
  shows "\<exists>xs. fst (out s') = fst (out s) @ xs \<and> snd (out s') = int (length (fst (out s')))
    \<and> (b \<longrightarrow> 512 \<le> length (fst (out s'))) \<and> taskinfo s' = taskinfo s"
proof (cases b)
  case True
  obtain img a where o': "out s = (img, a)" by (cases "out s")
  then obtain n where "write_padding 512 (img, a) = (img @ replicate n 0, int (length img + n))" "512 \<le> int (length img + n)"
    using write_padding_result [of a img 512] assms(1) by auto
  then show ?thesis using True assms(2) o' by simp
qed (use assms in simp)

lemma add_file_written:
  assumes files: "command_line files" and n: "n < length files" and s: "files_written files n s"
    and run: "add_file files n s = Some s'"
  shows "files_written files (Suc n) s'"
proof -
  let ?file = "files ! n" and ?f = "f_bytes (files ! n)"
  obtain s1 e s2 where r: "(if 2 \<le> n then do {
              k \<leftarrow> index (int n - 2) TASK_MAXNUM;
              name \<leftarrow> strcpy (ti_name (taskinfo s k)) 0 (str (f_name ?file)) 0;
              Some (upd_taskinfo k (\<lambda>t. t\<lparr>ti_name := name, ti_offset := snd (out s), ti_file_size := 0,
                      ti_mem_size := 0\<rparr>) s) }
            else Some s) = Some s1" "read_ehdr ?f = Some e"
    "for_each (add_segment (int n) ?file e) [0..<e_phnum e] s1 = Some s2"
    "s' = (if f_name ?file = ascii ''bootblock'' then s2\<lparr>out := write_padding 512 (out s2)\<rparr> else s2)"
    using run by (auto simp: add_file_def Let_def split: bind_splits)
  have S: "snd (out s) = int (length (fst (out s)))" "0 < n \<Longrightarrow> 512 \<le> length (fst (out s))"
    "\<And>k. rsize (ti_name (taskinfo s k)) = 32"
    "\<And>i. i < n \<Longrightarrow> 2 \<le> i \<Longrightarrow> describes (fst (out s)) (taskinfo s (i - 2)) (files ! i)"
    using s by (auto simp: files_written_def)
  have new: "n < 18 \<and> (\<exists>name. s1 = upd_taskinfo (n - 2) (\<lambda>t. t\<lparr>ti_name := name, ti_offset := snd (out s),
      ti_file_size := 0, ti_mem_size := 0\<rparr>) s \<and> rsize name = 32 \<and> cstr name 0 (f_name ?file))" if "2 \<le> n"
  proof -
    note two = that
    obtain k name where k: "int n - 2 = int k" "k < 16" "strcpy (ti_name (taskinfo s k)) 0 (str (f_name ?file)) 0 = Some name"
      "s1 = upd_taskinfo k (\<lambda>t. t\<lparr>ti_name := name, ti_offset := snd (out s), ti_file_size := 0, ti_mem_size := 0\<rparr>) s"
      using r(1) [unfolded if_P [OF two]] by (auto simp: TASK_MAXNUM_def split: bind_splits)
    have "0 \<notin> set (f_name ?file)" using files n two by (simp add: command_line_def)
    moreover have "k = n - 2" "n < 18" using k(1,2) two by auto
    ultimately show ?thesis using new_entry [OF S(3) _ k(3)] k(4) by blast
  qed
  have old: "s1 = s" if "n < 2" using r(1) that by simp
  have one: "out s1 = out s \<and> (\<forall>k. rsize (ti_name (taskinfo s1 k)) = 32)"
    using new old S(3) by (cases "2 \<le> n") (auto simp: upd_taskinfo_def)
  have "segments_written (int n) ?file e s1 (e_phnum e) s2"
    by (rule for_each_segments [OF r(3)]) (use one S(1) new in \<open>auto simp: upd_taskinfo_def\<close>)
  note w = this [unfolded segments_written_def]
  have seg: "load_segments ?f e (e_phnum e) = segments ?f" by (simp add: segments_def r(2))
  have img2: "fst (out s2) = fst (out s) @ task_bytes ?f" "snd (out s2) = int (length (fst (out s2)))"
    using w one by (auto simp: seg task_bytes_def)
  obtain xs where pad: "fst (out s') = fst (out s2) @ xs" "snd (out s') = int (length (fst (out s')))"
    "f_name ?file = ascii ''bootblock'' \<Longrightarrow> 512 \<le> length (fst (out s'))" "taskinfo s' = taskinfo s2"
    using pad_result [OF img2(2) r(4)] by blast
  have len: "512 \<le> length (fst (out s'))"
    using pad(1,3) img2(1) S(2) files by (cases "n = 0") (auto simp: command_line_def)
  have img: "fst (out s') = fst (out s) @ task_bytes ?f @ xs" by (simp add: pad(1) img2(1))
  show ?thesis
  proof (cases "2 \<le> n")
    case False
    then have "taskinfo s' = taskinfo s" using w old pad(4) by simp
    then show ?thesis using False len pad(2) S(3) by (simp add: files_written_def)
  next
    case True
    have "f_name ?file \<noteq> ascii ''main''" using files n True by (simp add: command_line_def)
    then have c: "(2 \<le> int n \<and> f_name ?file \<noteq> ascii ''main'') = True" "nat (int n) - 2 = n - 2" using True by simp_all
    obtain name where name: "n < 18" "s1 = upd_taskinfo (n - 2) (\<lambda>t. t\<lparr>ti_name := name, ti_offset := snd (out s),
        ti_file_size := 0, ti_mem_size := 0\<rparr>) s" "rsize name = 32" "cstr name 0 (f_name ?file)"
      using new True by blast
    note v = w [unfolded c if_True seg]
    have this_one: "describes (fst (out s')) (taskinfo s' (n - 2)) ?file"
      using v name S(1,2) True holds_at_append [OF holds_at_end, of "fst (out s)" "task_bytes ?f" xs]
      unfolding describes_def pad(4) img by (auto simp: upd_taskinfo_def task_bytes_def task_memory_def)
    have others: "taskinfo s' k = taskinfo s k" if "k \<noteq> n - 2" for k
      using v name(2) that by (simp add: pad(4) upd_taskinfo_def)
    have "describes (fst (out s')) (taskinfo s' (i - 2)) (files ! i)" if "i < Suc n" "2 \<le> i" for i
      using this_one describes_append [OF S(4) [OF _ that(2)], of "task_bytes ?f @ xs"] others [of "i - 2"] that
      unfolding img by (cases "i = n") auto
    moreover have "rsize (ti_name (taskinfo s' k)) = 32" for k
      using others [of k] this_one S(3) by (cases "k = n - 2") (simp_all add: describes_def)
    ultimately show ?thesis using len pad(2) name(1) by (simp add: files_written_def)
  qed
qed

section \<open>The image as a whole\<close>

lemma fwrite_at_inside:
  assumes "pos + length bs \<le> length img"
  shows "length (fwrite_at pos bs img) = length img"
    and "j < length img \<Longrightarrow> fwrite_at pos bs img ! j = (if pos \<le> j \<and> j < pos + length bs then bs ! (j - pos) else img ! j)"
  using assms by (auto simp: fwrite_at_def nth_append min_def not_less)

lemma describes_cong:
  assumes "describes img t file" "length img' = length img" "\<And>j. 512 \<le> j \<Longrightarrow> j < length img \<Longrightarrow> img' ! j = img ! j"
  shows "describes img' t file"
proof -
  have "holds_at img' k xs" if "512 \<le> k" "holds_at img k xs" for k xs
    using that assms(2,3) by (auto simp: holds_at_def)
  then show ?thesis using assms(1) unfolding describes_def by blast
qed

lemma sint_image_small: "n < 32768 \<Longrightarrow> sint (word_of_int (int n) :: 16 word) = int n"
  by (subst signed_of_int) (simp add: signed_take_bit_int_eq_self)

lemma length_task_info_bytes [simp]: "length (task_info_bytes t) = 44"
  by (simp add: task_info_bytes_def int32_bytes_def)

lemma length_table [simp]: "length (concat (map (\<lambda>i. task_info_bytes (ts i)) [0..<n])) = 44 * n"
  by (simp add: length_concat comp_def sum_list_triv)

definition image_of :: "input_file list \<Rightarrow> u8 list \<Rightarrow> nat \<Rightarrow> (nat \<Rightarrow> task_info_t) \<Rightarrow> bool" where
  "image_of files img k ts \<longleftrightarrow> 512 \<le> k \<and> length img = k + 44 * (length files - 2)
     \<and> (\<forall>b < 2. img ! (0x1f6 + b) = byte_of (word_of_int (int (length files - 2)) :: 16 word) b)
     \<and> (\<forall>b < 4. img ! (0x1f8 + b) = byte_of (word_of_int (int k) :: u32) b)
     \<and> holds_at img k (concat (map (\<lambda>i. task_info_bytes (ts i)) [0..<length files - 2]))
     \<and> (\<forall>i < length files - 2. describes img (ts i) (files ! (i + 2)))"

lemma create_image_result:
  assumes files: "command_line files" and run: "create_image files = Some img"
  shows "length files \<le> 18 \<and> (\<exists>k ts. image_of files img k ts)"
proof -
  let ?n = "length files - 2"
  obtain s where s: "for_each (add_file files) [0..<length files] \<lparr>out = ([], 0), taskinfo = (\<lambda>_. no_task), nbytes_kernel = 0\<rparr> = Some s"
    "img = write_img_info (nbytes_kernel s) (taskinfo s) (int (length files) - 2) (snd (out s)) (fst (out s))"
    using run by (auto simp: create_image_def split: bind_splits)
  have "files_written files (length files) s"
    by (rule for_each_upt_Some [OF s(1)], simp add: files_written_def no_task_def, rule add_file_written [OF files])
  then have W: "snd (out s) = int (length (fst (out s)))" "512 \<le> length (fst (out s))" "length files \<le> 18"
    "\<And>i. i < length files \<Longrightarrow> 2 \<le> i \<Longrightarrow> describes (fst (out s)) (taskinfo s (i - 2)) (files ! i)"
    using files by (auto simp: files_written_def command_line_def)
  let ?k = "length (fst (out s))"
  have n: "int (length files) - 2 = int ?n" using files by (auto simp: command_line_def)
  have num: "sint (word_of_int (int ?n) :: 16 word) = int ?n" using W(3) by (intro sint_image_small) simp
  let ?t = "concat (map (\<lambda>i. task_info_bytes (taskinfo s i)) [0..<?n])"
  let ?img1 = "fst (out s) @ ?t"
  let ?img2 = "fwrite_at 0x1f6 (int16_bytes (int ?n)) ?img1"
  let ?img3 = "fwrite_at 0x1f8 (int32_bytes (int ?k)) ?img2"
  have img: "img = fwrite_at 0x1fc (int16_bytes (NBYTES2SEC (nbytes_kernel s))) ?img3"
    unfolding s(2) write_img_info_def Let_def n num W(1)
    by (simp add: IMG_TASK_NUM_LOC_def TASK_INFO_LOC_def OS_SIZE_LOC_def BOOT_LOADER_SIG_OFFSET_def)
  have l [simp]: "length (int16_bytes x) = 2" "length (int32_bytes x) = 4" for x
    by (simp_all add: int16_bytes_def int32_bytes_def)
  have L: "length ?img2 = ?k + 44 * ?n" "length ?img3 = ?k + 44 * ?n" "length img = ?k + 44 * ?n"
    using W(2) by (simp_all add: img fwrite_at_inside)
  have at: "img ! j = (if j < 0x1f6 \<or> 0x1fe \<le> j then ?img1 ! j
      else if j < 0x1f8 then int16_bytes (int ?n) ! (j - 0x1f6)
      else if j < 0x1fc then int32_bytes (int ?k) ! (j - 0x1f8)
      else int16_bytes (NBYTES2SEC (nbytes_kernel s)) ! (j - 0x1fc))" if "j < ?k + 44 * ?n" for j
    unfolding img using W(2) L that by (subst fwrite_at_inside(2), simp, simp)+ auto
  have "holds_at img ?k ?t" using W(2) L(3) by (auto simp: holds_at_def at nth_append)
  moreover have "describes img (taskinfo s i) (files ! (i + 2))" if "i < ?n" for i
    using describes_cong [OF describes_append [OF W(4) [of "i + 2"], of ?t], of img] that L(3) by (simp add: at)
  moreover have "img ! (0x1f6 + b) = byte_of (word_of_int (int ?n) :: 16 word) b" if "b < 2" for b
    using that W(2) by (simp add: at int16_bytes_def)
  moreover have "img ! (0x1f8 + b) = byte_of (word_of_int (int ?k) :: u32) b" if "b < 4" for b
    using that W(2) by (simp add: at int32_bytes_def)
  ultimately show ?thesis using W(2,3) L(3) unfolding image_of_def by blast
qed

section \<open>What the kernel reads\<close>

text \<open>The boot block is loaded to \<open>0x50200000\<close>; the card holds the image from its first sector on.\<close>

definition image_on_card :: "('d \<Rightarrow> nat \<Rightarrow> u8) \<Rightarrow> nat \<Rightarrow> u8 list \<Rightarrow> 'd mm_state \<Rightarrow> bool" where
  "image_on_card content cap img m \<longleftrightarrow> length img < 512 * cap \<and> length img < 2 ^ 31
     \<and> (\<forall>i < length img. content (sd m) i = img ! i)
     \<and> (\<forall>i < 512. byte_at (mem m) (pa2kva 0x50200000 + of_nat i) = img ! i)"

lemma table_nth:
  "i < n \<Longrightarrow> j < 44 \<Longrightarrow> concat (map (\<lambda>i. task_info_bytes (ts i)) [0..<n]) ! (44 * i + j) = task_info_bytes (ts i) ! j"
proof (induction n)
  case (Suc n)
  then show ?case by (cases "i = n") (auto simp: nth_append)
qed simp

lemma sint32_small: "0 \<le> x \<Longrightarrow> x < 2 ^ 31 \<Longrightarrow> sint (word_of_int x :: u32) = x"
  by (subst signed_of_int) (simp add: signed_take_bit_int_eq_self)

lemma boot_fields:
  assumes img: "image_of files img k ts" "length files \<le> 18" and m: "image_on_card content cap img m"
  shows "load_int16 (mem m) (pa2kva TASK_NUM_LOC) = int (length files - 2)"
    and "load_int32 (mem m) (pa2kva TASK_INFO_OFFSET) = int k"
proof -
  have boot: "\<And>i. i < 512 \<Longrightarrow> byte_at (mem m) (pa2kva 0x50200000 + of_nat i) = img ! i"
    using m by (simp add: image_on_card_def)
  have a: "pa2kva TASK_NUM_LOC + of_nat b = pa2kva 0x50200000 + of_nat (0x1f6 + b)"
    "pa2kva TASK_INFO_OFFSET + of_nat b = pa2kva 0x50200000 + of_nat (0x1f8 + b)" for b
    by (simp_all add: pa2kva_def TASK_NUM_LOC_def TASK_INFO_OFFSET_def)
  have "load_int16 (mem m) (pa2kva TASK_NUM_LOC) = sint (word_of_int (int (length files - 2)) :: 16 word)"
    by (rule load_int16_bytes) (use img(1) in \<open>simp only: a boot image_of_def\<close>)
  then show "load_int16 (mem m) (pa2kva TASK_NUM_LOC) = int (length files - 2)"
    using sint_image_small [of "length files - 2"] img(2) by simp
  have "load_int32 (mem m) (pa2kva TASK_INFO_OFFSET) = sint (word_of_int (int k) :: u32)"
    by (rule load_int32_bytes) (use img(1) in \<open>simp only: a boot image_of_def\<close>)
  moreover have "int k < 2 ^ 31" using img(1) m by (simp add: image_of_def image_on_card_def)
  ultimately show "load_int32 (mem m) (pa2kva TASK_INFO_OFFSET) = int k" by (simp only: sint32_small)
qed

text \<open>An entry of the table in memory.\<close>

lemma task_info_at_bytes:
  assumes b: "\<And>j. j < 44 \<Longrightarrow> byte_at m (ptr + of_nat j) = task_info_bytes t ! j" and t: "describes img t file"
    and small: "length img < 2 ^ 31" "task_memory (f_bytes file) < 2 ^ 31"
  shows "describes img (task_info_at m ptr) file"
proof -
  obtain k where d: "rsize (ti_name t) = 32" "cstr (ti_name t) 0 (f_name file)" "ti_offset t = int k" "512 \<le> k"
    "holds_at img k (task_bytes (f_bytes file))" "ti_file_size t = int (length (task_bytes (f_bytes file)))"
    "ti_mem_size t = task_memory (f_bytes file)"
    using t by (auto simp: describes_def)
  have e: "task_info_bytes t ! j = rbyte (ti_name t) j" if "j < 32" for j
    using that by (simp add: task_info_bytes_def nth_append)
  have i: "task_info_bytes t ! (32 + j) = byte_of (word_of_int (ti_offset t) :: u32) j"
    "task_info_bytes t ! (36 + j) = byte_of (word_of_int (ti_file_size t) :: u32) j"
    "task_info_bytes t ! (40 + j) = byte_of (word_of_int (ti_mem_size t) :: u32) j" if "j < 4" for j
    using that by (simp_all add: task_info_bytes_def int32_bytes_def nth_append)
  have f: "load_int32 m (ptr + of_nat c) = sint (word_of_int x :: u32)"
    if "c \<le> 40" "\<And>j. j < 4 \<Longrightarrow> task_info_bytes t ! (c + j) = byte_of (word_of_int x :: u32) j" for c x
    using b [of "c + j" for j] that by (intro load_int32_bytes) (simp add: add.assoc)
  have l: "k + length (task_bytes (f_bytes file)) < 2 ^ 31" using d(5) small(1) by (simp add: holds_at_def)
  have "0 \<le> task_memory (f_bytes file)" unfolding task_memory_def by (rule sum_list_nonneg) (auto simp: get_memsz_def)
  then have rg: "0 \<le> ti_offset t" "ti_offset t < 2 ^ 31" "0 \<le> ti_file_size t" "ti_file_size t < 2 ^ 31"
    "0 \<le> ti_mem_size t" "ti_mem_size t < 2 ^ 31"
    using l small(2) by (simp_all add: d(3,6,7))
  have n: "load_int32 m (ptr + 32) = ti_offset t" "load_int32 m (ptr + 36) = ti_file_size t"
    "load_int32 m (ptr + 40) = ti_mem_size t"
    using f [of 32 "ti_offset t", OF _ i(1)] f [of 36 "ti_file_size t", OF _ i(2)] f [of 40 "ti_mem_size t", OF _ i(3)]
      sint32_small [OF rg(1,2)] sint32_small [OF rg(3,4)] sint32_small [OF rg(5,6)]
    by simp_all
  have "cstr \<lparr>rsize = 32, rbyte = \<lambda>j. byte_at m (ptr + of_nat j)\<rparr> 0 (f_name file)"
    by (rule cstr_cong [OF d(2)]) (use d(1,2) b e in \<open>auto simp: cstr_def\<close>)
  then show ?thesis using d(3-7) by (simp add: describes_def task_info_at_def n)
qed

text \<open>The sectors with the table, read to \<open>MYSTERIOUS_PLACE\<close>: never more than three.\<close>

lemma table_sectors:
  assumes "n \<le> (16 :: nat)"
  shows "(k + 44 * n) div 512 \<le> k div 512 + 2" "k mod 512 + 44 * n < 512 * ((k + 44 * n) div 512 - k div 512 + 1)"
    "k div 512 \<le> (k + 44 * n) div 512"
proof -
  define x where "x = k mod 512 + 44 * n"
  have "k + 44 * n = x + k div 512 * 512" by (simp add: x_def)
  then have e: "(k + 44 * n) div 512 = k div 512 + x div 512" by simp
  have "x < 3 * 512" using assms by (simp add: x_def less_le_trans [of "k mod 512" 512] add_less_le_mono [of "k mod 512" 512])
  then have "x div 512 \<le> 2" by simp
  then show "(k + 44 * n) div 512 \<le> k div 512 + 2" "k div 512 \<le> (k + 44 * n) div 512" unfolding e by simp_all
  have "x < 512 * (x div 512 + 1)" by simp
  then show "k mod 512 + 44 * n < 512 * ((k + 44 * n) div 512 - k div 512 + 1)" unfolding e x_def [symmetric] by simp
qed

lemma table_in_memory:
  assumes img: "image_of files img k ts" "length files \<le> 18" and m: "image_on_card content cap img m"
    and card: "sd_ok B content cap" and n: "n = length files - 2"
    and q: "q = (k + 44 * n) div 512 - k div 512 + 1" and i: "i < n" "j < 44"
  shows "byte_at (mem (sd_read B (ucast (ucast MYSTERIOUS_PLACE :: u32)) (of_nat q) (of_nat (k div 512)) m))
      (pa2kva (MYSTERIOUS_PLACE + of_nat (k mod 512)) + 44 * of_nat i + of_nat j) = task_info_bytes (ts i) ! j"
proof -
  let ?pa = "0x52000000 :: u64" and ?o = "k mod 512 + (44 * i + j)"
  have n16: "n \<le> 16" using img(2) n by simp
  note T = table_sectors [OF n16, of k, folded q]
  have len: "length img = k + 44 * n" "holds_at img k (concat (map (\<lambda>i. task_info_bytes (ts i)) [0..<n]))"
    using img(1) by (simp_all add: image_of_def n)
  have small: "k + 44 * n < 2 ^ 31" "k + 44 * n < 512 * cap" "\<And>i. i < length img \<Longrightarrow> content (sd m) i = img ! i"
    using m len(1) by (auto simp: image_on_card_def)
  have ij: "44 * i + j < 44 * n" using i by simp
  have q3: "q \<le> 3" using T(1) q by simp
  then have q32: "unat (of_nat q :: u32) = q" by (simp add: unat_of_nat)
  have s: "unat (of_nat (k div 512) :: u32) = k div 512" using small(1) by (simp add: unat_of_nat)
  have cap: "unat (of_nat (k div 512) :: u32) + unat (of_nat q :: u32) \<le> cap"
  proof -
    have "k + 44 * n < cap * 512" using small(2) by (simp add: mult.commute)
    from less_mult_imp_div_less [OF this] show ?thesis unfolding s q32 using T(3) q by linarith
  qed
  have o': "?o < 512 * q" using ij T(2) by linarith
  have place: "(ucast (ucast MYSTERIOUS_PLACE :: u32) :: u64) = ?pa" by (simp add: MYSTERIOUS_PLACE_def)
  have ptr: "pa2kva (MYSTERIOUS_PLACE + of_nat (k mod 512)) + 44 * of_nat i + of_nat j = pa2kva ?pa + of_nat ?o"
  proof -
    have "unat (?pa + of_nat (k mod 512)) = unat ?pa + k mod 512" by (rule unat_add_small) simp
    then have "pa2kva (?pa + of_nat (k mod 512)) = ?pa + of_nat (k mod 512) + 0xffffffc000000000"
      by (intro pa2kva_add) simp
    then show ?thesis by (simp add: MYSTERIOUS_PLACE_def pa2kva_add)
  qed
  have "byte_at (mem (sd_read B ?pa (of_nat q) (of_nat (k div 512)) m)) (pa2kva ?pa + of_nat ?o)
      = snd (bios_sdread B (of_nat q) (of_nat (k div 512)) (sd m)) ?o"
    unfolding sd_read_def using o' q3 q32 by (simp del: of_nat_add) (rule byte_at_dma_in, simp_all add: pa2kva_add)
  also have "\<dots> = content (sd m) (512 * (k div 512) + ?o)"
    using long_readD(2) [OF sd_ok_read [OF card] cap, of ?o "sd m"] o' q3 by (simp add: q32 s)
  also have "512 * (k div 512) + ?o = k + (44 * i + j)" by simp
  also have "content (sd m) (k + (44 * i + j)) = task_info_bytes (ts i) ! j"
    using small(3) [of "k + (44 * i + j)"] len ij table_nth [OF i] by (simp add: holds_at_def)
  finally show ?thesis unfolding place ptr .
qed

lemma init_task_info_image:
  assumes img: "image_of files img k ts" "length files \<le> 18" "command_line files"
    and m: "image_on_card content cap img m" and card: "sd_ok B content cap"
    and small: "\<forall>i < length files - 2. task_memory (f_bytes (files ! (i + 2))) < 2 ^ 31"
  shows "\<exists>ts' m'. init_task_info B tasks m = Some (int (length files) - 2, ts', m')
    \<and> (\<forall>i < length files - 2. describes img (ts' i) (files ! (i + 2)))"
proof -
  define n where "n = length files - 2"
  define q where "q = (k + 44 * n) div 512 - k div 512 + 1"
  have n16: "n \<le> 16" and n2: "int (length files) - 2 = int n" using img(2,3) by (auto simp: n_def command_line_def)
  note T = table_sectors [OF n16, of k, folded q_def]
  note f = boot_fields [OF img(1,2) m, folded n_def]
  let ?ptr = "pa2kva (MYSTERIOUS_PLACE + of_nat (k mod 512))"
  let ?m1 = "sd_read B (ucast (ucast MYSTERIOUS_PLACE :: u32)) (of_nat q) (of_nat (k div 512)) m"
  have e: "TASK_INFO_SIZE * int n = int (44 * n)" by (simp add: TASK_INFO_SIZE_def)
  have num: "(int k + int (44 * n)) sdiv 512 - int (k div 512) + 1 = int q" "int k sdiv 512 = int (k div 512)"
    "int k smod 512 = int (k mod 512)"
    using T(3) by (simp_all add: sdiv_pos smod_pos q_def of_nat_diff zdiv_int zmod_int)
  have "q \<le> 3" using T(1) q_def by simp
  then have "\<not> 64 < (of_nat q :: u32)" by (simp add: word_less_nat_alt unat_of_nat)
  then have rd: "sd_read_more B (ucast MYSTERIOUS_PLACE) (of_nat q) (of_nat (k div 512)) m = ?m1"
    by (simp add: sd_read_more.simps)
  let ?ts = "\<lambda>i. if int i < int n then task_info_at (mem ?m1) (?ptr + 44 * of_nat i) else tasks i"
  have "\<exists>m'. init_task_info B tasks m = Some (int n, ?ts, m')"
    using n16 unfolding init_task_info_def f Let_def e num of_int_of_nat_eq rd by (simp add: TASK_MAXNUM_def)
  moreover have "describes img (?ts i) (files ! (i + 2))" if "i < n" for i
  proof -
    have "describes img (task_info_at (mem ?m1) (?ptr + 44 * of_nat i)) (files ! (i + 2))"
    proof (rule task_info_at_bytes)
      show "byte_at (mem ?m1) (?ptr + 44 * of_nat i + of_nat j) = task_info_bytes (ts i) ! j" if "j < 44" for j
        by (rule table_in_memory [OF img(1,2) m card n_def q_def \<open>i < n\<close> that])
      show "describes img (ts i) (files ! (i + 2))" using img(1) that by (simp add: image_of_def n_def)
    qed (use m small that in \<open>auto simp: image_on_card_def n_def\<close>)
    then show ?thesis using that by simp
  qed
  ultimately show ?thesis unfolding n2 n_def [symmetric] by blast
qed

end
