(* ===== verification/ImageProps.thy ===== *)
theory ImageProps
  imports Image Demo
begin

text \<open>
  The image that \<open>createimage\<close> writes, as the kernel reads it. The witness is an image of three
  small ELF files, one of them a task.
\<close>

text \<open>(C35) What \<open>createimage\<close> writes, \<open>init_task_info\<close> reads: with the image on the card and its
  first sector in memory, the kernel finds as many tasks as there are on the command line, and
  the entry of each one has the name of its file, the place in the image where exactly the bytes of
  its loadable segments are, their number and the memory they need.\<close>

theorem image_task_table:
  assumes "create_image files = Some img" "command_line files"
    and "sd_ok B content cap" "image_on_card content cap img m"
    and "\<forall>i < length files - 2. task_memory (f_bytes (files ! (i + 2))) < 2 ^ 31"
  shows "\<exists>ts' m'. init_task_info B tasks m = Some (int (length files) - 2, ts', m')
    \<and> (\<forall>i < length files - 2. describes img (ts' i) (files ! (i + 2)))"
proof -
  obtain k ts where "length files \<le> 18" "image_of files img k ts"
    using create_image_result [OF assms(2,1)] by blast
  then show ?thesis using init_task_info_image [OF _ _ assms(2,4,3,5)] by blast
qed

definition elf_header :: "nat \<Rightarrow> u8 list" where
  "elf_header phnum = [0x7f, 0x45, 0x4c, 0x46] @ replicate 28 0 @ [64, 0, 0, 0, 0, 0, 0, 0] @ replicate 14 0
     @ [56, 0, of_nat phnum, 0, 0, 0, 0, 0, 0, 0]"

definition demo_files :: "input_file list" where
  "demo_files = [\<lparr>f_name = ascii ''bootblock'', f_bytes = elf_header 0\<rparr>,
     \<lparr>f_name = ascii ''main'', f_bytes = elf_header 0\<rparr>,
     \<lparr>f_name = ascii ''fly'', f_bytes = elf_header 1 @ [1, 0, 0, 0] @ replicate 4 0 @ [120, 0, 0, 0, 0, 0, 0, 0]
        @ replicate 16 0 @ [4, 0, 0, 0, 0, 0, 0, 0] @ [8, 0, 0, 0, 0, 0, 0, 0] @ replicate 8 0 @ [0x13, 0x05, 0, 0]\<rparr>]"

lemma demo_image: "map_option length (create_image demo_files) = Some 560"
  by code_simp

lemma demo_task: "task_memory (f_bytes (demo_files ! 2)) = 8" "task_bytes (f_bytes (demo_files ! 2)) = [0x13, 0x05, 0, 0]"
  by code_simp+

definition card_of :: "u8 list \<Rightarrow> nat \<Rightarrow> u8" where
  "card_of img i = (if i < length img then img ! i else 0)"

definition image_mm :: "u8 list \<Rightarrow> (nat \<Rightarrow> u8) mm_state" where
  "image_mm img = demo_mm\<lparr>sd := card_of img, mem := dma_in 0x50200000 512 (card_of img) (\<lambda>_. 0)\<rparr>"

lemma image_mm_card:
  assumes "512 \<le> length img" "length img < 2 ^ 31"
  shows "image_on_card (\<lambda>d. d) (Suc (length img)) img (image_mm img)"
proof -
  have "byte_at (dma_in 0x50200000 512 (card_of img) (\<lambda>_. 0)) (pa2kva 0x50200000 + of_nat i) = card_of img i" if "i < 512" for i
    by (rule byte_at_dma_in) (use that in \<open>simp_all add: pa2kva_def\<close>)
  then show ?thesis using assms by (auto simp: image_on_card_def image_mm_def card_of_def)
qed

theorem image_task_table_witness:
  "\<exists>img ts' m'. create_image demo_files = Some img
    \<and> init_task_info toy_bios (\<lambda>_. no_task) (image_mm img) = Some (1, ts', m') \<and> describes img (ts' 0) (demo_files ! 2)"
proof -
  obtain img where img: "create_image demo_files = Some img" "length img = 560" using demo_image by auto
  have "command_line demo_files"
  proof -
    have n: "length demo_files = 3" "f_name (demo_files ! 0) = ascii ''bootblock''" "f_name (demo_files ! 2) = ascii ''fly''"
      by (simp_all add: demo_files_def)
    have f: "0 \<notin> set (ascii ''fly'')" "ascii ''fly'' \<noteq> ascii ''main''" by code_simp+
    have "0 \<notin> set (f_name (demo_files ! i)) \<and> f_name (demo_files ! i) \<noteq> ascii ''main''" if "i < 3" "2 \<le> i" for i
    proof -
      have "i = 2" using that by simp
      then show ?thesis using f by (simp only: n) simp
    qed
    then show ?thesis unfolding command_line_def n(1,2) by simp
  qed
  moreover have "image_on_card (\<lambda>d. d) (Suc (length img)) img (image_mm img)"
    by (rule image_mm_card) (simp_all add: img(2))
  moreover have "length demo_files = 3" by (simp add: demo_files_def)
  ultimately show ?thesis
    using image_task_table [OF img(1) _ toy_sd_ok, of "Suc (length img)" "image_mm img" "\<lambda>_. no_task"] img(1) demo_task(1) by (auto simp: numeral_2_eq_2)
qed

end
