(* ===== verification/E1000.thy ===== *)
theory E1000
  imports Kstate
begin

text \<open>
  The network card driver, \<open>drivers/e1000.c\<close>: the registers of the card, the two descriptor rings
  with their packet buffers, and the operations on them.

  Registers behave as their comments in \<open>drivers/e1000.h\<close> say: reading \<open>ICR\<close> clears it, writing
  \<open>IMS\<close> sets bits of the mask and writing \<open>IMC\<close> clears them; all others are read and written like
  memory. What the card itself does between two accesses is not part of this theory. Fences and
  the delay of \<open>e1000_reset\<close> have no effect on the state. The kernel addresses of the static arrays
  are a parameter.
\<close>

section \<open>Registers\<close>

definition TXDESCS :: nat where "TXDESCS = 64"
definition RXDESCS :: nat where "RXDESCS = 64"
definition TX_PKT_SIZE :: nat where "TX_PKT_SIZE = 2048"
definition RX_PKT_SIZE :: nat where "RX_PKT_SIZE = 2048"

definition E1000_ICR :: u32 where "E1000_ICR = 0x000C0"
definition E1000_IMS :: u32 where "E1000_IMS = 0x000D0"
definition E1000_IMC :: u32 where "E1000_IMC = 0x000D8"
definition E1000_RCTL :: u32 where "E1000_RCTL = 0x00100"
definition E1000_TCTL :: u32 where "E1000_TCTL = 0x00400"
definition E1000_RDBAL :: u32 where "E1000_RDBAL = 0x02800"
definition E1000_RDBAH :: u32 where "E1000_RDBAH = 0x02804"
definition E1000_RDLEN :: u32 where "E1000_RDLEN = 0x02808"
definition E1000_RDH :: u32 where "E1000_RDH = 0x02810"
definition E1000_RDT :: u32 where "E1000_RDT = 0x02818"
definition E1000_TDBAL :: u32 where "E1000_TDBAL = 0x03800"
definition E1000_TDBAH :: u32 where "E1000_TDBAH = 0x03804"
definition E1000_TDLEN :: u32 where "E1000_TDLEN = 0x03808"
definition E1000_TDH :: u32 where "E1000_TDH = 0x03810"
definition E1000_TDT :: u32 where "E1000_TDT = 0x03818"
definition E1000_RA :: u32 where "E1000_RA = 0x05400"
definition E1000_RAH_AV :: u32 where "E1000_RAH_AV = 0x80000000"

lemmas e1000_registers = E1000_ICR_def E1000_IMS_def E1000_IMC_def E1000_RCTL_def E1000_TCTL_def
  E1000_RDBAL_def E1000_RDBAH_def E1000_RDLEN_def E1000_RDH_def E1000_RDT_def E1000_TDBAL_def
  E1000_TDBAH_def E1000_TDLEN_def E1000_TDH_def E1000_TDT_def E1000_RA_def

text \<open>Bits of the interrupt, control and status registers and of the descriptors.\<close>

definition E1000_ICR_TXQE :: u32 where "E1000_ICR_TXQE = 0x00000002"
definition E1000_ICR_RXDMT0 :: u32 where "E1000_ICR_RXDMT0 = 0x00000010"
definition E1000_RCTL_EN :: u32 where "E1000_RCTL_EN = 0x00000002"
definition E1000_RCTL_BAM :: u32 where "E1000_RCTL_BAM = 0x00008000"
definition E1000_RCTL_SZ_2048 :: u32 where "E1000_RCTL_SZ_2048 = 0x00000000"
definition E1000_RCTL_RDMTS_HALF :: u32 where "E1000_RCTL_RDMTS_HALF = 0x00000000"
definition E1000_RCTL_BSEX :: u32 where "E1000_RCTL_BSEX = 0x02000000"
definition E1000_TCTL_EN :: u32 where "E1000_TCTL_EN = 0x00000002"
definition E1000_TCTL_PSP :: u32 where "E1000_TCTL_PSP = 0x00000008"
definition E1000_TXD_CMD_EOP :: u8 where "E1000_TXD_CMD_EOP = 0x01"
definition E1000_TXD_CMD_RS :: u8 where "E1000_TXD_CMD_RS = 0x08"
definition E1000_TXD_CMD_DEXT :: u8 where "E1000_TXD_CMD_DEXT = 0x20"
definition E1000_TXD_STAT_DD :: u8 where "E1000_TXD_STAT_DD = 0x01"
definition E1000_RXD_STAT_DD :: u8 where "E1000_RXD_STAT_DD = 0x01"

section \<open>The state of the driver and the card\<close>

record e1000_tx_desc =
  tx_addr :: u64
  tx_length :: "16 word"
  tx_cso :: u8
  tx_cmd :: u8
  tx_status :: u8
  tx_css :: u8
  tx_special :: "16 word"

record e1000_rx_desc =
  rx_addr :: u64
  rx_length :: "16 word"
  rx_csum :: "16 word"
  rx_status :: u8
  rx_errors :: u8
  rx_special :: "16 word"

record nic =
  nregs :: "u32 \<Rightarrow> u32"
  tx_desc_array :: "nat \<Rightarrow> e1000_tx_desc"
  rx_desc_array :: "nat \<Rightarrow> e1000_rx_desc"
  tx_pkt_buffer :: region
  rx_pkt_buffer :: region

text \<open>The kernel addresses of the static arrays.\<close>

record nic_layout =
  tx_desc_at :: u64
  rx_desc_at :: u64
  tx_pkt_at :: u64
  rx_pkt_at :: u64

definition e1000_write_reg :: "u32 \<Rightarrow> u32 \<Rightarrow> nic \<Rightarrow> nic" where
  "e1000_write_reg reg val n = n\<lparr>nregs :=
     (if reg = E1000_IMS then (nregs n)(E1000_IMS := nregs n E1000_IMS OR val)
      else if reg = E1000_IMC then (nregs n)(E1000_IMS := nregs n E1000_IMS AND NOT val)
      else (nregs n)(reg := val))\<rparr>"

definition e1000_read_reg :: "u32 \<Rightarrow> nic \<Rightarrow> u32 \<times> nic" where
  "e1000_read_reg reg n = (nregs n reg, if reg = E1000_ICR then n\<lparr>nregs := (nregs n)(E1000_ICR := 0)\<rparr> else n)"

definition e1000_write_reg_array :: "u32 \<Rightarrow> u32 \<Rightarrow> u32 \<Rightarrow> nic \<Rightarrow> nic" where
  "e1000_write_reg_array reg offset val n = e1000_write_reg (reg + push_bit 2 offset) val n"

section \<open>Set-up\<close>

partial_function (option) clear_icr :: "nic \<Rightarrow> nic option" where
  "clear_icr n = (let (v, n') = e1000_read_reg E1000_ICR n in if v \<noteq> 0 then clear_icr n' else Some n')"

definition e1000_reset :: "nic \<Rightarrow> nic option" where
  "e1000_reset n0 =
     (let n1 = e1000_write_reg E1000_RCTL 0 n0;
          n2 = e1000_write_reg E1000_TCTL 0 n1;
          n3 = e1000_write_reg E1000_TDH 0 n2;
          n4 = e1000_write_reg E1000_TDT 0 n3;
          n5 = e1000_write_reg E1000_RDH 0 n4;
          n6 = e1000_write_reg E1000_RDT 0 n5;
          n7 = e1000_write_reg E1000_IMC 0xffffffff n6;
          n8 = e1000_write_reg E1000_IMS (E1000_ICR_TXQE OR E1000_ICR_RXDMT0) n7
      in clear_icr n8)"

definition init_tx_desc :: "nic_layout \<Rightarrow> nat \<Rightarrow> e1000_tx_desc \<Rightarrow> e1000_tx_desc" where
  "init_tx_desc L i d = d\<lparr>tx_cmd := ((NOT E1000_TXD_CMD_DEXT) AND E1000_TXD_CMD_RS) OR E1000_TXD_CMD_EOP,
     tx_status := E1000_TXD_STAT_DD, tx_length := of_nat TX_PKT_SIZE,
     tx_addr := kva2pa (tx_pkt_at L + of_nat (i * TX_PKT_SIZE))\<rparr>"

definition e1000_configure_tx :: "nic_layout \<Rightarrow> nic \<Rightarrow> nic" where
  "e1000_configure_tx L n0 =
     (let n1 = n0\<lparr>tx_desc_array := (\<lambda>i. if i < TXDESCS then init_tx_desc L i (tx_desc_array n0 i) else tx_desc_array n0 i)\<rparr>;
          n2 = e1000_write_reg E1000_TDBAL (ucast (kva2pa (tx_desc_at L))) n1;
          n3 = e1000_write_reg E1000_TDBAH (ucast (drop_bit 32 (kva2pa (tx_desc_at L)))) n2;
          n4 = e1000_write_reg E1000_TDLEN (of_nat (TXDESCS * 16)) n3;
          n5 = e1000_write_reg E1000_TDH 0 n4;
          n6 = e1000_write_reg E1000_TDT 0 n5
      in e1000_write_reg E1000_TCTL (E1000_TCTL_PSP OR E1000_TCTL_EN OR push_bit 4 0x10 OR push_bit 12 0x40) n6)"

definition enetaddr :: "nat \<Rightarrow> u8" where
  "enetaddr i = [0x00, 0x0a, 0x35, 0x00, 0x1e, 0x53] ! i"

definition init_rx_desc :: "nic_layout \<Rightarrow> nat \<Rightarrow> e1000_rx_desc \<Rightarrow> e1000_rx_desc" where
  "init_rx_desc L i d = d\<lparr>rx_addr := kva2pa (rx_pkt_at L + of_nat (i * RX_PKT_SIZE)), rx_csum := 0, rx_status := 0,
     rx_errors := 0, rx_length := 0, rx_special := 0\<rparr>"

definition e1000_configure_rx :: "nic_layout \<Rightarrow> nic \<Rightarrow> nic" where
  "e1000_configure_rx L n0 =
     (let RAL0_v = push_bit 24 (ucast (enetaddr 3)) OR push_bit 16 (ucast (enetaddr 2))
            OR push_bit 8 (ucast (enetaddr 1)) OR ucast (enetaddr 0);
          RAH0_v = E1000_RAH_AV OR push_bit 8 (ucast (enetaddr 5)) OR ucast (enetaddr 4);
          n1 = e1000_write_reg_array E1000_RA 0 RAL0_v n0;
          n2 = e1000_write_reg_array E1000_RA 1 RAH0_v n1;
          n3 = n2\<lparr>rx_desc_array := (\<lambda>i. if i < RXDESCS then init_rx_desc L i (rx_desc_array n2 i) else rx_desc_array n2 i)\<rparr>;
          n4 = e1000_write_reg E1000_RDBAL (ucast (kva2pa (rx_desc_at L))) n3;
          n5 = e1000_write_reg E1000_RDBAH (ucast (drop_bit 32 (kva2pa (rx_desc_at L)))) n4;
          n6 = e1000_write_reg E1000_RDLEN (of_nat (RXDESCS * 16)) n5;
          n7 = e1000_write_reg E1000_RDH 0 n6;
          n8 = e1000_write_reg E1000_RDT (of_nat (RXDESCS - 1)) n7
      in e1000_write_reg E1000_RCTL
           ((E1000_RCTL_EN OR E1000_RCTL_BAM OR E1000_RCTL_SZ_2048 OR E1000_RCTL_RDMTS_HALF) AND NOT E1000_RCTL_BSEX) n8)"

definition e1000_init :: "nic_layout \<Rightarrow> nic \<Rightarrow> nic option" where
  "e1000_init L n = do {
     n1 \<leftarrow> e1000_reset n;
     Some (e1000_configure_rx L (e1000_configure_tx L n1)) }"

section \<open>Packets\<close>

definition upd_tx_desc :: "nat \<Rightarrow> (e1000_tx_desc \<Rightarrow> e1000_tx_desc) \<Rightarrow> nic \<Rightarrow> nic" where
  "upd_tx_desc i g n = n\<lparr>tx_desc_array := (tx_desc_array n)(i := g (tx_desc_array n i))\<rparr>"

definition upd_rx_desc :: "nat \<Rightarrow> (e1000_rx_desc \<Rightarrow> e1000_rx_desc) \<Rightarrow> nic \<Rightarrow> nic" where
  "upd_rx_desc i g n = n\<lparr>rx_desc_array := (rx_desc_array n)(i := g (rx_desc_array n i))\<rparr>"

text \<open>The packet is the object at \<open>txpacket\<close>.\<close>

definition e1000_transmit :: "region \<Rightarrow> int \<Rightarrow> nic \<Rightarrow> (int \<times> nic) option" where
  "e1000_transmit txpacket len n = do {
     let (t, n1) = e1000_read_reg E1000_TDT n;
     tail \<leftarrow> index (sint t) TXDESCS;
     if tx_status (tx_desc_array n1 tail) AND E1000_TXD_STAT_DD \<noteq> 0
     then do {
       buf \<leftarrow> memcpy (tx_pkt_buffer n1) (tail * TX_PKT_SIZE) txpacket 0 (memcpy_len len);
       let n2 = upd_tx_desc tail (\<lambda>d. d\<lparr>tx_length := word_of_int len,
             tx_status := tx_status d XOR E1000_TXD_STAT_DD\<rparr>) (n1\<lparr>tx_pkt_buffer := buf\<rparr>);
       Some (len, e1000_write_reg E1000_TDT (of_nat ((tail + 1) mod TXDESCS)) n2) }
     else Some (0, n1) }"

text \<open>The bytes of the packet; none when there is no packet, or an empty one.\<close>

definition e1000_poll :: "nic \<Rightarrow> (u8 list \<times> nic) option" where
  "e1000_poll n = do {
     let (t, n1) = e1000_read_reg E1000_RDT n;
     tail \<leftarrow> index ((sint t + 1) smod int RXDESCS) RXDESCS;
     let len = unat (rx_length (rx_desc_array n1 tail));
     if rx_status (rx_desc_array n1 tail) AND E1000_RXD_STAT_DD \<noteq> 0
     then do {
       ensure (tail * RX_PKT_SIZE + len \<le> rsize (rx_pkt_buffer n1));
       let bytes = map (\<lambda>i. rbyte (rx_pkt_buffer n1) (tail * RX_PKT_SIZE + i)) [0..<len];
       let n2 = upd_rx_desc tail (\<lambda>d. d\<lparr>rx_status := 0, rx_length := 0\<rparr>) n1;
       Some (bytes, e1000_write_reg E1000_RDT (of_nat tail) n2) }
     else Some ([], n1) }"

definition update_tx_desc :: "nic \<Rightarrow> (int \<times> nic) option" where
  "update_tx_desc n = do {
     let (t, n1) = e1000_read_reg E1000_TDT n;
     tail \<leftarrow> index (sint t) TXDESCS;
     Some (if tx_status (tx_desc_array n1 tail) AND E1000_TXD_STAT_DD \<noteq> 0 then 1 else 0, n1) }"

end
