(* ===== verification/Ring.thy ===== *)
theory Ring
  imports E1000
begin

text \<open>
  The transmit ring of \<open>drivers/e1000.c\<close> as a queue of packets, driver and card together.

  The card is a parameter \<open>dev\<close>: one step of its transmit unit, which may take packets from the ring. \<open>tx_unit\<close> is
  what its manual says of it: nothing happens while the unit is disabled (\<open>TCTL.EN\<close>) or head and tail are equal;
  otherwise, when the base and length registers describe the driver's descriptor array and the head's descriptor is a
  legacy one with data, the end of a packet (\<open>EOP\<close>) whose status is to be reported (\<open>RS\<close>), the packet is sent, the
  descriptor is marked as done, and the head moves on. Of an empty packet, or in any other case, nothing is assumed. What is
  on the wire is the data of the descriptor; padding and checksum are the card's. \<open>fifo\<close> is the abstract queue.
\<close>

section \<open>The card\<close>

definition tx_bytes :: "nat \<Rightarrow> nic \<Rightarrow> u8 list" where
  "tx_bytes h n = map (\<lambda>j. rbyte (tx_pkt_buffer n) (h * TX_PKT_SIZE + j)) [0..<unat (tx_length (tx_desc_array n h))]"

definition tx_done :: "nat \<Rightarrow> nic \<Rightarrow> nic" where
  "tx_done h n = (upd_tx_desc h (\<lambda>d. d\<lparr>tx_status := tx_status d OR E1000_TXD_STAT_DD\<rparr>) n)
     \<lparr>nregs := (nregs n)(E1000_TDH := of_nat ((h + 1) mod TXDESCS))\<rparr>"

definition tx_enabled :: "nic \<Rightarrow> bool" where
  "tx_enabled n \<longleftrightarrow> nregs n E1000_TCTL AND E1000_TCTL_EN \<noteq> 0"

definition tx_ring_set :: "nic_layout \<Rightarrow> nic \<Rightarrow> bool" where
  "tx_ring_set L n \<longleftrightarrow> nregs n E1000_TDBAL = ucast (kva2pa (tx_desc_at L))
     \<and> nregs n E1000_TDBAH = ucast (drop_bit 32 (kva2pa (tx_desc_at L)))
     \<and> nregs n E1000_TDLEN = of_nat (TXDESCS * 16)"

definition tx_whole_packet :: "e1000_tx_desc \<Rightarrow> bool" where
  "tx_whole_packet d \<longleftrightarrow> tx_cmd d AND E1000_TXD_CMD_EOP \<noteq> 0 \<and> tx_cmd d AND E1000_TXD_CMD_RS \<noteq> 0
     \<and> tx_cmd d AND E1000_TXD_CMD_DEXT = 0"

definition tx_unit :: "nic_layout \<Rightarrow> (nic \<Rightarrow> u8 list list \<times> nic) \<Rightarrow> bool" where
  "tx_unit L dev \<longleftrightarrow>
     (\<forall>n. \<not> tx_enabled n \<or> nregs n E1000_TDH = nregs n E1000_TDT \<longrightarrow> dev n = ([], n))
     \<and> (\<forall>n h. tx_enabled n \<longrightarrow> tx_ring_set L n \<longrightarrow> h < TXDESCS \<longrightarrow> nregs n E1000_TDH = of_nat h \<longrightarrow>
          nregs n E1000_TDH \<noteq> nregs n E1000_TDT \<longrightarrow> tx_whole_packet (tx_desc_array n h) \<longrightarrow>
          tx_length (tx_desc_array n h) \<noteq> 0 \<longrightarrow>
          tx_addr (tx_desc_array n h) = kva2pa (tx_pkt_at L + of_nat (h * TX_PKT_SIZE)) \<longrightarrow>
          dev n = ([tx_bytes h n], tx_done h n))"

lemma tx_unitD:
  assumes "tx_unit L dev"
  shows "nregs n E1000_TDH = nregs n E1000_TDT \<Longrightarrow> dev n = ([], n)"
    and "tx_enabled n \<Longrightarrow> tx_ring_set L n \<Longrightarrow> h < TXDESCS \<Longrightarrow> nregs n E1000_TDH = of_nat h \<Longrightarrow>
      nregs n E1000_TDH \<noteq> nregs n E1000_TDT \<Longrightarrow> tx_whole_packet (tx_desc_array n h) \<Longrightarrow>
      tx_length (tx_desc_array n h) \<noteq> 0 \<Longrightarrow>
      tx_addr (tx_desc_array n h) = kva2pa (tx_pkt_at L + of_nat (h * TX_PKT_SIZE)) \<Longrightarrow>
      dev n = ([tx_bytes h n], tx_done h n)"
  using assms unfolding tx_unit_def by blast+

section \<open>Sends and steps of the card\<close>

datatype nic_event = Send "u8 list" | Card

definition packet :: "u8 list \<Rightarrow> region" where
  "packet p = \<lparr>rsize = length p, rbyte = (\<lambda>i. p ! i)\<rparr>"

text \<open>The values that \<open>e1000_transmit\<close> returns, the packets on the wire, and the last state.\<close>

fun ring_run :: "(nic \<Rightarrow> u8 list list \<times> nic) \<Rightarrow> nic_event list \<Rightarrow> nic \<Rightarrow> (int list \<times> u8 list list \<times> nic) option" where
  "ring_run dev [] n = Some ([], [], n)"
| "ring_run dev (Send p # es) n = do {
     (v, n1) \<leftarrow> e1000_transmit (packet p) (int (length p)) n;
     (vs, wire, n2) \<leftarrow> ring_run dev es n1;
     Some (v # vs, wire, n2) }"
| "ring_run dev (Card # es) n = do {
     let (w, n1) = dev n;
     (vs, wire, n2) \<leftarrow> ring_run dev es n1;
     Some (vs, w @ wire, n2) }"

text \<open>The abstract queue holds 64 packets. Once it is full it is stuck: head and tail are equal
  then, which means to the card that there is nothing to send.\<close>

fun fifo :: "nic_event list \<Rightarrow> u8 list list \<Rightarrow> int list \<times> u8 list list \<times> u8 list list" where
  "fifo [] q = ([], [], q)"
| "fifo (Send p # es) q =
     (if length q = TXDESCS then let (vs, wire, q') = fifo es q in (0 # vs, wire, q')
      else let (vs, wire, q') = fifo es (q @ [p]) in (int (length p) # vs, wire, q'))"
| "fifo (Card # es) q =
     (if length q = TXDESCS then fifo es q
      else case q of [] \<Rightarrow> fifo es []
        | p # ps \<Rightarrow> let (vs, wire, q') = fifo es ps in (vs, p # wire, q'))"

text \<open>The 64 slots from the head on: first the packets that are to be sent, then the free ones.\<close>

definition slot :: "nat \<Rightarrow> nat \<Rightarrow> nat" where
  "slot h i = (h + i) mod 64"

definition holds :: "nic \<Rightarrow> nat \<Rightarrow> u8 list \<Rightarrow> bool" where
  "holds n k p \<longleftrightarrow> tx_status (tx_desc_array n k) AND E1000_TXD_STAT_DD = 0 \<and> tx_bytes k n = p"

definition ring_at :: "nic_layout \<Rightarrow> nic \<Rightarrow> nat \<Rightarrow> u8 list list \<Rightarrow> bool" where
  "ring_at L n h q \<longleftrightarrow> h < 64 \<and> length q \<le> 64 \<and> nregs n E1000_TDH = of_nat h \<and> nregs n E1000_TDT = of_nat (slot h (length q))
     \<and> tx_enabled n \<and> tx_ring_set L n \<and> (\<forall>k < 64. tx_whole_packet (tx_desc_array n k))
     \<and> rsize (tx_pkt_buffer n) = TXDESCS * TX_PKT_SIZE
     \<and> (\<forall>k < 64. tx_addr (tx_desc_array n k) = kva2pa (tx_pkt_at L + of_nat (k * TX_PKT_SIZE)))
     \<and> (\<forall>i < length q. holds n (slot h i) (q ! i))
     \<and> (\<forall>i. length q \<le> i \<and> i < 64 \<longrightarrow> tx_status (tx_desc_array n (slot h i)) AND E1000_TXD_STAT_DD \<noteq> 0)"

definition ring :: "nic_layout \<Rightarrow> nic \<Rightarrow> u8 list list \<Rightarrow> bool" where
  "ring L n q \<longleftrightarrow> (\<exists>h. ring_at L n h q)"

lemma slot_less [simp]: "slot h i < 64" by (simp add: slot_def)

lemma slot_neq: "i < j \<Longrightarrow> j < 64 \<Longrightarrow> slot h j \<noteq> slot h i"
  using mod_eq_dvd_iff_nat [of "h + i" "h + j" 64] dvd_imp_le [of 64 "j - i"] by (auto simp: slot_def)

lemma slot_inj: "i < 64 \<Longrightarrow> j < 64 \<Longrightarrow> slot h i = slot h j \<longleftrightarrow> i = j"
  using slot_neq [of i j h] slot_neq [of j i h] by (cases i j rule: linorder_cases) auto

lemma slot_Suc: "slot (slot h 1) i = slot h (Suc i)"
  by (simp add: slot_def mod_simps)

lemma slot_0: "h < 64 \<Longrightarrow> slot h 0 = h" by (simp add: slot_def)

lemma slot_full: "h < 64 \<Longrightarrow> slot h 64 = h" by (simp add: slot_def)

lemma reg_inj: "a < 64 \<Longrightarrow> b < 64 \<Longrightarrow> (of_nat a :: u32) = of_nat b \<longleftrightarrow> a = b"
  by (simp add: word_of_nat_eq_iff take_bit_nat_eq_self)

section \<open>One step\<close>

lemma sint_slot: "t < 64 \<Longrightarrow> sint (of_nat t :: u32) = int t"
  using signed_of_int [of "int t", where 'b = 32 and 'a = int] by (simp add: signed_take_bit_int_eq_self)

lemma dd_bit: "(s XOR E1000_TXD_STAT_DD) AND E1000_TXD_STAT_DD = 0" if "s AND E1000_TXD_STAT_DD \<noteq> 0" for s :: u8
proof (rule bit_word_eqI)
  fix k assume "k < LENGTH(8)"
  have "bit s 0" using that by (auto simp: E1000_TXD_STAT_DD_def and_one_eq odd_iff_mod_2_eq_one bit_0)
  then show "bit ((s XOR E1000_TXD_STAT_DD) AND E1000_TXD_STAT_DD) k = bit (0 :: u8) k"
    by (auto simp: E1000_TXD_STAT_DD_def bit_simps)
qed

lemma ring_atD:
  assumes "ring_at L n h q"
  shows "h < 64" "length q \<le> 64" "nregs n E1000_TDH = of_nat h" "nregs n E1000_TDT = of_nat (slot h (length q))"
    "rsize (tx_pkt_buffer n) = TXDESCS * TX_PKT_SIZE"
    "k < 64 \<Longrightarrow> tx_addr (tx_desc_array n k) = kva2pa (tx_pkt_at L + of_nat (k * TX_PKT_SIZE))"
    "i < length q \<Longrightarrow> holds n (slot h i) (q ! i)"
    "length q \<le> i \<Longrightarrow> i < 64 \<Longrightarrow> tx_status (tx_desc_array n (slot h i)) AND E1000_TXD_STAT_DD \<noteq> 0"
    "tx_enabled n" "tx_ring_set L n" "k < 64 \<Longrightarrow> tx_whole_packet (tx_desc_array n k)"
  using assms unfolding ring_at_def by blast+

lemma transmit_full:
  assumes "ring_at L n h q" "length q = 64"
  shows "e1000_transmit txpacket len n = Some (0, n)"
proof -
  note R = ring_atD [OF assms(1)]
  have "nregs n E1000_TDT = of_nat h" using R(1,4) assms(2) by (simp add: slot_full)
  moreover have "tx_status (tx_desc_array n h) AND E1000_TXD_STAT_DD = 0"
    using R(7) [of 0] assms(2) R(1) by (simp add: holds_def slot_0)
  ultimately show ?thesis using R(1)
    by (simp add: e1000_transmit_def e1000_read_reg_def E1000_TDT_def E1000_ICR_def sint_slot TXDESCS_def index_def)
qed

text \<open>Storing a packet into one slot leaves the others alone.\<close>

lemma holds_other:
  assumes "k \<noteq> t" "tx_desc_array n' = (tx_desc_array n)(t := d)" "k < 64" "t < 64" "unat (tx_length (tx_desc_array n k)) \<le> 2048"
    "\<And>x. x < t * TX_PKT_SIZE \<or> t * TX_PKT_SIZE + 2048 \<le> x \<Longrightarrow> rbyte (tx_pkt_buffer n') x = rbyte (tx_pkt_buffer n) x"
  shows "holds n' k p = holds n k p"
proof -
  have "k * TX_PKT_SIZE + j < t * TX_PKT_SIZE \<or> t * TX_PKT_SIZE + 2048 \<le> k * TX_PKT_SIZE + j" if "j < 2048" for j
    using assms(1) that by (cases "k < t") (auto simp: TX_PKT_SIZE_def)
  then have "tx_bytes k n' = tx_bytes k n"
    using assms(1,2,5,6) by (auto simp: tx_bytes_def)
  then show ?thesis using assms(1,2) by (simp add: holds_def)
qed

lemma holds_length: "holds n k p \<Longrightarrow> unat (tx_length (tx_desc_array n k)) = length p"
  by (auto simp: holds_def tx_bytes_def)

lemma transmit_step:
  assumes r: "ring_at L n h q" and q: "length q < 64" "\<forall>x \<in> set q. length x \<le> 2048" and p: "length p \<le> 2048"
  shows "\<exists>n'. e1000_transmit (packet p) (int (length p)) n = Some (int (length p), n') \<and> ring_at L n' h (q @ [p])"
proof -
  note R = ring_atD [OF r]
  define t where "t = slot h (length q)"
  have t: "t < 64" "slot h (Suc (length q)) = (t + 1) mod 64" by (simp_all add: t_def slot_def mod_Suc_eq)
  have len: "memcpy_len (int (length p)) = length p" "unat (of_nat (length p) :: 16 word) = length p"
    using p by (simp_all add: memcpy_len_def unat_of_nat)
  have fit: "t * TX_PKT_SIZE + length p \<le> rsize (tx_pkt_buffer n)"
    using t(1) p by (simp add: R(5) TXDESCS_def TX_PKT_SIZE_def)
  define buf where "buf = (tx_pkt_buffer n)\<lparr>rbyte := blit (rbyte (tx_pkt_buffer n)) (t * TX_PKT_SIZE) (length p) (\<lambda>k. p ! k)\<rparr>"
  have buf: "memcpy (tx_pkt_buffer n) (t * TX_PKT_SIZE) (packet p) 0 (length p) = Some buf"
    using memcpy_eq [of 0 "length p" "packet p" "t * TX_PKT_SIZE"] fit by (simp add: buf_def packet_def)
  define n' where "n' = e1000_write_reg E1000_TDT (of_nat ((t + 1) mod TXDESCS)) (upd_tx_desc t (\<lambda>d. d\<lparr>tx_length :=
      word_of_int (int (length p)), tx_status := tx_status d XOR E1000_TXD_STAT_DD\<rparr>) (n\<lparr>tx_pkt_buffer := buf\<rparr>))"
  have dd: "tx_status (tx_desc_array n t) AND E1000_TXD_STAT_DD \<noteq> 0" using R(8) [of "length q"] q(1) by (simp add: t_def)
  have "e1000_transmit (packet p) (int (length p)) n = Some (int (length p), n')"
    using t(1) dd buf R(4) unfolding e1000_transmit_def
    by (simp add: e1000_read_reg_def E1000_ICR_def E1000_TDT_def t_def [symmetric] sint_slot TXDESCS_def index_def len(1) Let_def n'_def)
  moreover have "ring_at L n' h (q @ [p])"
    unfolding ring_at_def
  proof (intro conjI allI impI)
    have d: "tx_desc_array n' = (tx_desc_array n)(t := (tx_desc_array n t)\<lparr>tx_length := word_of_int (int (length p)),
        tx_status := tx_status (tx_desc_array n t) XOR E1000_TXD_STAT_DD\<rparr>)" "tx_pkt_buffer n' = buf"
      by (simp_all add: n'_def e1000_write_reg_def upd_tx_desc_def)
    fix i assume i: "i < length (q @ [p])"
    show "holds n' (slot h i) ((q @ [p]) ! i)"
    proof (cases "i = length q")
      case True
      have "tx_bytes t n' = p" by (rule nth_equalityI)
          (simp_all add: tx_bytes_def d len(2) buf_def blit_def)
      then show ?thesis using True dd_bit [OF dd] by (simp add: holds_def d(1) t_def [symmetric])
    next
      case False
      then have i': "i < length q" "slot h i \<noteq> t" using i q(1) by (simp_all add: t_def slot_inj)
      have "unat (tx_length (tx_desc_array n (slot h i))) = length (q ! i)"
        using R(7) [OF i'(1)] by (simp add: holds_length)
      then have "holds n' (slot h i) (q ! i) = holds n (slot h i) (q ! i)"
        by (intro holds_other [OF i'(2) d(1)]) (use t(1) i'(1) q(2) p in \<open>auto simp: d(2) buf_def blit_def\<close>)
      then show ?thesis using R(7) [OF i'(1)] i'(1) by (simp add: nth_append)
    qed
  next
    fix i assume i: "length (q @ [p]) \<le> i \<and> i < 64"
    then have "slot h i \<noteq> t" by (simp add: t_def slot_inj)
    then show "tx_status (tx_desc_array n' (slot h i)) AND E1000_TXD_STAT_DD \<noteq> 0"
      using R(8) [of i] i by (simp add: n'_def e1000_write_reg_def upd_tx_desc_def)
  qed (use R q(1) t in \<open>auto simp: n'_def e1000_write_reg_def upd_tx_desc_def e1000_registers buf_def TXDESCS_def
      tx_enabled_def tx_ring_set_def tx_whole_packet_def\<close>)
  ultimately show ?thesis by blast
qed

lemma card_idle:
  assumes "tx_unit L dev" "ring_at L n h q" "q = [] \<or> length q = 64"
  shows "dev n = ([], n)"
proof -
  note R = ring_atD [OF assms(2)]
  have "slot h (length q) = h" using assms(3) R(1) by (auto simp: slot_0 slot_full)
  then show ?thesis using tx_unitD(1) [OF assms(1)] R(3,4) by simp
qed

lemma card_step:
  assumes dev: "tx_unit L dev" and r: "ring_at L n h (p # ps)" and q: "length (p # ps) < 64" "p \<noteq> []"
  shows "dev n = ([p], tx_done h n) \<and> ring_at L (tx_done h n) (slot h 1) ps"
proof -
  note R = ring_atD [OF r]
  have ne: "nregs n E1000_TDH \<noteq> nregs n E1000_TDT"
    using R(1,3,4) q(1) slot_inj [of 0 "length (p # ps)" h] by (simp add: reg_inj slot_0)
  have "tx_bytes h n = p" using R(7) [of 0] R(1) by (simp add: holds_def slot_0)
  moreover have "tx_length (tx_desc_array n h) \<noteq> 0"
    using holds_length [of n h p] R(7) [of 0] R(1) q(2) by (auto simp: slot_0)
  ultimately have "dev n = ([p], tx_done h n)"
    using tx_unitD(2) [OF dev R(9,10) _ R(3) ne R(11) _ R(6)] R(1) by (simp add: TXDESCS_def)
  moreover have "ring_at L (tx_done h n) (slot h 1) ps"
    unfolding ring_at_def slot_Suc
  proof (intro conjI allI impI)
    have other: "holds (tx_done h n) k x = holds n k x" if "k \<noteq> h" for k x
      using that by (simp add: holds_def tx_bytes_def tx_done_def upd_tx_desc_def)
    fix i assume i: "i < length ps"
    then have "slot h (Suc i) \<noteq> h" using q(1) slot_inj [of "Suc i" 0 h] R(1) by (simp add: slot_0)
    then show "holds (tx_done h n) (slot h (Suc i)) (ps ! i)" using R(7) [of "Suc i"] i by (simp add: other)
  next
    fix i assume i: "length ps \<le> i \<and> i < 64"
    have "(s OR E1000_TXD_STAT_DD) AND E1000_TXD_STAT_DD \<noteq> 0" for s :: u8
    proof -
      have "bit ((s OR E1000_TXD_STAT_DD) AND E1000_TXD_STAT_DD) 0" by (simp add: E1000_TXD_STAT_DD_def bit_simps)
      then show ?thesis by (metis bit_0_eq bot_apply bot_bool_def)
    qed
    then show "tx_status (tx_desc_array (tx_done h n) (slot h (Suc i))) AND E1000_TXD_STAT_DD \<noteq> 0"
      using R(8) [of "Suc i"] i R(1) slot_full [of h] by (cases "i = 63") (auto simp: tx_done_def upd_tx_desc_def)
  qed (use R q(1) in \<open>auto simp: tx_done_def upd_tx_desc_def e1000_registers slot_def TXDESCS_def
      tx_enabled_def tx_ring_set_def tx_whole_packet_def\<close>)
  ultimately show ?thesis by blast
qed

section \<open>The ring is the queue\<close>

lemma ring_run_fifo:
  assumes "tx_unit L dev" "ring_at L n h q" "\<forall>x \<in> set q. x \<noteq> [] \<and> length x \<le> 2048"
    "\<forall>p. Send p \<in> set es \<longrightarrow> p \<noteq> [] \<and> length p \<le> 2048"
  shows "\<exists>n' h'. ring_run dev es n = Some (fst (fifo es q), fst (snd (fifo es q)), n')
    \<and> ring_at L n' h' (snd (snd (fifo es q)))"
  using assms(2-4)
proof (induction es q arbitrary: n h rule: fifo.induct)
  case (1 q)
  then show ?case by auto
next
  case (2 p es q)
  show ?case
  proof (cases "length q = 64")
    case True
    with 2 obtain n' h' where "ring_run dev es n = Some (fst (fifo es q), fst (snd (fifo es q)), n')"
      "ring_at L n' h' (snd (snd (fifo es q)))" by (force simp: TXDESCS_def)
    then show ?thesis using True transmit_full [OF 2(3) True]
      by (cases "fifo es q") (auto simp: TXDESCS_def)
  next
    case False
    then have q: "length q < 64" using ring_atD(2) [OF 2(3)] by simp
    obtain n1 where n1: "e1000_transmit (packet p) (int (length p)) n = Some (int (length p), n1)" "ring_at L n1 h (q @ [p])"
      using transmit_step [OF 2(3) q, of p] 2(4,5) by auto
    obtain n' h' where "ring_run dev es n1 = Some (fst (fifo es (q @ [p])), fst (snd (fifo es (q @ [p]))), n')"
      "ring_at L n' h' (snd (snd (fifo es (q @ [p]))))"
      using 2(2) [OF _ n1(2)] False 2(4,5) by (force simp: TXDESCS_def)
    then show ?thesis using False n1(1) by (cases "fifo es (q @ [p])") (auto simp: TXDESCS_def)
  qed
next
  case (3 es q)
  show ?case
  proof (cases "q = [] \<or> length q = 64")
    case True
    then have f: "fifo (Card # es) q = fifo es q" by (auto simp: TXDESCS_def)
    have "\<exists>n' h'. ring_run dev es n = Some (fst (fifo es q), fst (snd (fifo es q)), n') \<and> ring_at L n' h' (snd (snd (fifo es q)))"
      using True 3 by (auto simp: TXDESCS_def)
    then show ?thesis unfolding f using card_idle [OF assms(1) 3(4) True] by auto
  next
    case False
    then obtain p ps where q: "q = p # ps" by (cases q) auto
    have l: "length (p # ps) < 64" using ring_atD(2) [OF 3(4)] False q by auto
    have "p \<noteq> []" using 3(5) by (simp add: q)
    note s = card_step [OF assms(1) 3(4) [unfolded q] l this]
    have "\<exists>n' h'. ring_run dev es (tx_done h n) = Some (fst (fifo es ps), fst (snd (fifo es ps)), n')
        \<and> ring_at L n' h' (snd (snd (fifo es ps)))"
      using 3(3) [of p ps "tx_done h n" "slot h 1"] s q False 3(5,6) by (auto simp: TXDESCS_def)
    then show ?thesis using s False by (cases "fifo es ps") (auto simp: q TXDESCS_def)
  qed
qed

text \<open>Sixty-four packets in a row block the queue for ever.\<close>

lemma fifo_stuck: "length q = 64 \<Longrightarrow> fst (snd (fifo es q)) = [] \<and> snd (snd (fifo es q)) = q"
proof (induction es)
  case (Cons e es)
  then show ?case by (cases e; cases "fifo es q") (auto simp: TXDESCS_def)
qed simp

lemma fifo_sends: "length q + length ps \<le> 64 \<Longrightarrow> snd (fifo (map Send ps @ es) q) = snd (fifo es (q @ ps))"
proof (induction ps arbitrary: q)
  case (Cons p ps)
  have "snd (fifo (map Send ps @ es) (q @ [p])) = snd (fifo es (q @ p # ps))"
    using Cons.IH [of "q @ [p]"] Cons.prems by simp
  then show ?case using Cons.prems by (cases "fifo (map Send ps @ es) (q @ [p])") (auto simp: TXDESCS_def)
qed simp

text \<open>Packets leave in the order in which they were accepted, each one once.\<close>

fun accepted :: "nic_event list \<Rightarrow> u8 list list \<Rightarrow> u8 list list" where
  "accepted [] q = []"
| "accepted (Send p # es) q = (if length q = TXDESCS then accepted es q else p # accepted es (q @ [p]))"
| "accepted (Card # es) q = (if length q = TXDESCS then accepted es q else accepted es (tl q))"

lemma fifo_order: "fst (snd (fifo es q)) @ snd (snd (fifo es q)) = q @ accepted es q"
proof (induction es q rule: fifo.induct)
  case (2 p es q)
  then show ?case by (cases "fifo es q"; cases "fifo es (q @ [p])") (auto simp: TXDESCS_def)
next
  case (3 es q)
  then show ?case by (cases q; cases "fifo es (tl q)") (auto simp: TXDESCS_def)
qed simp

lemma clear_icr_result: "clear_icr n = Some (n\<lparr>nregs := (nregs n)(E1000_ICR := 0)\<rparr>)"
  by (subst clear_icr.simps, simp add: e1000_read_reg_def Let_def, subst clear_icr.simps)
    (auto simp: e1000_read_reg_def Let_def)

lemma tx_control_bits:
  "(E1000_TCTL_PSP OR E1000_TCTL_EN OR 262400) AND E1000_TCTL_EN \<noteq> 0" "E1000_TXD_CMD_EOP \<noteq> 0"
  "((NOT E1000_TXD_CMD_DEXT) AND E1000_TXD_CMD_RS OR E1000_TXD_CMD_EOP) AND E1000_TXD_CMD_RS \<noteq> 0"
  "((NOT E1000_TXD_CMD_DEXT) AND E1000_TXD_CMD_RS OR E1000_TXD_CMD_EOP) AND E1000_TXD_CMD_DEXT = 0"
  by code_simp+

lemma e1000_init_ring:
  assumes "rsize (tx_pkt_buffer n0) = TXDESCS * TX_PKT_SIZE"
  shows "\<exists>n. e1000_init L n0 = Some n \<and> ring_at L n 0 []"
  using assms
  by (simp add: e1000_init_def e1000_reset_def Let_def clear_icr_result e1000_configure_tx_def e1000_configure_rx_def
      ring_at_def e1000_write_reg_def e1000_write_reg_array_def e1000_registers TXDESCS_def init_tx_desc_def
      slot_def E1000_TXD_STAT_DD_def tx_enabled_def tx_ring_set_def tx_whole_packet_def tx_control_bits)

end
