(* ===== verification/Plic.thy ===== *)
theory Plic
  imports Kstate
begin

text \<open>
  The platform interrupt controller, \<open>drivers/plic.c\<close>. Its registers are 32-bit words at the
  addresses from \<open>plic_regs\<close> on; what the controller itself does to them is not part of the model.
\<close>

definition PRIORITY_BASE :: u64 where "PRIORITY_BASE = 0"
definition PRIORITY_PER_ID :: u64 where "PRIORITY_PER_ID = 4"
definition ENABLE_BASE :: u64 where "ENABLE_BASE = 0x2000"
definition CONTEXT_BASE :: u64 where "CONTEXT_BASE = 0x200000"
definition CONTEXT_THRESHOLD :: u64 where "CONTEXT_THRESHOLD = 0x00"
definition CONTEXT_CLAIM :: u64 where "CONTEXT_CLAIM = 0x04"
definition PLIC_E1000_PYNQ_IRQ :: nat where "PLIC_E1000_PYNQ_IRQ = 3"
definition PLIC_E1000_QEMU_IRQ :: nat where "PLIC_E1000_QEMU_IRQ = 33"

record plic_handler =
  present :: bool
  hart_base :: u64
  enable_base :: u64

record plic =
  plic_handlers :: plic_handler
  plic_regs :: u64
  io :: "u64 \<Rightarrow> u32"

definition writel :: "u32 \<Rightarrow> u64 \<Rightarrow> plic \<Rightarrow> plic" where
  "writel v a c = c\<lparr>io := (io c)(a := v)\<rparr>"

definition readl :: "u64 \<Rightarrow> plic \<Rightarrow> u32" where
  "readl a c = io c a"

definition plic_toggle :: "plic_handler \<Rightarrow> nat \<Rightarrow> bool \<Rightarrow> plic \<Rightarrow> plic" where
  "plic_toggle handler hwirq enable c =
     (let reg = enable_base handler + of_nat (hwirq div 32 * 4);
          hwirq_mask = push_bit (hwirq mod 32) 1
      in if enable then writel (readl reg c OR hwirq_mask) reg c
         else writel (readl reg c AND NOT hwirq_mask) reg c)"

definition plic_irq_unmask :: "nat \<Rightarrow> plic \<Rightarrow> plic" where
  "plic_irq_unmask hwirq c =
     (let c1 = writel 1 (plic_regs c + PRIORITY_BASE + of_nat hwirq * PRIORITY_PER_ID) c
      in if present (plic_handlers c1) then plic_toggle (plic_handlers c1) hwirq True c1 else c1)"

definition plic_claim :: "plic \<Rightarrow> u32" where
  "plic_claim c = readl (hart_base (plic_handlers c) + CONTEXT_CLAIM) c"

definition plic_complete :: "u32 \<Rightarrow> plic \<Rightarrow> plic" where
  "plic_complete hwirq c = writel hwirq (hart_base (plic_handlers c) + CONTEXT_CLAIM) c"

definition plic_init :: "u64 \<Rightarrow> nat \<Rightarrow> plic \<Rightarrow> plic" where
  "plic_init plic_regs_addr nr_irqs c =
     (let c1 = c\<lparr>plic_regs := plic_regs_addr\<rparr>;
          threshold = (if present (plic_handlers c1) then 0xffffffff else 0);
          c2 = (if present (plic_handlers c1) then c1
                else c1\<lparr>plic_handlers := \<lparr>present = True, hart_base = plic_regs c1 + CONTEXT_BASE,
                       enable_base = plic_regs c1 + ENABLE_BASE\<rparr>\<rparr>);
          c3 = writel threshold (hart_base (plic_handlers c2) + CONTEXT_THRESHOLD) c2;
          c4 = fold (\<lambda>hwirq. plic_toggle (plic_handlers c3) hwirq False) [1..<nr_irqs + 1] c3;
          hwirq = nr_irqs + 1
      in if PLIC_E1000_QEMU_IRQ < hwirq then plic_irq_unmask PLIC_E1000_QEMU_IRQ c4
         else plic_irq_unmask PLIC_E1000_PYNQ_IRQ c4)"

section \<open>Which interrupts are enabled\<close>

definition irq_enabled :: "plic \<Rightarrow> nat \<Rightarrow> bool" where
  "irq_enabled c k \<longleftrightarrow> bit (readl (enable_base (plic_handlers c) + of_nat (k div 32 * 4)) c) (k mod 32)"

lemma enable_word_inj:
  assumes "j < 1024" "k < 1024"
  shows "(b + of_nat (j div 32 * 4) = b + (of_nat (k div 32 * 4) :: u64)) \<longleftrightarrow> j div 32 = k div 32"
  using assms by (simp add: word_of_nat_eq_iff take_bit_nat_eq_self del: of_nat_mult)

lemma toggle_enabled:
  assumes "j < 1024" "k < 1024" "h = plic_handlers c"
  shows "irq_enabled (plic_toggle h j e c) k = (if j = k then e else irq_enabled c k)"
    and "plic_handlers (plic_toggle h j e c) = plic_handlers c"
proof -
  have jk: "j = k \<longleftrightarrow> j div 32 = k div 32 \<and> j mod 32 = k mod 32" by (metis div_mult_mod_eq)
  show "irq_enabled (plic_toggle h j e c) k = (if j = k then e else irq_enabled c k)"
    using enable_word_inj [OF assms(1,2), of "enable_base h"] assms(3) jk
    by (auto simp: irq_enabled_def plic_toggle_def writel_def readl_def Let_def bit_simps simp del: add_left_cancel)
qed (simp add: plic_toggle_def writel_def Let_def)

lemma plic_regs_fold: "plic_regs (fold (\<lambda>j. plic_toggle h j False) js c) = plic_regs c"
  by (induction js arbitrary: c) (simp_all add: plic_toggle_def writel_def Let_def)

lemma toggle_all_off:
  assumes "n \<le> 1024" "h = plic_handlers c" "k < 1024"
  shows "irq_enabled (fold (\<lambda>j. plic_toggle h j False) [1..<n] c) k = (irq_enabled c k \<and> \<not> (1 \<le> k \<and> k < n))
    \<and> plic_handlers (fold (\<lambda>j. plic_toggle h j False) [1..<n] c) = h"
  using assms(1)
proof (induction n)
  case (Suc n)
  show ?case
  proof (cases "n = 0")
    case False
    then show ?thesis using Suc toggle_enabled [of n k h "fold (\<lambda>j. plic_toggle h j False) [1..<n] c" False] assms(3) by auto
  qed (use assms in simp)
qed (use assms in simp)

text \<open>After \<open>plic_init\<close> of \<open>nr_irqs\<close> interrupts exactly the one of the network card is enabled.\<close>

lemma plic_init_enables:
  assumes n: "PLIC_E1000_PYNQ_IRQ \<le> nr_irqs" "nr_irqs < 1024" and k: "1 \<le> k" "k \<le> nr_irqs"
    and new: "\<not> present (plic_handlers c)"
  shows "irq_enabled (plic_init a nr_irqs c) k \<longleftrightarrow>
    k = (if PLIC_E1000_QEMU_IRQ \<le> nr_irqs then PLIC_E1000_QEMU_IRQ else PLIC_E1000_PYNQ_IRQ)"
proof -
  let ?h = "\<lparr>present = True, hart_base = a + CONTEXT_BASE, enable_base = a + ENABLE_BASE\<rparr>"
  define c3 where "c3 = writel 0 (hart_base ?h + CONTEXT_THRESHOLD) (c\<lparr>plic_regs := a, plic_handlers := ?h\<rparr>)"
  define c4 where "c4 = fold (\<lambda>j. plic_toggle ?h j False) [1..<nr_irqs + 1] c3"
  define e where "e = (if PLIC_E1000_QEMU_IRQ \<le> nr_irqs then PLIC_E1000_QEMU_IRQ else PLIC_E1000_PYNQ_IRQ)"
  have h3: "plic_handlers c3 = ?h" by (simp add: c3_def writel_def)
  have c4: "plic_handlers c4 = ?h" "\<And>j. 1 \<le> j \<Longrightarrow> j \<le> nr_irqs \<Longrightarrow> \<not> irq_enabled c4 j"
    using toggle_all_off [of "nr_irqs + 1" ?h c3] n(2) h3 by (auto simp: c4_def)
  define c5 where "c5 = writel 1 (plic_regs c4 + PRIORITY_BASE + of_nat e * PRIORITY_PER_ID) c4"
  have e: "e < 1024" "1 \<le> e" by (simp_all add: e_def PLIC_E1000_QEMU_IRQ_def PLIC_E1000_PYNQ_IRQ_def)
  have r: "plic_init a nr_irqs c = plic_toggle ?h e True c5"
    using new c4(1) by (simp add: plic_init_def Let_def plic_irq_unmask_def writel_def c3_def c4_def c5_def e_def)
  have regs: "plic_regs c4 = a" unfolding c4_def plic_regs_fold by (simp add: c3_def writel_def)
  have apart: "a + PRIORITY_BASE + of_nat e * PRIORITY_PER_ID \<noteq> enable_base ?h + of_nat (k div 32 * 4)"
  proof -
    have "unat (of_nat (e * 4) :: u64) \<noteq> unat (of_nat (0x2000 + k div 32 * 4) :: u64)"
      using e(1) k(2) n(2) by (simp add: unat_of_nat e_def PLIC_E1000_QEMU_IRQ_def PLIC_E1000_PYNQ_IRQ_def del: of_nat_mult of_nat_add)
    then have "(of_nat (e * 4) :: u64) \<noteq> of_nat (0x2000 + k div 32 * 4)" by metis
    then show ?thesis by (simp add: PRIORITY_BASE_def PRIORITY_PER_ID_def ENABLE_BASE_def add.assoc)
  qed
  have "irq_enabled c5 k = irq_enabled c4 k"
    using apart by (simp add: irq_enabled_def c5_def readl_def writel_def regs c4(1))
  moreover have "plic_handlers c5 = ?h" by (simp add: c5_def writel_def c4(1))
  ultimately show ?thesis using toggle_enabled(1) [of e k ?h c5 True] c4(2) [of k] e k n(2)
    unfolding r e_def [symmetric] by auto
qed

end
