(* ===== verification/Net.thy ===== *)
theory Net
  imports Ring Plic Boot
begin

text \<open>
  The network system calls and the network interrupt, \<open>kernel/net/net.c\<close>, on the kernel state, the
  card and the small buffer for packets that nobody waits for, and \<open>handle_irq_ext\<close> of
  \<open>kernel/irq/irq.c\<close>. Messages are left out.

  A buffer of the caller is user memory, a buffer of a waiting task, whose address \<open>get_kva\<close> has
  found, is kernel memory.
\<close>

section \<open>The state\<close>

definition RECV_BUFFER_NUM :: nat where "RECV_BUFFER_NUM = 1"
definition RECV_BUFFER_SIZE :: nat where "RECV_BUFFER_SIZE = 128"

record 'd net =
  kern :: "'d kernel"
  card :: nic
  irqs :: plic
  pt :: nat
  ph :: nat
  pk_dd :: "nat \<Rightarrow> bool"
  pk_buff :: "nat \<Rightarrow> region"
  pk_lens :: "nat \<Rightarrow> nat"

definition on_kern :: "('d kernel \<Rightarrow> 'd kernel) \<Rightarrow> 'd net \<Rightarrow> 'd net" where
  "on_kern f s = s\<lparr>kern := f (kern s)\<rparr>"

text \<open>The result register of a waiting task, in the trap frame on its kernel stack.\<close>

definition set_result :: "pcb_ref \<Rightarrow> u64 \<Rightarrow> 'd kernel \<Rightarrow> 'd kernel" where
  "set_result p v s =
     (let a = kernel_sp (pcbs s p)
      in s\<lparr>frames := (frames s)(a := (frames s a)\<lparr>regs := (regs (frames s a))(10 := v)\<rparr>)\<rparr>)"

text \<open>Reading and writing through a user address and through a kernel address.\<close>

definition kernel_region :: "'d kernel \<Rightarrow> u64 \<Rightarrow> region" where
  "kernel_region s a = \<lparr>rsize = 2 ^ 64 - unat a, rbyte = (\<lambda>i. byte_at (mem (mm s)) (a + of_nat i))\<rparr>"

definition put_user :: "u64 \<Rightarrow> u8 list \<Rightarrow> 'd kernel \<Rightarrow> 'd kernel option" where
  "put_user a bytes s = Some (s\<lparr>umem := (umem s)(csr_satp s (hart s) := deliver a bytes (user_view s))\<rparr>)"

definition put_kernel :: "u64 \<Rightarrow> u8 list \<Rightarrow> 'd kernel \<Rightarrow> 'd kernel option" where
  "put_kernel a bytes s = do {
     m \<leftarrow> for_each (\<lambda>i. store_byte (a + of_nat i) (bytes ! i)) [0..<length bytes] (mem (mm s));
     Some (s\<lparr>mm := (mm s)\<lparr>mem := m\<rparr>\<rparr>) }"

definition int_bytes :: "int \<Rightarrow> u8 list" where
  "int_bytes n = map (byte_of (word_of_int n :: u32)) [0..<4]"

section \<open>Sending\<close>

definition do_net_send :: "(nat \<Rightarrow> u64) \<Rightarrow> u64 \<Rightarrow> int \<Rightarrow> 'd net \<Rightarrow> (int \<times> 'd net) option" where
  "do_net_send rt txpacket len s = do {
     let c1 = e1000_write_reg E1000_IMS E1000_ICR_TXQE (card s);
     (len', c2) \<leftarrow> e1000_transmit (user_region (kern s) txpacket) len c1;
     let s1 = s\<lparr>card := c2\<rparr>;
     if len' \<noteq> 0 then Some (len', s1)
     else do {
       let k = kern s1;
       let cur = current_running k;
       kva \<leftarrow> get_kva txpacket (satp (pcbs k cur)) (mem (mm k));
       let k1 = upd_pcb cur (\<lambda>t. t\<lparr>net_buffer := kva, net_length := len', status := TASK_BLOCKED\<rparr>) k;
       k2 \<leftarrow> do_scheduler rt (do_block cur NetSendQ k1);
       Some (0, s1\<lparr>kern := k2\<rparr>) } }"

definition update_net_send :: "'d net \<Rightarrow> 'd net option" where
  "update_net_send s =
     (if \<not> LIST_IS_EMPTY (Head NetSendQ) (links (kern s))
      then do {
        let node = lnext (links (kern s)) (Head NetSendQ);
        p \<leftarrow> NODE_TO_PCB node;
        let t = pcbs (kern s) p;
        (v, c) \<leftarrow> e1000_transmit (kernel_region (kern s) (net_buffer t)) (net_length t) (card s);
        let k1 = set_status p TASK_READY (do_unblock node (kern s));
        Some (s\<lparr>card := c, kern := set_result p (word_of_int (net_length t)) k1\<rparr>) }
      else Some (s\<lparr>card := e1000_write_reg E1000_IMC E1000_ICR_TXQE (card s)\<rparr>))"

section \<open>Receiving\<close>

text \<open>\<open>poll\<close> takes a packet from the buffer or from the card; no bytes mean that there is none.\<close>

definition poll :: "'d net \<Rightarrow> (u8 list \<times> 'd net) option" where
  "poll s =
     (if pk_dd s (pt s)
      then do {
        let len = pk_lens s (pt s);
        ensure (len \<le> rsize (pk_buff s (pt s)));
        let bytes = map (rbyte (pk_buff s (pt s))) [0..<len];
        Some (bytes, s\<lparr>pk_dd := (pk_dd s)(pt s := False), pt := (pt s + 1) mod RECV_BUFFER_NUM\<rparr>) }
      else do {
        (bytes, c) \<leftarrow> e1000_poll (card s);
        Some (bytes, s\<lparr>card := c\<rparr>) })"

text \<open>The loop of \<open>do_net_recv\<close> and of \<open>update_net_recv\<close>: a packet is stored behind the ones before
  it, and its length in the array \<open>lens\<close>, as long as it is wanted. \<open>put\<close> writes to the kind of
  memory the buffers are in.\<close>

function recv_loop ::
  "(u64 \<Rightarrow> u8 list \<Rightarrow> 'd kernel \<Rightarrow> 'd kernel option) \<Rightarrow> u64 \<Rightarrow> u64 \<Rightarrow> int \<Rightarrow> int \<Rightarrow> int \<Rightarrow> 'd net \<Rightarrow> (int \<times> 'd net) option" where
  "recv_loop put buf lens num i bias s = do {
     (bytes, s1) \<leftarrow> poll s;
     k1 \<leftarrow> put (buf + word_of_int bias) bytes (kern s1);
     let s2 = s1\<lparr>kern := k1\<rparr>;
     if bytes \<noteq> [] \<and> i < num
     then do {
       k3 \<leftarrow> put (lens + 4 * word_of_int i) (int_bytes (int (length bytes))) (kern s2);
       recv_loop put buf lens num (i + 1) (bias + int (length bytes)) (s2\<lparr>kern := k3\<rparr>) }
     else Some (i, s2) }"
  by pat_completeness auto
termination
  by (relation "measure (\<lambda>(put, buf, lens, num, i, bias, s). nat (num - i))") auto

declare recv_loop.simps [simp del]

definition do_net_recv :: "(nat \<Rightarrow> u64) \<Rightarrow> u64 \<Rightarrow> int \<Rightarrow> u64 \<Rightarrow> 'd net \<Rightarrow> (int \<times> 'd net) option" where
  "do_net_recv rt rxbuffer pkt_num pkt_lens s = do {
     (i, s1) \<leftarrow> recv_loop put_user rxbuffer pkt_lens pkt_num 0 0 s;
     if i \<noteq> pkt_num
     then do {
       let k = kern s1;
       let cur = current_running k;
       buf \<leftarrow> get_kva rxbuffer (satp (pcbs k cur)) (mem (mm k));
       lens \<leftarrow> get_kva pkt_lens (satp (pcbs k cur)) (mem (mm k));
       let k1 = upd_pcb cur (\<lambda>t. t\<lparr>net_buffer := buf, net_length := pkt_num, net_curr_num := i,
             net_packet_size := lens, status := TASK_BLOCKED\<rparr>) k;
       k2 \<leftarrow> do_scheduler rt (do_block cur NetRecvQ k1);
       Some (pkt_num, s1\<lparr>kern := k2\<rparr>) }
     else Some (pkt_num, s1) }"

text \<open>Packets that nobody waits for go into the small buffer, as long as it has room.\<close>

partial_function (option) buffer_loop :: "'d net \<Rightarrow> 'd net option" where
  "buffer_loop s =
     (if \<not> pk_dd s (ph s)
      then do {
        (bytes, c) \<leftarrow> e1000_poll (card s);
        buf \<leftarrow> memcpy (pk_buff s (ph s)) 0 (packet bytes) 0 (length bytes);
        let s1 = s\<lparr>card := c, pk_buff := (pk_buff s)(ph s := buf), pk_lens := (pk_lens s)(ph s := length bytes)\<rparr>;
        if bytes \<noteq> []
        then buffer_loop (s1\<lparr>pk_dd := (pk_dd s1)(ph s1 := True), ph := (ph s1 + 1) mod RECV_BUFFER_NUM\<rparr>)
        else Some s1 }
      else Some s)"

definition update_net_recv :: "'d net \<Rightarrow> 'd net option" where
  "update_net_recv s =
     (if \<not> LIST_IS_EMPTY (Head NetRecvQ) (links (kern s))
      then do {
        let node = lnext (links (kern s)) (Head NetRecvQ);
        p \<leftarrow> NODE_TO_PCB node;
        let t = pcbs (kern s) p;
        let bias = sum_list (map (\<lambda>j. load_int32 (mem (mm (kern s))) (net_packet_size t + 4 * of_nat j)) [0..<nat (net_curr_num t)]);
        (i, s1) \<leftarrow> recv_loop put_kernel (net_buffer t) (net_packet_size t) (net_length t) (net_curr_num t) bias s;
        if i \<noteq> net_length t then Some (on_kern (upd_pcb p (\<lambda>t. t\<lparr>net_curr_num := i\<rparr>)) s1)
        else do {
          let node' = lnext (links (kern s1)) (Head NetRecvQ);
          Some (on_kern (\<lambda>k. set_result p (word_of_int i) (set_status p TASK_READY (do_unblock node' k))) s1) } }
      else buffer_loop s)"

section \<open>Interrupts\<close>

definition net_handle_irq :: "'d net \<Rightarrow> 'd net option" where
  "net_handle_irq s = do {
     let (icr, c) = e1000_read_reg E1000_ICR (card s);
     let s1 = s\<lparr>card := c\<rparr>;
     s2 \<leftarrow> (if icr AND E1000_ICR_RXDMT0 \<noteq> 0 then update_net_recv s1 else Some s1);
     if icr AND E1000_ICR_TXQE \<noteq> 0 then update_net_send s2 else Some s2 }"

definition handle_irq_ext :: "'d net \<Rightarrow> 'd net option" where
  "handle_irq_ext s = do {
     let irq = plic_claim (irqs s);
     s1 \<leftarrow> (if irq = of_nat PLIC_E1000_QEMU_IRQ then net_handle_irq s else Some s);
     Some (s1\<lparr>irqs := plic_complete irq (irqs s1)\<rparr>) }"

end
