(* ===== verification/NetOps.thy ===== *)
theory NetOps
  imports Net SysOps
begin

text \<open>
  The network calls and the invariant of the kernel: a sender that finds the ring full blocks, and
  the interrupt wakes it. What it wakes with is not its packet: the length that \<open>do_net_send\<close>
  has stored for the blocked sender is the result of the failed attempt, which is 0.
\<close>

lemma net_send_blocks:
  fixes s :: "'d net"
  assumes s: "sysinv (kern s) Q" and user: "user_running (kern s)"
    and full: "e1000_transmit (user_region (kern s) txpacket) len (e1000_write_reg E1000_IMS E1000_ICR_TXQE (card s)) = Some (0, c)"
    and kva: "get_kva txpacket (satp (pcbs (kern s) (current_running (kern s)))) (mem (mm (kern s))) = Some a"
  shows "\<exists>s' Q'. do_net_send rt txpacket len s = Some (0, s') \<and> sysinv (kern s') Q' \<and> card s' = c
    \<and> Q' NetSendQ = Q NetSendQ @ [current_running (kern s)]
    \<and> net_length (pcbs (kern s') (current_running (kern s))) = 0"
proof -
  let ?k = "kern s" and ?c = "current_running (kern s)"
  note S = preschedD [OF sysinvD(1) [OF s]] and run = sysinvD(2) [OF s]
  let ?b = "block_current NetSendQ ?k" and ?Q = "Q(NetSendQ := Q NetSendQ @ [?c])"
  define t where "t = do_block ?c NetSendQ (upd_pcb ?c (\<lambda>t. t\<lparr>net_buffer := a, net_length := 0, status := TASK_BLOCKED\<rparr>) ?k)"
  have kb: "kinv ?b ?Q"
    unfolding block_current_def by (rule kinv_block [OF S(1) run]) simp
  have kt: "kinv t ?Q" by (rule kinv_change [OF kb]) (simp_all add: t_def block_current_def do_block_def)
  have "presched t ?Q"
    by (rule blocked_presched [OF s user _ kt]) (simp_all add: t_def do_block_def)
  then obtain k' where k': "do_scheduler rt t = Some k'" "sysinv k' (sched_queues rt t ?Q)" "sched_frame t k'"
    using do_scheduler_sysinv by blast
  have "pcbs k' ?c = (pcbs t ?c)\<lparr>status := pstatus k' ?c, wakeup_time := wakeup_time (pcbs k' ?c)\<rparr>"
    using k'(3) unfolding sched_frame_def same_task_def by blast
  then have "net_length (pcbs k' ?c) = net_length ((pcbs t ?c)\<lparr>status := pstatus k' ?c, wakeup_time := wakeup_time (pcbs k' ?c)\<rparr>)"
    by (rule arg_cong)
  then have "net_length (pcbs k' ?c) = 0" by (simp add: t_def do_block_def)
  moreover have "do_net_send rt txpacket len s = Some (0, s\<lparr>card := c, kern := k'\<rparr>)"
    using full kva k'(1) by (simp add: do_net_send_def Let_def t_def)
  ultimately show ?thesis using k'(2) sched_queues_other [of NetSendQ rt t ?Q]
    by (intro exI [of _ "s\<lparr>card := c, kern := k'\<rparr>"] exI [of _ "sched_queues rt t ?Q"]) simp
qed

text \<open>The interrupt passes the stored packet to the card and wakes the longest waiting sender.\<close>

lemma net_send_wakes:
  fixes s :: "'d net"
  assumes s: "sysinv (kern s) Q" and q: "Q NetSendQ = p # ps"
    and sent: "e1000_transmit (kernel_region (kern s) (net_buffer (pcbs (kern s) p))) (net_length (pcbs (kern s) p)) (card s)
      = Some (v, c)"
  shows "\<exists>s'. update_net_send s = Some s' \<and> sysinv (kern s') (Q(NetSendQ := ps, ReadyQ := p # Q ReadyQ)) \<and> card s' = c
    \<and> regs (frames (kern s') (kernel_sp (pcbs (kern s') p))) 10 = word_of_int (net_length (pcbs (kern s) p))"
proof -
  let ?k = "kern s" and ?Q = "Q(NetSendQ := ps, ReadyQ := p # Q ReadyQ)"
  note S = preschedD [OF sysinvD(1) [OF s]]
  define t where "t = set_result p (word_of_int (net_length (pcbs ?k p))) (set_status p TASK_READY (do_unblock (PList p) ?k))"
  have front: "lnext (links ?k) (Head NetSendQ) = PList p" "\<not> LIST_IS_EMPTY (Head NetSendQ) (links ?k)"
    using queues_front [OF kinvD(1) [OF S(1)], of NetSendQ] q by (simp_all add: front_node_def LIST_IS_EMPTY_def)
  have step: "update_net_send s = Some (s\<lparr>card := c, kern := t\<rparr>)"
    using front sent by (simp add: update_net_send_def t_def Let_def)
  have u: "kinv (set_status p TASK_READY (do_unblock (PList p) ?k)) ?Q"
    using kinv_unblock [OF S(1), of p NetSendQ] q by simp
  have "kinv t ?Q" by (rule kinv_change [OF u]) (simp_all add: t_def set_result_def Let_def)
  moreover have "linv t ?Q" using S(2) by (simp add: linv_def t_def set_result_def Let_def)
  moreover have "wakes ?k (set_status p TASK_READY (do_unblock (PList p) ?k))" by (intro wakes_after(1) wakes_frame)
  then have "wakes ?k t" by (simp add: wakes_def t_def set_result_def Let_def)
  ultimately have "sysinv t ?Q"
    by (intro sysinv_wakes [OF s]) (use q in \<open>auto split: if_splits intro: exI [of _ NetSendQ]\<close>)
  then show ?thesis unfolding step by (simp add: t_def set_result_def Let_def do_unblock_def)
qed

end
