(* ===== verification/NetProps.thy ===== *)
theory NetProps
  imports NetOps
begin

text \<open>
  The transmit ring of the network card is a queue of packets, which is stuck once it is full.
\<close>

text \<open>(C37) Driver and card together are a first-in first-out queue. Of the card only what \<open>tx_unit\<close> says is used: it sends
  a non-empty packet only while its transmit unit is enabled, its base and length registers describe the driver's
  descriptors and the descriptor asks for it. After \<open>e1000_init\<close>, whatever the order of calls of \<open>e1000_transmit\<close>
  with packets of 1 to 2048 bytes and of steps of the card, the calls return the length of
  each packet that is accepted, and the card sends exactly the accepted packets, once each, with their
  bytes and in order, except that 64 packets that wait at the same time are never sent, and no
  packet is accepted after them, because head and tail are then equal and the card sees nothing to do.\<close>

theorem transmit_ring:
  assumes "tx_unit L dev" "rsize (tx_pkt_buffer n0) = TXDESCS * TX_PKT_SIZE"
    and "\<forall>p. Send p \<in> set es \<longrightarrow> p \<noteq> [] \<and> length p \<le> TX_PKT_SIZE"
  shows "\<exists>n n' wire left. e1000_init L n0 = Some n \<and> ring_run dev es n = Some (fst (fifo es []), wire, n')
    \<and> ring L n' left \<and> wire @ left = accepted es []
    \<and> (\<forall>ps es'. es = map Send ps @ es' \<longrightarrow> length ps = 64 \<longrightarrow> wire = [] \<and> accepted es [] = ps)"
proof -
  obtain n where n: "e1000_init L n0 = Some n" "ring_at L n 0 []" using e1000_init_ring [OF assms(2)] by blast
  have "\<exists>n' h'. ring_run dev es n = Some (fst (fifo es []), fst (snd (fifo es [])), n') \<and> ring_at L n' h' (snd (snd (fifo es [])))"
    by (rule ring_run_fifo [OF assms(1) n(2)]) (use assms(3) in \<open>simp_all add: TX_PKT_SIZE_def\<close>)
  then obtain n' where n': "ring_run dev es n = Some (fst (fifo es []), fst (snd (fifo es [])), n')"
    "ring L n' (snd (snd (fifo es [])))" unfolding ring_def by blast
  have o': "fst (snd (fifo es [])) @ snd (snd (fifo es [])) = accepted es []" using fifo_order [of es "[]"] by simp
  have stuck: "fst (snd (fifo es [])) = [] \<and> accepted es [] = ps" if "es = map Send ps @ es'" "length ps = 64" for ps es'
    using fifo_sends [of "[]" ps es'] fifo_stuck [of ps es'] that o' by simp
  show ?thesis
    by (rule exI [of _ n], rule exI [of _ n'], rule exI [of _ "fst (snd (fifo es []))"], rule exI [of _ "snd (snd (fifo es []))"])
      (intro conjI allI impI n n' o' stuck [THEN conjunct1] stuck [THEN conjunct2])
qed

definition demo_layout :: nic_layout where
  "demo_layout = \<lparr>tx_desc_at = 0xffffffc050300000, rx_desc_at = 0xffffffc050301000,
     tx_pkt_at = 0xffffffc050310000, rx_pkt_at = 0xffffffc050330000\<rparr>"

definition demo_card :: "nic \<Rightarrow> u8 list list \<times> nic" where
  "demo_card n = (if \<not> tx_enabled n \<or> nregs n E1000_TDH = nregs n E1000_TDT then ([], n)
     else ([tx_bytes (unat (nregs n E1000_TDH)) n], tx_done (unat (nregs n E1000_TDH)) n))"

lemma demo_card_unit: "tx_unit demo_layout demo_card"
  by (simp add: tx_unit_def demo_card_def unat_of_nat TXDESCS_def)

definition demo_nic :: nic where
  "demo_nic = \<lparr>nregs = (\<lambda>_. 0), tx_desc_array = (\<lambda>_. \<lparr>tx_addr = 0, tx_length = 0, tx_cso = 0, tx_cmd = 0,
       tx_status = 0, tx_css = 0, tx_special = 0\<rparr>),
     rx_desc_array = (\<lambda>_. \<lparr>rx_addr = 0, rx_length = 0, rx_csum = 0, rx_status = 0, rx_errors = 0, rx_special = 0\<rparr>),
     tx_pkt_buffer = \<lparr>rsize = 131072, rbyte = (\<lambda>_. 0)\<rparr>, rx_pkt_buffer = \<lparr>rsize = 131072, rbyte = (\<lambda>_. 0)\<rparr>\<rparr>"

theorem transmit_ring_witness:
  "\<exists>n n' wire left. e1000_init demo_layout demo_nic = Some n
    \<and> ring_run demo_card [Send [1, 2], Send [3], Card] n = Some ([2, 1], wire, n')
    \<and> ring demo_layout n' left \<and> wire @ left = [[1, 2], [3]]"
  using transmit_ring [OF demo_card_unit, of demo_nic "[Send [1, 2], Send [3], Card]"]
  by (auto simp: demo_nic_def TXDESCS_def TX_PKT_SIZE_def)

end
