(* ===== verification/CallSys.thy ===== *)
theory CallSys
  imports SysProps
begin

text \<open>
  The remaining calls of the kernel as events beside those of theory SysOps: mailboxes, page faults,
  the destruction of barriers and conditions, joining a thread, reading the clock. Every event keeps the
  invariant of the kernel and the well-formedness of the mailboxes \<open>mail_ok\<close>: a buffer of 128 bytes holds
  as many as its length says, and every task asks for 0 to \<open>2 ^ 31 - 129\<close> bytes. In a well-formed
  state no send and no receive leaves a buffer.
\<close>

section \<open>Memory and fields that the invariant does not see\<close>

definition same_but_memory :: "'d kernel \<Rightarrow> 'd kernel \<Rightarrow> bool" where
  "same_but_memory k k' \<longleftrightarrow> links k' = links k \<and> pcbs k' = pcbs k \<and> hart k' = hart k \<and> tp k' = tp k \<and> mlocks k' = mlocks k"

lemma same_but_memory_sysinv: "same_but_memory k k' \<Longrightarrow> sysinv k Q \<Longrightarrow> sysinv k' Q" for k k' :: "'d kernel"
  by (erule sysinv_change) (simp_all add: same_but_memory_def)

lemma same_but_memory_trans: "same_but_memory a b \<Longrightarrow> same_but_memory b c \<Longrightarrow> same_but_memory a c"
  by (simp add: same_but_memory_def)

text \<open>Fields of the control blocks other than these three may change.\<close>

lemma sysinv_same_tasks:
  fixes s t :: "'d kernel"
  assumes s: "sysinv s Q"
    and h: "links t = links s" "hart t = hart s" "tp t = tp s" "mlocks t = mlocks s"
    and f: "\<And>p. pstatus t p = pstatus s p" "\<And>p. pid (pcbs t p) = pid (pcbs s p)" "\<And>p. mutex_idx (pcbs t p) = mutex_idx (pcbs s p)"
  shows "sysinv t Q"
proof -
  note S = preschedD [OF sysinvD(1) [OF s]]
  have c: "other t = other s" "current_running t = current_running s" by (simp_all add: other_def current_running_def h)
  have "kinv t Q" by (rule kinv_change [OF S(1) h(1) f(1)])
  moreover have "linv t Q" using S(2) by (simp add: linv_def h)
  moreover have "tasks_ok t Q" using S(3) unfolding tasks_ok_def f .
  ultimately show ?thesis
    using S(4-6) S(7) sysinvD(2) [OF s] unfolding sysinv_def presched_def h c f by blast
qed

lemma sysinv_upd:
  fixes s :: "'d kernel"
  assumes s: "sysinv s Q" and f: "\<And>t. status (f t) = status t" "\<And>t. pid (f t) = pid t" "\<And>t. mutex_idx (f t) = mutex_idx t"
  shows "sysinv (upd_pcb p f s) Q"
  by (rule sysinv_same_tasks [OF s]) (simp_all add: f)

section \<open>Blocking and waking on a queue of its own\<close>

definition plain_queue :: "head \<Rightarrow> bool" where
  "plain_queue q \<longleftrightarrow> q = NetSendQ \<or> q = NetRecvQ \<or> (\<exists>i. q = MboxQ i)"

text \<open>The current task blocks on such a queue, with some of its fields set, and the scheduler runs.\<close>

lemma block_plain_sysinv:
  fixes k t :: "'d kernel"
  assumes s: "sysinv k Q" and user: "user_running k" and q: "plain_queue q"
    and t: "links t = links (block_current q k)" "hart t = hart k" "tp t = tp k" "mlocks t = mlocks k"
    and st: "\<And>p. pstatus t p = (if p = current_running k then TASK_BLOCKED else pstatus k p)"
      "\<And>p. pid (pcbs t p) = pid (pcbs k p)" "\<And>p. mutex_idx (pcbs t p) = mutex_idx (pcbs k p)"
  shows "\<exists>k' Q'. do_scheduler rt t = Some k' \<and> sysinv k' Q' \<and> sched_frame t k'"
proof -
  let ?c = "current_running k"
  note S = preschedD [OF sysinvD(1) [OF s]] and run = sysinvD(2) [OF s]
  let ?b = "block_current q k" and ?Q = "Q(q := Q q @ [?c])"
  have qr: "q \<noteq> ReadyQ" using q by (auto simp: plain_queue_def)
  have kb: "kinv ?b ?Q" unfolding block_current_def by (rule kinv_block [OF S(1) run qr])
  have kt: "kinv t ?Q" by (rule kinv_change [OF kb t(1)]) (simp add: st block_current_def do_block_def)
  have "presched t ?Q"
    by (rule blocked_presched [OF s user qr kt]) (use q t st in \<open>auto simp: plain_queue_def\<close>)
  from do_scheduler_sysinv [OF this, of rt] show ?thesis by blast
qed

text \<open>A waiter leaves such a queue for the front of the ready queue.\<close>

lemma wake_plain_sysinv:
  fixes k t :: "'d kernel"
  assumes s: "sysinv k Q" and p: "p \<in> set (Q q)" and q: "plain_queue q"
    and t: "links t = links (set_status p TASK_READY (do_unblock (PList p) k))" "hart t = hart k" "tp t = tp k" "mlocks t = mlocks k"
    and st: "\<And>r. pcbs t r = (pcbs k r)\<lparr>status := if r = p then TASK_READY else pstatus k r\<rparr>"
  shows "sysinv t (Q(q := remove1 p (Q q), ReadyQ := p # Q ReadyQ))"
proof -
  let ?Q = "Q(q := remove1 p (Q q), ReadyQ := p # Q ReadyQ)" and ?u = "set_status p TASK_READY (do_unblock (PList p) k)"
  note S = preschedD [OF sysinvD(1) [OF s]]
  have qr: "q \<noteq> ReadyQ" using q by (auto simp: plain_queue_def)
  have u: "kinv ?u ?Q" by (rule kinv_unblock [OF S(1) p qr])
  have "kinv t ?Q" by (rule kinv_change [OF u t(1)]) (simp add: st do_unblock_def)
  moreover have "linv t ?Q" using S(2) q by (auto simp: linv_def t plain_queue_def)
  moreover have "\<exists>st. pcbs t r = (pcbs k r)\<lparr>status := st\<rparr> \<and> (st = pstatus k r \<or> st = TASK_READY \<or> st = TASK_BLOCKED)" for r
    by (rule exI [of _ "if r = p then TASK_READY else pstatus k r"]) (simp add: st)
  then have "wakes k t"
    unfolding wakes_def using t by blast
  ultimately show ?thesis
    by (intro sysinv_wakes [OF s])
      (use q p qr in \<open>auto simp: plain_queue_def split: if_splits dest: notin_set_remove1 set_remove1_subset [THEN subsetD] intro: exI [of _ q]\<close>)
qed


section \<open>Well-formed mailboxes\<close>

definition mail_ok :: "'d kernel \<Rightarrow> bool" where
  "mail_ok s \<longleftrightarrow> (\<forall>i < MBOX_NUM. mbox_ok s i) \<and> (\<forall>p. message_size (mbox_size (pcbs s p)))"

definition same_mail :: "'d kernel \<Rightarrow> 'd kernel \<Rightarrow> bool" where
  "same_mail s s' \<longleftrightarrow> mboxes s' = mboxes s \<and> (\<forall>p. mbox_size (pcbs s' p) = mbox_size (pcbs s p))"

lemma mail_okD: "mail_ok s \<Longrightarrow> i < MBOX_NUM \<Longrightarrow> mbox_ok s i" "mail_ok s \<Longrightarrow> message_size (mbox_size (pcbs s p))"
  by (simp_all add: mail_ok_def)

lemma same_mail_ok: "same_mail s s' \<Longrightarrow> mail_ok s' \<longleftrightarrow> mail_ok s"
  by (simp add: same_mail_def mail_ok_def mbox_ok_def)

lemma same_mail_refl [simp]: "same_mail s s"
  by (simp add: same_mail_def)

lemma same_mail_trans: "same_mail s t \<Longrightarrow> same_mail t u \<Longrightarrow> same_mail s u"
  by (simp add: same_mail_def)

lemma same_mail_sched: "sched_frame s s' \<Longrightarrow> same_mail s s'"
  by (simp add: sched_frame_def same_mail_def same_taskD)

text \<open>What leaves the mailboxes alone.\<close>

lemma same_mail_steps [simp]:
  "same_mail s (upd_links f t) \<longleftrightarrow> same_mail s t" "same_mail s (set_status p st t) \<longleftrightarrow> same_mail s t"
  "same_mail s (do_block p q t) \<longleftrightarrow> same_mail s t" "same_mail s (do_unblock n t) \<longleftrightarrow> same_mail s t"
  "same_mail s (upd_mlock i g t) \<longleftrightarrow> same_mail s t" "same_mail s (upd_barrier i h t) \<longleftrightarrow> same_mail s t"
  "same_mail s (upd_condition i c t) \<longleftrightarrow> same_mail s t" "same_mail s (init_head q t) \<longleftrightarrow> same_mail s t"
  "same_mail s (set_current p t) \<longleftrightarrow> same_mail s t" "same_mail s (t\<lparr>mm := m\<rparr>) \<longleftrightarrow> same_mail s t"
  "same_mail s (t\<lparr>frames := fr\<rparr>) \<longleftrightarrow> same_mail s t" "same_mail s (t\<lparr>csr_satp := cs\<rparr>) \<longleftrightarrow> same_mail s t"
  "same_mail s (t\<lparr>umem := um\<rparr>) \<longleftrightarrow> same_mail s t" "same_mail s (t\<lparr>hart := ha\<rparr>) \<longleftrightarrow> same_mail s t"
  "same_mail s (snd (get_ticks rt t)) \<longleftrightarrow> same_mail s t"
  by (auto simp: same_mail_def do_block_def do_unblock_def upd_mlock_def upd_barrier_def upd_condition_def init_head_def get_ticks_def)

lemma same_mail_before [simp]:
  "same_mail (snd (get_ticks rt s)) t \<longleftrightarrow> same_mail s t" "same_mail (upd_links f s) t \<longleftrightarrow> same_mail s t"
  "same_mail (set_status p st s) t \<longleftrightarrow> same_mail s t" "same_mail (do_block p q s) t \<longleftrightarrow> same_mail s t"
  "same_mail (do_unblock n s) t \<longleftrightarrow> same_mail s t" "same_mail (upd_barrier i h s) t \<longleftrightarrow> same_mail s t"
  "same_mail (s\<lparr>hart := ha\<rparr>) t \<longleftrightarrow> same_mail s t"
  by (auto simp: same_mail_def get_ticks_def do_block_def do_unblock_def upd_barrier_def)

lemma same_mail_upd [simp]: "(\<And>x. mbox_size (f x) = mbox_size x) \<Longrightarrow> same_mail s (upd_pcb p f t) \<longleftrightarrow> same_mail s t"
  "(\<And>x. mbox_size (f x) = mbox_size x) \<Longrightarrow> same_mail (upd_pcb p f s) t \<longleftrightarrow> same_mail s t"
  by (auto simp: same_mail_def)

lemma same_mail_for_each:
  assumes "\<And>i s s'. f i s = Some s' \<Longrightarrow> same_mail s s'"
  shows "for_each f is s = Some s' \<Longrightarrow> same_mail s s'"
proof (induction "is" arbitrary: s)
  case (Cons i "is")
  then obtain t where "f i s = Some t" "for_each f is t = Some s'" by (auto split: bind_splits)
  then show ?case using same_mail_trans assms Cons.IH by blast
qed simp

section \<open>The other calls leave the mailboxes alone\<close>

lemma check_sleeping_mail: "check_sleeping_loop rt p s = Some s' \<Longrightarrow> same_mail s s'"
proof (rule check_sleeping_loop.raw_induct [where P = "\<lambda>rt p s s'. same_mail s s'"])
  fix loop :: "(nat \<Rightarrow> u64) \<Rightarrow> node \<Rightarrow> 'a kernel \<Rightarrow> 'a kernel option" and rt p and s s' :: "'a kernel"
  assume IH: "\<And>rt p s s'. loop rt p s = Some s' \<Longrightarrow> same_mail s s'"
    and step: "(if p = Head SleepQ then Some s
      else do {
        x \<leftarrow> NODE_TO_PCB p;
        let p' = lnext (links s) p;
        let r = get_ticks rt s;
        if wakeup_time (pcbs (snd r) x) \<le> fst r then loop rt p' (wake_sleeper x (snd r))
        else loop rt p' (snd r) }) = Some s'"
  have w: "same_mail s (wake_sleeper x (snd (get_ticks rt s)))" for x
    by (simp add: wake_sleeper_def Let_def)
  show "same_mail s s'"
    using step w by (auto simp: Let_def split: if_splits bind_splits dest!: IH intro: same_mail_trans)
qed

lemma do_scheduler_mail:
  assumes "do_scheduler rt s = Some s'"
  shows "same_mail s s'"
proof -
  obtain s1 n s2 where r: "check_sleeping rt s = Some s1" "pick_next s1 = Some (n, s2)" "s' = set_current n (switch_space n s2)"
    using assms by (auto simp: do_scheduler_def split: bind_splits)
  have "same_mail s s1" using check_sleeping_mail r(1) by (simp add: check_sleeping_def)
  moreover have "same_mail s1 s2" using r(2) by (auto simp: pick_next_def Let_def split: if_splits bind_splits)
  moreover have "same_mail s2 (switch_space n s2)" by (simp add: switch_space_def Let_def)
  ultimately show ?thesis using r(3) by (auto intro: same_mail_trans)
qed

lemma pass_lock_mail: "pass_lock i s = Some s' \<Longrightarrow> same_mail s s'"
  by (auto simp: pass_lock_def Let_def split: if_splits bind_splits)

lemma release_mail:
  "do_release_locks p s = Some s' \<Longrightarrow> same_mail s s'" "do_mutex_lock_release i s = Some s' \<Longrightarrow> same_mail s s'"
  unfolding do_release_locks_def
  by (erule same_mail_for_each [rotated]) (auto simp: do_mutex_lock_release_def split: if_splits bind_splits dest: pass_lock_mail)


lemma release_barrier_mail: "release_barrier_queue i s = Some s' \<Longrightarrow> same_mail s s'"
proof (rule release_barrier_queue.raw_induct [where P = "\<lambda>i s s'. same_mail s s'"])
  fix loop :: "nat \<Rightarrow> 'a kernel \<Rightarrow> 'a kernel option" and i and s s' :: "'a kernel"
  assume IH: "\<And>i s s'. loop i s = Some s' \<Longrightarrow> same_mail s s'"
    and step: "(if LIST_IS_EMPTY (Head (BarrierQ i)) (links s) then Some s
      else do {
        let node = lnext (links s) (Head (BarrierQ i));
        p \<leftarrow> NODE_TO_PCB node;
        loop i (set_status p TASK_READY (do_unblock node s)) }) = Some s'"
  have w: "same_mail s (set_status p TASK_READY (do_unblock n s))" for p n by simp
  show "same_mail s s'"
    using step same_mail_trans [OF w] by (auto simp: Let_def split: if_splits bind_splits dest!: IH)
qed

lemma acquire_non_sched_mail: "do_mutex_lock_acquire_non_sched p i s = Some s' \<Longrightarrow> same_mail s s'"
  by (auto simp: do_mutex_lock_acquire_non_sched_def Let_def split: if_splits bind_splits)

lemma broadcast_mail: "condition_broadcast_loop i node s = Some s' \<Longrightarrow> same_mail s s'"
proof (rule condition_broadcast_loop.raw_induct [where P = "\<lambda>i node s s'. same_mail s s'"])
  fix loop :: "nat \<Rightarrow> node \<Rightarrow> 'a kernel \<Rightarrow> 'a kernel option" and i node and s s' :: "'a kernel"
  assume IH: "\<And>i node s s'. loop i node s = Some s' \<Longrightarrow> same_mail s s'"
    and step: "(if node \<noteq> Head (CondQ i)
      then do {
        p \<leftarrow> NODE_TO_PCB node;
        s' \<leftarrow> (let s2 = set_status p TASK_READY (do_unblock node s)
             in do_mutex_lock_acquire_non_sched p (mutex_idx (pcbs s2 p)) s2);
        loop i (lnext (links s') (Head (CondQ i))) s' }
      else Some s) = Some s'"
  have w: "same_mail s t" if "do_mutex_lock_acquire_non_sched p j (set_status p TASK_READY (do_unblock node s)) = Some t" for p j t
    by (rule same_mail_trans [OF _ acquire_non_sched_mail [OF that]]) simp
  show "same_mail s s'"
    using step same_mail_trans [OF w] by (auto simp: Let_def split: if_splits bind_splits dest!: IH)
qed

lemma wake_waiters_mail: "wake_waiters p s = Some s' \<Longrightarrow> same_mail s s'"
proof (rule wake_waiters.raw_induct [where P = "\<lambda>p s s'. same_mail s s'"])
  fix loop :: "pcb_ref \<Rightarrow> 'a kernel \<Rightarrow> 'a kernel option" and p and s s' :: "'a kernel"
  assume IH: "\<And>p s s'. loop p s = Some s' \<Longrightarrow> same_mail s s'"
    and step: "(if LIST_IS_EMPTY (Head (WaitQ p)) (links s) then Some s
      else do {
        let node = lnext (links s) (Head (WaitQ p));
        waiter \<leftarrow> NODE_TO_PCB node;
        loop p (do_unblock node (set_status waiter TASK_READY s)) }) = Some s'"
  have w: "same_mail s (do_unblock n (set_status x TASK_READY s))" for x n by simp
  show "same_mail s s'"
    using step same_mail_trans [OF w] by (auto simp: Let_def split: if_splits bind_splits dest!: IH)
qed

lemma do_kill_mail: "do_kill p s = Some (r, s') \<Longrightarrow> same_mail s s'"
  unfolding do_kill_def Let_def
  by (auto split: bind_splits dest!: release_mail(1) wake_waiters_mail intro: same_mail_trans)

lemma do_kill_all_mail:
  assumes "do_kill_all p s = Some (r, s')"
  shows "same_mail s s'"
proof -
  obtain s1 where r: "for_each (\<lambda>i s. if parent_pid (pcbs s (Pcb i)) = p \<and> pstatus s (Pcb i) \<noteq> TASK_EXITED
        then map_option snd (do_kill (int i) s) else Some s) [0..<NUM_MAX_TASK] s = Some s1"
    "same_mail s1 s'"
    using assms by (auto simp: do_kill_all_def split: bind_splits dest!: do_kill_mail)
  have "same_mail s s1"
    by (rule same_mail_for_each [OF _ r(1)]) (auto split: if_splits dest: do_kill_mail)
  then show ?thesis using r(2) by (rule same_mail_trans)
qed


lemma strcpy_from_user_mail: "strcpy_from_user d a s = Some s' \<Longrightarrow> same_mail s s'"
  by (auto simp: strcpy_from_user_def split: bind_splits)

lemma push_args_mail:
  "for_each (push_arg argv off) ks (a, b, s) = Some (a', b', s') \<Longrightarrow> same_mail s s'"
proof (induction ks arbitrary: a b s)
  case (Cons k ks)
  obtain c d t where t: "push_arg argv off k (a, b, s) = Some (c, d, t)" "for_each (push_arg argv off) ks (c, d, t) = Some (a', b', s')"
    using Cons.prems by (auto split: bind_splits)
  have "same_mail s t" using t(1) by (auto simp: push_arg_def Let_def split: bind_splits dest: strcpy_from_user_mail)
  then show ?case using Cons.IH [OF t(2)] by (rule same_mail_trans)
qed simp

lemma exec_task_mail: "exec_task B pa tasks argc argv i j s = Some (v, s') \<Longrightarrow> same_mail s s'"
  by (auto simp: exec_task_def Let_def same_mail_def split: bind_splits dest!: push_args_mail [unfolded same_mail_def])

lemma exec_from_mail: "exec_from B pa tasks name argc argv is s = Some (v, s') \<Longrightarrow> same_mail s s'"
  by (induction "is") (auto split: bind_splits if_splits option.splits dest: exec_task_mail)

lemma thread_create_mail: "do_thread_create B pa thread f arg s = Some s' \<Longrightarrow> same_mail s s'"
  by (auto simp: do_thread_create_def copy_to_user_def Let_def same_mail_def split: option.splits bind_splits if_splits)

lemma do_sleep_mail: "do_sleep rt n s = Some s' \<Longrightarrow> same_mail s s'"
  by (auto simp: do_sleep_def Let_def split_beta simp del: snd_conv dest!: do_scheduler_mail)

lemma perform_mail:
  assumes "perform B pa tasks rt e s = Some s'"
  shows "same_mail s s'"
  using assms
  by (cases e)
    (auto simp: do_mutex_lock_init_def do_mutex_lock_acquire_def do_barrier_init_def do_barrier_wait_def
      do_condition_init_def do_condition_wait_def do_condition_signal_def do_condition_broadcast_def do_waitpid_def
      do_exit_def do_exec_def Let_def split: option.splits bind_splits if_splits prod.splits
      dest!: do_sleep_mail do_scheduler_mail release_mail release_barrier_mail acquire_non_sched_mail broadcast_mail do_kill_all_mail
        exec_from_mail thread_create_mail intro: same_mail_trans)


section \<open>The mailbox calls\<close>

text \<open>Opening changes names and reference counts only.\<close>

lemma open_fields_mail:
  assumes "\<And>m. mb_buffer (f m) = mb_buffer m" "\<And>m. mb_length (f m) = mb_length m"
  shows "mail_ok (upd_mbox i f s) \<longleftrightarrow> mail_ok s" "same_but_memory s (upd_mbox i f s)"
  using assms by (auto simp: mail_ok_def mbox_ok_def same_but_memory_def upd_mbox_def)

lemma mbox_open_mail:
  assumes ok: "mail_ok s" and r: "do_mbox_open name s = Some (v, s')"
  shows "mail_ok s' \<and> same_but_memory s s'"
proof -
  obtain c where c: "find_fail (\<lambda>i. map_option (\<lambda>c. c = 0) (strcmp (mb_name (mboxes s i)) 0 name 0)) 0 MBOX_NUM = Some c"
    using r by (auto simp: do_mbox_open_def split: bind_splits)
  show ?thesis
  proof (cases c)
    case (Some i)
    then show ?thesis using r c ok by (auto simp: do_mbox_open_def open_fields_mail)
  next
    case None
    obtain d where d: "find_fail (\<lambda>i. map_option (\<lambda>c. c = 0) (load (mb_name (mboxes s i)) 0)) 0 MBOX_NUM = Some d"
      using r c None by (auto simp: do_mbox_open_def split: bind_splits)
    show ?thesis
    proof (cases d)
      case (Some i)
      then show ?thesis using r c d None ok by (auto simp: do_mbox_open_def open_fields_mail split: bind_splits)
    next
      case None
      then show ?thesis using r c d \<open>c = None\<close> ok by (simp add: do_mbox_open_def same_but_memory_def)
    qed
  qed
qed

text \<open>What a send or a receive does first.\<close>

lemma mbox_put_mail:
  assumes ok: "mail_ok s" and i: "i < MBOX_NUM" and n: "0 \<le> n" "mb_length (mboxes s i) + n \<le> int MAX_MBOX_LENGTH"
  shows "\<exists>t. mbox_put i msg n s = Some t \<and> mail_ok t \<and> same_but_memory s t"
proof -
  obtain t where t: "mbox_put i msg n s = Some t" "mbox_ok t i" "t = s\<lparr>mboxes := (mboxes s)(i := mboxes t i)\<rparr>"
    using mbox_put_result [OF mail_okD(1) [OF ok i] n, of msg] by blast
  have f: "mboxes t j = mboxes s j" if "j \<noteq> i" for j by (subst t(3)) (simp add: that)
  have g: "links t = links s" "pcbs t = pcbs s" "hart t = hart s" "tp t = tp s" "mlocks t = mlocks s" by (subst t(3), simp)+
  have "mbox_ok t j" if "j < MBOX_NUM" for j
    using t(2) mail_okD(1) [OF ok that] f [of j] by (cases "j = i") (simp_all add: mbox_ok_def)
  then show ?thesis using t(1) g ok by (simp add: mail_ok_def same_but_memory_def)
qed

lemma mbox_take_mail:
  assumes ok: "mail_ok s" and i: "i < MBOX_NUM" and n: "0 \<le> n" "n \<le> mb_length (mboxes s i)"
  shows "\<exists>t. mbox_take i dest n s = Some t \<and> mail_ok t \<and> same_but_memory s t"
proof -
  obtain t where t: "mbox_take i dest n s = Some t" "mbox_ok t i"
    "t = s\<lparr>mboxes := (mboxes s)(i := mboxes t i), umem := (umem s)(csr_satp s (hart s) := user_view t)\<rparr>"
    using mbox_take_result [OF mail_okD(1) [OF ok i] n, of dest] by blast
  have f: "mboxes t j = mboxes s j" if "j \<noteq> i" for j by (subst t(3)) (simp add: that)
  have g: "links t = links s" "pcbs t = pcbs s" "hart t = hart s" "tp t = tp s" "mlocks t = mlocks s" by (subst t(3), simp)+
  have "mbox_ok t j" if "j < MBOX_NUM" for j
    using t(2) mail_okD(1) [OF ok that] f [of j] by (cases "j = i") (simp_all add: mbox_ok_def)
  then show ?thesis using t(1) g ok by (simp add: mail_ok_def same_but_memory_def)
qed

text \<open>A round of the loop over the waiters serves one or passes it by.\<close>

definition serves :: "(pcb_ref \<Rightarrow> 'd kernel \<Rightarrow> 'd kernel option) \<Rightarrow> bool" where
  "serves serve \<longleftrightarrow> (\<forall>p s. mail_ok s \<longrightarrow> serve p s = Some s
     \<or> (\<exists>t. serve p s = Some (finish_waiter p t) \<and> mail_ok t \<and> same_but_memory s t))"

lemma serve_reader_serves:
  assumes i: "i < MBOX_NUM"
  shows "serves (serve_reader i)"
  unfolding serves_def
proof (intro allI impI)
  fix p and s :: "'a kernel" assume ok: "mail_ok s"
  show "serve_reader i p s = Some s
      \<or> (\<exists>t. serve_reader i p s = Some (finish_waiter p t) \<and> mail_ok t \<and> same_but_memory s t)"
  proof (cases "mbox_rw (pcbs s p) = 0 \<and> mb_length (mboxes s i) \<ge> mbox_size (pcbs s p)")
    case True
    then obtain t where "mbox_take i (mbox_buf (pcbs s p)) (mbox_size (pcbs s p)) s = Some t" "mail_ok t" "same_but_memory s t"
      using mbox_take_mail [OF ok i message_sizeD [OF mail_okD(2) [OF ok]]] by blast
    then show ?thesis using True by (simp add: serve_reader_def) blast
  next
    case False
    then have "serve_reader i p s = Some s" unfolding serve_reader_def by (rule if_not_P)
    then show ?thesis ..
  qed
qed

lemma serve_writer_serves:
  assumes i: "i < MBOX_NUM"
  shows "serves (serve_writer i)"
  unfolding serves_def
proof (intro allI impI)
  fix p and s :: "'a kernel" assume ok: "mail_ok s"
  show "serve_writer i p s = Some s
      \<or> (\<exists>t. serve_writer i p s = Some (finish_waiter p t) \<and> mail_ok t \<and> same_but_memory s t)"
  proof -
  note room = room_test [OF mail_okD(1) [OF ok i] mail_okD(2) [OF ok]]
  show ?thesis
  proof (cases "mbox_rw (pcbs s p) = 1 \<and> mb_length (mboxes s i) + mbox_size (pcbs s p) \<le> int MAX_MBOX_LENGTH")
    case True
    then obtain t where "mbox_put i (mbox_buf (pcbs s p)) (mbox_size (pcbs s p)) s = Some t" "mail_ok t" "same_but_memory s t"
      using mbox_put_mail [OF ok i message_sizeD [OF mail_okD(2) [OF ok]]] by blast
    then show ?thesis using True by (simp add: serve_writer_def room) blast
  next
    case False
    then have "serve_writer i p s = Some s" unfolding serve_writer_def room by (rule if_not_P)
    then show ?thesis ..
  qed
  qed
qed

lemma finish_waiter_mail: "mail_ok (finish_waiter p t) \<longleftrightarrow> mail_ok t"
  by (rule same_mail_ok) (simp add: finish_waiter_def)

lemma finish_waiter_sysinv:
  fixes s :: "'d kernel"
  assumes s: "sysinv s Q" and p: "p \<in> set (Q q)" and q: "plain_queue q"
  shows "sysinv (finish_waiter p s) (Q(q := remove1 p (Q q), ReadyQ := p # Q ReadyQ))"
proof -
  let ?u = "upd_pcb p (\<lambda>t. t\<lparr>mbox_rw := -1\<rparr>) s"
  have "sysinv ?u Q" by (rule sysinv_upd [OF s]) simp_all
  then show ?thesis
    by (rule wake_plain_sysinv [where Q = Q and q = q, OF _ p q]) (simp_all add: finish_waiter_def do_unblock_def)
qed

lemma serve_waiters_sysinv:
  assumes "sysinv s Q" "Q (MboxQ i) = ys @ ps" "mail_ok s" "serves serve"
  shows "\<exists>s' Q'. serve_waiters serve i (front_node (MboxQ i) ps) s = Some s' \<and> sysinv s' Q' \<and> mail_ok s'"
  using assms
proof (induction ps arbitrary: s Q ys)
  case Nil
  then show ?case by (subst serve_waiters.simps) (auto simp: front_node_def)
next
  case (Cons p ps)
  note K = kinvD(1) [OF preschedD(1) [OF sysinvD(1) [OF Cons.prems(1)]]]
  note unfold = serve_waiters_Cons [where Q = Q and serve = serve and s = s, OF K Cons.prems(2)]
  have dist: "p \<notin> set ys" using kq.repr_distinct [OF K, of "MboxQ i"] Cons.prems(2) by auto
  consider "serve p s = Some s" | t where "serve p s = Some (finish_waiter p t)" "mail_ok t" "same_but_memory s t"
    using Cons.prems(3,4) unfolding serves_def by blast
  then show ?case
  proof cases
    case 1
    have "Q (MboxQ i) = (ys @ [p]) @ ps" using Cons.prems(2) by simp
    from Cons.IH [OF Cons.prems(1) this Cons.prems(3,4)] show ?thesis by (simp only: unfold [where t = s, OF 1])
  next
    case (2 t)
    let ?Q = "Q(MboxQ i := remove1 p (Q (MboxQ i)), ReadyQ := p # Q ReadyQ)"
    have "sysinv (finish_waiter p t) ?Q"
      by (rule finish_waiter_sysinv [OF same_but_memory_sysinv [OF 2(3) Cons.prems(1)]])
        (use Cons.prems(2) in \<open>simp_all add: plain_queue_def\<close>)
    moreover have "?Q (MboxQ i) = ys @ ps" using Cons.prems(2) dist by (simp add: remove1_append)
    ultimately show ?thesis unfolding unfold [where t = "finish_waiter p t", OF 2(1)]
      using Cons.IH finish_waiter_mail 2(2) Cons.prems(4) by blast
  qed
qed


lemma serve_all_sysinv:
  assumes s: "sysinv s Q" "mail_ok s" "serves serve"
  shows "\<exists>s' Q'. serve_waiters serve i (lnext (links s) (Head (MboxQ i))) s = Some s' \<and> sysinv s' Q' \<and> mail_ok s'"
  using serve_waiters_sysinv [where ys = "[]" and i = i, OF s(1) _ s(2,3)]
    queues_front [OF kinvD(1) [OF preschedD(1) [OF sysinvD(1) [OF s(1)]]], of "MboxQ i"] by simp

lemma mbox_wait_sysinv:
  assumes s: "sysinv s Q" "user_running s" "mail_ok s" and n: "message_size n"
  shows "\<exists>s' Q'. mbox_wait rt i msg n rw s = Some s' \<and> sysinv s' Q' \<and> mail_ok s'"
proof -
  let ?c = "current_running s"
  define t where "t = (let s2 = upd_pcb ?c (\<lambda>t. t\<lparr>mbox_buf := msg, mbox_size := n, mbox_rw := rw\<rparr>)
        (do_block ?c (MboxQ i) (set_status ?c TASK_BLOCKED s))
      in s2\<lparr>frames := (frames s2)(kernel_sp (pcbs s2 ?c) := (frames s2 (kernel_sp (pcbs s2 ?c)))
        \<lparr>regs := (regs (frames s2 (kernel_sp (pcbs s2 ?c))))(10 := word_of_int n)\<rparr>)\<rparr>)"
  have w: "mbox_wait rt i msg n rw s = do_scheduler rt t" by (simp add: mbox_wait_def t_def Let_def)
  have t: "links t = links (block_current (MboxQ i) s)" "hart t = hart s" "tp t = tp s" "mlocks t = mlocks s"
    "mboxes t = mboxes s"
    "pcbs t = (pcbs s)(?c := (pcbs s ?c)\<lparr>status := TASK_BLOCKED, mbox_buf := msg, mbox_size := n, mbox_rw := rw\<rparr>)"
    by (simp_all add: t_def Let_def block_current_def do_block_def)
  have "plain_queue (MboxQ i)" by (simp add: plain_queue_def)
  then have "\<exists>k' Q'. do_scheduler rt t = Some k' \<and> sysinv k' Q' \<and> sched_frame t k'"
    by (rule block_plain_sysinv [OF s(1,2)]) (simp_all add: t)
  then obtain s' Q' where s': "do_scheduler rt t = Some s'" "sysinv s' Q'" "sched_frame t s'" by blast
  have "mail_ok t" using s(3) n by (simp add: mail_ok_def mbox_ok_def t)
  then have "mail_ok s'" using same_mail_ok [OF same_mail_sched [OF s'(3)]] by simp
  then show ?thesis using w s' by auto
qed

lemma mbox_send_sysinv:
  assumes s: "sysinv s Q" "user_running s" "mail_ok s" and i: "i < MBOX_NUM" and n: "message_size n"
  shows "\<exists>s' Q'. do_mbox_send rt (int i) msg n s = Some (n, s') \<and> sysinv s' Q' \<and> mail_ok s'"
proof (cases "mb_length (mboxes s i) + n \<le> int MAX_MBOX_LENGTH")
  case True
  obtain t where t: "mbox_put i msg n s = Some t" "mail_ok t" "same_but_memory s t"
    using mbox_put_mail [OF s(3) i message_sizeD [OF n] True] by blast
  obtain s' Q' where "serve_waiters (serve_reader i) i (lnext (links t) (Head (MboxQ i))) t = Some s'" "sysinv s' Q'" "mail_ok s'"
    using serve_all_sysinv [OF same_but_memory_sysinv [OF t(3) s(1)] t(2) serve_reader_serves [OF i]] by blast
  then show ?thesis using True t(1) i by (auto simp: do_mbox_send_def room_test [OF mail_okD(1) [OF s(3) i] n])
next
  case False
  then show ?thesis using mbox_wait_sysinv [OF s n, of rt i msg 1] i by (auto simp: do_mbox_send_def room_test [OF mail_okD(1) [OF s(3) i] n])
qed

lemma mbox_recv_sysinv:
  assumes s: "sysinv s Q" "user_running s" "mail_ok s" and i: "i < MBOX_NUM" and n: "message_size n"
  shows "\<exists>s' Q'. do_mbox_recv rt (int i) msg n s = Some (n, s') \<and> sysinv s' Q' \<and> mail_ok s'"
proof (cases "mb_length (mboxes s i) \<ge> n")
  case True
  obtain t where t: "mbox_take i msg n s = Some t" "mail_ok t" "same_but_memory s t"
    using mbox_take_mail [OF s(3) i message_sizeD [OF n] True] by blast
  obtain s' Q' where "serve_waiters (serve_writer i) i (lnext (links t) (Head (MboxQ i))) t = Some s'" "sysinv s' Q'" "mail_ok s'"
    using serve_all_sysinv [OF same_but_memory_sysinv [OF t(3) s(1)] t(2) serve_writer_serves [OF i]] by blast
  then show ?thesis using True t(1) i by (auto simp: do_mbox_recv_def)
next
  case False
  then show ?thesis using mbox_wait_sysinv [OF s n, of rt i msg 0] i by (auto simp: do_mbox_recv_def)
qed

text \<open>A mailbox that is closed for the last time while nobody waits on it.\<close>

lemma init_empty_head:
  assumes "sysinv s Q" "LIST_IS_EMPTY (Head q) (links s)"
  shows "links (init_head q s) = links s"
proof -
  note K = kinvD(1) [OF preschedD(1) [OF sysinvD(1) [OF assms(1)]]]
  have "Q q = []" using assms(2) kq.empty_iff [OF K] by simp
  then have "queue (links s) (Head q) []" using queuesD(1) [OF K, of q] by simp
  then have "lnext (links s) (Head q) = Head q" "lprev (links s) (Head q) = Head q" by (simp_all add: queue_def self_linked_def)
  then show ?thesis by (simp add: NODE_REFRESH_def set_next_def set_prev_def fun_upd_idem)
qed


lemma init_head_fields [simp]: "mboxes (init_head q s) = mboxes s"
  by (simp add: init_head_def)

lemma mbox_close_sysinv:
  assumes s: "sysinv s Q" "mail_ok s" and r: "do_mbox_close idx s = Some s'"
    and waiting: "\<And>i. idx = int i \<Longrightarrow> LIST_IS_EMPTY (Head (MboxQ i)) (links s)"
  shows "sysinv s' Q \<and> mail_ok s'"
proof -
  obtain i where i: "idx = int i" "i < MBOX_NUM" using r by (auto simp: do_mbox_close_def split: bind_splits)
  obtain f where f: "s' = upd_mbox i f s \<or> s' = init_head (MboxQ i) (upd_mbox i f s)"
    "\<forall>m. mb_buffer (f m) = mb_buffer m \<and> (mb_length (f m) = mb_length m \<or> mb_length (f m) = 0)"
  proof (cases "mb_ref_count (mboxes s i) = 1")
    case True
    then obtain nm where "s' = init_head (MboxQ i) (upd_mbox i (\<lambda>m. m\<lparr>mb_ref_count := mb_ref_count m - 1, mb_length := 0, mb_name := nm\<rparr>) s)"
      using r i by (auto simp: do_mbox_close_def Let_def upd_mbox_def split: bind_splits)
    then show ?thesis
      by (intro that [of "\<lambda>m. m\<lparr>mb_ref_count := mb_ref_count m - 1, mb_length := 0, mb_name := nm\<rparr>"] disjI2) simp_all
  next
    case False
    then show ?thesis using r i
      by (intro that [of "\<lambda>m. m\<lparr>mb_ref_count := mb_ref_count m - 1\<rparr>"] disjI1) (simp_all add: do_mbox_close_def Let_def)
  qed
  let ?u = "upd_mbox i f s"
  have u: "same_but_memory s ?u" by (simp add: same_but_memory_def upd_mbox_def)
  note su = same_but_memory_sysinv [OF u s(1)]
  have "links (init_head (MboxQ i) ?u) = links ?u" by (rule init_empty_head [OF su]) (use waiting [OF i(1)] in simp)
  then have "same_but_memory s s'" using f(1) u by (auto simp: same_but_memory_def)
  moreover have "mboxes s' = (mboxes s)(i := f (mboxes s i))" "pcbs s' = pcbs s" using f(1) by auto
  then have "mail_ok s'" using f(2) [rule_format, of "mboxes s i"] mail_okD(1) [OF s(2) i(2)] s(2)
    by (auto simp: mail_ok_def mbox_ok_def)
  ultimately show ?thesis using same_but_memory_sysinv [OF _ s(1)] by blast
qed

section \<open>Destroying what nobody waits for\<close>

lemma destroy_sysinv:
  fixes s :: "'d kernel"
  assumes s: "sysinv s Q" "mail_ok s"
  shows "do_barrier_destroy i s = Some s' \<Longrightarrow> LIST_IS_EMPTY (Head (BarrierQ (nat i))) (links s) \<Longrightarrow> sysinv s' Q \<and> mail_ok s'"
    and "do_condition_destroy i s = Some s' \<Longrightarrow> LIST_IS_EMPTY (Head (CondQ (nat i))) (links s) \<Longrightarrow> sysinv s' Q \<and> mail_ok s'"
proof -
  have fin: "sysinv t Q \<and> mail_ok t"
    if t: "t = init_head q u" "LIST_IS_EMPTY (Head q) (links s)" "links u = links s" "pcbs u = pcbs s"
      "hart u = hart s" "tp u = tp s" "mlocks u = mlocks s" "mboxes u = mboxes s" for q and t u :: "'d kernel"
  proof -
    have m: "same_but_memory s u" using t by (simp add: same_but_memory_def)
    have "links (init_head q u) = links u" by (rule init_empty_head [OF same_but_memory_sysinv [OF m s(1)]]) (simp add: t)
    then have "same_but_memory s t" "same_mail s t" using t by (simp_all add: same_but_memory_def same_mail_def)
    then show ?thesis using same_but_memory_sysinv [OF _ s(1)] same_mail_ok s(2) by blast
  qed
  show "sysinv s' Q \<and> mail_ok s'" if "do_barrier_destroy i s = Some s'" "LIST_IS_EMPTY (Head (BarrierQ (nat i))) (links s)"
    using that by (intro fin [of s' "BarrierQ (nat i)" "upd_barrier (nat i) (\<lambda>b. b\<lparr>b_key := -1, b_count := 0, b_goal := -1\<rparr>) s"])
      (auto simp: do_barrier_destroy_def upd_barrier_def split: bind_splits)
  show "sysinv s' Q \<and> mail_ok s'" if "do_condition_destroy i s = Some s'" "LIST_IS_EMPTY (Head (CondQ (nat i))) (links s)"
    using that by (intro fin [of s' "CondQ (nat i)" "upd_condition (nat i) (\<lambda>c. c\<lparr>c_key := -1\<rparr>) s"])
      (auto simp: do_condition_destroy_def upd_condition_def split: bind_splits)
qed

section \<open>Events\<close>

datatype call =
    Mbox_open region | Mbox_close int | Mbox_send int u64 int | Mbox_recv int u64 int
  | Barrier_destroy int | Condition_destroy int | Thread_join int | Read_clock
  | Load_fault u64 | Store_fault u64

fun call_perform :: "'d bios \<Rightarrow> (nat \<Rightarrow> u64) \<Rightarrow> call \<Rightarrow> 'd kernel \<Rightarrow> 'd kernel option" where
  "call_perform B rt (Mbox_open name) s = map_option snd (do_mbox_open name s)"
| "call_perform B rt (Mbox_close i) s = do_mbox_close i s"
| "call_perform B rt (Mbox_send i msg n) s = map_option snd (do_mbox_send rt i msg n s)"
| "call_perform B rt (Mbox_recv i msg n) s = map_option snd (do_mbox_recv rt i msg n s)"
| "call_perform B rt (Barrier_destroy i) s = do_barrier_destroy i s"
| "call_perform B rt (Condition_destroy i) s = do_condition_destroy i s"
| "call_perform B rt (Thread_join i) s = map_option snd (do_thread_join rt i s)"
| "call_perform B rt Read_clock s = Some (snd (get_ticks rt s))"
| "call_perform B rt (Load_fault a) s = handle_load_page_fault B a s"
| "call_perform B rt (Store_fault a) s = handle_store_page_fault B a s"

text \<open>The calls covered: numbers in range, lengths that are neither negative nor so long that the tests for
  room overflow, and nothing is closed or destroyed while a task waits on it.\<close>

definition nobody_waits :: "head \<Rightarrow> 'd kernel \<Rightarrow> bool" where
  "nobody_waits q s \<longleftrightarrow> LIST_IS_EMPTY (Head q) (links s)"

fun call_allowed :: "call \<Rightarrow> 'd kernel \<Rightarrow> bool" where
  "call_allowed (Mbox_close i) s \<longleftrightarrow> user_running s \<and> nobody_waits (MboxQ (nat i)) s"
| "call_allowed (Mbox_send i msg n) s \<longleftrightarrow> user_running s \<and> 0 \<le> i \<and> i < int MBOX_NUM \<and> message_size n"
| "call_allowed (Mbox_recv i msg n) s \<longleftrightarrow> user_running s \<and> 0 \<le> i \<and> i < int MBOX_NUM \<and> message_size n"
| "call_allowed (Barrier_destroy i) s \<longleftrightarrow> user_running s \<and> nobody_waits (BarrierQ (nat i)) s"
| "call_allowed (Condition_destroy i) s \<longleftrightarrow> user_running s \<and> nobody_waits (CondQ (nat i)) s"
| "call_allowed (Thread_join i) s \<longleftrightarrow> user_running s \<and> 0 \<le> i \<and> i < int NUM_MAX_TASK"
| "call_allowed c s \<longleftrightarrow> user_running s"

text \<open>The calls that always return. An open copies a name that may be too long, a fault may find no
  memory.\<close>

definition returns :: "call \<Rightarrow> bool" where
  "returns c \<longleftrightarrow> (\<exists>i msg n. c = Mbox_send i msg n \<or> c = Mbox_recv i msg n) \<or> (\<exists>i. c = Thread_join i) \<or> c = Read_clock"

definition quiet :: "'d kernel \<Rightarrow> 'd kernel \<Rightarrow> bool" where
  "quiet s s' \<longleftrightarrow> same_but_memory s s' \<and> same_mail s s'"

lemma quiet_step: "sysinv s Q \<Longrightarrow> mail_ok s \<Longrightarrow> quiet s s' \<Longrightarrow> sysinv s' Q \<and> mail_ok s'"
  using same_but_memory_sysinv same_mail_ok unfolding quiet_def by blast

lemma quiet_trans: "quiet a b \<Longrightarrow> quiet b c \<Longrightarrow> quiet a c"
  unfolding quiet_def using same_but_memory_trans same_mail_trans by blast

lemma page_fault_quiet: "page_fault bits B a s = Some s' \<Longrightarrow> quiet s s'"
  by (auto simp: page_fault_def quiet_def same_but_memory_def Let_def split: bind_splits)

lemma call_step:
  assumes s: "sysinv s Q" "mail_ok s" and c: "call_allowed c s" and r: "call_perform B rt c s = Some s'"
  shows "\<exists>Q'. sysinv s' Q' \<and> mail_ok s'"
proof (cases c)
  case (Mbox_open name)
  then show ?thesis using mbox_open_mail [OF s(2)] same_but_memory_sysinv [OF _ s(1)] r by fastforce
next
  case (Mbox_close i)
  then have "LIST_IS_EMPTY (Head (MboxQ k)) (links s)" if "i = int k" for k
    using c that by (simp add: nobody_waits_def)
  then show ?thesis using mbox_close_sysinv [OF s] r Mbox_close by auto
next
  case (Mbox_send i msg n)
  then show ?thesis using mbox_send_sysinv [OF s(1) _ s(2), of "nat i" n rt msg] c r by (auto simp: nat_less_iff)
next
  case (Mbox_recv i msg n)
  then show ?thesis using mbox_recv_sysinv [OF s(1) _ s(2), of "nat i" n rt msg] c r by (auto simp: nat_less_iff)
next
  case (Barrier_destroy i)
  then show ?thesis using destroy_sysinv(1) [OF s] c r by (auto simp: nobody_waits_def)
next
  case (Condition_destroy i)
  then show ?thesis using destroy_sysinv(2) [OF s] c r by (auto simp: nobody_waits_def)
next
  case (Thread_join i)
  have w: "map_option snd (do_waitpid rt i s) = Some s'" using r Thread_join by (simp add: do_thread_join_def)
  obtain Q' where "sysinv s' Q'" using waitpid_sysinv [OF s(1), of "nat i" rt] c w Thread_join by (auto simp: nat_less_iff)
  moreover have "same_mail s s'" using perform_mail [of B "\<lambda>_. 0" "\<lambda>_. undefined" rt "Waitpid i" s s'] w by simp
  ultimately show ?thesis using same_mail_ok s(2) by blast
next
  case Read_clock
  have m: "quiet s (snd (get_ticks rt s))" by (simp add: quiet_def same_but_memory_def same_mail_def get_ticks_def)
  show ?thesis using quiet_step [OF s m] r Read_clock by auto
next
  case (Load_fault a)
  then have "quiet s s'" using page_fault_quiet r by (simp add: handle_load_page_fault_def)
  then show ?thesis using quiet_step [OF s] by blast
next
  case (Store_fault a)
  then have "quiet s s'" using page_fault_quiet r by (simp add: handle_store_page_fault_def)
  then show ?thesis using quiet_step [OF s] by blast
qed

lemma call_returns:
  assumes s: "sysinv s Q" "mail_ok s" and c: "call_allowed c s" "returns c"
  shows "call_perform B rt c s \<noteq> None"
proof (cases c)
  case (Mbox_send i msg n)
  then show ?thesis using mbox_send_sysinv [OF s(1) _ s(2), of "nat i" n rt msg] c by (auto simp: nat_less_iff)
next
  case (Mbox_recv i msg n)
  then show ?thesis using mbox_recv_sysinv [OF s(1) _ s(2), of "nat i" n rt msg] c by (auto simp: nat_less_iff)
next
  case (Thread_join i)
  then show ?thesis using waitpid_sysinv [OF s(1), of "nat i" rt] c by (auto simp: nat_less_iff do_thread_join_def)
qed (use c in \<open>auto simp: returns_def\<close>)

section \<open>The start\<close>

text \<open>Static storage is zero, and every buffer has its size.\<close>

definition mail_zero :: "'d kernel \<Rightarrow> bool" where
  "mail_zero s \<longleftrightarrow> (\<forall>i < MBOX_NUM. rsize (mb_buffer (mboxes s i)) = MAX_MBOX_LENGTH) \<and> (\<forall>p. message_size (mbox_size (pcbs s p)))"

lemma same_mail_zero: "same_mail s t \<Longrightarrow> mail_zero t \<longleftrightarrow> mail_zero s"
  by (simp add: same_mail_def mail_zero_def)

lemma init_mbox_mail:
  assumes "init_mbox s = Some t" "mail_zero s"
  shows "mail_ok t"
proof -
  have "(\<forall>i < MBOX_NUM. mbox_ok t i) \<and> mail_zero t"
  proof (rule for_each_upt_Some [OF assms(1) [unfolded init_mbox_def], where P = "\<lambda>n t. (\<forall>i < n. mbox_ok t i) \<and> mail_zero t"])
  qed (use assms(2) in \<open>auto simp: mail_zero_def mbox_ok_def upd_mbox_def MAX_MBOX_LENGTH_def less_Suc_eq split: bind_splits\<close>)
  then show ?thesis by (simp add: mail_ok_def mail_zero_def)
qed

lemma init_pid0_mail: "init_pid0 B k s = Some t \<Longrightarrow> same_mail s t"
  by (auto simp: init_pid0_def Let_def same_mail_def split: bind_splits)

lemma init_task_pcb_mail: "init_task_pcb k s = Some t \<Longrightarrow> same_mail s t"
  by (auto simp: init_task_pcb_def Let_def same_mail_def)

lemma init_pcb_mail:
  assumes "init_pcb B s = Some t"
  shows "same_mail s t"
proof -
  obtain a b where r: "for_each (init_pid0 B) [0, 1] s = Some a" "for_each init_task_pcb [0..<NUM_MAX_TASK] a = Some b"
    "t = set_current (Pid0 0) b"
    using assms by (auto simp: init_pcb_def split: bind_splits)
  have "same_mail s b"
    by (rule same_mail_trans [OF same_mail_for_each [OF init_pid0_mail r(1)] same_mail_for_each [OF init_task_pcb_mail r(2)]])
  then show ?thesis by (simp add: r(3))
qed

lemma init_tables_mail:
  "init_locks s = Some t \<Longrightarrow> same_mail s t" "init_barriers s = Some t \<Longrightarrow> same_mail s t"
  "init_conditions s = Some t \<Longrightarrow> same_mail s t"
  unfolding init_locks_def init_barriers_def init_conditions_def
  by (erule same_mail_for_each [rotated], auto)+

lemma main_hart0_mail:
  assumes run: "main_hart0 B pa freq tasks s = Some t" and zero: "mail_zero s"
  shows "mail_ok (main_hart1 t)"
proof -
  obtain num ts m a b c where r: "main_init B freq (s\<lparr>mm := m\<rparr>) = Some a" "test_shell B pa ts num a = Some b" "t = b\<lparr>mm := c\<rparr>"
    using run by (auto simp: main_hart0_def split: bind_splits)
  obtain s1 s2 s3 s4 where i: "init_pcb B (s\<lparr>mm := m\<rparr>) = Some s1" "init_locks (s1\<lparr>time_base := freq\<rparr>) = Some s2"
    "init_barriers s2 = Some s3" "init_conditions s3 = Some s4" "init_mbox s4 = Some a"
    using r(1) by (auto simp: main_init_def split: bind_splits)
  have "mail_zero (s\<lparr>mm := m\<rparr>)" using zero by (simp add: mail_zero_def)
  then have "mail_zero s1" using same_mail_zero [OF init_pcb_mail [OF i(1)]] by simp
  then have "mail_zero (s1\<lparr>time_base := freq\<rparr>)" by (simp add: mail_zero_def)
  then have "mail_zero s4" using same_mail_zero init_tables_mail i(2,3,4) by metis
  then have "mail_ok a" by (rule init_mbox_mail [OF i(5)])
  moreover have "same_mail a b"
    by (rule same_mail_for_each [OF _ r(2) [unfolded test_shell_def]])
      (auto simp: start_shell_def init_pcb_stack_def Let_def same_mail_def split: bind_splits if_splits)
  ultimately have "mail_ok b" using same_mail_ok by blast
  then show ?thesis by (simp add: r(3) main_hart1_def mail_ok_def mbox_ok_def)
qed

end
