(* ===== verification/NetSys.thy ===== *)
theory NetSys
  imports NetOps CallSys
begin

text \<open>
  The network as a part of the kernel: the network calls, the external interrupt and the device add
  their steps to the events of theories SysOps and CallSys, and the invariant of the kernel holds in
  every state that all of them lead to. The device may do anything to its registers and buffers at any
  time.
\<close>

section \<open>Blocking and waking\<close>

abbreviation in_order :: "'d kernel \<Rightarrow> bool" where
  "in_order k \<equiv> \<exists>Q. sysinv k Q \<and> mail_ok k"

lemma net_block:
  fixes k :: "'d kernel"
  assumes s: "sysinv k Q" "mail_ok k" and user: "user_running k" and q: "plain_queue q"
    and g: "\<And>t. status (g t) = TASK_BLOCKED" "\<And>t. pid (g t) = pid t" "\<And>t. mutex_idx (g t) = mutex_idx t"
      "\<And>t. mbox_size (g t) = mbox_size t"
    and r: "do_scheduler rt (do_block (current_running k) q (upd_pcb (current_running k) g k)) = Some k'"
  shows "in_order k'"
proof -
  let ?t = "do_block (current_running k) q (upd_pcb (current_running k) g k)"
  have "\<exists>k' Q'. do_scheduler rt ?t = Some k' \<and> sysinv k' Q' \<and> sched_frame ?t k'"
    by (rule block_plain_sysinv [OF s(1) user q]) (simp_all add: block_current_def do_block_def g)
  moreover have "same_mail k k'" using do_scheduler_mail [OF r] g(4) by (auto simp: same_mail_def do_block_def)
  ultimately show ?thesis using r s(2) same_mail_ok by auto
qed

lemma net_wake:
  fixes k :: "'d kernel"
  assumes s: "sysinv k Q" "mail_ok k" and q: "Q q = p # ps" "plain_queue q"
  shows "in_order (set_result p v (set_status p TASK_READY (do_unblock (PList p) k)))" (is "in_order ?t")
proof -
  have "sysinv ?t (Q(q := remove1 p (Q q), ReadyQ := p # Q ReadyQ))"
    by (rule wake_plain_sysinv [OF s(1) _ q(2)]) (simp_all add: q(1) set_result_def Let_def do_unblock_def)
  moreover have "same_mail k ?t" by (simp add: set_result_def Let_def)
  ultimately show ?thesis using s(2) same_mail_ok by blast
qed

lemma net_front:
  assumes "sysinv k Q" "\<not> LIST_IS_EMPTY (Head q) (links k)"
  obtains p ps where "Q q = p # ps" "lnext (links k) (Head q) = PList p"
  using queues_front [OF kinvD(1) [OF preschedD(1) [OF sysinvD(1) [OF assms(1)]]], of q] assms(2)
  by (cases "Q q") (simp_all add: front_node_def LIST_IS_EMPTY_def)

section \<open>Receiving\<close>

lemma put_memory:
  "put_user a bytes k = Some k' \<Longrightarrow> quiet k k'" "put_kernel a bytes k = Some k' \<Longrightarrow> quiet k k'"
  by (auto simp: put_user_def put_kernel_def quiet_def same_but_memory_def split: bind_splits)

lemma poll_kern: "poll s = Some (bytes, s') \<Longrightarrow> kern s' = kern s"
  by (auto simp: poll_def Let_def split: if_splits bind_splits)

lemma recv_loop_memory:
  "(\<And>a bytes k k'. put a bytes k = Some k' \<Longrightarrow> quiet k k') \<Longrightarrow>
   recv_loop put buf lens num i bias s = Some (j, s') \<Longrightarrow> quiet (kern s) (kern s')"
proof (induction put buf lens num i bias s arbitrary: j s' rule: recv_loop.induct)
  case (1 put buf lens num i bias s)
  obtain bytes s1 k1 where a: "poll s = Some (bytes, s1)" "put (buf + word_of_int bias) bytes (kern s1) = Some k1"
    using "1.prems"(2) by (subst (asm) recv_loop.simps) (auto split: bind_splits)
  have m: "quiet (kern s) k1" using "1.prems"(1) [OF a(2)] poll_kern [OF a(1)] by simp
  show ?case
  proof (cases "bytes \<noteq> [] \<and> i < num")
    case True
    obtain k3 where k3: "put (lens + 4 * word_of_int i) (int_bytes (int (length bytes))) k1 = Some k3"
      "recv_loop put buf lens num (i + 1) (bias + int (length bytes)) (s1\<lparr>kern := k1\<rparr>\<lparr>kern := k3\<rparr>) = Some (j, s')"
      using "1.prems"(2) a True by (subst (asm) recv_loop.simps) (auto simp: Let_def split: bind_splits)
    have "quiet (kern (s1\<lparr>kern := k1\<rparr>\<lparr>kern := k3\<rparr>)) (kern s')"
      by (rule "1.IH" [OF a(1) refl a(2) refl True _ "1.prems"(1) k3(2)]) (use k3(1) in simp)
    then show ?thesis using quiet_trans [OF m] quiet_trans "1.prems"(1) [OF k3(1)] by fastforce
  next
    case False
    then show ?thesis using "1.prems"(2) a m by (subst (asm) recv_loop.simps) (auto simp: Let_def split: if_splits)
  qed
qed

lemma buffer_loop_kern: "buffer_loop s = Some s' \<Longrightarrow> kern s' = kern s"
proof (rule buffer_loop.raw_induct [where P = "\<lambda>s s'. kern s' = kern s"])
  fix f :: "'a net \<Rightarrow> 'a net option" and s s'
  assume IH: "\<And>s s'. f s = Some s' \<Longrightarrow> kern s' = kern s"
  assume *: "(if \<not> pk_dd s (ph s)
      then do {
        (bytes, c) \<leftarrow> e1000_poll (card s);
        buf \<leftarrow> memcpy (pk_buff s (ph s)) 0 (packet bytes) 0 (length bytes);
        let s1 = s\<lparr>card := c, pk_buff := (pk_buff s)(ph s := buf), pk_lens := (pk_lens s)(ph s := length bytes)\<rparr>;
        if bytes \<noteq> [] then f (s1\<lparr>pk_dd := (pk_dd s1)(ph s1 := True), ph := (ph s1 + 1) mod RECV_BUFFER_NUM\<rparr>)
        else Some s1 }
      else Some s) = Some s'"
  show "kern s' = kern s"
    using * by (auto simp: Let_def split: if_splits bind_splits dest!: IH)
qed

section \<open>The operations\<close>

lemma net_send_in_order:
  fixes s :: "'d net"
  assumes s: "sysinv (kern s) Q" "mail_ok (kern s)" and user: "user_running (kern s)"
    and r: "do_net_send rt txpacket len s = Some (v, s')"
  shows "in_order (kern s')"
proof -
  let ?k = "kern s" and ?c = "current_running (kern s)"
  obtain len' c where t: "e1000_transmit (user_region ?k txpacket) len (e1000_write_reg E1000_IMS E1000_ICR_TXQE (card s)) = Some (len', c)"
    using r unfolding do_net_send_def by (auto simp: Let_def split: bind_splits)
  show ?thesis
  proof (cases "len' = 0")
    case False
    then show ?thesis using r s t by (auto simp: do_net_send_def Let_def)
  next
    case True
    obtain a k' where k: "do_scheduler rt (do_block ?c NetSendQ
        (upd_pcb ?c (\<lambda>t. t\<lparr>net_buffer := a, net_length := len', status := TASK_BLOCKED\<rparr>) ?k)) = Some k'" "kern s' = k'"
      using r t True by (auto simp: do_net_send_def Let_def split: bind_splits)
    have "in_order k'" by (rule net_block [OF s user _ _ _ _ _ k(1)]) (simp_all add: plain_queue_def)
    then show ?thesis by (simp add: k(2))
  qed
qed

lemma net_recv_in_order:
  fixes s :: "'d net"
  assumes s: "sysinv (kern s) Q" "mail_ok (kern s)" and user: "user_running (kern s)"
    and r: "do_net_recv rt rxbuffer pkt_num pkt_lens s = Some (v, s')"
  shows "in_order (kern s')"
proof -
  obtain i s1 where l: "recv_loop put_user rxbuffer pkt_lens pkt_num 0 0 s = Some (i, s1)"
    using r unfolding do_net_recv_def by (auto simp: Let_def split: bind_splits)
  have m: "quiet (kern s) (kern s1)" by (rule recv_loop_memory [OF put_memory(1) l])
  have s1: "sysinv (kern s1) Q" "mail_ok (kern s1)" using quiet_step [OF s m] by simp_all
  have u1: "user_running (kern s1)"
    using user m by (simp add: user_running_def quiet_def same_but_memory_def current_running_def)
  let ?c = "current_running (kern s1)"
  show ?thesis
  proof (cases "i = pkt_num")
    case True
    then show ?thesis using r l s1 by (auto simp: do_net_recv_def)
  next
    case False
    obtain a b k' where k: "do_scheduler rt (do_block ?c NetRecvQ (upd_pcb ?c (\<lambda>t. t\<lparr>net_buffer := a, net_length := pkt_num,
        net_curr_num := i, net_packet_size := b, status := TASK_BLOCKED\<rparr>) (kern s1))) = Some k'" "kern s' = k'"
      using r l False by (auto simp: do_net_recv_def Let_def split: bind_splits)
    have "in_order k'" by (rule net_block [OF s1 u1 _ _ _ _ _ k(1)]) (simp_all add: plain_queue_def)
    then show ?thesis by (simp add: k(2))
  qed
qed

lemma update_net_send_in_order:
  fixes s :: "'d net"
  assumes s: "sysinv (kern s) Q" "mail_ok (kern s)" and r: "update_net_send s = Some s'"
  shows "in_order (kern s')"
proof (cases "LIST_IS_EMPTY (Head NetSendQ) (links (kern s))")
  case True
  then show ?thesis using r s by (auto simp: update_net_send_def)
next
  case False
  obtain p ps where q: "Q NetSendQ = p # ps" "lnext (links (kern s)) (Head NetSendQ) = PList p"
    by (rule net_front [OF s(1) False])
  obtain v where v: "kern s' = set_result p v (set_status p TASK_READY (do_unblock (PList p) (kern s)))"
    using r False q(2) by (auto simp: update_net_send_def Let_def split: bind_splits)
  show ?thesis unfolding v by (rule net_wake [OF s q(1)]) (simp add: plain_queue_def)
qed

lemma update_net_recv_in_order:
  fixes s :: "'d net"
  assumes s: "sysinv (kern s) Q" "mail_ok (kern s)" and r: "update_net_recv s = Some s'"
  shows "in_order (kern s')"
proof (cases "LIST_IS_EMPTY (Head NetRecvQ) (links (kern s))")
  case True
  then have "buffer_loop s = Some s'" using r by (simp add: update_net_recv_def)
  then show ?thesis using s buffer_loop_kern by metis
next
  case False
  obtain p ps where q: "Q NetRecvQ = p # ps" "lnext (links (kern s)) (Head NetRecvQ) = PList p"
    by (rule net_front [OF s(1) False])
  let ?t = "pcbs (kern s) p"
  obtain bias i s1 where l: "recv_loop put_kernel (net_buffer ?t) (net_packet_size ?t) (net_length ?t) (net_curr_num ?t) bias s = Some (i, s1)"
    and s': "s' = (if i \<noteq> net_length ?t then on_kern (upd_pcb p (\<lambda>t. t\<lparr>net_curr_num := i\<rparr>)) s1
      else on_kern (\<lambda>k. set_result p (word_of_int i) (set_status p TASK_READY (do_unblock (lnext (links (kern s1)) (Head NetRecvQ)) k))) s1)"
    using r False q(2) unfolding update_net_recv_def by (auto simp: Let_def split: bind_splits if_splits)
  have m: "quiet (kern s) (kern s1)" by (rule recv_loop_memory [OF put_memory(2) l])
  have s1: "sysinv (kern s1) Q" "mail_ok (kern s1)" using quiet_step [OF s m] by simp_all
  have n: "lnext (links (kern s1)) (Head NetRecvQ) = PList p" using q(2) m by (simp add: quiet_def same_but_memory_def)
  show ?thesis
  proof (cases "i = net_length ?t")
    case True
    have "in_order (set_result p (word_of_int i) (set_status p TASK_READY (do_unblock (PList p) (kern s1))))"
      by (rule net_wake [OF s1 q(1)]) (simp add: plain_queue_def)
    then show ?thesis unfolding s' using True by (simp add: on_kern_def n)
  next
    case False
    have "mail_ok (upd_pcb p (\<lambda>t. t\<lparr>net_curr_num := i\<rparr>) (kern s1))"
      using same_mail_ok [of "kern s1" "upd_pcb p (\<lambda>t. t\<lparr>net_curr_num := i\<rparr>) (kern s1)"] s1(2) by simp
    then show ?thesis unfolding s'
      using False sysinv_upd [OF s1(1), of "\<lambda>t. t\<lparr>net_curr_num := i\<rparr>" p] by (auto simp: on_kern_def)
  qed
qed

lemma net_irq_in_order:
  fixes s :: "'d net"
  assumes s: "sysinv (kern s) Q" "mail_ok (kern s)" and r: "handle_irq_ext s = Some s'"
  shows "in_order (kern s')"
proof -
  have h: "in_order (kern u)" if n: "net_handle_irq s = Some u" for u
  proof -
    obtain c where c: "e1000_read_reg E1000_ICR (card s) = c" by simp
    let ?s1 = "s\<lparr>card := snd c\<rparr>"
    have "\<exists>s2. (if fst c AND E1000_ICR_RXDMT0 \<noteq> 0 then update_net_recv ?s1 else Some ?s1) = Some s2
        \<and> (if fst c AND E1000_ICR_TXQE \<noteq> 0 then update_net_send s2 else Some s2) = Some u"
      using n c by (cases c) (auto simp: net_handle_irq_def Let_def split: bind_splits)
    then obtain s2 where s2: "(if fst c AND E1000_ICR_RXDMT0 \<noteq> 0 then update_net_recv ?s1 else Some ?s1) = Some s2"
      "(if fst c AND E1000_ICR_TXQE \<noteq> 0 then update_net_send s2 else Some s2) = Some u" by blast
    have "sysinv (kern ?s1) Q" "mail_ok (kern ?s1)" using s by simp_all
    then obtain Q2 where Q2: "sysinv (kern s2) Q2" "mail_ok (kern s2)"
      using s2(1) update_net_recv_in_order [of ?s1 Q s2] by (fastforce split: if_splits)
    show ?thesis
    proof (cases "fst c AND E1000_ICR_TXQE = 0")
      case True
      then show ?thesis using s2(2) Q2 by auto
    next
      case False
      then show ?thesis using s2(2) update_net_send_in_order [OF Q2] by simp
    qed
  qed
  show ?thesis using r s h by (auto simp: handle_irq_ext_def Let_def split: bind_splits if_splits)
qed

section \<open>The kernel with the network\<close>

datatype net_event = Kernel event | Call call | Net_send u64 int | Net_recv u64 int u64 | Net_irq | Device nic plic

fun net_perform ::
  "'d bios \<Rightarrow> (pcb_ref \<Rightarrow> u64) \<Rightarrow> (nat \<Rightarrow> task_info_t) \<Rightarrow> (nat \<Rightarrow> u64) \<Rightarrow> net_event \<Rightarrow> 'd net \<Rightarrow> 'd net option" where
  "net_perform B pa tasks rt (Kernel e) s = map_option (\<lambda>k. s\<lparr>kern := k\<rparr>) (perform B pa tasks rt e (kern s))"
| "net_perform B pa tasks rt (Call c) s = map_option (\<lambda>k. s\<lparr>kern := k\<rparr>) (call_perform B rt c (kern s))"
| "net_perform B pa tasks rt (Net_send a n) s = map_option snd (do_net_send rt a n s)"
| "net_perform B pa tasks rt (Net_recv a n l) s = map_option snd (do_net_recv rt a n l s)"
| "net_perform B pa tasks rt Net_irq s = handle_irq_ext s"
| "net_perform B pa tasks rt (Device c i) s = Some (s\<lparr>card := c, irqs := i\<rparr>)"

fun net_allowed :: "net_event \<Rightarrow> 'd net \<Rightarrow> bool" where
  "net_allowed (Kernel e) s \<longleftrightarrow> allowed e (kern s)"
| "net_allowed (Call c) s \<longleftrightarrow> call_allowed c (kern s)"
| "net_allowed (Net_send a n) s \<longleftrightarrow> user_running (kern s)"
| "net_allowed (Net_recv a n l) s \<longleftrightarrow> user_running (kern s)"
| "net_allowed e s \<longleftrightarrow> True"

inductive net_reachable ::
  "'d bios \<Rightarrow> (pcb_ref \<Rightarrow> u64) \<Rightarrow> (nat \<Rightarrow> task_info_t) \<Rightarrow> (nat \<Rightarrow> u64) \<Rightarrow> 'd net \<Rightarrow> 'd net \<Rightarrow> bool"
  for B pa tasks rt s0 where
  start: "net_reachable B pa tasks rt s0 s0"
| event: "net_reachable B pa tasks rt s0 s \<Longrightarrow> net_allowed e s \<Longrightarrow> net_perform B pa tasks rt e s = Some s' \<Longrightarrow>
    net_reachable B pa tasks rt s0 s'"

lemma net_step:
  assumes s: "sysinv (kern s) Q" "mail_ok (kern s)" and e: "net_allowed e s" "net_perform B pa tasks rt e s = Some s'"
  shows "in_order (kern s')"
proof (cases e)
  case (Kernel ev)
  then obtain k where k: "perform B pa tasks rt ev (kern s) = Some k" "kern s' = k" using e(2) by auto
  obtain Q' where "sysinv k Q'" using perform_result [OF s(1), of ev B pa tasks rt] e(1) k(1) Kernel by auto
  then show ?thesis using same_mail_ok [OF perform_mail [OF k(1)]] s(2) k(2) by auto
next
  case (Call c)
  then show ?thesis using call_step [OF s, of c B rt] e by auto
next
  case (Net_send a n)
  then show ?thesis using net_send_in_order [OF s, of rt a n] e by auto
next
  case (Net_recv a n l)
  then show ?thesis using net_recv_in_order [OF s, of rt a n l] e by auto
next
  case Net_irq
  then show ?thesis using net_irq_in_order [OF s] e by simp
next
  case (Device c i)
  then show ?thesis using s e by auto
qed

lemma net_reachable_in_order:
  assumes "net_reachable B pa tasks rt s0 s" "in_order (kern s0)"
  shows "in_order (kern s)"
  using assms
proof (induction rule: net_reachable.induct)
  case (event s e s')
  then show ?case using net_step by blast
qed simp

lemma boot_in_order:
  fixes s0 :: "'d kernel"
  assumes "main_hart0 B pa freq tasks s0 = Some s1" "fresh s0" "mail_zero s0"
    and "init_task_info B tasks (init_mm (mm s0)) = Some (num, ts, m)"
    and "\<forall>i < nat num. \<forall>j < nat num. named_shell ts i \<longrightarrow> named_shell ts j \<longrightarrow> i = j"
  shows "in_order (main_hart1 s1)"
proof -
  obtain Q where "booted s1 Q" using main_hart0_booted [OF assms(1,2,4,5)] by blast
  then show ?thesis using booted_sysinv main_hart0_mail [OF assms(1,3)] by blast
qed

text \<open>The invariant holds with the network and the mailboxes: in every state reached from \<open>main\<close> by
  the timer, the system calls on tasks, locks, barriers, conditions, mailboxes and the network, page
  faults and external interrupts, while the card and the interrupt controller do what they like, the
  queues are well linked and agree with the status of every task, and the RUNNING tasks are exactly
  the two that the harts run.\<close>

theorem network_keeps_invariant:
  fixes s0 :: "'d kernel" and n0 n :: "'d net"
  assumes "main_hart0 B pa freq tasks s0 = Some s1" "fresh s0" "mail_zero s0"
    and "init_task_info B tasks (init_mm (mm s0)) = Some (num, ts, m)"
    and "\<forall>i < nat num. \<forall>j < nat num. named_shell ts i \<longrightarrow> named_shell ts j \<longrightarrow> i = j"
    and "kern n0 = main_hart1 s1" "net_reachable B pa ts rt n0 n"
  shows "(\<exists>Q. sysinv (kern n) Q) \<and> tp (kern n) 0 \<noteq> tp (kern n) 1
    \<and> (\<forall>p. pstatus (kern n) p = TASK_RUNNING \<longleftrightarrow> p = tp (kern n) 0 \<or> p = tp (kern n) 1)"
proof -
  have "in_order (kern n0)" using boot_in_order [OF assms(1-5)] assms(6) by simp
  then obtain Q where Q: "sysinv (kern n) Q" using net_reachable_in_order [OF assms(7)] by blast
  show ?thesis using Q sysinv_harts [OF Q] by blast
qed

text \<open>(C3) No mailbox call with a message of at most \<open>2 ^ 31 - 129\<close> bytes leaves its buffer. Let the kernel start in
  order, such as after \<open>main\<close> (\<open>boot_in_order\<close>), and let the events be allowed ones, so that no send or receive has a
  length outside 0 to \<open>2 ^ 31 - 129\<close> (beyond it the test for room overflows, C7). In every state reached by those events each
  mailbox has a buffer of 128 bytes and a length between 0 and 128, every waiting task asks for a number of bytes within these
  bounds, and a send or a receive within them, on any of the mailboxes, returns with the mailboxes in order again.\<close>

theorem mailboxes_stay_well_formed:
  fixes n0 n :: "'d net"
  assumes "sysinv (kern n0) Q" "mail_ok (kern n0)" "net_reachable B pa ts rt n0 n"
    and "c = Mbox_send i msg k \<or> c = Mbox_recv i msg k" "call_allowed c (kern n)"
  shows "mail_ok (kern n) \<and> (\<exists>k'. call_perform B rt c (kern n) = Some k' \<and> mail_ok k')"
proof -
  obtain Q' where Q': "sysinv (kern n) Q'" "mail_ok (kern n)" using net_reachable_in_order [OF assms(3)] assms(1,2) by blast
  have "call_perform B rt c (kern n) \<noteq> None" by (rule call_returns [OF Q' assms(5)]) (use assms(4) in \<open>auto simp: returns_def\<close>)
  then show ?thesis using call_step [OF Q' assms(5)] Q'(2) by blast
qed

text \<open>A machine that has just booted: the card interrupts, without a cause in its register, the handler
  claims the interrupt and completes it.\<close>

definition net_boot :: "'d kernel \<Rightarrow> 'd net" where
  "net_boot k = \<lparr>kern = k,
     card = \<lparr>nregs = (\<lambda>_. 0)(E1000_IMS := E1000_ICR_TXQE),
       tx_desc_array = undefined, rx_desc_array = undefined, tx_pkt_buffer = itoa_buffer, rx_pkt_buffer = itoa_buffer\<rparr>,
     irqs = \<lparr>plic_handlers = \<lparr>present = True, hart_base = 0x200000, enable_base = 0x2000\<rparr>, plic_regs = 0, io = (\<lambda>_. 33)\<rparr>,
     pt = 0, ph = 0, pk_dd = (\<lambda>_. False), pk_buff = (\<lambda>_. itoa_buffer), pk_lens = (\<lambda>_. 0)\<rparr>"

lemma boot_kernel_mail: "mail_zero boot_kernel"
  by (simp add: mail_zero_def boot_kernel_def demo_def demo_mbox_def message_size_def MAX_MBOX_LENGTH_def)

theorem network_keeps_invariant_witness:
  "\<forall>ts. \<exists>s1 n. main_hart0 toy_bios (\<lambda>_. 0) 1 ts boot_kernel = Some s1 \<and> handle_irq_ext (net_boot (main_hart1 s1)) = Some n
     \<and> tp (kern n) 0 \<noteq> tp (kern n) 1 \<and> (\<exists>Q. sysinv (kern n) Q)"
proof
  fix ts
  let ?pa = "\<lambda>_. 0 :: u64" and ?rt = "\<lambda>_ :: nat. 0 :: u64"
  obtain s1 where s1: "main_hart0 toy_bios ?pa 1 ts boot_kernel = Some s1" using boot_kernel_boots by blast
  obtain m where m: "init_task_info toy_bios ts (init_mm (mm boot_kernel)) = Some (0, ts, m)"
    using boot_task_info by blast
  note I = network_keeps_invariant [OF s1 boot_kernel_fresh boot_kernel_mail m]
  let ?n0 = "net_boot (main_hart1 s1)"
  have irq: "handle_irq_ext ?n0 \<noteq> None"
    by (simp add: handle_irq_ext_def net_handle_irq_def e1000_read_reg_def net_boot_def plic_claim_def readl_def
        PLIC_E1000_QEMU_IRQ_def E1000_ICR_def E1000_IMS_def Let_def)
  then obtain n where n: "handle_irq_ext ?n0 = Some n" by blast
  have "net_reachable toy_bios ?pa ts ?rt ?n0 n"
    by (rule net_reachable.event [OF net_reachable.start, of Net_irq]) (simp_all add: n)
  from I [OF _ _ this] s1 n
  show "\<exists>s1 n. main_hart0 toy_bios ?pa 1 ts boot_kernel = Some s1 \<and> handle_irq_ext (net_boot (main_hart1 s1)) = Some n
     \<and> tp (kern n) 0 \<noteq> tp (kern n) 1 \<and> (\<exists>Q. sysinv (kern n) Q)" by (auto simp: net_boot_def)
qed

text \<open>Task 0 of a kernel with three ready tasks sends five bytes.\<close>

theorem mailboxes_stay_well_formed_witness:
  "\<exists>k'. call_perform toy_bios (\<lambda>_. 0) (Mbox_send 3 0x1000 5) three_ready = Some k' \<and> mail_ok k'"
proof -
  let ?n = "net_boot three_ready" and ?c = "Mbox_send 3 0x1000 5"
  have a: "sysinv (kern ?n) (contents [(ReadyQ, Pid0 0), (ReadyQ, Pcb 1), (ReadyQ, Pcb 2)])"
    using three_ready_sysinv by (simp add: net_boot_def)
  have b: "mail_ok (kern ?n)"
    by (simp add: net_boot_def mail_ok_def mbox_ok_def three_ready_def demo_mbox_def message_size_def MAX_MBOX_LENGTH_def)
  have c: "call_allowed ?c (kern ?n)"
    by (simp add: net_boot_def user_running_def three_ready_def MBOX_NUM_def message_size_def MAX_MBOX_LENGTH_def)
  have d: "net_reachable toy_bios (\<lambda>_. 0) (\<lambda>_. undefined) (\<lambda>_. 0) ?n ?n" by (rule net_reachable.start)
  show ?thesis
    using mailboxes_stay_well_formed [OF a b d disjI1 [OF refl] c] by (simp add: net_boot_def)
qed

end
