(* ===== verification/Machine.thy ===== *)
theory Machine
  imports NetSys Dispatch FsFile
begin

text \<open>
  The whole machine below user programs: the kernel with the network, the file system, the screen and the
  timer, and one trap after the other. \<open>kernel_call\<close> is the C calling convention of the system call table:
  which argument register goes to which parameter, at which width. The card that holds the swap area and
  the card of the file system are one. A user program is anything: between two traps it may change its
  memory and the registers that the next trap saves as it likes.

  Output of \<open>printk\<close> within the calls is left out, as everywhere; the calls that write to the screen and
  the handler that stops the machine are complete. A call that gives up the hart leaves its result in
  its frame at once, while the code does so when the task runs again: nobody reads the frame before.
\<close>

section \<open>State\<close>

record 'd machine =
  core :: "'d net"
  files :: "'d fs"
  display :: screen
  timers :: "u64 list"

abbreviation kernel_of :: "'d machine \<Rightarrow> 'd kernel" where
  "kernel_of m \<equiv> kern (core m)"

definition set_kernel :: "'d kernel \<Rightarrow> 'd machine \<Rightarrow> 'd machine" where
  "set_kernel k m = m\<lparr>core := (core m)\<lparr>kern := k\<rparr>\<rparr>"

definition upd_kernel :: "('d kernel \<Rightarrow> 'd kernel) \<Rightarrow> 'd machine \<Rightarrow> 'd machine" where
  "upd_kernel f m = set_kernel (f (kernel_of m)) m"

lemma set_kernel_simps [simp]:
  "kernel_of (set_kernel k m) = k" "core (set_kernel k m) = (core m)\<lparr>kern := k\<rparr>" "files (set_kernel k m) = files m"
  "display (set_kernel k m) = display m" "kernel_of (upd_kernel f m) = f (kernel_of m)"
  by (simp_all add: set_kernel_def upd_kernel_def)

section \<open>Arguments and results\<close>

definition int_arg :: "u64 \<Rightarrow> int" where
  "int_arg w = sint (ucast w :: u32)"

definition int_result :: "int \<Rightarrow> u64" where
  "int_result v = scast (word_of_int v :: u32)"

text \<open>Functions on the kernel with and without a result, on the network, on the screen, on the files.
  \<open>a0\<close> is what a function without a result leaves in the register.\<close>

definition kernel_int :: "('d kernel \<Rightarrow> (int \<times> 'd kernel) option) \<Rightarrow> 'd machine \<Rightarrow> (u64 \<times> 'd machine) option" where
  "kernel_int f m = do { (v, k) \<leftarrow> f (kernel_of m); Some (int_result v, set_kernel k m) }"

definition kernel_void :: "u64 \<Rightarrow> ('d kernel \<Rightarrow> 'd kernel option) \<Rightarrow> 'd machine \<Rightarrow> (u64 \<times> 'd machine) option" where
  "kernel_void a0 f m = do { k \<leftarrow> f (kernel_of m); Some (a0, set_kernel k m) }"

definition net_int :: "('d net \<Rightarrow> (int \<times> 'd net) option) \<Rightarrow> 'd machine \<Rightarrow> (u64 \<times> 'd machine) option" where
  "net_int f m = do { (v, n) \<leftarrow> f (core m); Some (int_result v, m\<lparr>core := n\<rparr>) }"

definition on_display :: "('d kernel \<times> screen \<Rightarrow> ('d kernel \<times> screen) option) \<Rightarrow> 'd machine \<Rightarrow> 'd machine option" where
  "on_display f m = do { (k, d) \<leftarrow> f (kernel_of m, display m); Some (set_kernel k m\<lparr>display := d\<rparr>) }"

definition screen_void :: "u64 \<Rightarrow> (tty \<Rightarrow> tty option) \<Rightarrow> 'd machine \<Rightarrow> (u64 \<times> 'd machine) option" where
  "screen_void a0 f m = map_option (\<lambda>m'. (a0, m')) (on_display (on_screen f) m)"

definition card_in :: "'d machine \<Rightarrow> 'd fs" where
  "card_in m = fs.card_update (\<lambda>_. sd (mm (kernel_of m))) (files m)"

definition card_out :: "'d fs \<Rightarrow> 'd machine \<Rightarrow> 'd machine" where
  "card_out f m = upd_kernel (\<lambda>k. k\<lparr>mm := (mm k)\<lparr>sd := fs.card f\<rparr>\<rparr>) m\<lparr>files := f\<rparr>"

definition files_int :: "('d fs \<Rightarrow> (int \<times> 'd fs) option) \<Rightarrow> 'd machine \<Rightarrow> (u64 \<times> 'd machine) option" where
  "files_int op m = do { (v, f) \<leftarrow> op (card_in m); Some (int_result v, card_out f m) }"

text \<open>A path or a buffer of the caller, and what a call has written to it.\<close>

abbreviation user_text :: "'d machine \<Rightarrow> u64 \<Rightarrow> region" where
  "user_text m a \<equiv> Exec.user_region (kernel_of m) a"

definition put_region :: "u64 \<Rightarrow> region \<Rightarrow> 'd kernel \<Rightarrow> 'd kernel" where
  "put_region a r s = s\<lparr>umem := (umem s)(csr_satp s (hart s) :=
     (\<lambda>x. if unat (x - a) < rsize r then rbyte r (unat (x - a)) else user_view s x))\<rparr>"

definition files_region :: "u64 \<Rightarrow> ('d fs \<Rightarrow> (int \<times> region \<times> 'd fs) option) \<Rightarrow> 'd machine \<Rightarrow> (u64 \<times> 'd machine) option" where
  "files_region a op m = do {
     (v, r, f) \<leftarrow> op (card_in m);
     Some (int_result v, upd_kernel (put_region a r) (card_out f m)) }"

section \<open>The functions of the system call table\<close>

fun kernel_call ::
  "'d bios \<Rightarrow> (pcb_ref \<Rightarrow> u64) \<Rightarrow> (nat \<Rightarrow> task_info_t) \<Rightarrow> (nat \<Rightarrow> u64) \<Rightarrow> u64 \<Rightarrow>
   kfun \<Rightarrow> u64 \<Rightarrow> u64 \<Rightarrow> u64 \<Rightarrow> 'd machine \<Rightarrow> (u64 \<times> 'd machine) option" where
  "kernel_call B pa tasks rt a0 Do_exec a b c m = kernel_int (do_exec B pa tasks a (int_arg b) c) m"
| "kernel_call B pa tasks rt a0 Do_exit a b c m = kernel_void a0 (do_exit rt) m"
| "kernel_call B pa tasks rt a0 Do_sleep a b c m = kernel_void a0 (do_sleep rt (ucast a)) m"
| "kernel_call B pa tasks rt a0 Do_kill_all a b c m = kernel_int (do_kill_all (int_arg a)) m"
| "kernel_call B pa tasks rt a0 Do_waitpid a b c m = kernel_int (do_waitpid rt (int_arg a)) m"
| "kernel_call B pa tasks rt a0 Do_process_show a b c m = map_option (\<lambda>m'. (a0, m')) (on_display do_process_show m)"
| "kernel_call B pa tasks rt a0 Do_getpid a b c m = kernel_int (\<lambda>k. Some (do_getpid k, k)) m"
| "kernel_call B pa tasks rt a0 Do_scheduler a b c m = kernel_void a0 (do_scheduler rt) m"
| "kernel_call B pa tasks rt a0 Do_thread_create a b c m = kernel_void a0 (do_thread_create B pa a b c) m"
| "kernel_call B pa tasks rt a0 Do_thread_join a b c m = kernel_int (do_thread_join rt (int_arg a)) m"
| "kernel_call B pa tasks rt a0 Screen_write a b c m = screen_void a0 (screen_write (user_text m a)) m"
| "kernel_call B pa tasks rt a0 Port_read_ch a b c m = Some (a0, m)"
| "kernel_call B pa tasks rt a0 Screen_move_cursor a b c m = screen_void a0 (screen_move_cursor (int_arg a) (int_arg b)) m"
| "kernel_call B pa tasks rt a0 Screen_reflush a b c m = screen_void a0 screen_reflush m"
| "kernel_call B pa tasks rt a0 Screen_clear a b c m = screen_void a0 screen_clear m"
| "kernel_call B pa tasks rt a0 Get_time_base a b c m = Some (get_time_base (kernel_of m), m)"
| "kernel_call B pa tasks rt a0 Get_ticks a b c m =
     (let (t, k) = get_ticks rt (kernel_of m) in Some (t, set_kernel k m))"
| "kernel_call B pa tasks rt a0 Do_mutex_lock_init a b c m = kernel_int (\<lambda>k. Some (do_mutex_lock_init (int_arg a) k)) m"
| "kernel_call B pa tasks rt a0 Do_mutex_lock_acquire a b c m = kernel_void a0 (do_mutex_lock_acquire rt (int_arg a)) m"
| "kernel_call B pa tasks rt a0 Do_mutex_lock_release a b c m = kernel_void a0 (do_mutex_lock_release (int_arg a)) m"
| "kernel_call B pa tasks rt a0 Do_barrier_init a b c m = kernel_int (\<lambda>k. Some (do_barrier_init (int_arg a) (int_arg b) k)) m"
| "kernel_call B pa tasks rt a0 Do_barrier_wait a b c m = kernel_void a0 (do_barrier_wait rt (int_arg a)) m"
| "kernel_call B pa tasks rt a0 Do_barrier_destroy a b c m = kernel_void a0 (do_barrier_destroy (int_arg a)) m"
| "kernel_call B pa tasks rt a0 Do_condition_init a b c m = kernel_int (\<lambda>k. Some (do_condition_init (int_arg a) k)) m"
| "kernel_call B pa tasks rt a0 Do_condition_wait a b c m = kernel_void a0 (do_condition_wait rt (int_arg a) (int_arg b)) m"
| "kernel_call B pa tasks rt a0 Do_condition_signal a b c m = kernel_void a0 (do_condition_signal (int_arg a)) m"
| "kernel_call B pa tasks rt a0 Do_condition_broadcast a b c m = kernel_void a0 (do_condition_broadcast (int_arg a)) m"
| "kernel_call B pa tasks rt a0 Do_mbox_open a b c m = kernel_int (do_mbox_open (user_text m a)) m"
| "kernel_call B pa tasks rt a0 Do_mbox_close a b c m = kernel_void a0 (do_mbox_close (int_arg a)) m"
| "kernel_call B pa tasks rt a0 Do_mbox_send a b c m = kernel_int (do_mbox_send rt (int_arg a) b (int_arg c)) m"
| "kernel_call B pa tasks rt a0 Do_mbox_recv a b c m = kernel_int (do_mbox_recv rt (int_arg a) b (int_arg c)) m"
| "kernel_call B pa tasks rt a0 Do_net_send a b c m = net_int (do_net_send rt a (int_arg b)) m"
| "kernel_call B pa tasks rt a0 Do_net_recv a b c m = net_int (do_net_recv rt a (int_arg b) c) m"
| "kernel_call B pa tasks rt a0 Do_mkfs a b c m = files_int (do_mkfs B) m"
| "kernel_call B pa tasks rt a0 Do_statfs a b c m = files_int (\<lambda>f. case do_statfs B f of (v, _, f') \<Rightarrow> Some (v, f')) m"
| "kernel_call B pa tasks rt a0 Do_cd a b c m = files_int (do_cd B (user_text m a)) m"
| "kernel_call B pa tasks rt a0 Do_ls a b c m =
     files_int (\<lambda>f. map_option (\<lambda>(v, _, f'). (v, f')) (do_ls B (user_text m a) (int_arg b) f)) m"
| "kernel_call B pa tasks rt a0 Do_mkdir a b c m = files_int (do_mkdir B (user_text m a)) m"
| "kernel_call B pa tasks rt a0 Do_rmdir a b c m = files_int (do_rmdir B (user_text m a)) m"
| "kernel_call B pa tasks rt a0 Do_open a b c m = files_int (do_open B (user_text m a) (int_arg b)) m"
| "kernel_call B pa tasks rt a0 Do_close a b c m = files_int (do_close (int_arg a)) m"
| "kernel_call B pa tasks rt a0 Do_read a b c m = files_region b (do_read B (int_arg a) (user_text m b) (int_arg c)) m"
| "kernel_call B pa tasks rt a0 Do_write a b c m = files_int (do_write B (int_arg a) (user_text m b) (int_arg c)) m"
| "kernel_call B pa tasks rt a0 Do_lseek a b c m = files_int (do_lseek (int_arg a) (int_arg b) (int_arg c)) m"
| "kernel_call B pa tasks rt a0 Do_ln a b c m = files_int (do_ln B (user_text m a) (user_text m b)) m"
| "kernel_call B pa tasks rt a0 Do_rm a b c m = files_region a (do_rm B (user_text m a)) m"


section \<open>Handlers\<close>

definition TIMER_INTERVAL :: u64 where "TIMER_INTERVAL = 150000"

text \<open>\<open>timers\<close> are the times given to \<open>bios_set_timer\<close>.\<close>

definition handle_irq_timer :: "(nat \<Rightarrow> u64) \<Rightarrow> 'd machine \<Rightarrow> 'd machine option" where
  "handle_irq_timer rt m = do {
     let (t, k1) = get_ticks rt (kernel_of m);
     let m1 = set_kernel k1 m\<lparr>timers := timers m @ [t + TIMER_INTERVAL]\<rparr>;
     m2 \<leftarrow> on_display (on_screen screen_reflush) m1;
     k3 \<leftarrow> do_scheduler rt (kernel_of m2);
     Some (set_kernel k3 m2) }"

text \<open>\<open>handle_other\<close> prints the trap frame; then \<open>assert(0)\<close> prints its message and never returns. What is
  defined is the screen that is left; the name of the source file comes from the compiler.\<close>

definition reg_name :: "u8 list list" where
  "reg_name = map ascii
     [''zero '','' ra  '','' sp  '','' gp  '','' tp  '',
      '' t0  '','' t1  '','' t2  '',''s0/fp'','' s1  '',
      '' a0  '','' a1  '','' a2  '','' a3  '','' a4  '',
      '' a5  '','' a6  '','' a7  '','' s2  '','' s3  '',
      '' s4  '','' s5  '','' s6  '','' s7  '','' s8  '',
      '' s9  '','' s10 '','' s11 '','' t3  '','' t4  '',
      '' t5  '','' t6  '']"

definition say :: "u8 list \<Rightarrow> va_arg list \<Rightarrow> tty \<Rightarrow> tty option" where
  "say fmt va ts = map_option snd (Screen.printk fmt va ts)"

definition print_reg :: "regs_context_t \<Rightarrow> nat \<Rightarrow> tty \<Rightarrow> tty option" where
  "print_reg c i = say (ascii ''%s : %016lx '') [Str (str (reg_name ! i)) 0, Num (regs c i)]"

definition print_row :: "regs_context_t \<Rightarrow> nat \<Rightarrow> tty \<Rightarrow> tty option" where
  "print_row c r ts = do {
     ts1 \<leftarrow> for_each (print_reg c) (filter (\<lambda>k. k < 32) [3 * r, 3 * r + 1, 3 * r + 2]) ts;
     say [10, 13] [] ts1 }"

definition panic_text :: "u8 list \<Rightarrow> tty \<Rightarrow> tty option" where
  "panic_text file = say (ascii ''Assertion failed at %s in %s:%d'' @ [10, 13])
     [Str (str (ascii ''handle_other'')) 0, Str (str file) 0, Num 176]"

definition handle_other_text :: "u8 list \<Rightarrow> regs_context_t \<Rightarrow> u64 \<Rightarrow> u64 \<Rightarrow> tty \<Rightarrow> tty option" where
  "handle_other_text file c stval cause ts = do {
     ts1 \<leftarrow> for_each (print_row c) [0..<11] ts;
     ts2 \<leftarrow> say (ascii ''sstatus: 0x%lx sbadaddr: 0x%lx scause: %lx'' @ [10, 13])
       [Num (sstatus c), Num (sbadaddr c), Num (scause c)] ts1;
     ts3 \<leftarrow> say (ascii ''sepc: 0x%lx'' @ [10, 13]) [Num (sepc c)] ts2;
     ts4 \<leftarrow> say (ascii ''tval: 0x%lx cause: 0x%lx'' @ [10]) [Num stval, Num cause] ts3;
     panic_text file ts4 }"

text \<open>One trap: \<open>interrupt_helper\<close> and the handler it calls. The frame is the one on the kernel stack of
  the running task.\<close>

definition trap_frame :: "'d machine \<Rightarrow> u64" where
  "trap_frame m = kernel_sp (pcbs (kernel_of m) (current_running (kernel_of m)))"

definition run_handler ::
  "'d bios \<Rightarrow> (pcb_ref \<Rightarrow> u64) \<Rightarrow> (nat \<Rightarrow> task_info_t) \<Rightarrow> (nat \<Rightarrow> u64) \<Rightarrow> u64 \<Rightarrow> u64 \<Rightarrow> handler \<Rightarrow> 'd machine \<Rightarrow> 'd machine option" where
  "run_handler B pa tasks rt a0 stval h m =
     (case h of
        Handle_syscall \<Rightarrow> handle_syscall kernel_of upd_kernel
          (\<lambda>f xs. kernel_call B pa tasks rt a0 f (xs ! 0) (xs ! 1) (xs ! 2)) (trap_frame m) m
      | Handle_other \<Rightarrow> None
      | Handle_load_page_fault \<Rightarrow> map_option (\<lambda>k. set_kernel k m) (handle_load_page_fault B stval (kernel_of m))
      | Handle_store_page_fault \<Rightarrow> map_option (\<lambda>k. set_kernel k m) (handle_store_page_fault B stval (kernel_of m))
      | Handle_irq_timer \<Rightarrow> handle_irq_timer rt m
      | Handle_irq_ext \<Rightarrow> map_option (\<lambda>n. m\<lparr>core := n\<rparr>) (handle_irq_ext (core m)))"

definition trap ::
  "'d bios \<Rightarrow> (pcb_ref \<Rightarrow> u64) \<Rightarrow> (nat \<Rightarrow> task_info_t) \<Rightarrow> (nat \<Rightarrow> u64) \<Rightarrow> u64 \<Rightarrow> u64 \<Rightarrow> u64 \<Rightarrow> 'd machine \<Rightarrow> 'd machine option" where
  "trap B pa tasks rt a0 cause stval m = do { h \<leftarrow> interrupt_helper cause; run_handler B pa tasks rt a0 stval h m }"

text \<open>An \<open>int\<close> that a stub puts into a register arrives as it was.\<close>

lemma int_arg_reg: "- (2 ^ 31) \<le> x \<Longrightarrow> x < 2 ^ 31 \<Longrightarrow> int_arg (reg x) = x"
proof -
  have "(ucast (word_of_int x :: u64) :: u32) = word_of_int x" by (rule bit_word_eqI) (simp add: bit_simps)
  then show "- (2 ^ 31) \<le> x \<Longrightarrow> x < 2 ^ 31 \<Longrightarrow> ?thesis"
    by (simp add: int_arg_def signed_of_int signed_take_bit_int_eq_self)
qed

section \<open>Calls as events\<close>

text \<open>What a call is among the events of theory NetSys, if it concerns them.\<close>

fun event_of :: "kfun \<Rightarrow> u64 \<Rightarrow> u64 \<Rightarrow> u64 \<Rightarrow> 'd machine \<Rightarrow> net_event option" where
  "event_of Do_exec a b c m = Some (Kernel (Exec a (int_arg b) c))"
| "event_of Do_exit a b c m = Some (Kernel Exit)"
| "event_of Do_sleep a b c m = Some (Kernel (Sleep (ucast a)))"
| "event_of Do_kill_all a b c m = Some (Kernel (Kill (int_arg a)))"
| "event_of Do_waitpid a b c m = Some (Kernel (Waitpid (int_arg a)))"
| "event_of Do_scheduler a b c m = Some (Kernel Timer)"
| "event_of Do_thread_create a b c m = Some (Kernel (Thread_create a b c))"
| "event_of Do_thread_join a b c m = Some (Call (Thread_join (int_arg a)))"
| "event_of Get_ticks a b c m = Some (Call Read_clock)"
| "event_of Do_mutex_lock_init a b c m = Some (Kernel (Mutex_init (int_arg a)))"
| "event_of Do_mutex_lock_acquire a b c m = Some (Kernel (Mutex_acquire (int_arg a)))"
| "event_of Do_mutex_lock_release a b c m = Some (Kernel (Mutex_release (int_arg a)))"
| "event_of Do_barrier_init a b c m = Some (Kernel (Barrier_init (int_arg a) (int_arg b)))"
| "event_of Do_barrier_wait a b c m = Some (Kernel (Barrier_wait (int_arg a)))"
| "event_of Do_barrier_destroy a b c m = Some (Call (Barrier_destroy (int_arg a)))"
| "event_of Do_condition_init a b c m = Some (Kernel (Condition_init (int_arg a)))"
| "event_of Do_condition_wait a b c m = Some (Kernel (Condition_wait (int_arg a) (int_arg b)))"
| "event_of Do_condition_signal a b c m = Some (Kernel (Condition_signal (int_arg a)))"
| "event_of Do_condition_broadcast a b c m = Some (Kernel (Condition_broadcast (int_arg a)))"
| "event_of Do_mbox_open a b c m = Some (Call (Mbox_open (user_text m a)))"
| "event_of Do_mbox_close a b c m = Some (Call (Mbox_close (int_arg a)))"
| "event_of Do_mbox_send a b c m = Some (Call (Mbox_send (int_arg a) b (int_arg c)))"
| "event_of Do_mbox_recv a b c m = Some (Call (Mbox_recv (int_arg a) b (int_arg c)))"
| "event_of Do_net_send a b c m = Some (Net_send a (int_arg b))"
| "event_of Do_net_recv a b c m = Some (Net_recv a (int_arg b) c)"
| "event_of f a b c m = None"

lemma kernel_call_event:
  assumes "event_of f a b c m = Some e" "kernel_call B pa tasks rt a0 f a b c m = Some (v, m')"
  shows "net_perform B pa tasks rt e (core m) = Some (core m')"
  using assms
  by (cases f) (auto simp: kernel_int_def kernel_void_def net_int_def split: bind_splits prod.splits)

section \<open>Calls that only move the cursor or use memory\<close>

definition no_cursor :: "pcb_t \<Rightarrow> pcb_t" where
  "no_cursor t = t\<lparr>cursor_x := 0, cursor_y := 0\<rparr>"

lemma no_cursor_upd [simp]: "no_cursor (t\<lparr>cursor_x := x\<rparr>) = no_cursor t" "no_cursor (t\<lparr>cursor_y := y\<rparr>) = no_cursor t"
  by (simp_all add: no_cursor_def)

lemma no_cursorD:
  assumes "no_cursor t' = no_cursor t"
  shows "status t' = status t" "pid t' = pid t" "mutex_idx t' = mutex_idx t" "mbox_size t' = mbox_size t"
  using arg_cong [OF assms, of status] arg_cong [OF assms, of pid] arg_cong [OF assms, of mutex_idx]
    arg_cong [OF assms, of mbox_size] by (simp_all add: no_cursor_def)

definition cursor_only :: "(tty \<Rightarrow> tty option) \<Rightarrow> bool" where
  "cursor_only f \<longleftrightarrow> (\<forall>ts ts'. f ts = Some ts' \<longrightarrow> no_cursor (fst ts') = no_cursor (fst ts))"

lemma cursor_onlyD: "cursor_only f \<Longrightarrow> f ts = Some ts' \<Longrightarrow> no_cursor (fst ts') = no_cursor (fst ts)"
  unfolding cursor_only_def by blast

lemma cursor_only_for_each:
  assumes "\<And>i. cursor_only (f i)"
  shows "cursor_only (for_each f is)"
  unfolding cursor_only_def
proof (intro allI impI)
  fix ts ts' assume "for_each f is ts = Some ts'"
  then show "no_cursor (fst ts') = no_cursor (fst ts)"
  proof (induction "is" arbitrary: ts)
    case (Cons i "is")
    then show ?case using cursor_onlyD [OF assms] by (auto split: bind_splits)
  qed simp
qed

lemma cursor_write_ch: "cursor_only (screen_write_ch ch)"
  by (auto simp: cursor_only_def screen_write_ch_def Let_def split: if_splits bind_splits)

lemma cursor_write: "cursor_only (screen_write buff)"
proof -
  have "cursor_only (\<lambda>ts. do { c \<leftarrow> load buff i; screen_write_ch c ts })" for i
    using cursor_write_ch by (auto simp: cursor_only_def split: bind_splits)
  then have "cursor_only (for_each (\<lambda>i ts. do { c \<leftarrow> load buff i; screen_write_ch c ts }) is)" for "is"
    by (rule cursor_only_for_each)
  then show ?thesis unfolding screen_write_def cursor_only_def by (auto split: bind_splits)
qed

lemma cursor_screen_ops: "cursor_only screen_reflush" "cursor_only (screen_move_cursor x y)" "cursor_only screen_clear"
proof -
  show r: "cursor_only screen_reflush" by (auto simp: cursor_only_def screen_reflush_def split: bind_splits)
  show "cursor_only (screen_move_cursor x y)"
    by (auto simp: cursor_only_def screen_move_cursor_def Let_def split: bind_splits)
  show "cursor_only screen_clear"
    using r by (auto simp: cursor_only_def screen_clear_def split: bind_splits)
qed

text \<open>The order of the kernel does not depend on cursors, nor on frames and memory.\<close>

definition in_order_by :: "(head \<Rightarrow> pcb_ref list) \<Rightarrow> 'd kernel \<Rightarrow> bool" where
  "in_order_by Q k \<longleftrightarrow> sysinv k Q \<and> mail_ok k"

lemma quiet_in_order: "in_order_by Q k \<Longrightarrow> quiet k k' \<Longrightarrow> in_order_by Q k'"
  using quiet_step unfolding in_order_by_def by blast

lemma on_screen_in_order:
  assumes "cursor_only f" "in_order_by Q k" "on_screen f (k, d) = Some (k', d')"
  shows "in_order_by Q k'"
proof -
  obtain t where t: "f (pcbs k (current_running k), d) = Some (t, d')" "k' = upd_pcb (current_running k) (\<lambda>_. t) k"
    using assms(3) by (auto simp: on_screen_def split: bind_splits)
  note F = no_cursorD [OF cursor_onlyD [OF assms(1) t(1), simplified]]
  have "sysinv k' Q"
    by (rule sysinv_same_tasks [of k]) (use assms(2) F in \<open>simp_all add: in_order_by_def t(2)\<close>)
  moreover have "same_mail k k'" using F by (simp add: same_mail_def t(2))
  ultimately show ?thesis using assms(2) same_mail_ok unfolding in_order_by_def by blast
qed

lemma show_task_in_order:
  assumes "in_order_by Q k" "show_task i (n, (k, d)) = Some (n', (k', d'))"
  shows "in_order_by Q k'"
proof (cases "pstatus k (Pcb i) = TASK_EXITED")
  case False
  obtain y1 y2 y3 y4 y5 where y: "on_screen (screen_write_ch (of_char CHR ''['')) (k, d) = Some y1"
    "on_screen (screen_write_ch (word_of_int (n + 48))) y1 = Some y2"
    "on_screen (screen_write (str (ascii '']:PID ''))) y2 = Some y3"
    "on_screen (screen_write_ch (word_of_int (pid (pcbs (fst y3) (Pcb i)) + 48))) y3 = Some y4"
    "on_screen (screen_write (str (ascii '' , STATUS ''))) y4 = Some y5"
    "on_screen (screen_write (str (status_text (pstatus (fst y5) (Pcb i))))) y5 = Some (k', d')"
    using assms(2) False by (auto simp: show_task_def split: bind_splits)
  note step = on_screen_in_order [OF cursor_write_ch] on_screen_in_order [OF cursor_write]
  have "in_order_by Q (fst y1)" using step(1) [OF assms(1), of _ d "fst y1" "snd y1"] y(1) by simp
  then have "in_order_by Q (fst y2)" using step(1) [of Q "fst y1" _ "snd y1" "fst y2" "snd y2"] y(2) by simp
  then have "in_order_by Q (fst y3)" using step(2) [of Q "fst y2" _ "snd y2" "fst y3" "snd y3"] y(3) by simp
  then have "in_order_by Q (fst y4)" using step(1) [of Q "fst y3" _ "snd y3" "fst y4" "snd y4"] y(4) by simp
  then have "in_order_by Q (fst y5)" using step(2) [of Q "fst y4" _ "snd y4" "fst y5" "snd y5"] y(5) by simp
  then show ?thesis using step(2) [of Q "fst y5" _ "snd y5" k' d'] y(6) by simp
qed (use assms in \<open>simp add: show_task_def\<close>)

lemma process_show_in_order:
  assumes "in_order_by Q k" "do_process_show (k, d) = Some (k', d')"
  shows "in_order_by Q k'"
proof -
  obtain k1 d1 n where r: "on_screen (screen_write (str (ascii ''[Process table]'' @ [10]))) (k, d) = Some (k1, d1)"
    "for_each show_task [0..<NUM_MAX_TASK] (0, (k1, d1)) = Some (n, (k', d'))"
    using assms(2) by (auto simp: do_process_show_def split: bind_splits)
  have "in_order_by Q k1" by (rule on_screen_in_order [OF cursor_write assms(1) r(1)])
  moreover have "for_each show_task is (a, (k1, d1)) = Some (n, (k', d')) \<Longrightarrow> in_order_by Q k1 \<Longrightarrow> in_order_by Q k'" for "is" a k1 d1
  proof (induction "is" arbitrary: a k1 d1)
    case (Cons i "is")
    then obtain b k2 d2 where "show_task i (a, (k1, d1)) = Some (b, (k2, d2))" "for_each show_task is (b, (k2, d2)) = Some (n, (k', d'))"
      by (auto split: bind_splits)
    then show ?case using Cons.IH show_task_in_order [OF Cons.prems(2)] by blast
  qed simp
  ultimately show ?thesis using r(2) by blast
qed

section \<open>Every call keeps the kernel in order\<close>

lemma display_in_order:
  assumes "in_order_by Q (kernel_of m)" "cursor_only f" "on_display (on_screen f) m = Some m'"
  shows "in_order_by Q (kernel_of m')"
  using assms on_screen_in_order [OF assms(2,1)] by (auto simp: on_display_def split: bind_splits)

lemma files_in_order:
  assumes "in_order_by Q (kernel_of m)"
  shows "files_int op m = Some (v, m') \<Longrightarrow> in_order_by Q (kernel_of m')"
    and "files_region a op' m = Some (v, m') \<Longrightarrow> in_order_by Q (kernel_of m')"
proof -
  have q: "quiet k (k\<lparr>mm := x\<rparr>)" "quiet k (put_region a r k)" for k :: "'a kernel" and x a r
    by (simp_all add: quiet_def same_but_memory_def put_region_def)
  have c: "in_order_by Q (kernel_of (card_out f m))" for f
    using quiet_in_order [OF assms q(1)] by (simp add: card_out_def)
  show "files_int op m = Some (v, m') \<Longrightarrow> in_order_by Q (kernel_of m')"
    using c by (auto simp: files_int_def split: bind_splits)
  show "files_region a op' m = Some (v, m') \<Longrightarrow> in_order_by Q (kernel_of m')"
    using c quiet_in_order [OF c q(2)] by (auto simp: files_region_def split: bind_splits)
qed

lemma kernel_call_other:
  assumes "event_of f a b c m = None" "kernel_call B pa tasks rt a0 f a b c m = Some (v, m')" "in_order_by Q (kernel_of m)"
  shows "in_order_by Q (kernel_of m')"
proof -
  have p: "on_display do_process_show m = Some n \<Longrightarrow> in_order_by Q (kernel_of n)" for n
    using process_show_in_order [OF assms(3)] by (auto simp: on_display_def split: bind_splits)
  show ?thesis using assms p
    by (cases f) (auto simp: screen_void_def kernel_int_def split: bind_splits
      dest: files_in_order(1) [OF assms(3)] files_in_order(2) [OF assms(3)]
        display_in_order [OF assms(3) cursor_write] display_in_order [OF assms(3) cursor_screen_ops(1)]
        display_in_order [OF assms(3) cursor_screen_ops(2)] display_in_order [OF assms(3) cursor_screen_ops(3)])
qed


section \<open>Every trap keeps the kernel in order\<close>

text \<open>System calls and page faults come from user tasks. Of the calls, those that theories SysOps,
  CallSys and NetSys restrict are restricted: a task is not killed twice, nor while it runs on the
  other hart, nothing that a task waits on is destroyed, numbers are in range.\<close>

definition call_allowed_in :: "'d machine \<Rightarrow> bool" where
  "call_allowed_in m \<longleftrightarrow> user_running (kernel_of m) \<and> (let r = regs (frames (kernel_of m) (trap_frame m)) in
     \<forall>n f e. index (sint (r 17)) NUM_SYSCALLS = Some n \<longrightarrow> init_syscall n = Some f \<longrightarrow>
       event_of f (r 10) (r 11) (r 12) m = Some e \<longrightarrow> net_allowed e (core m))"

definition trap_allowed :: "u64 \<Rightarrow> 'd machine \<Rightarrow> bool" where
  "trap_allowed cause m \<longleftrightarrow>
     (interrupt_helper cause = Some Handle_syscall \<longrightarrow> call_allowed_in m)
     \<and> (interrupt_helper cause = Some Handle_load_page_fault \<or> interrupt_helper cause = Some Handle_store_page_fault \<longrightarrow>
          user_running (kernel_of m))"

text \<open>What a call may do does not depend on the frames.\<close>

lemma frames_only:
  fixes k :: "'d kernel"
  shows "user_running (upd_frame a g k) = user_running k" "nobody_waits q (upd_frame a g k) = nobody_waits q k"
    "call_allowed c (upd_frame a g k) = call_allowed c k" "allowed e (upd_frame a g k) = allowed e k"
    "quiet k (upd_frame a g k)"
proof -
  show u: "user_running (upd_frame a g k) = user_running k" "nobody_waits q (upd_frame a g k) = nobody_waits q k" for q
    by (simp_all add: user_running_def current_running_def nobody_waits_def upd_frame_def)
  show "call_allowed c (upd_frame a g k) = call_allowed c k" by (cases c) (simp_all add: u)
  show "allowed e (upd_frame a g k) = allowed e k"
    by (cases e) (simp_all add: u no_running_child_def current_running_def other_def, simp_all add: upd_frame_def)
  show "quiet k (upd_frame a g k)"
    by (simp add: quiet_def same_but_memory_def same_mail_def upd_frame_def)
qed

lemma map_frames:
  "event_of f a b c (upd_kernel (upd_frame fr g) m) = event_of f a b c m"
  "net_allowed e (core (upd_kernel (upd_frame fr g) m)) = net_allowed e (core m)"
proof -
  have "user_text (upd_kernel (upd_frame fr g) m) x = user_text m x" for x
    by (simp add: Exec.user_region_def user_view_def upd_frame_def)
  then show "event_of f a b c (upd_kernel (upd_frame fr g) m) = event_of f a b c m" by (cases f) simp_all
  show "net_allowed e (core (upd_kernel (upd_frame fr g) m)) = net_allowed e (core m)"
    by (cases e) (simp_all add: upd_kernel_def frames_only)
qed

lemma syscall_in_order:
  assumes k: "in_order (kernel_of m)" and ok: "call_allowed_in m"
    and r: "handle_syscall kernel_of upd_kernel (\<lambda>f xs. kernel_call B pa tasks rt a0 f (xs ! 0) (xs ! 1) (xs ! 2)) (trap_frame m) m = Some m'"
  shows "in_order (kernel_of m')"
proof -
  let ?a = "trap_frame m"
  define m1 where "m1 = upd_kernel (upd_frame ?a (\<lambda>c. c\<lparr>sepc := sepc c + 4\<rparr>)) m"
  let ?r = "regs (frames (kernel_of m1) ?a)"
  obtain n f v m2 where c: "index (sint (?r 17)) NUM_SYSCALLS = Some n" "init_syscall n = Some f"
    "kernel_call B pa tasks rt a0 f (?r 10) (?r 11) (?r 12) m1 = Some (v, m2)"
    "m' = upd_kernel (upd_frame ?a (\<lambda>c. c\<lparr>regs := (regs c)(10 := v)\<rparr>)) m2"
    using r unfolding handle_syscall_def Let_def m1_def [symmetric] by (auto split: bind_splits)
  have same: "?r = regs (frames (kernel_of m) ?a)" by (simp add: m1_def upd_frame_def)
  obtain Q0 where "in_order_by Q0 (kernel_of m)" using k by (auto simp: in_order_by_def)
  from quiet_in_order [OF this frames_only(5)] have Q: "in_order_by Q0 (kernel_of m1)" by (simp add: m1_def)
  have m2: "in_order (kernel_of m2)"
  proof (cases "event_of f (?r 10) (?r 11) (?r 12) m1")
    case None
    then show ?thesis using kernel_call_other [OF None c(3) Q] by (auto simp: in_order_by_def)
  next
    case (Some e)
    have "event_of f (?r 10) (?r 11) (?r 12) m = Some e" using Some by (simp add: m1_def map_frames)
    then have "net_allowed e (core m)" using ok c(1,2) unfolding call_allowed_in_def same Let_def by blast
    then have "net_allowed e (core m1)" by (simp only: m1_def map_frames)
    from net_step [OF _ _ this kernel_call_event [OF Some c(3)]] Q show ?thesis unfolding in_order_by_def by blast
  qed
  then obtain Q2 where "in_order_by Q2 (kernel_of m2)" by (auto simp: in_order_by_def)
  from quiet_in_order [OF this frames_only(5)] show ?thesis unfolding c(4) in_order_by_def by auto
qed

lemma timer_in_order:
  assumes k: "in_order_by Q (kernel_of m)" and r: "handle_irq_timer rt m = Some m'"
  shows "in_order (kernel_of m')"
proof -
  let ?k1 = "snd (get_ticks rt (kernel_of m))"
  define m1 where "m1 = set_kernel ?k1 m\<lparr>timers := timers m @ [fst (get_ticks rt (kernel_of m)) + TIMER_INTERVAL]\<rparr>"
  obtain m2 k3 where s: "on_display (on_screen screen_reflush) m1 = Some m2" "do_scheduler rt (kernel_of m2) = Some k3"
    "m' = set_kernel k3 m2"
    using r by (auto simp: handle_irq_timer_def m1_def Let_def split_beta split: bind_splits)
  have "quiet (kernel_of m) ?k1" by (simp add: quiet_def same_but_memory_def same_mail_def get_ticks_def)
  from quiet_in_order [OF k this] have "in_order_by Q (kernel_of m1)" by (simp add: m1_def)
  then have "in_order_by Q (kernel_of m2)" by (rule display_in_order [OF _ cursor_screen_ops(1) s(1)])
  then have "sysinv (kernel_of m2) Q" "mail_ok (kernel_of m2)" by (simp_all add: in_order_by_def)
  then show ?thesis
    using do_scheduler_sysinv [OF sysinvD(1), of "kernel_of m2" Q rt] same_mail_ok [OF do_scheduler_mail [OF s(2)]] s(2,3) by auto
qed

lemma trap_in_order:
  assumes k: "in_order (kernel_of m)" and ok: "trap_allowed cause m" and r: "trap B pa tasks rt a0 cause stval m = Some m'"
  shows "in_order (kernel_of m')"
proof -
  obtain h where h: "interrupt_helper cause = Some h" "run_handler B pa tasks rt a0 stval h m = Some m'"
    using r by (auto simp: trap_def split: bind_splits)
  obtain Q where Q: "sysinv (kernel_of m) Q" "mail_ok (kernel_of m)" using k by blast
  show ?thesis
  proof (cases h)
    case Handle_syscall
    then show ?thesis using syscall_in_order [OF k] ok h by (simp add: trap_allowed_def run_handler_def)
  next
    case Handle_other
    then show ?thesis using h by (simp add: run_handler_def)
  next
    case Handle_load_page_fault
    then show ?thesis using call_step [OF Q, of "Load_fault stval" B rt] ok h by (auto simp: trap_allowed_def run_handler_def)
  next
    case Handle_store_page_fault
    then show ?thesis using call_step [OF Q, of "Store_fault stval" B rt] ok h by (auto simp: trap_allowed_def run_handler_def)
  next
    case Handle_irq_timer
    then show ?thesis using timer_in_order [of Q m rt m'] Q h by (simp add: in_order_by_def run_handler_def)
  next
    case Handle_irq_ext
    then show ?thesis using net_irq_in_order [OF Q] h by (auto simp: run_handler_def)
  qed
qed

section \<open>The machine in motion\<close>

text \<open>A trap; a trap on the other hart; a user program that changes its registers and the memory of its
  address space, as anybody's; the devices.\<close>

inductive machine_reachable ::
  "'d bios \<Rightarrow> (pcb_ref \<Rightarrow> u64) \<Rightarrow> (nat \<Rightarrow> task_info_t) \<Rightarrow> (nat \<Rightarrow> u64) \<Rightarrow> 'd machine \<Rightarrow> 'd machine \<Rightarrow> bool"
  for B pa tasks rt m0 where
  start: "machine_reachable B pa tasks rt m0 m0"
| traps: "machine_reachable B pa tasks rt m0 m \<Longrightarrow> trap_allowed cause m \<Longrightarrow>
    trap B pa tasks rt a0 cause stval m = Some m' \<Longrightarrow> machine_reachable B pa tasks rt m0 m'"
| hart: "machine_reachable B pa tasks rt m0 m \<Longrightarrow> h < 2 \<Longrightarrow>
    machine_reachable B pa tasks rt m0 (upd_kernel (\<lambda>k. k\<lparr>hart := h\<rparr>) m)"
| user: "machine_reachable B pa tasks rt m0 m \<Longrightarrow>
    machine_reachable B pa tasks rt m0 (upd_kernel (\<lambda>k. k\<lparr>frames := fr, umem := um\<rparr>) m)"
| device: "machine_reachable B pa tasks rt m0 m \<Longrightarrow>
    machine_reachable B pa tasks rt m0 (m\<lparr>core := (core m)\<lparr>net.card := c, irqs := i\<rparr>\<rparr>)"

lemma machine_in_order:
  assumes "machine_reachable B pa tasks rt m0 m" "in_order (kernel_of m0)"
  shows "in_order (kernel_of m)"
  using assms
proof (induction rule: machine_reachable.induct)
  case (traps m cause a0 stval m')
  then show ?case using trap_in_order by blast
next
  case (hart m h)
  then obtain Q where Q: "sysinv (kernel_of m) Q" "mail_ok (kernel_of m)" by blast
  have "mail_ok ((kernel_of m)\<lparr>hart := h\<rparr>)"
    using same_mail_ok [of "kernel_of m" "(kernel_of m)\<lparr>hart := h\<rparr>"] Q(2) by simp
  then show ?case using enter_sysinv [OF Q(1) hart.hyps(2)] by auto
next
  case (user m um fr)
  then obtain Q where Q: "in_order_by Q (kernel_of m)" by (auto simp: in_order_by_def)
  have "quiet (kernel_of m) ((kernel_of m)\<lparr>frames := fr, umem := um\<rparr>)"
    by (simp add: quiet_def same_but_memory_def same_mail_def)
  from quiet_in_order [OF Q this] show ?case by (auto simp: in_order_by_def)
qed simp_all


text \<open>(C2) The kernel stays in order under traps. Once \<open>main\<close> has returned, started on the memory that the loader leaves
  (\<open>fresh\<close>, \<open>mail_zero\<close>) with at most one task named \<open>shell\<close> in the image, let traps come on the two harts
  in any order, with any cause and any registers in the saved frame, let user programs change their
  memory and registers between them and the devices theirs. As long as every system call is \<open>allowed\<close> where it comes (it
  comes from a user task, its indices are in range, the length of a message is between 0 and \<open>2 ^ 31 - 129\<close>, a kill, an exit
  and the destruction of a queue are as in \<open>allowed\<close> and \<open>call_allowed\<close>) and page faults come from user tasks, every
  state that a returning trap handler leaves satisfies the invariant: the queues are well linked and agree with the
  statuses, the mailboxes are well formed (128 bytes, a length between 0 and 128, waiting messages within those lengths), and the
  RUNNING tasks are exactly the two that the harts run.\<close>

theorem machine_invariant:
  fixes s0 :: "'d kernel" and m0 m :: "'d machine"
  assumes "main_hart0 B pa freq tasks s0 = Some s1" "fresh s0" "mail_zero s0"
    and "init_task_info B tasks (init_mm (mm s0)) = Some (num, ts, mem1)"
    and "\<forall>i < nat num. \<forall>j < nat num. named_shell ts i \<longrightarrow> named_shell ts j \<longrightarrow> i = j"
    and "kernel_of m0 = main_hart1 s1" "machine_reachable B pa ts rt m0 m"
  shows "(\<exists>Q. sysinv (kernel_of m) Q) \<and> mail_ok (kernel_of m) \<and> tp (kernel_of m) 0 \<noteq> tp (kernel_of m) 1
    \<and> (\<forall>p. pstatus (kernel_of m) p = TASK_RUNNING \<longleftrightarrow> p = tp (kernel_of m) 0 \<or> p = tp (kernel_of m) 1)"
proof -
  have "in_order (kernel_of m0)" using boot_in_order [OF assms(1-5)] assms(6) by simp
  then obtain Q where Q: "sysinv (kernel_of m) Q" "mail_ok (kernel_of m)" using machine_in_order [OF assms(7)] by blast
  show ?thesis using Q sysinv_harts [OF Q(1)] by blast
qed

definition machine_boot :: "'d kernel \<Rightarrow> 'd fs \<Rightarrow> 'd machine" where
  "machine_boot k f = \<lparr>core = net_boot k, files = f, display = \<lparr>new_screen = itoa_buffer, old_screen = itoa_buffer, console = []\<rparr>,
     timers = []\<rparr>"

text \<open>An external interrupt after the boot.\<close>

theorem machine_invariant_witness:
  "\<forall>ts. \<exists>s1 m. main_hart0 toy_bios (\<lambda>_. 0) 1 ts boot_kernel = Some s1
     \<and> trap toy_bios (\<lambda>_. 0) ts (\<lambda>_. 0) 0 0x8000000000000009 0 (machine_boot (main_hart1 s1) undefined) = Some m
     \<and> mail_ok (kernel_of m) \<and> tp (kernel_of m) 0 \<noteq> tp (kernel_of m) 1"
proof
  fix ts
  let ?pa = "\<lambda>_. 0 :: u64" and ?rt = "\<lambda>_ :: nat. 0 :: u64"
  obtain s1 where s1: "main_hart0 toy_bios ?pa 1 ts boot_kernel = Some s1" using boot_kernel_boots by blast
  obtain mem1 where mem1: "init_task_info toy_bios ts (init_mm (mm boot_kernel)) = Some (0, ts, mem1)"
    using boot_task_info by blast
  note I = machine_invariant [OF s1 boot_kernel_fresh boot_kernel_mail mem1]
  let ?m0 = "machine_boot (main_hart1 s1) undefined"
  have h: "interrupt_helper 0x8000000000000009 = Some Handle_irq_ext"
    by (simp add: interrupt_helper_def IRQC_COUNT_def irq_table_def)
  have irq: "handle_irq_ext (core ?m0) \<noteq> None"
    by (simp add: machine_boot_def handle_irq_ext_def net_handle_irq_def e1000_read_reg_def net_boot_def plic_claim_def readl_def
        PLIC_E1000_QEMU_IRQ_def E1000_ICR_def E1000_IMS_def Let_def)
  then obtain m where m: "trap toy_bios ?pa ts ?rt 0 0x8000000000000009 0 ?m0 = Some m"
    by (auto simp: trap_def h run_handler_def)
  have "machine_reachable toy_bios ?pa ts ?rt ?m0 m"
    by (rule machine_reachable.traps [OF machine_reachable.start _ m]) (simp add: trap_allowed_def h)
  from I [OF _ _ this] s1 m show "\<exists>s1 m. main_hart0 toy_bios (\<lambda>_. 0) 1 ts boot_kernel = Some s1
     \<and> trap toy_bios (\<lambda>_. 0) ts (\<lambda>_. 0) 0 0x8000000000000009 0 (machine_boot (main_hart1 s1) undefined) = Some m
     \<and> mail_ok (kernel_of m) \<and> tp (kernel_of m) 0 \<noteq> tp (kernel_of m) 1" by (auto simp: machine_boot_def net_boot_def)
qed

end
