(* ===== verification/BootVm.thy ===== *)
theory BootVm
  imports Boot
begin

text \<open>
  The page tables of the boot stage, \<open>arch/riscv/kernel/boot.c\<close>, which run before paging is on, and
  \<open>ioremap\<close> of \<open>kernel/mm/ioremap.c\<close>, which adds to them. Memory is physical here, one word for every
  aligned address. \<open>translate\<close> is the walk of an Sv39 unit, as far as pages of a gigabyte and of two
  megabytes go; the tables here have no others.
\<close>

section \<open>The boot page tables\<close>

record boot_mem =
  pg_base :: u64
  pmem :: "u64 \<Rightarrow> u64"

definition boot_alloc_page :: "boot_mem \<Rightarrow> u64 \<times> boot_mem" where
  "boot_alloc_page b = (pg_base b + 0x1000, b\<lparr>pg_base := pg_base b + 0x1000\<rparr>)"

definition clear_pgdir :: "u64 \<Rightarrow> boot_mem \<Rightarrow> boot_mem" where
  "clear_pgdir a b = b\<lparr>pmem := clean_words (unat (NORMAL_PAGE_SIZE div 8)) a (pmem b)\<rparr>"

definition boot_attributes :: u64 where
  "boot_attributes = PAGE_PRESENT OR PAGE_READ OR PAGE_WRITE OR PAGE_EXEC OR PAGE_ACCESSED OR PAGE_DIRTY"

definition map_page :: "u64 \<Rightarrow> u64 \<Rightarrow> u64 \<Rightarrow> boot_mem \<Rightarrow> boot_mem" where
  "map_page va0 pa pd b =
     (let va = va0 AND VA_MASK;
          vpn2 = drop_bit (NORMAL_PAGE_SHIFT + PPN_BITS + PPN_BITS) va;
          vpn1 = push_bit PPN_BITS vpn2 XOR drop_bit (NORMAL_PAGE_SHIFT + PPN_BITS) va;
          b' = (if pmem b (pd + 8 * vpn2) = 0
                then let (page, b1) = boot_alloc_page b;
                         e = set_attribute (set_pfn (pmem b1 (pd + 8 * vpn2)) (drop_bit NORMAL_PAGE_SHIFT page)) PAGE_PRESENT
                     in clear_pgdir (get_pa e) (b1\<lparr>pmem := (pmem b1)(pd + 8 * vpn2 := e)\<rparr>)
                else b);
          slot = get_pa (pmem b' (pd + 8 * vpn2)) + 8 * vpn1
      in b'\<lparr>pmem := (pmem b')(slot := set_attribute (set_pfn (pmem b' slot) (drop_bit NORMAL_PAGE_SHIFT pa)) boot_attributes)\<rparr>)"

definition map_kernel :: "nat \<Rightarrow> boot_mem \<Rightarrow> boot_mem" where
  "map_kernel i = (let kva = 0xffffffc050000000 + of_nat i * 0x200000 in map_page kva (kva2pa kva) PGDIR_PA)"

definition map_boot :: "nat \<Rightarrow> boot_mem \<Rightarrow> boot_mem" where
  "map_boot i = (let pa = 0x50000000 + of_nat i * 0x200000 in map_page pa pa PGDIR_PA)"

text \<open>The new value of the satp register.\<close>

definition enable_vm :: u64 where
  "enable_vm = set_satp SATP_MODE_SV39 0 (drop_bit NORMAL_PAGE_SHIFT PGDIR_PA)"

definition setup_vm :: "boot_mem \<Rightarrow> u64 \<times> boot_mem" where
  "setup_vm b =
     (let b1 = clear_pgdir PGDIR_PA b;
          b2 = fold map_kernel [0..<128] b1;
          b3 = fold map_boot [0..<8] b2
      in (enable_vm, b3))"

definition boot_kernel_entry :: "nat \<Rightarrow> boot_mem \<Rightarrow> u64 \<times> boot_mem" where
  "boot_kernel_entry mhartid b = (if mhartid = 0 then setup_vm b else (enable_vm, b))"

section \<open>Mapping device memory\<close>

definition HUGE_PAGE_SIZE :: u64 where "HUGE_PAGE_SIZE = 0x40000000"
definition IO_ADDR_START :: u64 where "IO_ADDR_START = 0xffffffe000000000"

definition ioremap :: "u64 \<Rightarrow> u64 \<times> boot_mem \<Rightarrow> u64 \<times> (u64 \<times> boot_mem)" where
  "ioremap phys_addr s =
     (let (io_base, b) = s;
          phys_addr_base = ROUNDDOWN phys_addr HUGE_PAGE_SIZE;
          slot = PGDIR_PA + 8 * get_vpn2 io_base;
          e = set_attribute (set_pfn (pmem b slot) (drop_bit NORMAL_PAGE_SHIFT phys_addr_base)) boot_attributes
      in (io_base + (phys_addr - phys_addr_base),
          (io_base + HUGE_PAGE_SIZE, b\<lparr>pmem := (pmem b)(slot := e)\<rparr>)))"

section \<open>Address translation\<close>

definition leaf_bits :: u64 where "leaf_bits = PAGE_READ OR PAGE_WRITE OR PAGE_EXEC"

definition canonical :: "u64 \<Rightarrow> bool" where
  "canonical va \<longleftrightarrow> unat va < 2 ^ 38 \<or> 2 ^ 64 - 2 ^ 38 \<le> unat va"

definition translate :: "(u64 \<Rightarrow> u64) \<Rightarrow> u64 \<Rightarrow> u64 \<Rightarrow> u64 option" where
  "translate m satp_word va =
     (let root = push_bit 12 (take_bit 44 satp_word);
          e2 = m (root + 8 * get_vpn2 va)
      in if \<not> canonical va \<or> get_attribute e2 PAGE_PRESENT = 0 then None
         else if get_attribute e2 leaf_bits \<noteq> 0 then Some (get_pa e2 + take_bit 30 va)
         else let e1 = m (get_pa e2 + 8 * get_vpn1 va)
              in if get_attribute e1 PAGE_PRESENT = 0 \<or> get_attribute e1 leaf_bits = 0 then None
                 else Some (get_pa e1 + take_bit 21 va))"

section \<open>Page numbers\<close>

lemma unat_vpn2: "unat (get_vpn2 va) = unat va div 2 ^ 30 mod 512"
proof -
  have "get_vpn2 va = take_bit 9 (drop_bit 30 va)" by (rule bit_word_eqI) (auto simp: bit_get_vpn2 bit_simps add.commute)
  then show ?thesis by (simp add: take_bit_eq_mod drop_bit_eq_div unat_mod unat_div)
qed

lemma unat_vpn1: "unat (get_vpn1 va) = unat va div 2 ^ 21 mod 512"
proof -
  have "get_vpn1 va = take_bit 9 (drop_bit 21 va)" by (rule bit_word_eqI) (auto simp: bit_get_vpn1 bit_simps add.commute)
  then show ?thesis by (simp add: take_bit_eq_mod drop_bit_eq_div unat_mod unat_div)
qed

lemma boot_vpn:
  "drop_bit (NORMAL_PAGE_SHIFT + PPN_BITS + PPN_BITS) (va AND VA_MASK) = get_vpn2 va"
  "push_bit PPN_BITS (get_vpn2 va) XOR drop_bit (NORMAL_PAGE_SHIFT + PPN_BITS) (va AND VA_MASK) = get_vpn1 va"
proof -
  have "push_bit PPN_BITS (drop_bit (NORMAL_PAGE_SHIFT + PPN_BITS + PPN_BITS) (va AND VA_MASK))
     XOR drop_bit (NORMAL_PAGE_SHIFT + PPN_BITS) (va AND VA_MASK) = get_vpn1 va"
  proof (rule bit_word_eqI)
    fix n assume "n < LENGTH(64)"
    show "bit (push_bit PPN_BITS (drop_bit (NORMAL_PAGE_SHIFT + PPN_BITS + PPN_BITS) (va AND VA_MASK))
       XOR drop_bit (NORMAL_PAGE_SHIFT + PPN_BITS) (va AND VA_MASK)) n = bit (get_vpn1 va) n"
      by (cases "n < 9") (auto simp: bit_get_vpn1 bit_simps mask_constants PPN_BITS_def NORMAL_PAGE_SHIFT_def
          add.commute dest: bit_imp_le_length)
  qed
  then show "push_bit PPN_BITS (get_vpn2 va) XOR drop_bit (NORMAL_PAGE_SHIFT + PPN_BITS) (va AND VA_MASK) = get_vpn1 va"
    unfolding get_vpn2_def .
qed (simp add: get_vpn2_def)

section \<open>What \<open>setup_vm\<close> writes\<close>

text \<open>The three tables, cell by cell: the root from cell 0 on, the table of the kernel from cell 512,
  the table of the boot mapping from cell 1024.\<close>

definition cell :: "nat \<Rightarrow> u64" where "cell x = PGDIR_PA + 8 * of_nat x"

definition table_entry_at :: "nat \<Rightarrow> u64" where
  "table_entry_at x = set_attribute (set_pfn 0 (drop_bit NORMAL_PAGE_SHIFT (cell x))) PAGE_PRESENT"

definition big_page :: "nat \<Rightarrow> u64" where
  "big_page k = set_attribute (set_pfn 0 (drop_bit NORMAL_PAGE_SHIFT (0x50000000 + of_nat k * 0x200000))) boot_attributes"

definition contents_after :: "nat \<Rightarrow> nat \<Rightarrow> nat \<Rightarrow> u64" where
  "contents_after n j x = (if x = 257 \<and> 0 < n then table_entry_at 512 else if x = 1 \<and> 0 < j then table_entry_at 1024
     else if 640 \<le> x \<and> x < 640 + n then big_page (x - 640) else if 1152 \<le> x \<and> x < 1152 + j then big_page (x - 1152) else 0)"

definition tables :: "nat \<Rightarrow> nat \<Rightarrow> boot_mem \<Rightarrow> bool" where
  "tables n j b \<longleftrightarrow> (\<forall>x. x < (if 0 < j then 1536 else if 0 < n then 1024 else 512) \<longrightarrow> pmem b (cell x) = contents_after n j x)
     \<and> pg_base b = (if 0 < j then cell 1024 else if 0 < n then cell 512 else PGDIR_PA)"

lemma unat_cell: "x < 4096 \<Longrightarrow> unat (cell x) = 0x51000000 + 8 * x"
  using unat_add_small [of PGDIR_PA "8 * x"] by (simp add: cell_def PGDIR_PA_def mult.commute)

lemma cell_inj: "x < 4096 \<Longrightarrow> y < 4096 \<Longrightarrow> cell x = cell y \<longleftrightarrow> x = y"
  using unat_cell [of x] unat_cell [of y] by (metis add_left_cancel mult_cancel1 zero_neq_numeral)

lemma table_entry_facts:
  "get_pa (table_entry_at 512) = cell 512" "get_pa (table_entry_at 1024) = cell 1024"
  "table_entry_at 512 \<noteq> 0" "table_entry_at 1024 \<noteq> 0"
  "get_attribute (table_entry_at 512) PAGE_PRESENT \<noteq> 0" "get_attribute (table_entry_at 1024) PAGE_PRESENT \<noteq> 0"
  "get_attribute (table_entry_at 512) leaf_bits = 0" "get_attribute (table_entry_at 1024) leaf_bits = 0"
  by (code_simp)+

lemma clear_cells:
  assumes "t < 2048" "x < 4096"
  shows "pmem (clear_pgdir (cell t) b) (cell x) = (if t \<le> x \<and> x < t + 512 then 0 else pmem b (cell x))"
proof -
  have n: "unat (NORMAL_PAGE_SIZE div 8) = 512" by (simp add: NORMAL_PAGE_SIZE_def NORMAL_PAGE_SHIFT_def push_bit_eq_mult)
  have d: "unat (cell x - cell t) = (if t \<le> x then 8 * (x - t) else 2 ^ 64 - 8 * (t - x))"
    using unat_cell [of x] unat_cell [of t] assms by (simp add: unat_sub_if_size word_size) arith
  show ?thesis using assms by (auto simp: clear_pgdir_def n clean_words_eq d)
qed

lemma map_page_old:
  assumes v: "get_vpn2 va = of_nat v" and w: "get_vpn1 va = of_nat w" and t: "t = 512 \<or> t = 1024"
    and e: "pmem b (cell v) = table_entry_at t"
  shows "map_page va pa PGDIR_PA b = b\<lparr>pmem := (pmem b)(cell (t + w) :=
    set_attribute (set_pfn (pmem b (cell (t + w))) (drop_bit NORMAL_PAGE_SHIFT pa)) boot_attributes)\<rparr>"
proof -
  have a: "PGDIR_PA + 8 * get_vpn2 va = cell v" "cell t + 8 * get_vpn1 va = cell (t + w)"
    by (simp_all add: cell_def v w)
  have g: "get_pa (table_entry_at t) = cell t" "table_entry_at t \<noteq> 0" using t table_entry_facts by auto
  show ?thesis unfolding map_page_def Let_def boot_vpn a by (simp add: e g a(2))
qed

lemma map_page_new:
  assumes v: "get_vpn2 va = of_nat v" "v < 512" and w: "get_vpn1 va = of_nat w" "w < 512" and t: "t = 512 \<or> t = 1024"
    and e: "pmem b (cell v) = 0" and base: "pg_base b + 0x1000 = cell t"
  shows "pg_base (map_page va pa PGDIR_PA b) = cell t"
    and "x < 1536 \<Longrightarrow> pmem (map_page va pa PGDIR_PA b) (cell x) = (if x = v then table_entry_at t
      else if x = t + w then set_attribute (set_pfn 0 (drop_bit NORMAL_PAGE_SHIFT pa)) boot_attributes
      else if t \<le> x \<and> x < t + 512 then 0 else pmem b (cell x))"
proof -
  have a: "PGDIR_PA + 8 * get_vpn2 va = cell v" "cell t + 8 * get_vpn1 va = cell (t + w)"
    by (simp_all add: cell_def v w)
  have g: "get_pa (table_entry_at t) = cell t" using t table_entry_facts by auto
  let ?b = "clear_pgdir (cell t) (b\<lparr>pg_base := cell t, pmem := (pmem b)(cell v := table_entry_at t)\<rparr>)"
  have c: "pmem ?b (cell x) = (if t \<le> x \<and> x < t + 512 then 0 else if x = v then table_entry_at t else pmem b (cell x))"
    if "x < 4096" for x
    using t that v(2) by (auto simp: clear_cells cell_inj)
  have pv: "pmem ?b (cell v) = table_entry_at t" "pmem ?b (cell (t + w)) = 0" using c [of v] c [of "t + w"] t v(2) w(2) by auto
  have s: "map_page va pa PGDIR_PA b = ?b\<lparr>pmem := (pmem ?b)(cell (t + w) :=
      set_attribute (set_pfn 0 (drop_bit NORMAL_PAGE_SHIFT pa)) boot_attributes)\<rparr>"
    unfolding map_page_def Let_def boot_vpn a
    by (simp add: e boot_alloc_page_def base g pv a(2) table_entry_at_def [symmetric])
  show "pg_base (map_page va pa PGDIR_PA b) = cell t" by (simp add: s clear_pgdir_def)
  show "pmem (map_page va pa PGDIR_PA b) (cell x) = (if x = v then table_entry_at t
      else if x = t + w then set_attribute (set_pfn 0 (drop_bit NORMAL_PAGE_SHIFT pa)) boot_attributes
      else if t \<le> x \<and> x < t + 512 then 0 else pmem b (cell x))" if "x < 1536"
    using c [of x] that t v(2) w(2) unfolding s by (auto simp: cell_inj)
qed

lemma unat_kva2pa: "unat (kva2pa a) = unat a mod 2 ^ 32"
proof -
  have "kva2pa a = take_bit 32 a" by (simp add: kva2pa_def low32_mask take_bit_eq_mask)
  then show ?thesis by (simp add: take_bit_eq_mod unat_mod)
qed

section \<open>The loops\<close>

lemma kernel_addr:
  assumes "i < 128"
  shows "get_vpn2 (0xffffffc050000000 + of_nat i * 0x200000) = of_nat 257"
    "get_vpn1 (0xffffffc050000000 + of_nat i * 0x200000) = of_nat (128 + i)"
    "kva2pa (0xffffffc050000000 + of_nat i * 0x200000) = 0x50000000 + of_nat i * 0x200000"
proof -
  let ?a = "0xffffffc050000000 + of_nat i * 0x200000 :: u64"
  have a: "unat ?a = 0xffffffc050000000 + i * 0x200000"
    using unat_add_small [of "0xffffffc050000000" "i * 0x200000"] assms by simp
  have "unat ?a div 2 ^ 30 = 17179868929" unfolding a by (rule div_nat_eqI) (use assms in simp_all)
  then have "unat (get_vpn2 ?a) = 257" by (simp add: unat_vpn2)
  then show "get_vpn2 ?a = of_nat 257" by (simp add: word_unat_eq_iff)
  have "unat ?a div 2 ^ 21 = 8796092891776 + i" unfolding a by (rule div_nat_eqI) (use assms in simp_all)
  moreover have "(8796092891776 + i) mod 512 = 128 + i" by (rule mod_nat_eqI) (use assms in simp_all)
  ultimately have "unat (get_vpn1 ?a) = 128 + i" using assms by (simp add: unat_vpn1)
  then show "get_vpn1 ?a = of_nat (128 + i)" using assms by (simp add: word_unat_eq_iff unat_of_nat del: of_nat_add)
  have "unat (0x50000000 + of_nat i * 0x200000 :: u64) = 0x50000000 + i * 0x200000"
    using unat_add_small [of "0x50000000" "i * 0x200000"] assms by simp
  moreover have "unat (kva2pa ?a) = unat ?a mod 2 ^ 32" by (rule unat_kva2pa)
  moreover have "(0xffffffc050000000 + i * 0x200000) mod 2 ^ 32 = 0x50000000 + i * 0x200000"
    by (rule mod_nat_eqI) (use assms in simp_all)
  ultimately show "kva2pa ?a = 0x50000000 + of_nat i * 0x200000" by (simp add: word_unat_eq_iff a)
qed

lemma boot_addr:
  assumes "i < 8"
  shows "get_vpn2 (0x50000000 + of_nat i * 0x200000) = of_nat 1"
    "get_vpn1 (0x50000000 + of_nat i * 0x200000) = of_nat (128 + i)"
proof -
  let ?a = "0x50000000 + of_nat i * 0x200000 :: u64"
  have a: "unat ?a = 0x50000000 + i * 0x200000"
    using unat_add_small [of "0x50000000" "i * 0x200000"] assms by simp
  have "unat ?a div 2 ^ 30 = 1" unfolding a by (rule div_nat_eqI) (use assms in simp_all)
  then have "unat (get_vpn2 ?a) = 1" by (simp add: unat_vpn2)
  then show "get_vpn2 ?a = of_nat 1" by (simp add: word_unat_eq_iff)
  have "unat ?a div 2 ^ 21 = 640 + i" unfolding a by (rule div_nat_eqI) (use assms in simp_all)
  moreover have "(640 + i) mod 512 = 128 + i" by (rule mod_nat_eqI) (use assms in simp_all)
  ultimately have "unat (get_vpn1 ?a) = 128 + i" using assms by (simp add: unat_vpn1)
  then show "get_vpn1 ?a = of_nat (128 + i)" using assms by (simp add: word_unat_eq_iff unat_of_nat del: of_nat_add)
qed

lemma cell_next: "PGDIR_PA + 0x1000 = cell 512" "cell 512 + 0x1000 = cell 1024" "PGDIR_PA = cell 0"
  by (simp_all add: cell_def)

lemma map_kernel_step:
  assumes i: "i < 128" and b: "tables i 0 b"
  shows "tables (Suc i) 0 (map_kernel i b)"
proof -
  let ?a = "0xffffffc050000000 + of_nat i * 0x200000 :: u64"
  note A = kernel_addr [OF i]
  have m: "map_kernel i b = map_page ?a (0x50000000 + of_nat i * 0x200000) PGDIR_PA b" by (simp add: map_kernel_def Let_def A(3))
  show ?thesis
  proof (cases "i = 0")
    case True
    have e: "pmem b (cell 257) = 0" "pg_base b + 0x1000 = cell 512" "\<And>x. x < 512 \<Longrightarrow> pmem b (cell x) = 0"
      using b True cell_next by (auto simp: tables_def contents_after_def)
    note new = map_page_new [OF A(1) _ A(2) _ disjI1 [OF refl] e(1,2), where pa = "0x50000000 + of_nat i * 0x200000"]
    have "pmem (map_kernel i b) (cell x) = contents_after (Suc i) 0 x" if "x < 1024" for x
      using new(2) [of x] that e(3) [of x] True unfolding m by (auto simp: contents_after_def big_page_def)
    then show ?thesis using new(1) i by (simp add: tables_def m)
  next
    case False
    then have e: "pmem b (cell 257) = table_entry_at 512" "pmem b (cell (640 + i)) = 0" "pg_base b = cell 512"
      "\<And>x. x < 1024 \<Longrightarrow> pmem b (cell x) = contents_after i 0 x"
      using b i by (auto simp: tables_def contents_after_def)
    have "map_kernel i b = b\<lparr>pmem := (pmem b)(cell (640 + i) := big_page i)\<rparr>"
      using map_page_old [OF A(1,2) disjI1 [OF refl] e(1)] e(2) by (simp add: m big_page_def)
    then show ?thesis using e(3,4) i False by (auto simp: tables_def cell_inj contents_after_def)
  qed
qed

lemma map_boot_step:
  assumes i: "i < 8" and b: "tables 128 i b"
  shows "tables 128 (Suc i) (map_boot i b)"
proof -
  let ?a = "0x50000000 + of_nat i * 0x200000 :: u64"
  note A = boot_addr [OF i]
  have m: "map_boot i b = map_page ?a ?a PGDIR_PA b" by (simp add: map_boot_def Let_def)
  show ?thesis
  proof (cases "i = 0")
    case True
    have e: "pmem b (cell 1) = 0" "pg_base b + 0x1000 = cell 1024" "\<And>x. x < 1024 \<Longrightarrow> pmem b (cell x) = contents_after 128 0 x"
      using b True cell_next by (auto simp: tables_def contents_after_def)
    note new = map_page_new [OF A(1) _ A(2) _ disjI2 [OF refl] e(1,2), where pa = ?a]
    have "pmem (map_boot i b) (cell x) = contents_after 128 (Suc i) x" if "x < 1536" for x
      using new(2) [of x] that e(3) [of x] True unfolding m by (auto simp: contents_after_def big_page_def)
    then show ?thesis using new(1) i by (simp add: tables_def m)
  next
    case False
    then have e: "pmem b (cell 1) = table_entry_at 1024" "pmem b (cell (1152 + i)) = 0" "pg_base b = cell 1024"
      "\<And>x. x < 1536 \<Longrightarrow> pmem b (cell x) = contents_after 128 i x"
      using b i by (auto simp: tables_def contents_after_def)
    have "map_boot i b = b\<lparr>pmem := (pmem b)(cell (1152 + i) := big_page i)\<rparr>"
      using map_page_old [OF A(1,2) disjI2 [OF refl] e(1)] e(2) by (simp add: m big_page_def)
    then show ?thesis using e(3,4) i False by (auto simp: tables_def cell_inj contents_after_def)
  qed
qed

lemma setup_vm_tables:
  assumes "pg_base b = PGDIR_PA"
  shows "tables 128 8 (snd (setup_vm b))"
proof -
  have "tables 0 0 (clear_pgdir PGDIR_PA b)"
    using assms clear_cells [of 0 _ b] cell_next(3) by (simp add: tables_def contents_after_def clear_pgdir_def)
  then have "tables n 0 (fold map_kernel [0..<n] (clear_pgdir PGDIR_PA b))" if "n \<le> 128" for n
    using that by (induction n) (simp_all add: map_kernel_step)
  from this [of 128] have k: "tables 128 0 (fold map_kernel [0..<128] (clear_pgdir PGDIR_PA b))" by (simp del: upt_rec_numeral)
  then have "tables 128 n (fold map_boot [0..<n] (fold map_kernel [0..<128] (clear_pgdir PGDIR_PA b)))" if "n \<le> 8" for n
    using that by (induction n) (simp_all add: map_boot_step del: upt_rec_numeral)
  from this [of 8] show ?thesis by (simp add: setup_vm_def Let_def del: upt_rec_numeral)
qed

section \<open>The mapping\<close>

lemma big_pages:
  assumes "k < 128"
  shows "get_pa (big_page k) = 0x50000000 + of_nat k * 0x200000" "get_attribute (big_page k) PAGE_PRESENT \<noteq> 0"
    "get_attribute (big_page k) leaf_bits \<noteq> 0"
proof -
  let ?pa = "0x50000000 + of_nat k * 0x200000 :: u64"
  have pa: "?pa = push_bit 21 (take_bit 10 (of_nat (640 + k)))"
    using assms by (simp add: push_bit_eq_mult take_bit_of_nat take_bit_nat_eq_self del: of_nat_add) (simp add: algebra_simps)
  have "get_page_base (take_bit 56 ?pa) = ?pa" unfolding pa
    by (rule bit_word_eqI) (auto simp: bit_get_page_base bit_simps)
  moreover have "drop_bit 10 boot_attributes = 0" by code_simp
  ultimately show "get_pa (big_page k) = ?pa" by (simp only: big_page_def get_pa_set_attribute get_pa_set_pfn)
  have or: "get_attribute (set_attribute e boot_attributes) m \<noteq> 0" if "boot_attributes AND m \<noteq> 0" for e m
  proof
    assume z: "get_attribute (set_attribute e boot_attributes) m = 0"
    have "boot_attributes AND m = boot_attributes AND get_attribute (set_attribute e boot_attributes) m"
      by (rule bit_word_eqI) (auto simp: get_attribute_def set_attribute_def bit_simps)
    then show False using z that by simp
  qed
  show "get_attribute (big_page k) PAGE_PRESENT \<noteq> 0" "get_attribute (big_page k) leaf_bits \<noteq> 0"
    unfolding big_page_def by (rule or, code_simp)+
qed

lemma enable_vm_root: "push_bit 12 (take_bit 44 enable_vm) = PGDIR_PA"
  by code_simp

text \<open>The walk, in page numbers.\<close>

lemma translate_tables:
  assumes b: "tables 128 8 b" and va: "canonical va" and v: "unat va div 2 ^ 30 mod 512 = v" and w: "unat va div 2 ^ 21 mod 512 = w"
  shows "translate (pmem b) enable_vm va =
    (if v = 257 \<and> 128 \<le> w \<and> w < 256 \<or> v = 1 \<and> 128 \<le> w \<and> w < 136
     then Some (0x50000000 + of_nat (w - 128) * 0x200000 + take_bit 21 va) else None)"
proof -
  have vw: "v < 512" "w < 512" using v w by auto
  have p2: "get_vpn2 va = of_nat v" using v vw(1) by (simp add: word_unat_eq_iff unat_vpn2 unat_of_nat)
  have p1: "get_vpn1 va = of_nat w" using w vw(2) by (simp add: word_unat_eq_iff unat_vpn1 unat_of_nat)
  have c: "pmem b (cell x) = contents_after 128 8 x" if "x < 1536" for x using b that by (simp add: tables_def)
  have e2: "pmem b (PGDIR_PA + 8 * get_vpn2 va) = (if v = 257 then table_entry_at 512 else if v = 1 then table_entry_at 1024 else 0)"
    using c [of v] vw(1) by (simp add: p2 cell_def contents_after_def)
  have e1: "pmem b (cell t + 8 * get_vpn1 va) = contents_after 128 8 (t + w)" if "t = 512 \<or> t = 1024" for t
  proof -
    have "cell t + 8 * get_vpn1 va = cell (t + w)" by (simp add: cell_def p1)
    then show ?thesis using c [of "t + w"] that vw(2) by auto
  qed
  have z: "get_attribute 0 m = 0" for m by (simp add: get_attribute_def)
  have big: "get_pa (big_page (w - 128)) = 0x50000000 + of_nat (w - 128) * 0x200000"
    "get_attribute (big_page (w - 128)) PAGE_PRESENT \<noteq> 0" "get_attribute (big_page (w - 128)) leaf_bits \<noteq> 0"
    if "128 \<le> w" "w < 256" using big_pages [of "w - 128"] that by auto
  show ?thesis
    using e1 [of 512] e1 [of 1024] vw(2) big table_entry_facts va
    unfolding translate_def Let_def enable_vm_root e2 by (auto simp: contents_after_def z)
qed

text \<open>Addresses by the number \<open>q\<close> of the two-megabyte page.\<close>

lemma big_page_number:
  fixes N :: nat
  defines "q \<equiv> N div 2 ^ 21"
  shows "N div 2 ^ 30 = q div 512" "N = q * 2 ^ 21 + N mod 2 ^ 21" "a * 2 ^ 21 \<le> N \<longleftrightarrow> a \<le> q" "N < a * 2 ^ 21 \<longleftrightarrow> q < a"
proof -
  show "N div 2 ^ 30 = q div 512" by (simp add: q_def div_mult2_eq [symmetric])
  show "N = q * 2 ^ 21 + N mod 2 ^ 21" unfolding q_def by (simp add: div_mult_mod_eq)
  show "a * 2 ^ 21 \<le> N \<longleftrightarrow> a \<le> q" unfolding q_def by (rule less_eq_div_iff_mult_less_eq [symmetric]) simp
  show "N < a * 2 ^ 21 \<longleftrightarrow> q < a" unfolding q_def by (rule div_less_iff_less_mult [symmetric]) simp
qed

lemma digits_between:
  fixes d r :: nat
  assumes "r < 512" "128 \<le> b" "b \<le> 512"
  shows "d = 1 \<and> 128 \<le> r \<and> r < b \<longleftrightarrow> 640 \<le> 512 * d + r \<and> 512 * d + r < 512 + b"
proof -
  consider "d = 0" | "d = 1" | "2 \<le> d" by linarith
  then show ?thesis by cases (use assms in auto)
qed

lemma low_pages:
  fixes q :: nat
  assumes "q < 2 ^ 17"
  shows "(q div 512 mod 512 = 257 \<and> 128 \<le> q mod 512 \<and> q mod 512 < 256
      \<or> q div 512 mod 512 = 1 \<and> 128 \<le> q mod 512 \<and> q mod 512 < 136) \<longleftrightarrow> 640 \<le> q \<and> q < 648"
proof -
  have d: "q div 512 < 256" "q div 512 mod 512 = q div 512" "q div 512 \<noteq> 257" using assms by simp_all
  have q: "512 * (q div 512) + q mod 512 = q" by simp
  show ?thesis using digits_between [of "q mod 512" 136 "q div 512"] unfolding q d(2) using d(3) by simp
qed

lemma high_pages:
  fixes p :: nat
  assumes "p < 2 ^ 17"
  defines "q \<equiv> 2 ^ 43 - 2 ^ 17 + p"
  shows "(q div 512 mod 512 = 257 \<and> 128 \<le> q mod 512 \<and> q mod 512 < 256
      \<or> q div 512 mod 512 = 1 \<and> 128 \<le> q mod 512 \<and> q mod 512 < 136) \<longleftrightarrow> 640 \<le> p \<and> p < 768"
proof -
  have q: "q = p + (2 ^ 34 - 2 ^ 8) * 512" by (simp add: q_def)
  have e: "q mod 512 = p mod 512" unfolding q by (rule mod_mult_self1)
  have "q div 512 = (2 ^ 34 - 2 ^ 8) + p div 512" unfolding q by (rule div_mult_self1) simp
  moreover have d: "p div 512 < 256" using assms(1) by simp
  ultimately have m: "q div 512 mod 512 = p div 512 + 256" by (simp only:) (rule mod_nat_eqI, simp_all)
  have p: "512 * (p div 512) + p mod 512 = p" by simp
  have "p div 512 + 256 = 257 \<longleftrightarrow> p div 512 = 1" "p div 512 + 256 \<noteq> 1" by linarith+
  then show ?thesis using digits_between [of "p mod 512" 256 "p div 512"] unfolding p e m by simp
qed

lemma page_address:
  assumes "640 \<le> k" "k < 768"
  shows "unat (0x50000000 + of_nat (k - 640) * 0x200000 + take_bit 21 va :: u64) = k * 2 ^ 21 + unat va mod 2 ^ 21"
proof -
  have "unat (0x50000000 + of_nat (k - 640) * 0x200000 :: u64) = k * 2 ^ 21"
    using unat_add_small [of "0x50000000" "(k - 640) * 0x200000"] assms by simp
  moreover have "unat (take_bit 21 va) = unat va mod 2 ^ 21" by (simp add: take_bit_eq_mod unat_mod)
  moreover have "k * 2 ^ 21 + unat va mod 2 ^ 21 < 2 ^ 64"
    using mod_less_divisor [of "2 ^ 21" "unat va"] assms(2) by simp
  ultimately show ?thesis
    using unat_add_lem [of "0x50000000 + of_nat (k - 640) * 0x200000 :: u64" "take_bit 21 va"] by simp
qed

lemma page_index:
  fixes q :: nat
  assumes "640 \<le> q" "q < 768" shows "q mod 512 - 128 = q - 640"
proof -
  have "q mod 512 = q - 512" by (rule mod_nat_eqI) (use assms in simp_all)
  then show ?thesis using assms by simp
qed

lemma translate_low:
  assumes b: "tables 128 8 b" and va: "unat va < 2 ^ 38"
  shows "translate (pmem b) enable_vm va = (if 0x50000000 \<le> unat va \<and> unat va < 0x51000000 then Some va else None)"
proof -
  define q where "q = unat va div 2 ^ 21"
  note n = big_page_number [where N = "unat va", folded q_def]
  have q: "q < 2 ^ 17" using n(4) [of "2 ^ 17"] va by simp
  have in_range: "640 \<le> q \<and> q < 648 \<longleftrightarrow> 0x50000000 \<le> unat va \<and> unat va < 0x51000000"
    using n(3) [of 640] n(4) [of 648] by simp
  have t: "translate (pmem b) enable_vm va = (if 640 \<le> q \<and> q < 648
     then Some (0x50000000 + of_nat (q mod 512 - 128) * 0x200000 + take_bit 21 va) else None)"
    using translate_tables [OF b, of va "q div 512 mod 512" "q mod 512"] va n(1) low_pages [OF q] by (simp add: canonical_def q_def)
  have "0x50000000 + of_nat (q mod 512 - 128) * 0x200000 + take_bit 21 va = va" if "640 \<le> q" "q < 648"
    using page_address [of q va] page_index [of q] n(2) that by (simp add: word_unat_eq_iff)
  then show ?thesis unfolding t in_range [symmetric] by auto
qed

lemma translate_high:
  assumes b: "tables 128 8 b" and va: "2 ^ 64 - 2 ^ 38 \<le> unat va"
  shows "translate (pmem b) enable_vm va =
    (if 0xffffffc050000000 \<le> unat va \<and> unat va < 0xffffffc060000000 then Some (kva2pa va) else None)"
proof -
  define q where "q = unat va div 2 ^ 21"
  define p where "p = q - (2 ^ 43 - 2 ^ 17)"
  note n = big_page_number [where N = "unat va", folded q_def]
  have "unat va < 2 ^ 64" using unsigned_less [of va, where 'a = nat] by simp
  then have "q < 2 ^ 43" using n(4) [of "2 ^ 43"] by simp
  moreover have "2 ^ 43 - 2 ^ 17 \<le> q" using n(3) [of "2 ^ 43 - 2 ^ 17"] va by simp
  ultimately have qp: "q = 2 ^ 43 - 2 ^ 17 + p" and p: "p < 2 ^ 17" by (simp_all add: p_def)
  have in_range: "640 \<le> p \<and> p < 768 \<longleftrightarrow> 0xffffffc050000000 \<le> unat va \<and> unat va < 0xffffffc060000000"
    using n(3) [of "2 ^ 43 - 2 ^ 17 + 640"] n(4) [of "2 ^ 43 - 2 ^ 17 + 768"] qp by simp
  have m: "q mod 512 = p mod 512" using mod_mult_self1 [of p "2 ^ 34 - 2 ^ 8" 512] qp by (simp add: add.commute)
  have t: "translate (pmem b) enable_vm va = (if 640 \<le> p \<and> p < 768
     then Some (0x50000000 + of_nat (p mod 512 - 128) * 0x200000 + take_bit 21 va) else None)"
    using translate_tables [OF b, of va "q div 512 mod 512" "q mod 512"] va n(1) high_pages [OF p, folded qp] m
    by (simp add: canonical_def q_def)
  have "0x50000000 + of_nat (p mod 512 - 128) * 0x200000 + take_bit 21 va = kva2pa va" if k: "640 \<le> p" "p < 768"
  proof -
    have "unat va = p * 2 ^ 21 + unat va mod 2 ^ 21 + (2 ^ 32 - 2 ^ 6) * 2 ^ 32" using n(2) qp by simp
    moreover have "p * 2 ^ 21 + unat va mod 2 ^ 21 < 768 * 2 ^ 21"
      using k(2) mod_less_divisor [of "2 ^ 21" "unat va"] by simp
    ultimately have "unat va mod 2 ^ 32 = p * 2 ^ 21 + unat va mod 2 ^ 21"
      using mod_mult_self1 [of "p * 2 ^ 21 + unat va mod 2 ^ 21" "2 ^ 32 - 2 ^ 6" "2 ^ 32"] mod_less by simp
    then show ?thesis using page_address [of p va] page_index [of p] k by (simp add: word_unat_eq_iff unat_kva2pa)
  qed
  then show ?thesis unfolding t in_range [symmetric] by auto
qed

text \<open>(C36) Whatever memory held before, the page table that \<open>setup_vm\<close> leaves and switches on maps exactly two
  ranges: the kernel's 256 megabytes at 0xffffffc050000000 to the physical memory \<open>kva2pa\<close> names, and the 16
  megabytes the boot code runs in to themselves. Every other address faults.\<close>

theorem setup_vm_maps:
  assumes "pg_base b = PGDIR_PA"
  shows "translate (pmem (snd (setup_vm b))) (fst (setup_vm b)) va =
    (if 0xffffffc050000000 \<le> va \<and> va < 0xffffffc060000000 then Some (kva2pa va)
     else if 0x50000000 \<le> va \<and> va < 0x51000000 then Some va else None)"
proof -
  note b = setup_vm_tables [OF assms]
  have f: "fst (setup_vm b) = enable_vm" by (simp add: setup_vm_def)
  have c: "unat va < 2 ^ 38 \<or> 2 ^ 64 - 2 ^ 38 \<le> unat va \<or> \<not> canonical va" by (auto simp: canonical_def)
  have none: "translate m r va = None" if "\<not> canonical va" for m r using that by (simp add: translate_def)
  show ?thesis
    using c translate_low [OF b, of va] translate_high [OF b, of va] none
    unfolding f word_le_nat_alt word_less_nat_alt by (auto simp: canonical_def)
qed

lemma setup_vm_maps_witness: "translate (pmem (snd (setup_vm \<lparr>pg_base = PGDIR_PA, pmem = \<lambda>_. 7\<rparr>)))
    (fst (setup_vm \<lparr>pg_base = PGDIR_PA, pmem = \<lambda>_. 7\<rparr>)) 0xffffffc0502012f8 = Some 0x502012f8"
  using setup_vm_maps [of "\<lparr>pg_base = PGDIR_PA, pmem = \<lambda>_. 7\<rparr>" "0xffffffc0502012f8"] by (simp add: kva2pa_def)

end
