(* ===== verification/Libc.thy ===== *)
theory Libc
  imports Printk
begin

text \<open>
  The user library's numbers and small tools: \<open>strrev\<close> of \<open>tiny_libc/string.c\<close> (the other string
  routines there are those of \<open>libs/string.c\<close>, theory CString), \<open>itoa\<close>, \<open>atol\<close> and \<open>atoi\<close>, the random
  numbers, and the checksum and the random strings of \<open>tiny_libc/mailbox.c\<close>.

  An \<open>int\<close> that only gets smaller is an integer; the value that \<open>atol\<close> collects is a 64-bit word,
  which wraps around.
\<close>

section \<open>Characters and strings\<close>

definition isdigit :: "u8 \<Rightarrow> bool" where
  "isdigit ch \<longleftrightarrow> 0x30 \<le> ch \<and> ch \<le> 0x39"

definition isspace :: "u8 \<Rightarrow> bool" where
  "isspace ch \<longleftrightarrow> ch = 0x20 \<or> ch = 0x09 \<or> ch = 0x0a \<or> ch = 0x0b \<or> ch = 0x0c \<or> ch = 0x0d"

fun strrev_loop :: "nat \<Rightarrow> nat \<Rightarrow> region \<Rightarrow> region option" where
  "strrev_loop i j r =
     (if i < j then do { r' \<leftarrow> swap_bytes i j r; strrev_loop (i + 1) (j - 1) r' } else Some r)"

declare strrev_loop.simps [simp del]

definition strrev :: "region \<Rightarrow> region option" where
  "strrev r = do { len \<leftarrow> strlen r 0; strrev_loop 0 (len - 1) r }"

section \<open>Numbers to text\<close>

text \<open>The loop of \<open>itoa\<close>: buffer, place and what is left of the number.\<close>

function itoa_turns :: "int \<Rightarrow> int \<Rightarrow> int \<Rightarrow> region \<Rightarrow> nat \<Rightarrow> (region \<times> nat \<times> int) option" where
  "itoa_turns v base len r i =
     (if base = 0 then None
      else do {
        r' \<leftarrow> store r i (itoa_char True (v smod base));
        let v' = v sdiv base;
        if v' \<noteq> 0 \<and> int (i + 1) < len - 1 then itoa_turns v' base len r' (i + 1)
        else Some (r', i + 1, v') })"
  by pat_completeness auto
termination by (relation "measure (\<lambda>(v, base, len, r, i). nat (len - int i))") auto

declare itoa_turns.simps [simp del]

definition itoa :: "int \<Rightarrow> region \<Rightarrow> int \<Rightarrow> int \<Rightarrow> (int \<times> region) option" where
  "itoa num r len base =
     (if len = 0 then Some (-1, r)
      else do {
        (str1, i, v) \<leftarrow> itoa_turns num base len r 0;
        if int i = len - 1 \<and> v \<noteq> 0 then Some (-1, str1)
        else do {
          str2 \<leftarrow> store str1 i 0;
          str3 \<leftarrow> strrev str2;
          Some (0, str3) } })"

section \<open>Text to numbers\<close>

text \<open>The loop over the blanks does not advance.\<close>

partial_function (option) atol_blanks :: "region \<Rightarrow> nat \<Rightarrow> nat option" where
  "atol_blanks r p = do { ch \<leftarrow> load r p; if isspace ch then atol_blanks r p else Some p }"

definition hex_digit :: "u8 \<Rightarrow> u64 option" where
  "hex_digit ch = (if 0x61 \<le> ch \<and> ch \<le> 0x66 then Some (ucast ch - 0x61 + 10)
     else if 0x41 \<le> ch \<and> ch \<le> 0x46 then Some (ucast ch - 0x41 + 10) else None)"

text \<open>The conversion loop; a character that is no digit ends it with 0.\<close>

function atol_loop :: "u64 \<Rightarrow> u64 \<Rightarrow> region \<Rightarrow> nat \<Rightarrow> u64 option" where
  "atol_loop base ret r p =
     (if p < rsize r
      then let ch = rbyte r p
           in if ch = 0 then Some ret
              else if isdigit ch then atol_loop base (ret * base + (ucast ch - 0x30)) r (p + 1)
              else if base = 16
              then (case hex_digit ch of Some d \<Rightarrow> atol_loop base (ret * base + d) r (p + 1) | None \<Rightarrow> Some 0)
              else Some 0
      else None)"
  by pat_completeness auto
termination by (relation "measure (\<lambda>(base, ret, r, p). rsize r - p)") auto

declare atol_loop.simps [simp del]

definition atol :: "(region \<times> nat) option \<Rightarrow> u64 option" where
  "atol s = (case s of None \<Rightarrow> Some 0
     | Some (r, p) \<Rightarrow> do {
         p1 \<leftarrow> atol_blanks r p;
         ch \<leftarrow> load r p1;
         if ch = 0x2b \<or> ch = 0x2d \<or> isdigit ch
         then do {
           let negative = (ch = 0x2d);
           let p2 = (if ch = 0x2b \<or> ch = 0x2d then p1 + 1 else p1);
           c0 \<leftarrow> load r p2;
           hex \<leftarrow> (if c0 = 0x30 then do { c1 \<leftarrow> load r (p2 + 1); Some (c1 = 0x78 \<or> c1 = 0x58) } else Some False);
           ret \<leftarrow> atol_loop (if hex then 16 else 10) 0 r (if hex then p2 + 2 else p2);
           Some (if negative then - ret else ret) }
         else Some 0 })"

definition atoi :: "(region \<times> nat) option \<Rightarrow> u32 option" where
  "atoi s = map_option ucast (atol s)"

section \<open>Random numbers, checksums\<close>

text \<open>The state \<open>x\<close> is an \<open>int\<close>.\<close>

definition srand :: "u32 \<Rightarrow> u32 \<Rightarrow> u32" where
  "srand seed x = seed"

definition rand :: "u32 \<Rightarrow> u32 \<times> u32" where
  "rand x = (let tmp = 0x5deece66d * scast x + 0xb :: u64; x' = ucast (tmp AND 0x7fffffff) in (x', x'))"

definition MOD_ADLER :: u32 where "MOD_ADLER = 65521"

definition adler_step :: "u8 \<Rightarrow> u32 \<times> u32 \<Rightarrow> u32 \<times> u32" where
  "adler_step d s = (let (a, b) = s; a' = (a + ucast d) mod MOD_ADLER in (a', (b + a') mod MOD_ADLER))"

definition adler32 :: "region \<Rightarrow> nat \<Rightarrow> u32 option" where
  "adler32 data len = do {
     (a, b) \<leftarrow> for_each (\<lambda>index s. map_option (\<lambda>d. adler_step d s) (load data index)) [0..<len] (1, 0);
     Some (push_bit 16 b OR a) }"

text \<open>The alphabet with the terminator, which \<open>sizeof\<close> counts.\<close>

definition alpha :: "u8 list" where
  "alpha = map of_char ''abcdefghijklmnopqrstuvwxyzABCDEFGHIJKLMNOPQRSTUVWXYZ0123456789-={};|[],./<>?!@#$%^&*'' @ [0]"

definition generateRandomString :: "region \<Rightarrow> nat \<Rightarrow> u32 \<Rightarrow> (region \<times> u32) option" where
  "generateRandomString buf len x = do {
     buf1 \<leftarrow> (if 0 < len then store buf (len - 1) 0 else None);
     for_each (\<lambda>i (r, x). do {
       let (v, x') = rand x;
       r' \<leftarrow> store r i (alpha ! nat (sint v smod int (length alpha)));
       Some (r', x') }) (rev [0..<len - 1]) (buf1, x) }"

end
