(* ===== verification/LibcProps.thy ===== *)
theory LibcProps
  imports Libc
begin

text \<open>
  What the number routines of the user library compute: \<open>itoa\<close> writes the digits of a number and
  \<open>atol\<close> reads them back, \<open>adler32\<close> is the checksum of that name.
\<close>

section \<open>Reversing a string\<close>

lemma strrev_loop_eq:
  "strrev_loop k (n - 1 - k) r = for_each (\<lambda>i. swap_bytes i (n - i - 1)) [k..<n div 2] r"
proof (induction "n div 2 - k" arbitrary: k r)
  case 0
  then have "\<not> k < n - 1 - k" by linarith
  then show ?case using 0 by (subst strrev_loop.simps) simp
next
  case (Suc m)
  then have k: "k < n div 2" by simp
  then have "k < n - 1 - k" by linarith
  moreover have "n - 1 - k - 1 = n - 1 - (k + 1)" "n - k - 1 = n - 1 - k" by simp_all
  moreover have "strrev_loop (k + 1) (n - 1 - (k + 1)) = for_each (\<lambda>i. swap_bytes i (n - i - 1)) [k + 1..<n div 2]"
    using Suc.hyps(1) [of "k + 1"] Suc.hyps(2) by (intro ext) simp
  ultimately show ?case using k by (subst strrev_loop.simps) (simp add: upt_conv_Cons)
qed

lemma strrev_result:
  assumes "0 \<notin> set xs" "length xs < rsize r"
  shows "strrev (with_prefix r (xs @ [0])) = Some (with_prefix r (rev xs @ [0]))"
proof -
  have "strlen (with_prefix r (xs @ [0])) 0 = Some (length xs)"
    by (rule strlen_cstr [OF with_prefix_cstr [OF assms]])
  then show ?thesis
    using strrev_loop_eq [of 0 "length xs" "with_prefix r (xs @ [0])"] reverse_bytes_prefix [of xs "[0]" r] assms(2)
    by (simp add: strrev_def reverse_bytes_def)
qed

section \<open>Numbers to text\<close>

lemma trunc_nonneg: "0 \<le> a \<Longrightarrow> 0 < b \<Longrightarrow> (a :: int) sdiv b = a div b \<and> a smod b = a mod b"
  by (simp add: sdiv_pos smod_pos)

lemma itoa_turns_fits:
  assumes "2 \<le> b" "n = nat v" "0 \<le> v" "length xs + length (digits b n) < len" "len \<le> rsize r"
  shows "itoa_turns v (int b) (int len) (with_prefix r xs) (length xs) =
    Some (with_prefix r (xs @ rev (digits_text True b n)), length xs + length (digits b n), 0)"
  using assms
proof (induction b n arbitrary: v xs rule: digits.induct)
  case (1 b n)
  have v: "v sdiv int b = int (n div b)" "v smod int b = int (n mod b)"
    using trunc_nonneg [of v "int b"] "1.prems" by (simp_all add: zdiv_int zmod_int)
  have l: "length xs < rsize r" using "1.prems"(4,5) by simp
  show ?case
  proof (cases "n < b")
    case True
    then show ?thesis using v l "1.prems"(1)
      by (subst itoa_turns.simps) (simp add: with_prefix_store digits_small digits_text_def)
  next
    case False
    let ?xs = "xs @ [itoa_char True (int (n mod b))]"
    have step: "digits b n = digits b (n div b) @ [n mod b]" using digits_step "1.prems"(1) False by simp
    have "0 < length (digits b (n div b))" by (subst digits.simps) simp
    then have room: "int (length xs + 1) < int len - 1" using "1.prems"(4) unfolding step by (simp only: length_append)
        (simp del: length_greater_0_conv)
    have "itoa_turns (int (n div b)) (int b) (int len) (with_prefix r ?xs) (length ?xs) =
      Some (with_prefix r (?xs @ rev (digits_text True b (n div b))), length ?xs + length (digits b (n div b)), 0)"
      by (rule "1.IH") (use False "1.prems" step in auto)
    moreover have "n div b \<noteq> 0" using False "1.prems"(1) by (simp add: div_eq_0_iff)
    ultimately show ?thesis using v l "1.prems"(1) step room
      by (subst itoa_turns.simps) (simp add: with_prefix_store digits_text_def Let_def)
  qed
qed

lemma itoa_char_nz: "d < 36 \<Longrightarrow> itoa_char True (int d) \<noteq> 0"
proof -
  assume d: "d < 36"
  have "itoa_char True (int d) = word_of_nat (if d < 10 then 0x30 + d else 0x41 + d - 10)"
    by (simp add: itoa_char_def of_nat_diff)
  also have "\<dots> \<noteq> 0" using d by (simp add: word_of_nat_eq_0_iff nat_dvd_not_less)
  finally show ?thesis .
qed

lemma digits_text_nz: "2 \<le> b \<Longrightarrow> b \<le> 36 \<Longrightarrow> 0 \<notin> set (digits_text True b n)"
  using itoa_char_nz digits_bound [of b] by (fastforce simp: digits_text_def)

lemma itoa_fits:
  assumes "2 \<le> b" "b \<le> 36" "length (digits b n) < len" "len \<le> rsize r"
  shows "itoa (int n) r (int len) (int b) = Some (0, with_prefix r (digits_text True b n @ [0]))"
proof -
  let ?t = "digits_text True b n"
  have t: "itoa_turns (int n) (int b) (int len) r 0 = Some (with_prefix r (rev ?t), length ?t, 0)"
    using itoa_turns_fits [of b n "int n" "[]" len r] assms by (simp add: digits_text_def)
  have l: "length ?t < rsize r" using assms(3,4) by (simp add: digits_text_def)
  have "store (with_prefix r (rev ?t)) (length ?t) 0 = Some (with_prefix r (rev ?t @ [0]))"
    using with_prefix_store [of "rev ?t" r 0] l by simp
  moreover have "strrev (with_prefix r (rev ?t @ [0])) = Some (with_prefix r (?t @ [0]))"
    using strrev_result [of "rev ?t" r] digits_text_nz [OF assms(1,2)] l by simp
  ultimately show ?thesis using t assms(3) by (simp add: itoa_def)
qed

text \<open>A buffer that is too small is noticed, if it has two bytes at least.\<close>

lemma itoa_turns_full:
  assumes "2 \<le> b" "n = nat v" "0 \<le> v" "len \<le> length xs + length (digits b n)" "length xs + 1 < len" "len \<le> rsize r"
  shows "\<exists>r' w. itoa_turns v (int b) (int len) (with_prefix r xs) (length xs) = Some (r', len - 1, w) \<and> w \<noteq> 0"
  using assms
proof (induction b n arbitrary: v xs rule: digits.induct)
  case (1 b n)
  have v: "v sdiv int b = int (n div b)" "v smod int b = int (n mod b)"
    using trunc_nonneg [of v "int b"] "1.prems" by (simp_all add: zdiv_int zmod_int)
  have l: "length xs < rsize r" using "1.prems"(5,6) by simp
  let ?xs = "xs @ [itoa_char True (int (n mod b))]"
  have big: "\<not> n < b" using "1.prems"(4,5) by (auto simp: digits_small)
  then have step: "digits b n = digits b (n div b) @ [n mod b]" and nz: "n div b \<noteq> 0"
    using digits_step "1.prems"(1) by (simp_all add: div_eq_0_iff)
  have st: "store (with_prefix r xs) (length xs) (itoa_char True (v smod int b)) = Some (with_prefix r ?xs)"
    using l v by (simp add: with_prefix_store)
  show ?case
  proof (cases "length xs + 2 = len")
    case True
    then show ?thesis using v nz st "1.prems"(1) by (subst itoa_turns.simps) (auto intro!: exI)
  next
    case False
    have "\<exists>r' w. itoa_turns (int (n div b)) (int b) (int len) (with_prefix r ?xs) (length ?xs) = Some (r', len - 1, w) \<and> w \<noteq> 0"
      by (rule "1.IH") (use False big "1.prems" step in auto)
    then show ?thesis using v nz st False "1.prems"(1,5) by (subst itoa_turns.simps) auto
  qed
qed

lemma itoa_too_long:
  assumes "2 \<le> b" "len \<le> length (digits b n)" "2 \<le> len" "len \<le> rsize r"
  shows "\<exists>r'. itoa (int n) r (int len) (int b) = Some (-1, r')"
  using itoa_turns_full [of b n "int n" len "[]" r] assms by (auto simp: itoa_def of_nat_diff)

section \<open>Text to numbers\<close>

definition digit_read :: "nat \<Rightarrow> bool" where
  "digit_read d = (let c = itoa_char True (int d) in c \<noteq> 0 \<and>
     (if d < 10 then isdigit c \<and> ucast c - 0x30 = (of_nat d :: u64)
      else \<not> isdigit c \<and> hex_digit c = Some (of_nat d)) \<and> (d = 0 \<or> c \<noteq> 0x30))"

lemma digit_reads: "d < 16 \<Longrightarrow> digit_read d"
proof -
  have "list_all digit_read [0..<16]" by code_simp
  then show "d < 16 \<Longrightarrow> digit_read d" by (simp add: list_all_iff)
qed

lemma atol_loop_digits:
  assumes "b = 10 \<or> b = 16" "\<forall>d \<in> set ds. d < b" "cstr r p (map (\<lambda>d. itoa_char True (int d)) ds)"
  shows "atol_loop (of_nat b) ret r p = Some (foldl (\<lambda>x d. x * of_nat b + of_nat d) ret ds)"
  using assms(2,3)
proof (induction ds arbitrary: p ret)
  case Nil
  then show ?case by (subst atol_loop.simps) simp
next
  case (Cons d ds)
  let ?c = "itoa_char True (int d)"
  have d: "d < 16" "d < 10 \<or> b = 16" using Cons.prems(1) assms(1) by auto
  have c: "rbyte r p = ?c" "?c \<noteq> 0" "p < rsize r" using Cons.prems(2) by simp_all
  have "atol_loop (of_nat b) (ret * of_nat b + of_nat d) r (p + 1) =
      Some (foldl (\<lambda>x d. x * of_nat b + of_nat d) (ret * of_nat b + of_nat d) ds)"
    by (rule Cons.IH) (use Cons.prems in simp_all)
  then show ?case using digit_reads [OF d(1)] c d(2)
    by (subst atol_loop.simps) (auto simp: Let_def digit_read_def split: if_splits)
qed

lemma foldl_number: "foldl (\<lambda>x d. x * of_nat b + of_nat d) (of_nat k) ds = (of_nat (foldl (\<lambda>x d. x * b + d) k ds) :: u64)"
  by (induction ds arbitrary: k) (simp_all flip: of_nat_mult of_nat_add)

lemma atol_loop_number:
  assumes "b = 10 \<or> b = 16" "cstr r p (digits_text True b n)"
  shows "atol_loop (of_nat b) 0 r p = Some (of_nat n)"
proof -
  have b: "2 \<le> b" using assms(1) by auto
  have "\<forall>d \<in> set (digits b n). d < b" using digits_bound [OF b] by blast
  from atol_loop_digits [OF assms(1) this assms(2) [unfolded digits_text_def], of 0]
  have "atol_loop (of_nat b) 0 r p = Some (of_nat (foldl (\<lambda>x d. x * b + d) 0 (digits b n)))"
    using foldl_number [of b 0 "digits b n"] by simp
  also have "foldl (\<lambda>x d. x * b + d) 0 (digits b n) = n"
    using number_of_digits [OF b, of n] by (simp add: number_of_def)
  finally show ?thesis .
qed

text \<open>A blank is never passed.\<close>

lemma atol_blanks_Some: "atol_blanks r p = Some q \<longleftrightarrow> p < rsize r \<and> \<not> isspace (rbyte r p) \<and> q = p"
proof
  show "atol_blanks r p = Some q" if "p < rsize r \<and> \<not> isspace (rbyte r p) \<and> q = p"
    using that by (subst atol_blanks.simps) (simp add: load_def)
  show "atol_blanks r p = Some q \<Longrightarrow> p < rsize r \<and> \<not> isspace (rbyte r p) \<and> q = p"
    by (rule atol_blanks.raw_induct [where P = "\<lambda>r p q. p < rsize r \<and> \<not> isspace (rbyte r p) \<and> q = p"])
      (auto simp: bind_eq_Some_conv load_def split: if_splits)
qed

lemma atol_leading_blank: "p < rsize r \<Longrightarrow> isspace (rbyte r p) \<Longrightarrow> atol (Some (r, p)) = None"
proof -
  assume "p < rsize r" "isspace (rbyte r p)"
  then have "atol_blanks r p = None" using atol_blanks_Some [of r p] by (cases "atol_blanks r p") auto
  then show ?thesis by (simp add: atol_def)
qed

text \<open>The digits of a number do not start with two characters that announce another base.\<close>

lemma digits_text_start:
  assumes "2 \<le> b" "b \<le> 16" "digits_text True b n = c # cs"
  shows "c = 0x30 \<longrightarrow> cs = []" "b \<le> 10 \<Longrightarrow> isdigit c"
proof -
  obtain d ds where d: "digits b n = d # ds" "c = itoa_char True (int d)" "cs = map (\<lambda>d. itoa_char True (int d)) ds"
    using assms(3) by (cases "digits b n") (auto simp: digits_text_def)
  have db: "d < b" using digits_bound [OF assms(1), of d n] d(1) by simp
  have r: "digit_read d" by (rule digit_reads) (use db assms(2) in simp)
  then have ne: "d = 0 \<or> c \<noteq> 0x30" by (simp add: digit_read_def Let_def d(2))
  show "c = 0x30 \<longrightarrow> cs = []" using digits_leading [OF assms(1), of n] ne d(1,3) by auto
  show "b \<le> 10 \<Longrightarrow> isdigit c" using r db d(2) by (auto simp: digit_read_def Let_def split: if_splits)
qed

lemma atol_decimal:
  assumes "cstr r p (digits_text True 10 n)"
  shows "atol (Some (r, p)) = Some (of_nat n)"
proof -
  obtain c cs where t: "digits_text True 10 n = c # cs"
    by (cases "digits_text True 10 n") (auto simp: digits_text_def digits.simps [of 10 n] split: if_splits)
  have c: "c = 0x30 \<longrightarrow> cs = []" "isdigit c" using digits_text_start [OF _ _ t] by simp_all
  have m: "p < rsize r" "rbyte r p = c" and cs: "cstr r (p + 1) cs" using assms t by simp_all
  have sp: "\<not> isspace c" "c \<noteq> 0x2b" "c \<noteq> 0x2d" using c(2) by (auto simp: isspace_def isdigit_def)
  have hex: "c = 0x30 \<Longrightarrow> load r (p + 1) = Some 0" using c(1) cs by (simp add: load_def)
  have "atol_blanks r p = Some p" using atol_blanks_Some m sp by simp
  then show ?thesis using atol_loop_number [of 10 r p n] assms m sp c(2) hex by (simp add: atol_def load_def)
qed

section \<open>The checksum\<close>

definition adler_a :: "nat list \<Rightarrow> nat" where
  "adler_a ds = 1 + sum_list ds"

definition adler_b :: "nat list \<Rightarrow> nat" where
  "adler_b ds = (\<Sum>k \<leftarrow> [0..<length ds]. adler_a (take (Suc k) ds))"

lemma adler_b_snoc: "adler_b (ds @ [d]) = adler_b ds + adler_a (ds @ [d])"
proof -
  have "map (\<lambda>k. adler_a (take (Suc k) (ds @ [d]))) [0..<length ds] = map (\<lambda>k. adler_a (take (Suc k) ds)) [0..<length ds]"
    by (rule map_cong) simp_all
  note eq = arg_cong [OF this, of sum_list]
  show ?thesis unfolding adler_b_def by (simp add: eq del: take_append)
qed

lemma adler_step_mod:
  assumes "unat a = A mod 65521" "unat b = C mod 65521"
  shows "unat (fst (adler_step d (a, b))) = (A + unat d) mod 65521"
    and "unat (snd (adler_step d (a, b))) = (C + (A + unat d)) mod 65521"
proof -
  have d: "unat d < 256" using unsigned_less [of d, where 'a = nat] by simp
  have u: "unat (ucast d :: u32) = unat d" using d by (simp add: unsigned_ucast_eq take_bit_nat_eq_self)
  have s: "unat (x + y) = unat x + unat y" if "unat x + unat y < 4294967296" for x y :: u32
    using that by (simp add: unat_word_ariths)
  have "unat a < 65521" "unat b < 65521" using assms by simp_all
  then have "unat (a + ucast d) = unat a + unat d" using d by (subst s) (simp_all add: u)
  then have "unat ((a + ucast d) mod MOD_ADLER) = (unat a + unat d) mod 65521"
    by (simp add: MOD_ADLER_def unat_mod_distrib)
  then show f: "unat (fst (adler_step d (a, b))) = (A + unat d) mod 65521"
    using assms(1) by (simp add: adler_step_def Let_def mod_simps)
  define a' where "a' = (a + ucast d) mod MOD_ADLER"
  have f': "unat a' = (A + unat d) mod 65521" using f by (simp add: adler_step_def Let_def a'_def)
  then have "unat a' < 65521" by simp
  then have "unat (b + a') = unat b + unat a'" using \<open>unat b < 65521\<close> by (intro s) simp
  then have "unat ((b + a') mod MOD_ADLER) = (unat b + unat a') mod 65521"
    by (simp add: MOD_ADLER_def unat_mod_distrib)
  then show "unat (snd (adler_step d (a, b))) = (C + (A + unat d)) mod 65521"
    using assms(2) f' by (simp add: adler_step_def Let_def a'_def [symmetric] mod_simps)
qed

lemma adler32_result:
  assumes "len \<le> rsize r"
  defines "ds \<equiv> map (\<lambda>i. unat (rbyte r i)) [0..<len]"
  shows "adler32 r len = Some (of_nat (adler_b ds mod 65521 * 65536 + adler_a ds mod 65521))"
proof -
  let ?f = "\<lambda>index s. map_option (\<lambda>d. adler_step d s) (load r index)"
  let ?ds = "\<lambda>n. map (\<lambda>i. unat (rbyte r i)) [0..<n]"
  have "\<exists>s. for_each ?f [0..<len] (1, 0) = Some s \<and> unat (fst s) = adler_a (?ds len) mod 65521
      \<and> unat (snd s) = adler_b (?ds len) mod 65521"
  proof (rule for_each_upt)
    fix i and s :: "u32 \<times> u32"
    assume i: "i < len" and s: "unat (fst s) = adler_a (?ds i) mod 65521 \<and> unat (snd s) = adler_b (?ds i) mod 65521"
    have "?f i s = Some (adler_step (rbyte r i) s)" using i assms(1) by (simp add: load_def)
    moreover have "adler_a (?ds (Suc i)) = adler_a (?ds i) + unat (rbyte r i)" by (simp add: adler_a_def)
    moreover have "adler_b (?ds (Suc i)) = adler_b (?ds i) + (adler_a (?ds i) + unat (rbyte r i))"
      using adler_b_snoc [of "?ds i" "unat (rbyte r i)"] by (simp add: adler_a_def)
    ultimately show "\<exists>s'. ?f i s = Some s' \<and> unat (fst s') = adler_a (?ds (Suc i)) mod 65521
        \<and> unat (snd s') = adler_b (?ds (Suc i)) mod 65521"
      using adler_step_mod [of "fst s" "adler_a (?ds i)" "snd s" "adler_b (?ds i)" "rbyte r i"] s
      by (simp only: prod.collapse) simp
  qed (simp add: adler_a_def adler_b_def)
  then obtain a b where s: "for_each ?f [0..<len] (1, 0) = Some (a, b)"
    "unat a = adler_a ds mod 65521" "unat b = adler_b ds mod 65521" unfolding ds_def by force
  have lt: "unat a < 65521" "unat b < 65521" using s by simp_all
  have a: "take_bit 16 a = a" using lt(1) by (simp add: word_unat_eq_iff unsigned_take_bit_eq take_bit_nat_eq_self)
  have "push_bit 16 b OR a = push_bit 16 b + a"
    by (subst a [symmetric], subst (2) a [symmetric], rule disjunctive_add [symmetric]) (simp add: bit_simps)
  also have "\<dots> = of_nat (unat b * 65536 + unat a)" by (simp add: push_bit_eq_mult)
  finally show ?thesis using s by (simp add: adler32_def)
qed

section \<open>Where the code goes wrong\<close>

text \<open>A negative number is written with characters below the digits, and without its sign.\<close>

lemma itoa_negative: "itoa (-5) \<lparr>rsize = 4, rbyte = \<lambda>_. 1\<rparr> 4 10
    = Some (0, with_prefix \<lparr>rsize = 4, rbyte = \<lambda>_. 1\<rparr> [0x2b, 0])"
proof -
  let ?r = "\<lparr>rsize = 4, rbyte = \<lambda>_. 1\<rparr> :: region"
  have "itoa_turns (-5) 10 4 ?r 0 = Some (with_prefix ?r [0x2b], 1, 0)"
    using with_prefix_store [of "[]" ?r "0x2b"]
    by (subst itoa_turns.simps) (simp add: itoa_char_def signed_modulo_int_def signed_divide_int_def)
  moreover have "store (with_prefix ?r [0x2b]) 1 0 = Some (with_prefix ?r ([0x2b] @ [0]))"
    using with_prefix_store [of "[0x2b]" ?r 0] by simp
  ultimately show ?thesis using strrev_result [of "[0x2b]" ?r] by (simp add: itoa_def)
qed

text \<open>A buffer of one byte is overrun.\<close>

lemma itoa_one_byte: "itoa 7 \<lparr>rsize = 1, rbyte = b\<rparr> 1 10 = None"
proof -
  have "itoa_turns 7 10 1 \<lparr>rsize = 1, rbyte = b\<rparr> 0 = Some (\<lparr>rsize = 1, rbyte = b(0 := 0x37)\<rparr>, 1, 0)"
    by (subst itoa_turns.simps) (simp add: itoa_char_def signed_modulo_int_def signed_divide_int_def store_def)
  then show ?thesis by (simp add: itoa_def store_def)
qed

text \<open>A random string can end early: the terminator is one of the characters drawn.\<close>

lemma random_string_short:
  "map_option (\<lambda>(r, x). rbyte r 0) (generateRandomString \<lparr>rsize = 2, rbyte = \<lambda>_. 1\<rparr> 2 (srand 31 0)) = Some 0"
  by code_simp

section \<open>The property\<close>

text \<open>(C38) What \<open>itoa\<close> writes, \<open>atoi\<close> reads: for a non-negative number and a buffer of at least two
  bytes, \<open>itoa\<close> in base ten returns 0 when the digits and the terminator fit, and \<open>atoi\<close> of the
  buffer is then the number again; otherwise it returns -1.\<close>

theorem itoa_atoi:
  assumes "n < 2147483648" "2 \<le> len" "len \<le> rsize r"
  shows "\<exists>v r'. itoa (int n) r (int len) 10 = Some (v, r')
    \<and> (if length (digits 10 n) < len then v = 0 \<and> map_option sint (atoi (Some (r', 0))) = Some (int n) else v = -1)"
proof (cases "length (digits 10 n) < len")
  case True
  let ?t = "digits_text True 10 n"
  have "itoa (int n) r (int len) 10 = Some (0, with_prefix r (?t @ [0]))"
    using itoa_fits [of 10 n len r] True assms(3) by simp
  moreover have "cstr (with_prefix r (?t @ [0])) 0 ?t"
    by (rule with_prefix_cstr [OF digits_text_nz]) (use True assms(3) in \<open>simp_all add: digits_text_def\<close>)
  then have "atoi (Some (with_prefix r (?t @ [0]), 0)) = Some (of_nat n)"
    using assms(1) by (simp add: atoi_def atol_decimal word_unat_eq_iff unsigned_ucast_eq take_bit_nat_eq_self unat_of_nat)
  moreover have "sint (of_nat n :: u32) = int n"
    using sint_small [of "int n"] assms(1) by simp
  ultimately show ?thesis using True by simp
next
  case False
  then show ?thesis using itoa_too_long [of 10 len n r] assms(2,3) by simp
qed

theorem itoa_atoi_witness:
  "\<exists>r'. itoa 305 \<lparr>rsize = 8, rbyte = \<lambda>_. 1\<rparr> 4 10 = Some (0, r') \<and> map_option sint (atoi (Some (r', 0))) = Some 305"
  using itoa_atoi [of 305 4 "\<lparr>rsize = 8, rbyte = \<lambda>_. 1\<rparr>"] by (simp add: digits.simps)

end
