(* ===== verification/Uprintf.thy ===== *)
theory Uprintf
  imports Printk
begin

text \<open>
  The formatted output of user programs, \<open>tiny_libc/printf.c\<close>. It is an older state of the kernel's
  \<open>libs/printk.c\<close>, theory Printk: \<open>_putc\<close> is the same, the width is an eight-bit number and only
  pads numbers with zeros, and every number is divided as a signed one. The lemmas show on which
  format strings the two agree, so that the theorems about the kernel's formatting hold here.
\<close>

section \<open>Numbers\<close>

partial_function (option) user_itoa_loop :: "u32 \<Rightarrow> bool \<Rightarrow> u64 \<Rightarrow> region \<Rightarrow> nat \<Rightarrow> (region \<times> nat) option" where
  "user_itoa_loop radix uppercase v buffer p =
     (if radix = 0 then None
      else do {
        buffer1 \<leftarrow> store buffer p (itoa_char uppercase (sint v smod uint radix));
        let v1 = word_of_int (sint v sdiv uint radix);
        if 0 < sint v1 then user_itoa_loop radix uppercase v1 buffer1 (p + 1)
        else Some (buffer1, p + 1) })"

definition user_itoa :: "u64 \<Rightarrow> u32 \<Rightarrow> bool \<Rightarrow> bool \<Rightarrow> region \<Rightarrow> u32 \<Rightarrow> (u32 \<times> region) option" where
  "user_itoa v radix uppercase unsig buffer zero_pad =
     (if radix > 16 then Some (0, buffer)
      else do {
        let negative = (sint v < 0 \<and> \<not> unsig);
        (buffer1, p) \<leftarrow> user_itoa_loop radix uppercase (if negative then - v else v) buffer 0;
        buffer2 \<leftarrow> for_each (\<lambda>i r. store r i 0x30) [p..<unat zero_pad] buffer1;
        let q = max p (unat zero_pad);
        (buffer3, len) \<leftarrow> (if negative then do { b \<leftarrow> store buffer2 q 0x2d; Some (b, q + 1) } else Some (buffer2, q));
        buffer4 \<leftarrow> store buffer3 len 0;
        buffer5 \<leftarrow> reverse_bytes len buffer4;
        Some (of_nat len, buffer5) })"

section \<open>Format strings\<close>

definition user_puts :: "region \<Rightarrow> nat \<Rightarrow> u32 \<Rightarrow> mini_buff \<Rightarrow> mini_buff option" where
  "user_puts s q len b = do {
     let n = puts_len len b;
     r \<leftarrow> memcpy (out_bytes b) (out_pos b) s q n;
     r' \<leftarrow> store r (out_pos b + n) 0;
     Some (b\<lparr>out_bytes := r', out_pos := out_pos b + n\<rparr>) }"

text \<open>The width behind a zero: the character that ends it, the place behind it, the width.\<close>

partial_function (option) user_pad :: "region \<Rightarrow> nat \<Rightarrow> u8 \<Rightarrow> (u8 \<times> nat \<times> u8) option" where
  "user_pad fmt q zero_pad = do {
     ch \<leftarrow> load fmt q;
     if is_digit ch then user_pad fmt (q + 1) (zero_pad * 10 + ch - 0x30) else Some (ch, q + 1, zero_pad) }"

definition user_number :: "u8 \<Rightarrow> bool \<Rightarrow> u64 \<Rightarrow> u8 \<Rightarrow> mini_buff \<Rightarrow> mini_buff option" where
  "user_number ch longflag w zero_pad b = do {
     (len, bf) \<leftarrow>
       (if ch = 0x75 then user_itoa (va_long longflag False w) 10 False True itoa_buffer (ucast zero_pad)
        else if ch = 0x64 then user_itoa (va_long longflag True w) 10 False False itoa_buffer (ucast zero_pad)
        else user_itoa (va_long longflag False w) 16 (ch = 0x58) True itoa_buffer (ucast zero_pad));
     user_puts bf 0 len b }"

definition user_conversion ::
  "region \<Rightarrow> nat \<Rightarrow> va_arg list \<Rightarrow> mini_buff \<Rightarrow> (bool \<times> nat \<times> va_arg list \<times> mini_buff) option" where
  "user_conversion fmt q va b = do {
     ch0 \<leftarrow> load fmt q;
     (ch1, q1, zero_pad) \<leftarrow> (if ch0 = 0x30 then user_pad fmt (q + 1) 0 else Some (ch0, q + 1, 0));
     let longflag = (ch1 = 0x6c);
     (ch, q2) \<leftarrow> (if longflag then do { c \<leftarrow> load fmt q1; Some (c, q1 + 1) } else Some (ch1, q1));
     if ch = 0 then Some (True, q2, va, b)
     else if ch = 0x6c then Some (False, q2, va, b)
     else if ch = 0x75 \<or> ch = 0x64 \<or> ch = 0x78 \<or> ch = 0x58
     then (case va of Num w # va' \<Rightarrow> do { b' \<leftarrow> user_number ch longflag w zero_pad b; Some (False, q2, va', b') }
             | _ \<Rightarrow> None)
     else if ch = 0x63
     then (case va of Num w # va' \<Rightarrow> do { b' \<leftarrow> putc (ucast w) b; Some (False, q2, va', b') } | _ \<Rightarrow> None)
     else if ch = 0x73
     then (case va of Str r s # va' \<Rightarrow>
             do { n \<leftarrow> strlen r s; b' \<leftarrow> user_puts r s (of_nat n) b; Some (False, q2, va', b') } | _ \<Rightarrow> None)
     else do { b' \<leftarrow> putc ch b; Some (False, q2, va, b') } }"

partial_function (option) user_vsnprintf_loop :: "region \<Rightarrow> nat \<Rightarrow> va_arg list \<Rightarrow> mini_buff \<Rightarrow> mini_buff option" where
  "user_vsnprintf_loop fmt q va b = do {
     ch \<leftarrow> load fmt q;
     if ch = 0 \<or> out_full b then Some b
     else if ch \<noteq> 0x25 then do { b' \<leftarrow> putc ch b; user_vsnprintf_loop fmt (q + 1) va b' }
     else do {
       (ended, q', va', b') \<leftarrow> user_conversion fmt (q + 1) va b;
       if ended then Some b' else user_vsnprintf_loop fmt q' va' b' } }"

definition user_vsnprintf :: "region \<Rightarrow> u32 \<Rightarrow> region \<Rightarrow> va_arg list \<Rightarrow> (nat \<times> region) option" where
  "user_vsnprintf buffer buffer_len fmt va = do {
     b \<leftarrow> user_vsnprintf_loop fmt 0 va \<lparr>out_bytes = buffer, out_pos = 0, out_len = buffer_len\<rparr>;
     Some (out_pos b, out_bytes b) }"

text \<open>\<open>output\<close> stands for the calls \<open>sys_screen_write\<close> and \<open>sys_reflush\<close>.\<close>

definition vprintf :: "region \<Rightarrow> va_arg list \<Rightarrow> (region \<Rightarrow> 's \<Rightarrow> 's option) \<Rightarrow> 's \<Rightarrow> (nat \<times> 's) option" where
  "vprintf fmt va output s = do {
     (ret, buff) \<leftarrow> user_vsnprintf vprint_buffer 256 fmt va;
     buff' \<leftarrow> store buff ret 0;
     s' \<leftarrow> output buff' s;
     Some (ret, s') }"

section \<open>Numbers, compared\<close>

lemma user_itoa_loop_eq:
  assumes "2 \<le> unat radix" "0 \<le> sint v"
  shows "user_itoa_loop radix up v r p = itoa_loop radix up unsig v r p"
  using assms(2)
proof (induction "unat v" arbitrary: v r p rule: less_induct)
  case less
  have r: "radix \<noteq> 0" "0 < unat radix" using assms(1) by auto
  have f: "unsig \<or> 0 \<le> sint v" "False \<or> 0 \<le> sint v" using less.prems by simp_all
  note u = itoa_step [OF f(1) r(2)] and s = itoa_step [OF f(2) r(2)]
  define v1 where "v1 = (word_of_int (sint v sdiv uint radix) :: u64)"
  have v1: "v1 = itoa_next False radix v" "0 \<le> sint v1" using s(3) by (simp_all add: v1_def itoa_next_def)
  have n: "itoa_next unsig radix v = v1" using u(2) s(2) v1(1) by (simp add: word_unat_eq_iff)
  have d: "itoa_digit unsig radix v = sint v smod uint radix" using u(1) s(1) by (simp add: itoa_digit_def)
  have "sint v1 = 0 \<longleftrightarrow> v1 = 0" by (rule signed_eq_0_iff)
  then have pos: "0 < sint v1 \<longleftrightarrow> v1 \<noteq> 0" using v1(2) by auto
  show ?case
  proof (cases "v1 = 0")
    case True
    then show ?thesis using r pos by (subst user_itoa_loop.simps, subst itoa_loop.simps) (simp add: v1_def [symmetric] n d)
  next
    case False
    have q: "unat v1 = unat v div unat radix" using s(2) v1(1) by simp
    then have "0 < unat v" using False by (cases "v = 0") (simp_all add: unat_gt_0 unat_eq_zero)
    then have "unat v1 < unat v" unfolding q using assms(1) by (intro div_less_dividend) simp_all
    then have "user_itoa_loop radix up v1 = itoa_loop radix up unsig v1"
      using less.hyps [of v1] v1(2) by (intro ext) simp
    then show ?thesis using r pos False
      by (subst user_itoa_loop.simps, subst itoa_loop.simps) (simp add: v1_def [symmetric] n d)
  qed
qed

lemma user_itoa_eq:
  assumes "2 \<le> unat radix" "if unsig then 0 \<le> sint v else sint v \<noteq> - 9223372036854775808"
  shows "user_itoa v radix up unsig r n = mini_itoa v radix up unsig r n 0x30"
proof -
  have "0 \<le> sint (if sint v < 0 \<and> \<not> unsig then - v else v)"
    using assms(2) sint_uminus64 [of v] by (auto split: if_splits)
  note e = user_itoa_loop_eq [OF assms(1) this, of up r 0 unsig]
  show ?thesis unfolding user_itoa_def mini_itoa_def Let_def e itoa_pad_def ..
qed

lemma user_puts_eq: "user_puts s q len b = puts (Some (s, q)) len b"
  by (simp add: user_puts_def puts_def)

section \<open>Format strings on which the two agree\<close>

lemma ucast_byte:
  "(ucast (a + b) :: u8) = ucast a + ucast b" "(ucast (a * b) :: u8) = ucast a * ucast b"
  "(ucast (a - b) :: u8) = ucast a - ucast b" for a b :: u32
  by (simp_all add: word_uint_eq_iff unsigned_ucast_eq uint_word_ariths take_bit_eq_mod mod_mod_cancel mod_simps)

lemma width_byte: "(ucast (k * 10 + ucast ch - 0x30 :: u32) :: u8) = ucast k * 10 + ch - 0x30" for k :: u32 and ch :: u8
  proof -
  have "(ucast (ucast ch :: u32) :: u8) = ch" by (rule bit_word_eqI) (simp add: bit_simps)
  then show ?thesis by (simp only: ucast_byte) simp
qed

lemma user_pad_result:
  "cstr fmt q cs \<Longrightarrow> user_pad fmt q (ucast k) =
     Some (case dropWhile is_digit cs of [] \<Rightarrow> 0 | c # _ \<Rightarrow> c, q + length (takeWhile is_digit cs) + 1,
       ucast (foldl (\<lambda>n ch. n * 10 + ucast ch - 0x30) (k :: u32) (takeWhile is_digit cs)))"
proof (induction cs arbitrary: q k)
  case Nil
  then show ?case by (subst user_pad.simps) (simp add: load_def is_digit_def)
next
  case (Cons c cs)
  then show ?case by (subst user_pad.simps) (simp add: load_def flip: width_byte)
qed

text \<open>A width starts with a zero, is below 256 and does not stand before a string; no number with the
  highest bit set is written without a sign.\<close>

definition agree :: "u8 list \<Rightarrow> va_arg list \<Rightarrow> bool" where
  "agree cs va \<longleftrightarrow>
     (let ds = takeWhile is_digit cs;
          n_pad = pad_width ds;
          cs1 = dropWhile is_digit cs;
          longflag = (cs1 \<noteq> [] \<and> hd cs1 = 0x6c);
          cs2 = (if longflag then tl cs1 else cs1)
      in (ds \<noteq> [] \<longrightarrow> hd ds = 0x30) \<and> n_pad < 256
         \<and> (\<forall>ch cs' w va'. cs2 = ch # cs' \<longrightarrow> va = Num w # va' \<longrightarrow> ch \<in> {0x75, 0x78, 0x58} \<longrightarrow> 0 \<le> sint (va_long longflag False w))
         \<and> (\<forall>cs'. cs2 = 0x73 # cs' \<longrightarrow> n_pad = 0))"

lemma user_number_eq:
  assumes "number_fits ch longflag w n_pad" "n_pad < 256" "ch \<in> {0x75, 0x64, 0x78, 0x58}"
    "ch \<noteq> 0x64 \<Longrightarrow> 0 \<le> sint (va_long longflag False w)"
  shows "user_number ch longflag w (ucast n_pad) b = put_number ch longflag w n_pad 0x30 b"
proof -
  have p: "ucast (ucast n_pad :: u8) = n_pad"
    using assms(2) by (simp add: word_unat_eq_iff unsigned_ucast_eq unsigned_take_bit_eq take_bit_nat_eq_self word_less_nat_alt)
  have u: "2 \<le> unat (10 :: u32)" "2 \<le> unat (16 :: u32)" by simp_all
  have d: "ch = 0x64 \<Longrightarrow> sint (va_long longflag True w) \<noteq> - 9223372036854775808"
    using assms(1) by (simp add: number_fits_def)
  have "ch = 0x64 \<Longrightarrow> user_itoa (va_long longflag True w) 10 up False r n_pad = mini_itoa (va_long longflag True w) 10 up False r n_pad 0x30"
    for up r by (rule user_itoa_eq [OF u(1)]) (simp add: d)
  moreover have "ch \<noteq> 0x64 \<Longrightarrow> user_itoa (va_long longflag False w) radix up True r n_pad =
      mini_itoa (va_long longflag False w) radix up True r n_pad 0x30" if "radix = 10 \<or> radix = 16" for radix up r
    by (rule user_itoa_eq) (use that assms(4) in auto)
  ultimately show ?thesis using assms(3) by (auto simp: user_number_def put_number_def p user_puts_eq)
qed

lemma no_width: "put_number ch longflag w 0 c b = put_number ch longflag w 0 c' b"
  by (simp add: put_number_def mini_itoa_def itoa_pad_def)

lemma user_conversion_eq:
  assumes f: "cstr fmt q cs" and fits: "conversion_fits cs va" and a: "agree cs va"
  shows "user_conversion fmt q va b = conversion fmt q va b"
proof -
  define ds where "ds = takeWhile is_digit cs"
  define n_pad where "n_pad = pad_width ds"
  define cs1 where "cs1 = dropWhile is_digit cs"
  define longflag where "longflag \<longleftrightarrow> cs1 \<noteq> [] \<and> hd cs1 = 0x6c"
  define cs2 where "cs2 = (if longflag then tl cs1 else cs1)"
  let ?hd = "\<lambda>cs :: u8 list. case cs of [] \<Rightarrow> 0 | c # _ \<Rightarrow> c"
  define q1 where "q1 = q + length ds + 1"
  note A = a [unfolded agree_def Let_def, folded ds_def cs1_def, folded n_pad_def longflag_def, folded cs2_def]
  obtain ch0 where ch0: "load fmt q = Some ch0" "ch0 = ?hd cs" using f by (cases cs) (simp_all add: load_def)
  have zero: "is_digit ch0 \<longleftrightarrow> ch0 = 0x30" "ch0 = 0x30 \<longleftrightarrow> ds \<noteq> []"
    using ch0(2) A by (cases cs; auto simp: ds_def is_digit_def)+
  have kern: "(if is_digit ch0 then pad_scan fmt q 0 else Some (ch0, q + 1, 0)) = Some (?hd cs1, q1, n_pad)"
  proof (cases "is_digit ch0")
    case True
    then show ?thesis by (simp add: pad_scan_result [OF f] cs1_def q1_def n_pad_def pad_width_def ds_def)
  next
    case False
    then have "ds = []" "cs1 = cs" using ch0(2) by (cases cs; simp add: cs1_def ds_def)+
    then show ?thesis using False ch0(2) by (simp add: q1_def n_pad_def pad_width_def)
  qed
  have user: "(if ch0 = 0x30 then user_pad fmt (q + 1) 0 else Some (ch0, q + 1, 0)) = Some (?hd cs1, q1, ucast n_pad)"
  proof (cases "ch0 = 0x30")
    case True
    then obtain es where es: "cs = 0x30 # es" using zero(2) ch0(2) by (cases cs) (simp_all add: ds_def)
    then have "cstr fmt (q + 1) es" using f by simp
    from user_pad_result [OF this, of 0] True es show ?thesis
      by (simp add: cs1_def q1_def n_pad_def pad_width_def ds_def is_digit_def)
  next
    case False
    then have "\<not> is_digit ch0" using zero(1) by simp
    then have "ds = []" "cs1 = cs" using ch0(2) by (cases cs; simp add: cs1_def ds_def)+
    then show ?thesis using False ch0(2) by (simp add: q1_def n_pad_def pad_width_def)
  qed
  have cp: "(if ch0 = 0x30 then 0x30 else 0x20) = (if ds \<noteq> [] then 0x30 else 0x20 :: u8)" using zero(2) by simp
  have np: "ds = [] \<Longrightarrow> n_pad = 0" by (simp add: n_pad_def pad_width_def)
  have c1: "cs1 = c # es \<Longrightarrow> cstr fmt q1 es" for c es
    unfolding cs1_def q1_def ds_def using cstr_drop(2) [OF f, of is_digit c es] by simp
  have lf: "(?hd cs1 = 0x6c) = longflag" by (cases cs1) (simp_all add: longflag_def)
  obtain q2 where q2: "(if longflag then do { c \<leftarrow> load fmt q1; Some (c, q1 + 1) } else Some (?hd cs1, q1)) = Some (?hd cs2, q2)"
  proof (cases longflag)
    case True
    then obtain es where es: "cs1 = 0x6c # es" unfolding longflag_def by (cases cs1) auto
    have "load fmt q1 = Some (?hd es)" using c1 [OF es] by (cases es) (simp_all add: load_def)
    then show ?thesis using True es that by (simp add: cs2_def)
  qed (use that in \<open>simp add: cs2_def\<close>)
  note K = conversion_def [of fmt q va b, unfolded ch0(1) bind.bind_lunit kern prod.case Let_def lf q2 cp]
  note U = user_conversion_def [of fmt q va b, unfolded ch0(1) bind.bind_lunit user prod.case Let_def lf q2]
  note fits' = fits [unfolded conversion_fits_def Let_def, folded ds_def cs1_def, folded n_pad_def longflag_def, folded cs2_def]
  show ?thesis
  proof (cases cs2)
    case Nil
    then show ?thesis unfolding K U by simp
  next
    case (Cons ch es)
    have cq: "(cs \<noteq> [] \<and> hd cs = 0x30) \<longleftrightarrow> ds \<noteq> []" using zero(2) ch0(2) by (cases cs) simp_all
    have c30: "put_number ch longflag w n_pad (if ds \<noteq> [] then 0x30 else 0x20) b = put_number ch longflag w n_pad 0x30 b"
      for w using np no_width [of ch longflag w "0x20" b "0x30"] by simp_all
    have num: "user_number ch longflag w (ucast n_pad) b = put_number ch longflag w n_pad 0x30 b"
      if "ch \<in> {0x75, 0x64, 0x78, 0x58}" "va = Num w # va''" for w va''
    proof (rule user_number_eq [OF _ _ that(1)])
      show "number_fits ch longflag w n_pad" using fits' that Cons by auto
      show "n_pad < 256" using A by blast
      show "0 \<le> sint (va_long longflag False w)" if "ch \<noteq> 0x64"
        using A Cons \<open>va = Num w # va''\<close> \<open>ch \<in> _\<close> that by blast
    qed
    have str: "n_pad = 0" if "ch = 0x73" using A Cons that by blast
    have num': "user_number ch longflag w (ucast n_pad) b = put_number ch longflag w n_pad 0x30 b"
      if "ch = 0x75 \<or> ch = 0x64 \<or> ch = 0x78 \<or> ch = 0x58" "va = Num w # va''" for w va''
      using num [of w va''] that by blast
    show ?thesis
    proof (cases "ch = 0x75 \<or> ch = 0x64 \<or> ch = 0x78 \<or> ch = 0x58")
      case True
      show ?thesis unfolding K U Cons list.case c30 if_P [OF True]
        using num' [OF True] by (simp split: list.split va_arg.split)
    next
      case False
      show ?thesis unfolding K U Cons list.case if_not_P [OF False]
        by (simp add: str put_string_def user_puts_eq split: list.split va_arg.split)
    qed
  qed
qed

function agree_format :: "u8 list \<Rightarrow> va_arg list \<Rightarrow> bool" where
  "agree_format [] va = True"
| "agree_format (c # cs) va =
     (if c \<noteq> 0x25 then agree_format cs va
      else agree cs va \<and> (case conversion_text cs va of None \<Rightarrow> True | Some (t, cs', va') \<Rightarrow> agree_format cs' va'))"
  by pat_completeness auto
termination by (relation "measure (\<lambda>(cs, va). length cs)") (auto dest: conversion_text_shorter)

lemma user_loop_eq:
  "cstr fmt q cs \<Longrightarrow> format_text cs va = Some out \<Longrightarrow> agree_format cs va \<Longrightarrow> numbers_fit cs va \<Longrightarrow> holds buffer n xs b \<Longrightarrow>
   user_vsnprintf_loop fmt q va b = vsnprintf_loop fmt q va b"
proof (induction cs va arbitrary: q xs b out rule: format_text.induct)
  case (1 va)
  then show ?case by (subst user_vsnprintf_loop.simps, subst vsnprintf_loop.simps) (simp add: load_def)
next
  case (2 c cs va)
  have l: "load fmt q = Some c" "c \<noteq> 0" and f: "cstr fmt (q + 1) cs" using "2.prems"(1) by (simp_all add: load_def)
  note unroll = user_vsnprintf_loop.simps [of fmt q va b] vsnprintf_loop.simps [of fmt q va b]
  show ?case
  proof (cases "out_full b")
    case True
    then show ?thesis using l by (simp add: unroll)
  next
    case nf: False
    show ?thesis
    proof (cases "c = 0x25")
      case False
      obtain o' where o': "format_text cs va = Some o'" using "2.prems"(2) False by auto
      have a: "agree_format cs va" "numbers_fit cs va" using "2.prems"(3,4) False by simp_all
      obtain b1 where b1: "putc c b = Some b1" "holds buffer n (take (unat n - 1) (xs @ [c])) b1"
        by (rule putc_result [OF "2.prems"(5)])
      from "2.IH"(1) [OF False f o' a b1(2)] show ?thesis using b1(1) l nf False by (simp add: unroll)
    next
      case True
      obtain t cs' va' o' where t: "conversion_text cs va = Some (t, cs', va')" "format_text cs' va' = Some o'"
        using "2.prems"(2) True by (auto split: option.splits prod.splits)
      have a: "agree cs va" "agree_format cs' va'" "conversion_fits cs va" "numbers_fit cs' va'"
        using "2.prems"(3,4) True t(1) by simp_all
      obtain ended q' b1 where b1: "conversion fmt (q + 1) va b = Some (ended, q', va', b1)"
        "holds buffer n (take (unat n - 1) (xs @ t)) b1" "if ended then cs' = [] else cstr fmt q' cs'"
        by (rule conversion_result [OF f t(1) a(3) "2.prems"(5)])
      have u: "user_conversion fmt (q + 1) va b = Some (ended, q', va', b1)"
        using user_conversion_eq [OF f a(3,1)] b1(1) by simp
      show ?thesis
      proof (cases ended)
        case True
        then show ?thesis using b1(1) u l nf \<open>c = 0x25\<close> by (simp add: unroll)
      next
        case False
        have f': "cstr fmt q' cs'" and nc: "\<not> c \<noteq> 0x25" using b1(3) False True by simp_all
        from "2.IH"(2) [OF nc t(1) refl refl f' t(2) a(2,4) b1(2)] show ?thesis
          using b1(1) u l nf False True by (simp add: unroll)
      qed
    qed
  qed
qed

lemma user_vsnprintf_eq:
  assumes "cstr fmt 0 cs" "format_text cs va = Some out" "agree_format cs va" "numbers_fit cs va" "0 < n" "unat n \<le> rsize buffer"
  shows "user_vsnprintf buffer n fmt va = mini_vsnprintf buffer n fmt va"
proof -
  have "0 < unat n" using assms(5) by (simp add: unat_gt_0)
  then have "holds buffer n [] \<lparr>out_bytes = buffer, out_pos = 0, out_len = n\<rparr>" using assms(6) by (simp add: holds_def)
  from user_loop_eq [OF assms(1-4) this] show ?thesis by (simp add: user_vsnprintf_def mini_vsnprintf_def)
qed

section \<open>The property\<close>

text \<open>A number with the highest bit set: one character, below the digits.\<close>

lemma user_itoa_high:
  "user_itoa 0x8000000000000000 10 False True itoa_buffer 0 = Some (1, with_prefix itoa_buffer [0x28, 0])"
proof -
  have l: "user_itoa_loop 10 False 0x8000000000000000 itoa_buffer 0 = Some (with_prefix itoa_buffer [0x28], 1)"
    using with_prefix_store [of "[]" itoa_buffer "0x28"]
    by (subst user_itoa_loop.simps) (simp add: itoa_char_def itoa_buffer_def signed_modulo_int_def signed_divide_int_def)
  have "store (with_prefix itoa_buffer [0x28]) 1 0 = Some (with_prefix itoa_buffer ([0x28] @ [0]))"
    using with_prefix_store [of "[0x28]" itoa_buffer 0] by (simp add: itoa_buffer_def)
  then show ?thesis using reverse_bytes_prefix [of "[0x28]" "[0]" itoa_buffer]
    by (simp add: user_itoa_def l) (simp add: itoa_buffer_def)
qed

text \<open>(C39) \<open>vprintf\<close> of the user library and \<open>_vprint\<close> of the kernel print the same: for a format string
  that is followed by matching arguments, whose widths start with a zero, are below 256 and stand before
  numbers only, whose unsigned numbers are below 2 to the 63, and each of whose numbers has a text of less than 24
  bytes (sign, padding and digits; the buffer of both has 24 with the terminator, and \<open>%030d\<close> runs over it) and is not the
  most negative \<open>long\<close> under \<open>%ld\<close>, both hand the first 255 bytes of the
  formatted text, terminated, to their output function, and return their number.\<close>

theorem printf_agrees:
  assumes "cstr fmt 0 cs" "format_text cs va = Some out" "agree_format cs va" "numbers_fit cs va"
  shows "vprintf fmt va output s = vprint fmt va output s
    \<and> (\<exists>r. vprintf fmt va output s = map_option (Pair (min 255 (length out))) (output r s)
         \<and> (\<forall>i < min 255 (length out). rbyte r i = out ! i) \<and> rbyte r (min 255 (length out)) = 0)"
proof -
  have "user_vsnprintf vprint_buffer 256 fmt va = mini_vsnprintf vprint_buffer 256 fmt va"
    by (rule user_vsnprintf_eq [OF assms]) (simp_all add: vprint_buffer_def)
  then have e: "vprintf fmt va output s = vprint fmt va output s" by (simp add: vprintf_def vprint_def)
  obtain r where "vprint fmt va output s = map_option (Pair (length (take 255 out))) (output r s)"
    "\<And>i. i < length (take 255 out) \<Longrightarrow> rbyte r i = out ! i" "rbyte r (length (take 255 out)) = 0"
    by (rule vprint_result [OF assms(1,2,4)]) (rule that)
  then show ?thesis using e by (intro conjI exI [of _ r]) (simp_all add: min.commute)
qed

text \<open>The format \<open>%02x-%d\<close> with the arguments 10 and -7.\<close>

theorem printf_agrees_witness:
  "\<exists>r. vprintf (str (ascii ''%02x-%d'')) [Num 10, Num (-7)] (\<lambda>r s. Some r) itoa_buffer = Some (5, r) \<and> rbyte r 1 = 0x61 \<and> rbyte r 3 = 0x2d"
proof -
  let ?fmt = "[0x25, 0x30, 0x32, 0x78, 0x2d, 0x25, 0x64] :: u8 list" and ?va = "[Num 10, Num (-7)]"
  have fmt: "ascii ''%02x-%d'' = ?fmt" by (simp add: ascii_def)
  have c: "cstr (str ?fmt) 0 ?fmt" by (rule str_cstr) simp
  have n: "digits 10 7 = [7]" "digits 16 10 = [10]" by (simp_all add: digits.simps)
  have v: "va_long False True (-7) = -7" "va_long False False 10 = 10" by code_simp+
  have f: "format_text ?fmt ?va = Some [0x30, 0x61, 0x2d, 0x2d, 0x37]"
    by (simp add: conversion_text_def Let_def is_digit_def pad_width_def number_spec_def number_text_def digits_text_def
        v n itoa_char_def)
  have a: "agree_format ?fmt ?va"
    by (simp add: agree_def conversion_text_def Let_def is_digit_def pad_width_def number_spec_def number_text_def digits_text_def
        v n itoa_char_def)
  have "numbers_fit ?fmt ?va"
    by (simp add: conversion_fits_def number_fits_def conversion_text_def Let_def is_digit_def pad_width_def number_spec_def
        number_text_def digits_text_def v n itoa_char_def)
  note P = printf_agrees [OF c f a this, of "\<lambda>r s. Some r" itoa_buffer]
  have m: "min 255 (length ([0x30, 0x61, 0x2d, 0x2d, 0x37] :: u8 list)) = 5" by simp
  from P [unfolded m] obtain r where
    "vprintf (str ?fmt) ?va (\<lambda>r s. Some r) itoa_buffer = map_option (Pair 5) (Some r)"
    "\<forall>i < 5. rbyte r i = [0x30, 0x61, 0x2d, 0x2d, 0x37] ! i"
    by blast
  then show ?thesis unfolding fmt by (intro exI [of _ r]) simp
qed

end
