(* ===== verification/Firmware.thy ===== *)
theory Firmware
  imports Prelude
begin

text \<open>
  The way from the kernel to the firmware: the wrappers of \<open>arch/riscv/bios/common.c\<close> around
  \<open>call_bios\<close>, the jump table that \<open>init_jmptab\<close> of \<open>init/main.c\<close> fills, and the calls through it
  of \<open>include/os/kernel.h\<close>. A call of the firmware is a value: its number and its arguments; what
  the firmware does is not part of the program. The lemmas show which call each function ends in,
  and that an address or a count is cut to 32 bits and a character to eight on the way.
\<close>

section \<open>Calls of the firmware\<close>

datatype firmware_call = Firmware (fw_number: u64) (fw_arguments: "u64 list")

definition call_bios :: "u64 \<Rightarrow> u64 \<Rightarrow> u64 \<Rightarrow> u64 \<Rightarrow> u64 \<Rightarrow> u64 \<Rightarrow> firmware_call" where
  "call_bios which arg0 arg1 arg2 arg3 arg4 = Firmware which [arg0, arg1, arg2, arg3, arg4]"

definition BIOS_SETTIMER :: u64 where "BIOS_SETTIMER = 0"
definition BIOS_PUTCHAR :: u64 where "BIOS_PUTCHAR = 1"
definition BIOS_GETCHAR :: u64 where "BIOS_GETCHAR = 2"
definition BIOS_SEND_IPI :: u64 where "BIOS_SEND_IPI = 4"
definition BIOS_PUTSTR :: u64 where "BIOS_PUTSTR = 9"
definition BIOS_SDWRITE :: u64 where "BIOS_SDWRITE = 10"
definition BIOS_SDREAD :: u64 where "BIOS_SDREAD = 11"
definition BIOS_FDTREAD :: u64 where "BIOS_FDTREAD = 12"
definition BIOS_LOGGING :: u64 where "BIOS_LOGGING = 14"

definition port_write_ch :: "u8 \<Rightarrow> firmware_call" where
  "port_write_ch ch = call_bios BIOS_PUTCHAR (ucast ch) 0 0 0 0"

definition port_write :: "u64 \<Rightarrow> firmware_call" where
  "port_write s = call_bios BIOS_PUTSTR s 0 0 0 0"

definition port_read_ch :: firmware_call where
  "port_read_ch = call_bios BIOS_GETCHAR 0 0 0 0 0"

definition sd_read_call :: "u32 \<Rightarrow> u32 \<Rightarrow> u32 \<Rightarrow> firmware_call" where
  "sd_read_call mem_address num_of_blocks block_id =
     call_bios BIOS_SDREAD (ucast mem_address) (ucast num_of_blocks) (ucast block_id) 0 0"

definition sd_write_call :: "u32 \<Rightarrow> u32 \<Rightarrow> u32 \<Rightarrow> firmware_call" where
  "sd_write_call mem_address num_of_blocks block_id =
     call_bios BIOS_SDWRITE (ucast mem_address) (ucast num_of_blocks) (ucast block_id) 0 0"

definition set_timer :: "u64 \<Rightarrow> firmware_call" where
  "set_timer stime_value = call_bios BIOS_SETTIMER stime_value 0 0 0 0"

datatype fdt_type = TIMEBASE | SLCR_BADE_ADDR | ETHERNET_ADDR | PLIC_ADDR | NR_IRQS

fun fdt_number :: "fdt_type \<Rightarrow> u32" where
  "fdt_number TIMEBASE = 0" | "fdt_number SLCR_BADE_ADDR = 1" | "fdt_number ETHERNET_ADDR = 2"
| "fdt_number PLIC_ADDR = 3" | "fdt_number NR_IRQS = 4"

definition read_fdt :: "u32 \<Rightarrow> firmware_call" where
  "read_fdt type = call_bios BIOS_FDTREAD (ucast type) 0 0 0 0"

definition qemu_logging :: "u64 \<Rightarrow> firmware_call" where
  "qemu_logging s = call_bios BIOS_LOGGING s 0 0 0 0"

definition send_ipi :: "u64 \<Rightarrow> firmware_call" where
  "send_ipi hart_mask = call_bios BIOS_SEND_IPI hart_mask 0 0 0 0"

text \<open>\<open>mask_at\<close> is the address of the local constant 2.\<close>

definition wakeup_other_hart :: "u64 \<Rightarrow> firmware_call" where
  "wakeup_other_hart mask_at = send_ipi mask_at"

section \<open>The jump table\<close>

datatype routine = Port_write | Port_write_ch | Port_read_ch | Sd_read | Sd_write | Qemu_logging | Set_timer | Read_fdt
  | Screen_move_cursor | Printk | Do_scheduler | Do_mutex_lock_init | Do_mutex_lock_acquire | Do_mutex_lock_release
  | Screen_reflush

definition CONSOLE_PUTSTR :: nat where "CONSOLE_PUTSTR = 0"
definition CONSOLE_PUTCHAR :: nat where "CONSOLE_PUTCHAR = 1"
definition CONSOLE_GETCHAR :: nat where "CONSOLE_GETCHAR = 2"
definition SD_READ :: nat where "SD_READ = 3"
definition SD_WRITE :: nat where "SD_WRITE = 4"
definition QEMU_LOGGING :: nat where "QEMU_LOGGING = 5"
definition SET_TIMER :: nat where "SET_TIMER = 6"
definition READ_FDT :: nat where "READ_FDT = 7"
definition MOVE_CURSOR :: nat where "MOVE_CURSOR = 8"
definition PRINT :: nat where "PRINT = 9"
definition YIELD :: nat where "YIELD = 10"
definition MUTEX_INIT :: nat where "MUTEX_INIT = 11"
definition MUTEX_ACQ :: nat where "MUTEX_ACQ = 12"
definition MUTEX_RELEASE :: nat where "MUTEX_RELEASE = 13"
definition SYSCALL_REFLUSH :: nat where "SYSCALL_REFLUSH = 23"

definition jmptab_entries :: "(nat \<times> routine) list" where
  "jmptab_entries = [(CONSOLE_PUTSTR, Port_write), (CONSOLE_PUTCHAR, Port_write_ch), (CONSOLE_GETCHAR, Port_read_ch),
     (SD_READ, Sd_read), (SD_WRITE, Sd_write), (QEMU_LOGGING, Qemu_logging), (SET_TIMER, Set_timer), (READ_FDT, Read_fdt),
     (MOVE_CURSOR, Screen_move_cursor), (PRINT, Printk), (YIELD, Do_scheduler), (MUTEX_INIT, Do_mutex_lock_init),
     (MUTEX_ACQ, Do_mutex_lock_acquire), (MUTEX_RELEASE, Do_mutex_lock_release), (SYSCALL_REFLUSH, Screen_reflush)]"

definition init_jmptab :: "(nat \<Rightarrow> routine option) \<Rightarrow> nat \<Rightarrow> routine option" where
  "init_jmptab jmptab = fold (\<lambda>(i, f) t. t(i := Some f)) jmptab_entries jmptab"

text \<open>The routine that a call enters, with the words in the argument registers.\<close>

definition call_jmptab :: "(nat \<Rightarrow> routine option) \<Rightarrow> nat \<Rightarrow> u64 \<Rightarrow> u64 \<Rightarrow> u64 \<Rightarrow> u64 \<Rightarrow> u64 \<Rightarrow> (routine \<times> u64 list) option" where
  "call_jmptab jmptab which arg0 arg1 arg2 arg3 arg4 =
     map_option (\<lambda>f. (f, [arg0, arg1, arg2, arg3, arg4])) (jmptab which)"

definition bios_putstr_call :: "(nat \<Rightarrow> routine option) \<Rightarrow> u64 \<Rightarrow> (routine \<times> u64 list) option" where
  "bios_putstr_call jmptab s = call_jmptab jmptab CONSOLE_PUTSTR s 0 0 0 0"

definition bios_putchar_call :: "(nat \<Rightarrow> routine option) \<Rightarrow> u32 \<Rightarrow> (routine \<times> u64 list) option" where
  "bios_putchar_call jmptab ch = call_jmptab jmptab CONSOLE_PUTCHAR (scast ch) 0 0 0 0"

definition bios_getchar :: "(nat \<Rightarrow> routine option) \<Rightarrow> (routine \<times> u64 list) option" where
  "bios_getchar jmptab = call_jmptab jmptab CONSOLE_GETCHAR 0 0 0 0 0"

definition bios_sd_read :: "(nat \<Rightarrow> routine option) \<Rightarrow> u32 \<Rightarrow> u32 \<Rightarrow> u32 \<Rightarrow> (routine \<times> u64 list) option" where
  "bios_sd_read jmptab mem_address num_of_blocks block_id =
     call_jmptab jmptab SD_READ (ucast mem_address) (ucast num_of_blocks) (ucast block_id) 0 0"

definition bios_sd_write :: "(nat \<Rightarrow> routine option) \<Rightarrow> u32 \<Rightarrow> u32 \<Rightarrow> u32 \<Rightarrow> (routine \<times> u64 list) option" where
  "bios_sd_write jmptab mem_address num_of_blocks block_id =
     call_jmptab jmptab SD_WRITE (ucast mem_address) (ucast num_of_blocks) (ucast block_id) 0 0"

definition bios_logging :: "(nat \<Rightarrow> routine option) \<Rightarrow> u64 \<Rightarrow> (routine \<times> u64 list) option" where
  "bios_logging jmptab s = call_jmptab jmptab QEMU_LOGGING s 0 0 0 0"

definition bios_set_timer :: "(nat \<Rightarrow> routine option) \<Rightarrow> u64 \<Rightarrow> (routine \<times> u64 list) option" where
  "bios_set_timer jmptab stime_value = call_jmptab jmptab SET_TIMER stime_value 0 0 0 0"

definition bios_read_fdt :: "(nat \<Rightarrow> routine option) \<Rightarrow> fdt_type \<Rightarrow> (routine \<times> u64 list) option" where
  "bios_read_fdt jmptab type = call_jmptab jmptab READ_FDT (ucast (fdt_number type)) 0 0 0 0"

section \<open>Where the calls end\<close>

text \<open>The routines of \<open>bios/common.c\<close> on the argument registers, which they read at their own widths.\<close>

fun enter :: "routine \<Rightarrow> u64 list \<Rightarrow> firmware_call option" where
  "enter Port_write (a # _) = Some (port_write a)"
| "enter Port_write_ch (a # _) = Some (port_write_ch (ucast a))"
| "enter Port_read_ch _ = Some port_read_ch"
| "enter Sd_read (a # b # c # _) = Some (sd_read_call (ucast a) (ucast b) (ucast c))"
| "enter Sd_write (a # b # c # _) = Some (sd_write_call (ucast a) (ucast b) (ucast c))"
| "enter Qemu_logging (a # _) = Some (qemu_logging a)"
| "enter Set_timer (a # _) = Some (set_timer a)"
| "enter Read_fdt (a # _) = Some (read_fdt (ucast a))"
| "enter _ _ = None"

definition firmware_of :: "(routine \<times> u64 list) option \<Rightarrow> firmware_call option" where
  "firmware_of c = (case c of None \<Rightarrow> None | Some (f, args) \<Rightarrow> enter f args)"

lemmas jmptab_numbers = CONSOLE_PUTSTR_def CONSOLE_PUTCHAR_def CONSOLE_GETCHAR_def SD_READ_def SD_WRITE_def
  QEMU_LOGGING_def SET_TIMER_def READ_FDT_def MOVE_CURSOR_def PRINT_def YIELD_def MUTEX_INIT_def MUTEX_ACQ_def
  MUTEX_RELEASE_def SYSCALL_REFLUSH_def

lemma init_jmptab_entry: "(i, f) \<in> set jmptab_entries \<Longrightarrow> init_jmptab t i = Some f"
  by (auto simp: init_jmptab_def jmptab_entries_def jmptab_numbers)

lemma jmptab_slot:
  "init_jmptab t CONSOLE_PUTSTR = Some Port_write" "init_jmptab t CONSOLE_PUTCHAR = Some Port_write_ch"
  "init_jmptab t CONSOLE_GETCHAR = Some Port_read_ch" "init_jmptab t SD_READ = Some Sd_read"
  "init_jmptab t SD_WRITE = Some Sd_write" "init_jmptab t QEMU_LOGGING = Some Qemu_logging"
  "init_jmptab t SET_TIMER = Some Set_timer" "init_jmptab t READ_FDT = Some Read_fdt"
  by (rule init_jmptab_entry, simp add: jmptab_entries_def)+

lemma ucast_back: "ucast (ucast w :: u64) = w" for w :: u32
  by (rule bit_word_eqI) (simp add: bit_simps)

text \<open>Through the table, each call ends in the wrapper of its name.\<close>

lemma jmptab_calls:
  "firmware_of (bios_putstr_call (init_jmptab t) s) = Some (port_write s)"
  "firmware_of (bios_putchar_call (init_jmptab t) ch) = Some (port_write_ch (ucast ch))"
  "firmware_of (bios_getchar (init_jmptab t)) = Some port_read_ch"
  "firmware_of (bios_sd_read (init_jmptab t) m n b) = Some (sd_read_call m n b)"
  "firmware_of (bios_sd_write (init_jmptab t) m n b) = Some (sd_write_call m n b)"
  "firmware_of (bios_logging (init_jmptab t) s) = Some (qemu_logging s)"
  "firmware_of (bios_set_timer (init_jmptab t) v) = Some (set_timer v)"
  "firmware_of (bios_read_fdt (init_jmptab t) ty) = Some (read_fdt (fdt_number ty))"
proof -
  have "(ucast (scast ch :: u64) :: u8) = ucast ch" by (rule bit_word_eqI) (auto simp: bit_simps)
  then show "firmware_of (bios_putchar_call (init_jmptab t) ch) = Some (port_write_ch (ucast ch))"
    by (simp add: firmware_of_def bios_putchar_call_def call_jmptab_def jmptab_slot)
qed (simp_all add: firmware_of_def call_jmptab_def jmptab_slot ucast_back bios_putstr_call_def bios_getchar_def
    bios_sd_read_def bios_sd_write_def bios_logging_def bios_set_timer_def bios_read_fdt_def)

end
