(* ===== verification/Shell.thy ===== *)
theory Shell
  imports CString
begin

text \<open>
  The paths of the shell, \<open>test/shell.c\<close>: \<open>cd\<close> puts its argument behind the current path, unless it
  is absolute, removes the \<open>..\<close> parts with \<open>remove_dot_dot\<close> and a slash at the end, and hands the
  result to the kernel. \<open>remove_dot_dot\<close> works in place with two offsets, one that reads and one that
  writes. A path is a list of parts, each with a slash in front of it.
\<close>

section \<open>The code\<close>

definition remove_last_slash :: "region \<Rightarrow> region option" where
  "remove_last_slash path = do {
     len \<leftarrow> strlen path 0;
     if 1 < len
     then do { c \<leftarrow> load path (len - 1); if c = 0x2f then store path (len - 1) 0 else Some path }
     else Some path }"

text \<open>The test for \<open>/..\<close> and its end, which reads no further than it has to.\<close>

definition dot_dot_at :: "region \<Rightarrow> nat \<Rightarrow> bool option" where
  "dot_dot_at path i = do {
     c0 \<leftarrow> load path i;
     if c0 \<noteq> 0x2f then Some False
     else do {
       c1 \<leftarrow> load path (i + 1);
       if c1 \<noteq> 0x2e then Some False
       else do {
         c2 \<leftarrow> load path (i + 2);
         if c2 \<noteq> 0x2e then Some False
         else do { c3 \<leftarrow> load path (i + 3); Some (c3 = 0x2f \<or> c3 = 0) } } } }"

fun back_up :: "region \<Rightarrow> nat \<Rightarrow> nat option" where
  "back_up path j =
     (if 0 < j then do { c \<leftarrow> load path j; if c \<noteq> 0x2f then back_up path (j - 1) else Some j } else Some j)"

declare back_up.simps [simp del]

function dot_dot_loop :: "nat \<Rightarrow> region \<Rightarrow> nat \<Rightarrow> nat \<Rightarrow> (region \<times> nat) option" where
  "dot_dot_loop len path i j =
     (if i < len
      then do {
        up \<leftarrow> dot_dot_at path i;
        if up
        then do {
          j' \<leftarrow> (if 0 < j then back_up path (j - 1) else Some j);
          dot_dot_loop len path (i + 3) j' }
        else do {
          c \<leftarrow> load path i;
          path' \<leftarrow> store path j c;
          dot_dot_loop len path' (i + 1) (j + 1) } }
      else Some (path, j))"
  by pat_completeness auto
termination by (relation "measure (\<lambda>(len, path, i, j). len - i)") auto

declare dot_dot_loop.simps [simp del]

definition remove_dot_dot :: "region \<Rightarrow> region option" where
  "remove_dot_dot path = do {
     len \<leftarrow> strlen path 0;
     (path1, j) \<leftarrow> dot_dot_loop len path 0 0;
     if j \<noteq> 0 then store path1 j 0
     else do { path2 \<leftarrow> store path1 0 0x2f; store path2 1 0 } }"

text \<open>What \<open>cd\<close> makes of the current path and its argument.\<close>

definition cd_path :: "region \<Rightarrow> region \<Rightarrow> nat \<Rightarrow> region option" where
  "cd_path path buf arg_start = do {
     let new_path = \<lparr>rsize = 128, rbyte = (\<lambda>_. 0)\<rparr>;
     c \<leftarrow> load buf arg_start;
     p \<leftarrow> (if c = 0x2f then strcpy new_path 0 buf arg_start
          else do {
            p1 \<leftarrow> strcpy new_path 0 path 0;
            n \<leftarrow> strlen p1 0;
            l \<leftarrow> (if 0 < n then load p1 (n - 1) else None);
            p2 \<leftarrow> (if l \<noteq> 0x2f then strcat p1 0 (str [0x2f]) 0 else Some p1);
            strcat p2 0 buf arg_start });
     p3 \<leftarrow> remove_dot_dot p;
     remove_last_slash p3 }"

section \<open>Paths as lists of parts\<close>

definition path_text :: "u8 list list \<Rightarrow> u8 list" where
  "path_text cs = concat (map (\<lambda>c. 0x2f # c) cs)"

definition part :: "u8 list \<Rightarrow> bool" where
  "part c \<longleftrightarrow> 0 \<notin> set c \<and> 0x2f \<notin> set c"

fun resolve :: "u8 list list \<Rightarrow> u8 list list \<Rightarrow> u8 list list" where
  "resolve st [] = st"
| "resolve st (c # cs) = resolve (if c = [0x2e, 0x2e] then butlast st else st @ [c]) cs"

lemma path_text_append [simp]: "path_text (xs @ ys) = path_text xs @ path_text ys"
  by (simp add: path_text_def)

lemma path_text_Cons [simp]: "path_text (c # cs) = 0x2f # c @ path_text cs" and path_text_Nil [simp]: "path_text [] = []"
  by (simp_all add: path_text_def)

lemma path_text_nz: "\<forall>c \<in> set cs. part c \<Longrightarrow> 0 \<notin> set (path_text cs)"
  by (induction cs) (auto simp: part_def)

lemma path_text_empty: "path_text cs = [] \<longleftrightarrow> cs = []"
  by (cases cs) simp_all

section \<open>Steps of the loop\<close>

text \<open>The text \<open>out\<close> has been written, the text \<open>rest\<close> is still to be read from \<open>i\<close> on.\<close>

definition rewriting :: "region \<Rightarrow> u8 list \<Rightarrow> nat \<Rightarrow> u8 list \<Rightarrow> bool" where
  "rewriting path out i rest \<longleftrightarrow> length out \<le> i \<and> (\<forall>k < length out. rbyte path k = out ! k) \<and> cstr path i rest"

lemma rewriting_load: "rewriting path out i (c # rest) \<Longrightarrow> load path i = Some c"
  by (simp add: rewriting_def load_def)

lemma rewriting_copy:
  assumes "rewriting path out i (c # rest)"
  obtains path' where "store path (length out) c = Some path'" "rewriting path' (out @ [c]) (i + 1) rest" "rsize path' = rsize path"
proof -
  let ?p = "path\<lparr>rbyte := (rbyte path)(length out := c)\<rparr>"
  have "cstr path (i + 1) rest" using assms by (simp add: rewriting_def)
  then have "cstr ?p (i + 1) rest"
    by (rule cstr_cong) (use assms in \<open>auto simp: rewriting_def\<close>)
  then have "rewriting ?p (out @ [c]) (i + 1) rest"
    using assms by (auto simp: rewriting_def nth_append less_Suc_eq)
  moreover have "length out < rsize path" using assms by (simp add: rewriting_def)
  ultimately show ?thesis using that [of ?p] by (simp add: store_def)
qed

lemma cstr_load: "cstr r p xs \<Longrightarrow> k \<le> length xs \<Longrightarrow> load r (p + k) = Some (if k < length xs then xs ! k else 0)"
  by (auto simp: load_def cstr_def le_less)

text \<open>The characters of a part are copied.\<close>

lemma copy_part:
  "rewriting path out i (xs @ rest) \<Longrightarrow> 0x2f \<notin> set xs \<Longrightarrow> i + length xs \<le> len \<Longrightarrow>
   \<exists>path'. dot_dot_loop len path i (length out) = dot_dot_loop len path' (i + length xs) (length out + length xs)
     \<and> rewriting path' (out @ xs) (i + length xs) rest \<and> rsize path' = rsize path"
proof (induction xs arbitrary: path out i)
  case (Cons c xs)
  have r: "rewriting path out i (c # xs @ rest)" using Cons.prems(1) by simp
  obtain p1 where p1: "store path (length out) c = Some p1" "rewriting p1 (out @ [c]) (i + 1) (xs @ rest)" "rsize p1 = rsize path"
    by (rule rewriting_copy [OF r])
  have "dot_dot_at path i = Some False" using rewriting_load [OF r] Cons.prems(2) by (simp add: dot_dot_at_def)
  then have "dot_dot_loop len path i (length out) = dot_dot_loop len p1 (i + 1) (length (out @ [c]))"
    using rewriting_load [OF r] p1(1) Cons.prems(3) by (subst dot_dot_loop.simps) simp
  moreover have "\<exists>path'. dot_dot_loop len p1 (i + 1) (length (out @ [c])) =
      dot_dot_loop len path' (i + 1 + length xs) (length (out @ [c]) + length xs)
      \<and> rewriting path' ((out @ [c]) @ xs) (i + 1 + length xs) rest \<and> rsize path' = rsize p1"
    by (rule Cons.IH [OF p1(2)]) (use Cons.prems in simp_all)
  ultimately show ?case using p1(3) by simp
qed auto

lemma dot_dot_at_part:
  assumes r: "cstr path i (path_text (c # cs))" and c: "part c" "\<forall>c \<in> set cs. part c"
  shows "dot_dot_at path i = Some (c = [0x2e, 0x2e])"
proof -
  note load = cstr_load [OF r]
  have next_char: "(c @ path_text cs) ! length c = 0x2f" if "cs \<noteq> []" using that by (cases cs) (simp_all add: nth_append)
  consider "c = []" | x where "c = [x]" | x y where "c = [x, y]" | x y z w where "c = x # y # z # w"
    by (cases c rule: list.exhaust [case_names Nil Cons]; metis list.exhaust)
  then show ?thesis
  proof cases
    case 1
    then show ?thesis using load [of 0] load [of 1] by (cases cs) (simp_all add: dot_dot_at_def)
  next
    case (2 x)
    then show ?thesis using load [of 0] load [of 1] load [of 2] by (cases cs) (simp_all add: dot_dot_at_def)
  next
    case (3 x y)
    then show ?thesis using load [of 0] load [of 1] load [of 2] load [of 3] by (cases cs) (simp_all add: dot_dot_at_def eval_nat_numeral)
  next
    case (4 x y z w)
    then have "z \<noteq> 0" "z \<noteq> 0x2f" using c(1) by (auto simp: part_def)
    then show ?thesis using 4 load [of 0] load [of 1] load [of 2] load [of 3] by (simp add: dot_dot_at_def eval_nat_numeral)
  qed
qed

lemma back_up_part:
  assumes "\<forall>k < length (pre @ 0x2f # c). rbyte path k = (pre @ 0x2f # c) ! k" "length pre + length c < rsize path" "0x2f \<notin> set c"
  shows "m \<le> length c \<Longrightarrow> back_up path (length pre + m) = Some (length pre)"
proof (induction m)
  case 0
  have "rbyte path (length pre) = 0x2f" using assms(1) by (metis length_append less_add_same_cancel1 list.size(4) nth_append_length zero_less_Suc add_is_0 gr0I nat.distinct(1))
  then show ?case using assms(2) by (subst back_up.simps) (simp add: load_def)
next
  case (Suc m)
  have "rbyte path (length pre + Suc m) = c ! m" using assms(1) Suc.prems by (simp add: nth_append)
  then have "rbyte path (length pre + Suc m) \<noteq> 0x2f" using assms(3) Suc.prems by (metis Suc_le_lessD nth_mem)
  then show ?case using Suc assms(2) by (subst back_up.simps) (simp add: load_def)
qed

section \<open>The loop as a whole\<close>

lemma rewriting_skip:
  "rewriting path (pre @ tail) i (xs @ rest) \<Longrightarrow> rewriting path pre (i + length xs) rest"
  using cstr_append [of path i xs rest] by (auto simp: rewriting_def nth_append)

lemma dot_dot_loop_result:
  assumes "rewriting path (path_text st) i (path_text cs)" "\<forall>c \<in> set st. part c" "\<forall>c \<in> set cs. part c"
    "len = i + length (path_text cs)"
  shows "\<exists>path'. dot_dot_loop len path i (length (path_text st)) = Some (path', length (path_text (resolve st cs)))
    \<and> rewriting path' (path_text (resolve st cs)) len [] \<and> rsize path' = rsize path"
  using assms
proof (induction cs arbitrary: st path i)
  case Nil
  then show ?case by (subst dot_dot_loop.simps) simp
next
  case (Cons c cs)
  have f: "cstr path i (path_text (c # cs))" using Cons.prems(1) by (simp add: rewriting_def)
  have c: "part c" "\<forall>c \<in> set cs. part c" using Cons.prems(3) by simp_all
  have up: "dot_dot_at path i = Some (c = [0x2e, 0x2e])" by (rule dot_dot_at_part [OF f c])
  have lt: "i < len" using Cons.prems(4) by simp
  show ?case
  proof (cases "c = [0x2e, 0x2e]")
    case True
    let ?st = "butlast st"
    have upwards: "(if 0 < length (path_text st) then back_up path (length (path_text st) - 1) else Some (length (path_text st)))
        = Some (length (path_text ?st))"
    proof (cases st rule: rev_cases)
      case (snoc st' d)
      have "back_up path (length (path_text st') + length d) = Some (length (path_text st'))"
        by (rule back_up_part) (use Cons.prems(1,2) f snoc in \<open>auto simp: rewriting_def part_def cstr_def\<close>)
      then show ?thesis using snoc by simp
    qed simp
    have "rewriting path (path_text ?st @ path_text (if st = [] then [] else [last st])) i ((0x2f # c) @ path_text cs)"
      using Cons.prems(1) by (cases st rule: rev_cases) simp_all
    from rewriting_skip [OF this] have r: "rewriting path (path_text ?st) (i + 3) (path_text cs)" using True by (simp add: numeral_3_eq_3)
    have "dot_dot_loop len path i (length (path_text st)) = dot_dot_loop len path (i + 3) (length (path_text ?st))"
      using up lt upwards True by (subst dot_dot_loop.simps) simp
    moreover have "\<exists>path'. dot_dot_loop len path (i + 3) (length (path_text ?st)) = Some (path', length (path_text (resolve ?st cs)))
        \<and> rewriting path' (path_text (resolve ?st cs)) len [] \<and> rsize path' = rsize path"
      by (rule Cons.IH [OF r]) (use Cons.prems(2,4) c True in \<open>auto dest: in_set_butlastD\<close>)
    ultimately show ?thesis using True by simp
  next
    case False
    have r0: "rewriting path (path_text st) i (0x2f # c @ path_text cs)" using Cons.prems(1) by simp
    obtain p1 where p1: "store path (length (path_text st)) 0x2f = Some p1"
      "rewriting p1 (path_text st @ [0x2f]) (i + 1) (c @ path_text cs)" "rsize p1 = rsize path"
      by (rule rewriting_copy [OF r0])
    have l1: "dot_dot_loop len path i (length (path_text st)) = dot_dot_loop len p1 (i + 1) (length (path_text st @ [0x2f]))"
      using up lt False rewriting_load [OF r0] p1(1) by (subst dot_dot_loop.simps) simp
    have ns: "0x2f \<notin> set c" using c(1) by (simp add: part_def)
    have len: "i + 1 + length c \<le> len" using Cons.prems(4) by simp
    obtain p2 where p2: "dot_dot_loop len p1 (i + 1) (length (path_text st @ [0x2f]))
        = dot_dot_loop len p2 (i + 1 + length c) (length (path_text st @ [0x2f]) + length c)"
      "rewriting p2 ((path_text st @ [0x2f]) @ c) (i + 1 + length c) (path_text cs)" "rsize p2 = rsize p1"
      using copy_part [OF p1(2) ns len] by blast
    have r: "rewriting p2 (path_text (st @ [c])) (i + 1 + length c) (path_text cs)" using p2(2) by simp
    have "\<exists>path'. dot_dot_loop len p2 (i + 1 + length c) (length (path_text (st @ [c])))
        = Some (path', length (path_text (resolve (st @ [c]) cs)))
        \<and> rewriting path' (path_text (resolve (st @ [c]) cs)) len [] \<and> rsize path' = rsize p2"
      by (rule Cons.IH [OF r]) (use Cons.prems(2,4) c in auto)
    then show ?thesis using l1 p2(1,3) p1(3) False by simp
  qed
qed

lemma resolve_all:
  "\<forall>c \<in> set st. P c \<Longrightarrow> \<forall>c \<in> set cs. c \<noteq> [0x2e, 0x2e] \<longrightarrow> P c \<Longrightarrow> \<forall>c \<in> set (resolve st cs). P c"
proof (induction st cs rule: resolve.induct)
  case (2 st c cs)
  have "\<forall>d \<in> set (if c = [0x2e, 0x2e] then butlast st else st @ [c]). P d"
    using "2.prems" by (auto dest: in_set_butlastD)
  from "2.IH" [OF this] "2.prems"(2) show ?case by simp
qed simp

lemma resolve_parts: "\<forall>c \<in> set cs. part c \<Longrightarrow> \<forall>c \<in> set (resolve [] cs). part c"
  by (rule resolve_all) simp_all

lemma resolve_no_dots: "[0x2e, 0x2e] \<notin> set (resolve [] cs)"
  using resolve_all [of "[]" "\<lambda>c. c \<noteq> [0x2e, 0x2e]" cs] by auto

section \<open>The property\<close>

text \<open>(C40) \<open>remove_dot_dot\<close> resolves the parts of an absolute path from the left: a part \<open>..\<close> removes the
  one before it that is left, and nothing at the root. The result is written in place, terminated,
  and is the root when no part is left; no \<open>..\<close> remains.\<close>

theorem remove_dot_dot_resolves:
  assumes "cstr path 0 (path_text cs)" "\<forall>c \<in> set cs. part c" "cs \<noteq> []"
  shows "\<exists>path'. remove_dot_dot path = Some path' \<and> rsize path' = rsize path
    \<and> cstr path' 0 (if resolve [] cs = [] then [0x2f] else path_text (resolve [] cs)) \<and> [0x2e, 0x2e] \<notin> set (resolve [] cs)"
proof -
  let ?t = "path_text (resolve [] cs)" and ?len = "length (path_text cs)"
  have "rewriting path (path_text []) 0 (path_text cs)" using assms(1) by (simp add: rewriting_def)
  then obtain p1 where p1: "dot_dot_loop ?len path 0 0 = Some (p1, length ?t)" "rewriting p1 ?t ?len []" "rsize p1 = rsize path"
    using dot_dot_loop_result [of path "[]" 0 cs ?len] assms(2) by auto
  have len: "strlen path 0 = Some ?len" by (rule strlen_cstr [OF assms(1)])
  have room: "?len < rsize path" "0 < ?len" using assms(1,3) by (auto simp: cstr_def path_text_empty)
  have nz: "0 \<notin> set ?t" by (rule path_text_nz [OF resolve_parts [OF assms(2)]])
  have one: "1 < rsize path" using room by linarith
  note nd = resolve_no_dots [of cs]
  show ?thesis
  proof (cases "resolve [] cs = []")
    case True
    let ?p = "p1\<lparr>rbyte := (rbyte p1)(0 := 0x2f, 1 := 0)\<rparr>"
    have "remove_dot_dot path = Some ?p"
      using len p1(1,3) True one by (simp add: remove_dot_dot_def store_def)
    moreover have "cstr ?p 0 [0x2f]" using one p1(3) by simp
    ultimately show ?thesis using True p1(3) nd by simp
  next
    case False
    let ?p = "p1\<lparr>rbyte := (rbyte p1)(length ?t := 0)\<rparr>"
    have l: "length ?t \<le> ?len" "0 < length ?t" using p1(2) False by (auto simp: rewriting_def path_text_empty)
    then have "remove_dot_dot path = Some ?p" using len p1(1,3) room by (simp add: remove_dot_dot_def store_def)
    moreover have "cstr ?p 0 ?t" using p1(2,3) l room nz by (auto simp: rewriting_def cstr_def)
    ultimately show ?thesis using False p1(3) nd by simp
  qed
qed

text \<open>The path \<open>/a/../b\<close>.\<close>

theorem remove_dot_dot_resolves_witness:
  "\<exists>p. remove_dot_dot (str (ascii ''/a/../b'')) = Some p \<and> cstr p 0 (ascii ''/b'')"
proof -
  let ?cs = "[[0x61], [0x2e, 0x2e], [0x62]] :: u8 list list"
  have t: "path_text ?cs = ascii ''/a/../b''" "path_text [[0x62]] = ascii ''/b''" by (simp_all add: ascii_def)
  have "cstr (str (ascii ''/a/../b'')) 0 (path_text ?cs)" unfolding t(1) by (rule str_cstr) (simp add: ascii_def)
  from remove_dot_dot_resolves [OF this] show ?thesis unfolding t(2) [symmetric] by (auto simp: part_def)
qed

end
